(* ===== verification/Prelude.thy ===== *)
theory Prelude
  imports Main "HOL-Library.Word" "HOL-Library.AList"
begin

text \<open>
  Shared vocabulary of the development.

  \<^item> Bytes are \<open>8 word\<close>, JavaScript strings are lists of UTF-16 code units
    (\<open>16 word\<close>), so \<open>length\<close> is JavaScript's \<open>.length\<close>.
  \<^item> A thrown error is the left side of a sum; \<open>rbind\<close> sequences two steps that may throw.
  \<^item> A JavaScript \<open>Map\<close> iterates in insertion order. It is an association list with
    distinct keys: \<open>set\<close> is \<open>AList.update\<close> (in place for a present key, at the
    end for a new one), \<open>delete\<close> is \<open>AList.delete\<close>, \<open>get\<close> is \<open>map_of\<close>,
    \<open>size\<close> is \<open>length\<close>.
  \<^item> Integers held in a double are naturals or integers; \<open>js_round\<close> is the rounding of a
    sum that leaves the 53-bit range.
\<close>

section \<open>Types\<close>

type_synonym byte = "8 word"
type_synonym bytes = "byte list"
type_synonym jsstr = "16 word list"
type_synonym ('k, 'v) jsmap = "('k \<times> 'v) list"

text \<open>String literals of the source, given as ASCII.\<close>

definition js :: "string \<Rightarrow> jsstr" where
  "js s = map of_char s"

named_theorems js_eval \<open>equations that evaluate string literals\<close>
named_theorems jsmap_simps \<open>lookup, key and size equations of JavaScript maps\<close>

declare js_def [js_eval]

section \<open>Steps that may throw\<close>

definition rbind :: "'e + 'a \<Rightarrow> ('a \<Rightarrow> 'e + 'b) \<Rightarrow> 'e + 'b" where
  "rbind m f = (case m of Inl e \<Rightarrow> Inl e | Inr x \<Rightarrow> f x)"

lemma rbind_simps [simp]:
  "rbind (Inl e) f = Inl e"
  "rbind (Inr x) f = f x"
  by (simp_all add: rbind_def)

lemma rbind_Inr_iff: "rbind m f = Inr y \<longleftrightarrow> (\<exists>x. m = Inr x \<and> f x = Inr y)"
  by (cases m) auto

lemma rbind_cong [fundef_cong]:
  "m = m' \<Longrightarrow> (\<And>x. m' = Inr x \<Longrightarrow> f x = g x) \<Longrightarrow> rbind m f = rbind m' g"
  by (cases m') auto

section \<open>JavaScript maps\<close>

abbreviation jm_get :: "('k, 'v) jsmap \<Rightarrow> 'k \<Rightarrow> 'v option" where
  "jm_get m k \<equiv> map_of m k"

abbreviation jm_set :: "('k, 'v) jsmap \<Rightarrow> 'k \<Rightarrow> 'v \<Rightarrow> ('k, 'v) jsmap" where
  "jm_set m k v \<equiv> AList.update k v m"

abbreviation jm_delete :: "('k, 'v) jsmap \<Rightarrow> 'k \<Rightarrow> ('k, 'v) jsmap" where
  "jm_delete m k \<equiv> AList.delete k m"

definition jm_has :: "('k, 'v) jsmap \<Rightarrow> 'k \<Rightarrow> bool" where
  "jm_has m k = (map_of m k \<noteq> None)"

abbreviation jm_keys :: "('k, 'v) jsmap \<Rightarrow> 'k list" where
  "jm_keys m \<equiv> map fst m"

abbreviation jm_ok :: "('k, 'v) jsmap \<Rightarrow> bool" where
  "jm_ok m \<equiv> distinct (map fst m)"

lemma jm_get_set [jsmap_simps]: "jm_get (jm_set m k v) k' = (if k' = k then Some v else jm_get m k')"
  by (simp add: update_conv')

lemma jm_get_delete [jsmap_simps]: "jm_get (jm_delete m k) k' = (if k' = k then None else jm_get m k')"
  by (simp add: delete_conv')

lemma jm_has_set [jsmap_simps]: "jm_has (jm_set m k v) k' \<longleftrightarrow> k' = k \<or> jm_has m k'"
  by (simp add: jm_has_def jsmap_simps)

lemma jm_has_delete [jsmap_simps]: "jm_has (jm_delete m k) k' \<longleftrightarrow> k' \<noteq> k \<and> jm_has m k'"
  by (simp add: jm_has_def jsmap_simps)

lemma jm_has_Nil [simp]: "\<not> jm_has [] k"
  by (simp add: jm_has_def)

lemma jm_has_iff_keys: "jm_has m k \<longleftrightarrow> k \<in> set (jm_keys m)"
  by (simp add: jm_has_def map_of_eq_None_iff)

lemma jm_get_None_has: "jm_get m k = None \<longleftrightarrow> \<not> jm_has m k"
  by (simp add: jm_has_def)

lemma jm_ok_set [intro, simp]: "jm_ok m \<Longrightarrow> jm_ok (jm_set m k v)"
  by (rule distinct_update)

lemma jm_ok_delete [intro, simp]: "jm_ok m \<Longrightarrow> jm_ok (jm_delete m k)"
  by (rule distinct_delete)

lemma jm_set_new [jsmap_simps]: "\<not> jm_has m k \<Longrightarrow> jm_set m k v = m @ [(k, v)]"
  by (induction m) (auto simp: jm_has_def split: if_splits)

lemma jm_keys_set_has: "jm_has m k \<Longrightarrow> jm_keys (jm_set m k v) = jm_keys m"
  by (induction m) (auto simp: jm_has_def split: if_splits)

lemma jm_size_set: "length (jm_set m k v) = (if jm_has m k then length m else Suc (length m))"
  by (induction m) (auto simp: jm_has_def split: if_splits)

lemma jm_size_delete:
  "jm_ok m \<Longrightarrow> length (jm_delete m k) = (if jm_has m k then length m - 1 else length m)"
proof (induction m)
  case (Cons p m)
  show ?case
  proof (cases "fst p = k")
    case True
    with Cons.prems have "k \<notin> fst ` set m" by auto
    then have "jm_delete m k = m" by (simp add: delete_idem)
    with True show ?thesis by (cases p) (simp add: jm_has_def)
  next
    case False
    from Cons have "length (jm_delete m k) = (if jm_has m k then length m - 1 else length m)"
      by simp
    moreover have "jm_has m k \<Longrightarrow> 0 < length m"
      by (cases m) auto
    moreover have "jm_has (p # m) k = jm_has m k"
      using False by (cases p) (simp add: jm_has_def)
    moreover have "length (jm_delete (p # m) k) = Suc (length (jm_delete m k))"
      using False by simp
    ultimately show ?thesis by (cases "jm_has m k") simp_all
  qed
qed simp

lemma jm_set_eq_keys: "set (jm_keys (jm_set m k v)) = insert k (set (jm_keys m))"
  by (rule set_eqI) (simp only: jm_has_iff_keys [symmetric] jsmap_simps insert_iff)

lemma jm_delete_keys: "jm_keys (jm_delete m k) = filter (\<lambda>k'. k' \<noteq> k) (jm_keys m)"
  by (induction m) auto

lemma jm_delete_absent: "\<not> jm_has m k \<Longrightarrow> jm_delete m k = m"
  by (simp add: jm_has_iff_keys delete_idem)

section \<open>Numbers\<close>

text \<open>Doubles represent every integer below \<open>2^53\<close>; above, a sum rounds to 53 significant
  bits, ties to even.\<close>

fun bit_len :: "nat \<Rightarrow> nat" where
  "bit_len n = (if n = 0 then 0 else Suc (bit_len (n div 2)))"

declare bit_len.simps [simp del]

definition js_round :: "nat \<Rightarrow> nat" where
  "js_round n =
     (if n < 2 ^ 53 then n
      else let s = 2 ^ (bit_len n - 53); q = n div s; r = n mod s
           in s * (if 2 * r < s \<or> 2 * r = s \<and> even q then q else q + 1))"

lemma js_round_exact [simp]: "n < 2 ^ 53 \<Longrightarrow> js_round n = n"
  by (simp add: js_round_def)

text \<open>Decimal digits, as \<open>String(n)\<close> and template literals print a natural number.\<close>

fun decimal :: "nat \<Rightarrow> jsstr" where
  "decimal n = (if n < 10 then [word_of_nat (48 + n)]
                else decimal (n div 10) @ [word_of_nat (48 + n mod 10)])"

declare decimal.simps [simp del]

definition undecimal :: "jsstr \<Rightarrow> nat" where
  "undecimal s = foldl (\<lambda>acc u. 10 * acc + (unat u - 48)) 0 s"

lemma unat_digit: "d < 10 \<Longrightarrow> unat (word_of_nat (48 + d) :: 16 word) = 48 + d"
  by (simp add: unat_of_nat del: of_nat_add)

lemma undecimal_decimal [simp]: "undecimal (decimal n) = n"
proof (induction n rule: decimal.induct)
  case (1 n)
  show ?case
  proof (cases "n < 10")
    case True
    then show ?thesis
      by (subst decimal.simps) (simp add: undecimal_def unat_digit del: of_nat_add)
  next
    case False
    with 1 have "undecimal (decimal (n div 10)) = n div 10" by simp
    with False show ?thesis
      by (subst decimal.simps) (simp add: undecimal_def unat_digit del: of_nat_add)
  qed
qed

lemma decimal_inject [simp]: "decimal m = decimal n \<longleftrightarrow> m = n"
  by (metis undecimal_decimal)

section \<open>Lists\<close>

lemma sum_list_map_filter_split:
  "sum_list (map f (filter P xs)) + sum_list (map f (filter (\<lambda>x. \<not> P x) xs)) = sum_list (map f xs)"
  for f :: "'a \<Rightarrow> nat"
  by (induction xs) auto

lemma find_Some_in: "find P xs = Some x \<Longrightarrow> x \<in> set xs \<and> P x"
  by (induction xs) (auto split: if_splits)

end
