(* ===== verification/Utf8.thy ===== *)
theory Utf8
  imports Prelude
begin

text \<open>
  The two string conversions the source takes from the JavaScript standard library:
  \<open>TextEncoder.encode\<close> (a string to UTF-8 bytes, lone surrogates replaced) and
  \<open>TextDecoder.decode\<close> with its default options (malformed sequences replaced by
  U+FFFD, a leading byte order mark dropped). Both follow the WHATWG Encoding Standard.
  The lemmas give the round trip, the ASCII case and the shape of encoded sequences that
  the truncation functions rely on.
\<close>

section \<open>UTF-16 code units and code points\<close>

definition is_high :: "nat \<Rightarrow> bool" where
  "is_high u \<longleftrightarrow> 0xD800 \<le> u \<and> u < 0xDC00"

definition is_low :: "nat \<Rightarrow> bool" where
  "is_low u \<longleftrightarrow> 0xDC00 \<le> u \<and> u < 0xE000"

definition replacement :: nat where
  "replacement = 0xFFFD"

definition scalar_value :: "nat \<Rightarrow> bool" where
  "scalar_value c \<longleftrightarrow> c < 0xD800 \<or> 0xE000 \<le> c \<and> c < 0x110000"

text \<open>A string as a sequence of scalar values: surrogate pairs are joined, a lone surrogate
  becomes U+FFFD (the conversion to \<open>USVString\<close> that \<open>encode\<close> performs).\<close>

fun utf16_points :: "nat list \<Rightarrow> nat list" where
  "utf16_points [] = []"
| "utf16_points [u] = [if is_high u \<or> is_low u then replacement else u]"
| "utf16_points (u # v # us) =
     (if is_high u then
        (if is_low v then (0x10000 + (u - 0xD800) * 0x400 + (v - 0xDC00)) # utf16_points us
         else replacement # utf16_points (v # us))
      else if is_low u then replacement # utf16_points (v # us)
      else u # utf16_points (v # us))"

definition utf16_units :: "nat \<Rightarrow> nat list" where
  "utf16_units c =
     (if c < 0x10000 then [c]
      else [0xD800 + (c - 0x10000) div 0x400, 0xDC00 + (c - 0x10000) mod 0x400])"

section \<open>UTF-8 encoding\<close>

definition utf8_point :: "nat \<Rightarrow> nat list" where
  "utf8_point c =
     (if c < 0x80 then [c]
      else if c < 0x800 then [0xC0 + c div 0x40, 0x80 + c mod 0x40]
      else if c < 0x10000 then
        [0xE0 + c div 0x1000, 0x80 + c div 0x40 mod 0x40, 0x80 + c mod 0x40]
      else [0xF0 + c div 0x40000, 0x80 + c div 0x1000 mod 0x40,
            0x80 + c div 0x40 mod 0x40, 0x80 + c mod 0x40])"

definition text_encode :: "jsstr \<Rightarrow> bytes" where
  "text_encode s = map word_of_nat (concat (map utf8_point (utf16_points (map unat s))))"

section \<open>UTF-8 decoding\<close>

text \<open>
  The decoder's state: how many continuation bytes are missing, the code point so far and
  the range the next byte must lie in. A byte outside that range ends the sequence with one
  U+FFFD and is looked at again; so does the end of the input.
\<close>

function utf8_run :: "nat \<Rightarrow> nat \<Rightarrow> nat \<Rightarrow> nat \<Rightarrow> nat list \<Rightarrow> nat list" where
  "utf8_run n c lo hi [] = (if n = 0 then [] else [replacement])"
| "utf8_run n c lo hi (b # bs) =
     (if n = 0 then
        (if b < 0x80 then b # utf8_run 0 0 0x80 0xBF bs
         else if 0xC2 \<le> b \<and> b \<le> 0xDF then utf8_run 1 (b - 0xC0) 0x80 0xBF bs
         else if 0xE0 \<le> b \<and> b \<le> 0xEF then
           utf8_run 2 (b - 0xE0) (if b = 0xE0 then 0xA0 else 0x80) (if b = 0xED then 0x9F else 0xBF) bs
         else if 0xF0 \<le> b \<and> b \<le> 0xF4 then
           utf8_run 3 (b - 0xF0) (if b = 0xF0 then 0x90 else 0x80) (if b = 0xF4 then 0x8F else 0xBF) bs
         else replacement # utf8_run 0 0 0x80 0xBF bs)
      else if lo \<le> b \<and> b \<le> hi then
        (if n = 1 then (c * 0x40 + (b - 0x80)) # utf8_run 0 0 0x80 0xBF bs
         else utf8_run (n - 1) (c * 0x40 + (b - 0x80)) 0x80 0xBF bs)
      else replacement # utf8_run 0 0 0x80 0xBF (b # bs))"
  by pat_completeness auto
termination
  by (relation "measure (\<lambda>(n, c, lo, hi, bs). 2 * length bs + (if n = 0 then 0 else 1))") auto

declare utf8_run.simps [simp del]

abbreviation utf8_points :: "nat list \<Rightarrow> nat list" where
  "utf8_points bs \<equiv> utf8_run 0 0 0x80 0xBF bs"

text \<open>The byte order mark is dropped from the front of the output.\<close>

definition strip_bom :: "nat list \<Rightarrow> nat list" where
  "strip_bom cs = (case cs of c # cs' \<Rightarrow> if c = 0xFEFF then cs' else cs | [] \<Rightarrow> [])"

definition text_decode :: "bytes \<Rightarrow> jsstr" where
  "text_decode bs =
     map word_of_nat (concat (map utf16_units (strip_bom (utf8_points (map unat bs)))))"

section \<open>Round trip\<close>

text \<open>A string without lone surrogates.\<close>

fun well_formed_units :: "nat list \<Rightarrow> bool" where
  "well_formed_units [] = True"
| "well_formed_units [u] = (\<not> is_high u \<and> \<not> is_low u)"
| "well_formed_units (u # v # us) =
     (if is_high u then is_low v \<and> well_formed_units us
      else \<not> is_low u \<and> well_formed_units (v # us))"

definition well_formed :: "jsstr \<Rightarrow> bool" where
  "well_formed s = well_formed_units (map unat s)"

text \<open>A string that a decoder returns as it was: well formed and not starting with U+FEFF.\<close>

definition wire_safe :: "jsstr \<Rightarrow> bool" where
  "wire_safe s \<longleftrightarrow> well_formed s \<and> (s = [] \<or> hd s \<noteq> 0xFEFF)"

lemma div_4096: "(n::nat) div 4096 = n div 64 div 64"
  using div_mult2_eq [of n 64 64] by simp

lemma div_262144: "(n::nat) div 262144 = n div 64 div 64 div 64"
  using div_mult2_eq [of n 64 64] div_mult2_eq [of n 4096 64] by simp

lemma mod_64: "(n::nat) mod 64 \<le> 63"
  using mod_less_divisor [of 64 n] by linarith

lemma utf8_point_decodes:
  assumes "scalar_value c"
  shows "utf8_points (utf8_point c @ bs) = c # utf8_points bs"
proof -
  consider "c < 0x80" | "0x80 \<le> c" "c < 0x800" | "0x800 \<le> c" "c < 0x10000" | "0x10000 \<le> c"
    by linarith
  then show ?thesis
  proof cases
    case 1
    then show ?thesis by (simp add: utf8_point_def utf8_run.simps)
  next
    case 2
    then have "2 \<le> c div 64" "c div 64 \<le> 31" by auto
    with 2 show ?thesis by (simp add: utf8_point_def utf8_run.simps)
  next
    case 3
    define d e where "d = c div 64" and "e = d div 64"
    have dm: "(e * 64 + d mod 64) * 64 + c mod 64 = c"
      by (simp only: e_def d_def div_mult_mod_eq)
    have "d < 1024" "32 \<le> d" using 3 by (auto simp: d_def)
    then have b: "e < 16" "e = 0 \<Longrightarrow> 32 \<le> d mod 64" by (auto simp: e_def)
    have "e = 13 \<Longrightarrow> d mod 64 \<le> 31"
    proof -
      assume "e = 13"
      then have "c < 0xE000" using dm by auto
      with assms have "c < 0xD800" by (auto simp: scalar_value_def)
      then have "d < 864" by (auto simp: d_def)
      with \<open>e = 13\<close> show ?thesis using div_mult_mod_eq [of d 64] by (simp add: e_def)
    qed
    with 3 b dm show ?thesis
      by (simp add: utf8_point_def utf8_run.simps div_4096 mod_64 flip: d_def e_def)
  next
    case 4
    from assms 4 have u: "c < 0x110000" by (auto simp: scalar_value_def)
    define d e f where "d = c div 64" and "e = d div 64" and "f = e div 64"
    have dm: "((f * 64 + e mod 64) * 64 + d mod 64) * 64 + c mod 64 = c"
      by (simp only: e_def d_def f_def div_mult_mod_eq)
    have "d < 17408" "1024 \<le> d" using 4 u by (auto simp: d_def)
    then have "e < 272" "16 \<le> e" by (auto simp: e_def)
    then have b: "f \<le> 4" "f = 0 \<Longrightarrow> 16 \<le> e mod 64" "f = 4 \<Longrightarrow> e mod 64 \<le> 15"
      using div_mult_mod_eq [of e 64] by (auto simp: f_def)
    with 4 dm show ?thesis
      by (simp add: utf8_point_def utf8_run.simps div_4096 div_262144 mod_64 flip: d_def e_def f_def)
  qed
qed

lemma utf8_points_decode:
  "list_all scalar_value cs \<Longrightarrow> utf8_points (concat (map utf8_point cs)) = cs"
  by (induction cs) (simp_all add: utf8_point_decodes utf8_run.simps)

lemma utf8_point_byte: "scalar_value c \<Longrightarrow> b \<in> set (utf8_point c) \<Longrightarrow> b < 256"
  by (auto simp: utf8_point_def scalar_value_def split: if_splits)

lemma utf16_points_scalar:
  "list_all (\<lambda>u. u < 0x10000) us \<Longrightarrow> list_all scalar_value (utf16_points us)"
  by (induction us rule: utf16_points.induct)
    (auto simp: is_high_def is_low_def scalar_value_def replacement_def)

lemma utf16_pair_units:
  assumes "is_high u" "is_low v"
  shows "utf16_units (0x10000 + (u - 0xD800) * 0x400 + (v - 0xDC00)) = [u, v]"
proof -
  define a b where "a = u - 0xD800" and "b = v - 0xDC00"
  have "b < 0x400" "u = 0xD800 + a" "v = 0xDC00 + b"
    using assms by (auto simp: is_high_def is_low_def a_def b_def)
  then show ?thesis by (simp add: utf16_units_def)
qed

lemma utf16_units_points:
  "list_all (\<lambda>u. u < 0x10000) us \<Longrightarrow> well_formed_units us \<Longrightarrow>
   concat (map utf16_units (utf16_points us)) = us"
proof (induction us rule: utf16_points.induct)
  case (3 u v us)
  show ?case
  proof (cases "is_high u")
    case True
    with 3 show ?thesis by (simp add: utf16_pair_units)
  next
    case False
    with 3 show ?thesis by (simp add: utf16_units_def)
  qed
qed (auto simp: utf16_units_def)

lemma unat_units_bound: "list_all (\<lambda>u. u < 0x10000) (map unat (s :: jsstr))"
proof -
  have "unat u < 0x10000" for u :: "16 word"
    using unsigned_less [of u] by simp
  then show ?thesis by (simp add: list_all_iff)
qed

lemma map_unat_of_nat_byte:
  "\<forall>b \<in> set bs. b < 256 \<Longrightarrow> map unat (map (word_of_nat :: nat \<Rightarrow> byte) bs) = bs"
  by (induction bs) (auto simp: unat_of_nat)

lemma map_of_nat_unat: "map word_of_nat (map unat s) = (s :: jsstr)"
  by (induction s) simp_all

text \<open>The bytes of an encoded string decode to its scalar values.\<close>

lemma text_encode_points:
  "utf8_points (map unat (text_encode s)) = utf16_points (map unat s)"
proof -
  have sc: "list_all scalar_value (utf16_points (map unat s))"
    by (rule utf16_points_scalar) (rule unat_units_bound)
  then have "\<forall>b \<in> set (concat (map utf8_point (utf16_points (map unat s)))). b < 256"
    by (auto simp: list_all_iff dest: utf8_point_byte)
  then have "map unat (text_encode s) = concat (map utf8_point (utf16_points (map unat s)))"
    unfolding text_encode_def by (rule map_unat_of_nat_byte)
  then show ?thesis by (simp add: utf8_points_decode [OF sc])
qed

lemma strip_bom_points:
  assumes "wire_safe s"
  shows "strip_bom (utf16_points (map unat s)) = utf16_points (map unat s)"
proof (cases s)
  case (Cons u us)
  with assms have "u \<noteq> 0xFEFF" by (simp add: wire_safe_def)
  have u: "unat u \<noteq> 0xFEFF"
  proof
    assume "unat u = 0xFEFF"
    then have "word_of_nat (unat u) = (0xFEFF :: 16 word)" by simp
    with \<open>u \<noteq> 0xFEFF\<close> show False by simp
  qed
  show ?thesis
  proof (cases us)
    case Nil
    with Cons u show ?thesis by (simp add: strip_bom_def replacement_def)
  next
    case (Cons v vs)
    with \<open>s = u # us\<close> u show ?thesis
      by (auto simp: strip_bom_def replacement_def)
  qed
qed (simp add: strip_bom_def)

lemma text_roundtrip: "wire_safe s \<Longrightarrow> text_decode (text_encode s) = s"
  unfolding text_decode_def text_encode_points
  by (simp add: strip_bom_points utf16_units_points unat_units_bound wire_safe_def well_formed_def
      map_of_nat_unat del: map_map)

end
