(* ===== verification/Varint.thy ===== *)
theory Varint
  imports Utf8
begin

unbundle bit_operations_syntax

text \<open>
  The byte plumbing of \<open>handshake/src/wire/varint.ts\<close>: the growable \<open>Writer\<close>
  (a typed array with spare capacity) and the \<open>Reader\<close> (the unread suffix of a buffer).
  The writer lemmas show that every operation appends exactly its bytes to what
  \<open>done()\<close> returns, whatever the capacity; the reader lemmas show that reading undoes
  writing, that every read consumes bytes, and when it throws.
\<close>

section \<open>Writer\<close>

record writer =
  w_buf :: bytes
  w_len :: nat

definition new_writer :: writer where
  "new_writer = \<lparr>w_buf = replicate 64 0, w_len = 0\<rparr>"

text \<open>\<open>while (cap < need) cap *= 2\<close>; the capacity starts at 64, so it is never 0.\<close>

function grow_cap :: "nat \<Rightarrow> nat \<Rightarrow> nat" where
  "grow_cap cap need = (if 0 < cap \<and> cap < need then grow_cap (2 * cap) need else cap)"
  by pat_completeness auto
termination
  by (relation "measure (\<lambda>(cap, need). need - cap)") auto

declare grow_cap.simps [simp del]

definition w_grow :: "nat \<Rightarrow> writer \<Rightarrow> writer" where
  "w_grow extra w =
     (if w_len w + extra \<le> length (w_buf w) then w
      else let cap = grow_cap (length (w_buf w)) (w_len w + extra)
           in w\<lparr>w_buf := take (w_len w) (w_buf w) @ replicate (cap - w_len w) 0\<rparr>)"

text \<open>\<open>buf[len++] = b\<close>; a typed array ignores a write past its end, as does \<open>list_update\<close>.\<close>

definition w_put :: "byte \<Rightarrow> writer \<Rightarrow> writer" where
  "w_put b w = w\<lparr>w_buf := (w_buf w)[w_len w := b], w_len := w_len w + 1\<rparr>"

fun w_varint_loop :: "nat \<Rightarrow> writer \<Rightarrow> writer" where
  "w_varint_loop v w =
     (if v \<ge> 0x80 then w_varint_loop (v div 0x80) (w_put (word_of_nat (v mod 0x80) OR 0x80) w)
      else w_put (word_of_nat v) w)"

declare w_varint_loop.simps [simp del]

definition w_varint :: "nat \<Rightarrow> writer \<Rightarrow> writer" where
  "w_varint v w = w_varint_loop v (w_grow 10 w)"

definition w_len_bytes :: "bytes \<Rightarrow> writer \<Rightarrow> writer" where
  "w_len_bytes bs w =
     (let w = w_varint (length bs) w; w = w_grow (length bs) w
      in w\<lparr>w_buf := take (w_len w) (w_buf w) @ bs @ drop (w_len w + length bs) (w_buf w),
           w_len := w_len w + length bs\<rparr>)"

definition w_done :: "writer \<Rightarrow> bytes" where
  "w_done w = take (w_len w) (w_buf w)"

section \<open>Reader\<close>

datatype wire_error =
    TruncatedVarint | VarintTooLong | LengthExceedsBuffer | UnsupportedWireType nat
  | UnknownType jsstr | NotAnArray jsstr | StackOverflow

text \<open>
  The sum is one addition of doubles per byte: it is exact up to seven bytes and rounds on
  the eighth when it leaves the 53-bit range.
\<close>

fun r_varint_loop :: "nat \<Rightarrow> nat \<Rightarrow> nat \<Rightarrow> bytes \<Rightarrow> wire_error + (nat \<times> bytes)" where
  "r_varint_loop result mul count [] = Inl TruncatedVarint"
| "r_varint_loop result mul count (b # bs) =
     (let result = js_round (result + unat (b AND 0x7F) * mul); count = count + 1
      in if count > 8 then Inl VarintTooLong
         else if b AND 0x80 \<noteq> 0 then r_varint_loop result (mul * 0x80) count bs
         else Inr (result, bs))"

definition r_varint :: "bytes \<Rightarrow> wire_error + (nat \<times> bytes)" where
  "r_varint bs = r_varint_loop 0 1 0 bs"

definition r_take :: "nat \<Rightarrow> bytes \<Rightarrow> wire_error + (bytes \<times> bytes)" where
  "r_take len bs =
     (if len > length bs then Inl LengthExceedsBuffer else Inr (take len bs, drop len bs))"

section \<open>The bytes of a varint\<close>

fun varint_bytes :: "nat \<Rightarrow> bytes" where
  "varint_bytes v =
     (if v \<ge> 0x80 then (word_of_nat (v mod 0x80) OR 0x80) # varint_bytes (v div 0x80)
      else [word_of_nat v])"

declare varint_bytes.simps [simp del]

lemma varint_bytes_small: "v < 0x80 \<Longrightarrow> varint_bytes v = [word_of_nat v]"
  by (simp add: varint_bytes.simps)

lemma varint_bytes_length:
  "v < 0x80 ^ Suc k \<Longrightarrow> length (varint_bytes v) \<le> Suc k"
proof (induction k arbitrary: v)
  case 0
  then show ?case by (simp add: varint_bytes.simps)
next
  case (Suc k)
  have "v div 0x80 < 0x80 ^ Suc k" using Suc.prems by (simp add: less_mult_imp_div_less)
  then have "length (varint_bytes (v div 0x80)) \<le> Suc k" by (rule Suc.IH)
  then show ?case by (subst varint_bytes.simps) simp
qed

lemma varint_bytes_length_53: "v < 2 ^ 53 \<Longrightarrow> length (varint_bytes v) \<le> 8"
  using varint_bytes_length [of v 7] by simp

lemma varint_bytes_nonempty: "varint_bytes v \<noteq> []"
  by (subst varint_bytes.simps) simp

section \<open>The writer appends\<close>

definition w_ok :: "writer \<Rightarrow> bool" where
  "w_ok w \<longleftrightarrow> w_len w \<le> length (w_buf w) \<and> 0 < length (w_buf w)"

lemma new_writer_ok [simp]: "w_ok new_writer" and new_writer_done [simp]: "w_done new_writer = []"
  by (simp_all add: w_ok_def new_writer_def w_done_def)

lemma grow_cap_ge: "0 < cap \<Longrightarrow> need \<le> grow_cap cap need \<and> cap \<le> grow_cap cap need"
proof (induction cap need rule: grow_cap.induct)
  case (1 cap need)
  show ?case
  proof (cases "cap < need")
    case True
    with 1 have "need \<le> grow_cap (2 * cap) need \<and> 2 * cap \<le> grow_cap (2 * cap) need" by simp
    with True 1 show ?thesis by (auto simp: grow_cap.simps [of cap need])
  next
    case False
    then show ?thesis by (simp add: grow_cap.simps)
  qed
qed

lemma w_grow_spec:
  assumes "w_ok w"
  shows "w_ok (w_grow n w)" "w_done (w_grow n w) = w_done w"
    "w_len (w_grow n w) + n \<le> length (w_buf (w_grow n w))" "w_len (w_grow n w) = w_len w"
  using assms grow_cap_ge [of "length (w_buf w)" "w_len w + n"]
  by (auto simp: w_grow_def w_ok_def w_done_def Let_def)

lemma w_put_spec:
  assumes "w_ok w" "w_len w < length (w_buf w)"
  shows "w_ok (w_put b w)" "w_done (w_put b w) = w_done w @ [b]"
    "length (w_buf (w_put b w)) = length (w_buf w)" "w_len (w_put b w) = Suc (w_len w)"
  using assms by (auto simp: w_put_def w_ok_def w_done_def take_Suc_conv_app_nth)

lemma w_varint_loop_spec:
  "w_ok w \<Longrightarrow> w_len w + length (varint_bytes v) \<le> length (w_buf w) \<Longrightarrow>
   w_ok (w_varint_loop v w) \<and> w_done (w_varint_loop v w) = w_done w @ varint_bytes v"
proof (induction v arbitrary: w rule: less_induct)
  case (less v)
  show ?case
  proof (cases "v \<ge> 0x80")
    case True
    let ?w = "w_put (word_of_nat (v mod 0x80) OR 0x80) w"
    have len: "length (varint_bytes v) = Suc (length (varint_bytes (v div 0x80)))"
      using True by (simp add: varint_bytes.simps [of v])
    with less.prems have lt: "w_len w < length (w_buf w)" by simp
    note put = w_put_spec [OF less.prems(1) lt, of "word_of_nat (v mod 0x80) OR 0x80"]
    have "w_ok (w_varint_loop (v div 0x80) ?w) \<and>
        w_done (w_varint_loop (v div 0x80) ?w) = w_done ?w @ varint_bytes (v div 0x80)"
      using True less.prems(2) len put by (intro less.IH) simp_all
    with True put show ?thesis
      by (simp add: w_varint_loop.simps [of v] varint_bytes.simps [of v])
  next
    case False
    with less.prems show ?thesis
      by (simp add: w_varint_loop.simps [of v] varint_bytes.simps [of v] w_put_spec)
  qed
qed

lemma w_varint_ok: "w_ok w \<Longrightarrow> v < 2 ^ 53 \<Longrightarrow> w_ok (w_varint v w)"
  and w_varint_done: "w_ok w \<Longrightarrow> v < 2 ^ 53 \<Longrightarrow> w_done (w_varint v w) = w_done w @ varint_bytes v"
proof -
  assume w: "w_ok w" and v: "v < 2 ^ 53"
  have "w_len (w_grow 10 w) + length (varint_bytes v) \<le> length (w_buf (w_grow 10 w))"
    using w_grow_spec(3) [OF w, of 10] varint_bytes_length_53 [OF v] by linarith
  from w_varint_loop_spec [OF w_grow_spec(1) [OF w] this] w_grow_spec(2) [OF w, of 10]
  show "w_ok (w_varint v w)" "w_done (w_varint v w) = w_done w @ varint_bytes v"
    by (simp_all add: w_varint_def)
qed

lemma w_len_bytes_ok: "w_ok w \<Longrightarrow> length bs < 2 ^ 53 \<Longrightarrow> w_ok (w_len_bytes bs w)"
  and w_len_bytes_done: "w_ok w \<Longrightarrow> length bs < 2 ^ 53 \<Longrightarrow>
    w_done (w_len_bytes bs w) = w_done w @ varint_bytes (length bs) @ bs"
proof -
  assume w: "w_ok w" and v: "length bs < 2 ^ 53"
  define w1 where "w1 = w_varint (length bs) w"
  have w1: "w_ok w1" "w_done w1 = w_done w @ varint_bytes (length bs)"
    using w v by (simp_all add: w1_def w_varint_ok w_varint_done)
  define w2 where "w2 = w_grow (length bs) w1"
  note g = w_grow_spec [OF w1(1), of "length bs", folded w2_def]
  have len: "length (take (w_len w2) (w_buf w2)) = w_len w2"
    using g by (simp add: w_ok_def)
  have eq: "w_len_bytes bs w =
      w2\<lparr>w_buf := take (w_len w2) (w_buf w2) @ bs @ drop (w_len w2 + length bs) (w_buf w2),
         w_len := w_len w2 + length bs\<rparr>"
    by (simp add: w_len_bytes_def Let_def w1_def w2_def)
  show "w_ok (w_len_bytes bs w)" using g by (auto simp: eq w_ok_def)
  show "w_done (w_len_bytes bs w) = w_done w @ varint_bytes (length bs) @ bs"
  proof -
    have "w_done (w_len_bytes bs w) = w_done w2 @ bs" using len by (simp add: eq w_done_def)
    with g w1 show ?thesis by simp
  qed
qed

lemmas writer_simps = w_varint_ok w_varint_done w_len_bytes_ok w_len_bytes_done

section \<open>Reading undoes writing\<close>

lemma unat_and_7F: "unat ((b :: byte) AND 0x7F) = unat b mod 0x80"
proof -
  have "b AND 0x7F = take_bit 7 b" by (simp add: take_bit_eq_mask mask_eq_exp_minus_1)
  then have "unat (b AND 0x7F) = take_bit 7 (unat b)" by (simp only: unsigned_take_bit_eq)
  then show ?thesis by (simp add: take_bit_eq_mod)
qed

lemma last_byte:
  assumes "v < 0x80"
  shows "unat ((word_of_nat v :: byte) AND 0x7F) = v" "(word_of_nat v :: byte) AND 0x80 = 0"
proof -
  show "unat ((word_of_nat v :: byte) AND 0x7F) = v"
    using assms by (simp add: unat_and_7F unat_of_nat)
  have "take_bit 7 v = v" using assms by (simp add: take_bit_eq_mod)
  then have "take_bit 7 (word_of_nat v :: byte) = word_of_nat v" by (simp only: take_bit_of_nat)
  moreover have "take_bit 7 (word_of_nat v :: byte) = word_of_nat v AND 0x7F"
    by (simp add: take_bit_eq_mask mask_eq_exp_minus_1)
  ultimately have "(word_of_nat v :: byte) = word_of_nat v AND 0x7F" by simp
  from arg_cong [OF this, of "\<lambda>w. w AND 0x80"] show "(word_of_nat v :: byte) AND 0x80 = 0"
    by (simp add: and.assoc)
qed

lemma more_byte:
  assumes "v < 0x80"
  shows "unat ((word_of_nat v OR 0x80 :: byte) AND 0x7F) = v" "(word_of_nat v OR 0x80 :: byte) AND 0x80 \<noteq> 0"
proof -
  have "(word_of_nat v OR 0x80 :: byte) AND 0x7F = word_of_nat v AND 0x7F"
    by (simp add: bit.conj_disj_distrib2)
  then show "unat ((word_of_nat v OR 0x80 :: byte) AND 0x7F) = v"
    using last_byte(1) [OF assms] by simp
  show "(word_of_nat v OR 0x80 :: byte) AND 0x80 \<noteq> 0"
    using last_byte(2) [OF assms] by (simp add: bit.conj_disj_distrib2)
qed

lemma r_varint_loop_bytes:
  "r + v * m < 2 ^ 53 \<Longrightarrow> count + length (varint_bytes v) \<le> 8 \<Longrightarrow>
   r_varint_loop r m count (varint_bytes v @ bs) = Inr (r + v * m, bs)"
proof (induction v arbitrary: r m count rule: less_induct)
  case (less v)
  show ?case
  proof (cases "v \<ge> 0x80")
    case True
    have eq: "varint_bytes v = (word_of_nat (v mod 0x80) OR 0x80) # varint_bytes (v div 0x80)"
      using True by (simp add: varint_bytes.simps [of v])
    have "v * m = (v div 0x80 * 0x80 + v mod 0x80) * m" by simp
    then have sum: "r + (v mod 0x80) * m + v div 0x80 * (m * 0x80) = r + v * m"
      by (simp only: add_mult_distrib add_mult_distrib2 ac_simps)
    then have small: "r + (v mod 0x80) * m < 2 ^ 53" using less.prems by linarith
    have "r_varint_loop (r + (v mod 0x80) * m) (m * 0x80) (count + 1) (varint_bytes (v div 0x80) @ bs)
        = Inr (r + (v mod 0x80) * m + v div 0x80 * (m * 0x80), bs)"
      using True less.prems sum by (intro less.IH) (simp_all add: eq)
    moreover have "count + 1 \<le> 8" using less.prems(2) by (simp add: eq)
    ultimately show ?thesis
      using small more_byte [of "v mod 0x80"] by (simp add: eq sum Let_def)
  next
    case False
    then show ?thesis
      using less.prems last_byte [of v] by (simp add: varint_bytes_small Let_def)
  qed
qed

lemma r_varint_bytes [simp]: "v < 2 ^ 53 \<Longrightarrow> r_varint (varint_bytes v @ bs) = Inr (v, bs)"
  using r_varint_loop_bytes [of 0 v 1 0 bs] varint_bytes_length_53 [of v] by (simp add: r_varint_def)

lemma r_take_append [simp]: "r_take (length xs) (xs @ ys) = Inr (xs, ys)"
  by (simp add: r_take_def)

section \<open>Every read consumes input\<close>

lemma r_varint_loop_shorter: "r_varint_loop r m c bs = Inr (n, rest) \<Longrightarrow> length rest < length bs"
  by (induction r m c bs rule: r_varint_loop.induct) (auto simp: Let_def less_SucI split: if_splits)

lemma r_varint_shorter: "r_varint bs = Inr (n, rest) \<Longrightarrow> length rest < length bs"
  by (auto simp: r_varint_def dest: r_varint_loop_shorter)

lemma r_take_shorter: "r_take n bs = Inr (x, rest) \<Longrightarrow> length x + length rest = length bs"
  by (auto simp: r_take_def split: if_splits)

text \<open>A reader never looks at more than eight bytes for one varint.\<close>

lemma r_varint_loop_too_long:
  "c \<le> 8 \<Longrightarrow> 9 \<le> c + length bs \<Longrightarrow> \<forall>b \<in> set (take (9 - c) bs). b AND 0x80 \<noteq> 0 \<Longrightarrow>
   r_varint_loop r m c bs = Inl VarintTooLong"
proof (induction r m c bs rule: r_varint_loop.induct)
  case (2 r m c b bs)
  show ?case
  proof (cases "c = 8")
    case False
    with "2.prems" have "9 - c = Suc (9 - (c + 1))" by simp
    with "2.prems" have hi: "b AND 0x80 \<noteq> 0" "\<forall>b \<in> set (take (9 - (c + 1)) bs). b AND 0x80 \<noteq> 0"
      by auto
    with False "2.prems" "2.IH" [OF refl refl] show ?thesis by (simp add: Let_def)
  qed (simp add: Let_def)
qed simp

end
