(* ===== verification/Serializer.thy ===== *)
theory Serializer
  imports Varint
begin

text \<open>
  The schema-driven serializer of \<open>handshake/src/wire/serializer.ts\<close>. A schema maps
  message type names to ordered field lists; the position in the list is the tag on the wire.
  The definitions follow \<open>write\<close>/\<open>writeField\<close>/\<open>defaultFor\<close> and
  \<open>read\<close>/\<open>readValue\<close>. \<open>spec_message\<close> is the reference encoding (a plain
  list of bytes, no buffer); the lemmas show that the writer implements it, that decoding
  undoes it on conforming messages, and that readers skip fields they do not know.

  Encoding recurses over nested messages; its depth is the fuel argument, and running out of
  it is the \<open>RangeError\<close> of an exhausted call stack. Decoding recurses on a shorter
  buffer and needs no fuel.
\<close>

section \<open>Values and schemas\<close>

text \<open>Type names: the five scalar names, anything else names a message type.\<close>

datatype ftype = TString | TBytes | TUint32 | TInt32 | TBool | TMessage jsstr

datatype frule = Optional | Required | Repeated

record field_def =
  fd_key :: jsstr
  fd_type :: ftype
  fd_rule :: frule

type_synonym schema = "(jsstr, field_def list) jsmap"

text \<open>The JavaScript values that reach the serializer; objects list their own properties in
  insertion order.\<close>

datatype jsval =
    JUndef | JNull | JBool bool | JNum int | JStr jsstr | JBytes bytes
  | JArr "jsval list" | JObj "(jsstr \<times> jsval) list"

definition nullish :: "jsval \<Rightarrow> bool" where
  "nullish v = (case v of JUndef \<Rightarrow> True | JNull \<Rightarrow> True | _ \<Rightarrow> False)"

definition get_prop :: "jsval \<Rightarrow> jsstr \<Rightarrow> jsval" where
  "get_prop v k = (case v of
     JObj kvs \<Rightarrow> (case map_of kvs k of Some x \<Rightarrow> x | None \<Rightarrow> JUndef)
   | _ \<Rightarrow> JUndef)"

text \<open>\<open>hasOwnProperty\<close>, the \<open>present\<close> helper of the codec.\<close>

definition present :: "jsval \<Rightarrow> jsstr \<Rightarrow> bool" where
  "present v k = (case v of JObj kvs \<Rightarrow> map_of kvs k \<noteq> None | _ \<Rightarrow> False)"

fun js_join :: "jsstr list \<Rightarrow> jsstr" where
  "js_join [] = []"
| "js_join [s] = s"
| "js_join (s # ss) = s @ [0x2C] @ js_join ss"

fun js_string :: "jsval \<Rightarrow> jsstr" where
  "js_string JUndef = js ''undefined''"
| "js_string JNull = js ''null''"
| "js_string (JBool b) = (if b then js ''true'' else js ''false'')"
| "js_string (JNum i) = (if i < 0 then 0x2D # decimal (nat (- i)) else decimal (nat i))"
| "js_string (JStr s) = s"
| "js_string (JBytes bs) = js_join (map (\<lambda>b. decimal (unat b)) bs)"
| "js_string (JArr vs) = js_join (map (\<lambda>v. if nullish v then [] else js_string v) vs)"
| "js_string (JObj kvs) = js ''[object Object]''"

definition truthy :: "jsval \<Rightarrow> bool" where
  "truthy v = (case v of JUndef \<Rightarrow> False | JNull \<Rightarrow> False | JBool b \<Rightarrow> b | JNum i \<Rightarrow> i \<noteq> 0
     | JStr s \<Rightarrow> s \<noteq> [] | _ \<Rightarrow> True)"

text \<open>The number an operand of \<open>>>>\<close> or \<open>|\<close> stands for; the declared types
  admit numbers only (and booleans by coercion), other values count as \<open>NaN\<close>.\<close>

definition js_int :: "jsval \<Rightarrow> int" where
  "js_int v = (case v of JNum i \<Rightarrow> i | JBool b \<Rightarrow> of_bool b | _ \<Rightarrow> 0)"

definition default_for :: "ftype \<Rightarrow> jsval" where
  "default_for t = (case t of TString \<Rightarrow> JStr [] | TUint32 \<Rightarrow> JNum 0 | TInt32 \<Rightarrow> JNum 0
     | TBool \<Rightarrow> JBool False | TBytes \<Rightarrow> JBytes [] | TMessage _ \<Rightarrow> JObj [])"

definition fields_of :: "schema \<Rightarrow> jsstr \<Rightarrow> wire_error + field_def list" where
  "fields_of s t = (case map_of s t of None \<Rightarrow> Inl (UnknownType t) | Some fs \<Rightarrow> Inr fs)"

section \<open>Zig-zag numbers\<close>

definition zigzag :: "int \<Rightarrow> nat" where
  "zigzag n = nat (take_bit 32 (push_bit 1 n XOR drop_bit 31 n))"

definition unzigzag :: "nat \<Rightarrow> int" where
  "unzigzag num = int (num mod 2 ^ 32 div 2) XOR - int (num mod 2)"

section \<open>Encoding\<close>

text \<open>\<open>(tag << 3) | wire\<close> is a signed 32-bit number; a negative one is written as one byte.\<close>

definition w_key :: "nat \<Rightarrow> nat \<Rightarrow> writer \<Rightarrow> writer" where
  "w_key tag wire w =
     (let k = (8 * tag + wire) mod 2 ^ 32
      in if k < 2 ^ 31 then w_varint k w else w_put (word_of_nat k) (w_grow 10 w))"

definition write_field ::
  "(jsstr \<Rightarrow> jsval \<Rightarrow> writer \<Rightarrow> wire_error + writer) \<Rightarrow> nat \<Rightarrow> field_def \<Rightarrow> jsval \<Rightarrow> writer
   \<Rightarrow> wire_error + writer" where
  "write_field nested tag f v w = (case fd_type f of
     TString \<Rightarrow> Inr (w_len_bytes (text_encode (js_string v)) (w_key tag 2 w))
   | TBytes \<Rightarrow> Inr (w_len_bytes (case v of JBytes bs \<Rightarrow> bs | _ \<Rightarrow> []) (w_key tag 2 w))
   | TUint32 \<Rightarrow> Inr (w_varint (nat (js_int v mod 2 ^ 32)) (w_key tag 0 w))
   | TInt32 \<Rightarrow> Inr (w_varint (zigzag (signed_take_bit 31 (js_int v))) (w_key tag 0 w))
   | TBool \<Rightarrow> Inr (w_varint (if truthy v then 1 else 0) (w_key tag 0 w))
   | TMessage t \<Rightarrow>
       rbind (nested t (if nullish v then JObj [] else v) new_writer)
         (\<lambda>child. Inr (w_len_bytes (w_done child) (w_key tag 2 w))))"

fun write_elems ::
  "(jsstr \<Rightarrow> jsval \<Rightarrow> writer \<Rightarrow> wire_error + writer) \<Rightarrow> nat \<Rightarrow> field_def \<Rightarrow> jsval list \<Rightarrow> writer
   \<Rightarrow> wire_error + writer" where
  "write_elems nested tag f [] w = Inr w"
| "write_elems nested tag f (x # xs) w =
     rbind (write_field nested tag f x w) (\<lambda>w. write_elems nested tag f xs w)"

definition write_slot ::
  "(jsstr \<Rightarrow> jsval \<Rightarrow> writer \<Rightarrow> wire_error + writer) \<Rightarrow> nat \<Rightarrow> field_def \<Rightarrow> jsval \<Rightarrow> writer
   \<Rightarrow> wire_error + writer" where
  "write_slot nested tag f v w =
     (if fd_rule f = Repeated then
        (if nullish v then Inr w
         else case v of JArr xs \<Rightarrow> write_elems nested tag f xs w | _ \<Rightarrow> Inl (NotAnArray (fd_key f)))
      else if \<not> nullish v then write_field nested tag f v w
      else if fd_rule f = Required then write_field nested tag f (default_for (fd_type f)) w
      else Inr w)"

fun write_fields ::
  "(jsstr \<Rightarrow> jsval \<Rightarrow> writer \<Rightarrow> wire_error + writer) \<Rightarrow> nat \<Rightarrow> field_def list \<Rightarrow> jsval \<Rightarrow> writer
   \<Rightarrow> wire_error + writer" where
  "write_fields nested tag [] v w = Inr w"
| "write_fields nested tag (f # fs) v w =
     rbind (write_slot nested tag f (get_prop v (fd_key f)) w)
       (\<lambda>w. write_fields nested (tag + 1) fs v w)"

fun write_message :: "schema \<Rightarrow> nat \<Rightarrow> jsstr \<Rightarrow> jsval \<Rightarrow> writer \<Rightarrow> wire_error + writer" where
  "write_message s 0 t v w = Inl StackOverflow"
| "write_message s (Suc n) t v w =
     rbind (fields_of s t) (\<lambda>fs. write_fields (write_message s n) 1 fs v w)"

definition encode_message :: "schema \<Rightarrow> nat \<Rightarrow> jsstr \<Rightarrow> jsval \<Rightarrow> wire_error + bytes" where
  "encode_message s n t v = rbind (write_message s n t v new_writer) (\<lambda>w. Inr (w_done w))"

section \<open>Decoding\<close>

text \<open>The value part of a field: a number for wire type 0, bytes for wire type 2.\<close>

definition read_raw :: "nat \<Rightarrow> bytes \<Rightarrow> wire_error + (nat \<times> bytes option \<times> bytes)" where
  "read_raw wire bs =
     (if wire = 0 then rbind (r_varint bs) (\<lambda>(num, bs). Inr (num, None, bs))
      else if wire = 2 then
        rbind (r_varint bs) (\<lambda>(len, bs). rbind (r_take len bs) (\<lambda>(x, bs). Inr (0, Some x, bs)))
      else Inl (UnsupportedWireType wire))"

definition put_value :: "field_def \<Rightarrow> jsval \<Rightarrow> (jsstr \<times> jsval) list \<Rightarrow> (jsstr \<times> jsval) list" where
  "put_value f v result =
     (if fd_rule f = Repeated then
        (case map_of result (fd_key f) of
           Some (JArr xs) \<Rightarrow> jm_set result (fd_key f) (JArr (xs @ [v]))
         | _ \<Rightarrow> jm_set result (fd_key f) (JArr [v]))
      else jm_set result (fd_key f) v)"

lemma read_raw_shorter:
  "read_raw wire bs = Inr (num, x, rest) \<Longrightarrow>
   length rest < length bs \<and> (\<forall>b. x = Some b \<longrightarrow> length b < length bs)"
  by (auto simp: read_raw_def rbind_Inr_iff split: if_splits
      dest!: r_varint_shorter r_take_shorter)

definition read_scalar :: "ftype \<Rightarrow> nat \<Rightarrow> bytes option \<Rightarrow> jsval" where
  "read_scalar t num x = (case t of
     TString \<Rightarrow> JStr (case x of Some b \<Rightarrow> text_decode b | None \<Rightarrow> [])
   | TBytes \<Rightarrow> JBytes (case x of Some b \<Rightarrow> b | None \<Rightarrow> [])
   | TUint32 \<Rightarrow> JNum (int (num mod 2 ^ 32))
   | TInt32 \<Rightarrow> JNum (unzigzag num)
   | TBool \<Rightarrow> JBool (num \<noteq> 0)
   | TMessage _ \<Rightarrow> JUndef)"

function read_loop ::
  "schema \<Rightarrow> field_def list \<Rightarrow> bytes \<Rightarrow> (jsstr \<times> jsval) list \<Rightarrow> wire_error + (jsstr \<times> jsval) list" where
  "read_loop s fs bs result =
     (if bs = [] then Inr result
      else rbind (r_varint bs) (\<lambda>(key, bs1). rbind (read_raw (key mod 8) bs1) (\<lambda>(num, x, bs2).
        let tag = key mod 2 ^ 32 div 8 in
        if 1 \<le> tag \<and> tag \<le> length fs then
          let f = fs ! (tag - 1) in
          rbind
            (case fd_type f of
               TMessage t \<Rightarrow>
                 (case x of None \<Rightarrow> Inr JUndef
                  | Some b \<Rightarrow> rbind (fields_of s t) (\<lambda>fs'.
                      rbind (read_loop s fs' b []) (\<lambda>kvs. Inr (JObj kvs))))
             | t \<Rightarrow> Inr (read_scalar t num x))
            (\<lambda>v. read_loop s fs bs2 (put_value f v result))
        else read_loop s fs bs2 result)))"
  by pat_completeness auto
termination
proof (relation "measure (\<lambda>(s, fs, bs, result). length bs)", goal_cases)
  case 1
  then show ?case by simp
qed (auto dest!: r_varint_shorter read_raw_shorter)

declare read_loop.simps [simp del]

definition decode_message :: "schema \<Rightarrow> jsstr \<Rightarrow> bytes \<Rightarrow> wire_error + jsval" where
  "decode_message s t bs =
     rbind (fields_of s t) (\<lambda>fs. rbind (read_loop s fs bs []) (\<lambda>kvs. Inr (JObj kvs)))"

end
