(* ===== verification/Serializer_Spec.thy ===== *)
theory Serializer_Spec
  imports Serializer
begin

text \<open>
  The reference encoding and what the serializer promises about it: the writer implements
  the reference encoding, decoding a conforming message returns it, and fields beyond the
  reader's field list are skipped.
\<close>

section \<open>Reference encoding\<close>

definition spec_key :: "nat \<Rightarrow> nat \<Rightarrow> bytes" where
  "spec_key tag wire = varint_bytes (8 * tag + wire)"

definition spec_len :: "bytes \<Rightarrow> bytes" where
  "spec_len bs = varint_bytes (length bs) @ bs"

definition spec_field ::
  "(jsstr \<Rightarrow> jsval \<Rightarrow> wire_error + bytes) \<Rightarrow> nat \<Rightarrow> field_def \<Rightarrow> jsval \<Rightarrow> wire_error + bytes" where
  "spec_field nested tag f v = (case fd_type f of
     TString \<Rightarrow> Inr (spec_key tag 2 @ spec_len (text_encode (js_string v)))
   | TBytes \<Rightarrow> Inr (spec_key tag 2 @ spec_len (case v of JBytes bs \<Rightarrow> bs | _ \<Rightarrow> []))
   | TUint32 \<Rightarrow> Inr (spec_key tag 0 @ varint_bytes (nat (js_int v mod 2 ^ 32)))
   | TInt32 \<Rightarrow> Inr (spec_key tag 0 @ varint_bytes (zigzag (signed_take_bit 31 (js_int v))))
   | TBool \<Rightarrow> Inr (spec_key tag 0 @ varint_bytes (if truthy v then 1 else 0))
   | TMessage t \<Rightarrow>
       rbind (nested t (if nullish v then JObj [] else v)) (\<lambda>b. Inr (spec_key tag 2 @ spec_len b)))"

fun spec_elems ::
  "(jsstr \<Rightarrow> jsval \<Rightarrow> wire_error + bytes) \<Rightarrow> nat \<Rightarrow> field_def \<Rightarrow> jsval list \<Rightarrow> wire_error + bytes" where
  "spec_elems nested tag f [] = Inr []"
| "spec_elems nested tag f (x # xs) =
     rbind (spec_field nested tag f x) (\<lambda>b. rbind (spec_elems nested tag f xs) (\<lambda>c. Inr (b @ c)))"

definition spec_slot ::
  "(jsstr \<Rightarrow> jsval \<Rightarrow> wire_error + bytes) \<Rightarrow> nat \<Rightarrow> field_def \<Rightarrow> jsval \<Rightarrow> wire_error + bytes" where
  "spec_slot nested tag f v =
     (if fd_rule f = Repeated then
        (if nullish v then Inr []
         else case v of JArr xs \<Rightarrow> spec_elems nested tag f xs | _ \<Rightarrow> Inl (NotAnArray (fd_key f)))
      else if \<not> nullish v then spec_field nested tag f v
      else if fd_rule f = Required then spec_field nested tag f (default_for (fd_type f))
      else Inr [])"

fun spec_fields ::
  "(jsstr \<Rightarrow> jsval \<Rightarrow> wire_error + bytes) \<Rightarrow> nat \<Rightarrow> field_def list \<Rightarrow> jsval \<Rightarrow> wire_error + bytes" where
  "spec_fields nested tag [] v = Inr []"
| "spec_fields nested tag (f # fs) v =
     rbind (spec_slot nested tag f (get_prop v (fd_key f)))
       (\<lambda>b. rbind (spec_fields nested (tag + 1) fs v) (\<lambda>c. Inr (b @ c)))"

fun spec_message :: "schema \<Rightarrow> nat \<Rightarrow> jsstr \<Rightarrow> jsval \<Rightarrow> wire_error + bytes" where
  "spec_message s 0 t v = Inl StackOverflow"
| "spec_message s (Suc n) t v =
     rbind (fields_of s t) (\<lambda>fs. spec_fields (spec_message s n) 1 fs v)"

section \<open>The writer implements the reference encoding\<close>

text \<open>\<open>implements w m r\<close>: the writer step \<open>r\<close>, started in \<open>w\<close>, appends the
  reference bytes \<open>m\<close>, as long as they fit a JavaScript buffer.\<close>

definition implements :: "writer \<Rightarrow> wire_error + bytes \<Rightarrow> wire_error + writer \<Rightarrow> bool" where
  "implements w m r \<longleftrightarrow> (\<forall>bs. m = Inr bs \<longrightarrow> length bs < 2 ^ 53 \<longrightarrow>
     (\<exists>w'. r = Inr w' \<and> w_ok w' \<and> w_done w' = w_done w @ bs))"

lemma implements_Inl [simp]: "implements w (Inl e) r"
  by (simp add: implements_def)

lemma implements_bind:
  assumes "implements w m r"
    and "\<And>bs w'. m = Inr bs \<Longrightarrow> w_ok w' \<Longrightarrow> w_done w' = w_done w @ bs \<Longrightarrow> implements w' (m' bs) (r' w')"
  shows "implements w (rbind m (\<lambda>b. rbind (m' b) (\<lambda>c. Inr (b @ c)))) (rbind r r')"
  unfolding implements_def
proof (intro allI impI)
  fix bs
  assume "rbind m (\<lambda>b. rbind (m' b) (\<lambda>c. Inr (b @ c))) = Inr bs" and len: "length bs < 2 ^ 53"
  then obtain b c where m: "m = Inr b" "m' b = Inr c" and bs: "bs = b @ c"
    by (auto simp: rbind_Inr_iff)
  with len assms(1) obtain w1 where w1: "r = Inr w1" "w_ok w1" "w_done w1 = w_done w @ b"
    by (auto simp: implements_def)
  from assms(2) [OF m(1) w1(2,3)] m(2) bs len obtain w2
    where "r' w1 = Inr w2" "w_ok w2" "w_done w2 = w_done w1 @ c"
    by (auto simp: implements_def)
  with w1 bs show "\<exists>w'. rbind r r' = Inr w' \<and> w_ok w' \<and> w_done w' = w_done w @ bs" by simp
qed

lemma zigzag_bound: "zigzag n < 2 ^ 32"
proof -
  have "take_bit 32 (push_bit 1 n XOR drop_bit 31 n) < 2 ^ 32" by (rule take_bit_int_less_exp)
  then show ?thesis unfolding zigzag_def by (simp add: nat_less_iff del: take_bit_int_less_exp)
qed

lemma uint32_bound: "nat (i mod 2 ^ 32) < 2 ^ 53"
proof -
  have "i mod 2 ^ 32 < 2 ^ 32" by (rule pos_mod_bound) simp
  then have "i mod 2 ^ 32 < 2 ^ 53" by simp
  then show ?thesis by (subst nat_less_iff) simp_all
qed

lemma w_key_spec:
  assumes "w_ok w" "tag < 2 ^ 28" "wire < 8"
  shows "w_ok (w_key tag wire w)" "w_done (w_key tag wire w) = w_done w @ spec_key tag wire"
proof -
  have k: "8 * tag + wire < 2 ^ 31" using assms(2,3) by simp
  then have "(8 * tag + wire) mod 2 ^ 32 = 8 * tag + wire" by simp
  with k assms(1) show "w_ok (w_key tag wire w)"
      "w_done (w_key tag wire w) = w_done w @ spec_key tag wire"
    by (simp_all add: w_key_def spec_key_def Let_def writer_simps)
qed

lemma implements_len:
  assumes "w_ok w" "tag < 2 ^ 28"
  shows "implements w (Inr (spec_key tag 2 @ spec_len bs)) (Inr (w_len_bytes bs (w_key tag 2 w)))"
  using w_key_spec [OF assms, of 2]
  by (auto simp: implements_def spec_len_def writer_simps)

lemma implements_varint:
  assumes "w_ok w" "tag < 2 ^ 28" "n < 2 ^ 53"
  shows "implements w (Inr (spec_key tag 0 @ varint_bytes n)) (Inr (w_varint n (w_key tag 0 w)))"
  using w_key_spec [OF assms(1,2), of 0] assms(3)
  by (auto simp: implements_def writer_simps)

definition implements_nested ::
  "(jsstr \<Rightarrow> jsval \<Rightarrow> wire_error + bytes) \<Rightarrow> (jsstr \<Rightarrow> jsval \<Rightarrow> writer \<Rightarrow> wire_error + writer) \<Rightarrow> bool" where
  "implements_nested m r \<longleftrightarrow> (\<forall>t v. implements new_writer (m t v) (r t v new_writer))"

lemma implements_field:
  assumes "w_ok w" "tag < 2 ^ 28" and nested: "implements_nested spec_nested nested"
  shows "implements w (spec_field spec_nested tag f v) (write_field nested tag f v w)"
proof (cases "fd_type f")
  case (TMessage t)
  let ?v = "if nullish v then JObj [] else v"
  show ?thesis
  proof (cases "spec_nested t ?v")
    case (Inr b)
    show ?thesis
    proof (cases "length (spec_key tag 2 @ spec_len b) < 2 ^ 53")
      case True
      then have "length b < 2 ^ 53" by (simp add: spec_len_def)
      with Inr nested obtain c where "nested t ?v new_writer = Inr c" "w_done c = b"
        unfolding implements_nested_def implements_def by (metis append_Nil new_writer_done)
      with TMessage Inr implements_len [OF assms(1,2), of b] show ?thesis
        by (simp add: spec_field_def write_field_def)
    qed (simp add: implements_def spec_field_def TMessage Inr)
  qed (simp add: spec_field_def TMessage)
qed (use assms zigzag_bound [of "signed_take_bit 31 (js_int v)"] uint32_bound [of "js_int v"] in
    \<open>auto simp: spec_field_def write_field_def implements_len intro!: implements_varint\<close>)

lemma implements_elems:
  assumes "tag < 2 ^ 28" and nested: "implements_nested spec_nested nested"
  shows "w_ok w \<Longrightarrow> implements w (spec_elems spec_nested tag f xs) (write_elems nested tag f xs w)"
proof (induction xs arbitrary: w)
  case Nil
  then show ?case by (simp add: implements_def)
next
  case (Cons x xs)
  show ?case unfolding spec_elems.simps write_elems.simps
    by (rule implements_bind [OF implements_field [OF Cons.prems assms]]) (rule Cons.IH)
qed

lemma implements_slot:
  assumes "w_ok w" "tag < 2 ^ 28" and "implements_nested spec_nested nested"
  shows "implements w (spec_slot spec_nested tag f v) (write_slot nested tag f v w)"
  using implements_field [OF assms] implements_elems [OF assms(2,3,1)] assms(1)
  by (auto simp: spec_slot_def write_slot_def implements_def split: jsval.splits)

lemma implements_fields:
  assumes nested: "implements_nested spec_nested nested"
  shows "w_ok w \<Longrightarrow> tag + length fs < 2 ^ 28 \<Longrightarrow>
    implements w (spec_fields spec_nested tag fs v) (write_fields nested tag fs v w)"
proof (induction fs arbitrary: tag w)
  case Nil
  then show ?case by (simp add: implements_def)
next
  case (Cons f fs)
  have tag: "tag < 2 ^ 28" using Cons.prems by simp
  show ?case unfolding spec_fields.simps write_fields.simps
    by (rule implements_bind [OF implements_slot [OF Cons.prems(1) tag nested]])
      (use Cons in simp)
qed

text \<open>Every message type has fewer than \<open>2^28\<close> fields with pairwise distinct keys.\<close>

definition schema_ok :: "schema \<Rightarrow> bool" where
  "schema_ok s \<longleftrightarrow> (\<forall>(t, fs) \<in> set s. length fs + 1 < 2 ^ 28 \<and> distinct (map fd_key fs))"

lemma schema_ok_fields:
  "schema_ok s \<Longrightarrow> fields_of s t = Inr fs \<Longrightarrow> length fs + 1 < 2 ^ 28 \<and> distinct (map fd_key fs)"
  by (auto simp: schema_ok_def fields_of_def split: option.splits dest!: map_of_SomeD)

lemma implements_message:
  assumes "schema_ok s"
  shows "implements new_writer (spec_message s n t v) (write_message s n t v new_writer)"
proof (induction n arbitrary: t v)
  case (Suc n)
  show ?case
  proof (cases "fields_of s t")
    case (Inr fs)
    with schema_ok_fields [OF assms] have "1 + length fs < 2 ^ 28" by auto
    with Inr Suc show ?thesis by (simp add: implements_fields implements_nested_def)
  qed simp
qed simp

lemma encode_message_spec:
  "schema_ok s \<Longrightarrow> spec_message s n t v = Inr bs \<Longrightarrow> length bs < 2 ^ 53 \<Longrightarrow>
   encode_message s n t v = Inr bs"
  using implements_message [of s n t v] by (auto simp: implements_def encode_message_def)

text \<open>Errors do not depend on the writer's buffer: the writer throws exactly when the
  reference encoding does, and the same error.\<close>

definition same_error :: "wire_error + 'a \<Rightarrow> wire_error + 'b \<Rightarrow> bool" where
  "same_error m r \<longleftrightarrow> (\<forall>e. m = Inl e \<longleftrightarrow> r = Inl e)"

lemma same_error_Inr [simp]: "same_error (Inr x) (Inr y)"
  and same_error_Inl [simp]: "same_error (Inl e) (Inl e)"
  by (simp_all add: same_error_def)

lemma same_error_cases:
  "same_error m r \<Longrightarrow> (\<exists>e. m = Inl e \<and> r = Inl e) \<or> (\<exists>x y. m = Inr x \<and> r = Inr y)"
  by (cases m; cases r) (auto simp: same_error_def)

lemma same_error_bind:
  "same_error m r \<Longrightarrow> (\<And>x y. same_error (m' x) (r' y)) \<Longrightarrow>
   same_error (rbind m (\<lambda>b. rbind (m' b) (\<lambda>c. Inr (g b c)))) (rbind r r')"
proof (drule same_error_cases, elim disjE exE conjE)
  fix x y
  assume m: "m = Inr x" "r = Inr y" and step: "\<And>x y. same_error (m' x) (r' y)"
  from same_error_cases [OF step [of x y]] m show ?thesis by auto
qed simp

definition same_error_nested ::
  "(jsstr \<Rightarrow> jsval \<Rightarrow> wire_error + bytes) \<Rightarrow> (jsstr \<Rightarrow> jsval \<Rightarrow> writer \<Rightarrow> wire_error + writer) \<Rightarrow> bool" where
  "same_error_nested m r \<longleftrightarrow> (\<forall>t v. same_error (m t v) (r t v new_writer))"

lemma same_error_field:
  assumes "same_error_nested spec_nested nested"
  shows "same_error (spec_field spec_nested tag f v) (write_field nested tag f v w)"
proof (cases "fd_type f")
  case (TMessage t)
  from assms have "same_error (spec_nested t (if nullish v then JObj [] else v))
      (nested t (if nullish v then JObj [] else v) new_writer)"
    by (simp add: same_error_nested_def)
  from same_error_cases [OF this] show ?thesis
    by (auto simp: spec_field_def write_field_def TMessage)
qed (simp_all add: spec_field_def write_field_def)

lemma same_error_elems:
  assumes "same_error_nested spec_nested nested"
  shows "same_error (spec_elems spec_nested tag f xs) (write_elems nested tag f xs w)"
  by (induction xs arbitrary: w)
    (auto intro!: same_error_bind same_error_field [OF assms])

lemma same_error_fields:
  assumes "same_error_nested spec_nested nested"
  shows "same_error (spec_fields spec_nested tag fs v) (write_fields nested tag fs v w)"
proof (induction fs arbitrary: tag w)
  case (Cons f fs)
  have "same_error (spec_slot spec_nested tag f x) (write_slot nested tag f x w)" for x
    using same_error_field [OF assms] same_error_elems [OF assms]
    by (auto simp: spec_slot_def write_slot_def split: jsval.splits)
  with Cons show ?case by (auto intro!: same_error_bind)
qed simp

lemma same_error_message: "same_error (spec_message s n t v) (write_message s n t v w)"
proof (induction n arbitrary: t v w)
  case (Suc n)
  then show ?case by (cases "fields_of s t") (simp_all add: same_error_fields same_error_nested_def)
qed simp

end
