(* ===== verification/Serializer_Roundtrip.thy ===== *)
theory Serializer_Roundtrip
  imports Serializer_Spec
begin

text \<open>
  Decoding undoes encoding. \<open>conforms\<close> is the executable check that a message carries
  exactly what its schema can put on the wire and get back: every required field, strings
  without lone surrogates and without a leading U+FEFF, integers of the declared width,
  non-empty lists for repeated fields, own properties in field order.
\<close>

section \<open>Numbers\<close>

lemma zigzag_nonneg: "0 \<le> n \<Longrightarrow> n < 2 ^ 31 \<Longrightarrow> zigzag n = nat (2 * n)"
proof -
  assume n: "0 \<le> n" "n < 2 ^ 31"
  then have "drop_bit 31 n = 0" by (simp add: drop_bit_eq_div)
  with n show ?thesis by (simp add: zigzag_def push_bit_eq_mult take_bit_eq_mod)
qed

lemma zigzag_neg: "n < 0 \<Longrightarrow> - (2 ^ 31) \<le> n \<Longrightarrow> zigzag n = nat (- 2 * n - 1)"
proof -
  assume n: "n < 0" "- (2 ^ 31) \<le> n"
  have "drop_bit 31 n = - 1"
    using n by (simp add: drop_bit_eq_div div_eq_minus1)
  then have "push_bit 1 n XOR drop_bit 31 n = - 2 * n - 1"
    by (simp add: push_bit_eq_mult not_eq_complement)
  with n show ?thesis by (simp add: zigzag_def take_bit_eq_mod)
qed

lemma unzigzag_zigzag:
  assumes "- (2 ^ 31) \<le> n" "n < 2 ^ 31"
  shows "unzigzag (zigzag n) = n"
proof (cases "0 \<le> n")
  case True
  with assms have "nat (2 * n) = 2 * nat n" "nat n < 2 ^ 31" by (simp_all add: nat_mult_distrib)
  with True assms show ?thesis by (simp add: zigzag_nonneg unzigzag_def)
next
  case False
  define m where "m = nat (- n - 1)"
  have m: "m < 2 ^ 31" "n = - int m - 1" "nat (- 2 * n - 1) = 2 * m + 1"
    using False assms by (auto simp: m_def)
  have "zigzag n = 2 * m + 1" using False assms m(3) by (simp add: zigzag_neg)
  with m(1,2) show ?thesis by (simp add: unzigzag_def not_eq_complement)
qed

section \<open>Conforming messages\<close>

fun value_ok :: "(jsstr \<Rightarrow> jsval \<Rightarrow> bool) \<Rightarrow> ftype \<Rightarrow> jsval \<Rightarrow> bool" where
  "value_ok nested TString (JStr s) = wire_safe s"
| "value_ok nested TBytes (JBytes _) = True"
| "value_ok nested TUint32 (JNum i) = (0 \<le> i \<and> i < 2 ^ 32)"
| "value_ok nested TInt32 (JNum i) = (- (2 ^ 31) \<le> i \<and> i < 2 ^ 31)"
| "value_ok nested TBool (JBool _) = True"
| "value_ok nested (TMessage t) (JObj kvs) = nested t (JObj kvs)"
| "value_ok nested _ _ = False"

definition slot_ok :: "(jsstr \<Rightarrow> jsval \<Rightarrow> bool) \<Rightarrow> field_def \<Rightarrow> jsval \<Rightarrow> bool" where
  "slot_ok nested f v =
     (if fd_rule f = Repeated
      then (case v of JArr xs \<Rightarrow> xs \<noteq> [] \<and> list_all (value_ok nested (fd_type f)) xs | _ \<Rightarrow> False)
      else value_ok nested (fd_type f) v)"

fun msg_ok :: "(jsstr \<Rightarrow> jsval \<Rightarrow> bool) \<Rightarrow> field_def list \<Rightarrow> (jsstr \<times> jsval) list \<Rightarrow> bool" where
  "msg_ok nested [] kvs = (kvs = [])"
| "msg_ok nested (f # fs) kvs =
     (case kvs of
        (k, v) # kvs' \<Rightarrow>
          (if k = fd_key f then slot_ok nested f v \<and> msg_ok nested fs kvs'
           else fd_rule f \<noteq> Required \<and> msg_ok nested fs kvs)
      | [] \<Rightarrow> fd_rule f \<noteq> Required \<and> msg_ok nested fs [])"

fun conforms :: "schema \<Rightarrow> nat \<Rightarrow> jsstr \<Rightarrow> jsval \<Rightarrow> bool" where
  "conforms s 0 t v = False"
| "conforms s (Suc n) t v =
     (case (map_of s t, v) of
        (Some fs, JObj kvs) \<Rightarrow> msg_ok (conforms s n) fs kvs
      | _ \<Rightarrow> False)"

lemma nullish_iff: "nullish v \<longleftrightarrow> v = JUndef \<or> v = JNull"
  by (cases v) (simp_all add: nullish_def)

lemma value_ok_undef: "\<not> value_ok nested t JUndef" "\<not> value_ok nested t JNull"
  by (cases t; simp)+

lemma value_ok_not_nullish: "value_ok nested t v \<Longrightarrow> \<not> nullish v"
  unfolding nullish_iff using value_ok_undef by blast

lemma slot_ok_not_nullish: "slot_ok nested f v \<Longrightarrow> \<not> nullish v"
proof (cases "fd_rule f = Repeated")
  case True
  then show "slot_ok nested f v \<Longrightarrow> \<not> nullish v"
    by (cases v) (simp_all add: slot_ok_def nullish_iff)
next
  case False
  then show "slot_ok nested f v \<Longrightarrow> \<not> nullish v"
    by (simp add: slot_ok_def value_ok_not_nullish)
qed

lemma msg_ok_keys: "msg_ok nested fs kvs \<Longrightarrow> set (map fst kvs) \<subseteq> set (map fd_key fs)"
proof (induction fs arbitrary: kvs)
  case (Cons f fs)
  show ?case
  proof (cases "\<exists>v kvs'. kvs = (fd_key f, v) # kvs'")
    case True
    with Cons show ?thesis by force
  next
    case False
    then have "msg_ok nested fs kvs" using Cons.prems by (auto split: list.splits if_splits)
    then show ?thesis using Cons.IH by auto
  qed
qed simp

section \<open>One field on the wire\<close>

lemma read_loop_Nil [simp]: "read_loop s fs [] acc = Inr acc"
  by (subst read_loop.simps) simp

lemma spec_key_nonempty [simp]: "spec_key tag wire \<noteq> []"
  by (simp add: spec_key_def varint_bytes_nonempty)

lemma read_loop_key:
  assumes "tag < 2 ^ 28" "wire < 8"
  shows "read_loop s fs (spec_key tag wire @ bs) acc =
    rbind (read_raw wire bs) (\<lambda>(num, x, bs2).
      if 1 \<le> tag \<and> tag \<le> length fs then
        rbind
          (case fd_type (fs ! (tag - 1)) of
             TMessage t \<Rightarrow>
               (case x of None \<Rightarrow> Inr JUndef
                | Some b \<Rightarrow> rbind (fields_of s t) (\<lambda>fs'.
                    rbind (read_loop s fs' b []) (\<lambda>kvs. Inr (JObj kvs))))
           | t \<Rightarrow> Inr (read_scalar t num x))
          (\<lambda>v. read_loop s fs bs2 (put_value (fs ! (tag - 1)) v acc))
      else read_loop s fs bs2 acc)"
proof -
  have k: "(8 * tag + wire) mod 2 ^ 32 = 8 * tag + wire" "8 * tag + wire < 2 ^ 53"
    using assms by auto
  have m: "(8 * tag + wire) mod 8 = wire" "(8 * tag + wire) div 8 = tag"
    using assms(2) by auto
  show ?thesis
    by (subst read_loop.simps) (simp only: spec_key_def append_is_Nil_conv varint_bytes_nonempty
        r_varint_bytes [OF k(2)] rbind_simps prod.case k m Let_def if_False simp_thms)
qed

lemma read_raw_len:
  "length x < 2 ^ 53 \<Longrightarrow> read_raw 2 (spec_len x @ bs) = Inr (0, Some x, bs)"
  by (simp add: read_raw_def spec_len_def)

lemma read_raw_varint:
  "n < 2 ^ 53 \<Longrightarrow> read_raw 0 (varint_bytes n @ bs) = Inr (n, None, bs)"
  by (simp add: read_raw_def)

text \<open>What the induction on the nesting depth provides.\<close>

definition decodes_nested ::
  "schema \<Rightarrow> (jsstr \<Rightarrow> jsval \<Rightarrow> bool) \<Rightarrow> (jsstr \<Rightarrow> jsval \<Rightarrow> wire_error + bytes) \<Rightarrow> bool" where
  "decodes_nested s ok enc \<longleftrightarrow> (\<forall>t kvs b. ok t (JObj kvs) \<longrightarrow> enc t (JObj kvs) = Inr b \<longrightarrow> length b < 2 ^ 53 \<longrightarrow>
     (\<exists>fs. fields_of s t = Inr fs \<and> read_loop s fs b [] = Inr kvs))"

lemma read_loop_field:
  assumes nested: "decodes_nested s ok enc"
    and f: "1 \<le> tag" "tag \<le> length fs" "fs ! (tag - 1) = f" "tag < 2 ^ 28"
    and v: "value_ok ok (fd_type f) v" "spec_field enc tag f v = Inr b" "length b < 2 ^ 53"
  shows "read_loop s fs (b @ bs) acc = read_loop s fs bs (put_value f v acc)"
proof -
  note key = read_loop_key [OF f(4), of 2 s fs] read_loop_key [OF f(4), of 0 s fs]
  show ?thesis
  proof (cases "(ok, fd_type f, v)" rule: value_ok.cases)
    case (1 _ x)
    with v f show ?thesis
      by (auto simp: spec_field_def spec_len_def key read_raw_len [unfolded spec_len_def, simplified]
          read_scalar_def text_roundtrip)
  next
    case (2 _ x)
    with v f show ?thesis
      by (auto simp: spec_field_def spec_len_def key read_raw_len [unfolded spec_len_def, simplified]
          read_scalar_def)
  next
    case (3 _ i)
    then have "nat (js_int v mod 2 ^ 32) = nat i" "int (nat i mod 2 ^ 32) = i" "nat i < 2 ^ 53"
      using v(1) by (auto simp: js_int_def)
    with 3 v f show ?thesis
      by (auto simp: spec_field_def key read_raw_varint read_scalar_def)
  next
    case (4 _ i)
    then have i: "- (2 ^ 31) \<le> i" "i < 2 ^ 31" using v(1) by auto
    then have "signed_take_bit 31 i = i" by (simp add: signed_take_bit_int_eq_self_iff)
    moreover have "zigzag i < 2 ^ 53" using zigzag_bound [of i] by simp
    ultimately show ?thesis using 4 v f unzigzag_zigzag [OF i]
      by (auto simp: spec_field_def key read_raw_varint read_scalar_def js_int_def)
  next
    case (5 _ x)
    with v f show ?thesis
      by (auto simp: spec_field_def key read_raw_varint read_scalar_def truthy_def)
  next
    case (6 _ t kvs)
    with v(2) obtain c where c: "enc t (JObj kvs) = Inr c" "b = spec_key tag 2 @ spec_len c"
      by (auto simp: spec_field_def rbind_Inr_iff nullish_def)
    with v(3) have "length c < 2 ^ 53" by (simp add: spec_len_def)
    have "ok t (JObj kvs)" using v(1) 6 by simp
    with nested c(1) \<open>length c < 2 ^ 53\<close> obtain fs'
      where fs': "fields_of s t = Inr fs'" "read_loop s fs' c [] = Inr kvs"
      unfolding decodes_nested_def by blast
    have "read_loop s fs (spec_key tag 2 @ (spec_len c @ bs)) acc = read_loop s fs bs (put_value f v acc)"
      using 6 f(1,2,3) fs'
      by (simp add: key(1) [simplified] read_raw_len [OF \<open>length c < 2 ^ 53\<close>, simplified])
    then show ?thesis by (simp add: c(2))
  qed (use v(1) in auto)
qed

section \<open>Fields in sequence\<close>

lemma put_value_repeat:
  "fd_rule f = Repeated \<Longrightarrow> map_of acc (fd_key f) = Some (JArr xs) \<Longrightarrow>
   put_value f v acc = jm_set acc (fd_key f) (JArr (xs @ [v]))"
  by (simp add: put_value_def)

lemma read_loop_elems_from:
  assumes nested: "decodes_nested s ok enc"
    and f: "1 \<le> tag" "tag \<le> length fs" "fs ! (tag - 1) = f" "tag < 2 ^ 28" "fd_rule f = Repeated"
    and new: "\<not> jm_has acc (fd_key f)"
  shows "list_all (value_ok ok (fd_type f)) xs \<Longrightarrow> spec_elems enc tag f xs = Inr b \<Longrightarrow>
    length b < 2 ^ 53 \<Longrightarrow>
    read_loop s fs (b @ bs) (acc @ [(fd_key f, JArr ys)]) =
    read_loop s fs bs (acc @ [(fd_key f, JArr (ys @ xs))])"
proof (induction xs arbitrary: b ys)
  case (Cons x xs)
  from Cons.prems obtain c d where c: "spec_field enc tag f x = Inr c" "spec_elems enc tag f xs = Inr d"
    and b: "b = c @ d" by (auto simp: rbind_Inr_iff)
  have get: "map_of (acc @ [(fd_key f, JArr ys)]) (fd_key f) = Some (JArr ys)"
    using new by (simp add: jm_has_def map_add_def)
  have set: "jm_set (acc @ [(fd_key f, JArr ys)]) (fd_key f) (JArr (ys @ [x])) =
      acc @ [(fd_key f, JArr (ys @ [x]))]"
    using new by (induction acc) (auto simp: jm_has_def split: if_splits)
  have "read_loop s fs (c @ d @ bs) (acc @ [(fd_key f, JArr ys)]) =
      read_loop s fs (d @ bs) (put_value f x (acc @ [(fd_key f, JArr ys)]))"
    using Cons.prems b c by (intro read_loop_field [OF nested f(1-4)]) auto
  also have "put_value f x (acc @ [(fd_key f, JArr ys)]) = acc @ [(fd_key f, JArr (ys @ [x]))]"
    by (simp only: put_value_repeat [OF f(5) get] set)
  also have "read_loop s fs (d @ bs) \<dots> = read_loop s fs bs (acc @ [(fd_key f, JArr ((ys @ [x]) @ xs))])"
    using Cons.prems b c by (intro Cons.IH) auto
  finally show ?case by (simp add: b)
qed simp

lemma read_loop_slot:
  assumes nested: "decodes_nested s ok enc"
    and f: "1 \<le> tag" "tag \<le> length fs" "fs ! (tag - 1) = f" "tag < 2 ^ 28"
    and v: "slot_ok ok f v" "spec_slot enc tag f v = Inr b" "length b < 2 ^ 53"
    and new: "\<not> jm_has acc (fd_key f)"
  shows "read_loop s fs (b @ bs) acc = read_loop s fs bs (acc @ [(fd_key f, v)])"
proof (cases "fd_rule f = Repeated")
  case False
  with v(1,2) slot_ok_not_nullish [OF v(1)] have "value_ok ok (fd_type f) v" "spec_field enc tag f v = Inr b"
    by (auto simp: slot_ok_def spec_slot_def)
  from read_loop_field [OF nested f this v(3)] False new show ?thesis
    by (simp add: put_value_def jm_set_new)
next
  case True
  with v(1) obtain x xs where xs: "v = JArr (x # xs)" "value_ok ok (fd_type f) x"
      "list_all (value_ok ok (fd_type f)) xs"
    by (auto simp: slot_ok_def neq_Nil_conv split: jsval.splits)
  with True v(2) obtain c d where c: "spec_field enc tag f x = Inr c" "spec_elems enc tag f xs = Inr d"
    and b: "b = c @ d" by (auto simp: spec_slot_def nullish_def rbind_Inr_iff)
  have "put_value f x acc = acc @ [(fd_key f, JArr [x])]"
    using True new by (simp add: put_value_def jm_set_new jm_has_def)
  with read_loop_field [OF nested f xs(2) c(1), of "d @ bs" acc]
    read_loop_elems_from [OF nested f True new xs(3) c(2), of bs "[x]"] v(3) b xs(1)
  show ?thesis by simp
qed

lemma map_of_after_prefix: "\<not> jm_has acc k \<Longrightarrow> map_of (acc @ kvs) k = map_of kvs k"
  by (auto simp: jm_has_def map_add_def split: option.splits)

lemma get_prop_JObj: "get_prop (JObj kvs) k = (case map_of kvs k of Some x \<Rightarrow> x | None \<Rightarrow> JUndef)"
  by (simp add: get_prop_def)

lemma get_prop_prefix: "\<not> jm_has acc k \<Longrightarrow> get_prop (JObj (acc @ kvs)) k = get_prop (JObj kvs) k"
  unfolding get_prop_JObj by (subst map_of_after_prefix) simp_all

lemma get_prop_absent: "k \<notin> set (map fst kvs) \<Longrightarrow> get_prop (JObj kvs) k = JUndef"
  unfolding get_prop_JObj by (subst map_of_eq_None_iff [THEN iffD2]) simp_all

text \<open>
  The reader has consumed the fields \<open>gs\<close> into \<open>acc\<close>; the bytes of the fields
  \<open>hs\<close> extend it by exactly their properties.
\<close>

lemma read_loop_fields:
  assumes nested: "decodes_nested s ok enc"
  shows "fs = gs @ hs \<Longrightarrow> length fs + 1 < 2 ^ 28 \<Longrightarrow> distinct (map fd_key fs) \<Longrightarrow>
    set (map fst acc) \<subseteq> set (map fd_key gs) \<Longrightarrow> msg_ok ok hs kvs \<Longrightarrow>
    spec_fields enc (length gs + 1) hs (JObj (acc @ kvs)) = Inr b \<Longrightarrow> length b < 2 ^ 53 \<Longrightarrow>
    read_loop s (fs @ es) (b @ bs) acc = read_loop s (fs @ es) bs (acc @ kvs)"
proof (induction hs arbitrary: gs acc kvs b)
  case (Cons f hs)
  have key: "fd_key f \<notin> set (map fd_key gs)" "fd_key f \<notin> set (map fd_key hs)"
    using Cons.prems(1,3) by auto
  have new: "\<not> jm_has acc (fd_key f)" using key Cons.prems(4) by (auto simp: jm_has_iff_keys)
  let ?v = "get_prop (JObj (acc @ kvs)) (fd_key f)"
  from Cons.prems(6) obtain c d where c: "spec_slot enc (length gs + 1) f ?v = Inr c"
    and d: "spec_fields enc (length (gs @ [f]) + 1) hs (JObj (acc @ kvs)) = Inr d" and b: "b = c @ d"
    by (auto simp: rbind_Inr_iff)
  have IH: "set (map fst acc') \<subseteq> set (map fd_key (gs @ [f])) \<Longrightarrow> msg_ok ok hs kvs' \<Longrightarrow>
      acc @ kvs = acc' @ kvs' \<Longrightarrow>
      read_loop s (fs @ es) (d @ bs) acc' = read_loop s (fs @ es) bs (acc' @ kvs')" for acc' kvs'
    using Cons.prems d b by (intro Cons.IH) auto
  show ?case
  proof (cases "\<exists>v kvs'. kvs = (fd_key f, v) # kvs'")
    case True
    then obtain v kvs' where kvs: "kvs = (fd_key f, v) # kvs'" by blast
    with Cons.prems(5) have ok: "slot_ok ok f v" "msg_ok ok hs kvs'" by simp_all
    have v: "?v = v" by (simp add: get_prop_prefix [OF new] kvs) (simp add: get_prop_JObj)
    have "read_loop s (fs @ es) (c @ d @ bs) acc = read_loop s (fs @ es) (d @ bs) (acc @ [(fd_key f, v)])"
      using Cons.prems c v ok b new by (intro read_loop_slot [OF nested]) (auto simp: nth_append)
    also have "\<dots> = read_loop s (fs @ es) bs ((acc @ [(fd_key f, v)]) @ kvs')"
      using Cons.prems(4) ok kvs by (intro IH) auto
    finally show ?thesis by (simp add: b kvs)
  next
    case False
    then have ok: "fd_rule f \<noteq> Required" "msg_ok ok hs kvs"
      using Cons.prems(5) by (auto split: list.splits if_splits)
    then have "fd_key f \<notin> set (map fst kvs)" using msg_ok_keys [OF ok(2)] key by blast
    then have "?v = JUndef"
      by (subst get_prop_prefix [OF new]) (rule get_prop_absent)
    with c ok(1) have "c = []" by (auto simp: spec_slot_def nullish_def split: if_splits)
    with IH [of acc kvs] Cons.prems(4) ok b show ?thesis by auto
  qed
qed simp

section \<open>Messages\<close>

lemma conforms_decodes: "schema_ok s \<Longrightarrow> decodes_nested s (conforms s n) (spec_message s n)"
proof (induction n)
  case (Suc n)
  show ?case unfolding decodes_nested_def
  proof (intro allI impI)
    fix t kvs b
    assume ok: "conforms s (Suc n) t (JObj kvs)" and enc: "spec_message s (Suc n) t (JObj kvs) = Inr b"
      and len: "length b < 2 ^ 53"
    from ok obtain fs where fs: "map_of s t = Some fs" "msg_ok (conforms s n) fs kvs"
      by (auto split: option.splits)
    then have fields: "fields_of s t = Inr fs" by (simp add: fields_of_def)
    with schema_ok_fields [OF Suc.prems] have "length fs + 1 < 2 ^ 28" "distinct (map fd_key fs)" by auto
    with read_loop_fields [OF Suc.IH [OF Suc.prems], of fs "[]" fs "[]" kvs b "[]" "[]"] fs enc fields len
    have "read_loop s fs b [] = Inr kvs" by simp
    with fields show "\<exists>fs. fields_of s t = Inr fs \<and> read_loop s fs b [] = Inr kvs" by blast
  qed
qed (simp add: decodes_nested_def)

text \<open>A conforming message encodes: enough depth never overflows the stack.\<close>

lemma spec_elems_Inr:
  "(\<And>x. x \<in> set xs \<Longrightarrow> \<exists>b. spec_field enc tag f x = Inr b) \<Longrightarrow> \<exists>b. spec_elems enc tag f xs = Inr b"
  by (induction xs) (auto simp: rbind_Inr_iff)

definition encodes_nested :: "(jsstr \<Rightarrow> jsval \<Rightarrow> bool) \<Rightarrow> (jsstr \<Rightarrow> jsval \<Rightarrow> wire_error + bytes) \<Rightarrow> bool" where
  "encodes_nested ok enc \<longleftrightarrow> (\<forall>t kvs. ok t (JObj kvs) \<longrightarrow> (\<exists>b. enc t (JObj kvs) = Inr b))"

lemma spec_field_Inr:
  assumes "value_ok ok (fd_type f) v" "encodes_nested ok enc"
  shows "\<exists>b. spec_field enc tag f v = Inr b"
  using assms by (cases "(ok, fd_type f, v)" rule: value_ok.cases)
    (auto simp: spec_field_def rbind_Inr_iff nullish_def encodes_nested_def)

lemma spec_slot_Inr:
  assumes "slot_ok ok f v" "encodes_nested ok enc"
  shows "\<exists>b. spec_slot enc tag f v = Inr b"
proof (cases "fd_rule f = Repeated")
  case True
  with assms(1) obtain xs where "v = JArr xs" "list_all (value_ok ok (fd_type f)) xs"
    by (auto simp: slot_ok_def split: jsval.splits)
  with True spec_elems_Inr [of xs enc tag f] spec_field_Inr [OF _ assms(2)] show ?thesis
    by (auto simp: spec_slot_def nullish_def list_all_iff)
next
  case False
  with assms spec_field_Inr slot_ok_not_nullish [OF assms(1)] show ?thesis
    by (simp add: spec_slot_def slot_ok_def)
qed

lemma spec_fields_Inr:
  assumes nested: "encodes_nested ok enc"
  shows "distinct (map fd_key (gs @ hs)) \<Longrightarrow> set (map fst acc) \<subseteq> set (map fd_key gs) \<Longrightarrow> msg_ok ok hs kvs \<Longrightarrow>
    \<exists>b. spec_fields enc tag hs (JObj (acc @ kvs)) = Inr b"
proof (induction hs arbitrary: gs acc kvs tag)
  case (Cons f hs)
  have new: "\<not> jm_has acc (fd_key f)" using Cons.prems(1,2) by (auto simp: jm_has_iff_keys)
  let ?v = "get_prop (JObj (acc @ kvs)) (fd_key f)"
  show ?case
  proof (cases "\<exists>v kvs'. kvs = (fd_key f, v) # kvs'")
    case True
    then obtain v kvs' where kvs: "kvs = (fd_key f, v) # kvs'" by blast
    with Cons.prems(3) have ok: "slot_ok ok f v" "msg_ok ok hs kvs'" by simp_all
    have "?v = v" by (simp add: get_prop_prefix [OF new] kvs) (simp add: get_prop_JObj)
    with spec_slot_Inr [where ok = ok and enc = enc, OF ok(1) nested]
    obtain b where b: "spec_slot enc tag f ?v = Inr b" by auto
    have "\<exists>c. spec_fields enc (tag + 1) hs (JObj ((acc @ [(fd_key f, v)]) @ kvs')) = Inr c"
      using Cons.prems ok by (intro Cons.IH [of "gs @ [f]"]) auto
    with b kvs show ?thesis by (auto simp: rbind_Inr_iff)
  next
    case False
    then have ok: "fd_rule f \<noteq> Required" "msg_ok ok hs kvs"
      using Cons.prems(3) by (auto split: list.splits if_splits)
    have "fd_key f \<notin> set (map fst kvs)" using msg_ok_keys [OF ok(2)] Cons.prems(1) by auto
    then have "?v = JUndef"
      by (subst get_prop_prefix [OF new]) (rule get_prop_absent)
    with ok(1) have "spec_slot enc tag f ?v = Inr []" by (simp add: spec_slot_def nullish_def)
    moreover have "\<exists>c. spec_fields enc (tag + 1) hs (JObj (acc @ kvs)) = Inr c"
      using Cons.prems ok by (intro Cons.IH [of "gs @ [f]"]) auto
    ultimately show ?thesis by (auto simp: rbind_Inr_iff)
  qed
qed simp

lemma spec_message_Inr: "schema_ok s \<Longrightarrow> encodes_nested (conforms s n) (spec_message s n)"
proof (induction n)
  case (Suc n)
  show ?case unfolding encodes_nested_def
  proof (intro allI impI)
    fix t kvs assume "conforms s (Suc n) t (JObj kvs)"
    then obtain fs where fs: "map_of s t = Some fs" "msg_ok (conforms s n) fs kvs"
      by (auto split: option.splits)
    then have fields: "fields_of s t = Inr fs" by (simp add: fields_of_def)
    with schema_ok_fields [OF Suc.prems] spec_fields_Inr [OF Suc.IH [OF Suc.prems], of "[]" fs "[]" kvs 1] fs
    show "\<exists>b. spec_message s (Suc n) t (JObj kvs) = Inr b" by auto
  qed
qed (simp add: encodes_nested_def)

lemma conforms_JObj: "conforms s n t v \<Longrightarrow> \<exists>kvs. v = JObj kvs"
  by (cases n; cases v) (auto split: option.splits)

lemma message_roundtrip:
  assumes "schema_ok s" "conforms s n t v" "spec_message s n t v = Inr b" "length b < 2 ^ 53"
  shows "encode_message s n t v = Inr b" "decode_message s t b = Inr v"
proof -
  show "encode_message s n t v = Inr b" using assms by (simp add: encode_message_spec)
  from conforms_JObj [OF assms(2)] obtain kvs where v: "v = JObj kvs" by blast
  with conforms_decodes [OF assms(1), of n] assms obtain fs
    where "fields_of s t = Inr fs" "read_loop s fs b [] = Inr kvs"
    unfolding decodes_nested_def by blast
  with v show "decode_message s t b = Inr v" by (simp add: decode_message_def)
qed

end
