(* ===== verification/Serializer_Props.thy ===== *)
theory Serializer_Props
  imports Serializer_Roundtrip
begin

text \<open>
  What the serializer promises its callers: it writes the documented wire format, decoding
  returns what was encoded, old and new peers read each other's messages as long as fields
  are only appended, and malformed input is an error value.
\<close>

section \<open>Unknown fields are skipped\<close>

lemma read_loop_skip_field:
  assumes tag: "length fs < tag" "tag < 2 ^ 28"
    and b: "spec_field enc tag f v = Inr b" "length b < 2 ^ 53"
  shows "read_loop s fs (b @ bs) acc = read_loop s fs bs acc"
proof -
  have skip_len: "read_loop s fs (spec_key tag 2 @ spec_len x @ bs) acc = read_loop s fs bs acc"
    if "length x < 2 ^ 53" for x
    using tag read_raw_len [OF that] by (simp add: read_loop_key del: One_nat_def)
  have skip_num: "read_loop s fs (spec_key tag 0 @ varint_bytes n @ bs) acc = read_loop s fs bs acc"
    if "n < 2 ^ 53" for n
    using tag read_raw_varint [OF that] by (simp add: read_loop_key del: One_nat_def)
  have zigzag: "zigzag n < 2 ^ 53" for n by (rule less_trans [OF zigzag_bound]) simp
  from b(1) consider
      (len) x where "b = spec_key tag 2 @ spec_len x"
    | (num) n where "b = spec_key tag 0 @ varint_bytes n" "n < 2 ^ 53"
    using uint32_bound zigzag
    by (cases "fd_type f") (auto simp: spec_field_def rbind_Inr_iff split: if_splits)
  then show ?thesis
  proof cases
    case len
    with b(2) have "length x < 2 ^ 53" by (simp add: spec_len_def)
    then show ?thesis by (simp add: len skip_len)
  next
    case num
    then show ?thesis by (simp add: skip_num)
  qed
qed

lemma spec_elems_split:
  "spec_elems enc tag f (x # xs) = Inr b \<Longrightarrow>
   \<exists>c d. spec_field enc tag f x = Inr c \<and> spec_elems enc tag f xs = Inr d \<and> b = c @ d"
  by (auto simp: rbind_Inr_iff)

lemma read_loop_skip_elems:
  assumes "length fs < tag" "tag < 2 ^ 28"
  shows "spec_elems enc tag f xs = Inr b \<Longrightarrow> length b < 2 ^ 53 \<Longrightarrow>
    read_loop s fs (b @ bs) acc = read_loop s fs bs acc"
proof (induction xs arbitrary: b)
  case (Cons x xs)
  from spec_elems_split [OF Cons.prems(1)] obtain c d
    where "spec_field enc tag f x = Inr c" "spec_elems enc tag f xs = Inr d" "b = c @ d" by blast
  with Cons read_loop_skip_field [OF assms] show ?case by auto
qed simp

lemma read_loop_skip_slot:
  assumes "length fs < tag" "tag < 2 ^ 28" "spec_slot enc tag f v = Inr b" "length b < 2 ^ 53"
  shows "read_loop s fs (b @ bs) acc = read_loop s fs bs acc"
  using assms(3,4) read_loop_skip_field [OF assms(1,2)] read_loop_skip_elems [OF assms(1,2)]
  unfolding spec_slot_def by (auto split: if_splits jsval.splits)

lemma read_loop_skip_fields:
  "length fs < tag \<Longrightarrow> tag + length es < 2 ^ 28 \<Longrightarrow> spec_fields enc tag es v = Inr b \<Longrightarrow>
   length b < 2 ^ 53 \<Longrightarrow> read_loop s fs (b @ bs) acc = read_loop s fs bs acc"
proof (induction es arbitrary: tag b)
  case (Cons f es)
  from Cons.prems(3) obtain c d where "spec_slot enc tag f (get_prop v (fd_key f)) = Inr c"
    "spec_fields enc (tag + 1) es v = Inr d" "b = c @ d" by (auto simp: rbind_Inr_iff)
  with Cons.prems read_loop_skip_slot [of fs tag enc f] Cons.IH [of "tag + 1" d] show ?case by simp
qed simp

lemma spec_fields_append:
  "spec_fields enc tag (fs @ es) v =
   rbind (spec_fields enc tag fs v) (\<lambda>b. rbind (spec_fields enc (tag + length fs) es v) (\<lambda>c. Inr (b @ c)))"
proof (induction fs arbitrary: tag)
  case Nil
  then show ?case by (cases "spec_fields enc tag es v") simp_all
next
  case (Cons f fs)
  then show ?case
    by (cases "spec_slot enc tag f (get_prop v (fd_key f))"; cases "spec_fields enc (tag + 1) fs v";
        cases "spec_fields enc (tag + Suc (length fs)) es v") simp_all
qed

lemma spec_fields_cong:
  "(\<And>f. f \<in> set fs \<Longrightarrow> get_prop v (fd_key f) = get_prop w (fd_key f)) \<Longrightarrow>
   spec_fields enc tag fs v = spec_fields enc tag fs w"
  by (induction fs arbitrary: tag) simp_all

section \<open>Messages that fit\<close>

text \<open>A conforming message of a length that JavaScript can count exactly.\<close>

definition fits :: "schema \<Rightarrow> nat \<Rightarrow> jsstr \<Rightarrow> jsval \<Rightarrow> bool" where
  "fits s n t v \<longleftrightarrow> conforms s n t v \<and>
     (case spec_message s n t v of Inr b \<Rightarrow> length b < 2 ^ 53 | Inl _ \<Rightarrow> False)"

lemma fits_conforms: "fits s n t v \<Longrightarrow> conforms s n t v"
  by (simp add: fits_def)

lemma fits_spec: "fits s n t v \<Longrightarrow> \<exists>b. spec_message s n t v = Inr b \<and> length b < 2 ^ 53"
  by (auto simp: fits_def split: sum.splits)

lemma fitsI:
  assumes "schema_ok s" "conforms s n t v" "\<And>b. spec_message s n t v = Inr b \<Longrightarrow> length b < 2 ^ 53"
  shows "fits s n t v"
proof -
  from conforms_JObj [OF assms(2)] obtain kvs where "v = JObj kvs" by blast
  with spec_message_Inr [OF assms(1), of n] assms(2) obtain b where "spec_message s n t v = Inr b"
    by (auto simp: encodes_nested_def)
  with assms show ?thesis by (simp add: fits_def)
qed

lemma fits_roundtrip:
  assumes "schema_ok s" "fits s n t v"
  shows "\<exists>b. encode_message s n t v = Inr b \<and> spec_message s n t v = Inr b \<and> length b < 2 ^ 53 \<and>
    decode_message s t b = Inr v"
  using fits_spec [OF assms(2)] message_roundtrip [OF assms(1) fits_conforms [OF assms(2)]] by blast

section \<open>Evolution\<close>

lemma get_prop_append_new:
  "k \<notin> set (map fst xs) \<Longrightarrow> get_prop (JObj (kvs @ xs)) k = get_prop (JObj kvs) k"
  unfolding get_prop_JObj by (cases "map_of kvs k") (force simp: map_add_def split: option.split dest: map_of_SomeD)+

lemma old_reader_loop:
  assumes s: "schema_ok s" "fields_of s told = Inr fs" "fields_of s tnew = Inr (fs @ es)"
    and ok: "conforms s (Suc n) told (JObj kvs)" "set (map fst xs) \<subseteq> set (map fd_key es)"
    and enc: "spec_message s (Suc n) tnew (JObj (kvs @ xs)) = Inr b" "length b < 2 ^ 53"
  shows "decode_message s told b = Inr (JObj kvs)"
proof -
  note new = schema_ok_fields [OF s(1,3)]
  from ok(1) s(2) have kvs: "msg_ok (conforms s n) fs kvs"
    by (auto simp: fields_of_def split: option.splits)
  have get: "get_prop (JObj (kvs @ xs)) (fd_key f) = get_prop (JObj kvs) (fd_key f)" if "f \<in> set fs" for f
    using that new ok(2) by (intro get_prop_append_new) auto
  from enc(1) s(3) obtain c d where
      c: "spec_fields (spec_message s n) 1 fs (JObj (kvs @ xs)) = Inr c"
    and d: "spec_fields (spec_message s n) (1 + length fs) es (JObj (kvs @ xs)) = Inr d"
    and b: "b = c @ d"
    by (auto simp: spec_fields_append rbind_Inr_iff)
  from c have "spec_fields (spec_message s n) 1 fs (JObj kvs) = Inr c"
    by (subst (asm) spec_fields_cong [OF get])
  then have "read_loop s (fs @ []) (c @ d) [] = read_loop s (fs @ []) d ([] @ kvs)"
    using b enc(2) new kvs
    by (intro read_loop_fields [OF conforms_decodes [OF s(1)], of fs "[]" fs "[]" n kvs c "[]"]) auto
  moreover have "read_loop s fs (d @ []) kvs = read_loop s fs [] kvs"
    using b enc(2) new by (intro read_loop_skip_fields [OF _ _ d]) auto
  ultimately show ?thesis by (simp add: decode_message_def s(2) b)
qed

lemma new_reader_loop:
  assumes s: "schema_ok s" "fields_of s told = Inr fs" "fields_of s tnew = Inr (fs @ es)"
    and ok: "conforms s (Suc n) told (JObj kvs)"
    and enc: "spec_message s (Suc n) told (JObj kvs) = Inr b" "length b < 2 ^ 53"
  shows "decode_message s tnew b = Inr (JObj kvs)"
proof -
  from ok s(2) have kvs: "msg_ok (conforms s n) fs kvs"
    by (auto simp: fields_of_def split: option.splits)
  from enc(1) s(2) have "spec_fields (spec_message s n) 1 fs (JObj kvs) = Inr b" by simp
  then have "read_loop s (fs @ es) (b @ []) [] = read_loop s (fs @ es) [] ([] @ kvs)"
    using enc(2) schema_ok_fields [OF s(1,2)] kvs
    by (intro read_loop_fields [OF conforms_decodes [OF s(1)], of fs "[]" fs "[]" n kvs b es]) auto
  then show ?thesis by (simp add: decode_message_def s(3))
qed

section \<open>A sample schema\<close>

text \<open>Two versions of a message with a nested repeated type, for the concrete instances.\<close>

definition sample_schema :: schema where
  "sample_schema =
     [(js ''pos'', [\<lparr>fd_key = js ''x'', fd_type = TInt32, fd_rule = Required\<rparr>]),
      (js ''v1'', [\<lparr>fd_key = js ''name'', fd_type = TString, fd_rule = Required\<rparr>,
                 \<lparr>fd_key = js ''path'', fd_type = TMessage (js ''pos''), fd_rule = Repeated\<rparr>]),
      (js ''v2'', [\<lparr>fd_key = js ''name'', fd_type = TString, fd_rule = Required\<rparr>,
                 \<lparr>fd_key = js ''path'', fd_type = TMessage (js ''pos''), fd_rule = Repeated\<rparr>,
                 \<lparr>fd_key = js ''admin'', fd_type = TBool, fd_rule = Optional\<rparr>])]"

definition sample_props :: "(jsstr \<times> jsval) list" where
  "sample_props = [(js ''name'', JStr (js ''ann'')),
     (js ''path'', JArr [JObj [(js ''x'', JNum (- 3))], JObj [(js ''x'', JNum 300)]])]"

text \<open>Evaluation of small closed instances.\<close>

lemma depth_numeral:
  "conforms s (numeral k) t v =
     (case (map_of s t, v) of
        (Some fs, JObj kvs) \<Rightarrow> msg_ok (conforms s (pred_numeral k)) fs kvs
      | _ \<Rightarrow> False)"
  "spec_message s (numeral k) t v =
     rbind (fields_of s t) (\<lambda>fs. spec_fields (spec_message s (pred_numeral k)) 1 fs v)"
  by (simp_all add: numeral_eq_Suc)

lemmas conforms_eval = js_eval depth_numeral slot_ok_def wire_safe_def well_formed_def is_high_def is_low_def

lemma spec_key_small: "8 * tag + wire < 128 \<Longrightarrow> spec_key tag wire = [word_of_nat (8 * tag + wire)]"
  by (simp add: spec_key_def varint_bytes_small)

lemmas encode_simps = js_eval depth_numeral spec_field_def spec_slot_def spec_key_small
  fields_of_def get_prop_def nullish_def js_int_def truthy_def

lemmas encode_eval = encode_simps spec_len_def varint_bytes.simps zigzag_neg zigzag_nonneg
  text_encode_def utf8_point_def is_high_def is_low_def

lemma sample_schema_ok: "schema_ok sample_schema"
  by (simp add: schema_ok_def sample_schema_def js_eval)

lemma sample_fields:
  "fields_of sample_schema (js ''v1'') =
     Inr [\<lparr>fd_key = js ''name'', fd_type = TString, fd_rule = Required\<rparr>,
          \<lparr>fd_key = js ''path'', fd_type = TMessage (js ''pos''), fd_rule = Repeated\<rparr>]"
  "fields_of sample_schema (js ''v2'') =
     Inr ([\<lparr>fd_key = js ''name'', fd_type = TString, fd_rule = Required\<rparr>,
           \<lparr>fd_key = js ''path'', fd_type = TMessage (js ''pos''), fd_rule = Repeated\<rparr>] @
          [\<lparr>fd_key = js ''admin'', fd_type = TBool, fd_rule = Optional\<rparr>])"
  by (simp_all add: fields_of_def sample_schema_def js_eval)

lemma sample_conforms: "conforms sample_schema 2 (js ''v1'') (JObj sample_props)"
  by (simp add: sample_schema_def sample_props_def conforms_eval)

lemma sample_bytes:
  "spec_message sample_schema 2 (js ''v1'') (JObj sample_props) =
   Inr [10, 3, 97, 110, 110, 18, 2, 8, 5, 18, 3, 8, 216, 4]"
  by (simp add: sample_schema_def sample_props_def encode_eval)

lemma sample_bytes_v2:
  "spec_message sample_schema 2 (js ''v2'') (JObj (sample_props @ [(js ''admin'', JBool True)])) =
   Inr [10, 3, 97, 110, 110, 18, 2, 8, 5, 18, 3, 8, 216, 4, 24, 1]"
  by (simp add: sample_schema_def sample_props_def encode_eval)

section \<open>Properties\<close>

text \<open>C1: the serializer writes the documented wire format. For every schema, depth and value
  (conforming or not) the growing-buffer writer returns exactly the bytes of the reference
  encoding, and it throws exactly when the reference encoding does, the same error: an
  undefined message type, a repeated field that is not an array, a value nested too deeply.\<close>

theorem encode_refines_reference:
  assumes "schema_ok s" "case spec_message s n t v of Inr b \<Rightarrow> length b < 2 ^ 53 | Inl _ \<Rightarrow> True"
  shows "encode_message s n t v = spec_message s n t v"
proof (cases "spec_message s n t v")
  case (Inl e)
  with same_error_message [of s n t v new_writer] have "write_message s n t v new_writer = Inl e"
    unfolding same_error_def by blast
  with Inl show ?thesis by (simp add: encode_message_def)
qed (use assms encode_message_spec in auto)

theorem encode_refines_reference_witness:
  "encode_message sample_schema 2 (js ''v1'') (JObj sample_props) =
   Inr [10, 3, 97, 110, 110, 18, 2, 8, 5, 18, 3, 8, 216, 4]"
  using encode_refines_reference [OF sample_schema_ok, of 2 "js ''v1''" "JObj sample_props"]
  by (simp add: sample_bytes)

text \<open>C2: a conforming message encodes without error, whatever its nesting within the depth, and
  decoding the bytes gives back the same object, own properties in the same order.\<close>

theorem serializer_roundtrip:
  assumes "schema_ok s" "fits s n t v"
  shows "\<exists>b. encode_message s n t v = Inr b \<and> decode_message s t b = Inr v"
  using fits_roundtrip [OF assms] by blast

theorem serializer_roundtrip_witness:
  "\<exists>b. encode_message sample_schema 2 (js ''v1'') (JObj sample_props) = Inr b \<and>
       decode_message sample_schema (js ''v1'') b = Inr (JObj sample_props)"
  by (rule serializer_roundtrip [OF sample_schema_ok])
    (simp add: fits_def sample_conforms sample_bytes)

text \<open>Append-only evolution, old reader: a message written by a newer peer, whose type has the
  old fields followed by appended ones, is read by an older peer as exactly the old
  properties: appended fields of any type, wire type and count are skipped.\<close>

lemma old_reader_skips_appended_fields:
  assumes "schema_ok s" "fields_of s told = Inr fs" "fields_of s tnew = Inr (fs @ es)"
    and "conforms s (Suc n) told (JObj kvs)" "set (map fst xs) \<subseteq> set (map fd_key es)"
    and "spec_message s (Suc n) tnew (JObj (kvs @ xs)) = Inr b" "length b < 2 ^ 53"
  shows "encode_message s (Suc n) tnew (JObj (kvs @ xs)) = Inr b \<and>
    decode_message s told b = Inr (JObj kvs)"
  using encode_message_spec [OF assms(1,6,7)] old_reader_loop [OF assms] by simp_all

text \<open>Append-only evolution, new reader: a message written by an older peer is read by a newer
  one, whose type has further fields at the end, as the same object: the appended fields are
  absent, not defaulted.\<close>

lemma new_reader_accepts_old_message:
  assumes "schema_ok s" "fields_of s told = Inr fs" "fields_of s tnew = Inr (fs @ es)"
    and "fits s (Suc n) told (JObj kvs)" "encode_message s (Suc n) told (JObj kvs) = Inr b"
  shows "decode_message s tnew b = Inr (JObj kvs)"
  using fits_roundtrip [OF assms(1,4)] assms(5)
    new_reader_loop [OF assms(1,2,3) fits_conforms [OF assms(4)]] by auto

text \<open>C3: append-only evolution. Between two types whose fields are the same but for some appended
  at the end of the newer one: a message a newer peer writes, with any of the appended fields, is
  read by an older peer as exactly the old properties; and a message an older peer writes is read
  by a newer one as the same object, the appended fields absent, not defaulted.\<close>

theorem schema_evolution:
  assumes "schema_ok s" "fields_of s told = Inr fs" "fields_of s tnew = Inr (fs @ es)"
  shows "(\<forall>n kvs xs b. conforms s (Suc n) told (JObj kvs) \<and> set (map fst xs) \<subseteq> set (map fd_key es) \<and>
        spec_message s (Suc n) tnew (JObj (kvs @ xs)) = Inr b \<and> length b < 2 ^ 53 \<longrightarrow>
        encode_message s (Suc n) tnew (JObj (kvs @ xs)) = Inr b \<and> decode_message s told b = Inr (JObj kvs)) \<and>
    (\<forall>n kvs b. fits s (Suc n) told (JObj kvs) \<and> encode_message s (Suc n) told (JObj kvs) = Inr b \<longrightarrow>
        decode_message s tnew b = Inr (JObj kvs))"
  using old_reader_skips_appended_fields [OF assms] new_reader_accepts_old_message [OF assms] by blast

theorem schema_evolution_witness:
  "decode_message sample_schema (js ''v1'')
     [10, 3, 97, 110, 110, 18, 2, 8, 5, 18, 3, 8, 216, 4, 24, 1] = Inr (JObj sample_props) \<and>
   decode_message sample_schema (js ''v2'') [10, 3, 97, 110, 110, 18, 2, 8, 5, 18, 3, 8, 216, 4] =
     Inr (JObj sample_props)"
proof -
  note e = schema_evolution [OF sample_schema_ok sample_fields]
  have "decode_message sample_schema (js ''v1'')
     [10, 3, 97, 110, 110, 18, 2, 8, 5, 18, 3, 8, 216, 4, 24, 1] = Inr (JObj sample_props)"
    using e [THEN conjunct1, rule_format, OF conjI [OF sample_conforms [folded Suc_1] conjI [OF _ conjI [OF sample_bytes_v2 [folded Suc_1]]]]]
    by simp
  moreover have "decode_message sample_schema (js ''v2'') [10, 3, 97, 110, 110, 18, 2, 8, 5, 18, 3, 8, 216, 4] =
     Inr (JObj sample_props)"
    by (rule e [THEN conjunct2, rule_format, of 1])
      (simp add: fits_def sample_conforms sample_bytes encode_message_spec [OF sample_schema_ok sample_bytes]
        flip: numeral_2_eq_2)
  ultimately show ?thesis ..
qed

end
