(* ===== verification/Serializer_Types.thy ===== *)
theory Serializer_Types
  imports Serializer_Props
begin

text \<open>
  What the reader returns is typed, whatever bytes it is given: every property is a field of the
  schema with a value of the field's type. A message field read from a number is \<open>undefined\<close>.
\<close>

declare map_of_eq_Some_iff [simp del] Some_eq_map_of_iff [simp del]

section \<open>Types\<close>

definition int32 :: "int \<Rightarrow> bool" where
  "int32 i \<longleftrightarrow> - (2 ^ 31) \<le> i \<and> i < 2 ^ 31"

text \<open>The flag says whether the field is repeated: its value is then a non-empty array.\<close>

fun typed :: "schema \<Rightarrow> bool \<Rightarrow> ftype \<Rightarrow> jsval \<Rightarrow> bool" where
  "typed s True t (JArr xs) \<longleftrightarrow> xs \<noteq> [] \<and> list_all (typed s False t) xs"
| "typed s False TString (JStr _) \<longleftrightarrow> True"
| "typed s False TBytes (JBytes _) \<longleftrightarrow> True"
| "typed s False TUint32 (JNum i) \<longleftrightarrow> 0 \<le> i \<and> i < 2 ^ 32"
| "typed s False TInt32 (JNum i) \<longleftrightarrow> int32 i"
| "typed s False TBool (JBool _) \<longleftrightarrow> True"
| "typed s False (TMessage t) JUndef \<longleftrightarrow> True"
| "typed s False (TMessage t) (JObj kvs) \<longleftrightarrow> (case fields_of s t of
     Inl _ \<Rightarrow> False
   | Inr fs \<Rightarrow> jm_ok kvs \<and> list_all (\<lambda>(k, v). case find (\<lambda>f. fd_key f = k) fs of
       None \<Rightarrow> False | Some f \<Rightarrow> typed s (fd_rule f = Repeated) (fd_type f) v) kvs)"
| "typed s _ _ _ \<longleftrightarrow> False"

definition props_typed :: "schema \<Rightarrow> field_def list \<Rightarrow> (jsstr \<times> jsval) list \<Rightarrow> bool" where
  "props_typed s fs kvs \<longleftrightarrow> jm_ok kvs \<and> (\<forall>k v. jm_get kvs k = Some v \<longrightarrow>
     (\<exists>f \<in> set fs. fd_key f = k \<and> typed s (fd_rule f = Repeated) (fd_type f) v))"

lemma find_field:
  "distinct (map fd_key fs) \<Longrightarrow> f \<in> set fs \<Longrightarrow> find (\<lambda>g. fd_key g = fd_key f) fs = Some f"
  by (induction fs) (auto simp: image_iff)

lemma find_key: "find (\<lambda>g. fd_key g = k) fs = Some f \<Longrightarrow> f \<in> set fs \<and> fd_key f = k"
  by (induction fs) (auto split: if_splits)

lemma typed_object:
  assumes "distinct (map fd_key fs)" "fields_of s t = Inr fs"
  shows "typed s False (TMessage t) (JObj kvs) \<longleftrightarrow> props_typed s fs kvs"
proof -
  have p: "(case find (\<lambda>f. fd_key f = k) fs of None \<Rightarrow> False | Some f \<Rightarrow> typed s (fd_rule f = Repeated) (fd_type f) v) \<longleftrightarrow>
      (\<exists>f \<in> set fs. fd_key f = k \<and> typed s (fd_rule f = Repeated) (fd_type f) v)" for k v
  proof (cases "find (\<lambda>f. fd_key f = k) fs")
    case None
    then have "\<forall>f \<in> set fs. fd_key f \<noteq> k" by (auto simp: find_None_iff)
    with None show ?thesis by simp
  next
    case (Some f)
    note f = find_key [OF this]
    have "g = f" if "g \<in> set fs" "fd_key g = k" for g
      using find_field [OF assms(1) that(1)] that(2) Some by simp
    then show ?thesis unfolding Some option.case using f by blast
  qed
  have q: "(\<forall>(k, v) \<in> set kvs. P k v) \<longleftrightarrow> (\<forall>k v. jm_get kvs k = Some v \<longrightarrow> P k v)" if "jm_ok kvs" for P
    using that by (auto simp: map_of_eq_Some_iff)
  have ty: "typed s False (TMessage t) (JObj kvs) \<longleftrightarrow> jm_ok kvs \<and>
      (\<forall>(k, v) \<in> set kvs. \<exists>f \<in> set fs. fd_key f = k \<and> typed s (fd_rule f = Repeated) (fd_type f) v)"
    unfolding typed.simps(8) assms(2) sum.case p list_all_iff ..
  show ?thesis unfolding ty props_typed_def
    using q [of "\<lambda>k v. \<exists>f \<in> set fs. fd_key f = k \<and> typed s (fd_rule f = Repeated) (fd_type f) v"] by (rule conj_cong [OF refl])
qed

section \<open>The reader\<close>

lemma unzigzag_range: "int32 (unzigzag n)"
proof -
  let ?h = "int (n mod 2 ^ 32 div 2)"
  have h: "0 \<le> ?h" "?h < 2 ^ 31" by auto
  have "n mod 2 = 0 \<or> n mod 2 = 1" by auto
  then show ?thesis
  proof
    assume "n mod 2 = 1"
    then have "unzigzag n = NOT ?h" by (simp add: unzigzag_def)
    then show ?thesis using h by (simp add: int32_def not_int_def)
  qed (use h in \<open>simp add: unzigzag_def int32_def\<close>)
qed

lemma scalar_typed: "\<forall>m. t \<noteq> TMessage m \<Longrightarrow> typed s False t (read_scalar t num x)"
  by (cases t) (simp_all add: read_scalar_def unzigzag_range)

lemma put_typed:
  assumes "distinct (map fd_key fs)" "f \<in> set fs" "typed s False (fd_type f) v" "props_typed s fs kvs"
  shows "props_typed s fs (put_value f v kvs)"
proof -
  have "\<exists>w. put_value f v kvs = jm_set kvs (fd_key f) w \<and> typed s (fd_rule f = Repeated) (fd_type f) w"
  proof (cases "fd_rule f = Repeated")
    case True
    show ?thesis
    proof (cases "jm_get kvs (fd_key f)")
      case (Some a)
      then obtain g where "g \<in> set fs" "fd_key g = fd_key f" "typed s (fd_rule g = Repeated) (fd_type g) a"
        using assms(4) by (auto simp: props_typed_def)
      moreover from this have "g = f" using assms(1,2) by (metis inj_onD distinct_map)
      ultimately have "typed s True (fd_type f) a" using True by simp
      then obtain xs where "a = JArr xs" "list_all (typed s False (fd_type f)) xs" by (cases a) auto
      with True Some assms(3) show ?thesis by (intro exI [of _ "JArr (xs @ [v])"]) (simp add: put_value_def)
    next
      case None
      with True assms(3) show ?thesis by (intro exI [of _ "JArr [v]"]) (simp add: put_value_def)
    qed
  next
    case False
    with assms(3) show ?thesis by (intro exI [of _ v]) (simp add: put_value_def)
  qed
  then obtain w where w: "put_value f v kvs = jm_set kvs (fd_key f) w" "typed s (fd_rule f = Repeated) (fd_type f) w" by blast
  have "\<exists>g \<in> set fs. fd_key g = k \<and> typed s (fd_rule g = Repeated) (fd_type g) a" if "jm_get (jm_set kvs (fd_key f) w) k = Some a" for k a
    using that assms(2,4) w(2) by (cases "k = fd_key f") (auto simp: props_typed_def jsmap_simps)
  moreover have "jm_ok (jm_set kvs (fd_key f) w)" using assms(4) by (simp add: props_typed_def)
  ultimately show ?thesis unfolding w(1) props_typed_def by blast
qed

lemma read_loop_typed:
  assumes "schema_ok s"
  shows "read_loop s fs bs kvs = Inr r \<Longrightarrow> distinct (map fd_key fs) \<Longrightarrow> props_typed s fs kvs \<Longrightarrow> props_typed s fs r"
  using assms
proof (induction s fs bs kvs arbitrary: r rule: read_loop.induct)
  case (1 s fs bs kvs)
  show ?case
  proof (cases "bs = []")
    case False
    from "1.prems"(1) False obtain key bs1 num x bs2 where k: "r_varint bs = Inr (key, bs1)" "read_raw (key mod 8) bs1 = Inr (num, x, bs2)"
      by (subst (asm) read_loop.simps) (auto simp: rbind_Inr_iff)
    let ?tag = "key mod 2 ^ 32 div 8"
    show ?thesis
    proof (cases "1 \<le> ?tag \<and> ?tag \<le> length fs")
      case in_range: True
      define f where "f = fs ! (?tag - 1)"
      have f: "f \<in> set fs" using in_range unfolding f_def by (intro nth_mem) linarith
      define val where "val = (case fd_type f of
          TMessage t \<Rightarrow> (case x of None \<Rightarrow> Inr JUndef | Some b \<Rightarrow> rbind (fields_of s t) (\<lambda>fs'. rbind (read_loop s fs' b []) (\<lambda>kvs. Inr (JObj kvs))))
        | t \<Rightarrow> Inr (read_scalar t num x))"
      have "rbind val (\<lambda>v. read_loop s fs bs2 (put_value f v kvs)) = Inr r"
        using "1.prems"(1) False k in_range unfolding val_def f_def by (subst (asm) read_loop.simps) (simp add: Let_def)
      then obtain v where v: "val = Inr v" "read_loop s fs bs2 (put_value f v kvs) = Inr r" by (auto simp: rbind_Inr_iff)
      have "typed s False (fd_type f) v"
      proof (cases "\<exists>t. fd_type f = TMessage t")
        case True
        then obtain t where t: "fd_type f = TMessage t" by blast
        show ?thesis
        proof (cases x)
          case (Some b)
          with v(1) t obtain fs' kvs' where m: "fields_of s t = Inr fs'" "read_loop s fs' b [] = Inr kvs'" "v = JObj kvs'"
            by (auto simp: val_def rbind_Inr_iff)
          have d: "distinct (map fd_key fs')" using schema_ok_fields [OF "1.prems"(4) m(1)] by simp
          have "props_typed s fs' kvs'"
            by (rule "1.IH"(1) [OF False k(1) refl k(2) refl refl refl in_range refl t [unfolded f_def] Some m(1,2) d _ "1.prems"(4)])
              (simp add: props_typed_def)
          with typed_object [OF d m(1)] m(3) t show ?thesis by simp
        qed (use v(1) t in \<open>simp add: val_def\<close>)
      next
        case scalar: False
        then have "v = read_scalar (fd_type f) num x" using v(1) by (cases "fd_type f") (simp_all add: val_def)
        with scalar scalar_typed show ?thesis by auto
      qed
      then have "props_typed s fs (put_value f v kvs)" by (rule put_typed [OF "1.prems"(2) f _ "1.prems"(3)])
      with "1.IH"(2) [OF False k(1) refl k(2) refl refl refl in_range refl, of v r] v "1.prems"(2,4) show ?thesis
        by (simp add: f_def val_def)
    next
      case out: False
      with "1.prems"(1) False k have "read_loop s fs bs2 kvs = Inr r"
        by (subst (asm) read_loop.simps) (auto simp: Let_def split: if_splits)
      from "1.IH"(3) [OF False k(1) refl k(2) refl refl refl out this "1.prems"(2-4)] show ?thesis .
    qed
  qed (use "1.prems" in \<open>simp add: read_loop.simps\<close>)
qed

section \<open>Property\<close>

text \<open>
  C11: what the reader returns is typed, whatever bytes it was given. A message that decodes is an object
  of the schema's type: it has no property but declared fields, each at most once; a string, byte, boolean
  or number field has a value of that type and in its range, also when the sender used another wire type for
  it; a repeated field is a non-empty array of such values; nested messages are typed in turn. So a
  declared field that is read is \<open>undefined\<close> or has its declared type, and every other name is \<open>undefined\<close>.
\<close>

theorem decode_well_typed:
  assumes "schema_ok s" "decode_message s t bs = Inr v"
  shows "typed s False (TMessage t) v \<and>
    (\<exists>fs. fields_of s t = Inr fs \<and> (\<forall>k. get_prop v k = JUndef \<or>
      (\<exists>f \<in> set fs. fd_key f = k \<and> typed s (fd_rule f = Repeated) (fd_type f) (get_prop v k))))"
proof -
  obtain fs kvs where d: "fields_of s t = Inr fs" "read_loop s fs bs [] = Inr kvs" "v = JObj kvs"
    using assms(2) by (auto simp: decode_message_def rbind_Inr_iff)
  have k: "distinct (map fd_key fs)" using schema_ok_fields [OF assms(1) d(1)] by simp
  have p: "props_typed s fs kvs" by (rule read_loop_typed [OF assms(1) d(2) k]) (simp add: props_typed_def)
  then have "get_prop v x = JUndef \<or> (\<exists>f \<in> set fs. fd_key f = x \<and> typed s (fd_rule f = Repeated) (fd_type f) (get_prop v x))" for x
    by (cases "jm_get kvs x") (auto simp: props_typed_def get_prop_def d(3))
  with typed_object [OF k d(1)] p d(1,3) show ?thesis by blast
qed

text \<open>A number field sent as two byte strings: it is read as the array of two zeros.\<close>

definition number_schema :: schema where
  "number_schema = [([0x74], [\<lparr>fd_key = [0x6E], fd_type = TUint32, fd_rule = Repeated\<rparr>])]"

theorem decode_well_typed_witness:
  "decode_message number_schema [0x74] [0x0A, 0, 0x0A, 1, 0xFF] = Inr (JObj [([0x6E], JArr [JNum 0, JNum 0])]) \<and>
   typed number_schema False (TMessage [0x74]) (JObj [([0x6E], JArr [JNum 0, JNum 0])])"
proof -
  have "decode_message number_schema [0x74] [0x0A, 0, 0x0A, 1, 0xFF] = Inr (JObj [([0x6E], JArr [JNum 0, JNum 0])])"
    by (simp add: decode_message_def fields_of_def number_schema_def read_loop.simps r_varint_def read_raw_def r_take_def
        read_scalar_def put_value_def Let_def)
  moreover have "schema_ok number_schema" by (simp add: schema_ok_def number_schema_def)
  ultimately show ?thesis using decode_well_typed by blast
qed

end
