(* ===== verification/Utf8_Truncate.thy ===== *)
theory Utf8_Truncate
  imports Utf8
begin

unbundle bit_operations_syntax

text \<open>
  The boundary-safe truncation \<open>truncateUtf8\<close> of \<open>handshake/src/closeFrame.ts\<close>: a forward
  walk over the encoded bytes that stops before the first sequence that would overflow. The
  lemmas show that the walk ends at a boundary between code points, at the last one within
  the limit, and that the decoded prefix is a prefix of the string.
\<close>

definition seq_len :: "byte \<Rightarrow> nat" where
  "seq_len b =
     (if b AND 0x80 = 0 then 1 else if b AND 0xE0 = 0xC0 then 2
      else if b AND 0xF0 = 0xE0 then 3 else if b AND 0xF8 = 0xF0 then 4 else 0)"

function utf8_walk :: "bytes \<Rightarrow> nat \<Rightarrow> nat \<Rightarrow> nat" where
  "utf8_walk buf mx i =
     (if i < mx then
        (let n = seq_len (buf ! i)
         in if n = 0 then utf8_walk buf mx (i + 1)
            else if i + n > mx then i
            else utf8_walk buf mx (i + n))
      else i)"
  by pat_completeness auto
termination
  by (relation "measure (\<lambda>(buf, mx, i). mx - i)") auto

declare utf8_walk.simps [simp del]

definition truncate_utf8 :: "jsstr \<Rightarrow> nat \<Rightarrow> jsstr" where
  "truncate_utf8 s mx =
     (let buf = text_encode s
      in if length buf \<le> mx then s else text_decode (take (utf8_walk buf mx 0) buf))"

section \<open>The bytes of a code point\<close>

definition point_bytes :: "nat \<Rightarrow> bytes" where
  "point_bytes c = map word_of_nat (utf8_point c)"

lemma text_encode_concat:
  "text_encode s = concat (map point_bytes (utf16_points (map unat s)))"
  unfolding text_encode_def map_concat map_map comp_def point_bytes_def ..

lemma point_bytes_length: "1 \<le> length (point_bytes c) \<and> length (point_bytes c) \<le> 4"
  by (simp add: point_bytes_def utf8_point_def)

lemma unat_byte: "n < 256 \<Longrightarrow> unat (word_of_nat n :: byte) = n"
  by (simp add: unat_of_nat)

lemma and_mask_eq:
  "n < 256 \<Longrightarrow> (word_of_nat n :: byte) AND m = k \<longleftrightarrow> n AND unat m = unat k"
  by (metis unat_byte unsigned_and_eq word_unat_eq_iff)

text \<open>The masks of the walk, as ranges of the first byte.\<close>

lemma first_byte_ranges:
  fixes n :: nat
  assumes "n < 256"
  shows "n AND 0x80 = 0 \<longleftrightarrow> n < 0x80"
    and "n AND 0xE0 = 0xC0 \<longleftrightarrow> 0xC0 \<le> n \<and> n < 0xE0"
    and "n AND 0xF0 = 0xE0 \<longleftrightarrow> 0xE0 \<le> n \<and> n < 0xF0"
    and "n AND 0xF8 = 0xF0 \<longleftrightarrow> 0xF0 \<le> n \<and> n < 0xF8"
proof -
  define P where "P n \<longleftrightarrow> (n AND 0x80 = 0 \<longleftrightarrow> n < 0x80) \<and> (n AND 0xE0 = 0xC0 \<longleftrightarrow> 0xC0 \<le> n \<and> n < 0xE0) \<and>
    (n AND 0xF0 = 0xE0 \<longleftrightarrow> 0xE0 \<le> n \<and> n < 0xF0) \<and> (n AND 0xF8 = 0xF0 \<longleftrightarrow> 0xF0 \<le> n \<and> n < 0xF8)" for n :: nat
  have "list_all P (0 # 1 # [2..<256])"
    unfolding P_def by (simp add: upt_rec_numeral)
  moreover have "n \<in> set (0 # 1 # [2..<256])"
    using assms by (simp only: list.set set_upt insert_iff atLeastLessThan_iff simp_thms) linarith
  ultimately have "P n" unfolding list_all_iff by blast
  then show "n AND 0x80 = 0 \<longleftrightarrow> n < 0x80" "n AND 0xE0 = 0xC0 \<longleftrightarrow> 0xC0 \<le> n \<and> n < 0xE0"
    "n AND 0xF0 = 0xE0 \<longleftrightarrow> 0xE0 \<le> n \<and> n < 0xF0" "n AND 0xF8 = 0xF0 \<longleftrightarrow> 0xF0 \<le> n \<and> n < 0xF8"
    unfolding P_def by blast+
qed

lemma seq_len_ranges:
  "n < 256 \<Longrightarrow> seq_len (word_of_nat n) =
     (if n < 0x80 then 1 else if 0xC0 \<le> n \<and> n < 0xE0 then 2 else if 0xE0 \<le> n \<and> n < 0xF0 then 3
      else if 0xF0 \<le> n \<and> n < 0xF8 then 4 else 0)"
  by (simp add: seq_len_def and_mask_eq first_byte_ranges)

lemma seq_len_point: "scalar_value c \<Longrightarrow> seq_len (hd (point_bytes c)) = length (point_bytes c)"
proof -
  assume c: "scalar_value c"
  define n where "n = hd (utf8_point c)"
  have "utf8_point c \<noteq> []" by (simp add: utf8_point_def)
  then have hd: "hd (point_bytes c) = word_of_nat n" by (simp add: point_bytes_def n_def hd_map)
  have "n < 256" using utf8_point_byte [OF c hd_in_set] \<open>utf8_point c \<noteq> []\<close> by (simp add: n_def)
  have "c < 0x800 \<Longrightarrow> c div 64 < 32" "c < 0x10000 \<Longrightarrow> c div 4096 < 16" "c div 262144 < 8"
    using c by (auto simp: scalar_value_def div_less_iff_less_mult)
  then show ?thesis
    unfolding hd seq_len_ranges [OF \<open>n < 256\<close>] by (simp add: n_def point_bytes_def utf8_point_def)
qed

section \<open>The walk\<close>

abbreviation points_bytes :: "nat list \<Rightarrow> bytes" where
  "points_bytes cs \<equiv> concat (map point_bytes cs)"

lemma utf8_walk_point:
  assumes "buf = pre @ point_bytes c @ post" "scalar_value c" "length pre < mx"
  shows "utf8_walk buf mx (length pre) =
    (if length pre + length (point_bytes c) > mx then length pre
     else utf8_walk buf mx (length pre + length (point_bytes c)))"
proof -
  have "point_bytes c \<noteq> []" using point_bytes_length [of c] by auto
  then have "buf ! length pre = hd (point_bytes c)"
    using assms(1) by (simp add: nth_append hd_conv_nth)
  then have "seq_len (buf ! length pre) = length (point_bytes c)" "length (point_bytes c) \<noteq> 0"
    using seq_len_point [OF assms(2)] point_bytes_length [of c] by auto
  with assms(3) show ?thesis by (subst utf8_walk.simps) simp
qed

lemma utf8_walk_points:
  "list_all scalar_value cs \<Longrightarrow> buf = pre @ points_bytes cs \<Longrightarrow> length pre \<le> mx \<Longrightarrow> mx < length buf \<Longrightarrow>
   \<exists>k. k < length cs \<and> utf8_walk buf mx (length pre) = length pre + length (points_bytes (take k cs)) \<and>
     length pre + length (points_bytes (take k cs)) \<le> mx \<and>
     mx < length pre + length (points_bytes (take (Suc k) cs))"
proof (induction cs arbitrary: pre)
  case (Cons c cs)
  note len = point_bytes_length [of c]
  consider "length pre = mx" | "length pre < mx" "mx < length pre + length (point_bytes c)"
    | "length pre < mx" "length pre + length (point_bytes c) \<le> mx"
    using Cons.prems(3) by linarith
  then show ?case
  proof cases
    case 1
    then have "utf8_walk buf mx (length pre) = length pre" by (subst utf8_walk.simps) simp
    moreover have "point_bytes c \<noteq> []" using len by auto
    ultimately show ?thesis using 1 by (intro exI [of _ 0]) simp
  next
    case 2
    with utf8_walk_point [of buf pre c "points_bytes cs" mx] Cons.prems
    have "utf8_walk buf mx (length pre) = length pre" by simp
    with 2 show ?thesis by (intro exI [of _ 0]) simp
  next
    case 3
    with utf8_walk_point [of buf pre c "points_bytes cs" mx] Cons.prems
    have walk: "utf8_walk buf mx (length pre) = utf8_walk buf mx (length (pre @ point_bytes c))" by simp
    from Cons.IH [of "pre @ point_bytes c"] 3 Cons.prems obtain k where
      "k < length cs" "utf8_walk buf mx (length (pre @ point_bytes c)) =
         length (pre @ point_bytes c) + length (points_bytes (take k cs))"
      "length (pre @ point_bytes c) + length (points_bytes (take k cs)) \<le> mx"
      "mx < length (pre @ point_bytes c) + length (points_bytes (take (Suc k) cs))" by auto
    with walk show ?thesis by (intro exI [of _ "Suc k"]) simp
  qed
qed simp

section \<open>Truncated strings\<close>

lemma utf16_points_units:
  "list_all scalar_value cs \<Longrightarrow> utf16_points (concat (map utf16_units cs)) = cs"
proof (induction cs)
  case (Cons c cs)
  let ?us = "concat (map utf16_units cs)"
  show ?case
  proof (cases "c < 0x10000")
    case True
    with Cons.prems have "\<not> is_high c" "\<not> is_low c"
      by (auto simp: scalar_value_def is_high_def is_low_def)
    then have "utf16_points (c # us) = c # utf16_points us" for us by (cases us) simp_all
    with True Cons show ?thesis by (simp add: utf16_units_def)
  next
    case False
    define d where "d = c - 0x10000"
    with False Cons.prems have d: "c = 0x10000 + d" "d < 0x100000" by (auto simp: scalar_value_def)
    then have "d div 0x400 < 0x400" by (simp add: div_less_iff_less_mult)
    then have "is_high (0xD800 + d div 0x400)" "is_low (0xDC00 + d mod 0x400)"
      by (auto simp: is_high_def is_low_def)
    with Cons d show ?thesis by (simp add: utf16_units_def flip: d_def)
  qed
qed simp

lemma units_bound: "scalar_value c \<Longrightarrow> u \<in> set (utf16_units c) \<Longrightarrow> u < 0x10000"
  by (auto simp: utf16_units_def scalar_value_def div_less_iff_less_mult split: if_splits)

lemma map_unat_of_nat_unit:
  "\<forall>u \<in> set us. u < 0x10000 \<Longrightarrow> map unat (map (word_of_nat :: nat \<Rightarrow> 16 word) us) = us"
  by (induction us) (auto simp: unat_of_nat)

definition of_points :: "nat list \<Rightarrow> jsstr" where
  "of_points cs = map word_of_nat (concat (map utf16_units cs))"

lemma of_points_points: "well_formed s \<Longrightarrow> of_points (utf16_points (map unat s)) = s"
  by (simp add: of_points_def utf16_units_points unat_units_bound well_formed_def map_of_nat_unat del: map_map)

lemma points_of_points:
  assumes "list_all scalar_value cs"
  shows "utf16_points (map unat (of_points cs)) = cs"
proof -
  have "\<forall>u \<in> set (concat (map utf16_units cs)). u < 0x10000"
    using assms units_bound by (auto simp: list_all_iff)
  then show ?thesis
    unfolding of_points_def by (simp only: map_unat_of_nat_unit utf16_points_units [OF assms])
qed

lemma text_decode_points:
  assumes "list_all scalar_value cs"
  shows "text_decode (points_bytes cs) = of_points (strip_bom cs)"
proof -
  have "text_encode (of_points cs) = points_bytes cs"
    by (simp add: text_encode_concat points_of_points [OF assms])
  with text_encode_points [of "of_points cs"] have "utf8_points (map unat (points_bytes cs)) = cs"
    by (simp only: points_of_points [OF assms])
  then show ?thesis unfolding text_decode_def of_points_def by simp
qed

lemma strip_bom_take: "strip_bom cs = cs \<Longrightarrow> strip_bom (take k cs) = take k cs"
  by (cases cs; cases k) (auto simp: strip_bom_def split: if_splits)

text \<open>The truncation is the longest run of whole code points that fits.\<close>

lemma truncate_utf8_points:
  assumes "wire_safe s" "mx < length (text_encode s)"
  shows "\<exists>k. k < length (utf16_points (map unat s)) \<and>
    truncate_utf8 s mx = of_points (take k (utf16_points (map unat s))) \<and>
    length (points_bytes (take k (utf16_points (map unat s)))) \<le> mx \<and>
    mx < length (points_bytes (take (Suc k) (utf16_points (map unat s))))"
proof -
  define cs where "cs = utf16_points (map unat s)"
  have sc: "list_all scalar_value cs" unfolding cs_def by (rule utf16_points_scalar) (rule unat_units_bound)
  have buf: "text_encode s = points_bytes cs" by (simp add: text_encode_concat cs_def)
  from utf8_walk_points [OF sc, of "points_bytes cs" "[]" mx] assms(2) buf obtain k where
    k: "k < length cs" "utf8_walk (points_bytes cs) mx 0 = length (points_bytes (take k cs))"
      "length (points_bytes (take k cs)) \<le> mx" "mx < length (points_bytes (take (Suc k) cs))" by auto
  have split: "points_bytes cs = points_bytes (take k cs) @ points_bytes (drop k cs)"
    by (simp flip: concat_append map_append)
  have "list_all scalar_value (take k cs)" using sc by (auto simp: list_all_iff dest: in_set_takeD)
  from text_decode_points [OF this] have "text_decode (points_bytes (take k cs)) = of_points (take k cs)"
    using strip_bom_points [OF assms(1)] by (simp add: strip_bom_take cs_def)
  moreover have "truncate_utf8 s mx = text_decode (take (length (points_bytes (take k cs))) (points_bytes cs))"
    using assms(2) unfolding truncate_utf8_def buf k(2) Let_def by simp
  moreover have "take (length (points_bytes (take k cs))) (points_bytes cs) = points_bytes (take k cs)"
    by (subst split) simp
  ultimately show ?thesis using k unfolding cs_def by (intro exI [of _ k]) simp
qed

lemma well_formed_of_points:
  assumes "list_all scalar_value cs"
  shows "well_formed (of_points cs)"
proof -
  have "well_formed_units (concat (map utf16_units cs))"
    using assms
  proof (induction cs)
    case (Cons c cs)
    let ?us = "concat (map utf16_units cs)"
    show ?case
    proof (cases "c < 0x10000")
      case True
      with Cons.prems have "\<not> is_high c" "\<not> is_low c"
        by (auto simp: scalar_value_def is_high_def is_low_def)
      then have "well_formed_units (c # us) = well_formed_units us" for us by (cases us) simp_all
      with True Cons show ?thesis by (simp add: utf16_units_def)
    next
      case False
      define d where "d = c - 0x10000"
      with False Cons.prems have d: "c = 0x10000 + d" "d < 0x100000" by (auto simp: scalar_value_def)
      then have "d div 0x400 < 0x400" by (simp add: div_less_iff_less_mult)
      then have "is_high (0xD800 + d div 0x400)" "is_low (0xDC00 + d mod 0x400)"
        by (auto simp: is_high_def is_low_def)
      with Cons d show ?thesis by (simp add: utf16_units_def flip: d_def)
    qed
  qed simp
  moreover have "\<forall>u \<in> set (concat (map utf16_units cs)). u < 0x10000"
    using assms units_bound by (auto simp: list_all_iff)
  ultimately show ?thesis
    unfolding well_formed_def of_points_def by (simp only: map_unat_of_nat_unit)
qed

lemma of_points_append: "of_points (cs @ ds) = of_points cs @ of_points ds"
  by (simp add: of_points_def)

lemma wire_safe_prefix: "wire_safe (r @ rest) \<Longrightarrow> well_formed r \<Longrightarrow> wire_safe r"
  by (cases r) (auto simp: wire_safe_def)

lemma truncate_utf8_fits: "length (text_encode s) \<le> mx \<Longrightarrow> truncate_utf8 s mx = s"
  by (simp add: truncate_utf8_def)

lemma truncate_utf8_spec:
  assumes "wire_safe s"
  shows "\<exists>rest. s = truncate_utf8 s mx @ rest \<and> wire_safe (truncate_utf8 s mx) \<and>
    length (text_encode (truncate_utf8 s mx)) \<le> mx \<and>
    (rest \<noteq> [] \<longrightarrow> mx < length (text_encode (truncate_utf8 s mx)) + 4)"
proof (cases "length (text_encode s) \<le> mx")
  case True
  with assms show ?thesis by (simp add: truncate_utf8_fits)
next
  case False
  define cs where "cs = utf16_points (map unat s)"
  from truncate_utf8_points [OF assms] False obtain k where k: "k < length cs"
    "truncate_utf8 s mx = of_points (take k cs)" "length (points_bytes (take k cs)) \<le> mx"
    "mx < length (points_bytes (take (Suc k) cs))" unfolding cs_def by (auto simp: not_le)
  have sc: "list_all scalar_value cs" unfolding cs_def by (rule utf16_points_scalar) (rule unat_units_bound)
  then have sct: "list_all scalar_value (take k cs)" by (auto simp: list_all_iff dest: in_set_takeD)
  have bytes: "text_encode (of_points (take k cs)) = points_bytes (take k cs)"
    by (simp add: text_encode_concat points_of_points [OF sct])
  have "s = of_points cs" using assms by (simp add: cs_def of_points_points wire_safe_def)
  then have s: "s = of_points (take k cs) @ of_points (drop k cs)"
    by (simp flip: of_points_append)
  moreover have "wire_safe (of_points (take k cs))"
    using assms well_formed_of_points [OF sct] s wire_safe_prefix by metis
  moreover have "mx < length (points_bytes (take k cs)) + 4"
    using k(1,4) point_bytes_length [of "cs ! k"] by (simp add: take_Suc_conv_app_nth)
  ultimately show ?thesis using k(2,3) bytes by auto
qed

text \<open>No longer prefix fits: a prefix that ends between code points is a run of whole points.\<close>

lemma utf16_points_append:
  "well_formed_units r \<Longrightarrow> utf16_points (r @ x) = utf16_points r @ utf16_points x"
proof (induction r rule: well_formed_units.induct)
  case (2 u)
  then have "\<not> is_high u" by simp
  then show ?case by (cases x) simp_all
next
  case (3 u v us)
  then show ?case by (auto split: if_splits)
qed simp

lemma truncate_utf8_longest:
  assumes "wire_safe s" "s = q @ rest" "well_formed q" "length (text_encode q) \<le> mx"
  shows "length q \<le> length (truncate_utf8 s mx)"
proof (cases "length (text_encode s) \<le> mx")
  case True
  with assms(2) show ?thesis by (simp add: truncate_utf8_fits)
next
  case False
  define cs where "cs = utf16_points (map unat s)"
  define ds where "ds = utf16_points (map unat q)"
  from truncate_utf8_points [OF assms(1)] False obtain k where k:
    "truncate_utf8 s mx = of_points (take k cs)" "mx < length (points_bytes (take (Suc k) cs))"
    unfolding cs_def by (auto simp: not_le)
  have cs: "cs = ds @ utf16_points (map unat rest)"
    using assms(3) utf16_points_append by (simp add: cs_def ds_def assms(2) well_formed_def)
  have "length ds \<le> k"
  proof (rule ccontr)
    assume "\<not> length ds \<le> k"
    then have "ds = take (Suc k) cs @ drop (Suc k) ds" by (simp add: cs)
    then have "length (points_bytes (take (Suc k) cs)) \<le> length (points_bytes ds)"
      by (metis concat_append length_append map_append le_add1)
    with k(2) assms(4) show False by (simp add: text_encode_concat ds_def)
  qed
  then have "take k cs = ds @ take (k - length ds) (utf16_points (map unat rest))" by (simp add: cs)
  moreover have "of_points ds = q" unfolding ds_def by (rule of_points_points [OF assms(3)])
  ultimately show ?thesis by (simp add: k(1) of_points_append)
qed

end
