(* ===== verification/Handshake.thy ===== *)
theory Handshake
  imports Serializer_Props Utf8_Truncate
begin

text \<open>
  The frames built on the serializer: the realtime message (\<open>handshake/src/message.ts\<close>),
  the close frame (\<open>closeFrame.ts\<close>) and the versioned control frame
  (\<open>codec.ts\<close>). The contract they share is the locale \<open>wire_codec\<close>: what a
  sender may send encodes, and the receiver reads it back.
\<close>

section \<open>The contract of a codec\<close>

locale wire_codec =
  fixes enc :: "'a \<Rightarrow> 'e + bytes"
    and dec :: "bytes \<Rightarrow> 'e + 'a"
    and sendable :: "'a \<Rightarrow> bool"
  assumes enc_total: "sendable x \<Longrightarrow> \<exists>b. enc x = Inr b"
    and dec_enc: "sendable x \<Longrightarrow> enc x = Inr b \<Longrightarrow> dec b = Inr x"
begin

lemma roundtrip: "sendable x \<Longrightarrow> rbind (enc x) dec = Inr x"
  using enc_total dec_enc by fastforce

lemma frame_determines: "sendable x \<Longrightarrow> sendable y \<Longrightarrow> enc x = enc y \<Longrightarrow> x = y"
  by (metis roundtrip sum.inject(2))

lemma stream_roundtrip:
  "list_all sendable xs \<Longrightarrow> \<exists>bs. map enc xs = map Inr bs \<and> map dec bs = map Inr xs"
proof (induction xs)
  case (Cons x xs)
  then obtain b bs where "enc x = Inr b" "dec b = Inr x" "map enc xs = map Inr bs" "map dec bs = map Inr xs"
    using enc_total [of x] dec_enc [of x] by auto
  then show ?case by (intro exI [of _ "b # bs"]) simp
qed simp

end

section \<open>Realtime messages\<close>

definition message_fields :: "field_def list" where
  "message_fields =
     [\<lparr>fd_key = js ''topic'', fd_type = TString, fd_rule = Required\<rparr>,
      \<lparr>fd_key = js ''payload'', fd_type = TBytes, fd_rule = Required\<rparr>]"

definition message_schema :: schema where
  "message_schema = [(js ''realtime_message'', message_fields)]"

definition message_object :: "jsstr \<Rightarrow> bytes \<Rightarrow> jsval" where
  "message_object topic payload = JObj [(js ''topic'', JStr topic), (js ''payload'', JBytes payload)]"

definition message_encode :: "jsstr \<Rightarrow> bytes \<Rightarrow> wire_error + bytes" where
  "message_encode topic payload =
     encode_message message_schema 1 (js ''realtime_message'') (message_object topic payload)"

text \<open>The decoder's result is used as a \<open>Message\<close> without a check: a frame without a topic
  has the topic \<open>undefined\<close>.\<close>

definition message_decode :: "bytes \<Rightarrow> wire_error + jsval" where
  "message_decode b = decode_message message_schema (js ''realtime_message'') b"

definition message_bytes :: "jsstr \<Rightarrow> bytes \<Rightarrow> bytes" where
  "message_bytes topic payload =
     [0x0A] @ spec_len (text_encode topic) @ [0x12] @ spec_len payload"

lemma message_schema_ok: "schema_ok message_schema"
  by (simp add: schema_ok_def message_schema_def message_fields_def js_eval)

lemma message_spec:
  "spec_message message_schema 1 (js ''realtime_message'') (message_object topic payload) =
   Inr (message_bytes topic payload)"
  by (simp add: message_schema_def message_fields_def message_object_def message_bytes_def encode_simps)

lemma message_fits:
  assumes "wire_safe topic" "length (message_bytes topic payload) < 2 ^ 53"
  shows "fits message_schema 1 (js ''realtime_message'') (message_object topic payload)"
proof (rule fitsI [OF message_schema_ok])
  show "conforms message_schema 1 (js ''realtime_message'') (message_object topic payload)"
    using assms(1)
    by (simp add: message_schema_def message_fields_def message_object_def slot_ok_def js_eval)
qed (use assms(2) message_spec in simp)

definition message_sendable :: "jsstr \<times> bytes \<Rightarrow> bool" where
  "message_sendable = (\<lambda>(topic, payload).
     wire_safe topic \<and> length (message_bytes topic payload) < 2 ^ 53)"

text \<open>\<open>Message\<close>'s two properties, as the receivers destructure them.\<close>

definition as_message :: "jsval \<Rightarrow> jsstr \<times> bytes" where
  "as_message v =
     ((case get_prop v (js ''topic'') of JStr t \<Rightarrow> t | _ \<Rightarrow> []),
      (case get_prop v (js ''payload'') of JBytes p \<Rightarrow> p | _ \<Rightarrow> []))"

lemma as_message_object [simp]: "as_message (message_object topic payload) = (topic, payload)"
  by (simp add: as_message_def message_object_def get_prop_def js_eval)

lemma message_encode_decode:
  assumes "message_sendable (topic, payload)"
  shows "message_encode topic payload = Inr (message_bytes topic payload)"
    and "message_decode (message_bytes topic payload) = Inr (message_object topic payload)"
  using assms fits_roundtrip [OF message_schema_ok message_fits [of topic payload]]
  unfolding message_spec message_encode_def message_decode_def message_sendable_def by auto

interpretation msg: wire_codec "\<lambda>(topic, payload). message_encode topic payload"
    "\<lambda>b. rbind (message_decode b) (\<lambda>v. Inr (as_message v))" message_sendable
  by unfold_locales (auto simp: message_encode_decode)

section \<open>Close frames\<close>

definition max_close_reason_bytes :: nat where
  "max_close_reason_bytes = 123"

definition close_control_topic :: jsstr where
  "close_control_topic = js ''__rivalis:close''"

definition close_fields :: "field_def list" where
  "close_fields =
     [\<lparr>fd_key = js ''code'', fd_type = TUint32, fd_rule = Required\<rparr>,
      \<lparr>fd_key = js ''reason'', fd_type = TString, fd_rule = Required\<rparr>]"

definition close_schema :: schema where
  "close_schema = [(js ''rivalis_close_frame'', close_fields)]"

definition close_object :: "int \<Rightarrow> jsstr \<Rightarrow> jsval" where
  "close_object code reason = JObj [(js ''code'', JNum code), (js ''reason'', JStr reason)]"

definition encode_close_frame :: "int \<Rightarrow> jsstr \<Rightarrow> wire_error + bytes" where
  "encode_close_frame code reason =
     (let truncated = truncate_utf8 reason max_close_reason_bytes
      in encode_message close_schema 1 (js ''rivalis_close_frame'') (close_object code truncated))"

definition decode_close_frame :: "bytes \<Rightarrow> wire_error + jsval" where
  "decode_close_frame b = decode_message close_schema (js ''rivalis_close_frame'') b"

definition close_bytes :: "int \<Rightarrow> jsstr \<Rightarrow> bytes" where
  "close_bytes code reason =
     [0x08] @ varint_bytes (nat (code mod 2 ^ 32)) @ [0x12] @ spec_len (text_encode reason)"

lemma close_schema_ok: "schema_ok close_schema"
  by (simp add: schema_ok_def close_schema_def close_fields_def js_eval)

lemma close_spec:
  "spec_message close_schema 1 (js ''rivalis_close_frame'') (close_object code reason) =
   Inr (close_bytes code reason)"
  by (simp add: close_schema_def close_fields_def close_object_def close_bytes_def encode_simps)

lemma close_bytes_length:
  assumes "length (text_encode reason) \<le> 123"
  shows "length (close_bytes code reason) < 2 ^ 53"
proof -
  have "length (varint_bytes (nat (code mod 2 ^ 32))) \<le> 8"
    by (rule varint_bytes_length_53) (rule uint32_bound)
  moreover have "length (varint_bytes (length (text_encode reason))) \<le> 8"
    using assms by (intro varint_bytes_length_53) simp
  ultimately show ?thesis using assms by (simp add: close_bytes_def spec_len_def)
qed

lemma close_fits:
  assumes "wire_safe reason" "length (text_encode reason) \<le> 123" "0 \<le> code" "code < 2 ^ 32"
  shows "fits close_schema 1 (js ''rivalis_close_frame'') (close_object code reason)"
proof (rule fitsI [OF close_schema_ok])
  show "conforms close_schema 1 (js ''rivalis_close_frame'') (close_object code reason)"
    using assms by (simp add: close_schema_def close_fields_def close_object_def slot_ok_def js_eval)
qed (use close_bytes_length [OF assms(2)] close_spec in simp)

lemma close_encode_decode:
  assumes "wire_safe reason" "0 \<le> code" "code < 2 ^ 32"
  shows "\<exists>b. encode_close_frame code reason = Inr b \<and>
    decode_close_frame b = Inr (close_object code (truncate_utf8 reason 123))"
proof -
  from truncate_utf8_spec [OF assms(1), of 123] have
    "wire_safe (truncate_utf8 reason 123)" "length (text_encode (truncate_utf8 reason 123)) \<le> 123" by auto
  from fits_roundtrip [OF close_schema_ok close_fits [OF this assms(2,3)]] show ?thesis
    by (auto simp: encode_close_frame_def decode_close_frame_def max_close_reason_bytes_def)
qed

definition close_sendable :: "int \<times> jsstr \<Rightarrow> bool" where
  "close_sendable = (\<lambda>(code, reason).
     0 \<le> code \<and> code < 2 ^ 32 \<and> wire_safe reason \<and> length (text_encode reason) \<le> 123)"

definition as_close :: "jsval \<Rightarrow> int \<times> jsstr" where
  "as_close v =
     ((case get_prop v (js ''code'') of JNum n \<Rightarrow> n | _ \<Rightarrow> 0),
      (case get_prop v (js ''reason'') of JStr r \<Rightarrow> r | _ \<Rightarrow> []))"

lemma as_close_object [simp]: "as_close (close_object code reason) = (code, reason)"
  by (simp add: as_close_def close_object_def get_prop_def js_eval)

interpretation close: wire_codec "\<lambda>(code, reason). encode_close_frame code reason"
    "\<lambda>b. rbind (decode_close_frame b) (\<lambda>v. Inr (as_close v))" close_sendable
proof unfold_locales
  fix x b
  assume "close_sendable x"
  then have s: "wire_safe (snd x)" "0 \<le> fst x" "fst x < 2 ^ 32" "truncate_utf8 (snd x) 123 = snd x"
    by (auto simp: close_sendable_def truncate_utf8_fits)
  note c = close_encode_decode [OF s(1-3), unfolded s(4)]
  then show "\<exists>b. (case x of (code, reason) \<Rightarrow> encode_close_frame code reason) = Inr b"
    by (auto simp: case_prod_beta)
  assume "(case x of (code, reason) \<Rightarrow> encode_close_frame code reason) = Inr b"
  with c show "rbind (decode_close_frame b) (\<lambda>v. Inr (as_close v)) = Inr x"
    by (auto simp: case_prod_beta)
qed

section \<open>Versioned frames\<close>

record codec =
  cd_major :: nat
  cd_minor :: nat
  cd_schema :: schema

datatype codec_error =
    TruncatedFrame
  | WireVersion nat nat  \<comment> \<open>their version, our version\<close>
  | BadBody wire_error

definition header_bytes :: nat where
  "header_bytes = 2"

text \<open>Storing the version numbers in a typed array keeps them modulo 256.\<close>

definition codec_encode :: "codec \<Rightarrow> nat \<Rightarrow> jsstr \<Rightarrow> jsval \<Rightarrow> codec_error + bytes" where
  "codec_encode c n t v = (case encode_message (cd_schema c) n t v of
     Inl e \<Rightarrow> Inl (BadBody e)
   | Inr body \<Rightarrow> Inr ([word_of_nat (cd_major c), word_of_nat (cd_minor c)] @ body))"

definition codec_decode :: "codec \<Rightarrow> jsstr \<Rightarrow> bytes \<Rightarrow> codec_error + jsval" where
  "codec_decode c t frame =
     (if length frame < header_bytes then Inl TruncatedFrame
      else if unat (frame ! 0) \<noteq> cd_major c then Inl (WireVersion (unat (frame ! 0)) (cd_major c))
      else case decode_message (cd_schema c) t (drop header_bytes frame) of
             Inl e \<Rightarrow> Inl (BadBody e)
           | Inr v \<Rightarrow> Inr v)"

definition codec_sendable :: "codec \<Rightarrow> nat \<Rightarrow> jsstr \<Rightarrow> jsval \<Rightarrow> bool" where
  "codec_sendable c n t v \<longleftrightarrow> cd_major c < 256 \<and> schema_ok (cd_schema c) \<and> fits (cd_schema c) n t v"

lemma codec_encode_decode:
  assumes "codec_sendable c n t v"
  shows "\<exists>b. codec_encode c n t v = Inr b \<and> codec_decode c t b = Inr v \<and> 2 \<le> length b \<and>
    unat (b ! 0) = cd_major c"
proof -
  from assms have c: "cd_major c < 256" "schema_ok (cd_schema c)" "fits (cd_schema c) n t v"
    by (simp_all add: codec_sendable_def)
  have "unat (word_of_nat (cd_major c) :: byte) = cd_major c" using c(1) by (simp add: unat_of_nat)
  moreover from fits_roundtrip [OF c(2,3)] obtain b where
    "encode_message (cd_schema c) n t v = Inr b" "decode_message (cd_schema c) t b = Inr v" by blast
  ultimately show ?thesis
    by (intro exI [of _ "[word_of_nat (cd_major c), word_of_nat (cd_minor c)] @ b"])
      (simp add: codec_encode_def codec_decode_def header_bytes_def)
qed

interpretation vers: wire_codec "codec_encode c n t" "codec_decode c t" "codec_sendable c n t" for c n t
  using codec_encode_decode by unfold_locales fastforce+

section \<open>Properties\<close>

text \<open>A realtime frame carries its topic and payload: for every topic without lone surrogates
  and without a leading byte order mark, and any payload, the frame is the two length-prefixed
  fields in order, and the receiver reads back exactly that topic and that payload.\<close>

lemma message_frame_roundtrip:
  assumes "wire_safe topic" "length (message_bytes topic payload) < 2 ^ 53"
  shows "message_encode topic payload =
      Inr ([0x0A] @ varint_bytes (length (text_encode topic)) @ text_encode topic @
           [0x12] @ varint_bytes (length payload) @ payload) \<and>
    rbind (message_encode topic payload) message_decode = Inr (message_object topic payload)"
  using message_encode_decode [of topic payload] assms
  by (simp add: message_sendable_def message_bytes_def spec_len_def)

lemma message_frame_sample:
  "message_encode (js ''chat'') [1, 2, 3] = Inr [10, 4, 99, 104, 97, 116, 18, 3, 1, 2, 3]"
  using message_frame_roundtrip [of "js ''chat''" "[1, 2, 3]"]
  by (simp add: message_bytes_def encode_eval conforms_eval)

text \<open>C6: a close frame delivers its code and the longest prefix of its reason that fits. The
  decoded reason is a prefix of what was sent that ends between code points and has at most 123
  bytes of UTF-8, and no longer such prefix exists; in particular a reason that fits is
  delivered whole.\<close>

theorem close_frame_delivers:
  assumes "wire_safe reason" "0 \<le> code" "code < 2 ^ 32"
  shows "\<exists>b r rest. encode_close_frame code reason = Inr b \<and>
    decode_close_frame b = Inr (close_object code r) \<and> reason = r @ rest \<and> wire_safe r \<and>
    length (text_encode r) \<le> max_close_reason_bytes \<and>
    (\<forall>q rest'. reason = q @ rest' \<and> well_formed q \<and> length (text_encode q) \<le> max_close_reason_bytes \<longrightarrow>
       length q \<le> length r) \<and>
    (length (text_encode reason) \<le> max_close_reason_bytes \<longrightarrow> rest = [])"
proof -
  obtain rest where r: "reason = truncate_utf8 reason 123 @ rest" "wire_safe (truncate_utf8 reason 123)"
      "length (text_encode (truncate_utf8 reason 123)) \<le> 123"
    using truncate_utf8_spec [OF assms(1), of 123] by blast
  moreover have "rest = []" if "length (text_encode reason) \<le> 123"
    using r(1) truncate_utf8_fits [OF that] by simp
  ultimately show ?thesis
    using close_encode_decode [OF assms] truncate_utf8_longest [OF assms(1)]
    unfolding max_close_reason_bytes_def by blast
qed

theorem close_frame_delivers_witness:
  "\<exists>b r rest. encode_close_frame 4001 (js ''bye'') = Inr b \<and>
    decode_close_frame b = Inr (close_object 4001 r) \<and> js ''bye'' = r @ rest \<and> rest = []"
proof -
  have "wire_safe (js ''bye'')" "length (text_encode (js ''bye'')) \<le> max_close_reason_bytes"
    by (simp_all add: max_close_reason_bytes_def encode_eval conforms_eval)
  with close_frame_delivers [of "js ''bye''" 4001] show ?thesis by auto
qed

text \<open>The version gate of control frames. A frame sent by a peer of the same major is read back
  as the same message; a receiver of any other major rejects it with the two versions, whatever
  its body; a frame shorter than the header is rejected as truncated.\<close>

lemma codec_version_gate:
  assumes "codec_sendable c n t v" "codec_encode c n t v = Inr frame"
  shows "codec_decode c t frame = Inr v \<and>
    (cd_major d \<noteq> cd_major c \<longrightarrow> codec_decode d u frame = Inl (WireVersion (cd_major c) (cd_major d))) \<and>
    codec_decode d u (take 1 frame) = Inl TruncatedFrame"
  using codec_encode_decode [OF assms(1)] assms(2)
  by (auto simp: codec_decode_def header_bytes_def)

end
