(* ===== verification/Chunker.thy ===== *)
theory Chunker
  imports Handshake
begin

text \<open>
  Frames over a WebRTC data channel: \<open>node/src/peer/RtcFrameChunker.ts\<close> splits a frame
  above 16 KiB into chunk messages and puts it together again; \<open>RTCTransport.ts\<close> sends and
  receives through it. The reassembler's timers are modelled with the environment they live in:
  the handles that are armed and have not fired.
\<close>

section \<open>Constants and detection\<close>

definition chunk_control_topic :: jsstr where
  "chunk_control_topic = js ''__rivalis:chunk''"

definition rtc_max_frame_bytes :: nat where
  "rtc_max_frame_bytes = 16 * 1024"

definition chunk_overhead_bytes :: nat where
  "chunk_overhead_bytes = 32"

definition chunk_data_bytes :: nat where
  "chunk_data_bytes = rtc_max_frame_bytes - chunk_overhead_bytes"

definition chunk_frame_prefix :: bytes where
  "chunk_frame_prefix =
     (case message_encode chunk_control_topic [] of Inr sample \<Rightarrow> take 17 sample | Inl _ \<Rightarrow> [])"

definition is_chunk_frame :: "bytes \<Rightarrow> bool" where
  "is_chunk_frame buf \<longleftrightarrow>
     17 \<le> length buf \<and> list_all (\<lambda>i. buf ! i = chunk_frame_prefix ! i) [0..<17]"

section \<open>Splitting\<close>

datatype chunk_error = FrameTooLarge nat | ChunkEncode wire_error

definition chunk_payload :: "bytes \<Rightarrow> nat \<Rightarrow> nat \<Rightarrow> nat \<Rightarrow> bytes" where
  "chunk_payload frame seq tot i =
     [word_of_nat (seq div 256 mod 256), word_of_nat (seq mod 256), word_of_nat tot, word_of_nat i]
     @ take chunk_data_bytes (drop (i * chunk_data_bytes) frame)"

fun chunk_loop :: "bytes \<Rightarrow> nat \<Rightarrow> nat \<Rightarrow> nat list \<Rightarrow> chunk_error + bytes list" where
  "chunk_loop frame seq tot [] = Inr []"
| "chunk_loop frame seq tot (i # is) =
     (case message_encode chunk_control_topic (chunk_payload frame seq tot i) of
        Inl e \<Rightarrow> Inl (ChunkEncode e)
      | Inr m \<Rightarrow> rbind (chunk_loop frame seq tot is) (\<lambda>ms. Inr (m # ms)))"

definition chunk_total :: "bytes \<Rightarrow> nat" where
  "chunk_total frame = (length frame + (chunk_data_bytes - 1)) div chunk_data_bytes"

definition chunk_frame :: "bytes \<Rightarrow> nat \<Rightarrow> chunk_error + bytes list" where
  "chunk_frame frame seq =
     (let tot = chunk_total frame
      in if tot > 255 then Inl (FrameTooLarge (length frame))
         else chunk_loop frame seq tot [0..<tot])"

record chunk =
  ck_seq :: nat
  ck_total :: nat
  ck_index :: nat
  ck_data :: bytes

definition decode_chunk_payload :: "bytes \<Rightarrow> chunk option" where
  "decode_chunk_payload payload =
     (if length payload < 4 then None
      else Some \<lparr>ck_seq = 256 * unat (payload ! 0) + unat (payload ! 1),
                 ck_total = unat (payload ! 2), ck_index = unat (payload ! 3),
                 ck_data = drop 4 payload\<rparr>)"

section \<open>Reassembly\<close>

record reassembler =
  ra_seq :: int
  ra_total :: nat
  ra_received :: nat
  ra_chunks :: "bytes option list"
  ra_timeout :: int
  ra_timer :: "nat option"
  ra_pending :: "nat list"  \<comment> \<open>timers of the environment: armed, not fired, not cleared\<close>
  ra_next :: nat            \<comment> \<open>the next fresh timer handle\<close>

definition new_reassembler :: "int \<Rightarrow> reassembler" where
  "new_reassembler timeout =
     \<lparr>ra_seq = - 1, ra_total = 0, ra_received = 0, ra_chunks = [], ra_timeout = timeout,
      ra_timer = None, ra_pending = [], ra_next = 0\<rparr>"

definition ra_reset :: "reassembler \<Rightarrow> reassembler" where
  "ra_reset r = r\<lparr>ra_seq := - 1, ra_total := 0, ra_chunks := [], ra_received := 0\<rparr>"

definition ra_cancel_timer :: "reassembler \<Rightarrow> reassembler" where
  "ra_cancel_timer r = (case ra_timer r of
     None \<Rightarrow> r
   | Some h \<Rightarrow> r\<lparr>ra_pending := removeAll h (ra_pending r), ra_timer := None\<rparr>)"

definition ra_arm_timer :: "reassembler \<Rightarrow> reassembler" where
  "ra_arm_timer r =
     (if ra_timeout r \<le> 0 then r
      else let r = ra_cancel_timer r
           in r\<lparr>ra_timer := Some (ra_next r), ra_pending := ra_next r # ra_pending r,
                ra_next := ra_next r + 1\<rparr>)"

definition ra_clear :: "reassembler \<Rightarrow> reassembler" where
  "ra_clear r = ra_reset (ra_cancel_timer r)"

text \<open>The timer's callback, run by the environment for an armed handle.\<close>

definition ra_fire :: "nat \<Rightarrow> reassembler \<Rightarrow> reassembler" where
  "ra_fire h r =
     (if h \<in> set (ra_pending r)
      then ra_reset (r\<lparr>ra_pending := removeAll h (ra_pending r), ra_timer := None\<rparr>)
      else r)"

definition ra_begin :: "nat \<Rightarrow> nat \<Rightarrow> reassembler \<Rightarrow> reassembler" where
  "ra_begin seq tot r =
     (if int seq \<noteq> ra_seq r then
        (let r = (ra_cancel_timer r)\<lparr>ra_seq := int seq, ra_total := tot,
                   ra_chunks := replicate tot None, ra_received := 0\<rparr>
         in if tot > 1 then ra_arm_timer r else r)
      else r)"

definition join_chunks :: "bytes option list \<Rightarrow> bytes" where
  "join_chunks cs = concat (map (\<lambda>c. case c of Some b \<Rightarrow> b | None \<Rightarrow> []) cs)"

definition ra_feed :: "reassembler \<Rightarrow> chunk \<Rightarrow> reassembler \<times> bytes option" where
  "ra_feed r c =
     (let r = ra_begin (ck_seq c) (ck_total c) r
      in if ck_index c \<ge> ra_total r \<or> ck_total c \<noteq> ra_total r then (r, None)
         else if ra_chunks r ! ck_index c \<noteq> None then (r, None)
         else
           let r = r\<lparr>ra_chunks := (ra_chunks r)[ck_index c := Some (ck_data c)],
                     ra_received := ra_received r + 1\<rparr>
           in if ra_received r < ra_total r then (r, None)
              else (ra_clear r, Some (join_chunks (ra_chunks r))))"

section \<open>The transport's two directions\<close>

text \<open>Sending (\<open>RTCTransport\<close>, the \<open>message\<close> listener on an open reliable channel).
  A frame that cannot be chunked is dropped with a warning; its sequence number is used up.\<close>

definition rtc_send :: "nat \<Rightarrow> bytes \<Rightarrow> nat \<times> bytes list" where
  "rtc_send seq m =
     (if length m \<le> rtc_max_frame_bytes then (seq, [m])
      else ((seq + 1) mod 65536, case chunk_frame m seq of Inl _ \<Rightarrow> [] | Inr ms \<Rightarrow> ms))"

datatype rtc_in = RtcDrop | RtcForward bytes | RtcThrow

definition rtc_receive :: "nat \<Rightarrow> reassembler \<Rightarrow> bytes \<Rightarrow> reassembler \<times> rtc_in" where
  "rtc_receive cap r buf =
     (let deliver = (\<lambda>frame. if length frame > cap then RtcDrop else RtcForward frame)
      in if is_chunk_frame buf then
           (case message_decode buf of
              Inl _ \<Rightarrow> (r, RtcThrow)
            | Inr v \<Rightarrow>
                (case get_prop v (js ''payload'') of
                   JBytes payload \<Rightarrow>
                     (case decode_chunk_payload payload of
                        None \<Rightarrow> (r, RtcDrop)
                      | Some c \<Rightarrow>
                          (case ra_feed r c of
                             (r, None) \<Rightarrow> (r, RtcDrop)
                           | (r, Some frame) \<Rightarrow> (r, deliver frame)))
                 | _ \<Rightarrow> (r, RtcThrow)))
         else (r, deliver buf))"

fun rtc_receive_all :: "nat \<Rightarrow> reassembler \<Rightarrow> bytes list \<Rightarrow> reassembler \<times> bytes list" where
  "rtc_receive_all cap r [] = (r, [])"
| "rtc_receive_all cap r (buf # bufs) =
     (let (r, out) = rtc_receive cap r buf; (r, outs) = rtc_receive_all cap r bufs
      in (r, (case out of RtcForward m \<Rightarrow> m # outs | _ \<Rightarrow> outs)))"

fun rtc_send_all :: "nat \<Rightarrow> bytes list \<Rightarrow> bytes list" where
  "rtc_send_all seq [] = []"
| "rtc_send_all seq (m # ms) = (let (seq, bufs) = rtc_send seq m in bufs @ rtc_send_all seq ms)"

section \<open>Chunk messages\<close>

lemma chunk_topic_bytes:
  "text_encode chunk_control_topic = [95, 95, 114, 105, 118, 97, 108, 105, 115, 58, 99, 104, 117, 110, 107]"
  by (simp add: chunk_control_topic_def encode_eval)

lemma chunk_topic_safe: "wire_safe chunk_control_topic"
  by (simp add: chunk_control_topic_def conforms_eval)

lemma chunk_message_bytes:
  "message_bytes chunk_control_topic payload =
   [0x0A, 0x0F] @ text_encode chunk_control_topic @ [0x12] @ spec_len payload"
  by (simp add: message_bytes_def spec_len_def varint_bytes_small chunk_topic_bytes)

lemma chunk_sendable: "length payload < 2 ^ 50 \<Longrightarrow> message_sendable (chunk_control_topic, payload)"
  using varint_bytes_length_53 [of "length payload"]
  by (simp add: message_sendable_def chunk_topic_safe chunk_message_bytes spec_len_def chunk_topic_bytes)

lemma chunk_prefix: "chunk_frame_prefix = [0x0A, 0x0F] @ text_encode chunk_control_topic"
  using message_encode_decode(1) [OF chunk_sendable [of "[]"]]
  by (simp add: chunk_frame_prefix_def chunk_message_bytes chunk_topic_bytes)

lemma is_chunk_frame_take: "is_chunk_frame buf \<longleftrightarrow> take 17 buf = chunk_frame_prefix"
proof -
  have len: "length chunk_frame_prefix = 17" by (simp add: chunk_prefix chunk_topic_bytes)
  show ?thesis
  proof
    assume eq: "take 17 buf = chunk_frame_prefix"
    with len have "17 \<le> length buf" by (metis length_take min.cobounded1)
    moreover have "buf ! i = chunk_frame_prefix ! i" if "i < 17" for i
      unfolding eq [symmetric] using that by simp
    ultimately show "is_chunk_frame buf" by (simp add: is_chunk_frame_def list_all_iff)
  next
    assume "is_chunk_frame buf"
    then show "take 17 buf = chunk_frame_prefix"
      using len by (intro nth_equalityI) (auto simp: is_chunk_frame_def list_all_iff)
  qed
qed

text \<open>A message is taken for a chunk exactly when its topic is the reserved one.\<close>

lemma message_is_chunk:
  assumes "length (text_encode topic) < 2 ^ 53"
  shows "is_chunk_frame (message_bytes topic payload) \<longleftrightarrow>
    text_encode topic = text_encode chunk_control_topic"
proof
  assume "text_encode topic = text_encode chunk_control_topic"
  then show "is_chunk_frame (message_bytes topic payload)"
    by (simp add: is_chunk_frame_take chunk_prefix message_bytes_def spec_len_def chunk_topic_bytes
        varint_bytes_small)
next
  assume chunk: "is_chunk_frame (message_bytes topic payload)"
  define bs where "bs = text_encode topic @ [0x12] @ spec_len payload"
  from chunk have eq: "take 16 (varint_bytes (length (text_encode topic)) @ bs) = 0x0F # text_encode chunk_control_topic"
    by (simp add: is_chunk_frame_take chunk_prefix message_bytes_def spec_len_def bs_def)
  then have hd: "hd (varint_bytes (length (text_encode topic))) = 0x0F"
    using varint_bytes_nonempty [of "length (text_encode topic)"]
    by (cases "varint_bytes (length (text_encode topic))") auto
  let ?n = "length (text_encode topic)"
  have "r_varint (varint_bytes ?n) = Inr (?n, [])" using r_varint_bytes [OF assms, of "[]"] by simp
  moreover obtain ws where ws: "varint_bytes ?n = 0x0F # ws"
    using hd varint_bytes_nonempty [of ?n] by (cases "varint_bytes ?n") auto
  ultimately have n: "?n = 15" "ws = []" by (simp_all add: r_varint_def)
  with eq ws have "take 15 bs = text_encode chunk_control_topic" by simp
  with n show "text_encode topic = text_encode chunk_control_topic" by (simp add: bs_def)
qed

section \<open>The pieces of a frame\<close>

definition chunk_piece :: "bytes \<Rightarrow> nat \<Rightarrow> bytes" where
  "chunk_piece frame i = take chunk_data_bytes (drop (i * chunk_data_bytes) frame)"

lemma chunk_data_bytes_val: "chunk_data_bytes = 16352"
  by (simp add: chunk_data_bytes_def rtc_max_frame_bytes_def chunk_overhead_bytes_def)

lemma pieces_prefix:
  "concat (map (chunk_piece frame) [0..<n]) = take (n * chunk_data_bytes) frame"
proof (induction n)
  case (Suc n)
  have "take (Suc n * chunk_data_bytes) frame =
      take (n * chunk_data_bytes) frame @ take chunk_data_bytes (drop (n * chunk_data_bytes) frame)"
    by (metis add.commute mult_Suc take_add)
  with Suc show ?case by (simp add: chunk_piece_def)
qed simp

lemma pieces_join: "concat (map (chunk_piece frame) [0..<chunk_total frame]) = frame"
proof -
  have "length frame \<le> chunk_total frame * chunk_data_bytes"
    unfolding chunk_total_def chunk_data_bytes_val by simp
  then show ?thesis by (simp add: pieces_prefix)
qed

lemma chunk_total_bounds:
  "length frame \<le> 255 * chunk_data_bytes \<Longrightarrow> chunk_total frame \<le> 255"
  "frame \<noteq> [] \<Longrightarrow> 0 < chunk_total frame"
  by (auto simp: chunk_total_def chunk_data_bytes_val div_greater_zero_iff neq_Nil_conv)

definition chunk_msg :: "bytes \<Rightarrow> nat \<Rightarrow> nat \<Rightarrow> nat \<Rightarrow> bytes" where
  "chunk_msg frame seq tot i = message_bytes chunk_control_topic (chunk_payload frame seq tot i)"

lemma chunk_payload_length: "length (chunk_payload frame seq tot i) \<le> 4 + chunk_data_bytes"
  by (simp add: chunk_payload_def)

lemma chunk_loop_eq: "chunk_loop frame seq tot is = Inr (map (chunk_msg frame seq tot) is)"
proof (induction "is")
  case (Cons i "is")
  have "length (chunk_payload frame seq tot i) < 2 ^ 50"
    using chunk_payload_length [of frame seq tot i] by (simp add: chunk_data_bytes_val)
  from message_encode_decode(1) [OF chunk_sendable [OF this]] Cons show ?case
    by (simp add: chunk_msg_def)
qed simp

lemma chunk_msg_length: "length (chunk_msg frame seq tot i) \<le> rtc_max_frame_bytes"
proof -
  let ?n = "length (chunk_payload frame seq tot i)"
  have "?n \<le> 16356" using chunk_payload_length [of frame seq tot i] by (simp add: chunk_data_bytes_val)
  moreover from this have "length (varint_bytes ?n) \<le> 2" using varint_bytes_length [of ?n 1] by simp
  ultimately show ?thesis
    by (simp add: chunk_msg_def chunk_message_bytes chunk_topic_bytes spec_len_def rtc_max_frame_bytes_def)
qed

lemma chunk_msg_received:
  assumes "seq < 65536" "tot < 256" "i < 256"
  shows "is_chunk_frame (chunk_msg frame seq tot i)"
    and "message_decode (chunk_msg frame seq tot i) =
      Inr (message_object chunk_control_topic (chunk_payload frame seq tot i))"
    and "decode_chunk_payload (chunk_payload frame seq tot i) =
      Some \<lparr>ck_seq = seq, ck_total = tot, ck_index = i, ck_data = chunk_piece frame i\<rparr>"
proof -
  show "is_chunk_frame (chunk_msg frame seq tot i)"
    unfolding chunk_msg_def by (subst message_is_chunk) (simp_all add: chunk_topic_bytes)
  have "length (chunk_payload frame seq tot i) < 2 ^ 50"
    using chunk_payload_length [of frame seq tot i] by (simp add: chunk_data_bytes_val)
  from message_encode_decode(2) [OF chunk_sendable [OF this]]
  show "message_decode (chunk_msg frame seq tot i) =
      Inr (message_object chunk_control_topic (chunk_payload frame seq tot i))"
    by (simp add: chunk_msg_def)
  have "seq div 256 mod 256 = seq div 256" using assms(1) by (simp add: div_less_iff_less_mult)
  moreover have "256 * (seq div 256) + seq mod 256 = seq" by simp
  ultimately show "decode_chunk_payload (chunk_payload frame seq tot i) =
      Some \<lparr>ck_seq = seq, ck_total = tot, ck_index = i, ck_data = chunk_piece frame i\<rparr>"
    using assms by (simp add: decode_chunk_payload_def chunk_payload_def chunk_piece_def unat_of_nat
        div_less_iff_less_mult)
qed

section \<open>Reassembly in order\<close>

text \<open>What the reassembler holds after the first \<open>i\<close> chunks.\<close>

definition ra_partial :: "bytes \<Rightarrow> nat \<Rightarrow> nat \<Rightarrow> nat \<Rightarrow> reassembler \<Rightarrow> bool" where
  "ra_partial frame seq tot i r \<longleftrightarrow> ra_seq r = int seq \<and> ra_total r = tot \<and> ra_received r = i \<and>
     ra_chunks r = map (\<lambda>j. Some (chunk_piece frame j)) [0..<i] @ replicate (tot - i) None"

lemma ra_timer_fields [simp]:
  "ra_seq (ra_arm_timer r) = ra_seq r" "ra_total (ra_arm_timer r) = ra_total r"
  "ra_received (ra_arm_timer r) = ra_received r" "ra_chunks (ra_arm_timer r) = ra_chunks r"
  "ra_seq (ra_cancel_timer r) = ra_seq r" "ra_total (ra_cancel_timer r) = ra_total r"
  "ra_received (ra_cancel_timer r) = ra_received r" "ra_chunks (ra_cancel_timer r) = ra_chunks r"
  "ra_timeout (ra_arm_timer r) = ra_timeout r" "ra_timeout (ra_cancel_timer r) = ra_timeout r"
  by (simp_all add: ra_arm_timer_def ra_cancel_timer_def Let_def split: option.splits)

lemma ra_begin_new: "ra_seq r \<noteq> int seq \<Longrightarrow> ra_partial frame seq tot 0 (ra_begin seq tot r)"
  by (auto simp: ra_begin_def ra_partial_def Let_def)

lemma ra_begin_same: "ra_partial frame seq tot i r \<Longrightarrow> ra_begin seq tot r = r"
  by (simp add: ra_begin_def ra_partial_def)

lemma join_Somes: "join_chunks (map (\<lambda>j. Some (f j)) is) = concat (map f is)"
  by (simp add: join_chunks_def comp_def)

lemma ra_feed_next:
  assumes part: "ra_partial frame seq tot i (ra_begin seq tot r)" and i: "i < tot"
    and c: "c = \<lparr>ck_seq = seq, ck_total = tot, ck_index = i, ck_data = chunk_piece frame i\<rparr>"
  shows "if Suc i < tot then snd (ra_feed r c) = None \<and> ra_partial frame seq tot (Suc i) (fst (ra_feed r c))
    else snd (ra_feed r c) = Some (concat (map (chunk_piece frame) [0..<tot])) \<and> ra_seq (fst (ra_feed r c)) = - 1"
proof -
  define q where "q = ra_begin seq tot r"
  from part have q: "ra_seq q = int seq" "ra_total q = tot" "ra_received q = i"
    "ra_chunks q = map (\<lambda>j. Some (chunk_piece frame j)) [0..<i] @ replicate (tot - i) None"
    by (simp_all add: ra_partial_def q_def)
  have none: "ra_chunks q ! i = None" using i q(4) by (simp add: nth_append)
  have upd: "(ra_chunks q)[i := Some (chunk_piece frame i)] =
      map (\<lambda>j. Some (chunk_piece frame j)) [0..<Suc i] @ replicate (tot - Suc i) None"
  proof -
    obtain k where "tot - i = Suc k" "tot - Suc i = k" using i by (metis Suc_diff_Suc)
    then show ?thesis using q(4) by (simp add: list_update_append)
  qed
  show ?thesis
  proof (cases "Suc i < tot")
    case True
    then show ?thesis using i q none upd
      by (simp add: ra_feed_def c Let_def ra_partial_def flip: q_def)
  next
    case False
    with i have tot: "tot = Suc i" by simp
    have "join_chunks ((ra_chunks q)[i := Some (chunk_piece frame i)]) = concat (map (chunk_piece frame) [0..<tot])"
      unfolding upd tot by (simp add: join_Somes del: upt_Suc)
    then show ?thesis using i q(1-3) none False
      by (simp add: ra_feed_def c Let_def ra_clear_def ra_reset_def flip: q_def)
  qed
qed

lemma rtc_receive_chunk:
  assumes "seq < 65536" "tot < 256" "i < tot"
    and part: "ra_partial frame seq tot i (ra_begin seq tot r)"
  shows "if Suc i < tot
    then \<exists>q. rtc_receive cap r (chunk_msg frame seq tot i) = (q, RtcDrop) \<and> ra_partial frame seq tot (Suc i) q
    else \<exists>q. rtc_receive cap r (chunk_msg frame seq tot i) =
           (q, if length (concat (map (chunk_piece frame) [0..<tot])) > cap then RtcDrop
               else RtcForward (concat (map (chunk_piece frame) [0..<tot]))) \<and> ra_seq q = - 1"
proof -
  let ?c = "\<lparr>ck_seq = seq, ck_total = tot, ck_index = i, ck_data = chunk_piece frame i\<rparr>"
  have i: "i < 256" using assms by simp
  note msg = chunk_msg_received [OF assms(1,2) i, of frame]
  have get: "get_prop (message_object t p) (js ''payload'') = JBytes p" for t p
    by (simp add: message_object_def get_prop_def js_eval)
  show ?thesis
    using ra_feed_next [OF part assms(3) refl, of] unfolding rtc_receive_def Let_def msg(2)
    by (cases "ra_feed r ?c") (simp add: msg(1,3) get split: if_splits)
qed

lemma rtc_receive_chunks:
  assumes "seq < 65536" "tot < 256"
  shows "i < tot \<Longrightarrow> ra_partial frame seq tot i (ra_begin seq tot r) \<Longrightarrow>
    length (concat (map (chunk_piece frame) [0..<tot])) \<le> cap \<Longrightarrow>
    \<exists>q. ra_seq q = - 1 \<and>
      rtc_receive_all cap r (map (chunk_msg frame seq tot) [i..<tot] @ rest) =
      (fst (rtc_receive_all cap q rest),
       concat (map (chunk_piece frame) [0..<tot]) # snd (rtc_receive_all cap q rest))"
proof (induction "tot - i" arbitrary: i r)
  case (Suc k)
  have upt: "[i..<tot] = i # [Suc i..<tot]" using Suc.prems(1) by (simp add: upt_conv_Cons)
  show ?case
  proof (cases "Suc i < tot")
    case True
    with rtc_receive_chunk [OF assms Suc.prems(1,2), of cap] obtain q where
      q: "rtc_receive cap r (chunk_msg frame seq tot i) = (q, RtcDrop)" "ra_partial frame seq tot (Suc i) q"
      by auto
    from q(2) have "ra_partial frame seq tot (Suc i) (ra_begin seq tot q)" by (simp add: ra_begin_same)
    with Suc.hyps(1) [of "Suc i" q] Suc.hyps(2) True Suc.prems(3) show ?thesis
      by (auto simp: upt q(1) Let_def case_prod_beta)
  next
    case False
    with rtc_receive_chunk [OF assms Suc.prems(1,2), of cap] Suc.prems(3) obtain q where
      "rtc_receive cap r (chunk_msg frame seq tot i) =
         (q, RtcForward (concat (map (chunk_piece frame) [0..<tot])))" "ra_seq q = - 1" by auto
    with False show ?thesis by (intro exI [of _ q]) (simp add: upt Let_def case_prod_beta)
  qed
qed simp

text \<open>A frame that the sender passes on whole.\<close>

definition sendable_frame :: "nat \<Rightarrow> bytes \<Rightarrow> bool" where
  "sendable_frame cap m \<longleftrightarrow> length m \<le> cap \<and> length m \<le> 255 * chunk_data_bytes \<and> \<not> is_chunk_frame m"

lemma rtc_delivery:
  "list_all (sendable_frame cap) ms \<Longrightarrow> seq < 65536 \<Longrightarrow> ra_seq r = - 1 \<Longrightarrow>
   snd (rtc_receive_all cap r (rtc_send_all seq ms)) = ms"
proof (induction ms arbitrary: seq r)
  case (Cons m ms)
  then have m: "length m \<le> cap" "length m \<le> 255 * chunk_data_bytes" "\<not> is_chunk_frame m"
    by (auto simp: sendable_frame_def)
  show ?case
  proof (cases "length m \<le> rtc_max_frame_bytes")
    case True
    with Cons m show ?thesis by (simp add: rtc_send_def rtc_receive_def Let_def case_prod_beta)
  next
    case False
    then have "m \<noteq> []" by auto
    note tot = chunk_total_bounds(1) [OF m(2)] chunk_total_bounds(2) [OF this]
    then have "rtc_send seq m =
        ((seq + 1) mod 65536, map (chunk_msg m seq (chunk_total m)) [0..<chunk_total m])"
      using False by (simp add: rtc_send_def chunk_frame_def Let_def chunk_loop_eq)
    moreover have "ra_partial m seq (chunk_total m) 0 (ra_begin seq (chunk_total m) r)"
      using Cons.prems by (intro ra_begin_new) simp
    with rtc_receive_chunks [of seq "chunk_total m" 0 m r cap "rtc_send_all ((seq + 1) mod 65536) ms"]
    obtain q where "ra_seq q = - 1"
      "rtc_receive_all cap r (map (chunk_msg m seq (chunk_total m)) [0..<chunk_total m] @
         rtc_send_all ((seq + 1) mod 65536) ms) =
       (fst (rtc_receive_all cap q (rtc_send_all ((seq + 1) mod 65536) ms)),
        m # snd (rtc_receive_all cap q (rtc_send_all ((seq + 1) mod 65536) ms)))"
      using tot Cons.prems(2) m(1) by (auto simp: pieces_join)
    ultimately show ?thesis using Cons.IH [of "(seq + 1) mod 65536" q] Cons.prems by simp
  qed
qed simp

section \<open>Timers\<close>

definition ra_inv :: "reassembler \<Rightarrow> bool" where
  "ra_inv r \<longleftrightarrow> ra_pending r = (case ra_timer r of None \<Rightarrow> [] | Some h \<Rightarrow> [h]) \<and>
     length (ra_chunks r) = ra_total r \<and>
     ra_received r = length (filter (\<lambda>c. c \<noteq> None) (ra_chunks r)) \<and>
     (0 < ra_total r \<longrightarrow> ra_received r < ra_total r) \<and>
     (ra_timer r \<noteq> None \<longleftrightarrow> 0 < ra_timeout r \<and> 1 < ra_total r)"

definition ra_held :: "reassembler \<Rightarrow> nat" where
  "ra_held r = length (join_chunks (ra_chunks r))"

datatype ra_event = RaFeed chunk | RaClear | RaFire nat

inductive ra_step :: "reassembler \<Rightarrow> ra_event \<Rightarrow> reassembler \<Rightarrow> bool" where
  feed: "ra_step r (RaFeed c) (fst (ra_feed r c))"
| clear: "ra_step r RaClear (ra_clear r)"
| fire: "h \<in> set (ra_pending r) \<Longrightarrow> ra_step r (RaFire h) (ra_fire h r)"

inductive ra_reachable :: "int \<Rightarrow> reassembler \<Rightarrow> bool" for timeout where
  init: "ra_reachable timeout (new_reassembler timeout)"
| step: "ra_reachable timeout r \<Longrightarrow> ra_step r e r' \<Longrightarrow> ra_reachable timeout r'"

inductive_cases ra_step_cases: "ra_step r e r'"

lemma ra_begin_inv: "ra_inv r \<Longrightarrow> ra_inv (ra_begin seq tot r)"
  by (auto simp: ra_inv_def ra_begin_def ra_arm_timer_def ra_cancel_timer_def Let_def split: option.splits)

lemma filter_list_update_None:
  "i < length cs \<Longrightarrow> cs ! i = None \<Longrightarrow>
   length (filter (\<lambda>c. c \<noteq> None) (cs[i := Some x])) = Suc (length (filter (\<lambda>c. c \<noteq> None) cs))"
proof (induction cs arbitrary: i)
  case (Cons c cs)
  then show ?case by (cases i) auto
qed simp

lemma ra_clear_inv: "ra_inv r \<Longrightarrow> ra_inv (ra_clear r)"
  by (auto simp: ra_inv_def ra_clear_def ra_reset_def ra_cancel_timer_def split: option.splits)

lemma ra_feed_inv:
  assumes "ra_inv r"
  shows "ra_inv (fst (ra_feed r c))"
proof -
  define q where "q = ra_begin (ck_seq c) (ck_total c) r"
  have q: "ra_inv q" unfolding q_def by (rule ra_begin_inv [OF assms])
  define q' where "q' = q\<lparr>ra_chunks := (ra_chunks q)[ck_index c := Some (ck_data c)],
                     ra_received := ra_received q + 1\<rparr>"
  have q': "ra_inv q'" if "ck_index c < ra_total q" "ra_chunks q ! ck_index c = None"
      "ra_received q' < ra_total q'"
    using q that filter_list_update_None [of "ck_index c" "ra_chunks q" "ck_data c"]
    by (auto simp: ra_inv_def q'_def)
  have clear: "ra_inv (ra_clear q')"
    using q by (auto simp: ra_inv_def q'_def ra_clear_def ra_reset_def ra_cancel_timer_def split: option.splits)
  show ?thesis
    unfolding ra_feed_def Let_def q_def [symmetric] q'_def [symmetric]
    using q q' clear by auto
qed

lemma ra_fire_inv: "ra_inv r \<Longrightarrow> ra_inv (ra_fire h r)"
  by (auto simp: ra_inv_def ra_fire_def ra_reset_def split: option.splits)

lemma ra_reachable_inv: "ra_reachable timeout r \<Longrightarrow> ra_inv r \<and> ra_timeout r = timeout"
proof (induction rule: ra_reachable.induct)
  case init
  then show ?case by (simp add: ra_inv_def new_reassembler_def)
next
  case (step r e r')
  have "ra_timeout (fst (ra_feed r c)) = ra_timeout r" for c
    by (simp add: ra_feed_def ra_begin_def ra_clear_def ra_reset_def Let_def)
  moreover have "ra_timeout (ra_clear r) = ra_timeout r" by (simp add: ra_clear_def ra_reset_def)
  moreover have "ra_timeout (ra_fire h r) = ra_timeout r" for h by (simp add: ra_fire_def ra_reset_def)
  ultimately show ?case
    using step(2,3) ra_feed_inv ra_clear_inv ra_fire_inv by (auto elim!: ra_step_cases)
qed

section \<open>The browser's reassembler\<close>

text \<open>\<open>browser/src/peer/RtcFrameChunker.ts\<close> holds a copy without timers.\<close>

record br_reassembler =
  br_seq :: int
  br_total :: nat
  br_received :: nat
  br_chunks :: "bytes option list"

definition br_clear :: "br_reassembler \<Rightarrow> br_reassembler" where
  "br_clear r = r\<lparr>br_seq := - 1, br_total := 0, br_chunks := [], br_received := 0\<rparr>"

definition br_feed :: "br_reassembler \<Rightarrow> chunk \<Rightarrow> br_reassembler \<times> bytes option" where
  "br_feed r c =
     (let r = (if int (ck_seq c) \<noteq> br_seq r
               then r\<lparr>br_seq := int (ck_seq c), br_total := ck_total c,
                      br_chunks := replicate (ck_total c) None, br_received := 0\<rparr>
               else r)
      in if ck_index c \<ge> br_total r \<or> ck_total c \<noteq> br_total r then (r, None)
         else if br_chunks r ! ck_index c \<noteq> None then (r, None)
         else
           let r = r\<lparr>br_chunks := (br_chunks r)[ck_index c := Some (ck_data c)],
                     br_received := br_received r + 1\<rparr>
           in if br_received r < br_total r then (r, None)
              else (br_clear r, Some (join_chunks (br_chunks r))))"

definition ra_view :: "reassembler \<Rightarrow> br_reassembler" where
  "ra_view r = \<lparr>br_seq = ra_seq r, br_total = ra_total r, br_received = ra_received r,
                br_chunks = ra_chunks r\<rparr>"

section \<open>Properties\<close>

lemma rtc_send_lengths: "list_all (\<lambda>b. length b \<le> rtc_max_frame_bytes) (rtc_send_all seq ms)"
proof (induction ms arbitrary: seq)
  case (Cons m ms)
  have "list_all (\<lambda>b. length b \<le> rtc_max_frame_bytes) (snd (rtc_send seq m))"
    using chunk_msg_length by (auto simp: rtc_send_def chunk_frame_def chunk_loop_eq Let_def list_all_iff)
  with Cons show ?case by (simp add: Let_def case_prod_beta)
qed simp

text \<open>An ordered data channel carries every stream of frames intact. Whatever mix of small
  frames (sent as they are) and frames up to 255 chunks (split), the sender never puts more
  than 16 KiB in one buffer, and the receiver hands over exactly the frames that were sent, in
  order, from any starting sequence number.\<close>

lemma rtc_stream_intact:
  assumes "list_all (sendable_frame cap) ms" "seq < 65536" "ra_seq r = - 1"
  shows "snd (rtc_receive_all cap r (rtc_send_all seq ms)) = ms \<and>
    list_all (\<lambda>b. length b \<le> rtc_max_frame_bytes) (rtc_send_all seq ms)"
  using rtc_delivery [OF assms] rtc_send_lengths by simp

text \<open>C9: a partial frame never outlives its timer. In every reachable state with a positive timeout,
  whenever two or more chunks are awaited exactly one timer is armed, and it is the one the
  reassembler knows; when it fires every held byte is released and no timer is left; a state
  without an armed timer holds no bytes at all, so nothing leaks.\<close>

theorem partial_frames_expire:
  assumes "ra_reachable timeout r" "0 < timeout"
  shows "(0 < ra_held r \<longrightarrow> (\<exists>h. ra_timer r = Some h \<and> ra_pending r = [h] \<and>
      ra_held (ra_fire h r) = 0 \<and> ra_pending (ra_fire h r) = [])) \<and>
    length (ra_pending r) \<le> 1"
proof -
  from ra_reachable_inv [OF assms(1)] have inv: "ra_inv r" and t: "ra_timeout r = timeout" by simp_all
  have "ra_held r = 0" if "ra_timer r = None"
  proof -
    from that inv t assms(2) have "ra_total r = 0 \<or> ra_total r = 1" by (auto simp: ra_inv_def)
    with inv have "ra_chunks r = [] \<or> ra_chunks r = [None]"
      by (auto simp: ra_inv_def length_Suc_conv)
    then show ?thesis by (auto simp: ra_held_def join_chunks_def)
  qed
  then show ?thesis
    using inv by (auto simp: ra_inv_def ra_fire_def ra_reset_def ra_held_def join_chunks_def split: option.splits)
qed

theorem partial_frames_expire_witness:
  "ra_held (ra_fire 0 (fst (ra_feed (new_reassembler 5000)
     \<lparr>ck_seq = 3, ck_total = 2, ck_index = 0, ck_data = [1, 2, 3]\<rparr>))) = 0"
proof -
  let ?r = "fst (ra_feed (new_reassembler 5000) \<lparr>ck_seq = 3, ck_total = 2, ck_index = 0, ck_data = [1, 2, 3]\<rparr>)"
  have "ra_reachable 5000 ?r"
    by (rule ra_reachable.step [OF ra_reachable.init ra_step.feed])
  moreover have "ra_timer ?r = Some 0" "ra_held ?r = 3"
    by (simp_all add: ra_feed_def ra_begin_def new_reassembler_def ra_arm_timer_def ra_cancel_timer_def
        Let_def ra_held_def join_chunks_def numeral_2_eq_2)
  ultimately show ?thesis using partial_frames_expire [of 5000 ?r] by auto
qed

text \<open>The browser's reassembler and the server's agree. Feeding the same chunk to a state
  the two share gives the same answer and states that still agree, for every chunk: in order,
  duplicated, superseding, out of range or of a contradicting total.\<close>

lemma browser_reassembler_agrees:
  "br_feed (ra_view r) c = (ra_view (fst (ra_feed r c)), snd (ra_feed r c)) \<and>
   br_clear (ra_view r) = ra_view (ra_clear r)"
  by (simp add: br_feed_def ra_feed_def ra_begin_def ra_view_def br_clear_def ra_clear_def ra_reset_def Let_def)

end
