(* ===== verification/RateLimit.thy ===== *)
theory RateLimit
  imports Complex_Main Prelude
begin

text \<open>
  The default inbound limiter, \<open>core/src/TokenBucketRateLimiter.ts\<close>: one token bucket per
  actor in a map ordered by recency, an idle sweep and a hard cap on the number of buckets.
  Tokens are real numbers (the code's doubles without their rounding), time is in milliseconds.
  The interface \<open>core/src/RateLimiter.ts\<close> is the locale \<open>rate_limiter\<close>, interpreted by
  the token bucket; the transport layer's discipline (check only joined actors, release on
  close) keeps the tracked actors among the joined ones for every limiter.
\<close>

section \<open>The token bucket\<close>

record bucket =
  bk_tokens :: real
  bk_last :: int

record limiter =
  lm_state :: "(jsstr, bucket) jsmap"
  lm_capacity :: real
  lm_refill :: real  \<comment> \<open>tokens per millisecond\<close>
  lm_max :: nat
  lm_idle :: real
  lm_last_sweep :: int

datatype limiter_error = BadCapacity | BadRefill | BadMaxBuckets | BadIdle

definition new_limiter :: "real \<Rightarrow> real \<Rightarrow> real \<Rightarrow> real \<Rightarrow> limiter_error + limiter" where
  "new_limiter capacity per_second max_buckets idle =
     (if \<not> capacity > 0 then Inl BadCapacity
      else if \<not> per_second / 1000 > 0 then Inl BadRefill
      else if of_int \<lfloor>max_buckets\<rfloor> \<noteq> max_buckets \<or> max_buckets \<le> 0 then Inl BadMaxBuckets
      else if \<not> idle > 0 then Inl BadIdle
      else Inr \<lparr>lm_state = [], lm_capacity = capacity, lm_refill = per_second / 1000,
                lm_max = nat \<lfloor>max_buckets\<rfloor>, lm_idle = idle, lm_last_sweep = 0\<rparr>)"

definition sweep_idle :: "int \<Rightarrow> limiter \<Rightarrow> limiter" where
  "sweep_idle now L =
     (if of_int (now - lm_last_sweep L) < lm_idle L then L
      else L\<lparr>lm_last_sweep := now,
             lm_state := filter (\<lambda>(k, e). \<not> of_int (now - bk_last e) \<ge> lm_idle L) (lm_state L)\<rparr>)"

fun evict_loop :: "nat \<Rightarrow> jsstr \<Rightarrow> jsstr list \<Rightarrow> (jsstr, bucket) jsmap \<Rightarrow> (jsstr, bucket) jsmap" where
  "evict_loop mx keep [] st = st"
| "evict_loop mx keep (k # ks) st =
     (if length st \<le> mx then st
      else if k = keep then evict_loop mx keep ks st
      else evict_loop mx keep ks (jm_delete st k))"

definition evict_over_cap :: "jsstr \<Rightarrow> limiter \<Rightarrow> limiter" where
  "evict_over_cap keep L =
     (if length (lm_state L) \<le> lm_max L then L
      else L\<lparr>lm_state := evict_loop (lm_max L) keep (jm_keys (lm_state L)) (lm_state L)\<rparr>)"

definition refill :: "limiter \<Rightarrow> int \<Rightarrow> bucket \<Rightarrow> bucket" where
  "refill L now e =
     (let elapsed = now - bk_last e
      in if elapsed < 0 then e\<lparr>bk_last := now\<rparr>
         else if elapsed > 0 then
           e\<lparr>bk_tokens := min (lm_capacity L) (bk_tokens e + of_int elapsed * lm_refill L), bk_last := now\<rparr>
         else e)"

text \<open>The bucket the frame is charged to: created and capped, or refilled and moved to the end.\<close>

definition touch_bucket :: "jsstr \<Rightarrow> int \<Rightarrow> limiter \<Rightarrow> bucket \<times> limiter" where
  "touch_bucket a now L = (case jm_get (lm_state L) a of
     None \<Rightarrow>
       (let e = \<lparr>bk_tokens = lm_capacity L, bk_last = now\<rparr>
        in (e, evict_over_cap a (L\<lparr>lm_state := jm_set (lm_state L) a e\<rparr>)))
   | Some e \<Rightarrow>
       (let e = refill L now e
        in (e, L\<lparr>lm_state := jm_set (jm_delete (lm_state L) a) a e\<rparr>)))"

definition limiter_check :: "jsstr \<Rightarrow> int \<Rightarrow> limiter \<Rightarrow> limiter \<times> bool" where
  "limiter_check a now L =
     (let (e, L) = touch_bucket a now (sweep_idle now L)
      in if bk_tokens e \<ge> 1
         then (L\<lparr>lm_state := jm_set (lm_state L) a (e\<lparr>bk_tokens := bk_tokens e - 1\<rparr>)\<rparr>, True)
         else (L, False))"

definition limiter_release :: "jsstr \<Rightarrow> limiter \<Rightarrow> limiter" where
  "limiter_release a L = L\<lparr>lm_state := jm_delete (lm_state L) a\<rparr>"

section \<open>Invariant\<close>

definition limiter_ok :: "limiter \<Rightarrow> bool" where
  "limiter_ok L \<longleftrightarrow> jm_ok (lm_state L) \<and> length (lm_state L) \<le> lm_max L \<and> 0 < lm_max L \<and>
     0 < lm_capacity L \<and> 0 < lm_refill L \<and> 0 < lm_idle L \<and>
     (\<forall>a e. jm_get (lm_state L) a = Some e \<longrightarrow> 0 \<le> bk_tokens e \<and> bk_tokens e \<le> lm_capacity L)"

lemma new_limiter_ok: "new_limiter c r m i = Inr L \<Longrightarrow> limiter_ok L"
  by (auto simp: new_limiter_def limiter_ok_def split: if_splits)

lemma evict_loop_keeps:
  "jm_get (evict_loop mx keep ids st) keep = jm_get st keep"
proof (induction ids arbitrary: st)
  case (Cons i ids)
  have "jm_get (jm_delete st i) keep = jm_get st keep" if "i \<noteq> keep"
    using that by (simp add: jm_get_delete)
  with Cons show ?case by (simp only: evict_loop.simps split: if_split) blast
qed simp

lemma evict_loop_ok: "jm_ok st \<Longrightarrow> jm_ok (evict_loop mx keep ids st)"
  by (induction ids arbitrary: st) auto

lemma evict_loop_get: "jm_get (evict_loop mx keep ids st) b = Some e \<Longrightarrow> jm_get st b = Some e"
proof (induction ids arbitrary: st)
  case (Cons i ids)
  consider "length st \<le> mx" | "\<not> length st \<le> mx" "i = keep" | "\<not> length st \<le> mx" "i \<noteq> keep" by blast
  then show ?case
  proof cases
    case 3
    with Cons.prems have "jm_get (evict_loop mx keep ids (jm_delete st i)) b = Some e" by simp
    from Cons.IH [OF this] show ?thesis by (simp add: jm_get_delete split: if_splits)
  qed (use Cons.prems Cons.IH [of st] in simp_all)
qed simp

text \<open>One pass deletes the oldest other buckets until the cap holds.\<close>

lemma evict_loop_length:
  assumes "0 < mx" "jm_ok st" "set (jm_keys st) \<subseteq> insert keep (set ids)" "distinct ids"
  shows "length (evict_loop mx keep ids st) \<le> mx"
  using assms(2-)
proof (induction ids arbitrary: st)
  case Nil
  have "card (set (jm_keys st)) = length st" using Nil by (metis distinct_card length_map)
  moreover have "card (set (jm_keys st)) \<le> card {keep}" using Nil by (intro card_mono) auto
  ultimately show ?case using assms(1) by simp
next
  case (Cons i ids)
  show ?case
  proof (cases "length st \<le> mx \<or> i = keep")
    case True
    with Cons show ?thesis by auto
  next
    case False
    have "set (jm_keys (jm_delete st i)) \<subseteq> insert keep (set ids)"
      using Cons.prems(2) unfolding jm_delete_keys by auto
    moreover have "jm_ok (jm_delete st i)" using Cons.prems(1) by (rule jm_ok_delete)
    ultimately show ?thesis using False Cons.IH [of "jm_delete st i"] Cons.prems by simp
  qed
qed

lemma evict_over_cap_ok:
  assumes "jm_ok (lm_state L)" "0 < lm_max L"
  shows "jm_ok (lm_state (evict_over_cap a L)) \<and> length (lm_state (evict_over_cap a L)) \<le> lm_max L \<and>
    jm_get (lm_state (evict_over_cap a L)) a = jm_get (lm_state L) a \<and>
    (\<forall>b e. jm_get (lm_state (evict_over_cap a L)) b = Some e \<longrightarrow> jm_get (lm_state L) b = Some e)"
proof (intro conjI)
  show "\<forall>b e. jm_get (lm_state (evict_over_cap a L)) b = Some e \<longrightarrow> jm_get (lm_state L) b = Some e"
    using evict_loop_get [of "lm_max L" a "jm_keys (lm_state L)" "lm_state L"]
    unfolding evict_over_cap_def by (simp split: if_split)
  show "length (lm_state (evict_over_cap a L)) \<le> lm_max L"
    using assms evict_loop_length [of "lm_max L" "lm_state L" a "jm_keys (lm_state L)"]
    by (auto simp: evict_over_cap_def)
qed (use assms in \<open>simp_all add: evict_over_cap_def evict_loop_ok evict_loop_keeps\<close>)

lemma evict_over_cap_fields [simp]:
  "lm_max (evict_over_cap a L) = lm_max L" "lm_capacity (evict_over_cap a L) = lm_capacity L"
  "lm_refill (evict_over_cap a L) = lm_refill L" "lm_idle (evict_over_cap a L) = lm_idle L"
  "lm_last_sweep (evict_over_cap a L) = lm_last_sweep L"
  by (simp_all add: evict_over_cap_def)

lemma sweep_idle_fields [simp]:
  "lm_max (sweep_idle now L) = lm_max L" "lm_capacity (sweep_idle now L) = lm_capacity L"
  "lm_refill (sweep_idle now L) = lm_refill L" "lm_idle (sweep_idle now L) = lm_idle L"
  by (simp_all add: sweep_idle_def)

lemma map_of_filter_distinct:
  "jm_ok m \<Longrightarrow> map_of (filter P m) k = (case map_of m k of None \<Rightarrow> None | Some v \<Rightarrow> if P (k, v) then Some v else None)"
proof (induction m)
  case (Cons p m)
  have "fst p \<notin> set (jm_keys (filter P m))" using Cons.prems by auto
  with Cons show ?case by (cases p) (auto split: option.splits simp: map_of_eq_None_iff)
qed simp

lemma sweep_idle_get:
  assumes "jm_ok (lm_state L)"
  shows "jm_get (lm_state (sweep_idle now L)) a =
    (case jm_get (lm_state L) a of None \<Rightarrow> None
     | Some e \<Rightarrow> if of_int (now - lm_last_sweep L) < lm_idle L \<or> of_int (now - bk_last e) < lm_idle L
               then Some e else None)"
  using assms by (auto simp: sweep_idle_def map_of_filter_distinct split: option.splits)

lemma sweep_idle_ok: "limiter_ok L \<Longrightarrow> limiter_ok (sweep_idle now L)"
proof -
  assume L: "limiter_ok L"
  have "jm_ok (lm_state (sweep_idle now L))"
    using L by (auto simp: sweep_idle_def limiter_ok_def intro: distinct_map_filter)
  moreover have "length (lm_state (sweep_idle now L)) \<le> length (lm_state L)"
    by (simp add: sweep_idle_def)
  ultimately show ?thesis using L
    by (auto simp: limiter_ok_def sweep_idle_get split: option.splits if_splits)
qed

lemma refill_ok:
  assumes "0 < lm_capacity L" "0 < lm_refill L" "0 \<le> bk_tokens e" "bk_tokens e \<le> lm_capacity L"
  shows "0 \<le> bk_tokens (refill L now e)" "bk_tokens (refill L now e) \<le> lm_capacity L"
  using assms by (auto simp: refill_def Let_def)

lemma touch_bucket_ok:
  assumes L: "limiter_ok L" and t: "touch_bucket a now L = (e, M)"
  shows "limiter_ok M \<and> jm_get (lm_state M) a = Some e \<and>
    (\<forall>b f. b \<noteq> a \<longrightarrow> jm_get (lm_state M) b = Some f \<longrightarrow> jm_get (lm_state L) b = Some f) \<and>
    lm_capacity M = lm_capacity L \<and> lm_refill M = lm_refill L \<and> lm_idle M = lm_idle L \<and>
    lm_max M = lm_max L \<and> lm_last_sweep M = lm_last_sweep L"
proof (cases "jm_get (lm_state L) a")
  case None
  define e' where "e' = \<lparr>bk_tokens = lm_capacity L, bk_last = now\<rparr>"
  define N where "N = L\<lparr>lm_state := jm_set (lm_state L) a e'\<rparr>"
  have "(e, M) = (e', evict_over_cap a N)"
    using t unfolding touch_bucket_def None N_def e'_def Let_def option.case by (rule sym)
  then have eM: "e = e'" "M = evict_over_cap a N" by blast+
  have "jm_ok (lm_state N)" "0 < lm_max N" using L by (auto simp: N_def limiter_ok_def)
  note ev = evict_over_cap_ok [OF this, of a]
  have get: "jm_get (lm_state N) b = (if b = a then Some e' else jm_get (lm_state L) b)" for b
    by (simp add: N_def jm_get_set)
  have fields: "lm_capacity M = lm_capacity L" "lm_refill M = lm_refill L" "lm_idle M = lm_idle L"
    "lm_max M = lm_max L" "lm_last_sweep M = lm_last_sweep L" by (simp_all add: eM N_def)
  have older: "jm_get (lm_state N) b = Some f" if "jm_get (lm_state M) b = Some f" for b f
    using ev that unfolding eM by blast
  have others: "jm_get (lm_state L) b = Some f" if "jm_get (lm_state M) b = Some f" "b \<noteq> a" for b f
    using older [OF that(1)] that(2) by (simp add: get)
  have toks: "0 \<le> bk_tokens f \<and> bk_tokens f \<le> lm_capacity L" if m: "jm_get (lm_state M) b = Some f" for b f
  proof (cases "b = a")
    case True
    with older [OF m] L show ?thesis by (auto simp: get e'_def limiter_ok_def)
  next
    case False
    with others [OF m] L show ?thesis unfolding limiter_ok_def by blast
  qed
  have own: "jm_get (lm_state M) a = Some e" using ev by (simp add: eM get)
  have "limiter_ok M"
    unfolding limiter_ok_def fields using L ev toks by (simp add: eM N_def limiter_ok_def)
  with fields others own show ?thesis by blast
next
  case (Some f)
  define g where "g = refill L now f"
  have "(e, M) = (g, L\<lparr>lm_state := jm_set (jm_delete (lm_state L) a) a g\<rparr>)"
    using t unfolding touch_bucket_def Some g_def Let_def option.case by (rule sym)
  then have eM: "e = g" "M = L\<lparr>lm_state := jm_set (jm_delete (lm_state L) a) a g\<rparr>" by blast+
  have g: "0 \<le> bk_tokens g" "bk_tokens g \<le> lm_capacity L"
    using L Some refill_ok [of L f now] by (auto simp: limiter_ok_def g_def)
  have ok: "jm_ok (lm_state L)" using L by (simp add: limiter_ok_def)
  have "length (lm_state M) \<le> length (lm_state L)"
    using ok Some by (cases "lm_state L")
      (auto simp: eM jm_size_set jm_size_delete jm_has_def jm_get_delete simp del: update.simps delete_simps)
  moreover have "jm_ok (lm_state M)" using ok by (simp add: eM)
  ultimately show ?thesis using L g unfolding limiter_ok_def by (simp add: eM jm_get_set jm_get_delete)
qed

lemma limiter_check_ok: "limiter_ok L \<Longrightarrow> limiter_ok (fst (limiter_check a now L))"
proof -
  assume L: "limiter_ok L"
  obtain e M where t: "touch_bucket a now (sweep_idle now L) = (e, M)" by fastforce
  note M = touch_bucket_ok [OF sweep_idle_ok [OF L] t]
  then have has: "jm_has (lm_state M) a" by (simp add: jm_has_def)
  show ?thesis
  proof (cases "bk_tokens e \<ge> 1")
    case True
    have ok: "limiter_ok M" and get: "jm_get (lm_state M) a = Some e" using M by blast+
    then have "bk_tokens e \<le> lm_capacity M" by (auto simp: limiter_ok_def)
    with True ok has show ?thesis
      by (simp add: limiter_check_def t limiter_ok_def jm_get_set jm_size_set)
  next
    case False
    with M show ?thesis by (simp add: limiter_check_def t)
  qed
qed

lemma limiter_release_ok: "limiter_ok L \<Longrightarrow> limiter_ok (limiter_release a L)"
  by (auto simp: limiter_ok_def limiter_release_def jm_get_delete jm_size_delete split: if_splits)

section \<open>The rate a bucket admits\<close>

text \<open>What an actor could spend at time \<open>t\<close>: a missing bucket counts as a full one.\<close>

definition credit :: "limiter \<Rightarrow> jsstr \<Rightarrow> int \<Rightarrow> real" where
  "credit L a t = (case jm_get (lm_state L) a of
     None \<Rightarrow> lm_capacity L
   | Some e \<Rightarrow> min (lm_capacity L) (bk_tokens e + of_int (t - bk_last e) * lm_refill L))"

definition clock_ok :: "limiter \<Rightarrow> int \<Rightarrow> bool" where
  "clock_ok L t \<longleftrightarrow> (\<forall>a e. jm_get (lm_state L) a = Some e \<longrightarrow> bk_last e \<le> t)"

text \<open>A bucket that sits idle for the window has refilled.\<close>

definition transparent :: "limiter \<Rightarrow> bool" where
  "transparent L \<longleftrightarrow> lm_capacity L \<le> lm_idle L * lm_refill L"

lemma credit_sweep:
  assumes L: "limiter_ok L" and "transparent L"
  shows "credit (sweep_idle now L) a now = credit L a now"
proof (cases "jm_get (lm_state L) a")
  case None
  with L show ?thesis by (simp add: credit_def sweep_idle_get limiter_ok_def)
next
  case (Some e)
  have ok: "jm_ok (lm_state L)" and pos: "0 < lm_refill L" "0 \<le> bk_tokens e"
    using L Some unfolding limiter_ok_def by blast+
  show ?thesis
  proof (cases "lm_idle L \<le> of_int (now - bk_last e)")
    case True
    then have "lm_idle L * lm_refill L \<le> of_int (now - bk_last e) * lm_refill L"
      using pos by (simp add: mult_right_mono)
    moreover have "lm_capacity L \<le> lm_idle L * lm_refill L" using assms(2) by (simp add: transparent_def)
    ultimately have "lm_capacity L \<le> bk_tokens e + of_int (now - bk_last e) * lm_refill L"
      using pos(2) by linarith
    with Some show ?thesis unfolding credit_def sweep_idle_get [OF ok] by simp
  next
    case False
    with Some show ?thesis unfolding credit_def sweep_idle_get [OF ok] by simp
  qed
qed

lemma refill_tokens:
  assumes "bk_last e \<le> now" "bk_tokens e \<le> lm_capacity L" "0 < lm_refill L"
  shows "bk_tokens (refill L now e) =
      min (lm_capacity L) (bk_tokens e + of_int (now - bk_last e) * lm_refill L)"
    and "bk_last (refill L now e) = now"
  using assms by (auto simp: refill_def Let_def)

lemma touch_bucket_credit:
  assumes L: "limiter_ok L" and c: "clock_ok L now" and t: "touch_bucket a now L = (e, M)"
    and cap: "jm_has (lm_state L) a \<or> length (lm_state L) < lm_max L"
  shows "bk_tokens e = credit L a now \<and> bk_last e = now \<and>
    jm_get (lm_state M) = (jm_get (lm_state L))(a \<mapsto> e) \<and> clock_ok M now"
proof (cases "jm_get (lm_state L) a")
  case None
  with cap have len: "length (lm_state L) < lm_max L" by (simp add: jm_has_def)
  define e' where "e' = \<lparr>bk_tokens = lm_capacity L, bk_last = now\<rparr>"
  have "evict_over_cap a (L\<lparr>lm_state := jm_set (lm_state L) a e'\<rparr>) = L\<lparr>lm_state := jm_set (lm_state L) a e'\<rparr>"
    using None len by (simp add: evict_over_cap_def jm_size_set jm_has_def)
  moreover have "(e, M) = (e', evict_over_cap a (L\<lparr>lm_state := jm_set (lm_state L) a e'\<rparr>))"
    using t unfolding touch_bucket_def None e'_def Let_def option.case by (rule sym)
  ultimately have eM: "e = e'" "M = L\<lparr>lm_state := jm_set (lm_state L) a e'\<rparr>" by auto
  then show ?thesis using None c
    by (auto simp: credit_def e'_def clock_ok_def jm_get_set)
next
  case (Some f)
  have f: "bk_tokens f \<le> lm_capacity L" "0 < lm_refill L" "bk_last f \<le> now"
    using L c Some unfolding limiter_ok_def clock_ok_def by blast+
  have "(e, M) = (refill L now f, L\<lparr>lm_state := jm_set (jm_delete (lm_state L) a) a (refill L now f)\<rparr>)"
    using t unfolding touch_bucket_def Some Let_def option.case by (rule sym)
  then have eM: "e = refill L now f" "M = L\<lparr>lm_state := jm_set (jm_delete (lm_state L) a) a e\<rparr>" by auto
  have get: "jm_get (lm_state M) = (jm_get (lm_state L))(a \<mapsto> e)"
    by (rule ext) (simp add: eM(2) jm_get_set jm_get_delete)
  moreover have "clock_ok M now"
    using c refill_tokens(2) [OF f(3,1,2)] unfolding clock_ok_def get by (simp add: eM(1))
  moreover have "bk_tokens e = credit L a now" "bk_last e = now"
    using Some refill_tokens [OF f(3,1,2)] by (simp_all add: credit_def eM(1))
  ultimately show ?thesis by blast
qed

lemma credit_bounds: "limiter_ok L \<Longrightarrow> credit L a t \<le> lm_capacity L"
  by (auto simp: credit_def split: option.splits)

lemma credit_later:
  assumes "limiter_ok L" "t \<le> t'"
  shows "credit L a t' \<le> credit L a t + lm_refill L * of_int (t' - t)"
proof (cases "jm_get (lm_state L) a")
  case None
  with assms show ?thesis by (simp add: credit_def limiter_ok_def)
next
  case (Some e)
  have "0 \<le> lm_refill L * of_int (t' - t)" using assms by (simp add: limiter_ok_def)
  then show ?thesis using Some by (simp add: credit_def min_def algebra_simps)
qed

text \<open>One check: the caller's credit pays for the frame, the others' is untouched.\<close>

lemma limiter_check_credit:
  assumes L: "limiter_ok L" "clock_ok L now" "transparent L"
    and cap: "jm_has (lm_state (sweep_idle now L)) a \<or> length (lm_state (sweep_idle now L)) < lm_max L"
  shows "credit (fst (limiter_check a now L)) b now =
      credit L b now - (if b = a \<and> snd (limiter_check a now L) then 1 else 0) \<and>
    snd (limiter_check a now L) = (1 \<le> credit L a now) \<and>
    clock_ok (fst (limiter_check a now L)) now \<and> transparent (fst (limiter_check a now L)) \<and>
    lm_max (fst (limiter_check a now L)) = lm_max L \<and>
    lm_refill (fst (limiter_check a now L)) = lm_refill L \<and>
    lm_capacity (fst (limiter_check a now L)) = lm_capacity L"
proof -
  define S where "S = sweep_idle now L"
  have Sf: "lm_capacity S = lm_capacity L" "lm_refill S = lm_refill L" by (simp_all add: S_def)
  have S: "limiter_ok S" unfolding S_def by (rule sweep_idle_ok [OF L(1)])
  have ok: "jm_ok (lm_state L)" using L(1) by (simp add: limiter_ok_def)
  have "clock_ok S now"
    using L(2) unfolding clock_ok_def S_def sweep_idle_get [OF ok] by (auto split: option.splits if_splits)
  obtain e M where t: "touch_bucket a now S = (e, M)" by fastforce
  have Mf: "lm_capacity M = lm_capacity L" "lm_refill M = lm_refill L" "lm_idle M = lm_idle L" "lm_max M = lm_max L"
    using touch_bucket_ok [OF S t] by (simp_all add: S_def)
  have cap': "jm_has (lm_state S) a \<or> length (lm_state S) < lm_max S" using cap by (simp add: S_def)
  note M = touch_bucket_credit [OF S \<open>clock_ok S now\<close> t cap']
  have e: "bk_tokens e = credit L a now" "bk_last e = now"
    using M credit_sweep [OF L(1,3)] by (simp_all add: S_def)
  have getM: "jm_get (lm_state M) = (jm_get (lm_state S))(a \<mapsto> e)" using M by blast
  have credM: "credit M b now = credit L b now"
  proof (cases "b = a")
    case True
    then show ?thesis unfolding credit_def getM using e credit_bounds [OF L(1), of a now]
      by (simp add: Mf) (simp add: credit_def)
  next
    case False
    then have "credit M b now = credit S b now" unfolding credit_def getM by (simp add: Mf Sf split: option.split)
    then show ?thesis by (simp add: S_def credit_sweep [OF L(1,3)])
  qed
  show ?thesis
  proof (cases "1 \<le> bk_tokens e")
    case True
    define N where "N = M\<lparr>lm_state := jm_set (lm_state M) a (e\<lparr>bk_tokens := bk_tokens e - 1\<rparr>)\<rparr>"
    have N: "limiter_check a now L = (N, True)"
      using True by (simp add: limiter_check_def t N_def flip: S_def)
    have getN: "jm_get (lm_state N) = (jm_get (lm_state M))(a \<mapsto> e\<lparr>bk_tokens := bk_tokens e - 1\<rparr>)"
      by (rule ext) (simp add: N_def jm_get_set)
    have Nf: "lm_capacity N = lm_capacity L" "lm_refill N = lm_refill L" "lm_idle N = lm_idle L" "lm_max N = lm_max L"
      by (simp_all add: N_def Mf)
    have "credit N b now = credit L b now - (if b = a then 1 else 0)"
    proof (cases "b = a")
      case True
      then show ?thesis unfolding credit_def getN using e credit_bounds [OF L(1), of a now]
        by (simp add: Nf) (simp add: credit_def)
    next
      case False
      then have "credit N b now = credit M b now" unfolding credit_def getN by (simp add: Nf Mf split: option.split)
      with False credM show ?thesis by simp
    qed
    moreover have "clock_ok N now"
    proof -
      have "clock_ok M now" using M by blast
      then have "bk_last f \<le> now" if "jm_get (lm_state N) c = Some f" for c f
        using that e(2) unfolding clock_ok_def getN by (cases "c = a") auto
      then show ?thesis by (simp add: clock_ok_def)
    qed
    ultimately show ?thesis using True L(3) by (simp add: N Nf e transparent_def)
  next
    case False
    then have "limiter_check a now L = (M, False)" by (simp add: limiter_check_def t flip: S_def)
    with False M credM L(3) show ?thesis by (simp add: Mf e transparent_def)
  qed
qed

section \<open>Runs\<close>

fun limiter_run :: "(jsstr \<times> int) list \<Rightarrow> limiter \<Rightarrow> limiter \<times> (jsstr \<times> bool) list" where
  "limiter_run [] L = (L, [])"
| "limiter_run ((a, now) # es) L =
     (let (L, ok) = limiter_check a now L; (L, oks) = limiter_run es L in (L, (a, ok) # oks))"

definition allowed_count :: "jsstr \<Rightarrow> (jsstr \<times> bool) list \<Rightarrow> nat" where
  "allowed_count a oks = length (filter (\<lambda>(b, ok). b = a \<and> ok) oks)"

definition tracked :: "limiter \<Rightarrow> jsstr set" where
  "tracked L = set (jm_keys (lm_state L))"

lemma tracked_get: "b \<in> tracked L \<longleftrightarrow> jm_get (lm_state L) b \<noteq> None"
  by (simp add: tracked_def map_of_eq_None_iff)

lemma tracked_sweep: "tracked (sweep_idle now L) \<subseteq> tracked L"
  by (auto simp: tracked_def sweep_idle_def)

lemma tracked_evict: "limiter_ok L \<Longrightarrow> tracked (fst (limiter_check a now L)) \<subseteq> insert a (tracked L)"
proof -
  assume L: "limiter_ok L"
  obtain e M where t: "touch_bucket a now (sweep_idle now L) = (e, M)" by fastforce
  note M = touch_bucket_ok [OF sweep_idle_ok [OF L] t]
  have "tracked M \<subseteq> insert a (tracked (sweep_idle now L))"
  proof
    fix b assume b: "b \<in> tracked M"
    then obtain f where "jm_get (lm_state M) b = Some f" unfolding tracked_get by blast
    with M have "b = a \<or> jm_get (lm_state (sweep_idle now L)) b = Some f" by blast
    then show "b \<in> insert a (tracked (sweep_idle now L))" unfolding tracked_get insert_iff by auto
  qed
  moreover have "tracked (fst (limiter_check a now L)) \<subseteq> insert a (tracked M)"
    unfolding limiter_check_def t by (auto simp: tracked_get jm_get_set split: if_splits)
  ultimately show ?thesis using tracked_sweep [of now L] by blast
qed

lemma tracked_room:
  assumes "jm_ok (lm_state L)" "insert a (tracked L) \<subseteq> K" "finite K" "card K \<le> lm_max L"
  shows "jm_has (lm_state L) a \<or> length (lm_state L) < lm_max L"
proof (cases "a \<in> tracked L")
  case True
  then show ?thesis by (simp add: tracked_def jm_has_iff_keys)
next
  case False
  have "card (tracked L) = length (lm_state L)"
    using assms(1) unfolding tracked_def by (metis distinct_card length_map)
  moreover have "card (tracked L) < card K"
    using False assms(2,3) by (intro psubset_card_mono) auto
  ultimately show ?thesis using assms(4) by simp
qed

lemma run_bound:
  assumes K: "finite K" "\<And>b. b \<in> set (map fst es) \<Longrightarrow> b \<in> K"
  shows "limiter_ok L \<Longrightarrow> clock_ok L t0 \<Longrightarrow> transparent L \<Longrightarrow> tracked L \<subseteq> K \<Longrightarrow> card K \<le> lm_max L \<Longrightarrow>
    sorted (t0 # map snd es @ [t1]) \<Longrightarrow>
    real (allowed_count a (snd (limiter_run es L))) \<le> credit L a t0 + lm_refill L * of_int (t1 - t0)"
  using K(2)
proof (induction es arbitrary: L t0)
  case Nil
  have "0 \<le> credit L a t0" using Nil(1,2)
    by (auto simp: credit_def limiter_ok_def clock_ok_def split: option.splits)
  moreover have "0 \<le> lm_refill L * of_int (t1 - t0)" using Nil by (simp add: limiter_ok_def)
  ultimately show ?case by (simp add: allowed_count_def)
next
  case (Cons ev es)
  obtain b t where ev: "ev = (b, t)" by fastforce
  from Cons.prems(6) ev have t: "t0 \<le> t" "t \<le> t1" "sorted (t # map snd es @ [t1])" by auto
  have clock: "clock_ok L t" using Cons.prems(2) t(1) unfolding clock_ok_def by fastforce
  obtain M ok where M: "limiter_check b t L = (M, ok)" by fastforce
  have sub: "insert b (tracked (sweep_idle t L)) \<subseteq> K"
    using tracked_sweep [of t L] Cons.prems(4,7) ev by auto
  have "jm_has (lm_state (sweep_idle t L)) b \<or> length (lm_state (sweep_idle t L)) < lm_max L"
    using tracked_room [OF _ sub K(1)] sweep_idle_ok [OF Cons.prems(1), of t] Cons.prems(5)
    unfolding limiter_ok_def by simp
  note step = limiter_check_credit [OF Cons.prems(1) clock Cons.prems(3) this, unfolded M fst_conv snd_conv]
  have "b \<in> K" using Cons.prems(7) [of b] ev by simp
  with tracked_evict [OF Cons.prems(1), of b t] Cons.prems(4) have "tracked M \<subseteq> K"
    unfolding M fst_conv by blast
  moreover have "limiter_ok M" using limiter_check_ok [OF Cons.prems(1), of b t] M by simp
  moreover have "\<And>b. b \<in> set (map fst es) \<Longrightarrow> b \<in> K" using Cons.prems(7) by simp
  ultimately have "real (allowed_count a (snd (limiter_run es M))) \<le> credit M a t + lm_refill L * of_int (t1 - t)"
    using Cons.IH [of M t] Cons.prems(5) t(3) step by simp
  then have rest: "real (allowed_count a (snd (limiter_run es M))) \<le>
      credit L a t - (if a = b \<and> ok then 1 else 0) + lm_refill L * of_int (t1 - t)"
    using step by simp
  have later: "credit L a t \<le> credit L a t0 + lm_refill L * of_int (t - t0)"
    using credit_later [OF Cons.prems(1) t(1)] .
  have split: "lm_refill L * of_int (t1 - t) + lm_refill L * of_int (t - t0) = lm_refill L * of_int (t1 - t0)"
    by (simp add: algebra_simps)
  have count: "allowed_count a (snd (limiter_run (ev # es) L)) =
      (if a = b \<and> ok then 1 else 0) + allowed_count a (snd (limiter_run es M))"
    by (auto simp: ev M Let_def allowed_count_def case_prod_beta)
  show ?case
  proof (cases "a = b \<and> ok")
    case True
    with rest count have "real (allowed_count a (snd (limiter_run (ev # es) L))) \<le>
        credit L a t + lm_refill L * of_int (t1 - t)" by simp
    with later split show ?thesis by linarith
  next
    case False
    with rest count have "real (allowed_count a (snd (limiter_run (ev # es) L))) \<le>
        credit L a t + lm_refill L * of_int (t1 - t)" by simp
    with later split show ?thesis by linarith
  qed
qed

section \<open>The interface of a limiter\<close>

text \<open>What the transport layer does with any limiter: it checks joined actors only
  (\<open>handleMessage\<close>'s membership guard) and releases an actor when it closes.\<close>

datatype 'k limiter_use = Join 'k | Check 'k int | Close 'k

locale rate_limiter =
  fixes check :: "'k \<Rightarrow> int \<Rightarrow> 's \<Rightarrow> 's \<times> bool"
    and release :: "'k \<Rightarrow> 's \<Rightarrow> 's"
    and holds :: "'s \<Rightarrow> 'k set"
    and inv :: "'s \<Rightarrow> bool"
  assumes inv_check: "inv L \<Longrightarrow> inv (fst (check a now L))"
    and inv_release: "inv L \<Longrightarrow> inv (release a L)"
    and holds_check: "inv L \<Longrightarrow> holds (fst (check a now L)) \<subseteq> insert a (holds L)"
    and holds_release: "inv L \<Longrightarrow> holds (release a L) = holds L - {a}"
begin

fun serve :: "'k limiter_use \<Rightarrow> 'k set \<times> 's \<Rightarrow> 'k set \<times> 's" where
  "serve (Join a) (J, L) = (insert a J, L)"
| "serve (Check a now) (J, L) = (J, if a \<in> J then fst (check a now L) else L)"
| "serve (Close a) (J, L) = (J - {a}, release a L)"

lemma serve_keeps:
  "inv (snd s) \<Longrightarrow> holds (snd s) \<subseteq> fst s \<Longrightarrow>
   inv (snd (serve u s)) \<and> holds (snd (serve u s)) \<subseteq> fst (serve u s)"
proof -
  assume s: "inv (snd s)" "holds (snd s) \<subseteq> fst s"
  obtain J L where JL: "s = (J, L)" by fastforce
  show ?thesis
  proof (cases u)
    case (Check a now)
    then show ?thesis using s inv_check [of L a now] holds_check [of L a now] by (auto simp: JL)
  next
    case (Close a)
    then show ?thesis using s inv_release [of L a] holds_release [of L a] by (auto simp: JL)
  qed (use s JL in auto)
qed

lemma no_stale_entries:
  "inv (snd s) \<Longrightarrow> holds (snd s) \<subseteq> fst s \<Longrightarrow>
   inv (snd (fold serve us s)) \<and> holds (snd (fold serve us s)) \<subseteq> fst (fold serve us s)"
proof (induction us arbitrary: s)
  case (Cons u us)
  from serve_keeps [OF Cons.prems, of u] Cons.IH [of "serve u s"] show ?case by simp
qed simp

end

lemma tracked_release: "tracked (limiter_release a L) = tracked L - {a}"
  by (auto simp: tracked_def limiter_release_def jm_delete_keys)

lemma limiter_check_fields:
  assumes L: "limiter_ok L"
  shows "lm_max (fst (limiter_check a now L)) = lm_max L"
    "lm_capacity (fst (limiter_check a now L)) = lm_capacity L"
    "lm_refill (fst (limiter_check a now L)) = lm_refill L"
    "lm_idle (fst (limiter_check a now L)) = lm_idle L"
proof -
  obtain e M where t: "touch_bucket a now (sweep_idle now L) = (e, M)" by fastforce
  note M = touch_bucket_ok [OF sweep_idle_ok [OF L] t]
  show "lm_max (fst (limiter_check a now L)) = lm_max L"
    "lm_capacity (fst (limiter_check a now L)) = lm_capacity L"
    "lm_refill (fst (limiter_check a now L)) = lm_refill L"
    "lm_idle (fst (limiter_check a now L)) = lm_idle L"
    using M by (simp_all add: limiter_check_def t)
qed

text \<open>The token bucket is such a limiter; its invariant carries the options it was created with.\<close>

definition limiter_from :: "limiter \<Rightarrow> limiter \<Rightarrow> bool" where
  "limiter_from L0 L \<longleftrightarrow> limiter_ok L \<and> lm_max L = lm_max L0 \<and> lm_capacity L = lm_capacity L0 \<and>
     lm_refill L = lm_refill L0 \<and> lm_idle L = lm_idle L0"

lemma limiter_release_fields:
  "lm_max (limiter_release a L) = lm_max L" "lm_capacity (limiter_release a L) = lm_capacity L"
  "lm_refill (limiter_release a L) = lm_refill L" "lm_idle (limiter_release a L) = lm_idle L"
  by (simp_all add: limiter_release_def)

interpretation tb: rate_limiter limiter_check limiter_release tracked "limiter_from L0" for L0
  by unfold_locales
    (auto simp: limiter_from_def limiter_check_ok limiter_check_fields limiter_release_ok tracked_release
      limiter_release_fields dest: subsetD [OF tracked_evict])

text \<open>Over any interleaving of checks with a clock that does not run backwards, an actor is granted
  at most its credit at the start plus the refill of the elapsed time.\<close>

lemma limiter_rate_bound:
  assumes "limiter_ok L" "clock_ok L t0" "transparent L" "tracked L \<union> set (map fst es) \<subseteq> K"
    and "finite K" "card K \<le> lm_max L" "sorted (t0 # map snd es @ [t1])"
  shows "real (allowed_count a (snd (limiter_run es L))) \<le> lm_capacity L + lm_refill L * of_int (t1 - t0)"
proof -
  have "b \<in> K" if "b \<in> set (map fst es)" for b using that assms(4) by blast
  moreover have "tracked L \<subseteq> K" using assms(4) by blast
  ultimately have "real (allowed_count a (snd (limiter_run es L))) \<le> credit L a t0 + lm_refill L * of_int (t1 - t0)"
    by (rule run_bound [OF assms(5) _ assms(1-3) _ assms(6,7)])
  with credit_bounds [OF assms(1), of a t0] show ?thesis by linarith
qed

lemma new_limiter_from:
  assumes "new_limiter c r m i = Inr L0"
  shows "limiter_from L0 L0" "tracked L0 = {}" "lm_max L0 = nat \<lfloor>m\<rfloor>" "lm_capacity L0 = c"
    "lm_refill L0 = r / 1000" "lm_idle L0 = i"
  using assms new_limiter_ok [OF assms]
  by (auto simp: limiter_from_def new_limiter_def tracked_def split: if_splits)

section \<open>Properties\<close>

text \<open>C12: the limiter bounds its memory and the rate it admits. Take any limiter the constructor
  accepts, after any sequence of joins, checks at any times (also with a clock that steps back)
  and closes. Its buckets belong to joined actors, their number is within the configured cap, and
  every bucket holds between zero tokens and the capacity. From there, over any interleaving of
  checks by any actors with a clock that no longer runs backwards, an actor is granted at most
  the capacity plus the refill of the elapsed time, provided a bucket refills within the idle
  window and the actors fit under the cap, so that no eviction hands out credit.\<close>

theorem limiter_sound:
  assumes "new_limiter c r m i = Inr L0" "fold tb.serve us ({}, L0) = (J, L)"
    and "c \<le> i * (r / 1000)" "clock_ok L t0" "sorted (t0 # map snd es @ [t1])"
    and "J \<union> set (map fst es) \<subseteq> K" "finite K" "card K \<le> nat \<lfloor>m\<rfloor>"
  shows "tracked L \<subseteq> J \<and> length (lm_state L) \<le> nat \<lfloor>m\<rfloor> \<and>
    (\<forall>b e. jm_get (lm_state L) b = Some e \<longrightarrow> 0 \<le> bk_tokens e \<and> bk_tokens e \<le> c) \<and>
    real (allowed_count a (snd (limiter_run es L))) \<le> c + r / 1000 * of_int (t1 - t0)"
proof -
  note L0 = new_limiter_from [OF assms(1)]
  from tb.no_stale_entries [of L0 "({}, L0)" us] L0(1,2) assms(2)
  have L: "limiter_from L0 L" "tracked L \<subseteq> J" by auto
  then have f: "limiter_ok L" "lm_max L = nat \<lfloor>m\<rfloor>" "lm_capacity L = c" "lm_refill L = r / 1000" "lm_idle L = i"
    using L0 by (auto simp: limiter_from_def)
  have "transparent L" using assms(3) by (simp add: transparent_def f)
  moreover have "tracked L \<union> set (map fst es) \<subseteq> K" using L(2) assms(6) by blast
  ultimately have "real (allowed_count a (snd (limiter_run es L))) \<le> c + r / 1000 * of_int (t1 - t0)"
    using limiter_rate_bound [OF f(1) assms(4) _ _ assms(7) _ assms(5), of a] assms(8) by (simp add: f)
  with L(2) f(1) show ?thesis unfolding limiter_ok_def f by blast
qed

definition sample_limiter :: limiter where
  "sample_limiter = \<lparr>lm_state = [], lm_capacity = 3, lm_refill = 1 / 100000, lm_max = 5, lm_idle = 400000,
     lm_last_sweep = 0\<rparr>"

definition sample_uses :: "jsstr limiter_use list" where
  "sample_uses = [Join [1], Join [2], Check [1] 400000, Close [1]]"

theorem limiter_sound_witness:
  "real (allowed_count [2] (snd (limiter_run [([1], 500000), ([2], 500000), ([2], 560000)]
     (snd (fold tb.serve sample_uses ({}, sample_limiter)))))) \<le> 3 + 1 / 100000 * 60000"
proof -
  have "fold tb.serve sample_uses ({}, sample_limiter) = ({[2]}, sample_limiter\<lparr>lm_last_sweep := 400000\<rparr>)"
    by (auto simp: sample_uses_def sample_limiter_def limiter_check_def touch_bucket_def sweep_idle_def
        evict_over_cap_def limiter_release_def Let_def)
  moreover have "new_limiter 3 (1 / 100) 5 400000 = Inr sample_limiter"
    by (simp add: new_limiter_def sample_limiter_def)
  ultimately show ?thesis
    using limiter_sound [of 3 "1 / 100" 5 400000 sample_limiter sample_uses "{[2]}" "sample_limiter\<lparr>lm_last_sweep := 400000\<rparr>"
        500000 "[([1], 500000), ([2], 500000), ([2], 560000)]" 560000 "{[1], [2]}" "[2]"]
    by (simp add: clock_ok_def sample_limiter_def del: limiter_run.simps)
qed

text \<open>Without the window condition the idle sweep is not transparent: with 3 tokens, one token per
  100 s and the default window of 60 s, an actor that spent its burst is granted a second full
  burst a minute later, 6 frames where capacity and refill allow 3.6.\<close>

lemma idle_sweep_not_transparent:
  "allowed_count [1] (snd (limiter_run
     [([1], 100000), ([1], 100000), ([1], 100000), ([1], 160000), ([1], 160000), ([1], 160000)]
     (sample_limiter\<lparr>lm_idle := 60000\<rparr>))) = 6"
  by (simp add: sample_limiter_def limiter_check_def touch_bucket_def sweep_idle_def refill_def
      evict_over_cap_def allowed_count_def Let_def)

end
