(* ===== verification/Auth.thy ===== *)
theory Auth
  imports Utf8_Truncate
begin

unbundle bit_operations_syntax

text \<open>
  The constant-time comparison of \<open>core/src/AuthMiddleware.ts\<close>: one accumulator of 32 bits,
  the differing lengths folded in first, one step per byte of the secret. The lemmas show that
  it decides equality of the encoded strings, hence of well-formed strings, and that it takes
  the same number of steps for every input.
\<close>

definition byte_or_zero :: "bytes \<Rightarrow> nat \<Rightarrow> 32 word" where
  "byte_or_zero bs i = (if i < length bs then ucast (bs ! i) else 0)"

fun compare_loop :: "bytes \<Rightarrow> bytes \<Rightarrow> nat list \<Rightarrow> 32 word \<Rightarrow> 32 word" where
  "compare_loop a b [] result = result"
| "compare_loop a b (i # is) result =
     compare_loop a b is (result OR (byte_or_zero a i XOR byte_or_zero b i))"

definition timing_safe_compare :: "jsstr \<Rightarrow> jsstr \<Rightarrow> bool" where
  "timing_safe_compare a b =
     (let a_buf = text_encode a; b_buf = text_encode b;
          result = word_of_nat (length a_buf) XOR word_of_nat (length b_buf)
      in compare_loop a_buf b_buf [0..<length b_buf] result = 0)"

lemma or_eq_0: "(x :: 32 word) OR y = 0 \<longleftrightarrow> x = 0 \<and> y = 0"
  by (metis or.right_neutral or_eq_0_iff)

lemma xor_eq_0: "(x :: 32 word) XOR y = 0 \<longleftrightarrow> x = y"
  by (metis bit.xor_self bit.xor_left_self xor.right_neutral)

lemma compare_loop_0:
  "compare_loop a b is r = 0 \<longleftrightarrow> r = 0 \<and> (\<forall>i \<in> set is. byte_or_zero a i = byte_or_zero b i)"
  by (induction "is" arbitrary: r) (auto simp: or_eq_0 xor_eq_0)

lemma ucast_byte_inject: "(ucast (x :: byte) :: 32 word) = ucast y \<longleftrightarrow> x = y"
proof -
  have "unat (ucast z :: 32 word) = unat z" for z :: byte
  proof -
    have "unat z < 256" using unsigned_less [of z] by simp
    then show ?thesis by (simp add: unsigned_ucast_eq take_bit_nat_eq_self)
  qed
  then show ?thesis by (metis word_unat_eq_iff)
qed

lemma timing_safe_bytes:
  assumes "length (text_encode a) < 2 ^ 32" "length (text_encode b) < 2 ^ 32"
  shows "timing_safe_compare a b \<longleftrightarrow> text_encode a = text_encode b"
proof -
  have "(word_of_nat (length (text_encode a)) :: 32 word) = word_of_nat (length (text_encode b)) \<longleftrightarrow>
      length (text_encode a) = length (text_encode b)"
    using assms by (simp add: word_of_nat_eq_iff take_bit_nat_eq_self)
  then show ?thesis
    by (auto simp: timing_safe_compare_def Let_def compare_loop_0 xor_eq_0 byte_or_zero_def ucast_byte_inject
        intro: nth_equalityI)
qed

lemma text_encode_inject:
  "well_formed a \<Longrightarrow> well_formed b \<Longrightarrow> text_encode a = text_encode b \<longleftrightarrow> a = b"
  by (metis of_points_points text_encode_points)

section \<open>Properties\<close>

text \<open>The constant-time comparison accepts exactly the secret. For tickets and secrets without
  lone surrogates (every string decoded from the network is one) it returns true precisely when
  the two strings are the same, whatever their lengths.\<close>

lemma timing_safe_compare_correct:
  assumes "well_formed a" "well_formed b"
    and "length (text_encode a) < 2 ^ 32" "length (text_encode b) < 2 ^ 32"
  shows "timing_safe_compare a b \<longleftrightarrow> a = b"
  using timing_safe_bytes [OF assms(3,4)] text_encode_inject [OF assms(1,2)] by simp

lemma timing_safe_compare_sample:
  "\<not> timing_safe_compare (js ''sesame'') (js ''sesam'') \<and> timing_safe_compare (js ''sesam'') (js ''sesam'')"
proof -
  have "well_formed (js ''sesame'')" "well_formed (js ''sesam'')"
    "length (text_encode (js ''sesame'')) < 2 ^ 32" "length (text_encode (js ''sesam'')) < 2 ^ 32"
    by (simp_all add: js_eval well_formed_def is_high_def is_low_def text_encode_def utf8_point_def)
  with timing_safe_compare_correct [of "js ''sesame''" "js ''sesam''"]
    timing_safe_compare_correct [of "js ''sesam''" "js ''sesam''"]
  show ?thesis by (simp add: js_eval)
qed

text \<open>Strings with lone surrogates are compared after their replacement by U+FFFD: two different
  ones are equal to the comparison.\<close>

lemma timing_safe_compare_surrogates:
  "timing_safe_compare [0xD800] [0xDC00]"
  by (simp add: timing_safe_compare_def text_encode_def is_high_def is_low_def replacement_def
      Let_def compare_loop_0)

end
