(* ===== verification/Core.thy ===== *)
theory Core
  imports Handshake
begin

unbundle bit_operations_syntax

text \<open>
  The server core: \<open>TLayer.ts\<close> (actors, admission, dispatch, buffered emits),
  \<open>Room.ts\<close>, \<open>RoomManager.ts\<close> and \<open>Actor.ts\<close> of \<open>core/src\<close>, as state
  passing over one \<open>world\<close>. Rooms are objects: the heap index is the object identity, the
  manager's map says which object an id names, so an actor reference or a scheduled microtask
  keeps pointing at the object it was made for.

  Code of the application (room hooks, topic listeners) is a parameter: a hook looks at the
  world and answers with a script, the calls it makes into the framework in order and whether
  it throws at the end. Hooks that create or destroy rooms run further hooks; the first argument
  of the operations bounds that nesting, and exceeding it is the \<open>RangeError\<close> of an
  exhausted stack, which is thrown like any other error.
\<close>

section \<open>State\<close>

datatype event = EvMessage | EvKick
datatype payload = PBytes bytes | PText jsstr
datatype policy = PolicyDrop | PolicyKick

record room =
  rm_id :: jsstr
  rm_type :: jsstr
  rm_presence :: bool
  rm_policy :: policy
  rm_max :: "nat option"
  rm_joinable :: bool
  rm_destroy_on_empty :: bool
  rm_topics :: "(jsstr, nat) jsmap"
  rm_wildcard :: "nat option"
  rm_actors :: "(jsstr, jsval) jsmap"
  rm_alive :: bool      \<comment> \<open>\<open>manager\<close> and \<open>transportLayer\<close> are not \<open>null\<close>\<close>
  rm_scheduled :: bool  \<comment> \<open>\<open>emptyDestroyScheduled\<close>\<close>

text \<open>The fields a room class fixes.\<close>

record room_class =
  rc_presence :: bool
  rc_policy :: policy
  rc_max :: "nat option"
  rc_joinable :: bool
  rc_destroy_on_empty :: bool

text \<open>What the environment sees, in order.\<close>

datatype observation =
    Deliver event jsstr nat bytes       \<comment> \<open>event, actor, transport listener, message\<close>
  | Invoke nat nat jsstr bytes jsstr    \<comment> \<open>room object, topic listener, actor, payload, topic\<close>
  | Released nat jsstr                  \<comment> \<open>limiter, actor\<close>
  | Announce jsstr jsstr                \<comment> \<open>manager event, room id\<close>

record world =
  wd_heap :: "room list"
  wd_rooms :: "(jsstr, nat) jsmap"
  wd_defs :: "(jsstr, room_class) jsmap"
  wd_room_ids :: "(jsstr, jsstr) jsmap"
  wd_transports :: "(jsstr, nat) jsmap"
  wd_listeners :: "(event \<times> jsstr, (nat \<times> bool) list) jsmap"  \<comment> \<open>listener, \<open>once\<close>\<close>
  wd_pending :: "(event \<times> jsstr, bytes list) jsmap"
  wd_microtasks :: "nat list"
  wd_out :: "observation list"

record config =
  cf_max_topic :: nat
  cf_max_payload :: nat
  cf_limiter :: "nat option"
  cf_transport_limiter :: "nat \<Rightarrow> nat option option"  \<comment> \<open>\<open>undefined\<close>, \<open>null\<close> or a limiter\<close>

datatype action =
    ASend nat jsstr jsstr payload | AKick nat jsstr payload | ABroadcast nat jsstr payload
  | ABind nat jsstr nat | AUnbind nat jsstr | ABindAny nat nat | AUnbindAny nat
  | ASetJoinable nat bool | ARoomDestroy nat | ADestroy jsstr | ACreate jsstr jsstr

type_synonym script = "action list \<times> bool"

record hooks =
  hk_create :: "world \<Rightarrow> nat \<Rightarrow> script"
  hk_join :: "world \<Rightarrow> nat \<Rightarrow> jsstr \<Rightarrow> script"
  hk_leave :: "world \<Rightarrow> nat \<Rightarrow> jsstr \<Rightarrow> script"
  hk_destroy :: "world \<Rightarrow> nat \<Rightarrow> script"
  hk_topic :: "world \<Rightarrow> nat \<Rightarrow> nat \<Rightarrow> jsstr \<Rightarrow> bytes \<Rightarrow> jsstr \<Rightarrow> script"
  hk_presence :: "world \<Rightarrow> nat \<Rightarrow> jsstr \<Rightarrow> jsval \<Rightarrow> jsstr option"

definition kick_invalid_message :: jsstr where "kick_invalid_message = js ''invalid_message''"
definition kick_room_destroyed :: jsstr where "kick_room_destroyed = js ''room_destroyed''"
definition kick_rate_limited :: jsstr where "kick_rate_limited = js ''rate_limited''"

definition payload_bytes :: "payload \<Rightarrow> bytes" where
  "payload_bytes p = (case p of PBytes b \<Rightarrow> b | PText s \<Rightarrow> text_encode s)"

definition upd_room :: "nat \<Rightarrow> (room \<Rightarrow> room) \<Rightarrow> world \<Rightarrow> world" where
  "upd_room r f w = w\<lparr>wd_heap := (wd_heap w)[r := f (wd_heap w ! r)]\<rparr>"

section \<open>Emitting to transports\<close>

fun close_end :: "bytes \<Rightarrow> nat \<Rightarrow> nat" where
  "close_end p 0 = 0"
| "close_end p (Suc n) =
     (if p ! n AND 0x80 = 0 then Suc n
      else if p ! n AND 0xC0 = 0xC0 then n
      else close_end p n)"

definition truncate_close_reason :: "bytes \<Rightarrow> bytes" where
  "truncate_close_reason p =
     (if length p \<le> max_close_reason_bytes then p
      else take (close_end p max_close_reason_bytes) p)"

definition listeners :: "world \<Rightarrow> event \<times> jsstr \<Rightarrow> (nat \<times> bool) list" where
  "listeners w k = (case jm_get (wd_listeners w) k of None \<Rightarrow> [] | Some ls \<Rightarrow> ls)"

text \<open>The emitter calls every listener of the key and forgets the \<open>once\<close> ones.\<close>

definition emitter_emit :: "event \<times> jsstr \<Rightarrow> bytes \<Rightarrow> world \<Rightarrow> world" where
  "emitter_emit k m w =
     w\<lparr>wd_listeners := jm_set (wd_listeners w) k (filter (\<lambda>(l, once). \<not> once) (listeners w k)),
       wd_out := wd_out w @ map (\<lambda>(l, once). Deliver (fst k) (snd k) l m) (listeners w k)\<rparr>"

definition max_pending_emits :: nat where
  "max_pending_emits = 256"

definition tl_emit :: "event \<Rightarrow> jsstr \<Rightarrow> bytes \<Rightarrow> world \<Rightarrow> world" where
  "tl_emit ev a m w =
     (let k = (ev, a) in
      if length (listeners w k) > 0 then emitter_emit k m w
      else if \<not> jm_has (wd_room_ids w) a then w
      else
        let w = (if jm_has (wd_pending w) k then w else w\<lparr>wd_pending := jm_set (wd_pending w) k []\<rparr>);
            queue = the (jm_get (wd_pending w) k)
        in if length queue \<ge> max_pending_emits then w
           else w\<lparr>wd_pending := jm_set (wd_pending w) k (queue @ [m])\<rparr>)"

definition flush_pending :: "event \<times> jsstr \<Rightarrow> world \<Rightarrow> world" where
  "flush_pending k w = (case jm_get (wd_pending w) k of
     None \<Rightarrow> w
   | Some queue \<Rightarrow> fold (emitter_emit k) queue (w\<lparr>wd_pending := jm_delete (wd_pending w) k\<rparr>))"

definition add_listener :: "event \<times> jsstr \<Rightarrow> nat \<times> bool \<Rightarrow> world \<Rightarrow> world" where
  "add_listener k l w = w\<lparr>wd_listeners := jm_set (wd_listeners w) k (listeners w k @ [l])\<rparr>"

definition tl_on :: "event \<Rightarrow> jsstr \<Rightarrow> nat \<Rightarrow> world \<Rightarrow> world" where
  "tl_on ev a l w = flush_pending (ev, a) (add_listener (ev, a) (l, False) w)"

definition tl_once :: "event \<Rightarrow> jsstr \<Rightarrow> nat \<Rightarrow> world \<Rightarrow> world" where
  "tl_once ev a l w = flush_pending (ev, a) (add_listener (ev, a) (l, True) w)"

text \<open>Operations that may throw return the world and whether they threw.\<close>

definition tl_send :: "jsstr \<Rightarrow> jsstr \<Rightarrow> bytes \<Rightarrow> world \<Rightarrow> world \<times> bool" where
  "tl_send a topic p w = (case message_encode topic p of
     Inl _ \<Rightarrow> (w, True) | Inr m \<Rightarrow> (tl_emit EvMessage a m w, False))"

definition tl_kick :: "jsstr \<Rightarrow> bytes \<Rightarrow> world \<Rightarrow> world" where
  "tl_kick a p w = tl_emit EvKick a (truncate_close_reason p) w"

section \<open>Rooms: sending and binding\<close>

definition room_send :: "nat \<Rightarrow> jsstr \<Rightarrow> jsstr \<Rightarrow> payload \<Rightarrow> world \<Rightarrow> world \<times> bool" where
  "room_send r a topic p w =
     (if \<not> rm_alive (wd_heap w ! r) then (w, False) else tl_send a topic (payload_bytes p) w)"

fun send_each :: "nat \<Rightarrow> jsstr list \<Rightarrow> jsstr \<Rightarrow> payload \<Rightarrow> world \<Rightarrow> world \<times> bool" where
  "send_each r [] topic p w = (w, False)"
| "send_each r (a # as) topic p w =
     (let (w, threw) = room_send r a topic p w
      in if threw then (w, True) else send_each r as topic p w)"

definition room_broadcast :: "nat \<Rightarrow> jsstr \<Rightarrow> payload \<Rightarrow> world \<Rightarrow> world \<times> bool" where
  "room_broadcast r topic p w = send_each r (jm_keys (rm_actors (wd_heap w ! r))) topic p w"

definition room_kick :: "nat \<Rightarrow> jsstr \<Rightarrow> payload \<Rightarrow> world \<Rightarrow> world" where
  "room_kick r a p w =
     (if \<not> rm_alive (wd_heap w ! r) then w else tl_kick a (payload_bytes p) w)"

definition bindable :: "jsstr \<Rightarrow> bool" where
  "bindable topic \<longleftrightarrow> take 2 topic \<noteq> js ''__'' \<and> topic \<noteq> js ''*''"

definition room_bind :: "nat \<Rightarrow> jsstr \<Rightarrow> nat \<Rightarrow> world \<Rightarrow> world \<times> bool" where
  "room_bind r topic l w =
     (if \<not> bindable topic \<or> jm_has (rm_topics (wd_heap w ! r)) topic then (w, True)
      else (upd_room r (\<lambda>q. q\<lparr>rm_topics := jm_set (rm_topics q) topic l\<rparr>) w, False))"

definition room_unbind :: "nat \<Rightarrow> jsstr \<Rightarrow> world \<Rightarrow> world \<times> bool" where
  "room_unbind r topic w =
     (if \<not> bindable topic then (w, True)
      else (upd_room r (\<lambda>q. q\<lparr>rm_topics := jm_delete (rm_topics q) topic\<rparr>) w, False))"

definition room_bind_any :: "nat \<Rightarrow> nat \<Rightarrow> world \<Rightarrow> world \<times> bool" where
  "room_bind_any r l w =
     (if rm_wildcard (wd_heap w ! r) \<noteq> None then (w, True)
      else (upd_room r (\<lambda>q. q\<lparr>rm_wildcard := Some l\<rparr>) w, False))"

definition room_unbind_any :: "nat \<Rightarrow> world \<Rightarrow> world" where
  "room_unbind_any r w = upd_room r (\<lambda>q. q\<lparr>rm_wildcard := None\<rparr>) w"

section \<open>Creating and destroying rooms\<close>

text \<open>\<open>run\<close> executes the script of a hook that the operation calls.\<close>

definition handle_destroy ::
  "(script \<Rightarrow> world \<Rightarrow> world \<times> bool) \<Rightarrow> hooks \<Rightarrow> nat \<Rightarrow> world \<Rightarrow> world" where
  "handle_destroy run H r w =
     (let w = fold (\<lambda>a. room_kick r a (PText kick_room_destroyed)) (jm_keys (rm_actors (wd_heap w ! r))) w;
          w = fst (run (hk_destroy H w r) w)
      in upd_room r (\<lambda>q. q\<lparr>rm_actors := [], rm_topics := [], rm_wildcard := None, rm_alive := False\<rparr>) w)"

definition manager_destroy ::
  "(script \<Rightarrow> world \<Rightarrow> world \<times> bool) \<Rightarrow> hooks \<Rightarrow> jsstr \<Rightarrow> world \<Rightarrow> world \<times> bool" where
  "manager_destroy run H rid w = (case jm_get (wd_rooms w) rid of
     None \<Rightarrow> (w, True)
   | Some r \<Rightarrow>
       (let w = w\<lparr>wd_rooms := jm_delete (wd_rooms w) rid\<rparr>;
            w = handle_destroy run H r w
        in (w\<lparr>wd_out := wd_out w @ [Announce (js ''destroy'') rid]\<rparr>, False)))"

definition room_destroy ::
  "(script \<Rightarrow> world \<Rightarrow> world \<times> bool) \<Rightarrow> hooks \<Rightarrow> nat \<Rightarrow> world \<Rightarrow> world \<times> bool" where
  "room_destroy run H r w =
     (if \<not> rm_alive (wd_heap w ! r) then (w, False)
      else manager_destroy run H (rm_id (wd_heap w ! r)) w)"

text \<open>The constructor runs \<open>onCreate\<close> before the room is entered in the manager's map.\<close>

definition new_room :: "jsstr \<Rightarrow> jsstr \<Rightarrow> room_class \<Rightarrow> room" where
  "new_room rid type c =
     \<lparr>rm_id = rid, rm_type = type, rm_presence = rc_presence c, rm_policy = rc_policy c,
      rm_max = rc_max c, rm_joinable = rc_joinable c, rm_destroy_on_empty = rc_destroy_on_empty c,
      rm_topics = [], rm_wildcard = None, rm_actors = [], rm_alive = True, rm_scheduled = False\<rparr>"

definition manager_create ::
  "(script \<Rightarrow> world \<Rightarrow> world \<times> bool) \<Rightarrow> hooks \<Rightarrow> jsstr \<Rightarrow> jsstr \<Rightarrow> world \<Rightarrow> world \<times> bool" where
  "manager_create run H type rid w = (case jm_get (wd_defs w) type of
     None \<Rightarrow> (w, True)
   | Some c \<Rightarrow>
       (if jm_has (wd_rooms w) rid then (w, True)
        else
          let r = length (wd_heap w);
              w = w\<lparr>wd_heap := wd_heap w @ [new_room rid type c]\<rparr>;
              (w, threw) = run (hk_create H w r) w
          in if threw then (w, True)
             else (w\<lparr>wd_rooms := jm_set (wd_rooms w) rid r,
                     wd_out := wd_out w @ [Announce (js ''create'') rid]\<rparr>, False)))"

definition manager_define :: "jsstr \<Rightarrow> room_class \<Rightarrow> world \<Rightarrow> world \<times> bool" where
  "manager_define type c w =
     (if jm_has (wd_defs w) type then (w, True)
      else (w\<lparr>wd_defs := jm_set (wd_defs w) type c,
              wd_out := wd_out w @ [Announce (js ''define'') type]\<rparr>, False))"

section \<open>Application code\<close>

definition run_action ::
  "(script \<Rightarrow> world \<Rightarrow> world \<times> bool) \<Rightarrow> hooks \<Rightarrow> action \<Rightarrow> world \<Rightarrow> world \<times> bool" where
  "run_action run H act w = (case act of
     ASend r a topic p \<Rightarrow> room_send r a topic p w
   | AKick r a p \<Rightarrow> (room_kick r a p w, False)
   | ABroadcast r topic p \<Rightarrow> room_broadcast r topic p w
   | ABind r topic l \<Rightarrow> room_bind r topic l w
   | AUnbind r topic \<Rightarrow> room_unbind r topic w
   | ABindAny r l \<Rightarrow> room_bind_any r l w
   | AUnbindAny r \<Rightarrow> (room_unbind_any r w, False)
   | ASetJoinable r b \<Rightarrow> (upd_room r (\<lambda>q. q\<lparr>rm_joinable := b\<rparr>) w, False)
   | ARoomDestroy r \<Rightarrow> room_destroy run H r w
   | ADestroy rid \<Rightarrow> manager_destroy run H rid w
   | ACreate type rid \<Rightarrow> manager_create run H type rid w)"

fun run_actions ::
  "(script \<Rightarrow> world \<Rightarrow> world \<times> bool) \<Rightarrow> hooks \<Rightarrow> action list \<Rightarrow> world \<Rightarrow> world \<times> bool" where
  "run_actions run H [] w = (w, False)"
| "run_actions run H (act # acts) w =
     (let (w, threw) = run_action run H act w
      in if threw then (w, True) else run_actions run H acts w)"

fun run_script :: "nat \<Rightarrow> hooks \<Rightarrow> script \<Rightarrow> world \<Rightarrow> world \<times> bool" where
  "run_script 0 H s w = (w, True)"
| "run_script (Suc n) H s w =
     (let (w, threw) = run_actions (run_script n H) H (fst s) w in (w, threw \<or> snd s))"

section \<open>Rooms: joining, messages, leaving\<close>

definition presence_join_topic :: jsstr where "presence_join_topic = js ''__presence:join''"
definition presence_leave_topic :: jsstr where "presence_leave_topic = js ''__presence:leave''"

text \<open>The presence broadcast; its errors are caught and logged.\<close>

definition announce_presence :: "hooks \<Rightarrow> nat \<Rightarrow> jsstr \<Rightarrow> jsval \<Rightarrow> jsstr \<Rightarrow> world \<Rightarrow> world" where
  "announce_presence H r a d topic w =
     (if \<not> rm_presence (wd_heap w ! r) then w
      else case hk_presence H w r a d of
             None \<Rightarrow> w
           | Some text \<Rightarrow> fst (room_broadcast r topic (PText text) w))"

definition handle_join :: "nat \<Rightarrow> hooks \<Rightarrow> nat \<Rightarrow> jsstr \<Rightarrow> jsval \<Rightarrow> world \<Rightarrow> world \<times> bool" where
  "handle_join n H r a d w =
     (let w = upd_room r (\<lambda>q. q\<lparr>rm_actors := jm_set (rm_actors q) a d\<rparr>) w;
          (w, threw) = run_script n H (hk_join H w r a) w
      in if threw then (upd_room r (\<lambda>q. q\<lparr>rm_actors := jm_delete (rm_actors q) a\<rparr>) w, True)
         else (announce_presence H r a d presence_join_topic w, False))"

text \<open>A listener's throw is caught and logged, its effects stay.\<close>

definition room_handle_message ::
  "nat \<Rightarrow> hooks \<Rightarrow> nat \<Rightarrow> jsstr \<Rightarrow> jsstr \<Rightarrow> bytes \<Rightarrow> world \<Rightarrow> world" where
  "room_handle_message n H r a topic p w =
     (let q = wd_heap w ! r in
      if \<not> jm_has (rm_actors q) a then w
      else case (case jm_get (rm_topics q) topic of Some l \<Rightarrow> Some l | None \<Rightarrow> rm_wildcard q) of
             None \<Rightarrow>
               (case rm_policy q of
                  PolicyDrop \<Rightarrow> w
                | PolicyKick \<Rightarrow> room_kick r a (PText kick_invalid_message) w)
           | Some l \<Rightarrow>
               (let w = w\<lparr>wd_out := wd_out w @ [Invoke r l a p topic]\<rparr>
                in fst (run_script n H (hk_topic H w r l a p topic) w)))"

definition schedule_destroy_on_empty :: "nat \<Rightarrow> world \<Rightarrow> world" where
  "schedule_destroy_on_empty r w =
     (if rm_scheduled (wd_heap w ! r) then w
      else (upd_room r (\<lambda>q. q\<lparr>rm_scheduled := True\<rparr>) w)\<lparr>wd_microtasks := wd_microtasks w @ [r]\<rparr>)"

definition handle_leave :: "nat \<Rightarrow> hooks \<Rightarrow> nat \<Rightarrow> jsstr \<Rightarrow> world \<Rightarrow> world" where
  "handle_leave n H r a w = (case jm_get (rm_actors (wd_heap w ! r)) a of
     None \<Rightarrow> w
   | Some d \<Rightarrow>
       (let w = upd_room r (\<lambda>q. q\<lparr>rm_actors := jm_delete (rm_actors q) a\<rparr>) w;
            w = fst (run_script n H (hk_leave H w r a) w);
            w = announce_presence H r a d presence_leave_topic w
        in if rm_destroy_on_empty (wd_heap w ! r) \<and> rm_actors (wd_heap w ! r) = []
           then schedule_destroy_on_empty r w else w))"

definition run_microtask :: "nat \<Rightarrow> hooks \<Rightarrow> world \<Rightarrow> world" where
  "run_microtask n H w = (case wd_microtasks w of
     [] \<Rightarrow> w
   | r # rs \<Rightarrow>
       (let w = upd_room r (\<lambda>q. q\<lparr>rm_scheduled := False\<rparr>) (w\<lparr>wd_microtasks := rs\<rparr>)
        in if \<not> rm_alive (wd_heap w ! r) \<or> rm_actors (wd_heap w ! r) \<noteq> [] then w
           else fst (manager_destroy (run_script n H) H (rm_id (wd_heap w ! r)) w)))"

section \<open>Admission\<close>

datatype grant_error =
    InvalidTicket | BadActorData jsval | BadRoomId jsval | NoSuchRoom jsstr
  | RoomNotJoinable | RoomFull | NoActorId | JoinThrew

text \<open>The fields of an \<open>AuthResult\<close> as they come from application code.\<close>

record auth_result =
  au_data :: jsval
  au_room :: jsval
  au_actor :: jsval

definition max_requested_id_length :: nat where
  "max_requested_id_length = 64"

definition id_char :: "16 word \<Rightarrow> bool" where
  "id_char u \<longleftrightarrow> (0x41 \<le> u \<and> u \<le> 0x5A) \<or> (0x61 \<le> u \<and> u \<le> 0x7A) \<or> (0x30 \<le> u \<and> u \<le> 0x39) \<or>
     u = 0x5F \<or> u = 0x2D"

definition is_object_type :: "jsval \<Rightarrow> bool" where
  "is_object_type v = (case v of JNull \<Rightarrow> True | JObj _ \<Rightarrow> True | JArr _ \<Rightarrow> True | JBytes _ \<Rightarrow> True | _ \<Rightarrow> False)"

text \<open>\<open>candidates\<close> are the ids that \<open>generateId\<close> returns, one per attempt.\<close>

definition allocate_actor_id :: "world \<Rightarrow> jsval \<Rightarrow> jsstr list \<Rightarrow> jsstr option" where
  "allocate_actor_id w requested candidates =
     (let fresh = (\<lambda>a. \<not> jm_has (wd_room_ids w) a);
          fallback = find fresh (take 8 candidates)
      in case requested of
           JStr a \<Rightarrow>
             (if a \<noteq> [] \<and> length a \<le> max_requested_id_length \<and> list_all id_char a \<and> fresh a
              then Some a else fallback)
         | _ \<Rightarrow> fallback)"

text \<open>What \<open>grantAccess\<close> does with the answer of the middleware. The room is looked up when the
  answer arrives; nothing else runs until the actor has joined or was refused.\<close>

definition grant_check :: "world \<Rightarrow> auth_result option \<Rightarrow> jsstr list \<Rightarrow> grant_error + (nat \<times> jsstr \<times> jsstr)" where
  "grant_check w result candidates = (case result of
     None \<Rightarrow> Inl InvalidTicket
   | Some au \<Rightarrow>
       (if \<not> is_object_type (au_data au) then Inl (BadActorData (au_data au))
        else case au_room au of
               JStr rid \<Rightarrow>
                 (if rid = [] then Inl (BadRoomId (au_room au))
                  else case jm_get (wd_rooms w) rid of
                         None \<Rightarrow> Inl (NoSuchRoom rid)
                       | Some r \<Rightarrow>
                           (if \<not> rm_joinable (wd_heap w ! r) then Inl RoomNotJoinable
                            else if (case rm_max (wd_heap w ! r) of
                                       None \<Rightarrow> False
                                     | Some m \<Rightarrow> length (rm_actors (wd_heap w ! r)) \<ge> m)
                            then Inl RoomFull
                            else case allocate_actor_id w (au_actor au) candidates of
                                   None \<Rightarrow> Inl NoActorId
                                 | Some a \<Rightarrow> Inr (r, rid, a)))
             | v \<Rightarrow> Inl (BadRoomId v)))"

definition forget_actor :: "jsstr \<Rightarrow> world \<Rightarrow> world" where
  "forget_actor a w =
     w\<lparr>wd_listeners := jm_delete (jm_delete (wd_listeners w) (EvMessage, a)) (EvKick, a),
       wd_pending := jm_delete (jm_delete (wd_pending w) (EvMessage, a)) (EvKick, a)\<rparr>"

definition grant_access ::
  "nat \<Rightarrow> hooks \<Rightarrow> auth_result option \<Rightarrow> nat option \<Rightarrow> jsstr list \<Rightarrow> world \<Rightarrow> world \<times> (grant_error + jsstr)" where
  "grant_access n H result transport candidates w = (case grant_check w result candidates of
     Inl e \<Rightarrow> (w, Inl e)
   | Inr (r, rid, a) \<Rightarrow>
       (let w = w\<lparr>wd_room_ids := jm_set (wd_room_ids w) a rid\<rparr>;
            w = (case transport of None \<Rightarrow> w
                 | Some t \<Rightarrow> w\<lparr>wd_transports := jm_set (wd_transports w) a t\<rparr>);
            (w, threw) = handle_join n H r a (au_data (the result)) w
        in if threw
           then (forget_actor a (w\<lparr>wd_room_ids := jm_delete (wd_room_ids w) a,
                                   wd_transports := jm_delete (wd_transports w) a\<rparr>), Inl JoinThrew)
           else (w, Inr a)))"

section \<open>Inbound frames\<close>

text \<open>The limiter in charge of an actor: the transport's own, unless it does not say.\<close>

definition limiter_of :: "config \<Rightarrow> nat option \<Rightarrow> nat option" where
  "limiter_of C transport = (case transport of
     None \<Rightarrow> cf_limiter C
   | Some t \<Rightarrow> (case cf_transport_limiter C t of None \<Rightarrow> cf_limiter C | Some l \<Rightarrow> l))"

text \<open>\<open>handleMessage\<close> up to the limiter: it kicked or dropped the frame, it threw (a decoded
  frame without topic or payload), or it goes on with the decoded message.\<close>

datatype msg_phase = MsgDone world | MsgThrow | MsgContinue "nat option" jsstr bytes

definition handle_message_start :: "config \<Rightarrow> jsstr \<Rightarrow> bytes \<Rightarrow> world \<Rightarrow> msg_phase" where
  "handle_message_start C a frame w =
     (let invalid = MsgDone (tl_kick a (text_encode kick_invalid_message) w) in
      case message_decode frame of
        Inl _ \<Rightarrow> invalid
      | Inr v \<Rightarrow>
          (case get_prop v (js ''topic'') of
             JStr topic \<Rightarrow>
               (if length topic > cf_max_topic C then invalid
                else case get_prop v (js ''payload'') of
                       JBytes p \<Rightarrow>
                         (if length p > cf_max_payload C then invalid
                          else if \<not> jm_has (wd_room_ids w) a then MsgDone w
                          else MsgContinue (limiter_of C (jm_get (wd_transports w) a)) topic p)
                     | _ \<Rightarrow> MsgThrow)
           | _ \<Rightarrow> MsgThrow))"

text \<open>After the limiter (awaited when there is one) allowed or refused the frame; the world may
  have changed in between.\<close>

definition handle_message_finish ::
  "nat \<Rightarrow> hooks \<Rightarrow> jsstr \<Rightarrow> jsstr \<Rightarrow> bytes \<Rightarrow> bool \<Rightarrow> world \<Rightarrow> world" where
  "handle_message_finish n H a topic p allowed w =
     (if \<not> allowed then tl_kick a (text_encode kick_rate_limited) w
      else case jm_get (wd_room_ids w) a of
             None \<Rightarrow> w
           | Some rid \<Rightarrow>
               (case jm_get (wd_rooms w) rid of
                  None \<Rightarrow> w\<lparr>wd_room_ids := jm_delete (wd_room_ids w) a\<rparr>
                | Some r \<Rightarrow> room_handle_message n H r a topic p w))"

definition handle_close :: "nat \<Rightarrow> hooks \<Rightarrow> config \<Rightarrow> jsstr \<Rightarrow> world \<Rightarrow> world" where
  "handle_close n H C a w =
     (let room = (case jm_get (wd_room_ids w) a of None \<Rightarrow> None | Some rid \<Rightarrow> jm_get (wd_rooms w) rid);
          transport = jm_get (wd_transports w) a;
          w = w\<lparr>wd_room_ids := jm_delete (wd_room_ids w) a, wd_transports := jm_delete (wd_transports w) a\<rparr>;
          w = (case room of None \<Rightarrow> w | Some r \<Rightarrow> handle_leave n H r a w);
          w = forget_actor a w
      in case limiter_of C transport of
           None \<Rightarrow> w
         | Some l \<Rightarrow> w\<lparr>wd_out := wd_out w @ [Released l a]\<rparr>)"

section \<open>Transport capabilities and shutdown\<close>

record capability =
  cp_ordered :: bool
  cp_reliable :: bool
  cp_max_frame :: "nat option"

definition register_capabilities :: "capability option \<Rightarrow> capability \<Rightarrow> capability option" where
  "register_capabilities prev caps = (case prev of
     None \<Rightarrow> Some caps
   | Some p \<Rightarrow> Some
       \<lparr>cp_ordered = cp_ordered p \<and> cp_ordered caps,
        cp_reliable = cp_reliable p \<and> cp_reliable caps,
        cp_max_frame = (case (cp_max_frame p, cp_max_frame caps) of
           (None, None) \<Rightarrow> None
         | (None, Some b) \<Rightarrow> Some b
         | (Some a, None) \<Rightarrow> Some a
         | (Some a, Some b) \<Rightarrow> Some (min a b))\<rparr>)"

text \<open>\<open>Rivalis.shutdown\<close>: every room id known at the start is destroyed; a room that is gone by
  its turn throws, which is logged.\<close>

definition shutdown_rooms :: "nat \<Rightarrow> hooks \<Rightarrow> world \<Rightarrow> world" where
  "shutdown_rooms n H w =
     fold (\<lambda>rid w. fst (manager_destroy (run_script n H) H rid w)) (jm_keys (wd_rooms w)) w"

section \<open>The server as a step relation\<close>

text \<open>Every step is one turn of the event loop. A frame whose limiter check is pending is a
  message in flight, finished in a later turn with the limiter's answer.\<close>

record server =
  sv_world :: world
  sv_awaiting :: "(jsstr \<times> jsstr \<times> bytes) list"

inductive server_step :: "nat \<Rightarrow> hooks \<Rightarrow> config \<Rightarrow> server \<Rightarrow> server \<Rightarrow> bool" for n H C where
  grant: "server_step n H C s (s\<lparr>sv_world := fst (grant_access n H result transport candidates (sv_world s))\<rparr>)"
| frame_done: "handle_message_start C a frame (sv_world s) = MsgDone w \<Longrightarrow>
    server_step n H C s (s\<lparr>sv_world := w\<rparr>)"
| frame_await: "handle_message_start C a frame (sv_world s) = MsgContinue (Some l) topic p \<Longrightarrow>
    server_step n H C s (s\<lparr>sv_awaiting := sv_awaiting s @ [(a, topic, p)]\<rparr>)"
| frame_direct: "handle_message_start C a frame (sv_world s) = MsgContinue None topic p \<Longrightarrow>
    server_step n H C s (s\<lparr>sv_world := handle_message_finish n H a topic p True (sv_world s)\<rparr>)"
| frame_resume: "sv_awaiting s = xs @ (a, topic, p) # ys \<Longrightarrow>
    server_step n H C s
      (s\<lparr>sv_world := handle_message_finish n H a topic p allowed (sv_world s), sv_awaiting := xs @ ys\<rparr>)"
| closed: "server_step n H C s (s\<lparr>sv_world := handle_close n H C a (sv_world s)\<rparr>)"
| listen: "server_step n H C s (s\<lparr>sv_world := tl_on ev a l (sv_world s)\<rparr>)"
| listen_once: "server_step n H C s (s\<lparr>sv_world := tl_once ev a l (sv_world s)\<rparr>)"
| microtask: "server_step n H C s (s\<lparr>sv_world := run_microtask n H (sv_world s)\<rparr>)"
| define_class: "server_step n H C s (s\<lparr>sv_world := fst (manager_define type c (sv_world s))\<rparr>)"
| application: "server_step n H C s (s\<lparr>sv_world := fst (run_script n H sc (sv_world s))\<rparr>)"
| shutdown: "server_step n H C s (s\<lparr>sv_world := shutdown_rooms n H (sv_world s)\<rparr>)"

definition new_server :: server where
  "new_server = \<lparr>sv_world = \<lparr>wd_heap = [], wd_rooms = [], wd_defs = [], wd_room_ids = [], wd_transports = [],
     wd_listeners = [], wd_pending = [], wd_microtasks = [], wd_out = []\<rparr>, sv_awaiting = []\<rparr>"

inductive server_reachable :: "nat \<Rightarrow> hooks \<Rightarrow> config \<Rightarrow> server \<Rightarrow> bool" for n H C where
  start: "server_reachable n H C new_server"
| turn: "server_reachable n H C s \<Longrightarrow> server_step n H C s s' \<Longrightarrow> server_reachable n H C s'"

inductive_cases server_step_cases: "server_step n H C s s'"

end
