(* ===== verification/Core_Invariants.thy ===== *)
theory Core_Invariants
  imports Core
begin

text \<open>
  What application code can and cannot do to the server's tables. \<open>calm w w'\<close> collects it:
  a script creates rooms without actors, empties and kills rooms that were registered, and
  leaves every other membership table as it was. Every script is calm, whatever it does and
  however deep its hooks nest; the invariants of the step relation follow from that.
\<close>

section \<open>Invariants of a world\<close>

text \<open>A registered room exists, carries its id and is alive.\<close>

definition registry_ok :: "world \<Rightarrow> bool" where
  "registry_ok w \<longleftrightarrow> (\<forall>rid r. jm_get (wd_rooms w) rid = Some r \<longrightarrow>
     r < length (wd_heap w) \<and> rm_id (wd_heap w ! r) = rid \<and> rm_alive (wd_heap w ! r))"

text \<open>No ghosts: an actor in a registered room is joined to that room.\<close>

definition no_ghosts :: "world \<Rightarrow> bool" where
  "no_ghosts w \<longleftrightarrow> (\<forall>rid r a. jm_get (wd_rooms w) rid = Some r \<longrightarrow> jm_has (rm_actors (wd_heap w ! r)) a \<longrightarrow>
     jm_get (wd_room_ids w) a = Some rid)"

definition rooms_bounded :: "world \<Rightarrow> bool" where
  "rooms_bounded w \<longleftrightarrow> (\<forall>r < length (wd_heap w). \<forall>m. rm_max (wd_heap w ! r) = Some m \<longrightarrow>
     length (rm_actors (wd_heap w ! r)) \<le> m)"

text \<open>A buffer is bounded, not empty, and exists only while nobody listens.\<close>

definition buffers_ok :: "world \<Rightarrow> bool" where
  "buffers_ok w \<longleftrightarrow> (\<forall>k q. jm_get (wd_pending w) k = Some q \<longrightarrow>
     length q \<le> max_pending_emits \<and> q \<noteq> [] \<and> listeners w k = [])"

section \<open>Emits\<close>

lemma emitter_emit_core [simp]:
  "wd_heap (emitter_emit k m w) = wd_heap w" "wd_rooms (emitter_emit k m w) = wd_rooms w"
  "wd_defs (emitter_emit k m w) = wd_defs w" "wd_room_ids (emitter_emit k m w) = wd_room_ids w"
  "wd_transports (emitter_emit k m w) = wd_transports w" "wd_pending (emitter_emit k m w) = wd_pending w"
  "wd_microtasks (emitter_emit k m w) = wd_microtasks w"
  by (simp_all add: emitter_emit_def)

lemma tl_emit_core [simp]:
  "wd_heap (tl_emit ev a m w) = wd_heap w" "wd_rooms (tl_emit ev a m w) = wd_rooms w"
  "wd_defs (tl_emit ev a m w) = wd_defs w" "wd_room_ids (tl_emit ev a m w) = wd_room_ids w"
  "wd_transports (tl_emit ev a m w) = wd_transports w" "wd_microtasks (tl_emit ev a m w) = wd_microtasks w"
  by (simp_all add: tl_emit_def Let_def)

lemma emitter_emit_listeners:
  "listeners (emitter_emit k m w) k' =
   (if k' = k then filter (\<lambda>(l, once). \<not> once) (listeners w k) else listeners w k')"
  by (simp add: emitter_emit_def listeners_def jm_get_set)

lemma emitter_emit_out: "\<exists>xs. wd_out (emitter_emit k m w) = wd_out w @ xs"
  by (simp add: emitter_emit_def)

lemma tl_emit_out: "\<exists>xs. wd_out (tl_emit ev a m w) = wd_out w @ xs"
  by (auto simp: tl_emit_def Let_def emitter_emit_def)

lemma emitter_emit_buffers: "buffers_ok w \<Longrightarrow> buffers_ok (emitter_emit k m w)"
  unfolding buffers_ok_def emitter_emit_listeners emitter_emit_core by auto

lemma tl_emit_quiet:
  "listeners w (ev, a) = [] \<Longrightarrow> tl_emit ev a m w =
     (if \<not> jm_has (wd_room_ids w) a then w
      else let queue = (case jm_get (wd_pending w) (ev, a) of Some q \<Rightarrow> q | None \<Rightarrow> [])
           in if length queue \<ge> max_pending_emits then w
              else w\<lparr>wd_pending := jm_set (wd_pending w) (ev, a) (queue @ [m])\<rparr>)"
  by (auto simp: tl_emit_def Let_def jm_has_def jm_get_set max_pending_emits_def split: option.splits)

lemma tl_emit_buffers:
  assumes "buffers_ok w"
  shows "buffers_ok (tl_emit ev a m w)"
proof (cases "listeners w (ev, a) = []")
  case False
  then have "tl_emit ev a m w = emitter_emit (ev, a) m w" by (simp add: tl_emit_def Let_def)
  with assms show ?thesis by (simp add: emitter_emit_buffers)
next
  case True
  define q where "q = (case jm_get (wd_pending w) (ev, a) of Some q \<Rightarrow> q | None \<Rightarrow> [])"
  have "buffers_ok (w\<lparr>wd_pending := jm_set (wd_pending w) (ev, a) (q @ [m])\<rparr>)" if "length q < max_pending_emits"
    using assms that True unfolding buffers_ok_def by (auto simp: jm_get_set listeners_def)
  with assms show ?thesis unfolding tl_emit_quiet [OF True] Let_def by (simp flip: q_def)
qed

section \<open>Calm steps\<close>

definition calm :: "world \<Rightarrow> world \<Rightarrow> bool" where
  "calm w w' \<longleftrightarrow> length (wd_heap w) \<le> length (wd_heap w') \<and>
     wd_room_ids w' = wd_room_ids w \<and> wd_transports w' = wd_transports w \<and>
     (\<forall>r < length (wd_heap w). rm_id (wd_heap w' ! r) = rm_id (wd_heap w ! r) \<and>
        rm_max (wd_heap w' ! r) = rm_max (wd_heap w ! r) \<and>
        (rm_actors (wd_heap w' ! r) = rm_actors (wd_heap w ! r) \<or> rm_actors (wd_heap w' ! r) = [])) \<and>
     (\<forall>r < length (wd_heap w). rm_alive (wd_heap w ! r) \<longrightarrow> \<not> rm_alive (wd_heap w' ! r) \<longrightarrow>
        (\<exists>rid. jm_get (wd_rooms w) rid = Some r)) \<and>
     (\<forall>r. length (wd_heap w) \<le> r \<longrightarrow> r < length (wd_heap w') \<longrightarrow> rm_actors (wd_heap w' ! r) = []) \<and>
     (\<forall>rid r. jm_get (wd_rooms w') rid = Some r \<longrightarrow> r < length (wd_heap w) \<longrightarrow> jm_get (wd_rooms w) rid = Some r) \<and>
     (\<forall>rid r. jm_get (wd_rooms w) rid = Some r \<longrightarrow> jm_get (wd_rooms w') rid = Some r \<or>
        (\<not> rm_alive (wd_heap w' ! r) \<and> rm_actors (wd_heap w' ! r) = [])) \<and>
     (\<forall>r < length (wd_heap w). \<not> rm_alive (wd_heap w ! r) \<longrightarrow> rm_actors (wd_heap w ! r) = [] \<longrightarrow>
        \<not> rm_alive (wd_heap w' ! r) \<and> rm_actors (wd_heap w' ! r) = []) \<and>
     (buffers_ok w \<longrightarrow> buffers_ok w') \<and> (\<exists>xs. wd_out w' = wd_out w @ xs)"

lemma calmI:
  assumes "length (wd_heap w) \<le> length (wd_heap w')"
    "wd_room_ids w' = wd_room_ids w" "wd_transports w' = wd_transports w"
    "\<And>r. r < length (wd_heap w) \<Longrightarrow> rm_id (wd_heap w' ! r) = rm_id (wd_heap w ! r) \<and>
        rm_max (wd_heap w' ! r) = rm_max (wd_heap w ! r) \<and>
        (rm_actors (wd_heap w' ! r) = rm_actors (wd_heap w ! r) \<or> rm_actors (wd_heap w' ! r) = [])"
    "\<And>r. r < length (wd_heap w) \<Longrightarrow> rm_alive (wd_heap w ! r) \<Longrightarrow> \<not> rm_alive (wd_heap w' ! r) \<Longrightarrow>
        \<exists>rid. jm_get (wd_rooms w) rid = Some r"
    "\<And>r. length (wd_heap w) \<le> r \<Longrightarrow> r < length (wd_heap w') \<Longrightarrow> rm_actors (wd_heap w' ! r) = []"
    "\<And>rid r. jm_get (wd_rooms w') rid = Some r \<Longrightarrow> r < length (wd_heap w) \<Longrightarrow> jm_get (wd_rooms w) rid = Some r"
    "\<And>rid r. jm_get (wd_rooms w) rid = Some r \<Longrightarrow> jm_get (wd_rooms w') rid = Some r \<or>
        (\<not> rm_alive (wd_heap w' ! r) \<and> rm_actors (wd_heap w' ! r) = [])"
    "\<And>r. r < length (wd_heap w) \<Longrightarrow> \<not> rm_alive (wd_heap w ! r) \<Longrightarrow> rm_actors (wd_heap w ! r) = [] \<Longrightarrow>
        \<not> rm_alive (wd_heap w' ! r) \<and> rm_actors (wd_heap w' ! r) = []"
    "buffers_ok w \<Longrightarrow> buffers_ok w'" "\<exists>xs. wd_out w' = wd_out w @ xs"
  shows "calm w w'"
  unfolding calm_def using assms by blast

lemma calm_len: "calm w w' \<Longrightarrow> length (wd_heap w) \<le> length (wd_heap w')"
  and calm_room_ids: "calm w w' \<Longrightarrow> wd_room_ids w' = wd_room_ids w"
  and calm_transports: "calm w w' \<Longrightarrow> wd_transports w' = wd_transports w"
  and calm_fields: "calm w w' \<Longrightarrow> r < length (wd_heap w) \<Longrightarrow> rm_id (wd_heap w' ! r) = rm_id (wd_heap w ! r) \<and>
        rm_max (wd_heap w' ! r) = rm_max (wd_heap w ! r) \<and>
        (rm_actors (wd_heap w' ! r) = rm_actors (wd_heap w ! r) \<or> rm_actors (wd_heap w' ! r) = [])"
  and calm_dies: "calm w w' \<Longrightarrow> r < length (wd_heap w) \<Longrightarrow> rm_alive (wd_heap w ! r) \<Longrightarrow>
        \<not> rm_alive (wd_heap w' ! r) \<Longrightarrow> \<exists>rid. jm_get (wd_rooms w) rid = Some r"
  and calm_fresh: "calm w w' \<Longrightarrow> length (wd_heap w) \<le> r \<Longrightarrow> r < length (wd_heap w') \<Longrightarrow> rm_actors (wd_heap w' ! r) = []"
  and calm_old: "calm w w' \<Longrightarrow> jm_get (wd_rooms w') rid = Some r \<Longrightarrow> r < length (wd_heap w) \<Longrightarrow>
        jm_get (wd_rooms w) rid = Some r"
  and calm_kept: "calm w w' \<Longrightarrow> jm_get (wd_rooms w) rid = Some r \<Longrightarrow> jm_get (wd_rooms w') rid = Some r \<or>
        (\<not> rm_alive (wd_heap w' ! r) \<and> rm_actors (wd_heap w' ! r) = [])"
  and calm_dead: "calm w w' \<Longrightarrow> r < length (wd_heap w) \<Longrightarrow> \<not> rm_alive (wd_heap w ! r) \<Longrightarrow>
        rm_actors (wd_heap w ! r) = [] \<Longrightarrow> \<not> rm_alive (wd_heap w' ! r) \<and> rm_actors (wd_heap w' ! r) = []"
  and calm_buffers: "calm w w' \<Longrightarrow> buffers_ok w \<Longrightarrow> buffers_ok w'"
  and calm_out: "calm w w' \<Longrightarrow> \<exists>xs. wd_out w' = wd_out w @ xs"
  unfolding calm_def by blast+

lemmas calm_membership = calm_room_ids calm_transports

lemma calm_frame:
  "wd_heap w' = wd_heap w \<Longrightarrow> wd_rooms w' = wd_rooms w \<Longrightarrow> wd_room_ids w' = wd_room_ids w \<Longrightarrow>
   wd_transports w' = wd_transports w \<Longrightarrow> (buffers_ok w \<Longrightarrow> buffers_ok w') \<Longrightarrow> \<exists>xs. wd_out w' = wd_out w @ xs \<Longrightarrow>
   calm w w'"
  by (rule calmI) simp_all

lemma calm_refl [simp, intro]: "calm w w"
  by (rule calm_frame) simp_all

lemma calm_trans:
  assumes 1: "calm u v" and 2: "calm v w" and ok: "registry_ok u"
  shows "calm u w"
proof (rule calmI)
  note len = calm_len [OF 1] calm_len [OF 2]
  show "length (wd_heap u) \<le> length (wd_heap w)" using len by simp
  show "wd_room_ids w = wd_room_ids u" "wd_transports w = wd_transports u"
    using calm_membership [OF 1] calm_membership [OF 2] by simp_all
  show "\<exists>xs. wd_out w = wd_out u @ xs" using calm_out [OF 1] calm_out [OF 2] by auto
  show "buffers_ok w" if "buffers_ok u" using calm_buffers [OF 2 calm_buffers [OF 1 that]] .
  fix r rid
  show "rm_id (wd_heap w ! r) = rm_id (wd_heap u ! r) \<and> rm_max (wd_heap w ! r) = rm_max (wd_heap u ! r) \<and>
      (rm_actors (wd_heap w ! r) = rm_actors (wd_heap u ! r) \<or> rm_actors (wd_heap w ! r) = [])"
    if "r < length (wd_heap u)"
    using calm_fields [OF 1 that] calm_fields [OF 2, of r] that len by fastforce
  show "\<exists>rid. jm_get (wd_rooms u) rid = Some r"
    if r: "r < length (wd_heap u)" "rm_alive (wd_heap u ! r)" "\<not> rm_alive (wd_heap w ! r)"
  proof (cases "rm_alive (wd_heap v ! r)")
    case True
    with calm_dies [OF 2, of r] r len obtain i where "jm_get (wd_rooms v) i = Some r" by auto
    from calm_old [OF 1 this r(1)] show ?thesis by blast
  next
    case False
    from calm_dies [OF 1 r(1,2) False] show ?thesis .
  qed
  show "rm_actors (wd_heap w ! r) = []" if r: "length (wd_heap u) \<le> r" "r < length (wd_heap w)"
  proof (cases "r < length (wd_heap v)")
    case True
    from calm_fresh [OF 1 r(1) True] calm_fields [OF 2 True] show ?thesis by auto
  next
    case False
    with calm_fresh [OF 2, of r] r show ?thesis by simp
  qed
  show "jm_get (wd_rooms u) rid = Some r" if "jm_get (wd_rooms w) rid = Some r" "r < length (wd_heap u)"
    using calm_old [OF 2 that(1)] calm_old [OF 1 _ that(2)] that(2) len by simp
  show "\<not> rm_alive (wd_heap w ! r) \<and> rm_actors (wd_heap w ! r) = []"
    if "r < length (wd_heap u)" "\<not> rm_alive (wd_heap u ! r)" "rm_actors (wd_heap u ! r) = []"
    using calm_dead [OF 1 that] calm_dead [OF 2, of r] that(1) len by simp
  show "jm_get (wd_rooms w) rid = Some r \<or> (\<not> rm_alive (wd_heap w ! r) \<and> rm_actors (wd_heap w ! r) = [])"
    if r: "jm_get (wd_rooms u) rid = Some r"
  proof -
    have "r < length (wd_heap u)" using ok r unfolding registry_ok_def by blast
    then have "r < length (wd_heap v)" using len by simp
    with calm_kept [OF 1 r] calm_kept [OF 2, of rid r] calm_dead [OF 2, of r] show ?thesis by blast
  qed
qed

section \<open>Framework operations are calm\<close>

lemma calm_emit: "calm w (tl_emit ev a m w)"
  by (rule calm_frame) (simp_all add: tl_emit_buffers tl_emit_out)

lemma registry_frame:
  "wd_heap w' = wd_heap w \<Longrightarrow> wd_rooms w' = wd_rooms w \<Longrightarrow> registry_ok w' = registry_ok w"
  by (simp add: registry_ok_def)

definition steady :: "world \<Rightarrow> world \<Rightarrow> bool" where
  "steady w w' \<longleftrightarrow> (registry_ok w \<longrightarrow> calm w w' \<and> registry_ok w')"

lemma steady_refl [simp, intro]: "steady w w"
  by (simp add: steady_def)

lemma steady_trans: "steady u v \<Longrightarrow> steady v w \<Longrightarrow> steady u w"
  by (simp add: steady_def calm_trans [of u v w])

lemma steady_frame: "calm w w' \<Longrightarrow> wd_heap w' = wd_heap w \<Longrightarrow> wd_rooms w' = wd_rooms w \<Longrightarrow> steady w w'"
  using registry_frame [of w' w] unfolding steady_def by blast

lemma steady_emit: "steady w (tl_emit ev a m w)"
  by (rule steady_frame) (simp_all add: calm_emit)

lemma steady_kick: "steady w (tl_kick a p w)"
  by (simp add: tl_kick_def steady_emit)

lemma steady_send: "steady w (fst (tl_send a topic p w))"
  by (cases "message_encode topic p") (simp_all add: tl_send_def steady_emit)

lemma steady_room_send: "steady w (fst (room_send r a topic p w))"
  by (simp add: room_send_def steady_send)

lemma steady_room_kick: "steady w (room_kick r a p w)"
  by (simp add: room_kick_def steady_kick)

lemma steady_send_each: "steady w (fst (send_each r as topic p w))"
proof (induction "as" arbitrary: w)
  case (Cons a "as")
  obtain v threw where v: "room_send r a topic p w = (v, threw)" by fastforce
  then have "steady w v" using steady_room_send [of w r a topic p] by simp
  with Cons [of v] show ?case by (auto simp: v intro: steady_trans)
qed simp

lemma steady_broadcast: "steady w (fst (room_broadcast r topic p w))"
  by (simp add: room_broadcast_def steady_send_each)

lemma upd_room_core [simp]:
  "wd_rooms (upd_room r f w) = wd_rooms w" "wd_room_ids (upd_room r f w) = wd_room_ids w"
  "wd_transports (upd_room r f w) = wd_transports w" "wd_listeners (upd_room r f w) = wd_listeners w"
  "wd_pending (upd_room r f w) = wd_pending w" "wd_microtasks (upd_room r f w) = wd_microtasks w"
  "wd_out (upd_room r f w) = wd_out w" "wd_defs (upd_room r f w) = wd_defs w"
  "length (wd_heap (upd_room r f w)) = length (wd_heap w)"
  by (simp_all add: upd_room_def)

lemma upd_room_nth:
  "q < length (wd_heap w) \<Longrightarrow> wd_heap (upd_room r f w) ! q = (if q = r then f (wd_heap w ! q) else wd_heap w ! q)"
  by (simp add: upd_room_def nth_list_update)

lemma buffers_frame:
  "wd_pending w' = wd_pending w \<Longrightarrow> wd_listeners w' = wd_listeners w \<Longrightarrow> buffers_ok w' = buffers_ok w"
  by (simp add: buffers_ok_def listeners_def)

lemma steady_upd:
  assumes "\<And>q. rm_id (f q) = rm_id q \<and> rm_max (f q) = rm_max q \<and> rm_actors (f q) = rm_actors q \<and> rm_alive (f q) = rm_alive q"
  shows "steady w (upd_room r f w)"
proof -
  have same: "rm_id (wd_heap (upd_room r f w) ! q) = rm_id (wd_heap w ! q)"
    "rm_max (wd_heap (upd_room r f w) ! q) = rm_max (wd_heap w ! q)"
    "rm_actors (wd_heap (upd_room r f w) ! q) = rm_actors (wd_heap w ! q)"
    "rm_alive (wd_heap (upd_room r f w) ! q) = rm_alive (wd_heap w ! q)" if "q < length (wd_heap w)" for q
    using that by (simp_all add: upd_room_nth assms)
  have "buffers_ok (upd_room r f w) = buffers_ok w" by (rule buffers_frame) simp_all
  then have "calm w (upd_room r f w)" by (intro calmI) (simp_all add: same)
  moreover have "registry_ok (upd_room r f w)" if "registry_ok w"
    using that same(1,4) unfolding registry_ok_def upd_room_core by simp
  ultimately show ?thesis by (simp add: steady_def)
qed

lemma steady_bind: "steady w (fst (room_bind r topic l w))"
  and steady_unbind: "steady w (fst (room_unbind r topic w))"
  and steady_bind_any: "steady w (fst (room_bind_any r l w))"
  and steady_unbind_any: "steady w (room_unbind_any r w)"
  and steady_joinable: "steady w (upd_room r (\<lambda>q. q\<lparr>rm_joinable := b\<rparr>) w)"
  by (auto simp: room_bind_def room_unbind_def room_bind_any_def room_unbind_any_def intro!: steady_upd)

lemma steady_fold: "(\<And>x v. steady v (f x v)) \<Longrightarrow> steady w (fold f xs w)"
  by (induction xs arbitrary: w) (auto intro: steady_trans)

section \<open>Scripts are steady\<close>

definition steady_run :: "(script \<Rightarrow> world \<Rightarrow> world \<times> bool) \<Rightarrow> bool" where
  "steady_run run \<longleftrightarrow> (\<forall>s v. steady v (fst (run s v)))"

lemma registry_okD:
  "registry_ok w \<Longrightarrow> jm_get (wd_rooms w) rid = Some r \<Longrightarrow>
   r < length (wd_heap w) \<and> rm_id (wd_heap w ! r) = rid \<and> rm_alive (wd_heap w ! r)"
  unfolding registry_ok_def by blast

lemma steadyD: "steady w w' \<Longrightarrow> registry_ok w \<Longrightarrow> calm w w' \<and> registry_ok w'"
  by (simp add: steady_def)

lemma steady_destroy_body:
  assumes run: "steady_run run"
  shows "steady w (fst (run (hk_destroy H (fold (\<lambda>a. room_kick r a p) as w) r) (fold (\<lambda>a. room_kick r a p) as w)))"
  using run steady_fold [of "\<lambda>a. room_kick r a p" w "as"] steady_room_kick
  unfolding steady_run_def by (blast intro: steady_trans)

lemma steady_manager_destroy:
  assumes run: "steady_run run"
  shows "steady w (fst (manager_destroy run H rid w))"
proof (cases "jm_get (wd_rooms w) rid")
  case None
  then show ?thesis by (simp add: manager_destroy_def)
next
  case (Some r)
  define w1 where "w1 = w\<lparr>wd_rooms := jm_delete (wd_rooms w) rid\<rparr>"
  define as where "as = jm_keys (rm_actors (wd_heap w1 ! r))"
  define kicked where "kicked = fold (\<lambda>a. room_kick r a (PText kick_room_destroyed)) as w1"
  define w3 where "w3 = fst (run (hk_destroy H kicked r) kicked)"
  define clear :: "room \<Rightarrow> room" where "clear = (\<lambda>q. q\<lparr>rm_actors := [], rm_topics := [], rm_wildcard := None, rm_alive := False\<rparr>)"
  define w5 where "w5 = (upd_room r clear w3)\<lparr>wd_out := wd_out w3 @ [Announce (js ''destroy'') rid]\<rparr>"
  have w5: "fst (manager_destroy run H rid w) = w5"
    using Some by (simp add: manager_destroy_def handle_destroy_def Let_def w5_def w3_def kicked_def as_def w1_def clear_def)
  have get1: "jm_get (wd_rooms w1) i = (if i = rid then None else jm_get (wd_rooms w) i)" for i
    by (simp add: w1_def jm_get_delete)
  show ?thesis unfolding w5 steady_def
  proof (intro impI conjI)
    assume ok: "registry_ok w"
    note r = registry_okD [OF ok Some]
    have heap1: "wd_heap w1 = wd_heap w" by (simp add: w1_def)
    have ok1: "registry_ok w1" using ok unfolding registry_ok_def get1 heap1 by auto
    have "steady w1 w3" unfolding w3_def kicked_def by (rule steady_destroy_body [OF run])
    then have c: "calm w1 w3" and ok3: "registry_ok w3" using steadyD [OF _ ok1] by blast+
    note len = calm_len [OF c, unfolded heap1]
    have rooms5: "wd_rooms w5 = wd_rooms w3" and len5: "length (wd_heap w5) = length (wd_heap w3)"
      by (simp_all add: w5_def)
    have heap5: "wd_heap w5 ! q = (if q = r then clear (wd_heap w3 ! q) else wd_heap w3 ! q)"
      if "q < length (wd_heap w3)" for q
      using that by (simp add: w5_def upd_room_nth)
    have not_r: "q \<noteq> r" if "jm_get (wd_rooms w3) i = Some q" for i q
    proof
      assume "q = r"
      with calm_old [OF c that] r heap1 have "jm_get (wd_rooms w1) i = Some r" by simp
      then have "i \<noteq> rid" "jm_get (wd_rooms w) i = Some r" by (auto simp: get1 split: if_splits)
      with registry_okD [OF ok] r show False by blast
    qed
    show "registry_ok w5"
      unfolding registry_ok_def
    proof (intro allI impI)
      fix i q assume "jm_get (wd_rooms w5) i = Some q"
      then have q: "jm_get (wd_rooms w3) i = Some q" by (simp add: rooms5)
      from registry_okD [OF ok3 q] not_r [OF q]
      show "q < length (wd_heap w5) \<and> rm_id (wd_heap w5 ! q) = i \<and> rm_alive (wd_heap w5 ! q)"
        by (simp add: heap5 len5)
    qed
    show "calm w w5"
    proof (rule calmI)
      show "length (wd_heap w) \<le> length (wd_heap w5)" using len len5 by simp
      show "wd_room_ids w5 = wd_room_ids w" "wd_transports w5 = wd_transports w"
        using calm_membership [OF c] by (simp_all add: w5_def w1_def)
      have "\<exists>xs. wd_out w3 = wd_out w @ xs" using calm_out [OF c] by (simp add: w1_def)
      then show "\<exists>xs. wd_out w5 = wd_out w @ xs" by (auto simp: w5_def)
      show "buffers_ok w5" if "buffers_ok w"
      proof -
        from that have "buffers_ok w1" by (simp add: buffers_ok_def listeners_def w1_def)
        from calm_buffers [OF c this] show ?thesis by (simp add: buffers_ok_def listeners_def w5_def)
      qed
      fix q i
      show "rm_id (wd_heap w5 ! q) = rm_id (wd_heap w ! q) \<and> rm_max (wd_heap w5 ! q) = rm_max (wd_heap w ! q) \<and>
        (rm_actors (wd_heap w5 ! q) = rm_actors (wd_heap w ! q) \<or> rm_actors (wd_heap w5 ! q) = [])"
        if "q < length (wd_heap w)"
        using calm_fields [OF c, unfolded heap1, OF that] that len by (auto simp: heap5 clear_def)
      show "\<exists>i. jm_get (wd_rooms w) i = Some q"
        if q: "q < length (wd_heap w)" "rm_alive (wd_heap w ! q)" "\<not> rm_alive (wd_heap w5 ! q)"
      proof (cases "q = r")
        case False
        with q len have "\<not> rm_alive (wd_heap w3 ! q)" by (simp add: heap5)
        from calm_dies [OF c, unfolded heap1, OF q(1,2) this] show ?thesis
          by (auto simp: get1 split: if_splits)
      qed (use Some in blast)
      show "rm_actors (wd_heap w5 ! q) = []" if "length (wd_heap w) \<le> q" "q < length (wd_heap w5)"
        using calm_fresh [OF c, unfolded heap1, OF that(1)] that(2) by (simp add: len5 heap5 clear_def)
      show "jm_get (wd_rooms w) i = Some q" if "jm_get (wd_rooms w5) i = Some q" "q < length (wd_heap w)"
        using calm_old [OF c, unfolded heap1, of i q] that by (simp add: rooms5 get1 split: if_splits)
      show "jm_get (wd_rooms w5) i = Some q \<or> (\<not> rm_alive (wd_heap w5 ! q) \<and> rm_actors (wd_heap w5 ! q) = [])"
        if i: "jm_get (wd_rooms w) i = Some q"
      proof -
        have "q < length (wd_heap w3)" using registry_okD [OF ok i] len by simp
        then show ?thesis using calm_kept [OF c, of i q] i Some
          by (cases "i = rid") (auto simp: get1 rooms5 heap5 clear_def)
      qed
      show "\<not> rm_alive (wd_heap w5 ! q) \<and> rm_actors (wd_heap w5 ! q) = []"
        if "q < length (wd_heap w)" "\<not> rm_alive (wd_heap w ! q)" "rm_actors (wd_heap w ! q) = []"
        using calm_dead [OF c, unfolded heap1, OF that] that(1) len by (auto simp: heap5 clear_def)
    qed
  qed
qed

lemma steady_manager_create:
  assumes run: "steady_run run"
  shows "steady w (fst (manager_create run H type rid w))"
proof (cases "\<exists>c. jm_get (wd_defs w) type = Some c \<and> \<not> jm_has (wd_rooms w) rid")
  case False
  then show ?thesis by (auto simp: manager_create_def split: option.splits)
next
  case True
  then obtain c where c: "jm_get (wd_defs w) type = Some c" "\<not> jm_has (wd_rooms w) rid" by blast
  define r where "r = length (wd_heap w)"
  define w1 where "w1 = w\<lparr>wd_heap := wd_heap w @ [new_room rid type c]\<rparr>"
  obtain w2 threw where w2: "run (hk_create H w1 r) w1 = (w2, threw)" by fastforce
  define w3 where "w3 = w2\<lparr>wd_rooms := jm_set (wd_rooms w2) rid r,
                     wd_out := wd_out w2 @ [Announce (js ''create'') rid]\<rparr>"
  have res: "fst (manager_create run H type rid w) = (if threw then w2 else w3)"
    using c by (simp add: manager_create_def Let_def w2 w3_def flip: w1_def r_def)
  show ?thesis unfolding res steady_def
  proof (intro impI)
    assume ok: "registry_ok w"
    have heap1: "wd_heap w1 ! q = (if q = r then new_room rid type c else wd_heap w ! q)"
      if "q < length (wd_heap w1)" for q
      using that by (auto simp: w1_def r_def nth_append)
    have len1: "length (wd_heap w1) = Suc r" and rooms1: "wd_rooms w1 = wd_rooms w"
      by (simp_all add: w1_def r_def)
    have ok1: "registry_ok w1"
      unfolding registry_ok_def rooms1
    proof (intro allI impI)
      fix i q assume "jm_get (wd_rooms w) i = Some q"
      from registry_okD [OF ok this] show "q < length (wd_heap w1) \<and> rm_id (wd_heap w1 ! q) = i \<and> rm_alive (wd_heap w1 ! q)"
        by (simp add: heap1 len1 r_def)
    qed
    have c1: "calm w w1"
    proof (rule calmI)
      show "buffers_ok w1" if "buffers_ok w" using that by (simp add: buffers_ok_def listeners_def w1_def)
    qed (auto simp: heap1 len1 rooms1 r_def new_room_def, simp_all add: w1_def nth_append)
    have "steady w1 w2" using run w2 unfolding steady_run_def by (metis fst_conv)
    then have c2: "calm w1 w2" and ok2: "registry_ok w2" using steadyD [OF _ ok1] by blast+
    have c02: "calm w w2" by (rule calm_trans [OF c1 c2 ok])
    show "calm w (if threw then w2 else w3) \<and> registry_ok (if threw then w2 else w3)"
    proof (cases threw)
      case False
      have len2: "Suc r \<le> length (wd_heap w2)" using calm_len [OF c2] len1 by simp
      have heap3: "wd_heap w3 = wd_heap w2" by (simp add: w3_def)
      have get3: "jm_get (wd_rooms w3) i = (if i = rid then Some r else jm_get (wd_rooms w2) i)" for i
        by (simp add: w3_def jm_get_set)
      have alive: "rm_alive (wd_heap w2 ! r)"
      proof (rule ccontr)
        assume "\<not> rm_alive (wd_heap w2 ! r)"
        with calm_dies [OF c2, of r] obtain i where "jm_get (wd_rooms w1) i = Some r"
          by (auto simp: len1 heap1 new_room_def)
        with registry_okD [OF ok, of i r] show False by (simp add: rooms1 r_def)
      qed
      have rid: "rm_id (wd_heap w2 ! r) = rid"
        using calm_fields [OF c2, of r] by (simp add: len1 heap1 new_room_def)
      have "registry_ok w3"
        unfolding registry_ok_def
      proof (intro allI impI)
        fix i q assume "jm_get (wd_rooms w3) i = Some q"
        then show "q < length (wd_heap w3) \<and> rm_id (wd_heap w3 ! q) = i \<and> rm_alive (wd_heap w3 ! q)"
          using registry_okD [OF ok2, of i q] alive rid len2 by (auto simp: get3 heap3 split: if_splits)
      qed
      moreover have "calm w w3"
      proof (rule calmI)
        show "\<exists>xs. wd_out w3 = wd_out w @ xs" using calm_out [OF c02] by (auto simp: w3_def)
        show "buffers_ok w3" if "buffers_ok w"
          using calm_buffers [OF c02 that] by (simp add: buffers_ok_def listeners_def w3_def)
        fix i q
        show "jm_get (wd_rooms w) i = Some q" if "jm_get (wd_rooms w3) i = Some q" "q < length (wd_heap w)"
          using calm_old [OF c02, of i q] that by (auto simp: get3 r_def split: if_splits)
        show "jm_get (wd_rooms w3) i = Some q \<or> (\<not> rm_alive (wd_heap w3 ! q) \<and> rm_actors (wd_heap w3 ! q) = [])"
          if "jm_get (wd_rooms w) i = Some q"
        proof -
          have "i \<noteq> rid" using c(2) that by (auto simp: jm_has_def)
          with calm_kept [OF c02 that] show ?thesis by (simp add: get3 heap3)
        qed
      qed (use calm_len [OF c02] calm_membership [OF c02] calm_fields [OF c02] calm_dies [OF c02]
            calm_fresh [OF c02] calm_dead [OF c02] in \<open>simp_all add: heap3, simp_all add: w3_def\<close>)
      ultimately show ?thesis using False by simp
    qed (use c02 ok2 in simp)
  qed
qed

lemma steady_run_action: "steady_run run \<Longrightarrow> steady w (fst (run_action run H act w))"
  by (cases act)
    (simp_all add: run_action_def steady_room_send steady_room_kick steady_broadcast steady_bind steady_unbind
      steady_bind_any steady_unbind_any steady_joinable steady_manager_destroy steady_manager_create room_destroy_def)

lemma steady_run_actions: "steady_run run \<Longrightarrow> steady w (fst (run_actions run H acts w))"
proof (induction acts arbitrary: w)
  case (Cons act acts)
  obtain v threw where v: "run_action run H act w = (v, threw)" by fastforce
  with steady_run_action [OF Cons.prems, of w H act] have "steady w v" by simp
  with Cons.IH [OF Cons.prems, of v] show ?case by (auto simp: v intro: steady_trans)
qed simp

lemma steady_run_script: "steady_run (run_script n H)"
proof (induction n)
  case (Suc n)
  show ?case unfolding steady_run_def
    using steady_run_actions [OF Suc.IH, where H = H] by (simp add: Let_def case_prod_beta)
qed (simp add: steady_run_def)

lemmas script_steady = steady_run_script [unfolded steady_run_def, rule_format]

end
