(* ===== verification/Core_Steps.thy ===== *)
theory Core_Steps
  imports Core_Invariants
begin

text \<open>
  The invariants of the server, operation by operation: joining, leaving, frames, admission,
  closing, microtasks and shutdown keep \<open>world_inv\<close>, whatever the application's hooks do.
  By rule induction they hold in every reachable state.
\<close>

definition world_inv :: "world \<Rightarrow> bool" where
  "world_inv w \<longleftrightarrow> registry_ok w \<and> no_ghosts w \<and> rooms_bounded w \<and> buffers_ok w"

definition absent :: "jsstr \<Rightarrow> world \<Rightarrow> bool" where
  "absent a w \<longleftrightarrow> (\<forall>rid r. jm_get (wd_rooms w) rid = Some r \<longrightarrow> \<not> jm_has (rm_actors (wd_heap w ! r)) a)"

lemma world_invD:
  "world_inv w \<Longrightarrow> registry_ok w" "world_inv w \<Longrightarrow> no_ghosts w"
  "world_inv w \<Longrightarrow> rooms_bounded w" "world_inv w \<Longrightarrow> buffers_ok w"
  by (simp_all add: world_inv_def)

lemma no_ghostsD:
  "no_ghosts w \<Longrightarrow> jm_get (wd_rooms w) rid = Some r \<Longrightarrow> jm_has (rm_actors (wd_heap w ! r)) a \<Longrightarrow>
   jm_get (wd_room_ids w) a = Some rid"
  unfolding no_ghosts_def by blast

text \<open>In a calm step a registered room keeps its actors or is new and empty.\<close>

lemma calm_members:
  assumes "calm w w'" "registry_ok w'" "jm_get (wd_rooms w') rid = Some r" "jm_has (rm_actors (wd_heap w' ! r)) a"
  shows "jm_get (wd_rooms w) rid = Some r \<and> jm_has (rm_actors (wd_heap w ! r)) a"
proof -
  have r: "r < length (wd_heap w')" using registry_okD [OF assms(2,3)] by simp
  have nonempty: "rm_actors (wd_heap w' ! r) \<noteq> []" using assms(4) by (auto simp: jm_has_def)
  with calm_fresh [OF assms(1) _ r] have "r < length (wd_heap w)" by (meson not_less)
  with calm_old [OF assms(1,3)] calm_fields [OF assms(1), of r] nonempty assms(4) show ?thesis by auto
qed

lemma world_inv_steady:
  assumes inv: "world_inv w" and st: "steady w w'"
  shows "world_inv w'"
proof -
  from steadyD [OF st world_invD(1) [OF inv]] have c: "calm w w'" and ok: "registry_ok w'" by blast+
  have "no_ghosts w'"
    unfolding no_ghosts_def
  proof (intro allI impI)
    fix rid r a
    assume "jm_get (wd_rooms w') rid = Some r" "jm_has (rm_actors (wd_heap w' ! r)) a"
    from calm_members [OF c ok this] have "jm_get (wd_rooms w) rid = Some r" "jm_has (rm_actors (wd_heap w ! r)) a"
      by blast+
    from no_ghostsD [OF world_invD(2) [OF inv] this] show "jm_get (wd_room_ids w') a = Some rid"
      by (simp add: calm_room_ids [OF c])
  qed
  moreover have "rooms_bounded w'"
    unfolding rooms_bounded_def
  proof (intro allI impI)
    fix r m assume r: "r < length (wd_heap w')" and m: "rm_max (wd_heap w' ! r) = Some m"
    show "length (rm_actors (wd_heap w' ! r)) \<le> m"
    proof (cases "r < length (wd_heap w)")
      case True
      with calm_fields [OF c True] m world_invD(3) [OF inv] show ?thesis
        unfolding rooms_bounded_def by auto
    next
      case False
      with calm_fresh [OF c, of r] r show ?thesis by simp
    qed
  qed
  ultimately show ?thesis using ok calm_buffers [OF c] inv by (simp add: world_inv_def)
qed

lemma absent_steady: "registry_ok w \<Longrightarrow> steady w w' \<Longrightarrow> absent a w \<Longrightarrow> absent a w'"
  using steadyD calm_members unfolding absent_def by blast

lemmas script_inv = world_inv_steady [OF _ script_steady]

section \<open>Listeners\<close>

lemma flush_emits:
  "wd_heap (fold (emitter_emit k) q w) = wd_heap w \<and> wd_rooms (fold (emitter_emit k) q w) = wd_rooms w \<and>
   wd_room_ids (fold (emitter_emit k) q w) = wd_room_ids w \<and>
   wd_transports (fold (emitter_emit k) q w) = wd_transports w \<and>
   wd_pending (fold (emitter_emit k) q w) = wd_pending w \<and>
   (buffers_ok w \<longrightarrow> buffers_ok (fold (emitter_emit k) q w)) \<and> (\<exists>xs. wd_out (fold (emitter_emit k) q w) = wd_out w @ xs)"
proof (induction q arbitrary: w)
  case (Cons m q)
  obtain xs where xs: "wd_out (emitter_emit k m w) = wd_out w @ xs" using emitter_emit_out by blast
  from Cons [of "emitter_emit k m w"] emitter_emit_buffers [of w k m] show ?case by (auto simp: xs)
qed simp

lemma steady_listen: "steady w (flush_pending k (add_listener k l w))"
proof (cases "jm_get (wd_pending w) k")
  case None
  have "buffers_ok (add_listener k l w)" if "buffers_ok w"
    using that None unfolding buffers_ok_def by (auto simp: add_listener_def listeners_def jm_get_set)
  with None show ?thesis
    by (intro steady_frame calm_frame) (simp_all add: flush_pending_def, simp_all add: add_listener_def)
next
  case (Some q)
  define v where "v = (add_listener k l w)\<lparr>wd_pending := jm_delete (wd_pending w) k\<rparr>"
  have v: "flush_pending k (add_listener k l w) = fold (emitter_emit k) q v"
    using Some by (simp add: flush_pending_def v_def add_listener_def)
  have "buffers_ok v" if "buffers_ok w"
    using that unfolding buffers_ok_def
    by (auto simp: v_def add_listener_def listeners_def jm_get_set jm_get_delete split: if_splits)
  then show ?thesis unfolding v
    using flush_emits [of k q v] by (intro steady_frame calm_frame) (auto simp: v_def add_listener_def)
qed

lemma steady_tl_on: "steady w (tl_on ev a l w)" and steady_tl_once: "steady w (tl_once ev a l w)"
  by (simp_all add: tl_on_def tl_once_def steady_listen)

lemma steady_forget: "steady w (forget_actor a w)"
proof -
  have "buffers_ok (forget_actor a w)" if "buffers_ok w"
    unfolding buffers_ok_def
  proof (intro allI impI)
    fix k q assume "jm_get (wd_pending (forget_actor a w)) k = Some q"
    then have k: "jm_get (wd_pending w) k = Some q" "k \<noteq> (EvMessage, a)" "k \<noteq> (EvKick, a)"
      by (auto simp: forget_actor_def jm_get_delete split: if_splits)
    then have "listeners (forget_actor a w) k = listeners w k"
      by (simp add: forget_actor_def listeners_def jm_get_delete)
    with that k(1) show "length q \<le> max_pending_emits \<and> q \<noteq> [] \<and> listeners (forget_actor a w) k = []"
      unfolding buffers_ok_def by metis
  qed
  then show ?thesis by (intro steady_frame calm_frame) (simp_all add: forget_actor_def)
qed

section \<open>Room operations\<close>

lemma steady_presence: "steady w (announce_presence H r a d topic w)"
  by (auto simp: announce_presence_def steady_broadcast split: option.splits)

lemma steady_out: "steady w (w\<lparr>wd_out := wd_out w @ xs\<rparr>)"
  by (intro steady_frame calm_frame) (simp_all add: buffers_ok_def listeners_def)

lemma steady_room_message: "steady w (room_handle_message n H r a topic p w)"
  using steady_trans [OF steady_out script_steady] steady_room_kick
  by (auto simp: room_handle_message_def Let_def split: option.splits policy.splits)

lemma steady_schedule: "steady w (schedule_destroy_on_empty r w)"
proof -
  have "steady w (upd_room r (\<lambda>q. q\<lparr>rm_scheduled := True\<rparr>) w)" by (rule steady_upd) simp
  moreover have "steady v (v\<lparr>wd_microtasks := ms\<rparr>)" for v ms
    by (intro steady_frame calm_frame) (simp_all add: buffers_ok_def listeners_def)
  ultimately show ?thesis by (auto simp: schedule_destroy_on_empty_def intro: steady_trans)
qed

lemma steady_destroy: "steady w (fst (manager_destroy (run_script n H) H rid w))"
  by (rule steady_manager_destroy [OF steady_run_script])

lemma steady_microtask: "steady w (run_microtask n H w)"
proof (cases "wd_microtasks w")
  case (Cons r rs)
  define v where "v = upd_room r (\<lambda>q. q\<lparr>rm_scheduled := False\<rparr>) (w\<lparr>wd_microtasks := rs\<rparr>)"
  have "steady w (w\<lparr>wd_microtasks := rs\<rparr>)"
    by (intro steady_frame calm_frame) (simp_all add: buffers_ok_def listeners_def)
  moreover have "steady (w\<lparr>wd_microtasks := rs\<rparr>) v" unfolding v_def by (rule steady_upd) simp
  ultimately have "steady w v" by (rule steady_trans)
  then show ?thesis
    using steady_trans [OF _ steady_destroy] by (simp add: run_microtask_def Cons Let_def flip: v_def)
qed (simp add: run_microtask_def)

lemma steady_shutdown: "steady w (shutdown_rooms n H w)"
  unfolding shutdown_rooms_def by (rule steady_fold) (rule steady_destroy)

lemma steady_define: "steady w (fst (manager_define type c w))"
proof (cases "jm_has (wd_defs w) type")
  case False
  then show ?thesis
    by (intro steady_frame calm_frame) (simp_all add: manager_define_def buffers_ok_def listeners_def)
qed (simp add: manager_define_def)

section \<open>Leaving\<close>

definition drop_ids :: "jsstr \<Rightarrow> world \<Rightarrow> world" where
  "drop_ids a w = w\<lparr>wd_room_ids := jm_delete (wd_room_ids w) a, wd_transports := jm_delete (wd_transports w) a\<rparr>"

lemma drop_ids_core [simp]:
  "wd_heap (drop_ids a w) = wd_heap w" "wd_rooms (drop_ids a w) = wd_rooms w"
  "wd_pending (drop_ids a w) = wd_pending w" "wd_listeners (drop_ids a w) = wd_listeners w"
  "wd_out (drop_ids a w) = wd_out w" "wd_microtasks (drop_ids a w) = wd_microtasks w"
  by (simp_all add: drop_ids_def)

lemma drop_ids_gone [simp]:
  "\<not> jm_has (wd_room_ids (drop_ids a w)) a" "\<not> jm_has (wd_transports (drop_ids a w)) a"
  by (simp_all add: drop_ids_def jm_has_delete)

lemma registry_drop: "registry_ok (drop_ids a w) = registry_ok w"
  by (simp add: registry_ok_def)

lemma drop_ids_inv:
  assumes "world_inv w" "absent a w"
  shows "world_inv (drop_ids a w)"
proof -
  have "no_ghosts (drop_ids a w)"
    unfolding no_ghosts_def
  proof (intro allI impI)
    fix rid r b assume b: "jm_get (wd_rooms (drop_ids a w)) rid = Some r" "jm_has (rm_actors (wd_heap (drop_ids a w) ! r)) b"
    with assms(2) have "b \<noteq> a" by (auto simp: absent_def)
    with no_ghostsD [OF world_invD(2) [OF assms(1)], of rid r b] b
    show "jm_get (wd_room_ids (drop_ids a w)) b = Some rid" by (simp add: drop_ids_def jm_get_delete)
  qed
  then show ?thesis using assms(1)
    by (simp add: world_inv_def registry_drop rooms_bounded_def buffers_ok_def listeners_def)
qed

definition remove_actor :: "nat \<Rightarrow> jsstr \<Rightarrow> world \<Rightarrow> world" where
  "remove_actor r a w = upd_room r (\<lambda>q. q\<lparr>rm_actors := jm_delete (rm_actors q) a\<rparr>) w"

lemma remove_actor_nth:
  "q < length (wd_heap w) \<Longrightarrow> wd_heap (remove_actor r a w) ! q =
     (if q = r then (wd_heap w ! q)\<lparr>rm_actors := jm_delete (rm_actors (wd_heap w ! q)) a\<rparr> else wd_heap w ! q)"
  by (simp add: remove_actor_def upd_room_nth)

lemma remove_actor_core [simp]:
  "wd_rooms (remove_actor r a w) = wd_rooms w" "wd_room_ids (remove_actor r a w) = wd_room_ids w"
  "wd_transports (remove_actor r a w) = wd_transports w" "wd_out (remove_actor r a w) = wd_out w"
  "wd_listeners (remove_actor r a w) = wd_listeners w" "wd_pending (remove_actor r a w) = wd_pending w"
  "length (wd_heap (remove_actor r a w)) = length (wd_heap w)"
  by (simp_all add: remove_actor_def)

lemma remove_actor_registry: "registry_ok w \<Longrightarrow> registry_ok (remove_actor r a w)"
  unfolding registry_ok_def by (simp add: remove_actor_nth)

lemma remove_actor_bounded: "rooms_bounded w \<Longrightarrow> rooms_bounded (remove_actor r a w)"
  unfolding rooms_bounded_def
  by (auto simp: remove_actor_nth intro: order_trans [OF length_delete_le])

lemma remove_actor_buffers: "buffers_ok (remove_actor r a w) = buffers_ok w"
  by (rule buffers_frame) simp_all

text \<open>The room that the actor is joined to is the only one that can hold it.\<close>

lemma absent_remove:
  assumes "registry_ok w" "no_ghosts w" "jm_get (wd_room_ids w) a = Some rid" "jm_get (wd_rooms w) rid = Some r"
  shows "absent a (remove_actor r a w)"
  unfolding absent_def
proof (intro allI impI notI)
  fix i q assume q: "jm_get (wd_rooms (remove_actor r a w)) i = Some q"
    and has: "jm_has (rm_actors (wd_heap (remove_actor r a w) ! q)) a"
  have "q < length (wd_heap w)" using registry_okD [OF assms(1), of i q] q by simp
  with has have "q \<noteq> r" "jm_has (rm_actors (wd_heap w ! q)) a"
    by (auto simp: remove_actor_nth jm_has_delete split: if_splits)
  with no_ghostsD [OF assms(2), of i q a] q assms(3,4) show False by auto
qed

lemma absent_if_unjoined:
  "no_ghosts w \<Longrightarrow> (\<And>rid. jm_get (wd_room_ids w) a = Some rid \<Longrightarrow> jm_get (wd_rooms w) rid = None) \<Longrightarrow> absent a w"
  unfolding absent_def using no_ghostsD by fastforce

lemma remove_actor_inv:
  assumes "world_inv w" "jm_get (wd_room_ids w) a = Some rid" "jm_get (wd_rooms w) rid = Some r"
  shows "world_inv (drop_ids a (remove_actor r a w))"
proof -
  note w = world_invD [OF assms(1)]
  have "no_ghosts (remove_actor r a w)"
    unfolding no_ghosts_def
  proof (intro allI impI)
    fix i q b assume q: "jm_get (wd_rooms (remove_actor r a w)) i = Some q"
      "jm_has (rm_actors (wd_heap (remove_actor r a w) ! q)) b"
    have "q < length (wd_heap w)" using registry_okD [OF w(1), of i q] q by simp
    with q have "jm_has (rm_actors (wd_heap w ! q)) b"
      by (auto simp: remove_actor_nth jm_has_delete split: if_splits)
    with no_ghostsD [OF w(2)] q show "jm_get (wd_room_ids (remove_actor r a w)) b = Some i" by simp
  qed
  then have "world_inv (remove_actor r a w)"
    using w by (simp add: world_inv_def remove_actor_registry remove_actor_bounded remove_actor_buffers)
  from drop_ids_inv [OF this absent_remove [OF w(1,2) assms(2,3)]] show ?thesis .
qed

lemma drop_remove: "remove_actor r a (drop_ids a w) = drop_ids a (remove_actor r a w)"
  by (simp add: remove_actor_def drop_ids_def upd_room_def)

lemma drop_removed_inv:
  assumes "world_inv w" "absent a w"
  shows "world_inv (drop_ids a (remove_actor r a w))"
proof -
  have "world_inv (remove_actor r a (drop_ids a w))"
  proof -
    note w = world_invD [OF drop_ids_inv [OF assms]]
    have "no_ghosts (remove_actor r a (drop_ids a w))"
      unfolding no_ghosts_def
    proof (intro allI impI)
      fix i q b assume q: "jm_get (wd_rooms (remove_actor r a (drop_ids a w))) i = Some q"
        "jm_has (rm_actors (wd_heap (remove_actor r a (drop_ids a w)) ! q)) b"
      have "q < length (wd_heap (drop_ids a w))" using registry_okD [OF w(1), of i q] q by simp
      with q have "jm_has (rm_actors (wd_heap (drop_ids a w) ! q)) b"
        by (auto simp: remove_actor_nth jm_has_delete split: if_splits)
      with no_ghostsD [OF w(2)] q show "jm_get (wd_room_ids (remove_actor r a (drop_ids a w))) b = Some i" by simp
    qed
    with w show ?thesis
      by (simp add: world_inv_def remove_actor_registry remove_actor_bounded remove_actor_buffers)
  qed
  then show ?thesis by (simp only: drop_remove)
qed

text \<open>Closing: the world just before the tables of the actor are forgotten.\<close>

definition leave_rest :: "nat \<Rightarrow> hooks \<Rightarrow> nat \<Rightarrow> jsstr \<Rightarrow> jsval \<Rightarrow> world \<Rightarrow> world" where
  "leave_rest n H r a d w =
     (let w = fst (run_script n H (hk_leave H w r a) w);
          w = announce_presence H r a d presence_leave_topic w
      in if rm_destroy_on_empty (wd_heap w ! r) \<and> rm_actors (wd_heap w ! r) = []
         then schedule_destroy_on_empty r w else w)"

lemma steady_leave_rest: "steady w (leave_rest n H r a d w)"
proof -
  have "steady w (announce_presence H r a d presence_leave_topic (fst (run_script n H (hk_leave H w r a) w)))"
    by (rule steady_trans [OF script_steady steady_presence])
  then show ?thesis
    using steady_trans [OF _ steady_schedule] by (simp add: leave_rest_def Let_def)
qed

lemma handle_leave_eq:
  "handle_leave n H r a w = (case jm_get (rm_actors (wd_heap w ! r)) a of
     None \<Rightarrow> w | Some d \<Rightarrow> leave_rest n H r a d (remove_actor r a w))"
  by (simp add: handle_leave_def leave_rest_def remove_actor_def Let_def split: option.split)

lemma close_inv:
  fixes a n H
  assumes inv: "world_inv w"
  defines "room \<equiv> (case jm_get (wd_room_ids w) a of None \<Rightarrow> None | Some rid \<Rightarrow> jm_get (wd_rooms w) rid)"
  defines "v \<equiv> (case room of None \<Rightarrow> drop_ids a w | Some r \<Rightarrow> handle_leave n H r a (drop_ids a w))"
  shows "world_inv v \<and> absent a v \<and> \<not> jm_has (wd_room_ids v) a \<and> \<not> jm_has (wd_transports v) a"
proof (cases room)
  case None
  then have "jm_get (wd_rooms w) rid = None" if "jm_get (wd_room_ids w) a = Some rid" for rid
    using that by (simp add: room_def)
  then have "absent a w" by (rule absent_if_unjoined [OF world_invD(2) [OF inv]])
  with None drop_ids_inv [OF inv] show ?thesis by (simp add: v_def absent_def)
next
  case (Some r)
  then obtain rid where rid: "jm_get (wd_room_ids w) a = Some rid" "jm_get (wd_rooms w) rid = Some r"
    by (auto simp: room_def split: option.splits)
  define u where "u = drop_ids a (remove_actor r a w)"
  have u: "world_inv u" unfolding u_def by (rule remove_actor_inv [OF inv rid])
  have absent: "absent a u"
    using absent_remove [OF world_invD(1,2) [OF inv] rid] by (simp add: u_def absent_def)
  show ?thesis
  proof (cases "jm_get (rm_actors (wd_heap w ! r)) a")
    case None
    have "absent a w"
      unfolding absent_def
    proof (intro allI impI notI)
      fix i q assume "jm_get (wd_rooms w) i = Some q" "jm_has (rm_actors (wd_heap w ! q)) a"
      with no_ghostsD [OF world_invD(2) [OF inv] this] rid None show False by (simp add: jm_has_def)
    qed
    with Some None drop_ids_inv [OF inv] show ?thesis by (simp add: v_def handle_leave_eq absent_def)
  next
    case (Some d)
    with \<open>room = Some r\<close> have v: "v = leave_rest n H r a d u"
      by (simp add: v_def handle_leave_eq u_def drop_remove)
    have st: "steady u v" unfolding v by (rule steady_leave_rest)
    from steadyD [OF st world_invD(1) [OF u]] have "calm u v" by simp
    then have "wd_room_ids v = wd_room_ids u" "wd_transports v = wd_transports u"
      by (rule calm_membership)+
    with world_inv_steady [OF u st] absent_steady [OF world_invD(1) [OF u] st absent] show ?thesis
      by (simp add: u_def)
  qed
qed

lemma handle_close_eq:
  "handle_close n H C a w =
     (let room = (case jm_get (wd_room_ids w) a of None \<Rightarrow> None | Some rid \<Rightarrow> jm_get (wd_rooms w) rid);
          v = forget_actor a (case room of None \<Rightarrow> drop_ids a w | Some r \<Rightarrow> handle_leave n H r a (drop_ids a w))
      in v\<lparr>wd_out := wd_out v @ (case limiter_of C (jm_get (wd_transports w) a) of None \<Rightarrow> [] | Some l \<Rightarrow> [Released l a])\<rparr>)"
  by (simp add: handle_close_def drop_ids_def Let_def split: option.split)

lemma handle_close_inv: "world_inv w \<Longrightarrow> world_inv (handle_close n H C a w)"
  unfolding handle_close_eq Let_def
  by (rule world_inv_steady [OF world_inv_steady [OF conjunct1 [OF close_inv] steady_forget] steady_out])

section \<open>Joining\<close>

lemma allocate_fresh: "allocate_actor_id w req candidates = Some a \<Longrightarrow> \<not> jm_has (wd_room_ids w) a"
  by (auto simp: allocate_actor_id_def Let_def dest: find_Some_in split: jsval.splits if_splits)

lemma grant_check_Inr:
  "grant_check w result candidates = Inr (r, rid, a) \<Longrightarrow>
   jm_get (wd_rooms w) rid = Some r \<and> \<not> jm_has (wd_room_ids w) a \<and> rm_joinable (wd_heap w ! r) \<and>
   (\<forall>m. rm_max (wd_heap w ! r) = Some m \<longrightarrow> length (rm_actors (wd_heap w ! r)) < m)"
  by (auto simp: grant_check_def dest: allocate_fresh split: option.splits if_splits jsval.splits)

definition admit :: "jsstr \<Rightarrow> jsstr \<Rightarrow> nat \<Rightarrow> nat option \<Rightarrow> jsval \<Rightarrow> world \<Rightarrow> world" where
  "admit a rid r transport d w =
     upd_room r (\<lambda>q. q\<lparr>rm_actors := jm_set (rm_actors q) a d\<rparr>)
       (case transport of
          None \<Rightarrow> w\<lparr>wd_room_ids := jm_set (wd_room_ids w) a rid\<rparr>
        | Some t \<Rightarrow> w\<lparr>wd_room_ids := jm_set (wd_room_ids w) a rid,
                    wd_transports := jm_set (wd_transports w) a t\<rparr>)"

lemma admit_core [simp]:
  "wd_rooms (admit a rid r tr d w) = wd_rooms w"
  "wd_room_ids (admit a rid r tr d w) = jm_set (wd_room_ids w) a rid"
  "wd_out (admit a rid r tr d w) = wd_out w" "wd_pending (admit a rid r tr d w) = wd_pending w"
  "wd_listeners (admit a rid r tr d w) = wd_listeners w"
  "length (wd_heap (admit a rid r tr d w)) = length (wd_heap w)"
  by (simp_all add: admit_def split: option.split)

lemma admit_nth:
  "q < length (wd_heap w) \<Longrightarrow> wd_heap (admit a rid r tr d w) ! q =
     (if q = r then (wd_heap w ! q)\<lparr>rm_actors := jm_set (rm_actors (wd_heap w ! q)) a d\<rparr> else wd_heap w ! q)"
  by (cases tr) (simp_all add: admit_def upd_room_nth)

lemma admit_inv:
  assumes inv: "world_inv w" and ok: "grant_check w result candidates = Inr (r, rid, a)"
  shows "world_inv (admit a rid r tr d w)"
proof -
  note w = world_invD [OF inv] and g = grant_check_Inr [OF ok]
  have r: "r < length (wd_heap w)" "rm_id (wd_heap w ! r) = rid" using registry_okD [OF w(1)] g by blast+
  have "absent a w" using g by (intro absent_if_unjoined [OF w(2)]) (simp add: jm_has_def)
  then have no: "jm_get (wd_rooms w) i = Some q \<Longrightarrow> \<not> jm_has (rm_actors (wd_heap w ! q)) a" for i q
    by (simp add: absent_def)
  have "registry_ok (admit a rid r tr d w)"
    using w(1) unfolding registry_ok_def by (simp add: admit_nth)
  moreover have "no_ghosts (admit a rid r tr d w)"
    unfolding no_ghosts_def
  proof (intro allI impI)
    fix i q b
    assume q: "jm_get (wd_rooms (admit a rid r tr d w)) i = Some q"
      and b: "jm_has (rm_actors (wd_heap (admit a rid r tr d w) ! q)) b"
    from q have q': "jm_get (wd_rooms w) i = Some q" by simp
    note q'' = registry_okD [OF w(1) q']
    show "jm_get (wd_room_ids (admit a rid r tr d w)) b = Some i"
    proof (cases "b = a")
      case True
      with no [OF q'] b q'' have "q = r" by (auto simp: admit_nth split: if_splits)
      with q'' r(2) True show ?thesis by (simp add: jm_get_set)
    next
      case False
      with b q'' have "jm_has (rm_actors (wd_heap w ! q)) b"
        by (auto simp: admit_nth jm_has_set split: if_splits)
      with no_ghostsD [OF w(2) q'] False show ?thesis by (simp add: jm_get_set)
    qed
  qed
  moreover have "rooms_bounded (admit a rid r tr d w)"
    using w(3) g unfolding rooms_bounded_def by (auto simp: admit_nth jm_size_set split: if_splits)
  moreover have "buffers_ok (admit a rid r tr d w) = buffers_ok w" by (rule buffers_frame) simp_all
  ultimately show ?thesis using w(4) by (simp add: world_inv_def)
qed

lemma grant_access_eq:
  "grant_access n H result tr candidates w = (case grant_check w result candidates of
     Inl e \<Rightarrow> (w, Inl e)
   | Inr (r, rid, a) \<Rightarrow>
       (let d = au_data (the result); v = admit a rid r tr d w;
            (u, threw) = run_script n H (hk_join H v r a) v
        in if threw then (forget_actor a (drop_ids a (remove_actor r a u)), Inl JoinThrew)
           else (announce_presence H r a d presence_join_topic u, Inr a)))"
proof (cases "grant_check w result candidates")
  case (Inr x)
  obtain r rid a where x: "x = (r, rid, a)" by (cases x)
  define v where "v = admit a rid r tr (au_data (the result)) w"
  obtain u threw where u: "run_script n H (hk_join H v r a) v = (u, threw)" by fastforce
  have "handle_join n H r a (au_data (the result))
      (case tr of None \<Rightarrow> w\<lparr>wd_room_ids := jm_set (wd_room_ids w) a rid\<rparr>
       | Some t \<Rightarrow> w\<lparr>wd_room_ids := jm_set (wd_room_ids w) a rid, wd_transports := jm_set (wd_transports w) a t\<rparr>) =
    (if threw then (remove_actor r a u, True)
     else (announce_presence H r a (au_data (the result)) presence_join_topic u, False))"
    using u unfolding handle_join_def v_def admit_def remove_actor_def Let_def by simp
  then show ?thesis using u unfolding v_def
    by (cases tr) (auto simp: grant_access_def Inr x Let_def drop_ids_def)
qed (simp add: grant_access_def)

lemma grant_inv:
  assumes inv: "world_inv w"
  shows "world_inv (fst (grant_access n H result tr candidates w))"
proof (cases "grant_check w result candidates")
  case (Inr x)
  obtain r rid a where x: "grant_check w result candidates = Inr (r, rid, a)" using Inr by (cases x) auto
  define v where "v = admit a rid r tr (au_data (the result)) w"
  have v: "world_inv v" unfolding v_def by (rule admit_inv [OF inv x])
  obtain u threw where u: "run_script n H (hk_join H v r a) v = (u, threw)" by fastforce
  have st: "steady v u" using script_steady [of v n H "hk_join H v r a"] u by simp
  have inv_u: "world_inv u" by (rule world_inv_steady [OF v st])
  from steadyD [OF st world_invD(1) [OF v]] have c: "calm v u" by blast
  show ?thesis
  proof (cases threw)
    case False
    have "world_inv (announce_presence H r a (au_data (the result)) presence_join_topic u)"
      by (rule world_inv_steady [OF inv_u steady_presence])
    with False show ?thesis by (simp add: grant_access_eq x u Let_def flip: v_def)
  next
    case True
    have ids: "jm_get (wd_room_ids u) a = Some rid"
      using calm_room_ids [OF c] by (simp add: v_def jm_get_set)
    have "world_inv (drop_ids a (remove_actor r a u))"
    proof (cases "jm_get (wd_rooms u) rid")
      case (Some q)
      show ?thesis
      proof (cases "q = r")
        case True
        with remove_actor_inv [OF inv_u ids Some] show ?thesis by simp
      next
        case False
        have "absent a u"
          unfolding absent_def
        proof (intro allI impI notI)
          fix i s assume s: "jm_get (wd_rooms u) i = Some s" "jm_has (rm_actors (wd_heap u ! s)) a"
          from no_ghostsD [OF world_invD(2) [OF inv_u] s] ids have "i = rid" by simp
          with calm_members [OF c world_invD(1) [OF inv_u] s] have "jm_get (wd_rooms w) rid = Some s"
            by (simp add: v_def)
          with grant_check_Inr [OF x] \<open>i = rid\<close> s(1) Some False show False by simp
        qed
        then show ?thesis by (rule drop_removed_inv [OF inv_u])
      qed
    next
      case None
      with ids have "absent a u" by (intro absent_if_unjoined [OF world_invD(2) [OF inv_u]]) simp
      then show ?thesis by (rule drop_removed_inv [OF inv_u])
    qed
    from world_inv_steady [OF this steady_forget] True show ?thesis
      by (simp add: grant_access_eq x u Let_def flip: v_def)
  qed
qed (simp add: grant_access_eq inv)

section \<open>Frames\<close>

lemma finish_inv:
  assumes inv: "world_inv w"
  shows "world_inv (handle_message_finish n H a topic p allowed w)"
proof (cases allowed)
  case False
  with inv show ?thesis
    by (simp add: handle_message_finish_def world_inv_steady [OF inv steady_kick])
next
  case True
  show ?thesis
  proof (cases "jm_get (wd_room_ids w) a")
    case (Some rid)
    show ?thesis
    proof (cases "jm_get (wd_rooms w) rid")
      case None
      with Some have "absent a w" by (intro absent_if_unjoined [OF world_invD(2) [OF inv]]) simp
      from world_invD [OF drop_ids_inv [OF inv this]]
      have "world_inv (w\<lparr>wd_room_ids := jm_delete (wd_room_ids w) a\<rparr>)"
        by (simp add: world_inv_def registry_ok_def no_ghosts_def rooms_bounded_def buffers_ok_def
            listeners_def drop_ids_def)
      with True Some None show ?thesis by (simp add: handle_message_finish_def)
    qed (use True Some world_inv_steady [OF inv steady_room_message] in \<open>simp add: handle_message_finish_def\<close>)
  qed (use True inv in \<open>simp add: handle_message_finish_def\<close>)
qed

lemma start_done_inv: "world_inv w \<Longrightarrow> handle_message_start C a frame w = MsgDone v \<Longrightarrow> world_inv v"
  using world_inv_steady [OF _ steady_kick]
  by (auto simp: handle_message_start_def Let_def split: sum.splits jsval.splits if_splits)

section \<open>Reachable servers\<close>

lemma step_inv: "server_step n H C s s' \<Longrightarrow> world_inv (sv_world s) \<Longrightarrow> world_inv (sv_world s')"
proof (induction rule: server_step.induct)
  case (frame_done a frame s w)
  then show ?case by (simp add: start_done_inv)
qed (simp_all add: grant_inv finish_inv handle_close_inv script_inv
    world_inv_steady [OF _ steady_tl_on] world_inv_steady [OF _ steady_tl_once]
    world_inv_steady [OF _ steady_microtask] world_inv_steady [OF _ steady_define]
    world_inv_steady [OF _ steady_shutdown])

lemma reachable_inv: "server_reachable n H C s \<Longrightarrow> world_inv (sv_world s)"
proof (induction rule: server_reachable.induct)
  case start
  show ?case
    by (simp add: world_inv_def new_server_def registry_ok_def no_ghosts_def rooms_bounded_def buffers_ok_def)
qed (rule step_inv)

end
