(* ===== verification/Core_Props.thy ===== *)
theory Core_Props
  imports Core_Steps
begin

unbundle bit_operations_syntax

text \<open>
  What the server core promises: consistent membership, bounded rooms and buffers, complete
  cleanup, atomic admission, delivery of frames to listeners and to transports in order, close
  reasons that stay valid UTF-8, and a shutdown that leaves no room alive.
\<close>

section \<open>Close reasons\<close>

lemma high_bits_range: "n < 256 \<Longrightarrow> n AND 0xC0 = 0xC0 \<longleftrightarrow> 0xC0 \<le> (n :: nat)"
proof -
  assume n: "n < 256"
  define P where "P n \<longleftrightarrow> (n AND 0xC0 = 0xC0 \<longleftrightarrow> 0xC0 \<le> n)" for n :: nat
  have "list_all P (0 # 1 # [2..<256])" unfolding P_def by (simp add: upt_rec_numeral)
  moreover have "n \<in> set (0 # 1 # [2..<256])"
    using n by (simp only: list.set set_upt insert_iff atLeastLessThan_iff simp_thms) linarith
  ultimately have "P n" unfolding list_all_iff by blast
  then show ?thesis by (simp add: P_def)
qed

lemma close_masks:
  "n < 256 \<Longrightarrow> (word_of_nat n :: byte) AND 0x80 = 0 \<longleftrightarrow> n < 0x80"
  "n < 256 \<Longrightarrow> (word_of_nat n :: byte) AND 0xC0 = 0xC0 \<longleftrightarrow> 0xC0 \<le> n"
  by (simp_all add: and_mask_eq first_byte_ranges high_bits_range)

lemma close_end_numeral:
  "close_end p (numeral k) =
     (if p ! pred_numeral k AND 0x80 = 0 then numeral k
      else if p ! pred_numeral k AND 0xC0 = 0xC0 then pred_numeral k
      else close_end p (pred_numeral k))"
  by (simp add: numeral_eq_Suc)

text \<open>The first byte of a code point is ASCII or a lead byte, every other one a continuation.\<close>

lemma point_first_byte:
  assumes "scalar_value c"
  shows "point_bytes c ! 0 AND 0x80 = 0 \<longleftrightarrow> length (point_bytes c) = 1"
    and "length (point_bytes c) \<noteq> 1 \<Longrightarrow> point_bytes c ! 0 AND 0xC0 = 0xC0"
proof -
  have "c < 0x800 \<Longrightarrow> c div 64 < 32" "c < 0x10000 \<Longrightarrow> c div 4096 < 16" "c div 262144 < 8"
    using assms by (auto simp: scalar_value_def div_less_iff_less_mult)
  then show "point_bytes c ! 0 AND 0x80 = 0 \<longleftrightarrow> length (point_bytes c) = 1"
    and "length (point_bytes c) \<noteq> 1 \<Longrightarrow> point_bytes c ! 0 AND 0xC0 = 0xC0"
    by (auto simp: point_bytes_def utf8_point_def close_masks simp del: of_nat_add)
qed

lemma continuation_byte: "\<exists>x < 64. (word_of_nat (128 + d mod 64) :: byte) = word_of_nat (128 + x)"
  by (rule exI [of _ "d mod 64"]) simp

lemma point_next_byte:
  assumes "0 < j" "j < length (point_bytes c)"
  shows "\<not> point_bytes c ! j AND 0x80 = 0" "\<not> point_bytes c ! j AND 0xC0 = 0xC0"
proof -
  have "\<exists>x < 64. point_bytes c ! j = word_of_nat (0x80 + x)"
    using assms by (auto simp: point_bytes_def utf8_point_def nth_Cons less_Suc_eq numeral_2_eq_2
        intro: continuation_byte simp del: of_nat_add split: if_splits)
  then obtain x where "x < 64" "point_bytes c ! j = word_of_nat (0x80 + x)" by blast
  then show "\<not> point_bytes c ! j AND 0x80 = 0" "\<not> point_bytes c ! j AND 0xC0 = 0xC0"
    using close_masks [of "0x80 + x"] by simp_all
qed

lemma close_end_point:
  assumes "scalar_value c"
  shows "j < length (point_bytes c) \<Longrightarrow> close_end (pre @ point_bytes c @ post) (Suc (length pre + j)) =
    (if length (point_bytes c) = 1 then Suc (length pre) else length pre)"
proof (induction j)
  case 0
  then show ?case using point_first_byte [OF assms] by (simp add: nth_append)
next
  case (Suc j)
  have "length (point_bytes c) \<noteq> 1" using Suc.prems by simp
  with Suc point_next_byte [of "Suc j" c] show ?case by (simp add: nth_append)
qed

lemma position_in_point:
  "i < length (points_bytes cs) \<Longrightarrow> \<exists>k j. k < length cs \<and> i = length (points_bytes (take k cs)) + j \<and>
     j < length (point_bytes (cs ! k))"
proof (induction cs arbitrary: i)
  case (Cons c cs)
  show ?case
  proof (cases "i < length (point_bytes c)")
    case True
    then show ?thesis by (intro exI [of _ 0] exI [of _ i]) simp
  next
    case False
    with Cons.prems have "i - length (point_bytes c) < length (points_bytes cs)" by simp
    from Cons.IH [OF this] obtain k j where "k < length cs"
      "i - length (point_bytes c) = length (points_bytes (take k cs)) + j" "j < length (point_bytes (cs ! k))" by blast
    with False show ?thesis by (intro exI [of _ "Suc k"] exI [of _ j]) auto
  qed
qed simp

lemma close_end_boundary:
  assumes "list_all scalar_value cs" "n \<le> length (points_bytes cs)"
  shows "\<exists>k. close_end (points_bytes cs) n = length (points_bytes (take k cs)) \<and>
    close_end (points_bytes cs) n \<le> n \<and> n \<le> close_end (points_bytes cs) n + 4"
proof (cases n)
  case 0
  then show ?thesis by (intro exI [of _ 0]) simp
next
  case (Suc i)
  with assms(2) position_in_point [of i cs] obtain k j where k: "k < length cs"
    "i = length (points_bytes (take k cs)) + j" "j < length (point_bytes (cs ! k))" by auto
  have split: "points_bytes cs = points_bytes (take k cs) @ point_bytes (cs ! k) @ points_bytes (drop (Suc k) cs)"
    using k(1) by (metis append_take_drop_id concat.simps(2) concat_append Cons_nth_drop_Suc list.simps(9) map_append)
  have "scalar_value (cs ! k)" using assms(1) k(1) by (simp add: list_all_length)
  from close_end_point [OF this k(3), of "points_bytes (take k cs)" "points_bytes (drop (Suc k) cs)"]
  have e: "close_end (points_bytes cs) n =
      (if length (point_bytes (cs ! k)) = 1 then Suc (length (points_bytes (take k cs)))
       else length (points_bytes (take k cs)))"
    unfolding split [symmetric] by (simp add: Suc k(2))
  show ?thesis
  proof (cases "length (point_bytes (cs ! k)) = 1")
    case True
    then have "length (points_bytes (take (Suc k) cs)) = Suc (length (points_bytes (take k cs)))"
      using k(1) by (simp add: take_Suc_conv_app_nth)
    with e True k Suc show ?thesis
      by (intro exI [of _ "Suc k"]) (auto simp del: close_end.simps)
  next
    case False
    with e k Suc point_bytes_length [of "cs ! k"] show ?thesis
      by (intro exI [of _ k]) (auto simp del: close_end.simps)
  qed
qed

lemma truncate_close_reason_text:
  assumes "well_formed s"
  shows "\<exists>r rest. s = r @ rest \<and> well_formed r \<and> truncate_close_reason (text_encode s) = text_encode r \<and>
    length (text_encode r) \<le> max_close_reason_bytes \<and>
    (rest \<noteq> [] \<longrightarrow> max_close_reason_bytes \<le> length (text_encode r) + 4) \<and>
    (length (text_encode s) \<le> max_close_reason_bytes \<longrightarrow> rest = [])"
proof (cases "length (text_encode s) \<le> max_close_reason_bytes")
  case True
  with assms show ?thesis by (intro exI [of _ s] exI [of _ "[]"]) (simp add: truncate_close_reason_def)
next
  case False
  define cs where "cs = utf16_points (map unat s)"
  have sc: "list_all scalar_value cs" unfolding cs_def by (rule utf16_points_scalar) (rule unat_units_bound)
  have buf: "text_encode s = points_bytes cs" by (simp add: text_encode_concat cs_def)
  from close_end_boundary [OF sc, of max_close_reason_bytes] False buf obtain k where
    k: "close_end (points_bytes cs) max_close_reason_bytes = length (points_bytes (take k cs))"
      "length (points_bytes (take k cs)) \<le> max_close_reason_bytes"
      "max_close_reason_bytes \<le> length (points_bytes (take k cs)) + 4" by auto
  have sct: "list_all scalar_value (take k cs)" using sc by (auto simp: list_all_iff dest: in_set_takeD)
  have enc: "text_encode (of_points (take k cs)) = points_bytes (take k cs)"
    by (simp add: text_encode_concat points_of_points [OF sct])
  have "points_bytes cs = points_bytes (take k cs) @ points_bytes (drop k cs)"
    by (simp flip: concat_append map_append)
  then have "take (length (points_bytes (take k cs))) (points_bytes cs) = points_bytes (take k cs)" by simp
  with False have t: "truncate_close_reason (text_encode s) = points_bytes (take k cs)"
    unfolding truncate_close_reason_def buf by (simp add: k(1))
  have "s = of_points cs" using assms by (simp add: cs_def of_points_points)
  then have "s = of_points (take k cs) @ of_points (drop k cs)" by (simp flip: of_points_append)
  with t enc k(2,3) False well_formed_of_points [OF sct] show ?thesis
    by (intro exI [of _ "of_points (take k cs)"] exI [of _ "of_points (drop k cs)"]) simp
qed

section \<open>Buffered emits\<close>

lemma emit_buffered:
  assumes "jm_has (wd_room_ids w) a" "listeners w (ev, a) = []" "jm_get (wd_pending w) (ev, a) = Some q"
  shows "tl_emit ev a m w =
    (if length q \<ge> max_pending_emits then w else w\<lparr>wd_pending := jm_set (wd_pending w) (ev, a) (q @ [m])\<rparr>)"
  using assms by (simp add: tl_emit_quiet)

lemma emits_buffered:
  assumes "jm_has (wd_room_ids w) a" "listeners w (ev, a) = []" "length q \<le> max_pending_emits"
    and "case jm_get (wd_pending w) (ev, a) of None \<Rightarrow> q = [] | Some p \<Rightarrow> p = q"
  shows "(case jm_get (wd_pending (fold (tl_emit ev a) ms w)) (ev, a) of None \<Rightarrow> [] | Some p \<Rightarrow> p) =
      take max_pending_emits (q @ ms) \<and>
    wd_out (fold (tl_emit ev a) ms w) = wd_out w \<and>
    listeners (fold (tl_emit ev a) ms w) (ev, a) = [] \<and>
    wd_room_ids (fold (tl_emit ev a) ms w) = wd_room_ids w"
  using assms
proof (induction ms arbitrary: w q)
  case Nil
  then show ?case by (auto split: option.splits)
next
  case (Cons m ms)
  have q: "q = (case jm_get (wd_pending w) (ev, a) of None \<Rightarrow> [] | Some p \<Rightarrow> p)"
    using Cons.prems(4) by (auto split: option.splits)
  show ?case
  proof (cases "length q \<ge> max_pending_emits")
    case True
    with Cons.prems q have "tl_emit ev a m w = w" by (auto simp: tl_emit_quiet Let_def split: option.splits)
    with Cons.IH [OF Cons.prems] True show ?thesis by simp
  next
    case False
    define v where "v = w\<lparr>wd_pending := jm_set (wd_pending w) (ev, a) (q @ [m])\<rparr>"
    have v: "tl_emit ev a m w = v"
      using False Cons.prems(1,2) q by (auto simp: tl_emit_quiet Let_def v_def split: option.splits)
    have "listeners v (ev, a) = []" using Cons.prems(2) by (simp add: v_def listeners_def)
    with Cons.IH [of v "q @ [m]"] Cons.prems(1) False show ?thesis
      by (simp add: v) (simp add: v_def jm_get_set)
  qed
qed

lemma flush_to_listener:
  "listeners w k = [(l, False)] \<Longrightarrow>
   listeners (fold (emitter_emit k) q w) k = [(l, False)] \<and>
   wd_out (fold (emitter_emit k) q w) = wd_out w @ map (Deliver (fst k) (snd k) l) q"
proof (induction q arbitrary: w)
  case (Cons m q)
  have "listeners (emitter_emit k m w) k = [(l, False)]" using Cons.prems by (simp add: emitter_emit_listeners)
  from Cons.IH [OF this] Cons.prems show ?case by (simp add: emitter_emit_def)
qed simp

section \<open>Shutdown\<close>

definition dead_room :: "nat \<Rightarrow> world \<Rightarrow> bool" where
  "dead_room r w \<longleftrightarrow> \<not> rm_alive (wd_heap w ! r) \<and> rm_actors (wd_heap w ! r) = []"

lemma destroy_kills:
  assumes ok: "registry_ok w" and r: "jm_get (wd_rooms w) rid = Some r"
  shows "dead_room r (fst (manager_destroy (run_script n H) H rid w))"
proof -
  define w1 where "w1 = w\<lparr>wd_rooms := jm_delete (wd_rooms w) rid\<rparr>"
  define kicked where "kicked = fold (\<lambda>a. room_kick r a (PText kick_room_destroyed)) (jm_keys (rm_actors (wd_heap w1 ! r))) w1"
  define w3 where "w3 = fst (run_script n H (hk_destroy H kicked r) kicked)"
  have "registry_ok w1" using ok by (auto simp: registry_ok_def w1_def jm_get_delete split: if_splits)
  moreover have "steady w1 w3" unfolding w3_def kicked_def by (rule steady_destroy_body [OF steady_run_script])
  ultimately have "calm w1 w3" using steadyD by blast
  then have "r < length (wd_heap w3)" using calm_len registry_okD [OF ok r] by (fastforce simp: w1_def)
  then show ?thesis using r
    by (simp add: manager_destroy_def handle_destroy_def Let_def dead_room_def upd_room_nth
        flip: w1_def kicked_def w3_def)
qed

lemma shutdown_kills:
  "registry_ok w \<Longrightarrow> r < length (wd_heap w) \<Longrightarrow> dead_room r w \<or> rid \<in> set ks \<and> jm_get (wd_rooms w) rid = Some r \<Longrightarrow>
   dead_room r (fold (\<lambda>rid w. fst (manager_destroy (run_script n H) H rid w)) ks w)"
proof (induction ks arbitrary: w)
  case (Cons k ks)
  define v where "v = fst (manager_destroy (run_script n H) H k w)"
  have st: "steady w v" unfolding v_def by (rule steady_destroy)
  from steadyD [OF st Cons.prems(1)] have c: "calm w v" and ok: "registry_ok v" by blast+
  have "r < length (wd_heap v)" using calm_len [OF c] Cons.prems(2) by simp
  moreover have "dead_room r v \<or> rid \<in> set ks \<and> jm_get (wd_rooms v) rid = Some r"
  proof (cases "dead_room r w")
    case True
    with calm_dead [OF c Cons.prems(2)] show ?thesis by (simp add: dead_room_def)
  next
    case False
    with Cons.prems(3) have rid: "rid \<in> set (k # ks)" "jm_get (wd_rooms w) rid = Some r" by auto
    show ?thesis
    proof (cases "rid = k")
      case True
      with destroy_kills [OF Cons.prems(1) rid(2)] show ?thesis by (simp add: v_def)
    next
      case False
      with rid calm_kept [OF c rid(2)] show ?thesis by (auto simp: dead_room_def)
    qed
  qed
  ultimately show ?case using Cons.IH [OF ok] by (simp flip: v_def)
qed simp

section \<open>A small server\<close>

text \<open>One room with space for two, application code that does nothing, one actor.\<close>

definition idle_hooks :: hooks where
  "idle_hooks = \<lparr>hk_create = \<lambda>_ _. ([], False), hk_join = \<lambda>_ _ _. ([], False), hk_leave = \<lambda>_ _ _. ([], False),
     hk_destroy = \<lambda>_ _. ([], False), hk_topic = \<lambda>_ _ _ _ _ _. ([], False), hk_presence = \<lambda>_ _ _ _. None\<rparr>"

definition plain_config :: config where
  "plain_config = \<lparr>cf_max_topic = 256, cf_max_payload = 65536, cf_limiter = Some 7, cf_transport_limiter = \<lambda>_. None\<rparr>"

definition duo_class :: room_class where
  "duo_class = \<lparr>rc_presence = False, rc_policy = PolicyKick, rc_max = Some 2, rc_joinable = True, rc_destroy_on_empty = False\<rparr>"

definition ann_auth :: auth_result where
  "ann_auth = \<lparr>au_data = JNull, au_room = JStr [1], au_actor = JUndef\<rparr>"

definition small_world :: world where
  "small_world =
     \<lparr>wd_heap = [\<lparr>rm_id = [1], rm_type = [2], rm_presence = False, rm_policy = PolicyKick, rm_max = Some 2,
        rm_joinable = True, rm_destroy_on_empty = False, rm_topics = [([3], 5)], rm_wildcard = None,
        rm_actors = [([9], JNull)], rm_alive = True, rm_scheduled = False\<rparr>],
      wd_rooms = [([1], 0)], wd_defs = [([2], duo_class)], wd_room_ids = [([9], [1])], wd_transports = [([9], 0)],
      wd_listeners = [], wd_pending = [], wd_microtasks = [],
      wd_out = [Announce (js ''define'') [2], Announce (js ''create'') [1]]\<rparr>"

definition small_server :: server where
  "small_server = \<lparr>sv_world = small_world, sv_awaiting = []\<rparr>"

lemma run_script_numeral:
  "run_script (numeral k) H s w =
     (let (w, threw) = run_actions (run_script (pred_numeral k) H) H (fst s) w in (w, threw \<or> snd s))"
  by (simp add: numeral_eq_Suc)

lemma small_reachable: "server_reachable 2 idle_hooks plain_config small_server"
proof -
  let ?n = "2 :: nat"
  let ?s1 = "new_server\<lparr>sv_world := fst (manager_define [2] duo_class (sv_world new_server))\<rparr>"
  let ?s2 = "?s1\<lparr>sv_world := fst (run_script ?n idle_hooks ([ACreate [2] [1], ABind 0 [3] 5], False) (sv_world ?s1))\<rparr>"
  let ?s3 = "?s2\<lparr>sv_world := fst (grant_access ?n idle_hooks (Some ann_auth) (Some 0) [[9]] (sv_world ?s2))\<rparr>"
  have "server_reachable ?n idle_hooks plain_config ?s3"
    by (rule server_reachable.turn [OF server_reachable.turn [OF server_reachable.turn
          [OF server_reachable.start server_step.define_class] server_step.application] server_step.grant])
  moreover have "?s3 = small_server"
    by (simp add: new_server_def manager_define_def run_script_numeral run_action_def manager_create_def new_room_def
        idle_hooks_def Let_def grant_access_def grant_check_def is_object_type_def ann_auth_def duo_class_def
        allocate_actor_id_def jm_has_def handle_join_def upd_room_def announce_presence_def small_server_def
        small_world_def room_bind_def bindable_def js_eval)
  ultimately show ?thesis by simp
qed

section \<open>Properties\<close>

text \<open>C14: no ghosts. In every reachable state, whatever the application's hooks did (throw, send, kick,
  destroy and recreate rooms), an actor held by a registered room is joined to exactly that
  room, so it is in no other one; and every id in the manager's map names a live room of that
  id.\<close>

theorem members_are_joined:
  assumes "server_reachable n H C s" "jm_get (wd_rooms (sv_world s)) rid = Some r"
    and "jm_has (rm_actors (wd_heap (sv_world s) ! r)) a"
  shows "jm_get (wd_room_ids (sv_world s)) a = Some rid \<and> rm_id (wd_heap (sv_world s) ! r) = rid \<and>
    rm_alive (wd_heap (sv_world s) ! r) \<and>
    (\<forall>rid' r'. jm_get (wd_rooms (sv_world s)) rid' = Some r' \<and> jm_has (rm_actors (wd_heap (sv_world s) ! r')) a \<longrightarrow>
       rid' = rid)"
proof -
  note inv = world_invD [OF reachable_inv [OF assms(1)]]
  show ?thesis
    using no_ghostsD [OF inv(2) assms(2,3)] registry_okD [OF inv(1) assms(2)] no_ghostsD [OF inv(2)] by fastforce
qed

text \<open>C15: room capacity and the buffers are bounded. In every reachable state no room holds more actors
  than its class allows, no pre-listener buffer holds more than 256 frames, and a buffer exists
  only while no listener is registered for its key.\<close>

theorem capacity_bounded:
  assumes "server_reachable n H C s"
  shows "(\<forall>r < length (wd_heap (sv_world s)). \<forall>m. rm_max (wd_heap (sv_world s) ! r) = Some m \<longrightarrow>
      length (rm_actors (wd_heap (sv_world s) ! r)) \<le> m) \<and>
    (\<forall>k q. jm_get (wd_pending (sv_world s)) k = Some q \<longrightarrow>
      length q \<le> 256 \<and> q \<noteq> [] \<and> listeners (sv_world s) k = [])"
  using reachable_inv [OF assms]
  by (simp add: world_inv_def rooms_bounded_def buffers_ok_def max_pending_emits_def)

text \<open>C16: a closed connection leaves nothing behind. After \<open>handleClose\<close> in any reachable state, even
  when the room's hooks throw, the actor has no room id, no transport, no listener and no
  buffered frame, it is in no registered room, and its rate limiter was released last, by the
  transport's limiter or else the server's.\<close>

theorem close_is_complete:
  assumes "server_reachable n H C s"
  shows "let w = sv_world s; v = handle_close n H C a w in
    \<not> jm_has (wd_room_ids v) a \<and> \<not> jm_has (wd_transports v) a \<and>
    (\<forall>ev. listeners v (ev, a) = [] \<and> \<not> jm_has (wd_pending v) (ev, a)) \<and> absent a v \<and>
    (\<forall>l. limiter_of C (jm_get (wd_transports w) a) = Some l \<longrightarrow> last (wd_out v) = Released l a)"
proof -
  define w where "w = sv_world s"
  define room where "room = (case jm_get (wd_room_ids w) a of None \<Rightarrow> None | Some rid \<Rightarrow> jm_get (wd_rooms w) rid)"
  define u where "u = (case room of None \<Rightarrow> drop_ids a w | Some r \<Rightarrow> handle_leave n H r a (drop_ids a w))"
  have u: "absent a u" "\<not> jm_has (wd_room_ids u) a" "\<not> jm_has (wd_transports u) a"
    using close_inv [OF reachable_inv [OF assms], where a = a and n = n and H = H]
    unfolding u_def room_def w_def by blast+
  have close: "handle_close n H C a w = (forget_actor a u)\<lparr>wd_out := wd_out (forget_actor a u) @
      (case limiter_of C (jm_get (wd_transports w) a) of None \<Rightarrow> [] | Some l \<Rightarrow> [Released l a])\<rparr>"
    by (simp add: handle_close_eq Let_def u_def room_def)
  have "listeners (forget_actor a u) (ev, a) = [] \<and> \<not> jm_has (wd_pending (forget_actor a u)) (ev, a)" for ev
    by (cases ev) (simp_all add: forget_actor_def listeners_def jm_get_delete jm_has_delete)
  with u show ?thesis
    by (simp add: Let_def close flip: w_def) (simp add: absent_def forget_actor_def listeners_def)
qed

text \<open>C17: admission is atomic. In any reachable state, a refused ticket (bad auth result, missing, closed
  or full room, no free id, a throwing \<open>onJoin\<close>) leaves every actor's room id as it was, and every
  refusal before \<open>onJoin\<close> leaves the whole world as it was; an accepted one adds exactly one actor,
  under an id no joined actor had, in the room the middleware named.\<close>

theorem admission_is_atomic:
  assumes "server_reachable n H C s"
  shows "case grant_access n H result tr candidates (sv_world s) of
      (v, Inl e) \<Rightarrow> (e \<noteq> JoinThrew \<longrightarrow> v = sv_world s) \<and>
        jm_get (wd_room_ids v) = jm_get (wd_room_ids (sv_world s))
    | (v, Inr a) \<Rightarrow> (\<exists>au rid r. result = Some au \<and> au_room au = JStr rid \<and>
        jm_get (wd_rooms (sv_world s)) rid = Some r \<and> rm_joinable (wd_heap (sv_world s) ! r) \<and>
        jm_get (wd_room_ids (sv_world s)) a = None \<and>
        jm_get (wd_room_ids v) = (jm_get (wd_room_ids (sv_world s)))(a \<mapsto> rid))"
proof -
  define w where "w = sv_world s"
  have inv: "world_inv w" using reachable_inv [OF assms] by (simp add: w_def)
  show ?thesis
  proof (cases "grant_check w result candidates")
    case (Inr x)
    obtain r rid a where x: "grant_check w result candidates = Inr (r, rid, a)" using Inr by (cases x) auto
    define v where "v = admit a rid r tr (au_data (the result)) w"
    obtain u threw where u: "run_script n H (hk_join H v r a) v = (u, threw)" by fastforce
    have v: "world_inv v" unfolding v_def by (rule admit_inv [OF inv x])
    have "steady v u" using script_steady [of v n H "hk_join H v r a"] u by simp
    from steadyD [OF this world_invD(1) [OF v]] have c: "calm v u" and ok: "registry_ok u" by blast+
    have fresh: "jm_get (wd_room_ids w) a = None" using grant_check_Inr [OF x] by (simp add: jm_has_def)
    have ids: "jm_get (wd_room_ids u) = (jm_get (wd_room_ids w))(a \<mapsto> rid)"
      by (rule ext) (simp add: calm_room_ids [OF c] v_def jm_get_set)
    have "calm u (announce_presence H r a d t u)" for d t using steadyD [OF steady_presence ok] by blast
    then have ids': "wd_room_ids (announce_presence H r a d t u) = wd_room_ids u" for d t
      by (rule calm_room_ids)
    have gone: "jm_get (wd_room_ids (forget_actor a (drop_ids a (remove_actor r a u)))) = jm_get (wd_room_ids w)"
      by (rule ext) (simp add: forget_actor_def drop_ids_def jm_get_delete ids fresh)
    have res: "\<exists>au. result = Some au \<and> au_room au = JStr rid"
      using x by (auto simp: grant_check_def split: option.splits if_splits jsval.splits)
    show ?thesis
      using grant_check_Inr [OF x] fresh res gone ids
      by (cases threw) (simp_all add: grant_access_eq x u Let_def ids' flip: w_def v_def, blast)
  qed (simp add: grant_access_eq flip: w_def)
qed

theorem members_are_joined_witness: "jm_get (wd_room_ids small_world) [9] = Some [1]"
  using members_are_joined [OF small_reachable, of "[1]" 0 "[9]"]
  by (simp add: small_server_def small_world_def jm_has_def)

theorem capacity_bounded_witness: "length (rm_actors (wd_heap small_world ! 0)) \<le> 2"
  using capacity_bounded [OF small_reachable] by (simp add: small_server_def small_world_def)

theorem close_is_complete_witness:
  "last (wd_out (handle_close 2 idle_hooks plain_config [9] small_world)) = Released 7 [9]"
  using close_is_complete [OF small_reachable, of "[9]"]
  by (simp add: small_server_def Let_def limiter_of_def small_world_def plain_config_def)

theorem admission_is_atomic_witness:
  "fst (grant_access 2 idle_hooks None None [] small_world) = small_world"
  using admission_is_atomic [OF small_reachable, of None None "[]"]
  by (simp add: small_server_def grant_access_def grant_check_def)

text \<open>The calls of topic listeners so far. Application code makes none: scripts send, kick, bind,
  create and destroy, and only a dispatched frame calls a listener.\<close>

definition invocations :: "world \<Rightarrow> observation list" where
  "invocations w = filter (\<lambda>x. case x of Invoke _ _ _ _ _ \<Rightarrow> True | _ \<Rightarrow> False) (wd_out w)"

lemma invocations_out:
  "wd_out w' = wd_out w \<Longrightarrow> invocations w' = invocations w"
  "invocations (w\<lparr>wd_out := wd_out v @ [Announce e rid]\<rparr>) = invocations v"
  "invocations (w\<lparr>wd_rooms := m, wd_out := wd_out v @ [Announce e rid]\<rparr>) = invocations v"
  by (simp_all add: invocations_def)

lemma invocations_emit [simp]: "invocations (tl_emit ev a m w) = invocations w"
  by (auto simp: tl_emit_def Let_def emitter_emit_def invocations_def filter_empty_conv)

lemma invocations_room [simp]: "invocations (upd_room r f w) = invocations w"
  by (rule invocations_out) simp

lemma invocations_send [simp]:
  "invocations (fst (room_send r a topic p w)) = invocations w" "invocations (room_kick r a p w) = invocations w"
  by (simp_all add: room_send_def tl_send_def room_kick_def tl_kick_def split: sum.split)

lemma invocations_send_each [simp]: "invocations (fst (send_each r as topic p w)) = invocations w"
proof (induction "as" arbitrary: w)
  case (Cons a "as")
  obtain v threw where v: "room_send r a topic p w = (v, threw)" by fastforce
  with Cons.IH [of v] invocations_send(1) [of r a topic p w] show ?case by simp
qed simp

lemma invocations_kicks: "invocations (fold (\<lambda>a. room_kick r a p) as w) = invocations w"
  by (induction "as" arbitrary: w) simp_all

lemma invocations_destroy:
  assumes "\<And>s v. invocations (fst (run s v)) = invocations v"
  shows "invocations (fst (manager_destroy run H rid w)) = invocations w"
proof (cases "jm_get (wd_rooms w) rid")
  case (Some r)
  then show ?thesis
    by (simp add: manager_destroy_def handle_destroy_def Let_def invocations_out(2) assms invocations_kicks)
      (rule invocations_out(1), simp)
qed (simp add: manager_destroy_def)

lemma invocations_create:
  assumes "\<And>s v. invocations (fst (run s v)) = invocations v"
  shows "invocations (fst (manager_create run H type rid w)) = invocations w"
proof (cases "jm_get (wd_defs w) type")
  case (Some c)
  let ?w = "w\<lparr>wd_heap := wd_heap w @ [new_room rid type c]\<rparr>"
  obtain v threw where v: "run (hk_create H ?w (length (wd_heap w))) ?w = (v, threw)" by fastforce
  have "invocations v = invocations ?w" using assms [of _ ?w] v by (metis fst_conv)
  also have "\<dots> = invocations w" by (rule invocations_out(1)) simp
  finally show ?thesis using Some by (simp add: manager_create_def Let_def v invocations_out(3))
qed (simp add: manager_create_def)

lemma invocations_action:
  assumes "\<And>s v. invocations (fst (run s v)) = invocations v"
  shows "invocations (fst (run_action run H act w)) = invocations w"
  by (cases act)
    (simp_all add: run_action_def room_broadcast_def room_bind_def room_unbind_def room_bind_any_def room_unbind_any_def
      room_destroy_def invocations_destroy [OF assms] invocations_create [OF assms])

lemma invocations_actions:
  assumes "\<And>s v. invocations (fst (run s v)) = invocations v"
  shows "invocations (fst (run_actions run H acts w)) = invocations w"
proof (induction acts arbitrary: w)
  case (Cons act acts)
  obtain v threw where v: "run_action run H act w = (v, threw)" by fastforce
  with Cons.IH [of v] invocations_action [where run = run, OF assms, of H act w] show ?case by simp
qed simp

lemma invocations_script: "invocations (fst (run_script n H s w)) = invocations w"
proof (induction n arbitrary: s w)
  case (Suc n)
  from invocations_actions [OF Suc.IH] show ?case by (simp add: Let_def case_prod_beta)
qed simp

text \<open>C18: a well-formed frame reaches its listener, once, unchanged. In any reachable state, a frame
  encoded from a topic and payload within the limits, from an actor that is joined to a room
  with a listener on that topic, passes every check. Once the limiter allows it, the topic's
  listener is invoked with exactly that topic and payload before anything else happens, and that
  is the only invocation: neither it nor the wildcard listener runs again, and what follows is
  what the listener itself does. If the limiter refuses the frame, no listener runs and the
  sender is kicked.\<close>

theorem frame_reaches_listener:
  assumes "server_reachable n H C s" "message_sendable (topic, p)"
    and "length topic \<le> cf_max_topic C" "length p \<le> cf_max_payload C"
    and "jm_get (wd_room_ids (sv_world s)) a = Some rid" "jm_get (wd_rooms (sv_world s)) rid = Some r"
    and "jm_has (rm_actors (wd_heap (sv_world s) ! r)) a" "jm_get (rm_topics (wd_heap (sv_world s) ! r)) topic = Some l"
  defines "v \<equiv> (sv_world s)\<lparr>wd_out := wd_out (sv_world s) @ [Invoke r l a p topic]\<rparr>"
  shows "handle_message_start C a (message_bytes topic p) (sv_world s) =
      MsgContinue (limiter_of C (jm_get (wd_transports (sv_world s)) a)) topic p \<and>
    handle_message_finish n H a topic p True (sv_world s) = fst (run_script n H (hk_topic H v r l a p topic) v) \<and>
    (\<exists>xs. wd_out (handle_message_finish n H a topic p True (sv_world s)) =
       wd_out (sv_world s) @ Invoke r l a p topic # xs) \<and>
    invocations (handle_message_finish n H a topic p True (sv_world s)) =
      invocations (sv_world s) @ [Invoke r l a p topic] \<and>
    handle_message_finish n H a topic p False (sv_world s) = tl_kick a (text_encode kick_rate_limited) (sv_world s) \<and>
    invocations (handle_message_finish n H a topic p False (sv_world s)) = invocations (sv_world s)"
proof -
  define w where "w = sv_world s"
  have v: "v = w\<lparr>wd_out := wd_out w @ [Invoke r l a p topic]\<rparr>" by (simp add: v_def w_def)
  have get: "get_prop (message_object topic p) (js ''topic'') = JStr topic"
    "get_prop (message_object topic p) (js ''payload'') = JBytes p"
    by (simp_all add: message_object_def get_prop_def js_eval)
  have start: "handle_message_start C a (message_bytes topic p) w =
      MsgContinue (limiter_of C (jm_get (wd_transports w) a)) topic p"
    using assms(3-5) message_encode_decode(2) [OF assms(2)]
    by (simp add: handle_message_start_def Let_def get w_def jm_has_def)
  have fin: "handle_message_finish n H a topic p True w = fst (run_script n H (hk_topic H v r l a p topic) v)"
    using assms(5-8) by (simp add: handle_message_finish_def room_handle_message_def Let_def v w_def)
  have "registry_ok v"
    using world_invD(1) [OF reachable_inv [OF assms(1)]] by (simp add: registry_ok_def v w_def)
  then have "calm v (fst (run_script n H (hk_topic H v r l a p topic) v))"
    using steadyD [OF script_steady] by blast
  from calm_out [OF this] have "\<exists>xs. wd_out (handle_message_finish n H a topic p True w) = wd_out w @ Invoke r l a p topic # xs"
    by (auto simp: fin v)
  moreover have "invocations (handle_message_finish n H a topic p True w) = invocations w @ [Invoke r l a p topic]"
    unfolding fin invocations_script by (simp add: v invocations_def)
  ultimately show ?thesis using start fin by (simp add: handle_message_finish_def tl_kick_def flip: w_def)
qed

theorem frame_reaches_listener_witness:
  "invocations (handle_message_finish 2 idle_hooks [9] [3] [1, 2] True small_world) =
     invocations small_world @ [Invoke 0 5 [9] [1, 2] [3]]"
proof -
  have "message_sendable ([3], [1, 2])"
    by (simp add: message_sendable_def message_bytes_def conforms_eval encode_eval)
  moreover have "sv_world small_server = small_world" by (simp add: small_server_def)
  moreover have "length [3] \<le> cf_max_topic plain_config" "length [1, 2] \<le> cf_max_payload plain_config"
    "jm_get (wd_room_ids small_world) [9] = Some [1]" "jm_get (wd_rooms small_world) [1] = Some 0"
    "jm_has (rm_actors (wd_heap small_world ! 0)) [9]" "jm_get (rm_topics (wd_heap small_world ! 0)) [3] = Some 5"
    by (simp_all add: plain_config_def small_world_def jm_has_def)
  ultimately show ?thesis
    using frame_reaches_listener [OF small_reachable, of "[3]" "[1, 2]" "[9]" "[1]" 0 5] by metis
qed

text \<open>C19: frames emitted before the transport listens are delivered in order when it does. For a joined
  actor without listeners and buffer, any sequence of emits (the sends of \<open>onJoin\<close>) produces
  nothing, and registering the listener delivers the first 256 of them in the order they were
  sent, before any later frame, and leaves no buffer.\<close>

theorem early_frames_in_order:
  assumes "jm_has (wd_room_ids w) a" "listeners w (ev, a) = []" "jm_get (wd_pending w) (ev, a) = None"
  shows "let v = fold (tl_emit ev a) ms w; u = tl_on ev a l v in
    wd_out v = wd_out w \<and> wd_out u = wd_out w @ map (Deliver ev a l) (take 256 ms) \<and>
    \<not> jm_has (wd_pending u) (ev, a) \<and>
    wd_out (tl_emit ev a m u) = wd_out u @ [Deliver ev a l m]"
proof -
  define v where "v = fold (tl_emit ev a) ms w"
  define u where "u = tl_on ev a l v"
  from emits_buffered [OF assms(1,2), of "[]" ms] assms(3) have v:
    "(case jm_get (wd_pending v) (ev, a) of None \<Rightarrow> [] | Some p \<Rightarrow> p) = take max_pending_emits ms"
    "wd_out v = wd_out w" "listeners v (ev, a) = []"
    by (simp_all add: v_def)
  define q where "q = (case jm_get (wd_pending v) (ev, a) of None \<Rightarrow> [] | Some p \<Rightarrow> p)"
  define v' where "v' = (add_listener (ev, a) (l, False) v)\<lparr>wd_pending := jm_delete (wd_pending v) (ev, a)\<rparr>"
  have l: "listeners v' (ev, a) = [(l, False)]"
    using v(3) by (simp add: v'_def add_listener_def listeners_def jm_get_set)
  have u: "u = fold (emitter_emit (ev, a)) q v'"
  proof (cases "jm_get (wd_pending v) (ev, a)")
    case None
    then have "jm_delete (wd_pending v) (ev, a) = wd_pending v" by (simp add: jm_delete_absent jm_has_def)
    with None show ?thesis by (simp add: u_def tl_on_def flush_pending_def q_def v'_def add_listener_def)
  qed (simp add: u_def tl_on_def flush_pending_def q_def v'_def add_listener_def)
  have out: "wd_out u = wd_out w @ map (Deliver ev a l) (take 256 ms)" and lu: "listeners u (ev, a) = [(l, False)]"
    using flush_to_listener [OF l, of q] v(1,2)
    by (simp_all add: u q_def max_pending_emits_def) (simp_all add: v'_def add_listener_def)
  have "\<not> jm_has (wd_pending u) (ev, a)"
    using flush_emits [of "(ev, a)" q v'] by (simp add: u v'_def jm_has_delete)
  moreover have "wd_out (tl_emit ev a m u) = wd_out u @ [Deliver ev a l m]"
    using lu by (simp add: tl_emit_def Let_def emitter_emit_def)
  ultimately show ?thesis using out v(2) by (simp add: Let_def flip: v_def u_def)
qed

theorem early_frames_in_order_witness:
  "wd_out (tl_on EvMessage [9] 4 (fold (tl_emit EvMessage [9]) [[1], [2]] small_world)) =
   wd_out small_world @ [Deliver EvMessage [9] 4 [1], Deliver EvMessage [9] 4 [2]]"
  using early_frames_in_order [of small_world "[9]" EvMessage "[[1], [2]]" 4]
  by (simp add: small_world_def jm_has_def listeners_def Let_def)

text \<open>C20: shutdown destroys every room. From any reachable state, and whatever the \<open>onDestroy\<close> hooks
  do (destroy other rooms, create new ones, throw), every room that was registered when the
  shutdown began is dead and empty at its end.\<close>

theorem shutdown_destroys_rooms:
  assumes "server_reachable n H C s" "jm_get (wd_rooms (sv_world s)) rid = Some r"
  shows "\<not> rm_alive (wd_heap (shutdown_rooms n H (sv_world s)) ! r) \<and>
    rm_actors (wd_heap (shutdown_rooms n H (sv_world s)) ! r) = []"
proof -
  note ok = world_invD(1) [OF reachable_inv [OF assms(1)]]
  have "rid \<in> set (jm_keys (wd_rooms (sv_world s)))"
    using assms(2) by (metis jm_has_iff_keys jm_has_def option.distinct(1))
  with shutdown_kills [OF ok _ disjI2 [OF conjI]] registry_okD [OF ok assms(2)] assms(2) show ?thesis
    by (auto simp: shutdown_rooms_def dead_room_def)
qed

theorem shutdown_destroys_rooms_witness:
  "\<not> rm_alive (wd_heap (shutdown_rooms 2 idle_hooks small_world) ! 0)"
  using shutdown_destroys_rooms [OF small_reachable, of "[1]" 0] by (simp add: small_server_def small_world_def)

text \<open>A close reason stays valid UTF-8. Truncating the encoding of any well-formed reason gives the
  encoding of a prefix of it, at most 123 bytes, never cut inside a code point; a reason that
  fits is sent whole and a longer one keeps at least 119 bytes.\<close>

lemma close_reason_is_prefix:
  assumes "well_formed reason"
  shows "\<exists>r rest. reason = r @ rest \<and> well_formed r \<and>
    truncate_close_reason (text_encode reason) = text_encode r \<and> length (text_encode r) \<le> 123 \<and>
    (rest \<noteq> [] \<longrightarrow> 119 \<le> length (text_encode r)) \<and>
    (length (text_encode reason) \<le> 123 \<longrightarrow> rest = [])"
proof -
  from truncate_close_reason_text [OF assms] obtain r rest where r: "reason = r @ rest" "well_formed r"
    "truncate_close_reason (text_encode reason) = text_encode r" "length (text_encode r) \<le> 123"
    "rest \<noteq> [] \<longrightarrow> 123 \<le> length (text_encode r) + 4" "length (text_encode reason) \<le> 123 \<longrightarrow> rest = []"
    unfolding max_close_reason_bytes_def by blast
  from r(5) have "rest \<noteq> [] \<longrightarrow> 119 \<le> length (text_encode r)" by linarith
  with r show ?thesis by blast
qed

lemma close_reason_sample:
  "\<exists>r rest. js ''room_full'' = r @ rest \<and> rest = [] \<and> truncate_close_reason (text_encode (js ''room_full'')) = text_encode r"
proof -
  have "well_formed (js ''room_full'')" "length (text_encode (js ''room_full'')) \<le> 123"
    by (simp_all add: js_eval well_formed_def is_high_def is_low_def text_encode_def utf8_point_def)
  with close_reason_is_prefix [of "js ''room_full''"] show ?thesis by blast
qed

section \<open>Observations\<close>

text \<open>A frame without a topic (for one, the empty frame) is not kicked as malformed: decoding gives an
  object without the field, and reading its length throws. The rejection happens before the
  membership check and the rate limiter.\<close>

lemma empty_frame_throws: "handle_message_start C a [] w = MsgThrow"
  by (simp add: handle_message_start_def message_decode_def decode_message_def fields_of_def message_schema_def
      get_prop_def Let_def)

text \<open>Bytes that are not UTF-8 may be cut to a reason that is not UTF-8 either: the boundary search
  stops at the first byte with two high bits.\<close>

lemma malformed_reason_stays_malformed:
  "truncate_close_reason (replicate 124 0xFF) = replicate 122 0xFF"
  by (simp add: truncate_close_reason_def max_close_reason_bytes_def close_end_numeral)

end
