(* ===== verification/Fleet_RoomId.thy ===== *)
theory Fleet_RoomId
  imports Utf8_Truncate
begin

text \<open>
  Room ids of the fleet (\<open>fleet/src/domain/roomId.ts\<close>): the charset check, the percent
  encoding of ids that game code invents, and the namespacing of colliding ids. The lemmas show
  that an encoded id is URL-safe and free of the namespace separator, that encoding is injective
  on well-formed strings, and that a namespaced id determines its two parts.
\<close>

section \<open>Definitions\<close>

text \<open>\<open>/[A-Za-z0-9_-]/\<close> on a code unit.\<close>

definition room_id_char :: "nat \<Rightarrow> bool" where
  "room_id_char c \<longleftrightarrow>
     65 \<le> c \<and> c \<le> 90 \<or> 97 \<le> c \<and> c \<le> 122 \<or> 48 \<le> c \<and> c \<le> 57 \<or> c = 95 \<or> c = 45"

definition is_valid_room_id :: "jsstr \<Rightarrow> bool" where
  "is_valid_room_id s \<longleftrightarrow> list_all (\<lambda>u. room_id_char (unat u)) s \<and> 1 \<le> length s \<and> length s \<le> 64"

text \<open>\<open>toString(16).toUpperCase()\<close> of a digit.\<close>

definition hex_digit :: "nat \<Rightarrow> 16 word" where
  "hex_digit d = word_of_nat (if d < 10 then 48 + d else 55 + d)"

definition encode_byte :: "byte \<Rightarrow> jsstr" where
  "encode_byte b =
     (if room_id_char (unat b) then [ucast b]
      else [0x25, hex_digit (unat b div 16), hex_digit (unat b mod 16)])"

definition encode_room_id :: "jsstr \<Rightarrow> jsstr" where
  "encode_room_id s = (if is_valid_room_id s then s else concat (map encode_byte (text_encode s)))"

definition namespace_separator :: "16 word" where
  "namespace_separator = 0x7E"

definition namespace_room_id :: "jsstr \<Rightarrow> jsstr \<Rightarrow> jsstr" where
  "namespace_room_id process_uid encoded = process_uid @ [namespace_separator] @ encoded"

section \<open>Encoding\<close>

lemma room_id_char_ascii: "room_id_char c \<Longrightarrow> c < 128"
  by (auto simp: room_id_char_def)

text \<open>ASCII strings are their own UTF-8 encoding.\<close>

lemma utf16_points_ascii: "list_all (\<lambda>u. u < 128) us \<Longrightarrow> utf16_points us = us"
  by (induction us rule: utf16_points.induct) (auto simp: is_high_def is_low_def)

lemma unat_ucast_byte: "unat (u :: 16 word) < 256 \<Longrightarrow> unat (ucast u :: byte) = unat u"
  by (simp add: unsigned_ucast_eq take_bit_nat_eq_self)

lemma unat_byte_less: "unat (b :: byte) < 256"
  using unsigned_less [of b] by simp

lemma unat_char_unit [simp]: "unat (ucast (b :: byte) :: 16 word) = unat b"
  using unat_byte_less [of b] by (simp add: unsigned_ucast_eq take_bit_nat_eq_self)

lemma text_encode_ascii:
  assumes "list_all (\<lambda>u. unat u < 128) s"
  shows "text_encode s = map ucast s"
proof -
  have "utf16_points (map unat s) = map unat s"
    using assms by (intro utf16_points_ascii) (simp add: list_all_length)
  moreover have "concat (map utf8_point (map unat s)) = map unat s"
    using assms by (induction s) (auto simp: utf8_point_def)
  ultimately show ?thesis by (simp add: text_encode_def)
qed

lemma encode_byte_ascii:
  assumes "room_id_char (unat u)"
  shows "encode_byte (ucast (u :: 16 word)) = [u]"
proof -
  have n: "unat (ucast u :: byte) = unat u"
    using room_id_char_ascii [OF assms] by (simp add: unat_ucast_byte)
  then have "unat (ucast (ucast u :: byte) :: 16 word) = unat u" by simp
  then have "ucast (ucast u :: byte) = u" by (simp only: word_unat_eq_iff)
  with n assms show ?thesis by (simp add: encode_byte_def)
qed

text \<open>A legal id is what the byte-wise encoding would make of it: the two branches of the code
  agree, so encoding is one function of the UTF-8 bytes.\<close>

lemma encode_room_id_bytes: "encode_room_id s = concat (map encode_byte (text_encode s))"
proof (cases "is_valid_room_id s")
  case True
  then have c: "list_all (\<lambda>u. room_id_char (unat u)) s"
    by (simp add: is_valid_room_id_def)
  then have a: "list_all (\<lambda>u. unat u < 128) s"
    using room_id_char_ascii by (auto simp: list_all_iff)
  from c have "concat (map encode_byte (map ucast s)) = s"
    by (induction s) (simp_all add: encode_byte_ascii)
  with True a show ?thesis
    by (simp add: encode_room_id_def text_encode_ascii)
qed (simp add: encode_room_id_def)

lemma unat_of_nat_16 [simp]: "n < 256 \<Longrightarrow> unat (word_of_nat n :: 16 word) = n"
  by (simp add: unat_of_nat)

lemma unat_hex_digit: "d < 16 \<Longrightarrow> unat (hex_digit d) = (if d < 10 then 48 + d else 55 + d)"
  by (simp add: hex_digit_def del: of_nat_add)

lemma hex_digit_char: "d < 16 \<Longrightarrow> room_id_char (unat (hex_digit d))"
  by (auto simp: unat_hex_digit room_id_char_def)

lemma hex_digit_inject:
  assumes "d < 16" "d' < 16"
  shows "hex_digit d = hex_digit d' \<longleftrightarrow> d = d'"
proof
  assume "hex_digit d = hex_digit d'"
  then have "unat (hex_digit d) = unat (hex_digit d')" by simp
  then have "(if d < 10 then 48 + d else 55 + d) = (if d' < 10 then 48 + d' else 55 + d')"
    unfolding unat_hex_digit [OF assms(1)] unat_hex_digit [OF assms(2)] .
  then show "d = d'" by (simp split: if_splits)
qed simp

lemma byte_div_16: "unat (b :: byte) div 16 < 16"
  using unat_byte_less [of b] by simp

lemma encode_byte_chars:
  "u \<in> set (encode_byte b) \<Longrightarrow> room_id_char (unat u) \<or> u = 0x25"
  using hex_digit_char [OF byte_div_16, of b] hex_digit_char [of "unat b mod 16"]
  by (auto simp: encode_byte_def unat_char_unit split: if_splits)

lemma encode_room_id_chars:
  "u \<in> set (encode_room_id s) \<Longrightarrow> room_id_char (unat u) \<or> u = 0x25"
  by (auto simp: encode_room_id_bytes dest: encode_byte_chars)

lemma encode_room_id_no_separator [simp]: "namespace_separator \<notin> set (encode_room_id s)"
  using encode_room_id_chars [of namespace_separator s]
  by (auto simp: namespace_separator_def room_id_char_def)

lemma percent_not_char: "\<not> room_id_char (unat (0x25 :: 16 word))"
  by (simp add: room_id_char_def)

text \<open>The first unit tells the two shapes apart, so the encoding of a byte list splits.\<close>

lemma encode_byte_split:
  assumes "encode_byte b @ xs = encode_byte c @ ys"
  shows "b = c \<and> xs = ys"
proof (cases "room_id_char (unat b)")
  case True
  then have hb: "encode_byte b = [ucast b]" by (simp add: encode_byte_def)
  have "room_id_char (unat c)"
  proof (rule ccontr)
    assume "\<not> room_id_char (unat c)"
    with assms hb have "(ucast b :: 16 word) = 0x25" by (simp add: encode_byte_def)
    with True percent_not_char show False by (metis unat_char_unit)
  qed
  with assms hb have "(ucast b :: 16 word) = ucast c" "xs = ys"
    by (simp_all add: encode_byte_def)
  then show ?thesis by (metis unat_char_unit word_unat_eq_iff)
next
  case False
  then have hb: "encode_byte b = [0x25, hex_digit (unat b div 16), hex_digit (unat b mod 16)]"
    by (simp add: encode_byte_def)
  have "\<not> room_id_char (unat c)"
  proof
    assume c: "room_id_char (unat c)"
    with assms hb have "(ucast c :: 16 word) = 0x25" by (simp add: encode_byte_def)
    with c percent_not_char show False by (metis unat_char_unit)
  qed
  with assms hb have e: "hex_digit (unat b div 16) = hex_digit (unat c div 16)"
      "hex_digit (unat b mod 16) = hex_digit (unat c mod 16)" "xs = ys"
    by (simp_all add: encode_byte_def)
  then have "unat b div 16 = unat c div 16" "unat b mod 16 = unat c mod 16"
    using byte_div_16 [of b] byte_div_16 [of c] by (simp_all add: hex_digit_inject)
  then have "unat b = unat c" by (metis div_mult_mod_eq)
  with e(3) show ?thesis by (simp add: word_unat_eq_iff)
qed

lemma encode_byte_nonempty: "encode_byte b \<noteq> []"
  by (simp add: encode_byte_def)

lemma encode_bytes_inject:
  "concat (map encode_byte bs) = concat (map encode_byte cs) \<Longrightarrow> bs = cs"
proof (induction bs arbitrary: cs)
  case Nil
  then show ?case by (cases cs) (simp_all add: encode_byte_nonempty)
next
  case (Cons b bs)
  then obtain c cs' where cs: "cs = c # cs'"
    by (cases cs) (simp_all add: encode_byte_nonempty)
  with Cons.prems have "encode_byte b @ concat (map encode_byte bs) = encode_byte c @ concat (map encode_byte cs')"
    by simp
  from encode_byte_split [OF this] Cons.IH cs show ?case by blast
qed

text \<open>UTF-8 is injective on well-formed strings; a lone surrogate becomes U+FFFD.\<close>

lemma room_text_inject:
  assumes "well_formed s" "well_formed t" "text_encode s = text_encode t"
  shows "s = t"
proof -
  have "utf16_points (map unat s) = utf16_points (map unat t)"
    using assms(3) text_encode_points by metis
  moreover have "concat (map utf16_units (utf16_points (map unat s))) = map unat s"
    using assms(1) unfolding well_formed_def by (rule utf16_units_points [OF unat_units_bound])
  moreover have "concat (map utf16_units (utf16_points (map unat t))) = map unat t"
    using assms(2) unfolding well_formed_def by (rule utf16_units_points [OF unat_units_bound])
  ultimately have "map unat s = map unat t" by metis
  then show ?thesis by (rule map_injective) (simp add: inj_on_def word_unat_eq_iff)
qed

lemma encode_room_id_inject:
  "well_formed s \<Longrightarrow> well_formed t \<Longrightarrow> encode_room_id s = encode_room_id t \<longleftrightarrow> s = t"
  unfolding encode_room_id_bytes
  using room_text_inject [of s t] encode_bytes_inject [of "text_encode s" "text_encode t"] by blast

section \<open>Namespaced ids\<close>

lemma separator_split:
  "x \<notin> set b \<Longrightarrow> x \<notin> set d \<Longrightarrow> a @ x # b = c @ x # d \<longleftrightarrow> a = c \<and> b = d"
proof
  assume *: "x \<notin> set b" "x \<notin> set d" "a @ x # b = c @ x # d"
  then have r: "rev b @ x # rev a = rev d @ x # rev c"
    by (metis append_Cons append_assoc append_self_conv2 rev.simps(2) rev_append)
  have "takeWhile (\<lambda>y. y \<noteq> x) (rev b @ x # rev a) = rev b"
    "takeWhile (\<lambda>y. y \<noteq> x) (rev d @ x # rev c) = rev d"
    using *(1,2) by (auto simp: takeWhile_tail)
  with r have "rev b = rev d" by metis
  then have "b = d" by simp
  with *(3) show "a = c \<and> b = d" by simp
qed simp

lemma namespace_room_id_inject:
  "namespace_room_id p (encode_room_id s) = namespace_room_id q (encode_room_id t) \<longleftrightarrow>
   p = q \<and> encode_room_id s = encode_room_id t"
  by (simp add: namespace_room_id_def separator_split)

lemma namespace_not_encoded: "namespace_room_id p b \<noteq> encode_room_id s"
proof
  assume "namespace_room_id p b = encode_room_id s"
  then have "namespace_separator \<in> set (encode_room_id s)"
    by (metis append_Cons in_set_conv_decomp namespace_room_id_def)
  then show False by simp
qed

lemma valid_room_id_encoded: "is_valid_room_id s \<Longrightarrow> encode_room_id s = s"
  by (simp add: encode_room_id_def)

end
