(* ===== verification/Fleet_Canonical.thy ===== *)
theory Fleet_Canonical
  imports Serializer Fleet_RoomId "HOL-Library.List_Lexorder" "HOL-Library.Multiset"
begin

text \<open>
  The canonical JSON encoding behind snapshot hashes and ETags
  (\<open>fleet/src/util/canonical.ts\<close>). \<open>normal\<close> is the logical value of a JavaScript value:
  keys sorted, \<open>undefined\<close> properties dropped. The lemmas show that the encoding is an
  injective function of the logical value, so equal encodings mean equal logical values and
  insertion order never shows. The digest (SHA-256, Node's library) is a parameter of the
  definitions that use it.
\<close>

section \<open>Encoding\<close>

text \<open>\<open>JSON.stringify\<close> of a string: the short escapes, four hexadecimal digits for the other
  control characters and for lone surrogates.\<close>

definition hex_lower :: "nat \<Rightarrow> 16 word" where
  "hex_lower d = word_of_nat (if d < 10 then 48 + d else 87 + d)"

definition hex_escape :: "16 word \<Rightarrow> jsstr" where
  "hex_escape u = (let n = unat u in
     [0x5C, 0x75, hex_lower (n div 4096), hex_lower (n div 256 mod 16),
      hex_lower (n div 16 mod 16), hex_lower (n mod 16)])"

definition escape_unit :: "16 word \<Rightarrow> jsstr" where
  "escape_unit u =
     (if u = 0x22 then [0x5C, 0x22] else if u = 0x5C then [0x5C, 0x5C]
      else if u = 8 then [0x5C, 0x62] else if u = 9 then [0x5C, 0x74]
      else if u = 10 then [0x5C, 0x6E] else if u = 12 then [0x5C, 0x66]
      else if u = 13 then [0x5C, 0x72]
      else if unat u < 32 \<or> is_high (unat u) \<or> is_low (unat u) then hex_escape u
      else [u])"

fun json_escape :: "jsstr \<Rightarrow> jsstr" where
  "json_escape [] = []"
| "json_escape [u] = escape_unit u"
| "json_escape (u # v # us) =
     (if is_high (unat u) \<and> is_low (unat v) then u # v # json_escape us
      else escape_unit u @ json_escape (v # us))"

definition json_quote :: "jsstr \<Rightarrow> jsstr" where
  "json_quote s = [0x22] @ json_escape s @ [0x22]"

text \<open>Numbers are integers below \<open>10^21\<close>, which JavaScript prints without an exponent.\<close>

definition number_string :: "int \<Rightarrow> jsstr" where
  "number_string i = (if i < 0 then 0x2D # decimal (nat (- i)) else decimal (nat i))"

text \<open>\<open>Object.keys(obj).sort()\<close> orders by UTF-16 code units; the entries are the encoded
  properties that are not skipped. A byte array is an object with index keys.\<close>

definition object_text :: "(jsstr \<times> jsstr) list \<Rightarrow> jsstr" where
  "object_text kvs =
     [0x7B] @ js_join (map (\<lambda>(k, s). json_quote k @ [0x3A] @ s) (sort_key fst kvs)) @ [0x7D]"

fun canonical_text :: "jsval \<Rightarrow> jsstr" where
  "canonical_text JUndef = js ''null''"
| "canonical_text JNull = js ''null''"
| "canonical_text (JBool b) = (if b then js ''true'' else js ''false'')"
| "canonical_text (JNum i) = number_string i"
| "canonical_text (JStr s) = json_quote s"
| "canonical_text (JBytes bs) =
     object_text (map (\<lambda>(i, b). (decimal i, decimal (unat b))) (enumerate 0 bs))"
| "canonical_text (JArr vs) = [0x5B] @ js_join (map canonical_text vs) @ [0x5D]"
| "canonical_text (JObj kvs) =
     object_text (map (\<lambda>(k, v). (k, canonical_text v)) (filter (\<lambda>(k, v). v \<noteq> JUndef) kvs))"

definition canonicalize :: "jsval \<Rightarrow> jsstr" where
  "canonicalize v = canonical_text v"

definition hash64 :: "(jsstr \<Rightarrow> jsstr) \<Rightarrow> jsval \<Rightarrow> jsstr" where
  "hash64 digest v = digest (canonicalize v)"

section \<open>Logical values\<close>

fun normal :: "jsval \<Rightarrow> jsval" where
  "normal JUndef = JNull"
| "normal (JBytes bs) =
     JObj (sort_key fst (map (\<lambda>(i, b). (decimal i, JNum (int (unat b)))) (enumerate 0 bs)))"
| "normal (JArr vs) = JArr (map normal vs)"
| "normal (JObj kvs) =
     JObj (sort_key fst (map (\<lambda>(k, v). (k, normal v)) (filter (\<lambda>(k, v). v \<noteq> JUndef) kvs)))"
| "normal v = v"

text \<open>The encoding of a value whose objects are already in order.\<close>

fun plain_text :: "jsval \<Rightarrow> jsstr" where
  "plain_text JUndef = js ''null''"
| "plain_text JNull = js ''null''"
| "plain_text (JBool b) = (if b then js ''true'' else js ''false'')"
| "plain_text (JNum i) = number_string i"
| "plain_text (JStr s) = json_quote s"
| "plain_text (JBytes bs) = []"
| "plain_text (JArr vs) = [0x5B] @ js_join (map plain_text vs) @ [0x5D]"
| "plain_text (JObj kvs) =
     [0x7B] @ js_join (map (\<lambda>(k, v). json_quote k @ [0x3A] @ plain_text v) kvs) @ [0x7D]"

fun plain :: "jsval \<Rightarrow> bool" where
  "plain JUndef = False"
| "plain (JBytes bs) = False"
| "plain (JArr vs) = list_all plain vs"
| "plain (JObj kvs) = list_all (\<lambda>(k, v). plain v) kvs"
| "plain v = True"

lemma insort_key_map:
  "(\<And>x. g (h x) = f x) \<Longrightarrow> insort_key g (h x) (map h xs) = map h (insort_key f x xs)"
  by (induction xs) simp_all

lemma sort_key_map: "(\<And>x. g (h x) = f x) \<Longrightarrow> sort_key g (map h xs) = map h (sort_key f xs)"
  by (induction xs) (simp_all add: sort_key_def insort_key_map)

lemma sort_fst_map: "sort_key fst (map (\<lambda>(k, v). (k, g v)) kvs) = map (\<lambda>(k, v). (k, g v)) (sort_key fst kvs)"
  by (rule sort_key_map) auto

lemma object_text_map:
  "object_text (map (\<lambda>(k, v). (k, plain_text v)) kvs) = plain_text (JObj (sort_key fst kvs))"
  unfolding object_text_def sort_fst_map plain_text.simps list.map_comp
  by (simp add: comp_def case_prod_unfold)

lemma canonical_text_normal: "canonical_text v = plain_text (normal v)"
proof (induction v rule: canonical_text.induct)
  case (6 bs)
  have "map (\<lambda>(i, b). (decimal i, decimal (unat b))) (enumerate 0 bs) =
      map (\<lambda>(k, v). (k, plain_text v)) (map (\<lambda>(i, b). (decimal i, JNum (int (unat b)))) (enumerate 0 bs))"
    by (simp add: number_string_def case_prod_unfold)
  then show ?case by (simp only: canonical_text.simps normal.simps object_text_map)
next
  case (7 vs)
  then have "map canonical_text vs = map plain_text (map normal vs)" by simp
  then show ?case by (simp only: canonical_text.simps normal.simps plain_text.simps)
next
  case (8 kvs)
  then have "map (\<lambda>(k, v). (k, canonical_text v)) (filter (\<lambda>(k, v). v \<noteq> JUndef) kvs) =
      map (\<lambda>(k, v). (k, plain_text v)) (map (\<lambda>(k, v). (k, normal v)) (filter (\<lambda>(k, v). v \<noteq> JUndef) kvs))"
    by (auto simp: case_prod_unfold)
  then show ?case by (simp only: canonical_text.simps normal.simps object_text_map)
qed simp_all

lemma plain_normal: "plain (normal v)"
  by (induction v rule: canonical_text.induct) (auto simp: list_all_iff case_prod_unfold)

section \<open>The encoding determines the logical value\<close>

text \<open>What may follow a value in a text: a number ends where no digit follows.\<close>

definition digit :: "16 word \<Rightarrow> bool" where
  "digit u \<longleftrightarrow> 48 \<le> unat u \<and> unat u \<le> 57"

definition ends :: "jsstr \<Rightarrow> bool" where
  "ends xs \<longleftrightarrow> (case xs of [] \<Rightarrow> True | u # _ \<Rightarrow> \<not> digit u)"

lemma ends_simps [simp]: "ends []" "ends (u # xs) \<longleftrightarrow> \<not> digit u"
  by (simp_all add: ends_def)

lemma digit_unit: "d < 10 \<Longrightarrow> digit (word_of_nat (48 + d))"
  by (simp add: digit_def unat_digit del: of_nat_add)

lemma decimal_digits: "list_all digit (decimal n)"
proof (induction n rule: decimal.induct)
  case (1 n)
  then show ?case
    by (subst decimal.simps) (auto simp: digit_unit simp del: of_nat_add)
qed

lemma decimal_nonempty: "decimal n \<noteq> []"
  by (subst decimal.simps) simp

lemma decimal_split:
  assumes "decimal m @ xs = decimal n @ ys" "ends xs" "ends ys"
  shows "m = n \<and> xs = ys"
proof -
  have t: "takeWhile digit (decimal k @ zs) = decimal k" if "ends zs" for k zs
    using that decimal_digits [of k] by (cases zs) (auto simp: takeWhile_append list_all_iff)
  from assms have "decimal m = decimal n" by (metis t)
  with assms(1) show ?thesis by simp
qed

lemma decimal_head: "decimal n = u # us \<Longrightarrow> digit u"
  using decimal_digits [of n] by simp

lemma number_split:
  assumes "number_string i @ xs = number_string j @ ys" "ends xs" "ends ys"
  shows "i = j \<and> xs = ys"
proof -
  have m: "\<not> digit 0x2D" by (simp add: digit_def)
  obtain u us where u: "decimal (nat i) = u # us" using decimal_nonempty by (cases "decimal (nat i)") auto
  obtain v vs where v: "decimal (nat j) = v # vs" using decimal_nonempty by (cases "decimal (nat j)") auto
  have h: "u \<noteq> 0x2D" "v \<noteq> 0x2D" using m decimal_head [OF u] decimal_head [OF v] by auto
  consider "i < 0" "j < 0" | "\<not> i < 0" "\<not> j < 0" | "(i < 0) \<noteq> (j < 0)" by blast
  then show ?thesis
  proof cases
    case 1
    with assms decimal_split [of "nat (- i)" xs "nat (- j)" ys] have "nat (- i) = nat (- j) \<and> xs = ys"
      by (simp add: number_string_def)
    with 1 show ?thesis by linarith
  next
    case 2
    with assms decimal_split [of "nat i" xs "nat j" ys] show ?thesis
      by (simp add: number_string_def eq_nat_nat_iff)
  next
    case 3
    with assms(1) u v h show ?thesis by (auto simp: number_string_def split: if_splits)
  qed
qed

text \<open>Reading an escaped string back up to its closing quote.\<close>

definition unhex :: "16 word \<Rightarrow> nat" where
  "unhex u = (if unat u < 58 then unat u - 48 else unat u - 87)"

definition unescape_letter :: "16 word \<Rightarrow> 16 word" where
  "unescape_letter c =
     (if c = 0x62 then 8 else if c = 0x74 then 9 else if c = 0x6E then 10
      else if c = 0x66 then 12 else if c = 0x72 then 13 else c)"

fun unescape :: "nat \<Rightarrow> jsstr \<Rightarrow> jsstr \<times> jsstr" where
  "unescape 0 us = ([], us)"
| "unescape (Suc n) us = (case us of
     [] \<Rightarrow> ([], [])
   | u # us \<Rightarrow>
       if u = 0x22 then ([], us)
       else if u = 0x5C then
         (case us of
            [] \<Rightarrow> ([], [])
          | c # us \<Rightarrow>
              if c = 0x75 then
                apfst (Cons (word_of_nat (4096 * unhex (us ! 0) + 256 * unhex (us ! 1) +
                                          16 * unhex (us ! 2) + unhex (us ! 3))))
                  (unescape n (drop 4 us))
              else apfst (Cons (unescape_letter c)) (unescape n us))
       else apfst (Cons u) (unescape n us))"

lemma unat_hex_lower: "d < 16 \<Longrightarrow> unat (hex_lower d) = (if d < 10 then 48 + d else 87 + d)"
  by (simp add: hex_lower_def del: of_nat_add)

lemma unhex_lower: "d < 16 \<Longrightarrow> unhex (hex_lower d) = d"
  unfolding unhex_def by (simp add: unat_hex_lower split: if_split)

lemma hex_digits_sum:
  assumes "n < 65536"
  shows "4096 * (n div 4096) + 256 * (n div 256 mod 16) + 16 * (n div 16 mod 16) + n mod 16 = (n :: nat)"
proof -
  have "n = 16 * (n div 16) + n mod 16" by simp
  moreover have "n div 16 = 16 * (n div 256) + n div 16 mod 16"
    using div_mult_mod_eq [of "n div 16" 16] by (simp add: div_mult2_eq [of n 16 16, simplified])
  moreover have "n div 256 = 16 * (n div 4096) + n div 256 mod 16"
    using div_mult_mod_eq [of "n div 256" 16] by (simp add: div_mult2_eq [of n 256 16, simplified])
  ultimately show ?thesis by linarith
qed

lemma unescape_hex:
  "unescape (Suc n) (hex_escape u @ us) = apfst (Cons u) (unescape n us)"
proof -
  have b: "unat u < 65536" using unsigned_less [of u] by simp
  then have d: "unat u div 4096 < 16" by simp
  have "word_of_nat (4096 * (unat u div 4096) + 256 * (unat u div 256 mod 16) +
        16 * (unat u div 16 mod 16) + unat u mod 16) = u"
    unfolding hex_digits_sum [OF b] by simp
  with d show ?thesis
    by (simp add: hex_escape_def Let_def unhex_lower del: of_nat_add)
qed

lemma unescape_unit:
  "unescape (Suc n) (escape_unit u @ us) = apfst (Cons u) (unescape n us)"
proof (cases "unat u < 32 \<or> is_high (unat u) \<or> is_low (unat u)")
  case True
  then show ?thesis
    using unescape_hex [of n u us] by (auto simp: escape_unit_def unescape_letter_def)
next
  case False
  then show ?thesis by (auto simp: escape_unit_def unescape_letter_def)
qed

lemma surrogate_plain: "is_high (unat u) \<or> is_low (unat u) \<Longrightarrow> (u :: 16 word) \<noteq> 0x22 \<and> u \<noteq> 0x5C"
  by (auto simp: is_high_def is_low_def)

lemma unescape_escape: "length s < n \<Longrightarrow> unescape n (json_escape s @ 0x22 # xs) = (s, xs)"
proof (induction s arbitrary: n rule: json_escape.induct)
  case 1
  then show ?case by (cases n) simp_all
next
  case (2 u)
  then obtain m where "n = Suc (Suc m)" by (cases n; cases "n - 1") auto
  then show ?case using unescape_unit [of "Suc m" u "0x22 # xs"] by simp
next
  case (3 u v us)
  show ?case
  proof (cases "is_high (unat u) \<and> is_low (unat v)")
    case True
    from 3 obtain m where n: "n = Suc (Suc m)" by (cases n; cases "n - 1") auto
    with 3 True have "unescape m (json_escape us @ 0x22 # xs) = (us, xs)" by simp
    with True n surrogate_plain [of u] surrogate_plain [of v] show ?thesis by simp
  next
    case False
    from 3 obtain m where n: "n = Suc m" by (cases n) auto
    with 3 False have "unescape m (json_escape (v # us) @ 0x22 # xs) = (v # us, xs)" by auto
    then have "unescape (Suc m) (escape_unit u @ json_escape (v # us) @ 0x22 # xs) = (u # v # us, xs)"
      unfolding unescape_unit by simp
    moreover have "json_escape (u # v # us) = escape_unit u @ json_escape (v # us)"
      using False by (simp only: json_escape.simps if_False)
    ultimately show ?thesis unfolding n by (simp only: append_assoc)
  qed
qed

lemma quote_split: "json_quote s @ xs = json_quote t @ ys \<Longrightarrow> s = t \<and> xs = ys"
proof -
  assume "json_quote s @ xs = json_quote t @ ys"
  then have e: "json_escape s @ 0x22 # xs = json_escape t @ 0x22 # ys" by (simp add: json_quote_def)
  define n where "n = Suc (max (length s) (length t))"
  have "(s, xs) = unescape n (json_escape s @ 0x22 # xs)"
    by (rule unescape_escape [symmetric]) (simp add: n_def)
  also have "\<dots> = unescape n (json_escape t @ 0x22 # ys)" by (simp only: e)
  also have "\<dots> = (t, ys)"
    by (rule unescape_escape) (simp add: n_def)
  finally show ?thesis by simp
qed

text \<open>Comma-separated texts up to a closing bracket.\<close>

lemma comma_ends: "ends (0x2C # xs)"
  by (simp add: digit_def)

lemma join_split:
  assumes inj: "\<And>v w xs ys. v \<in> set vs \<Longrightarrow> w \<in> set ws \<Longrightarrow> ends xs \<Longrightarrow> ends ys \<Longrightarrow>
      f v @ xs = f w @ ys \<Longrightarrow> v = w \<and> xs = ys"
    and head: "\<And>v. v \<in> set vs \<union> set ws \<Longrightarrow> \<exists>u us. f v = u # us \<and> u \<noteq> c"
    and c: "c \<noteq> 0x2C" "\<not> digit c"
    and eq: "js_join (map f vs) @ c # xs = js_join (map f ws) @ c # ys"
  shows "vs = ws \<and> xs = ys"
  using inj head eq
proof (induction vs arbitrary: ws)
  case Nil
  show ?case
  proof (cases ws)
    case (Cons w ws')
    then obtain u us where "f w = u # us" "u \<noteq> c" using Nil.prems(2) [of w] by auto
    with Cons Nil.prems(3) show ?thesis by (cases ws') simp_all
  qed (use Nil.prems(3) in simp)
next
  case (Cons v vs)
  show ?case
  proof (cases ws)
    case Nil
    then obtain u us where "f v = u # us" "u \<noteq> c" using Cons.prems(2) [of v] by auto
    with Nil Cons.prems(3) show ?thesis by (cases vs) simp_all
  next
    case ws: (Cons w ws')
    let ?rest = "\<lambda>ss zs. if ss = [] then c # zs else 0x2C # js_join ss @ c # zs"
    have j: "js_join (s # ss) @ c # zs = s @ ?rest ss zs" for s ss zs
      by (cases ss) simp_all
    from c have e: "ends (?rest ss zs)" for ss zs by (simp add: digit_def)
    have "f v @ ?rest (map f vs) xs = f w @ ?rest (map f ws') ys"
      using Cons.prems(3) ws by (simp only: list.map j)
    then have vr: "v = w \<and> ?rest (map f vs) xs = ?rest (map f ws') ys"
      by (rule Cons.prems(1) [rotated 4]) (simp_all only: ws e list.set_intros)
    note vw = conjunct1 [OF vr] and r = conjunct2 [OF vr]
    from r c(1) have n: "vs = [] \<longleftrightarrow> ws' = []" by (auto split: if_splits)
    show ?thesis
    proof (cases "vs = []")
      case True
      with n r vw ws show ?thesis by simp
    next
      case False
      with n r have "js_join (map f vs) @ c # xs = js_join (map f ws') @ c # ys" by simp
      then have "vs = ws' \<and> xs = ys"
      proof (rule Cons.IH [rotated 2])
        show "\<And>v w xs ys. v \<in> set vs \<Longrightarrow> w \<in> set ws' \<Longrightarrow> ends xs \<Longrightarrow> ends ys \<Longrightarrow>
            f v @ xs = f w @ ys \<Longrightarrow> v = w \<and> xs = ys"
          by (rule Cons.prems(1)) (simp_all add: ws)
        show "\<And>v. v \<in> set vs \<union> set ws' \<Longrightarrow> \<exists>u us. f v = u # us \<and> u \<noteq> c"
          by (rule Cons.prems(2)) (auto simp: ws)
      qed
      with vw ws show ?thesis by simp
    qed
  qed
qed

lemmas literal_simps = js_def of_char_def

text \<open>The first unit of a text names the kind of its value.\<close>

definition head_kind :: "16 word \<Rightarrow> nat" where
  "head_kind u =
     (if u = 0x6E then 0 else if u = 0x74 \<or> u = 0x66 then 1 else if digit u \<or> u = 0x2D then 2
      else if u = 0x22 then 3 else if u = 0x5B then 4 else if u = 0x7B then 5 else 6)"

fun value_kind :: "jsval \<Rightarrow> nat" where
  "value_kind JUndef = 0"
| "value_kind JNull = 0"
| "value_kind (JBool b) = 1"
| "value_kind (JNum i) = 2"
| "value_kind (JStr s) = 3"
| "value_kind (JBytes bs) = 6"
| "value_kind (JArr vs) = 4"
| "value_kind (JObj kvs) = 5"

lemma number_head: "number_string i = u # us \<Longrightarrow> digit u \<or> u = 0x2D"
  using decimal_head [of "nat i"] by (auto simp: number_string_def split: if_splits)

lemma number_nonempty: "number_string i \<noteq> []"
  using decimal_nonempty by (simp add: number_string_def)

lemma digit_kind: "digit u \<or> u = 0x2D \<Longrightarrow> head_kind u = 2"
  by (auto simp: head_kind_def digit_def)

lemma plain_text_head:
  assumes "plain v"
  shows "\<exists>u us. plain_text v = u # us \<and> head_kind u = value_kind v"
proof (cases v)
  case (JNum i)
  then show ?thesis using number_nonempty number_head digit_kind
    by (cases "number_string i") auto
next
  case (JBool b)
  then show ?thesis by (cases b) (simp_all add: js_def head_kind_def)
qed (use assms in \<open>simp_all add: js_def json_quote_def head_kind_def digit_def\<close>)

lemma plain_text_kind:
  assumes "plain v" "plain w" "plain_text v @ xs = plain_text w @ ys"
  shows "value_kind v = value_kind w"
  using plain_text_head [OF assms(1)] plain_text_head [OF assms(2)] assms(3) by auto

lemma plain_text_opens:
  "plain v \<Longrightarrow> head_kind c = 6 \<Longrightarrow> \<exists>u us. plain_text v = u # us \<and> u \<noteq> c"
  using plain_text_head [of v] by (cases v) auto

text \<open>Two texts that agree up to what follows come from one value.\<close>

lemma entry_split:
  assumes "(json_quote k @ [0x3A] @ plain_text v) @ xs = (json_quote l @ [0x3A] @ plain_text w) @ ys"
  shows "k = l \<and> plain_text v @ xs = plain_text w @ ys"
  using quote_split [of k "[0x3A] @ plain_text v @ xs" l "[0x3A] @ plain_text w @ ys"] assms by simp

lemma brackets:
  "head_kind 0x5D = 6" "head_kind 0x7D = 6" "\<not> digit 0x5D" "\<not> digit 0x7D"
  by (simp_all add: head_kind_def digit_def)

lemma plain_text_split:
  "plain v \<Longrightarrow> plain w \<Longrightarrow> ends xs \<Longrightarrow> ends ys \<Longrightarrow>
   plain_text v @ xs = plain_text w @ ys \<Longrightarrow> v = w \<and> xs = ys"
proof (induction v arbitrary: w xs ys rule: plain_text.induct)
  case 2
  from plain_text_kind [OF 2(1,2,5)] 2(2,5) show ?case by (cases w) auto
next
  case (3 b)
  from plain_text_kind [OF 3(1,2,5)] obtain b' where "w = JBool b'" by (cases w) auto
  with 3(5) show ?case by (cases b; cases b') (simp_all add: js_def)
next
  case (4 i)
  from plain_text_kind [OF 4(1,2,5)] obtain j where "w = JNum j" by (cases w) auto
  with 4 number_split [of i xs j ys] show ?case by simp
next
  case (5 s)
  from plain_text_kind [OF 5(1,2,5)] obtain t where "w = JStr t" by (cases w) auto
  with 5 quote_split [of s xs t ys] show ?case by simp
next
  case (7 vs)
  from plain_text_kind [OF 7(2,3,6)] obtain ws where w: "w = JArr ws" by (cases w) auto
  with 7(6) have e: "js_join (map plain_text vs) @ 0x5D # xs = js_join (map plain_text ws) @ 0x5D # ys"
    by simp
  from 7(2,3) w have p: "\<And>v. v \<in> set vs \<union> set ws \<Longrightarrow> plain v" by (auto simp: list_all_iff)
  have "vs = ws \<and> xs = ys"
  proof (rule join_split [OF _ _ _ _ e])
    fix v w' xs' ys'
    assume "v \<in> set vs" "w' \<in> set ws" "ends xs'" "ends ys'" "plain_text v @ xs' = plain_text w' @ ys'"
    then show "v = w' \<and> xs' = ys'" using 7(1) p by blast
  next
    show "\<And>v. v \<in> set vs \<union> set ws \<Longrightarrow> \<exists>u us. plain_text v = u # us \<and> u \<noteq> 0x5D"
      by (rule plain_text_opens [OF p]) (simp_all add: brackets)
  qed (simp_all add: brackets)
  with w show ?case by simp
next
  case (8 kvs)
  from plain_text_kind [OF 8(2,3,6)] obtain kws where w: "w = JObj kws" by (cases w) auto
  let ?f = "\<lambda>(k, v). json_quote k @ [0x3A] @ plain_text v"
  from w 8(6) have e: "js_join (map ?f kvs) @ 0x7D # xs = js_join (map ?f kws) @ 0x7D # ys"
    by simp
  from 8(2,3) w have p: "\<And>k v. (k, v) \<in> set kvs \<union> set kws \<Longrightarrow> plain v" by (auto simp: list_all_iff)
  have "kvs = kws \<and> xs = ys"
  proof (rule join_split [OF _ _ _ _ e])
    fix a b xs' ys'
    assume *: "a \<in> set kvs" "b \<in> set kws" "ends xs'" "ends ys'" "?f a @ xs' = ?f b @ ys'"
    obtain k v l w' where ab: "a = (k, v)" "b = (l, w')" by (cases a, cases b)
    with *(5) have "(json_quote k @ [0x3A] @ plain_text v) @ xs' = (json_quote l @ [0x3A] @ plain_text w') @ ys'"
      by (simp only: prod.case)
    note kl = conjunct1 [OF entry_split [OF this]] conjunct2 [OF entry_split [OF this]]
    have "plain v" by (rule p [of k]) (use *(1) ab in blast)
    moreover have "plain w'" by (rule p [of l]) (use *(2) ab in blast)
    ultimately have "v = w' \<and> xs' = ys'"
      using 8(1) [OF *(1) ab(1) [symmetric]] *(3,4) kl(2) by blast
    with ab kl(1) show "a = b \<and> xs' = ys'" by simp
  qed (auto simp: json_quote_def brackets)
  with w show ?case by simp
qed simp_all

lemma canonicalize_normal: "canonicalize v = canonicalize w \<longleftrightarrow> normal v = normal w"
  using plain_text_split [of "normal v" "normal w" "[]" "[]"]
  by (auto simp: canonicalize_def canonical_text_normal plain_normal)

section \<open>Insertion order\<close>

lemma sort_distinct_keys:
  assumes "mset xs = mset ys" "distinct (map fst xs)"
  shows "sort_key fst xs = sort_key fst ys"
proof (rule map_sorted_distinct_set_unique [where f = fst])
  have s: "set xs = set ys" using assms(1) by (rule mset_eq_setD)
  have d: "distinct (map fst ys)"
    using assms by (metis mset_eq_imp_distinct_iff mset_map)
  show "set (sort_key fst xs) = set (sort_key fst ys)" using s by simp
  show "inj_on fst (set (sort_key fst xs) \<union> set (sort_key fst ys))"
    using assms(2) s by (simp add: distinct_map)
  show "distinct (map fst (sort_key fst xs))" "distinct (map fst (sort_key fst ys))"
    using assms(2) d by (simp_all add: distinct_map)
qed simp_all

lemma normal_order_free:
  assumes "mset kvs = mset kvs'" "distinct (map fst kvs)"
  shows "normal (JObj kvs) = normal (JObj kvs')"
proof -
  let ?g = "\<lambda>kvs. map (\<lambda>(k, v). (k, normal v)) (filter (\<lambda>(k, v). v \<noteq> JUndef) kvs)"
  have "mset (?g kvs) = mset (?g kvs')" using assms(1) by simp
  moreover have "distinct (map fst (?g kvs))"
    using assms(2) by (simp add: comp_def case_prod_unfold distinct_map_filter)
  ultimately show ?thesis by (simp only: normal.simps sort_distinct_keys)
qed

text \<open>
  C22: the canonical encoding is faithful. Two values encode to the same text exactly when they
  are logically equal: the same after sorting keys and dropping undefined properties. In
  particular the insertion order of an object's properties never shows, and one changed field
  always changes the text that is hashed.
\<close>

theorem canonicalize_faithful:
  "(canonicalize v = canonicalize w \<longleftrightarrow> normal v = normal w) \<and>
   (mset kvs = mset kvs' \<and> distinct (map fst kvs) \<longrightarrow>
     canonicalize (JObj kvs) = canonicalize (JObj kvs'))"
  unfolding canonicalize_normal using normal_order_free by blast

theorem canonicalize_faithful_witness:
  "canonicalize (JObj [(js ''b'', JNum 1), (js ''a'', JStr (js ''x''))]) =
   canonicalize (JObj [(js ''a'', JStr (js ''x'')), (js ''b'', JNum 1)]) \<and>
   canonicalize (JArr [JNum 1, JNum 2]) \<noteq> canonicalize (JNum 12)"
  using canonicalize_faithful [of "JArr [JNum 1, JNum 2]" "JNum 12"
      "[(js ''b'', JNum 1), (js ''a'', JStr (js ''x''))]" "[(js ''a'', JStr (js ''x'')), (js ''b'', JNum 1)]"]
  by (simp add: js_def add_mset_commute)

end
