(* ===== verification/Fleet_Domain.thy ===== *)
theory Fleet_Domain
  imports Fleet_Canonical "HOL-Library.Product_Lexorder"
begin

text \<open>
  The data model of the fleet (\<open>fleet/src/domain/types.ts\<close>, \<open>domain/errors.ts\<close>,
  \<open>wire/payloads.ts\<close>, \<open>wire/topics.ts\<close>) and the pure helpers of
  \<open>orchestrator/FleetState.ts\<close>: building a row from a snapshot, label matching, the order of
  colliding rooms, generated ids. A status and a room origin arrive unchecked from the wire, so
  they are strings.
\<close>

section \<open>Errors\<close>

datatype fleet_error =
    Validation | Unauthorized | InstanceNotFound | RoomNotFound | NoCandidate | RoomExists
  | InstanceDraining | PayloadTooLarge | InstanceBusy | AuthThrottled | SseLimit
  | CommandFailed | InstanceDisconnected | CommandTimeout

fun code_to_status :: "fleet_error \<Rightarrow> nat" where
  "code_to_status Validation = 400"
| "code_to_status Unauthorized = 401"
| "code_to_status InstanceNotFound = 404"
| "code_to_status RoomNotFound = 404"
| "code_to_status NoCandidate = 409"
| "code_to_status RoomExists = 409"
| "code_to_status InstanceDraining = 409"
| "code_to_status PayloadTooLarge = 413"
| "code_to_status InstanceBusy = 429"
| "code_to_status AuthThrottled = 429"
| "code_to_status SseLimit = 429"
| "code_to_status CommandFailed = 502"
| "code_to_status InstanceDisconnected = 502"
| "code_to_status CommandTimeout = 504"

section \<open>Rows and payloads\<close>

type_synonym labels = "(jsstr, jsstr) jsmap"

text \<open>\<open>null\<close> means unlimited.\<close>

record capacity =
  max_connections :: "int option"
  max_rooms :: "int option"

record room_info =
  ri_id :: jsstr
  ri_type :: jsstr
  ri_connections :: int
  ri_instance :: jsstr
  ri_url :: jsstr
  ri_local :: bool

record instance_info =
  ii_id :: jsstr
  ii_name :: jsstr
  ii_process :: jsstr
  ii_url :: jsstr
  ii_labels :: labels
  ii_types :: "jsstr list"
  ii_rooms :: "room_info list"
  ii_connections :: int
  ii_capacity :: capacity
  ii_auto :: bool
  ii_status :: jsstr
  ii_last_sync :: int
  ii_agent_version :: jsstr
  ii_protocol :: int

record sync_room =
  sr_id :: jsstr
  sr_type :: jsstr
  sr_connections :: int
  sr_origin :: jsstr

record sync_payload =
  sp_seq :: int
  sp_hash :: jsstr
  sp_name :: jsstr
  sp_process :: jsstr
  sp_agent_version :: jsstr
  sp_protocol :: int
  sp_url :: jsstr
  sp_labels :: labels
  sp_capacity :: capacity
  sp_auto :: bool
  sp_types :: "jsstr list"
  sp_rooms :: "sync_room list"
  sp_status :: jsstr

definition active :: jsstr where "active = js ''active''"
definition draining :: jsstr where "draining = js ''draining''"
definition local_origin :: jsstr where "local_origin = js ''local''"

datatype strategy = LeastLoaded | MostLoaded | Random

record placement_input =
  pi_type :: jsstr
  pi_instance :: "jsstr option"
  pi_process :: "jsstr option"
  pi_strategy :: "strategy option"
  pi_labels :: "labels option"
  pi_force :: bool

record fleet_stats =
  st_instances :: nat
  st_rooms :: nat
  st_connections :: int
  st_types :: "jsstr list"
  st_hash :: jsstr

section \<open>Helpers of the read model\<close>

definition room_of_sync :: "jsstr \<Rightarrow> jsstr \<Rightarrow> sync_room \<Rightarrow> room_info" where
  "room_of_sync inst url r =
     \<lparr>ri_id = sr_id r, ri_type = sr_type r, ri_connections = sr_connections r, ri_instance = inst,
      ri_url = url, ri_local = (sr_origin r = local_origin)\<rparr>"

definition build_instance_info :: "jsstr \<Rightarrow> sync_payload \<Rightarrow> int \<Rightarrow> instance_info" where
  "build_instance_info inst p now =
     (let rooms = map (room_of_sync inst (sp_url p)) (sp_rooms p)
      in \<lparr>ii_id = inst, ii_name = sp_name p, ii_process = sp_process p, ii_url = sp_url p,
          ii_labels = sp_labels p, ii_types = sp_types p, ii_rooms = rooms,
          ii_connections = fold (\<lambda>r n. n + ri_connections r) rooms 0,
          ii_capacity = sp_capacity p, ii_auto = sp_auto p, ii_status = sp_status p,
          ii_last_sync = now, ii_agent_version = sp_agent_version p, ii_protocol = sp_protocol p\<rparr>)"

definition matches_labels :: "labels \<Rightarrow> labels \<Rightarrow> bool" where
  "matches_labels have required =
     list_all (\<lambda>k. map_of have k = map_of required k) (jm_keys required)"

text \<open>One agent-reported room in the id resolution.\<close>

record room_entry =
  re_instance :: jsstr
  re_process :: jsstr
  re_join :: nat
  re_raw :: jsstr
  re_base :: jsstr
  re_fleet :: bool
  re_room :: room_info
  re_public :: jsstr

definition compare_for_canonical :: "room_entry \<Rightarrow> room_entry \<Rightarrow> int" where
  "compare_for_canonical a b =
     (let rank_a = (if re_fleet a then 0 else 1); rank_b = (if re_fleet b then 0 else 1)
      in if rank_a \<noteq> rank_b then rank_a - rank_b
         else if re_join a \<noteq> re_join b then int (re_join a) - int (re_join b)
         else if re_instance a < re_instance b then -1
         else if re_instance a > re_instance b then 1 else 0)"

text \<open>\<open>Array.prototype.sort\<close> is stable, so a consistent comparison determines the result.\<close>

fun js_insert :: "('a \<Rightarrow> 'a \<Rightarrow> int) \<Rightarrow> 'a \<Rightarrow> 'a list \<Rightarrow> 'a list" where
  "js_insert cmp x [] = [x]"
| "js_insert cmp x (y # ys) = (if cmp x y \<le> 0 then x # y # ys else y # js_insert cmp x ys)"

definition js_sort :: "('a \<Rightarrow> 'a \<Rightarrow> int) \<Rightarrow> 'a list \<Rightarrow> 'a list" where
  "js_sort cmp xs = foldr (js_insert cmp) xs []"

text \<open>The 64 characters \<open>A-Za-z0-9_-\<close> and generated ids: \<open>r_\<close> and 21 of them.\<close>

definition room_id_alphabet :: jsstr where
  "room_id_alphabet = js ''ABCDEFGHIJKLMNOPQRSTUVWXYZabcdefghijklmnopqrstuvwxyz0123456789_-''"

definition generate_room_id :: "bytes \<Rightarrow> jsstr" where
  "generate_room_id rnd =
     js ''r_'' @ map (\<lambda>b. room_id_alphabet ! (unat b mod 64)) (take 21 rnd)"

section \<open>Order of colliding rooms\<close>

lemma js_insert_key:
  "(\<And>x y. cmp x y \<le> 0 \<longleftrightarrow> key x \<le> key y) \<Longrightarrow> js_insert cmp x ys = insort_key key x ys"
  by (induction ys) auto

lemma js_sort_key:
  assumes "\<And>x y. cmp x y \<le> 0 \<longleftrightarrow> key x \<le> key y"
  shows "js_sort cmp xs = sort_key key xs"
  unfolding js_sort_def sort_key_def
  by (rule foldr_cong) (simp_all add: js_insert_key [OF assms] fun_eq_iff)

lemma set_js_insert: "set (js_insert cmp x ys) = insert x (set ys)"
  by (induction ys) auto

lemma mset_js_insert: "mset (js_insert cmp x ys) = add_mset x (mset ys)"
  by (induction ys) auto

lemma mset_js_sort [simp]: "mset (js_sort cmp xs) = mset xs"
  unfolding js_sort_def by (induction xs) (simp_all add: mset_js_insert)

lemma set_js_sort [simp]: "set (js_sort cmp xs) = set xs"
  by (metis mset_js_sort set_mset_mset)

lemma length_js_sort [simp]: "length (js_sort cmp xs) = length xs"
  by (metis mset_js_sort size_mset)

lemma distinct_js_sort [simp]: "distinct (js_sort cmp xs) \<longleftrightarrow> distinct xs"
  by (rule mset_eq_imp_distinct_iff) simp

text \<open>The comparison is the lexicographic order on provenance, join order and instance id.\<close>

definition canonical_key :: "room_entry \<Rightarrow> nat \<times> nat \<times> jsstr" where
  "canonical_key e = (if re_fleet e then 0 else 1, re_join e, re_instance e)"

lemma compare_for_canonical_key:
  "compare_for_canonical a b \<le> 0 \<longleftrightarrow> canonical_key a \<le> canonical_key b"
  by (auto simp: compare_for_canonical_def canonical_key_def less_eq_prod_def Let_def)

section \<open>Generated ids\<close>

lemma room_id_alphabet_length: "length room_id_alphabet = 64"
  by (simp add: room_id_alphabet_def js_def)

lemma room_id_alphabet_chars: "list_all (\<lambda>u. room_id_char (unat u)) room_id_alphabet"
  by (simp add: room_id_alphabet_def js_def room_id_char_def)

lemma generate_room_id_valid: "is_valid_room_id (generate_room_id rnd)"
proof -
  have "room_id_char (unat (room_id_alphabet ! (n mod 64)))" for n
    using room_id_alphabet_chars by (simp add: list_all_length room_id_alphabet_length)
  then have "list_all (\<lambda>u. room_id_char (unat u)) (generate_room_id rnd)"
    by (simp add: generate_room_id_def js_def room_id_char_def list_all_iff)
  moreover have "length (generate_room_id rnd) \<le> 64"
    by (simp add: generate_room_id_def js_def)
  moreover have "1 \<le> length (generate_room_id rnd)"
    by (simp add: generate_room_id_def js_def)
  ultimately show ?thesis by (simp add: is_valid_room_id_def)
qed

end
