(* ===== verification/Fleet_State.thy ===== *)
theory Fleet_State
  imports Fleet_Domain Complex_Main
begin

text \<open>
  The read model and placement of the orchestrator: \<open>fleet/src/orchestrator/FleetState.ts\<close>,
  one definition per method. Methods that fill the memoised view return the new state with
  their answer. Randomness is an argument: the value of \<open>random()\<close> for a placement, the
  random bytes of each attempt for a generated id. The SHA-256 digest is an argument too.
  Load scores are exact quotients; the quotients of two doubles below \<open>2^26\<close> never
  coincide after rounding, so ties are the code's for capacities up to that size.
\<close>

section \<open>State\<close>

record inst_record =
  ir_info :: instance_info
  ir_seq :: int
  ir_hash :: jsstr
  ir_join :: nat

record locator =
  lc_room :: room_info
  lc_instance :: jsstr
  lc_raw :: jsstr

record resolved_view =
  rv_instances :: "instance_info list"
  rv_by_id :: "(jsstr, instance_info) jsmap"
  rv_by_public :: "(jsstr, locator) jsmap"

record reservation =
  rs_id :: jsstr
  rs_instance :: jsstr

record fleet =
  fs_records :: "(jsstr, inst_record) jsmap"
  fs_reservations :: "(jsstr, jsstr) jsmap"
  fs_reserved_by :: "(jsstr, nat) jsmap"
  fs_res_seq :: nat
  fs_reserved_ids :: "jsstr set"
  fs_pending_ids :: "(jsstr, jsstr) jsmap"
  fs_pending_by :: "(jsstr, nat) jsmap"
  fs_join :: nat
  fs_stale :: "jsstr set"
  fs_pending_status :: "(jsstr, jsstr) jsmap"
  fs_view :: "resolved_view option"
  fs_hash :: "jsstr option"

definition new_fleet :: fleet where
  "new_fleet = \<lparr>fs_records = [], fs_reservations = [], fs_reserved_by = [], fs_res_seq = 0,
     fs_reserved_ids = {}, fs_pending_ids = [], fs_pending_by = [], fs_join = 0, fs_stale = {},
     fs_pending_status = [], fs_view = None, fs_hash = None\<rparr>"

section \<open>Id resolution\<close>

definition entries_of_record :: "inst_record \<Rightarrow> room_entry list" where
  "entries_of_record r =
     map (\<lambda>room. \<lparr>re_instance = ii_id (ir_info r), re_process = ii_process (ir_info r), re_join = ir_join r,
                   re_raw = ri_id room, re_base = encode_room_id (ri_id room),
                   re_fleet = (\<not> ri_local room), re_room = room, re_public = []\<rparr>)
         (ii_rooms (ir_info r))"

definition collect_entries :: "(jsstr, inst_record) jsmap \<Rightarrow> room_entry list" where
  "collect_entries recs = concat (map (\<lambda>(k, r). entries_of_record r) recs)"

text \<open>The entries are shared objects; a bucket holds their positions.\<close>

definition group_entries :: "room_entry list \<Rightarrow> (jsstr, nat list) jsmap" where
  "group_entries es =
     fold (\<lambda>i groups. case jm_get groups (re_base (es ! i)) of
             None \<Rightarrow> jm_set groups (re_base (es ! i)) [i]
           | Some bucket \<Rightarrow> jm_set groups (re_base (es ! i)) (bucket @ [i]))
       [0..<length es] []"

definition order_bucket :: "room_entry list \<Rightarrow> nat list \<Rightarrow> nat list" where
  "order_bucket es bucket = js_sort (\<lambda>i j. compare_for_canonical (es ! i) (es ! j)) bucket"

definition set_public :: "nat \<Rightarrow> jsstr \<Rightarrow> room_entry list \<Rightarrow> room_entry list" where
  "set_public i p es = es[i := (es ! i)\<lparr>re_public := p\<rparr>]"

definition assign_bucket :: "jsstr \<times> nat list \<Rightarrow> room_entry list \<Rightarrow> room_entry list" where
  "assign_bucket g es = (case g of (base, bucket) \<Rightarrow>
     (case bucket of
        [i] \<Rightarrow> set_public i base es
      | _ \<Rightarrow>
         (let ordered = order_bucket es bucket; keeper = hd ordered; es = set_public keeper base es
          in fold (\<lambda>i es. if i \<noteq> keeper then set_public i (namespace_room_id (re_process (es ! i)) base) es
                          else es) ordered es)))"

definition assign_public_ids :: "room_entry list \<Rightarrow> room_entry list" where
  "assign_public_ids es = fold assign_bucket (group_entries es) es"

definition public_room :: "room_entry \<Rightarrow> room_info" where
  "public_room e = (re_room e)\<lparr>ri_id := re_public e\<rparr>"

definition index_entry ::
  "room_entry \<Rightarrow> (jsstr, room_info list) jsmap \<times> (jsstr, locator) jsmap
   \<Rightarrow> (jsstr, room_info list) jsmap \<times> (jsstr, locator) jsmap" where
  "index_entry e ix = (case ix of (rooms, pub) \<Rightarrow>
     (let room = public_room e
      in (case jm_get rooms (re_instance e) of
            None \<Rightarrow> jm_set rooms (re_instance e) [room]
          | Some l \<Rightarrow> jm_set rooms (re_instance e) (l @ [room]),
          jm_set pub (re_public e) \<lparr>lc_room = room, lc_instance = re_instance e, lc_raw = re_raw e\<rparr>)))"

definition build_view :: "(jsstr, inst_record) jsmap \<Rightarrow> resolved_view" where
  "build_view recs =
     (let (rooms, pub) = fold index_entry (assign_public_ids (collect_entries recs)) ([], []);
          insts = map (\<lambda>(k, r). (ir_info r)\<lparr>ii_rooms := (case jm_get rooms (ii_id (ir_info r)) of
                                   Some l \<Rightarrow> l | None \<Rightarrow> [])\<rparr>) recs
      in \<lparr>rv_instances = insts, rv_by_id = fold (\<lambda>i m. jm_set m (ii_id i) i) insts [],
          rv_by_public = pub\<rparr>)"

definition resolve :: "fleet \<Rightarrow> resolved_view \<times> fleet" where
  "resolve s = (case fs_view s of Some v \<Rightarrow> (v, s)
     | None \<Rightarrow> (let v = build_view (fs_records s) in (v, s\<lparr>fs_view := Some v\<rparr>)))"

definition invalidate :: "fleet \<Rightarrow> fleet" where
  "invalidate s = s\<lparr>fs_view := None, fs_hash := None\<rparr>"

section \<open>Read model\<close>

definition clear_pending_visibility :: "jsstr \<Rightarrow> fleet \<Rightarrow> fleet" where
  "clear_pending_visibility inst s = (case jm_get (fs_pending_by s) inst of
     None \<Rightarrow> s
   | Some _ \<Rightarrow>
       s\<lparr>fs_pending_ids := fold (\<lambda>(room, owner) m. if owner = inst then jm_delete m room else m)
                             (fs_pending_ids s) (fs_pending_ids s),
         fs_pending_by := jm_delete (fs_pending_by s) inst\<rparr>)"

definition reconcile_pending_status :: "jsstr \<Rightarrow> fleet \<Rightarrow> fleet" where
  "reconcile_pending_status inst s = (case jm_get (fs_pending_status s) inst of
     None \<Rightarrow> s
   | Some pending \<Rightarrow>
       (case jm_get (fs_records s) inst of
          None \<Rightarrow> s
        | Some r \<Rightarrow> (if ii_status (ir_info r) = pending
                     then s\<lparr>fs_pending_status := jm_delete (fs_pending_status s) inst\<rparr> else s)))"

definition apply_snapshot :: "jsstr \<Rightarrow> sync_payload \<Rightarrow> int \<Rightarrow> fleet \<Rightarrow> fleet \<times> bool" where
  "apply_snapshot inst p now s =
     (case jm_get (fs_records s) inst of
        Some old \<Rightarrow>
          (if sp_seq p \<le> ir_seq old then (s, False)
           else (let s = s\<lparr>fs_records := jm_set (fs_records s) inst
                         \<lparr>ir_info = build_instance_info inst p now, ir_seq = sp_seq p,
                          ir_hash = sp_hash p, ir_join = ir_join old\<rparr>\<rparr>
                 in (reconcile_pending_status inst (clear_pending_visibility inst (invalidate s)), True)))
      | None \<Rightarrow>
          (let s = s\<lparr>fs_join := fs_join s + 1\<rparr>;
               s = s\<lparr>fs_records := jm_set (fs_records s) inst
                         \<lparr>ir_info = build_instance_info inst p now, ir_seq = sp_seq p,
                          ir_hash = sp_hash p, ir_join = fs_join s\<rparr>\<rparr>
           in (reconcile_pending_status inst (clear_pending_visibility inst (invalidate s)), True)))"

text \<open>The cached row is one object, reachable from the list and from the index.\<close>

definition touch_view :: "jsstr \<Rightarrow> int \<Rightarrow> resolved_view \<Rightarrow> resolved_view" where
  "touch_view inst now v = (case jm_get (rv_by_id v) inst of
     None \<Rightarrow> v
   | Some i \<Rightarrow> v\<lparr>rv_by_id := jm_set (rv_by_id v) inst (i\<lparr>ii_last_sync := now\<rparr>),
                 rv_instances := map (\<lambda>j. if ii_id j = inst then j\<lparr>ii_last_sync := now\<rparr> else j) (rv_instances v)\<rparr>)"

definition touch :: "jsstr \<Rightarrow> int \<Rightarrow> fleet \<Rightarrow> fleet" where
  "touch inst now s = (case jm_get (fs_records s) inst of
     None \<Rightarrow> s
   | Some r \<Rightarrow>
       (let s = s\<lparr>fs_records := jm_set (fs_records s) inst (r\<lparr>ir_info := (ir_info r)\<lparr>ii_last_sync := now\<rparr>\<rparr>)\<rparr>;
            s = reconcile_pending_status inst (clear_pending_visibility inst s)
        in s\<lparr>fs_view := map_option (touch_view inst now) (fs_view s)\<rparr>))"

definition remove_instance :: "jsstr \<Rightarrow> fleet \<Rightarrow> fleet \<times> instance_info option" where
  "remove_instance inst s = (case jm_get (fs_records s) inst of
     None \<Rightarrow> (s, None)
   | Some r \<Rightarrow>
       (let s = s\<lparr>fs_records := jm_delete (fs_records s) inst, fs_stale := fs_stale s - {inst},
                  fs_pending_status := jm_delete (fs_pending_status s) inst\<rparr>
        in (invalidate (clear_pending_visibility inst s), Some (ir_info r))))"

definition set_stale :: "jsstr \<Rightarrow> bool \<Rightarrow> fleet \<Rightarrow> fleet" where
  "set_stale inst stale s =
     (if stale then s\<lparr>fs_stale := insert inst (fs_stale s)\<rparr> else s\<lparr>fs_stale := fs_stale s - {inst}\<rparr>)"

definition set_pending_status :: "jsstr \<Rightarrow> jsstr \<Rightarrow> fleet \<Rightarrow> fleet" where
  "set_pending_status inst status s =
     (if \<not> jm_has (fs_records s) inst then s
      else s\<lparr>fs_pending_status := jm_set (fs_pending_status s) inst status\<rparr>)"

definition last_hash_of :: "jsstr \<Rightarrow> fleet \<Rightarrow> jsstr option" where
  "last_hash_of inst s = map_option ir_hash (jm_get (fs_records s) inst)"

section \<open>Queries\<close>

definition fleet_instances :: "fleet \<Rightarrow> instance_info list \<times> fleet" where
  "fleet_instances s = (let (v, s) = resolve s in (rv_instances v, s))"

definition fleet_rooms :: "fleet \<Rightarrow> room_info list \<times> fleet" where
  "fleet_rooms s = (let (v, s) = resolve s in (concat (map ii_rooms (rv_instances v)), s))"

definition room_json :: "room_info \<Rightarrow> jsval" where
  "room_json r = JObj [(js ''id'', JStr (ri_id r)), (js ''type'', JStr (ri_type r)),
     (js ''connections'', JNum (ri_connections r)), (js ''instanceId'', JStr (ri_instance r)),
     (js ''endpointUrl'', JStr (ri_url r)), (js ''local'', JBool (ri_local r))]"

definition cap_json :: "int option \<Rightarrow> jsval" where
  "cap_json c = (case c of None \<Rightarrow> JNull | Some n \<Rightarrow> JNum n)"

definition instance_json :: "instance_info \<Rightarrow> jsval" where
  "instance_json i = JObj [(js ''id'', JStr (ii_id i)), (js ''name'', JStr (ii_name i)),
     (js ''processUid'', JStr (ii_process i)), (js ''endpointUrl'', JStr (ii_url i)),
     (js ''labels'', JObj (map (\<lambda>(k, v). (k, JStr v)) (ii_labels i))),
     (js ''roomTypes'', JArr (map JStr (ii_types i))), (js ''connections'', JNum (ii_connections i)),
     (js ''capacity'', JObj [(js ''maxConnections'', cap_json (max_connections (ii_capacity i))),
                           (js ''maxRooms'', cap_json (max_rooms (ii_capacity i)))]),
     (js ''autoCreate'', JBool (ii_auto i)), (js ''status'', JStr (ii_status i)),
     (js ''agentVersion'', JStr (ii_agent_version i)), (js ''protocolVersion'', JNum (ii_protocol i)),
     (js ''rooms'', JArr (map room_json (ii_rooms i)))]"

definition compute_state_hash :: "(jsstr \<Rightarrow> jsstr) \<Rightarrow> instance_info list \<Rightarrow> jsstr" where
  "compute_state_hash digest insts =
     hash64 digest (JArr (map instance_json
       (js_sort (\<lambda>a b. if ii_id a < ii_id b then -1 else if ii_id a > ii_id b then 1 else 0) insts)))"

definition add_types :: "jsstr list \<Rightarrow> jsstr list \<Rightarrow> jsstr list" where
  "add_types ts acc = fold (\<lambda>t acc. if t \<in> set acc then acc else acc @ [t]) ts acc"

definition fleet_stats_of :: "(jsstr \<Rightarrow> jsstr) \<Rightarrow> fleet \<Rightarrow> fleet_stats \<times> fleet" where
  "fleet_stats_of digest s =
     (let (v, s) = resolve s; insts = rv_instances v;
          h = (case fs_hash s of Some h \<Rightarrow> h | None \<Rightarrow> compute_state_hash digest insts)
      in (\<lparr>st_instances = length insts, st_rooms = fold (\<lambda>i n. n + length (ii_rooms i)) insts 0,
           st_connections = fold (\<lambda>i n. n + ii_connections i) insts 0,
           st_types = sort (fold (\<lambda>i. add_types (ii_types i)) insts []), st_hash = h\<rparr>,
          s\<lparr>fs_hash := Some h\<rparr>))"

definition get_instance :: "jsstr \<Rightarrow> fleet \<Rightarrow> instance_info option \<times> fleet" where
  "get_instance inst s = (let (v, s) = resolve s in (jm_get (rv_by_id v) inst, s))"

text \<open>The newest connection of a process: a loop that keeps the record with the highest join order.\<close>

definition latest_record :: "jsstr \<Rightarrow> fleet \<Rightarrow> inst_record option" where
  "latest_record uid s =
     fold (\<lambda>(k, r) latest. if ii_process (ir_info r) = uid \<and>
                              (case latest of None \<Rightarrow> True | Some l \<Rightarrow> ir_join r > ir_join l)
                           then Some r else latest) (fs_records s) None"

definition get_instance_by_process :: "jsstr \<Rightarrow> fleet \<Rightarrow> instance_info option \<times> fleet" where
  "get_instance_by_process uid s = (case latest_record uid s of
     None \<Rightarrow> (None, s) | Some r \<Rightarrow> get_instance (ii_id (ir_info r)) s)"

definition get_room :: "jsstr \<Rightarrow> fleet \<Rightarrow> room_info option \<times> fleet" where
  "get_room room s = (let (v, s) = resolve s in (map_option lc_room (jm_get (rv_by_public v) room), s))"

definition resolve_room :: "jsstr \<Rightarrow> fleet \<Rightarrow> (jsstr \<times> jsstr) option \<times> fleet" where
  "resolve_room room s = (let (v, s) = resolve s
     in (map_option (\<lambda>l. (lc_instance l, lc_raw l)) (jm_get (rv_by_public v) room), s))"

definition find_rooms ::
  "jsstr option \<Rightarrow> jsstr option \<Rightarrow> labels option \<Rightarrow> fleet \<Rightarrow> room_info list \<times> fleet" where
  "find_rooms type inst required s =
     (let (v, s) = resolve s
      in (concat (map (\<lambda>i. if (case inst of None \<Rightarrow> False | Some x \<Rightarrow> ii_id i \<noteq> x) then []
                           else if (case required of None \<Rightarrow> False | Some l \<Rightarrow> \<not> matches_labels (ii_labels i) l) then []
                           else filter (\<lambda>r. case type of None \<Rightarrow> True | Some t \<Rightarrow> ri_type r = t) (ii_rooms i))
            (rv_instances v)), s))"

section \<open>Placement\<close>

definition effective_status :: "fleet \<Rightarrow> instance_info \<Rightarrow> jsstr" where
  "effective_status s i = (case jm_get (fs_pending_status s) (ii_id i) of Some t \<Rightarrow> t | None \<Rightarrow> ii_status i)"

definition count_of :: "(jsstr, nat) jsmap \<Rightarrow> jsstr \<Rightarrow> nat" where
  "count_of m inst = (case jm_get m inst of Some n \<Rightarrow> n | None \<Rightarrow> 0)"

definition reserved_rooms :: "jsstr \<Rightarrow> fleet \<Rightarrow> nat" where
  "reserved_rooms inst s = count_of (fs_reserved_by s) inst"

definition pending_rooms :: "jsstr \<Rightarrow> fleet \<Rightarrow> nat" where
  "pending_rooms inst s = count_of (fs_pending_by s) inst"

definition has_headroom :: "fleet \<Rightarrow> instance_info \<Rightarrow> bool" where
  "has_headroom s i =
     (if (case max_rooms (ii_capacity i) of None \<Rightarrow> False
          | Some m \<Rightarrow> int (length (ii_rooms i) + reserved_rooms (ii_id i) s + pending_rooms (ii_id i) s) \<ge> m)
      then False
      else if (case max_connections (ii_capacity i) of None \<Rightarrow> False | Some m \<Rightarrow> ii_connections i \<ge> m)
      then False else True)"

definition reserve :: "jsstr \<Rightarrow> fleet \<Rightarrow> reservation \<times> fleet" where
  "reserve inst s =
     (let s = s\<lparr>fs_res_seq := fs_res_seq s + 1\<rparr>; t = js ''res_'' @ decimal (fs_res_seq s)
      in (\<lparr>rs_id = t, rs_instance = inst\<rparr>,
          s\<lparr>fs_reservations := jm_set (fs_reservations s) t inst,
            fs_reserved_by := jm_set (fs_reserved_by s) inst (count_of (fs_reserved_by s) inst + 1)\<rparr>))"

definition release :: "reservation \<Rightarrow> fleet \<Rightarrow> fleet" where
  "release r s =
     (if \<not> jm_has (fs_reservations s) (rs_id r) then s
      else (let s = s\<lparr>fs_reservations := jm_delete (fs_reservations s) (rs_id r)\<rparr>;
                count = count_of (fs_reserved_by s) (rs_instance r)
            in if count \<le> 1 then s\<lparr>fs_reserved_by := jm_delete (fs_reserved_by s) (rs_instance r)\<rparr>
               else s\<lparr>fs_reserved_by := jm_set (fs_reserved_by s) (rs_instance r) (count - 1)\<rparr>))"

text \<open>\<open>Math.floor(random() * length)\<close>, clamped to the last index.\<close>

definition choose_one :: "real \<Rightarrow> 'a list \<Rightarrow> 'a" where
  "choose_one rnd xs = xs ! min (nat (floor (rnd * real (length xs)))) (length xs - 1)"

definition score_of :: "bool \<Rightarrow> instance_info \<Rightarrow> real" where
  "score_of normalised i =
     (if normalised
      then real_of_int (ii_connections i) / (case max_connections (ii_capacity i) of Some m \<Rightarrow> real_of_int m | None \<Rightarrow> 0)
      else real_of_int (ii_connections i))"

definition pick :: "real \<Rightarrow> instance_info list \<Rightarrow> strategy \<Rightarrow> instance_info" where
  "pick rnd candidates strat =
     (if strat = Random then choose_one rnd candidates
      else (let normalised = list_all (\<lambda>i. max_connections (ii_capacity i) \<noteq> None) candidates;
                best = fold (\<lambda>i best. if strat = MostLoaded then max best (score_of normalised i)
                                      else min best (score_of normalised i))
                         candidates (score_of normalised (hd candidates))
            in choose_one rnd (filter (\<lambda>i. score_of normalised i = best) candidates)))"

definition candidate :: "fleet \<Rightarrow> placement_input \<Rightarrow> instance_info \<Rightarrow> bool" where
  "candidate s req i \<longleftrightarrow> effective_status s i = active \<and> ii_id i \<notin> fs_stale s \<and> ii_auto i \<and>
     pi_type req \<in> set (ii_types i) \<and>
     (case pi_labels req of None \<Rightarrow> True | Some l \<Rightarrow> matches_labels (ii_labels i) l) \<and> has_headroom s i"

definition raw_instances :: "fleet \<Rightarrow> instance_info list" where
  "raw_instances s = map (\<lambda>(k, r). ir_info r) (fs_records s)"

definition raw_instance_by_id :: "jsstr \<Rightarrow> fleet \<Rightarrow> instance_info option" where
  "raw_instance_by_id inst s = map_option ir_info (jm_get (fs_records s) inst)"

definition place_pinned ::
  "placement_input \<Rightarrow> instance_info option \<Rightarrow> fleet \<Rightarrow> (fleet_error + instance_info \<times> reservation) \<times> fleet" where
  "place_pinned req found s = (case found of
     None \<Rightarrow> (Inl InstanceNotFound, s)
   | Some i \<Rightarrow>
       (if effective_status s i = draining \<and> \<not> pi_force req then (Inl InstanceDraining, s)
        else if ii_id i \<in> fs_stale s \<and> \<not> pi_force req then (Inl InstanceDisconnected, s)
        else if \<not> ii_auto i then (Inl NoCandidate, s)
        else (let (r, s) = reserve (ii_id i) s in (Inr (i, r), s))))"

definition place ::
  "real \<Rightarrow> placement_input \<Rightarrow> fleet \<Rightarrow> (fleet_error + instance_info \<times> reservation) \<times> fleet" where
  "place rnd req s = (case (pi_instance req, pi_process req) of
     (Some _, Some _) \<Rightarrow> (Inl Validation, s)
   | (Some inst, None) \<Rightarrow> place_pinned req (raw_instance_by_id inst s) s
   | (None, Some uid) \<Rightarrow> place_pinned req (map_option ir_info (latest_record uid s)) s
   | (None, None) \<Rightarrow>
       (let candidates = filter (candidate s req) (raw_instances s)
        in if candidates = [] then (Inl NoCandidate, s)
           else let i = pick rnd candidates (case pi_strategy req of Some t \<Rightarrow> t | None \<Rightarrow> LeastLoaded);
                    (r, s) = reserve (ii_id i) s
                in (Inr (i, r), s)))"

section \<open>Room ids\<close>

definition is_room_id_taken :: "jsstr \<Rightarrow> fleet \<Rightarrow> bool \<times> fleet" where
  "is_room_id_taken room s =
     (if room \<in> fs_reserved_ids s then (True, s)
      else if jm_has (fs_pending_ids s) room then (True, s)
      else let (r, s) = get_room room s in (r \<noteq> None, s))"

text \<open>At most 1000 attempts; \<open>rnd k\<close> are the random bytes drawn when \<open>k\<close> attempts remain.\<close>

fun generate_free_room_id :: "nat \<Rightarrow> (nat \<Rightarrow> bytes) \<Rightarrow> fleet \<Rightarrow> (fleet_error + jsstr) \<times> fleet" where
  "generate_free_room_id 0 rnd s = (Inl RoomExists, s)"
| "generate_free_room_id (Suc k) rnd s =
     (let c = generate_room_id (rnd k); (taken, s) = is_room_id_taken c s
      in if \<not> taken then (Inr c, s) else generate_free_room_id k rnd s)"

definition reserve_room_id ::
  "(nat \<Rightarrow> bytes) \<Rightarrow> jsstr option \<Rightarrow> fleet \<Rightarrow> (fleet_error + jsstr) \<times> fleet" where
  "reserve_room_id rnd wanted s = (case wanted of
     None \<Rightarrow> (case generate_free_room_id 1000 rnd s of
         (Inl e, s) \<Rightarrow> (Inl e, s)
       | (Inr c, s) \<Rightarrow> (Inr c, s\<lparr>fs_reserved_ids := insert c (fs_reserved_ids s)\<rparr>))
   | Some room \<Rightarrow>
       (if \<not> is_valid_room_id room then (Inl Validation, s)
        else case is_room_id_taken room s of
          (True, s) \<Rightarrow> (Inl RoomExists, s)
        | (False, s) \<Rightarrow> (Inr room, s\<lparr>fs_reserved_ids := insert room (fs_reserved_ids s)\<rparr>)))"

definition release_room_id :: "jsstr \<Rightarrow> fleet \<Rightarrow> fleet" where
  "release_room_id room s = s\<lparr>fs_reserved_ids := fs_reserved_ids s - {room}\<rparr>"

definition hold_until_visible :: "jsstr \<Rightarrow> reservation \<Rightarrow> fleet \<Rightarrow> fleet" where
  "hold_until_visible room r s =
     (let s = release r s; s = s\<lparr>fs_reserved_ids := fs_reserved_ids s - {room}\<rparr>
      in if jm_has (fs_pending_ids s) room then s
         else s\<lparr>fs_pending_ids := jm_set (fs_pending_ids s) room (rs_instance r),
                fs_pending_by := jm_set (fs_pending_by s) (rs_instance r)
                                   (count_of (fs_pending_by s) (rs_instance r) + 1)\<rparr>)"

end
