(* ===== verification/Fleet_Resolve.thy ===== *)
theory Fleet_Resolve
  imports Fleet_State
begin

text \<open>
  The id resolution of \<open>FleetState.resolve\<close>. The grouping loop with its in-place updates is
  shown equal to a direct description: in every group of rooms with one base id the least entry
  of the canonical order keeps the id and the others are namespaced by their process. From it:
  uniqueness of canonical ids, and which room a public id resolves to.
\<close>

section \<open>Grouping\<close>

definition bucket_upto :: "room_entry list \<Rightarrow> nat \<Rightarrow> jsstr \<Rightarrow> nat list" where
  "bucket_upto es n b = filter (\<lambda>i. re_base (es ! i) = b) [0..<n]"

abbreviation bucket_of :: "room_entry list \<Rightarrow> jsstr \<Rightarrow> nat list" where
  "bucket_of es b \<equiv> bucket_upto es (length es) b"

definition group_step :: "room_entry list \<Rightarrow> nat \<Rightarrow> (jsstr, nat list) jsmap \<Rightarrow> (jsstr, nat list) jsmap" where
  "group_step es i groups = (case jm_get groups (re_base (es ! i)) of
      None \<Rightarrow> jm_set groups (re_base (es ! i)) [i]
    | Some bucket \<Rightarrow> jm_set groups (re_base (es ! i)) (bucket @ [i]))"

lemma group_entries_fold: "group_entries es = fold (group_step es) [0..<length es] []"
  unfolding group_entries_def group_step_def [abs_def] ..

lemma group_upto:
  "jm_ok (fold (group_step es) [0..<n] []) \<and>
   jm_get (fold (group_step es) [0..<n] []) b =
     (if bucket_upto es n b = [] then None else Some (bucket_upto es n b))"
proof (induction n arbitrary: b)
  case (Suc n)
  let ?g = "fold (group_step es) [0..<n] []"
  let ?b = "re_base (es ! n)"
  have b: "bucket_upto es (Suc n) c = bucket_upto es n c @ (if ?b = c then [n] else [])" for c
    by (simp add: bucket_upto_def)
  have f: "fold (group_step es) [0..<Suc n] [] = group_step es n ?g" by simp
  have s: "group_step es n ?g = jm_set ?g ?b (bucket_upto es n ?b @ [n])"
    unfolding group_step_def [of es n ?g] using conjunct2 [OF Suc [of ?b]] by (simp add: bucket_upto_def)
  show ?case
    unfolding f s using Suc [of b] by (auto simp: jsmap_simps b)
qed (simp add: bucket_upto_def)

lemma group_entries_get:
  "jm_get (group_entries es) b = (if bucket_of es b = [] then None else Some (bucket_of es b))"
  using group_upto by (simp add: group_entries_fold)

lemma group_entries_ok: "jm_ok (group_entries es)"
  using group_upto by (simp add: group_entries_fold)

lemma group_entries_mem:
  "(b, bucket) \<in> set (group_entries es) \<longleftrightarrow> bucket \<noteq> [] \<and> bucket = bucket_of es b"
proof -
  have "(b, bucket) \<in> set (group_entries es) \<longleftrightarrow> jm_get (group_entries es) b = Some bucket"
    using map_of_is_SomeI [OF group_entries_ok] map_of_SomeD by metis
  then show ?thesis by (auto simp: group_entries_get)
qed

lemma bucket_mem: "i \<in> set (bucket_of es b) \<longleftrightarrow> i < length es \<and> re_base (es ! i) = b"
  by (auto simp: bucket_upto_def)

lemma bucket_distinct: "distinct (bucket_of es b)"
  by (simp add: bucket_upto_def)

section \<open>Assignment of public ids\<close>

text \<open>Entries that differ in their public id only.\<close>

definition same_entries :: "room_entry list \<Rightarrow> room_entry list \<Rightarrow> bool" where
  "same_entries es fs \<longleftrightarrow> length fs = length es \<and>
     (\<forall>i < length es. fs ! i = (es ! i)\<lparr>re_public := re_public (fs ! i)\<rparr>)"

lemma same_entries_refl [simp]: "same_entries es es"
  by (simp add: same_entries_def)

lemma same_entries_length: "same_entries es fs \<Longrightarrow> length fs = length es"
  by (simp add: same_entries_def)

lemma same_entries_fields:
  assumes "same_entries es fs" "i < length es"
  shows "re_base (fs ! i) = re_base (es ! i)" "re_process (fs ! i) = re_process (es ! i)"
    "re_join (fs ! i) = re_join (es ! i)" "re_fleet (fs ! i) = re_fleet (es ! i)"
    "re_instance (fs ! i) = re_instance (es ! i)" "re_raw (fs ! i) = re_raw (es ! i)"
    "re_room (fs ! i) = re_room (es ! i)"
proof -
  obtain p where e: "fs ! i = (es ! i)\<lparr>re_public := p\<rparr>"
    using assms unfolding same_entries_def by blast
  then show "re_base (fs ! i) = re_base (es ! i)" "re_process (fs ! i) = re_process (es ! i)"
    "re_join (fs ! i) = re_join (es ! i)" "re_fleet (fs ! i) = re_fleet (es ! i)"
    "re_instance (fs ! i) = re_instance (es ! i)" "re_raw (fs ! i) = re_raw (es ! i)"
    "re_room (fs ! i) = re_room (es ! i)"
    by (simp_all add: e)
qed

lemma same_entries_set_public:
  assumes "same_entries es fs"
  shows "same_entries es (set_public i p fs)"
proof -
  have "set_public i p fs ! j = (es ! j)\<lparr>re_public := re_public (set_public i p fs ! j)\<rparr>"
    if j: "j < length es" for j
  proof -
    have e: "fs ! j = (es ! j)\<lparr>re_public := re_public (fs ! j)\<rparr>" and l: "length fs = length es"
      using assms j by (auto simp: same_entries_def)
    show ?thesis
    proof (cases "i = j")
      case True
      then have "set_public i p fs ! j = (fs ! j)\<lparr>re_public := p\<rparr>"
        using j l by (simp add: set_public_def)
      also have "\<dots> = (es ! j)\<lparr>re_public := p\<rparr>" by (subst e) simp
      finally show ?thesis by simp
    next
      case False
      with e show ?thesis by (simp add: set_public_def)
    qed
  qed
  with assms show ?thesis by (simp add: same_entries_def set_public_def)
qed

lemma set_public_get:
  "i < length fs \<Longrightarrow> re_public (set_public i p fs ! j) = (if i = j then p else re_public (fs ! j))"
  by (simp add: set_public_def)

lemma order_bucket_same:
  assumes "same_entries es fs" "\<forall>i \<in> set bucket. i < length es"
  shows "order_bucket fs bucket = order_bucket es bucket"
proof -
  have c: "compare_for_canonical (fs ! i) (fs ! j) = compare_for_canonical (es ! i) (es ! j)"
    if "i < length es" "j < length es" for i j
    using same_entries_fields [OF assms(1) that(1)] same_entries_fields [OF assms(1) that(2)]
    by (simp add: compare_for_canonical_def)
  have ins: "js_insert (\<lambda>i j. compare_for_canonical (fs ! i) (fs ! j)) x ys =
      js_insert (\<lambda>i j. compare_for_canonical (es ! i) (es ! j)) x ys"
    if "x < length es" "\<forall>y \<in> set ys. y < length es" for x ys
    using that by (induction ys) (simp_all add: c)
  from assms(2) show ?thesis
    unfolding order_bucket_def js_sort_def
  proof (induction bucket)
    case (Cons b bs)
    have "\<forall>y \<in> set (foldr (js_insert (\<lambda>i j. compare_for_canonical (es ! i) (es ! j))) bs []). y < length es"
      using Cons.prems set_js_sort [of _ bs] unfolding js_sort_def by simp
    with Cons show ?case by (simp add: ins)
  qed simp
qed

text \<open>The loop over a bucket: every entry but the keeper is namespaced.\<close>

lemma namespace_loop:
  assumes "same_entries es fs" "distinct xs" "\<forall>i \<in> set xs. i < length es"
  shows "same_entries es (fold (\<lambda>i fs. if i \<noteq> k then set_public i (namespace_room_id (re_process (fs ! i)) b) fs
                                        else fs) xs fs) \<and>
    (\<forall>j < length es.
      re_public (fold (\<lambda>i fs. if i \<noteq> k then set_public i (namespace_room_id (re_process (fs ! i)) b) fs
                                        else fs) xs fs ! j) =
      (if j \<in> set xs \<and> j \<noteq> k then namespace_room_id (re_process (es ! j)) b else re_public (fs ! j)))"
  using assms
proof (induction xs arbitrary: fs)
  case (Cons x xs)
  let ?fs = "if x \<noteq> k then set_public x (namespace_room_id (re_process (fs ! x)) b) fs else fs"
  have s: "same_entries es ?fs" using Cons.prems(1) by (simp add: same_entries_set_public)
  have p: "re_public (?fs ! j) =
      (if j = x \<and> j \<noteq> k then namespace_room_id (re_process (es ! j)) b else re_public (fs ! j))"
    if "j < length es" for j
    using Cons.prems same_entries_fields(2) [OF Cons.prems(1) that] same_entries_length [OF Cons.prems(1)]
    by (auto simp: set_public_get)
  from Cons.IH [OF s] Cons.prems(2,3) p Cons.prems(2) show ?case by auto
qed simp

definition keeper_of :: "room_entry list \<Rightarrow> nat list \<Rightarrow> nat" where
  "keeper_of es bucket = hd (order_bucket es bucket)"

lemma assign_bucket_effect:
  assumes s: "same_entries es fs" and b: "bucket \<noteq> []" "distinct bucket" "\<forall>i \<in> set bucket. i < length es"
  shows "same_entries es (assign_bucket (base, bucket) fs) \<and>
    (\<forall>j < length es. re_public (assign_bucket (base, bucket) fs ! j) =
       (if j \<in> set bucket
        then if j = keeper_of es bucket then base else namespace_room_id (re_process (es ! j)) base
        else re_public (fs ! j)))"
proof (cases "\<exists>i. bucket = [i]")
  case True
  then obtain i where i: "bucket = [i]" by blast
  then have "keeper_of es bucket = i" by (simp add: keeper_of_def order_bucket_def js_sort_def)
  with i s b show ?thesis
    by (auto simp: assign_bucket_def same_entries_set_public set_public_get same_entries_length)
next
  case False
  let ?k = "keeper_of es bucket"
  have o: "set (order_bucket es bucket) = set bucket" "distinct (order_bucket es bucket)"
    "order_bucket es bucket \<noteq> []"
    using b by (auto simp: order_bucket_def) (metis length_0_conv length_js_sort)
  then have k: "?k \<in> set bucket" unfolding keeper_of_def using hd_in_set by blast
  let ?gs = "set_public ?k base fs"
  let ?step = "\<lambda>i fs. if i \<noteq> ?k then set_public i (namespace_room_id (re_process (fs ! i)) base) fs else fs"
  have a: "assign_bucket (base, bucket) fs = fold ?step (order_bucket es bucket) ?gs"
    using False b(1) order_bucket_same [OF s b(3)]
    by (auto simp: assign_bucket_def keeper_of_def Let_def split: list.splits)
  have g: "same_entries es ?gs" using s by (rule same_entries_set_public)
  have kl: "?k < length fs" using k b(3) same_entries_length [OF s] by auto
  from namespace_loop [OF g o(2), of ?k base] o(1) b(3) k kl show ?thesis
    unfolding a by (auto simp: set_public_get)
qed

lemma assign_groups:
  assumes "same_entries es fs"
    and "\<forall>(b, bucket) \<in> set gs. bucket \<noteq> [] \<and> bucket = bucket_of es b" "distinct (map fst gs)"
  shows "same_entries es (fold assign_bucket gs fs) \<and>
    (\<forall>j < length es. re_public (fold assign_bucket gs fs ! j) =
      (if re_base (es ! j) \<in> set (map fst gs)
       then if j = keeper_of es (bucket_of es (re_base (es ! j))) then re_base (es ! j)
            else namespace_room_id (re_process (es ! j)) (re_base (es ! j))
       else re_public (fs ! j)))"
  using assms
proof (induction gs arbitrary: fs)
  case (Cons g gs)
  obtain b bucket where g: "g = (b, bucket)" by (cases g)
  with Cons.prems(2) have bu: "bucket \<noteq> []" "bucket = bucket_of es b" by auto
  have e: "distinct bucket" "\<forall>i \<in> set bucket. i < length es"
    using bucket_distinct bucket_mem unfolding bu(2) by blast+
  note eff = assign_bucket_effect [OF Cons.prems(1) bu(1) e, of b]
  note ih = Cons.IH [OF conjunct1 [OF eff]]
  have m: "j \<in> set bucket \<longleftrightarrow> re_base (es ! j) = b" if "j < length es" for j
    using that bucket_mem [of j es b] by (simp add: bu(2))
  have "b \<notin> set (map fst gs)" using Cons.prems(3) g by simp
  with ih eff Cons.prems(2,3) g m bu(2) show ?case by (auto split: if_splits)
qed simp

definition public_id_of :: "room_entry list \<Rightarrow> nat \<Rightarrow> jsstr" where
  "public_id_of es j =
     (if j = keeper_of es (bucket_of es (re_base (es ! j))) then re_base (es ! j)
      else namespace_room_id (re_process (es ! j)) (re_base (es ! j)))"

theorem assign_public_ids_spec:
  "length (assign_public_ids es) = length es"
  "j < length es \<Longrightarrow> assign_public_ids es ! j = (es ! j)\<lparr>re_public := public_id_of es j\<rparr>"
proof -
  have gs: "\<forall>(b, bucket) \<in> set (group_entries es). bucket \<noteq> [] \<and> bucket = bucket_of es b"
    using group_entries_mem by auto
  note a = assign_groups [OF same_entries_refl gs group_entries_ok]
  then show "length (assign_public_ids es) = length es"
    by (simp add: assign_public_ids_def same_entries_def)
  assume j: "j < length es"
  have "bucket_of es (re_base (es ! j)) \<noteq> []" using j bucket_mem by (metis empty_iff empty_set)
  then have "(re_base (es ! j), bucket_of es (re_base (es ! j))) \<in> set (group_entries es)"
    by (simp add: group_entries_mem)
  then have "re_base (es ! j) \<in> set (map fst (group_entries es))" by force
  then have p: "re_public (assign_public_ids es ! j) = public_id_of es j"
    unfolding assign_public_ids_def public_id_of_def using conjunct2 [OF a] j by (simp only: if_True)
  have "assign_public_ids es ! j = (es ! j)\<lparr>re_public := re_public (assign_public_ids es ! j)\<rparr>"
    unfolding assign_public_ids_def using conjunct1 [OF a] j unfolding same_entries_def by blast
  then show "assign_public_ids es ! j = (es ! j)\<lparr>re_public := public_id_of es j\<rparr>"
    by (simp only: p)
qed

section \<open>The keeper\<close>

lemma order_bucket_key: "order_bucket es bucket = sort_key (\<lambda>i. canonical_key (es ! i)) bucket"
  unfolding order_bucket_def by (rule js_sort_key) (rule compare_for_canonical_key)

lemma keeper_in: "bucket \<noteq> [] \<Longrightarrow> keeper_of es bucket \<in> set bucket"
  unfolding keeper_of_def order_bucket_def
  by (metis hd_in_set length_0_conv length_js_sort set_js_sort)

lemma keeper_least:
  assumes "j \<in> set bucket"
  shows "compare_for_canonical (es ! keeper_of es bucket) (es ! j) \<le> 0"
proof -
  let ?f = "\<lambda>i. canonical_key (es ! i)"
  have "sorted (map ?f (order_bucket es bucket))" by (simp add: order_bucket_key)
  moreover have "j \<in> set (order_bucket es bucket)" using assms by (simp add: order_bucket_key)
  ultimately have "?f (hd (order_bucket es bucket)) \<le> ?f j"
    by (cases "order_bucket es bucket") auto
  then show ?thesis by (simp add: compare_for_canonical_key keeper_of_def)
qed

definition encoded_entries :: "room_entry list \<Rightarrow> bool" where
  "encoded_entries es \<longleftrightarrow> (\<forall>e \<in> set es. re_base e = encode_room_id (re_raw e))"

lemma encoded_collect: "encoded_entries (collect_entries recs)"
  by (auto simp: encoded_entries_def collect_entries_def entries_of_record_def)

lemma base_encoded: "encoded_entries es \<Longrightarrow> i < length es \<Longrightarrow> re_base (es ! i) = encode_room_id (re_raw (es ! i))"
  by (simp add: encoded_entries_def)

lemma public_is_base:
  assumes "encoded_entries es" "i < length es" "j < length es"
  shows "public_id_of es j = re_base (es ! i) \<longleftrightarrow> j = keeper_of es (bucket_of es (re_base (es ! i)))"
proof -
  have ne: "bucket_of es (re_base (es ! i)) \<noteq> []" using assms(2) bucket_mem by (metis empty_iff empty_set)
  have "re_base (es ! keeper_of es (bucket_of es (re_base (es ! i)))) = re_base (es ! i)"
    using keeper_in [OF ne] bucket_mem by blast
  moreover have "namespace_room_id (re_process (es ! j)) (re_base (es ! j)) \<noteq> re_base (es ! i)"
    using base_encoded [OF assms(1,2)] namespace_not_encoded by simp
  ultimately show ?thesis unfolding public_id_of_def by auto
qed

lemma public_id_inject:
  assumes "encoded_entries es" "i < length es" "j < length es"
    and "public_id_of es i = public_id_of es j"
  shows "i = j \<or> re_process (es ! i) = re_process (es ! j) \<and> re_base (es ! i) = re_base (es ! j)"
proof (cases "public_id_of es i = re_base (es ! i)")
  case True
  with assms public_is_base [of es i i] public_is_base [of es i j] show ?thesis by simp
next
  case False
  show ?thesis
  proof (cases "public_id_of es j = re_base (es ! j)")
    case True
    with assms public_is_base [of es j i] public_is_base [of es j j] show ?thesis by simp
  next
    case nj: False
    from False nj assms(4) have "namespace_room_id (re_process (es ! i)) (re_base (es ! i)) =
        namespace_room_id (re_process (es ! j)) (re_base (es ! j))"
      unfolding public_id_of_def by (simp split: if_splits)
    with assms(1-3) show ?thesis
      using base_encoded [OF assms(1,2)] base_encoded [OF assms(1,3)] namespace_room_id_inject by metis
  qed
qed

section \<open>The view\<close>

definition locator_of :: "room_entry \<Rightarrow> locator" where
  "locator_of e = \<lparr>lc_room = public_room e, lc_instance = re_instance e, lc_raw = re_raw e\<rparr>"

lemma index_entries:
  "jm_get (fst (fold index_entry es (rooms, pub))) inst =
     (case filter (\<lambda>e. re_instance e = inst) es of
        [] \<Rightarrow> jm_get rooms inst
      | fs \<Rightarrow> Some ((case jm_get rooms inst of None \<Rightarrow> [] | Some l \<Rightarrow> l) @ map public_room fs)) \<and>
   jm_get (snd (fold index_entry es (rooms, pub))) p =
     (case filter (\<lambda>e. re_public e = p) es of [] \<Rightarrow> jm_get pub p | fs \<Rightarrow> Some (locator_of (last fs)))"
proof (induction es arbitrary: rooms pub)
  case (Cons e es)
  obtain rooms' pub' where i: "index_entry e (rooms, pub) = (rooms', pub')" by (cases "index_entry e (rooms, pub)")
  have r: "jm_get rooms' inst = (if re_instance e = inst
      then Some ((case jm_get rooms inst of None \<Rightarrow> [] | Some l \<Rightarrow> l) @ [public_room e]) else jm_get rooms inst)"
    and q: "jm_get pub' p = (if re_public e = p then Some (locator_of e) else jm_get pub p)"
    using i by (auto simp: index_entry_def Let_def jsmap_simps locator_of_def split: option.splits)
  have f: "fold index_entry (e # es) (rooms, pub) = fold index_entry es (rooms', pub')" using i by simp
  show ?case
    unfolding f using Cons.IH [of rooms' pub'] r q by (auto split: list.splits)
qed simp

definition view_rooms :: "(jsstr, inst_record) jsmap \<Rightarrow> jsstr \<Rightarrow> room_info list" where
  "view_rooms recs inst =
     map public_room (filter (\<lambda>e. re_instance e = inst) (assign_public_ids (collect_entries recs)))"

definition view_row :: "(jsstr, inst_record) jsmap \<Rightarrow> inst_record \<Rightarrow> instance_info" where
  "view_row recs r = (ir_info r)\<lparr>ii_rooms := view_rooms recs (ii_id (ir_info r))\<rparr>"

definition records_ok :: "(jsstr, inst_record) jsmap \<Rightarrow> bool" where
  "records_ok recs \<longleftrightarrow> jm_ok recs \<and> (\<forall>(k, r) \<in> set recs. ii_id (ir_info r) = k)"

lemma build_view_instances: "rv_instances (build_view recs) = map (\<lambda>(k, r). view_row recs r) recs"
proof -
  have "jm_get (fst (fold index_entry es ([], []))) inst =
      (case filter (\<lambda>e. re_instance e = inst) es of [] \<Rightarrow> None | fs \<Rightarrow> Some (map public_room fs))" for es inst
    using index_entries [of es "[]" "[]" inst undefined] by (simp split: list.splits)
  then show ?thesis
    by (simp add: build_view_def view_row_def view_rooms_def case_prod_unfold Let_def split: list.splits)
qed

lemma build_view_public:
  "jm_get (rv_by_public (build_view recs)) p =
     (case filter (\<lambda>e. re_public e = p) (assign_public_ids (collect_entries recs)) of
        [] \<Rightarrow> None | fs \<Rightarrow> Some (locator_of (last fs)))"
  using index_entries [of "assign_public_ids (collect_entries recs)" "[]" "[]" undefined p]
  by (simp add: build_view_def case_prod_unfold Let_def split: list.splits)

text \<open>The lookup table of rows with distinct ids lists them in order.\<close>

lemma fold_set_new:
  "distinct (map fst m @ map ii_id insts) \<Longrightarrow>
   fold (\<lambda>i m. jm_set m (ii_id i) i) insts m = m @ map (\<lambda>i. (ii_id i, i)) insts"
proof (induction insts arbitrary: m)
  case (Cons i insts)
  then have "\<not> jm_has m (ii_id i)" by (auto simp: jm_has_iff_keys)
  then have "jm_set m (ii_id i) i = m @ [(ii_id i, i)]" by (rule jm_set_new)
  with Cons show ?case by auto
qed simp

lemma view_row_id [simp]: "ii_id (view_row recs r) = ii_id (ir_info r)"
  by (simp add: view_row_def)

lemma records_ids: "records_ok recs \<Longrightarrow> map (\<lambda>(k, r). ii_id (ir_info r)) recs = jm_keys recs"
  by (auto simp: records_ok_def)

lemma build_view_by_id:
  assumes "records_ok recs"
  shows "rv_by_id (build_view recs) = map (\<lambda>(k, r). (k, view_row recs r)) recs"
proof -
  have ids: "map ii_id (rv_instances (build_view recs)) = jm_keys recs"
    using records_ids [OF assms] by (simp add: build_view_instances comp_def case_prod_unfold)
  then have "distinct (map fst [] @ map ii_id (rv_instances (build_view recs)))"
    using assms by (simp add: records_ok_def)
  from fold_set_new [OF this]
  have "rv_by_id (build_view recs) = map (\<lambda>i. (ii_id i, i)) (rv_instances (build_view recs))"
    by (simp add: build_view_def case_prod_unfold Let_def)
  also have "\<dots> = map (\<lambda>(k, r). (k, view_row recs r)) recs"
    using assms by (auto simp: build_view_instances records_ok_def)
  finally show ?thesis .
qed

text \<open>No room is hidden: a row of the view lists the reported rooms in order, with other ids.\<close>

lemma collect_of_instance:
  "records_ok recs \<Longrightarrow> (k, r) \<in> set recs \<Longrightarrow>
   filter (\<lambda>e. re_instance e = k) (collect_entries recs) = entries_of_record r"
proof (induction recs)
  case (Cons p recs)
  obtain k' r' where p: "p = (k', r')" by (cases p)
  from Cons.prems(1) have ok: "records_ok recs" and id': "ii_id (ir_info r') = k'" and new: "k' \<notin> fst ` set recs"
    by (auto simp: records_ok_def p)
  have own: "filter (\<lambda>e. re_instance e = ii_id (ir_info q)) (entries_of_record q) = entries_of_record q" for q
    by (simp add: entries_of_record_def filter_map comp_def)
  have none: "filter (\<lambda>e. re_instance e = c) (entries_of_record q) = []" if "ii_id (ir_info q) \<noteq> c" for c q
    using that by (simp add: entries_of_record_def filter_map comp_def)
  have ids: "\<And>k r. (k, r) \<in> set recs \<Longrightarrow> ii_id (ir_info r) = k" using ok by (auto simp: records_ok_def)
  show ?case
  proof (cases "k = k'")
    case True
    with Cons.prems(2) new p have r: "r = r'" by force
    have "filter (\<lambda>e. re_instance e = k) (collect_entries recs) = []"
      using True new ids by (force simp: filter_empty_conv collect_entries_def entries_of_record_def)
    with True r id' own [of r'] show ?thesis by (simp add: p collect_entries_def)
  next
    case False
    with Cons.prems(2) p have m: "(k, r) \<in> set recs" by simp
    from Cons.IH [OF ok m] none [of r' k] False id' show ?thesis by (simp add: p collect_entries_def)
  qed
qed simp

lemma filter_public:
  assumes "\<And>e p. P (e\<lparr>re_public := p\<rparr>) = P e"
  shows "map re_room (filter P (assign_public_ids es)) = map re_room (filter P es)"
proof -
  have a: "assign_public_ids es = map (\<lambda>j. (es ! j)\<lparr>re_public := public_id_of es j\<rparr>) [0..<length es]"
    by (rule nth_equalityI) (simp_all add: assign_public_ids_spec)
  have "filter P es = map (\<lambda>j. es ! j) (filter (\<lambda>j. P (es ! j)) [0..<length es])"
    by (subst map_nth [of es, symmetric]) (simp only: filter_map comp_def)
  with a assms show ?thesis by (simp add: filter_map comp_def)
qed

lemma view_rooms_content:
  assumes "records_ok recs" "(k, r) \<in> set recs"
  shows "map (\<lambda>room. room\<lparr>ri_id := i\<rparr>) (view_rooms recs k) = map (\<lambda>room. room\<lparr>ri_id := i\<rparr>) (ii_rooms (ir_info r))"
proof -
  have "map (\<lambda>room. room\<lparr>ri_id := i\<rparr>) (view_rooms recs k) =
      map (\<lambda>room. room\<lparr>ri_id := i\<rparr>) (map re_room (filter (\<lambda>e. re_instance e = k) (assign_public_ids (collect_entries recs))))"
    by (simp add: view_rooms_def public_room_def)
  also have "\<dots> = map (\<lambda>room. room\<lparr>ri_id := i\<rparr>) (map re_room (entries_of_record r))"
    by (subst filter_public) (simp_all add: collect_of_instance [OF assms])
  finally show ?thesis by (simp add: entries_of_record_def comp_def)
qed

end
