(* ===== verification/Fleet_State_Inv.thy ===== *)
theory Fleet_State_Inv
  imports Fleet_Resolve
begin

text \<open>
  The invariant of \<open>FleetState\<close> and its preservation by every operation: the per-instance
  counters are the counts they stand for, a token or an id is held in one way only, join orders
  are distinct, and the memoised view and hash are what recomputing them would give.
\<close>

declare map_of_eq_Some_iff [simp del] Some_eq_map_of_iff [simp del]

section \<open>Invariant\<close>

text \<open>A counter map agrees with the map it is derived from.\<close>

definition counts :: "(jsstr, jsstr) jsmap \<Rightarrow> (jsstr, nat) jsmap \<Rightarrow> bool" where
  "counts held by_inst \<longleftrightarrow> jm_ok held \<and> jm_ok by_inst \<and>
     (\<forall>inst. jm_get by_inst inst =
        (let n = length (filter (\<lambda>(k, i). i = inst) held) in if n = 0 then None else Some n))"

definition view_ok :: "fleet \<Rightarrow> bool" where
  "view_ok s \<longleftrightarrow> (\<forall>v. fs_view s = Some v \<longrightarrow> v = build_view (fs_records s))"

definition hash_ok :: "(jsstr \<Rightarrow> jsstr) \<Rightarrow> fleet \<Rightarrow> bool" where
  "hash_ok digest s \<longleftrightarrow>
     (\<forall>h. fs_hash s = Some h \<longrightarrow> h = compute_state_hash digest (rv_instances (build_view (fs_records s))))"

definition tokens_ok :: "fleet \<Rightarrow> bool" where
  "tokens_ok s \<longleftrightarrow> counts (fs_reservations s) (fs_reserved_by s) \<and>
     (\<forall>t. jm_has (fs_reservations s) t \<longrightarrow> (\<exists>n \<le> fs_res_seq s. t = js ''res_'' @ decimal n))"

definition ids_ok :: "fleet \<Rightarrow> bool" where
  "ids_ok s \<longleftrightarrow> counts (fs_pending_ids s) (fs_pending_by s) \<and>
     (\<forall>room. jm_has (fs_pending_ids s) room \<longrightarrow> room \<notin> fs_reserved_ids s)"

definition joins_ok :: "fleet \<Rightarrow> bool" where
  "joins_ok s \<longleftrightarrow> distinct (map (\<lambda>(k, r). ir_join r) (fs_records s)) \<and>
     (\<forall>(k, r) \<in> set (fs_records s). ir_join r \<le> fs_join s)"

definition fleet_inv :: "(jsstr \<Rightarrow> jsstr) \<Rightarrow> fleet \<Rightarrow> bool" where
  "fleet_inv digest s \<longleftrightarrow> records_ok (fs_records s) \<and> joins_ok s \<and> tokens_ok s \<and> ids_ok s \<and>
     jm_ok (fs_pending_status s) \<and> view_ok s \<and> hash_ok digest s"

lemma new_fleet_inv: "fleet_inv digest new_fleet"
  by (simp add: fleet_inv_def new_fleet_def records_ok_def joins_ok_def tokens_ok_def ids_ok_def
      counts_def view_ok_def hash_ok_def)

section \<open>Counters\<close>

lemma counts_ok: "counts held by \<Longrightarrow> jm_ok held \<and> jm_ok by"
  by (simp add: counts_def)

lemma count_of_counts:
  "counts held by \<Longrightarrow> count_of by inst = length (filter (\<lambda>(k, i). i = inst) held)"
  by (simp add: counts_def count_of_def Let_def)

lemma counts_None:
  "counts held by \<Longrightarrow> jm_get by inst = None \<longleftrightarrow> (\<forall>k. jm_get held k \<noteq> Some inst)"
proof -
  assume c: "counts held by"
  then have "jm_get by inst = None \<longleftrightarrow> filter (\<lambda>(k, i). i = inst) held = []"
    by (simp add: counts_def Let_def)
  also have "\<dots> \<longleftrightarrow> (\<forall>k. (k, inst) \<notin> set held)" by (auto simp: filter_empty_conv)
  also have "\<dots> \<longleftrightarrow> (\<forall>k. jm_get held k \<noteq> Some inst)"
    using counts_ok [OF c] by (metis map_of_is_SomeI map_of_SomeD)
  finally show ?thesis .
qed

lemma filter_delete_length:
  assumes "jm_ok held" "jm_get held k = Some v"
  shows "length (filter (\<lambda>(k, i). P i) (jm_delete held k)) + (if P v then 1 else 0) =
         length (filter (\<lambda>(k, i). P i) held)"
  using assms
proof (induction held)
  case (Cons p held)
  obtain k' v' where p: "p = (k', v')" by (cases p)
  show ?case
  proof (cases "k = k'")
    case True
    with Cons.prems p have "jm_delete held k = held" by (intro jm_delete_absent) (simp add: jm_has_iff_keys)
    with True Cons.prems p show ?thesis by simp
  next
    case False
    with Cons p show ?thesis by auto
  qed
qed simp

lemma counts_add:
  assumes c: "counts held by" and new: "\<not> jm_has held k"
  shows "counts (jm_set held k inst) (jm_set by inst (count_of by inst + 1))"
proof -
  have s: "jm_set held k inst = held @ [(k, inst)]" using new by (rule jm_set_new)
  have ok: "jm_ok (jm_set held k inst)" "jm_ok (jm_set by inst (count_of by inst + 1))"
    using counts_ok [OF c] by auto
  have g: "jm_get (jm_set by inst (count_of by inst + 1)) x =
      (let n = length (filter (\<lambda>(k, i). i = x) (jm_set held k inst)) in if n = 0 then None else Some n)" for x
    using c unfolding s by (auto simp: jsmap_simps count_of_counts [OF c] counts_def Let_def)
  from ok g show ?thesis unfolding counts_def by blast
qed

lemma counts_remove:
  assumes c: "counts held by" and old: "jm_get held k = Some inst"
  shows "counts (jm_delete held k)
    (if count_of by inst \<le> 1 then jm_delete by inst else jm_set by inst (count_of by inst - 1))"
proof -
  let ?by = "if count_of by inst \<le> 1 then jm_delete by inst else jm_set by inst (count_of by inst - 1)"
  have ok: "jm_ok (jm_delete held k)" "jm_ok ?by" using counts_ok [OF c] by auto
  define old_n new_n where "old_n = (\<lambda>x. length (filter (\<lambda>(k, i). i = x) held))"
    and "new_n = (\<lambda>x. length (filter (\<lambda>(k, i). i = x) (jm_delete held k)))"
  have n: "new_n x + (if inst = x then 1 else 0) = old_n x" for x
    using filter_delete_length [OF conjunct1 [OF counts_ok [OF c]] old, of "\<lambda>i. i = x"]
    by (simp add: old_n_def new_n_def)
  have o: "jm_get by x = (if old_n x = 0 then None else Some (old_n x))" for x
    using c by (simp add: counts_def Let_def old_n_def)
  then have "count_of by inst = old_n inst" by (simp add: count_of_def)
  then have "jm_get ?by x = (if new_n x = 0 then None else Some (new_n x))" for x
    using o [of x] n [of inst] n [of x] by (cases "x = inst") (auto simp: jsmap_simps)
  with ok show ?thesis unfolding counts_def new_n_def Let_def by blast
qed

text \<open>Dropping every hold of an instance.\<close>

lemma fold_delete_filter:
  assumes "jm_ok (m :: (jsstr, jsstr) jsmap)"
  shows "fold (\<lambda>(room, owner) m. if owner = inst then jm_delete m room else m) m m =
         filter (\<lambda>(k, i). i \<noteq> inst) m"
proof -
  have del: "fold (\<lambda>(room, owner) m. if owner = inst then jm_delete m room else m) ps xs =
      filter (\<lambda>(k, i). \<not> (\<exists>o'. (k, o') \<in> set ps \<and> o' = inst)) xs" for ps and xs :: "(jsstr \<times> jsstr) list"
  proof (induction ps arbitrary: xs)
    case (Cons p ps)
    obtain room own where p: "p = (room, own)" by (cases p)
    have "jm_delete xs room = filter (\<lambda>(k, i). k \<noteq> room) xs" by (induction xs) auto
    then show ?case by (auto simp: p Cons intro!: filter_cong)
  qed simp
  show ?thesis
    unfolding del
  proof (rule filter_cong)
    fix x assume x: "x \<in> set m"
    obtain k i where "x = (k, i)" by (cases x)
    with x assms show "(case x of (k, i) \<Rightarrow> \<not> (\<exists>o'. (k, o') \<in> set m \<and> o' = inst)) = (case x of (k, i) \<Rightarrow> i \<noteq> inst)"
      by (auto dest: eq_key_imp_eq_value)
  qed simp
qed

lemma counts_drop:
  assumes c: "counts held by"
  shows "counts (filter (\<lambda>(k, i). i \<noteq> inst) held) (jm_delete by inst)"
proof -
  have ok: "jm_ok (filter (\<lambda>(k, i). i \<noteq> inst) held)" "jm_ok (jm_delete by inst)"
    using counts_ok [OF c] by (simp_all add: distinct_map_filter)
  have "filter (\<lambda>(k, i). i = x) (filter (\<lambda>(k, i). i \<noteq> inst) held) =
      (if x = inst then [] else filter (\<lambda>(k, i). i = x) held)" for x
    by (auto simp: filter_empty_conv intro!: filter_cong)
  then have g: "jm_get (jm_delete by inst) x =
      (let n = length (filter (\<lambda>(k, i). i = x) (filter (\<lambda>(k, i). i \<noteq> inst) held)) in if n = 0 then None else Some n)" for x
    using c by (simp add: jsmap_simps counts_def Let_def)
  from ok g show ?thesis unfolding counts_def by blast
qed

section \<open>Queries\<close>

lemma resolve_eq:
  "view_ok s \<Longrightarrow> resolve s = (build_view (fs_records s), s\<lparr>fs_view := Some (build_view (fs_records s))\<rparr>)"
  by (cases "fs_view s") (auto simp: resolve_def view_ok_def Let_def)

text \<open>What a query may change: it fills the memo.\<close>

definition memo_only :: "fleet \<Rightarrow> fleet \<Rightarrow> bool" where
  "memo_only s t \<longleftrightarrow> t = s\<lparr>fs_view := fs_view t, fs_hash := fs_hash t\<rparr>"

lemma memo_only_refl [simp]: "memo_only s s"
  by (simp add: memo_only_def)

lemma memo_only_trans: "memo_only s t \<Longrightarrow> memo_only t u \<Longrightarrow> memo_only s u"
  unfolding memo_only_def by (cases s, cases t, cases u) simp

lemma memo_only_fields:
  assumes "memo_only s t"
  shows "fs_records t = fs_records s" "fs_reservations t = fs_reservations s"
    "fs_reserved_by t = fs_reserved_by s" "fs_res_seq t = fs_res_seq s"
    "fs_reserved_ids t = fs_reserved_ids s" "fs_pending_ids t = fs_pending_ids s"
    "fs_pending_by t = fs_pending_by s" "fs_join t = fs_join s" "fs_stale t = fs_stale s"
    "fs_pending_status t = fs_pending_status s"
proof -
  obtain v h where e: "t = s\<lparr>fs_view := v, fs_hash := h\<rparr>" using assms unfolding memo_only_def by blast
  show "fs_records t = fs_records s" "fs_reservations t = fs_reservations s"
    "fs_reserved_by t = fs_reserved_by s" "fs_res_seq t = fs_res_seq s"
    "fs_reserved_ids t = fs_reserved_ids s" "fs_pending_ids t = fs_pending_ids s"
    "fs_pending_by t = fs_pending_by s" "fs_join t = fs_join s" "fs_stale t = fs_stale s"
    "fs_pending_status t = fs_pending_status s"
    by (simp_all add: e)
qed

lemma resolve_memo:
  assumes "fleet_inv digest s"
  shows "fst (resolve s) = build_view (fs_records s)" "memo_only s (snd (resolve s))"
    "fleet_inv digest (snd (resolve s))"
proof -
  have v: "view_ok s" using assms by (simp add: fleet_inv_def)
  show "fst (resolve s) = build_view (fs_records s)" "memo_only s (snd (resolve s))"
    by (simp_all add: resolve_eq [OF v] memo_only_def)
  show "fleet_inv digest (snd (resolve s))"
    using assms
    by (simp add: resolve_eq [OF v] fleet_inv_def joins_ok_def tokens_ok_def ids_ok_def view_ok_def hash_ok_def)
qed

lemmas query_defs = fleet_instances_def fleet_rooms_def get_instance_def get_room_def resolve_room_def
  find_rooms_def

text \<open>A query answers from the records, whether or not the memo was filled.\<close>

lemma query_answers:
  assumes "fleet_inv digest s"
  shows "fst (fleet_instances s) = rv_instances (build_view (fs_records s))"
    "fst (fleet_rooms s) = concat (map ii_rooms (rv_instances (build_view (fs_records s))))"
    "fst (get_instance inst s) = jm_get (rv_by_id (build_view (fs_records s))) inst"
    "fst (get_room room s) = map_option lc_room (jm_get (rv_by_public (build_view (fs_records s))) room)"
    "fst (resolve_room room s) =
       map_option (\<lambda>l. (lc_instance l, lc_raw l)) (jm_get (rv_by_public (build_view (fs_records s))) room)"
  using resolve_memo(1) [OF assms] by (simp_all add: query_defs case_prod_unfold Let_def)

lemma query_states:
  "snd (fleet_instances s) = snd (resolve s)" "snd (fleet_rooms s) = snd (resolve s)"
  "snd (get_instance inst s) = snd (resolve s)" "snd (get_room room s) = snd (resolve s)"
  "snd (resolve_room room s) = snd (resolve s)" "snd (find_rooms ty inst' req s) = snd (resolve s)"
  by (simp_all add: query_defs case_prod_unfold Let_def)

lemma fleet_stats_inv:
  assumes "fleet_inv digest s"
  shows "st_hash (fst (fleet_stats_of digest s)) =
      compute_state_hash digest (rv_instances (build_view (fs_records s)))"
    "memo_only s (snd (fleet_stats_of digest s))" "fleet_inv digest (snd (fleet_stats_of digest s))"
proof -
  let ?s = "snd (resolve s)"
  note r = resolve_memo [OF assms]
  have h: "fs_hash s = None \<or> fs_hash s = Some (compute_state_hash digest (rv_instances (build_view (fs_records s))))"
    using assms by (cases "fs_hash s") (auto simp: fleet_inv_def hash_ok_def)
  have hs: "fs_hash ?s = fs_hash s"
    using assms by (simp add: resolve_eq fleet_inv_def)
  have e: "snd (fleet_stats_of digest s) =
      ?s\<lparr>fs_hash := Some (compute_state_hash digest (rv_instances (build_view (fs_records s))))\<rparr>"
    using h hs r(1) by (auto simp: fleet_stats_of_def case_prod_unfold Let_def)
  show "st_hash (fst (fleet_stats_of digest s)) =
      compute_state_hash digest (rv_instances (build_view (fs_records s)))"
    using h hs r(1) by (auto simp: fleet_stats_of_def case_prod_unfold Let_def)
  show "memo_only s (snd (fleet_stats_of digest s))"
    unfolding e by (rule memo_only_trans [OF r(2)]) (simp add: memo_only_def)
  show "fleet_inv digest (snd (fleet_stats_of digest s))"
    unfolding e using r(3) memo_only_fields(1) [OF r(2)]
    by (simp add: fleet_inv_def joins_ok_def tokens_ok_def ids_ok_def view_ok_def hash_ok_def)
qed

section \<open>Snapshots\<close>

lemma update_map_same:
  "jm_get m k = Some old \<Longrightarrow> g k r = g k old \<Longrightarrow>
   map (\<lambda>(k, r). g k r) (jm_set m k r) = map (\<lambda>(k, r). g k r) m"
  by (induction m) (auto split: if_splits)

lemma set_update_subset: "x \<in> set (jm_set m k v) \<Longrightarrow> x = (k, v) \<or> x \<in> set m"
  by (induction m) (auto split: if_splits)

lemma clear_pending_frame:
  "fs_records (clear_pending_visibility inst s) = fs_records s"
  "fs_reservations (clear_pending_visibility inst s) = fs_reservations s"
  "fs_reserved_by (clear_pending_visibility inst s) = fs_reserved_by s"
  "fs_res_seq (clear_pending_visibility inst s) = fs_res_seq s"
  "fs_reserved_ids (clear_pending_visibility inst s) = fs_reserved_ids s"
  "fs_join (clear_pending_visibility inst s) = fs_join s"
  "fs_stale (clear_pending_visibility inst s) = fs_stale s"
  "fs_pending_status (clear_pending_visibility inst s) = fs_pending_status s"
  "fs_view (clear_pending_visibility inst s) = fs_view s"
  "fs_hash (clear_pending_visibility inst s) = fs_hash s"
  by (simp_all add: clear_pending_visibility_def split: option.splits)

lemma reconcile_frame:
  "fs_records (reconcile_pending_status inst s) = fs_records s"
  "fs_reservations (reconcile_pending_status inst s) = fs_reservations s"
  "fs_reserved_by (reconcile_pending_status inst s) = fs_reserved_by s"
  "fs_res_seq (reconcile_pending_status inst s) = fs_res_seq s"
  "fs_reserved_ids (reconcile_pending_status inst s) = fs_reserved_ids s"
  "fs_pending_ids (reconcile_pending_status inst s) = fs_pending_ids s"
  "fs_pending_by (reconcile_pending_status inst s) = fs_pending_by s"
  "fs_join (reconcile_pending_status inst s) = fs_join s"
  "fs_stale (reconcile_pending_status inst s) = fs_stale s"
  "fs_view (reconcile_pending_status inst s) = fs_view s"
  "fs_hash (reconcile_pending_status inst s) = fs_hash s"
  "jm_ok (fs_pending_status s) \<Longrightarrow> jm_ok (fs_pending_status (reconcile_pending_status inst s))"
  by (simp_all add: reconcile_pending_status_def split: option.splits)

text \<open>After a snapshot no id is held for the instance, the others keep theirs.\<close>

lemma clear_pending_ids:
  assumes "ids_ok s"
  shows "fs_pending_ids (clear_pending_visibility inst s) = filter (\<lambda>(k, i). i \<noteq> inst) (fs_pending_ids s)"
    "fs_pending_by (clear_pending_visibility inst s) = jm_delete (fs_pending_by s) inst"
proof -
  have c: "counts (fs_pending_ids s) (fs_pending_by s)" using assms by (simp add: ids_ok_def)
  have ok: "jm_ok (fs_pending_ids s)" using counts_ok [OF c] by simp
  have n: "filter (\<lambda>(k, i). i \<noteq> inst) (fs_pending_ids s) = fs_pending_ids s"
    if "jm_get (fs_pending_by s) inst = None"
    using that counts_None [OF c, of inst] map_of_is_SomeI [OF ok] by (auto simp: filter_id_conv)
  show "fs_pending_ids (clear_pending_visibility inst s) = filter (\<lambda>(k, i). i \<noteq> inst) (fs_pending_ids s)"
    using n by (simp add: clear_pending_visibility_def fold_delete_filter [OF ok] split: option.split)
  show "fs_pending_by (clear_pending_visibility inst s) = jm_delete (fs_pending_by s) inst"
    by (simp add: clear_pending_visibility_def jm_delete_absent jm_has_def split: option.split)
qed

lemma jm_has_filter: "jm_has (filter P m) k \<Longrightarrow> jm_has m k"
  by (auto simp: jm_has_iff_keys)

lemma clear_pending_ids_ok: "ids_ok s \<Longrightarrow> ids_ok (clear_pending_visibility inst s)"
  using counts_drop [of "fs_pending_ids s" "fs_pending_by s" inst]
  by (auto simp: clear_pending_ids ids_ok_def clear_pending_frame dest: jm_has_filter)

lemma fleet_inv_frame:
  assumes "fleet_inv digest s"
    and "records_ok (fs_records t)" "joins_ok t" "ids_ok t" "jm_ok (fs_pending_status t)"
    and "view_ok t" "hash_ok digest t"
    and "fs_reservations t = fs_reservations s" "fs_reserved_by t = fs_reserved_by s" "fs_res_seq t = fs_res_seq s"
  shows "fleet_inv digest t"
  using assms by (simp add: fleet_inv_def tokens_ok_def)

lemma store_record_ok:
  assumes "records_ok recs" "ii_id (ir_info r) = inst"
  shows "records_ok (jm_set recs inst r)"
  using assms by (auto simp: records_ok_def dest!: set_update_subset)

lemma joins_set_new:
  assumes "joins_ok s" "jm_get (fs_records s) inst = None"
  shows "distinct (map (\<lambda>(k, r). ir_join r) (jm_set (fs_records s) inst \<lparr>ir_info = i, ir_seq = q, ir_hash = h, ir_join = fs_join s + 1\<rparr>))"
    "\<forall>(k, r) \<in> set (jm_set (fs_records s) inst \<lparr>ir_info = i, ir_seq = q, ir_hash = h, ir_join = fs_join s + 1\<rparr>).
       ir_join r \<le> fs_join s + 1"
proof -
  have n: "\<not> jm_has (fs_records s) inst" using assms(2) by (simp add: jm_has_def)
  have le: "\<And>k r. (k, r) \<in> set (fs_records s) \<Longrightarrow> ir_join r \<le> fs_join s"
    using assms(1) by (auto simp: joins_ok_def)
  then have "fs_join s + 1 \<notin> (\<lambda>(k, r). ir_join r) ` set (fs_records s)" by fastforce
  with assms(1) show "distinct (map (\<lambda>(k, r). ir_join r) (jm_set (fs_records s) inst \<lparr>ir_info = i, ir_seq = q, ir_hash = h, ir_join = fs_join s + 1\<rparr>))"
    by (simp add: jm_set_new [OF n] joins_ok_def)
  show "\<forall>(k, r) \<in> set (jm_set (fs_records s) inst \<lparr>ir_info = i, ir_seq = q, ir_hash = h, ir_join = fs_join s + 1\<rparr>).
       ir_join r \<le> fs_join s + 1"
    using le by (fastforce simp: jm_set_new [OF n])
qed

lemma build_instance_info_id [simp]: "ii_id (build_instance_info inst p now) = inst"
  by (simp add: build_instance_info_def Let_def)

text \<open>The state right after the record of a snapshot is stored.\<close>

definition stored :: "jsstr \<Rightarrow> sync_payload \<Rightarrow> int \<Rightarrow> nat \<Rightarrow> nat \<Rightarrow> fleet \<Rightarrow> fleet" where
  "stored inst p now join counter s = s\<lparr>fs_join := counter, fs_records := jm_set (fs_records s) inst
     \<lparr>ir_info = build_instance_info inst p now, ir_seq = sp_seq p, ir_hash = sp_hash p, ir_join = join\<rparr>\<rparr>"

lemma apply_snapshot_cases:
  "apply_snapshot inst p now s =
     (case jm_get (fs_records s) inst of
        Some old \<Rightarrow>
          (if sp_seq p \<le> ir_seq old then (s, False)
           else (reconcile_pending_status inst (clear_pending_visibility inst
                   (invalidate (stored inst p now (ir_join old) (fs_join s) s))), True))
      | None \<Rightarrow> (reconcile_pending_status inst (clear_pending_visibility inst
                   (invalidate (stored inst p now (fs_join s + 1) (fs_join s + 1) s))), True))"
  by (auto simp: apply_snapshot_def stored_def Let_def split: option.split)

lemma settle_snapshot_inv:
  assumes "fleet_inv digest s" "records_ok (fs_records t)" "joins_ok t"
    and "fs_reservations t = fs_reservations s" "fs_reserved_by t = fs_reserved_by s" "fs_res_seq t = fs_res_seq s"
    and "fs_pending_ids t = fs_pending_ids s" "fs_pending_by t = fs_pending_by s"
    and "fs_reserved_ids t = fs_reserved_ids s" "fs_pending_status t = fs_pending_status s"
  shows "fleet_inv digest (reconcile_pending_status inst (clear_pending_visibility inst (invalidate t)))"
proof (rule fleet_inv_frame [OF assms(1)])
  let ?u = "clear_pending_visibility inst (invalidate t)"
  have "ids_ok (invalidate t)"
    using assms by (simp add: fleet_inv_def ids_ok_def invalidate_def)
  then have "ids_ok ?u" by (rule clear_pending_ids_ok)
  then show "ids_ok (reconcile_pending_status inst ?u)" by (simp add: ids_ok_def reconcile_frame)
  show "jm_ok (fs_pending_status (reconcile_pending_status inst ?u))"
    using assms(1,10) by (intro reconcile_frame) (simp add: clear_pending_frame invalidate_def fleet_inv_def)
qed (use assms in \<open>simp_all add: clear_pending_frame reconcile_frame invalidate_def view_ok_def hash_ok_def joins_ok_def\<close>)

lemma apply_snapshot_inv:
  assumes "fleet_inv digest s"
  shows "fleet_inv digest (fst (apply_snapshot inst p now s))"
proof (cases "jm_get (fs_records s) inst")
  case None
  let ?t = "stored inst p now (fs_join s + 1) (fs_join s + 1) s"
  have "records_ok (fs_records ?t)" "joins_ok ?t"
    using assms joins_set_new [OF _ None] by (auto simp: fleet_inv_def stored_def store_record_ok joins_ok_def)
  then have "fleet_inv digest (reconcile_pending_status inst (clear_pending_visibility inst (invalidate ?t)))"
    by (rule settle_snapshot_inv [OF assms]) (simp_all add: stored_def)
  with None show ?thesis by (simp add: apply_snapshot_cases)
next
  case (Some old)
  let ?t = "stored inst p now (ir_join old) (fs_join s) s"
  have j: "joins_ok s" using assms by (simp add: fleet_inv_def)
  have "records_ok (fs_records ?t)" using assms by (simp add: fleet_inv_def stored_def store_record_ok)
  moreover have "joins_ok ?t"
  proof -
    have "map (\<lambda>(k, r). ir_join r) (fs_records ?t) = map (\<lambda>(k, r). ir_join r) (fs_records s)"
      unfolding stored_def using update_map_same [OF Some, of "\<lambda>k r. ir_join r"] by simp
    moreover have "ir_join old \<le> fs_join s" using j map_of_SomeD [OF Some] by (auto simp: joins_ok_def)
    ultimately show ?thesis using j by (auto simp: joins_ok_def stored_def dest!: set_update_subset)
  qed
  ultimately have "fleet_inv digest (reconcile_pending_status inst (clear_pending_visibility inst (invalidate ?t)))"
    by (rule settle_snapshot_inv [OF assms]) (simp_all add: stored_def)
  with Some assms show ?thesis by (simp add: apply_snapshot_cases)
qed

section \<open>Touch\<close>

text \<open>Only the liveness stamp of one row changes, so the view changes in that row alone.\<close>

lemma entries_touch:
  assumes "ii_id i = ii_id (ir_info r)" "ii_process i = ii_process (ir_info r)" "ii_rooms i = ii_rooms (ir_info r)"
  shows "entries_of_record (r\<lparr>ir_info := i\<rparr>) = entries_of_record r"
  using assms by (simp add: entries_of_record_def)

lemma collect_touch:
  assumes "jm_get recs inst = Some r"
  shows "collect_entries (jm_set recs inst (r\<lparr>ir_info := (ir_info r)\<lparr>ii_last_sync := now\<rparr>\<rparr>)) = collect_entries recs"
proof -
  have "entries_of_record (r\<lparr>ir_info := (ir_info r)\<lparr>ii_last_sync := now\<rparr>\<rparr>) = entries_of_record r"
    by (rule entries_touch) simp_all
  from update_map_same [OF assms, of "\<lambda>k r. entries_of_record r", OF this]
  show ?thesis by (simp add: collect_entries_def)
qed

definition stamp :: "jsstr \<Rightarrow> int \<Rightarrow> instance_info \<Rightarrow> instance_info" where
  "stamp inst now j = (if ii_id j = inst then j\<lparr>ii_last_sync := now\<rparr> else j)"

lemma jm_set_map:
  "jm_ok m \<Longrightarrow> jm_has m k \<Longrightarrow> jm_set m k v = map (\<lambda>(k', v'). (k', if k' = k then v else v')) m"
proof (induction m)
  case (Cons p m)
  have "map (\<lambda>(k', v'). (k', if k' = k then v else v')) m = m" if "k \<notin> fst ` set m"
    using that by (intro map_idI) force
  with Cons show ?case by (cases p) (auto simp: jm_has_iff_keys)
qed simp

lemma instances_touch:
  fixes now :: int
  assumes "records_ok recs" "jm_get recs inst = Some r"
  defines "recs' \<equiv> jm_set recs inst (r\<lparr>ir_info := (ir_info r)\<lparr>ii_last_sync := now\<rparr>\<rparr>)"
  shows "map (\<lambda>(k, r). (k, view_row recs' r)) recs' = map (\<lambda>(k, r). (k, stamp inst now (view_row recs r))) recs"
proof -
  have "view_rooms recs' = view_rooms recs"
    unfolding recs'_def by (rule ext) (simp add: view_rooms_def collect_touch [OF assms(2)])
  then have row: "view_row recs' = view_row recs"
    by (intro ext) (simp add: view_row_def)
  have "recs' = map (\<lambda>(k', v'). (k', if k' = inst then r\<lparr>ir_info := (ir_info r)\<lparr>ii_last_sync := now\<rparr>\<rparr> else v')) recs"
    using assms(1,2) by (simp add: recs'_def records_ok_def jm_set_map jm_has_def)
  moreover have "v = r" if "(inst, v) \<in> set recs" for v
    using that assms(1,2) by (simp add: records_ok_def map_of_eq_Some_iff)
  moreover have "ii_id (ir_info v) = k" if "(k, v) \<in> set recs" for k v
    using that assms(1) by (auto simp: records_ok_def)
  ultimately show ?thesis
    unfolding row by (auto simp: view_row_def stamp_def)
qed

lemma touch_view_build:
  assumes "records_ok recs" "jm_get recs inst = Some r"
  shows "touch_view inst now (build_view recs) =
         build_view (jm_set recs inst (r\<lparr>ir_info := (ir_info r)\<lparr>ii_last_sync := now\<rparr>\<rparr>))"
proof -
  let ?r = "r\<lparr>ir_info := (ir_info r)\<lparr>ii_last_sync := now\<rparr>\<rparr>"
  let ?recs = "jm_set recs inst ?r"
  have ids: "\<And>k v. (k, v) \<in> set recs \<Longrightarrow> ii_id (ir_info v) = k"
    using assms(1) by (auto simp: records_ok_def)
  have ok': "records_ok ?recs"
    by (rule store_record_ok [OF assms(1)]) (simp add: ids [OF map_of_SomeD [OF assms(2)]])
  note it = instances_touch [OF assms, of now]
  have insts: "rv_instances (build_view ?recs) = map (stamp inst now) (rv_instances (build_view recs))"
    using arg_cong [OF it, of "map snd"] by (simp add: build_view_instances comp_def case_prod_unfold)
  have by_id: "rv_by_id (build_view ?recs) = map (\<lambda>(k, i). (k, stamp inst now i)) (rv_by_id (build_view recs))"
    using it by (simp add: build_view_by_id [OF ok'] build_view_by_id [OF assms(1)] comp_def case_prod_unfold)
  have pub: "rv_by_public (build_view ?recs) = rv_by_public (build_view recs)"
    by (simp add: build_view_def collect_touch [OF assms(2)] case_prod_unfold Let_def)
  have g: "jm_get (rv_by_id (build_view recs)) inst = Some (view_row recs r)"
    using assms(2) by (simp add: build_view_by_id [OF assms(1)] map_of_map)
  have "jm_ok (rv_by_id (build_view recs))"
    using assms(1) by (simp add: build_view_by_id [OF assms(1)] records_ok_def comp_def case_prod_unfold)
  moreover have "v = r" if "(inst, v) \<in> set recs" for v
    using that assms(1,2) by (simp add: records_ok_def map_of_eq_Some_iff)
  ultimately have set: "jm_set (rv_by_id (build_view recs)) inst ((view_row recs r)\<lparr>ii_last_sync := now\<rparr>) =
      map (\<lambda>(k, i). (k, stamp inst now i)) (rv_by_id (build_view recs))"
    using g ids by (subst jm_set_map) (auto simp: jm_has_def build_view_by_id [OF assms(1)] stamp_def)
  have st: "stamp inst now = (\<lambda>j. if ii_id j = inst then j\<lparr>ii_last_sync := now\<rparr> else j)"
    by (rule ext) (simp add: stamp_def)
  show ?thesis
    by (rule resolved_view.equality)
      (simp_all add: touch_view_def g set insts by_id pub st)
qed

text \<open>The stamp is outside the hashed projection.\<close>

lemma js_insert_map:
  assumes "\<And>x y. cmp (f x) (f y) = cmp x y"
  shows "js_insert cmp (f x) (map f ys) = map f (js_insert cmp x ys)"
  using assms by (induction ys) simp_all

lemma js_sort_map:
  assumes "\<And>x y. cmp (f x) (f y) = cmp x y"
  shows "js_sort cmp (map f xs) = map f (js_sort cmp xs)"
proof (induction xs)
  case (Cons x xs)
  have c: "js_sort cmp (y # ys) = js_insert cmp y (js_sort cmp ys)" for y ys
    by (simp add: js_sort_def)
  from Cons show ?case by (simp add: c js_insert_map [where f = f and cmp = cmp, OF assms])
qed (simp add: js_sort_def)

lemma state_hash_stamp:
  "compute_state_hash digest (map (stamp inst now) insts) = compute_state_hash digest insts"
proof -
  have "instance_json (stamp inst now i) = instance_json i" "ii_id (stamp inst now i) = ii_id i" for i
    by (simp_all add: stamp_def instance_json_def)
  then show ?thesis
    unfolding compute_state_hash_def by (subst js_sort_map) (simp_all add: comp_def)
qed

lemma touch_inv:
  assumes "fleet_inv digest s"
  shows "fleet_inv digest (touch inst now s)"
proof (cases "jm_get (fs_records s) inst")
  case None
  with assms show ?thesis by (simp add: touch_def)
next
  case (Some r)
  let ?r = "r\<lparr>ir_info := (ir_info r)\<lparr>ii_last_sync := now\<rparr>\<rparr>"
  let ?t = "s\<lparr>fs_records := jm_set (fs_records s) inst ?r\<rparr>"
  let ?u = "reconcile_pending_status inst (clear_pending_visibility inst ?t)"
  have t: "touch inst now s = ?u\<lparr>fs_view := map_option (touch_view inst now) (fs_view s)\<rparr>"
    by (simp add: touch_def Some Let_def reconcile_frame clear_pending_frame)
  have ok: "records_ok (fs_records s)" using assms by (simp add: fleet_inv_def)
  have id: "ii_id (ir_info r) = inst"
    using ok map_of_SomeD [OF Some] by (auto simp: records_ok_def)
  have recs: "fs_records (touch inst now s) = jm_set (fs_records s) inst ?r"
    by (simp add: t reconcile_frame clear_pending_frame)
  have ids: "ids_ok (clear_pending_visibility inst ?t)"
    by (rule clear_pending_ids_ok) (use assms in \<open>simp add: fleet_inv_def ids_ok_def\<close>)
  have insts: "rv_instances (build_view (jm_set (fs_records s) inst ?r)) =
      map (stamp inst now) (rv_instances (build_view (fs_records s)))"
    using arg_cong [OF instances_touch [OF ok Some, of now], of "map snd"]
    by (simp add: build_view_instances comp_def case_prod_unfold)
  show ?thesis
  proof (rule fleet_inv_frame [OF assms])
    show "records_ok (fs_records (touch inst now s))"
      unfolding recs by (rule store_record_ok [OF ok]) (simp add: id)
    have j: "joins_ok s" using assms by (simp add: fleet_inv_def)
    have "map (\<lambda>(k, r). ir_join r) (jm_set (fs_records s) inst ?r) = map (\<lambda>(k, r). ir_join r) (fs_records s)"
      using update_map_same [OF Some, of "\<lambda>k r. ir_join r"] by simp
    moreover have "ir_join r \<le> fs_join s" using j map_of_SomeD [OF Some] by (auto simp: joins_ok_def)
    ultimately show "joins_ok (touch inst now s)"
      using j by (auto simp: joins_ok_def recs t reconcile_frame clear_pending_frame dest!: set_update_subset)
    show "ids_ok (touch inst now s)"
      using ids by (simp add: t ids_ok_def reconcile_frame clear_pending_frame)
    show "jm_ok (fs_pending_status (touch inst now s))"
      using assms reconcile_frame(12) [of "clear_pending_visibility inst ?t" inst]
      by (simp add: t clear_pending_frame fleet_inv_def)
    show "view_ok (touch inst now s)"
      unfolding view_ok_def recs touch_view_build [OF ok Some, of now, symmetric]
      using assms by (auto simp: t view_ok_def fleet_inv_def)
    show "hash_ok digest (touch inst now s)"
      using assms by (simp add: hash_ok_def fleet_inv_def recs insts state_hash_stamp)
        (simp add: t reconcile_frame clear_pending_frame)
  qed (simp_all add: t reconcile_frame clear_pending_frame)
qed

section \<open>Removal, liveness and status overrides\<close>

lemma jm_delete_filter: "jm_delete m k = filter (\<lambda>(k', v). k' \<noteq> k) m"
  by (induction m) auto

lemma records_ok_delete: "records_ok recs \<Longrightarrow> records_ok (jm_delete recs inst)"
  by (auto simp: records_ok_def) (auto simp: jm_delete_filter)

lemma joins_ok_delete:
  "joins_ok s \<Longrightarrow> fs_records t = jm_delete (fs_records s) inst \<Longrightarrow> fs_join t = fs_join s \<Longrightarrow> joins_ok t"
  by (auto simp: joins_ok_def jm_delete_filter distinct_map_filter)

lemma remove_instance_inv:
  assumes "fleet_inv digest s"
  shows "fleet_inv digest (fst (remove_instance inst s))"
proof (cases "jm_get (fs_records s) inst")
  case None
  with assms show ?thesis by (simp add: remove_instance_def)
next
  case (Some r)
  let ?t = "s\<lparr>fs_records := jm_delete (fs_records s) inst, fs_stale := fs_stale s - {inst},
              fs_pending_status := jm_delete (fs_pending_status s) inst\<rparr>"
  have ids: "ids_ok (clear_pending_visibility inst ?t)"
    by (rule clear_pending_ids_ok) (use assms in \<open>simp add: fleet_inv_def ids_ok_def\<close>)
  have r: "fst (remove_instance inst s) = invalidate (clear_pending_visibility inst ?t)"
    by (simp add: remove_instance_def Some Let_def)
  have "joins_ok (invalidate (clear_pending_visibility inst ?t))"
    by (rule joins_ok_delete [of s _ inst])
      (use assms in \<open>simp_all add: fleet_inv_def invalidate_def clear_pending_frame\<close>)
  with ids show ?thesis
    unfolding r by (intro fleet_inv_frame [OF assms])
      (use assms in \<open>simp_all add: fleet_inv_def invalidate_def clear_pending_frame ids_ok_def view_ok_def
        hash_ok_def records_ok_delete\<close>)
qed

lemma set_stale_inv: "fleet_inv digest s \<Longrightarrow> fleet_inv digest (set_stale inst b s)"
  by (simp add: set_stale_def fleet_inv_def joins_ok_def tokens_ok_def ids_ok_def view_ok_def hash_ok_def)

lemma set_pending_status_inv: "fleet_inv digest s \<Longrightarrow> fleet_inv digest (set_pending_status inst st s)"
  by (simp add: set_pending_status_def fleet_inv_def joins_ok_def tokens_ok_def ids_ok_def view_ok_def
      hash_ok_def)

section \<open>Reservations\<close>

lemma token_inject [simp]: "js ''res_'' @ decimal m = js ''res_'' @ decimal n \<longleftrightarrow> m = n"
  by simp

lemma reserve_fresh:
  assumes "tokens_ok s"
  shows "\<not> jm_has (fs_reservations s) (js ''res_'' @ decimal (fs_res_seq s + 1))"
  using assms by (auto simp: tokens_ok_def)

lemma reserve_inv:
  assumes "fleet_inv digest s"
  shows "fleet_inv digest (snd (reserve inst s))"
proof -
  have t: "tokens_ok s" using assms by (simp add: fleet_inv_def)
  then have c: "counts (fs_reservations s) (fs_reserved_by s)" by (simp add: tokens_ok_def)
  have "tokens_ok (snd (reserve inst s))"
    using counts_add [OF c reserve_fresh [OF t], of inst] t
    by (auto simp: reserve_def Let_def tokens_ok_def jsmap_simps)
  with assms show ?thesis
    by (simp add: fleet_inv_def reserve_def Let_def joins_ok_def ids_ok_def view_ok_def hash_ok_def)
qed

text \<open>A reservation names the instance its token is filed under; the code hands out no other.\<close>

definition issued :: "reservation \<Rightarrow> fleet \<Rightarrow> bool" where
  "issued r s \<longleftrightarrow> (\<forall>i. jm_get (fs_reservations s) (rs_id r) = Some i \<longrightarrow> i = rs_instance r)"

lemma release_frame:
  "fs_records (release r s) = fs_records s" "fs_res_seq (release r s) = fs_res_seq s"
  "fs_reserved_ids (release r s) = fs_reserved_ids s" "fs_pending_ids (release r s) = fs_pending_ids s"
  "fs_pending_by (release r s) = fs_pending_by s" "fs_join (release r s) = fs_join s"
  "fs_stale (release r s) = fs_stale s" "fs_pending_status (release r s) = fs_pending_status s"
  "fs_view (release r s) = fs_view s" "fs_hash (release r s) = fs_hash s"
  by (simp_all add: release_def Let_def)

lemma release_tokens:
  "fs_reservations (release r s) = jm_delete (fs_reservations s) (rs_id r)"
  by (simp add: release_def Let_def jm_delete_absent)

lemma release_tokens_ok:
  assumes "tokens_ok s" "issued r s"
  shows "tokens_ok (release r s)"
proof (cases "jm_get (fs_reservations s) (rs_id r)")
  case None
  with assms show ?thesis by (simp add: release_def jm_has_def)
next
  case (Some i)
  with assms(2) have i: "i = rs_instance r" by (simp add: issued_def)
  have c: "counts (fs_reservations s) (fs_reserved_by s)" using assms(1) by (simp add: tokens_ok_def)
  from counts_remove [OF c Some] assms(1) i Some show ?thesis
    by (auto simp: release_def Let_def tokens_ok_def jsmap_simps jm_has_def)
qed

lemma release_inv:
  assumes "fleet_inv digest s" "issued r s"
  shows "fleet_inv digest (release r s)"
  using assms release_tokens_ok [OF _ assms(2)]
  by (simp add: fleet_inv_def release_frame joins_ok_def ids_ok_def view_ok_def hash_ok_def)

lemma release_room_id_inv: "fleet_inv digest s \<Longrightarrow> fleet_inv digest (release_room_id room s)"
  by (simp add: release_room_id_def fleet_inv_def joins_ok_def tokens_ok_def ids_ok_def view_ok_def hash_ok_def)

lemma hold_cases:
  "hold_until_visible room r s =
     (let s = release_room_id room (release r s)
      in if jm_has (fs_pending_ids s) room then s
         else s\<lparr>fs_pending_ids := jm_set (fs_pending_ids s) room (rs_instance r),
                fs_pending_by := jm_set (fs_pending_by s) (rs_instance r)
                                   (count_of (fs_pending_by s) (rs_instance r) + 1)\<rparr>)"
  by (simp add: hold_until_visible_def release_room_id_def Let_def)

lemma hold_until_visible_inv:
  assumes "fleet_inv digest s" "issued r s"
  shows "fleet_inv digest (hold_until_visible room r s)"
proof -
  let ?t = "release_room_id room (release r s)"
  have t: "fleet_inv digest ?t" by (intro release_room_id_inv release_inv assms)
  show ?thesis
  proof (cases "jm_has (fs_pending_ids ?t) room")
    case True
    with t show ?thesis by (simp add: hold_cases)
  next
    case False
    let ?u = "?t\<lparr>fs_pending_ids := jm_set (fs_pending_ids ?t) room (rs_instance r),
                  fs_pending_by := jm_set (fs_pending_by ?t) (rs_instance r)
                                   (count_of (fs_pending_by ?t) (rs_instance r) + 1)\<rparr>"
    have c: "counts (fs_pending_ids ?t) (fs_pending_by ?t)" using t by (simp add: fleet_inv_def ids_ok_def)
    have "ids_ok ?u"
      using counts_add [OF c False, of "rs_instance r"] t
      by (auto simp: ids_ok_def fleet_inv_def jsmap_simps release_room_id_def)
    then have "fleet_inv digest ?u"
      using t by (simp add: fleet_inv_def joins_ok_def tokens_ok_def view_ok_def hash_ok_def)
    moreover have "hold_until_visible room r s = ?u"
      unfolding hold_cases Let_def using False by (simp only: if_False)
    ultimately show ?thesis by simp
  qed
qed

section \<open>Room ids\<close>

lemma is_room_id_taken_memo:
  assumes "fleet_inv digest s"
  shows "fst (is_room_id_taken room s) \<longleftrightarrow> room \<in> fs_reserved_ids s \<or> jm_has (fs_pending_ids s) room \<or>
      jm_get (rv_by_public (build_view (fs_records s))) room \<noteq> None"
    "memo_only s (snd (is_room_id_taken room s))" "fleet_inv digest (snd (is_room_id_taken room s))"
  using resolve_memo [OF assms] assms query_answers(4) [OF assms, of room] query_states(4) [of room s]
  by (simp_all add: is_room_id_taken_def Let_def case_prod_unfold)

lemma reserve_id_inv:
  "fleet_inv digest s \<Longrightarrow> \<not> jm_has (fs_pending_ids s) room \<Longrightarrow>
   fleet_inv digest (s\<lparr>fs_reserved_ids := insert room (fs_reserved_ids s)\<rparr>)"
  by (auto simp: fleet_inv_def joins_ok_def tokens_ok_def ids_ok_def view_ok_def hash_ok_def)

lemma generate_free_memo:
  assumes "fleet_inv digest s"
  shows "memo_only s (snd (generate_free_room_id n rnd s)) \<and> fleet_inv digest (snd (generate_free_room_id n rnd s)) \<and>
    (\<forall>room. fst (generate_free_room_id n rnd s) = Inr room \<longrightarrow>
       \<not> fst (is_room_id_taken room s) \<and> is_valid_room_id room)"
  using assms
proof (induction n arbitrary: s)
  case (Suc n)
  let ?c = "generate_room_id (rnd n)"
  note m = is_room_id_taken_memo [OF Suc.prems, of ?c]
  let ?t = "snd (is_room_id_taken ?c s)"
  note ih = Suc.IH [OF m(3)]
  have same: "fst (is_room_id_taken room ?t) = fst (is_room_id_taken room s)" for room
    using is_room_id_taken_memo(1) [OF m(3), of room] is_room_id_taken_memo(1) [OF Suc.prems, of room]
      memo_only_fields [OF m(2)] by simp
  show ?case
  proof (cases "fst (is_room_id_taken ?c s)")
    case False
    with m show ?thesis by (auto simp: Let_def case_prod_unfold generate_room_id_valid)
  next
    case True
    then have "generate_free_room_id (Suc n) rnd s = generate_free_room_id n rnd ?t"
      by (simp add: Let_def case_prod_unfold)
    with ih same memo_only_trans [OF m(2)] show ?thesis by simp
  qed
qed simp

text \<open>What a successful reservation means: the id was free and is now held.\<close>

lemma reserve_room_id_spec:
  assumes "fleet_inv digest s"
  shows "fleet_inv digest (snd (reserve_room_id rnd wanted s))"
    "fst (reserve_room_id rnd wanted s) = Inr room \<Longrightarrow>
       \<not> fst (is_room_id_taken room s) \<and> is_valid_room_id room \<and>
       memo_only (s\<lparr>fs_reserved_ids := insert room (fs_reserved_ids s)\<rparr>) (snd (reserve_room_id rnd wanted s))"
    "fst (reserve_room_id rnd wanted s) = Inl e \<Longrightarrow> memo_only s (snd (reserve_room_id rnd wanted s))"
proof -
  have upd: "memo_only (s\<lparr>fs_reserved_ids := insert r (fs_reserved_ids s)\<rparr>)
      (t\<lparr>fs_reserved_ids := insert r (fs_reserved_ids t)\<rparr>)" if "memo_only s t" for r t
    using that unfolding memo_only_def by (cases s, cases t) simp
  have all: "fleet_inv digest (snd (reserve_room_id rnd wanted s)) \<and>
    (\<forall>room. fst (reserve_room_id rnd wanted s) = Inr room \<longrightarrow>
       \<not> fst (is_room_id_taken room s) \<and> is_valid_room_id room \<and>
       memo_only (s\<lparr>fs_reserved_ids := insert room (fs_reserved_ids s)\<rparr>) (snd (reserve_room_id rnd wanted s))) \<and>
    (\<forall>e. fst (reserve_room_id rnd wanted s) = Inl e \<longrightarrow> memo_only s (snd (reserve_room_id rnd wanted s)))"
  proof (cases wanted)
    case None
    note g = generate_free_memo [OF assms, of 1000 rnd]
    obtain x t where x: "generate_free_room_id 1000 rnd s = (x, t)" by (cases "generate_free_room_id 1000 rnd s")
    show ?thesis
    proof (cases x)
      case (Inl e)
      then have "reserve_room_id rnd wanted s = (Inl e, t)" unfolding reserve_room_id_def None x by simp
      with g show ?thesis unfolding x by simp
    next
      case (Inr c)
      then have r: "reserve_room_id rnd wanted s = (Inr c, t\<lparr>fs_reserved_ids := insert c (fs_reserved_ids t)\<rparr>)"
        unfolding reserve_room_id_def None x by simp
      from g have free: "\<not> fst (is_room_id_taken c s)" and mo: "memo_only s t" and inv: "fleet_inv digest t"
        and val: "is_valid_room_id c"
        unfolding x Inr by auto
      from free have "\<not> jm_has (fs_pending_ids t) c"
        using is_room_id_taken_memo(1) [OF assms, of c] memo_only_fields(6) [OF mo] by simp
      with inv free mo val show ?thesis unfolding r by (simp add: upd reserve_id_inv)
    qed
  next
    case (Some room')
    note m = is_room_id_taken_memo [OF assms, of room']
    obtain b t where x: "is_room_id_taken room' s = (b, t)" by (cases "is_room_id_taken room' s")
    show ?thesis
    proof (cases "is_valid_room_id room' \<and> \<not> b")
      case True
      then have r: "reserve_room_id rnd wanted s = (Inr room', t\<lparr>fs_reserved_ids := insert room' (fs_reserved_ids t)\<rparr>)"
        by (simp add: reserve_room_id_def Some x)
      from m True have mo: "memo_only s t" and inv: "fleet_inv digest t" and free: "\<not> jm_has (fs_pending_ids t) room'"
        using memo_only_fields(6) [of s t] unfolding x by auto
      from True m(1) have "\<not> fst (is_room_id_taken room' s)" unfolding x by simp
      with True mo inv free show ?thesis unfolding r by (simp add: upd reserve_id_inv)
    next
      case False
      then have "reserve_room_id rnd wanted s = (Inl Validation, s) \<or> reserve_room_id rnd wanted s = (Inl RoomExists, t)"
        by (cases "is_valid_room_id room'") (simp_all add: reserve_room_id_def Some x)
      then show ?thesis
        using m(2,3) assms unfolding x by auto
    qed
  qed
  show "fleet_inv digest (snd (reserve_room_id rnd wanted s))"
    using all by blast
  show "fst (reserve_room_id rnd wanted s) = Inr room \<Longrightarrow>
       \<not> fst (is_room_id_taken room s) \<and> is_valid_room_id room \<and>
       memo_only (s\<lparr>fs_reserved_ids := insert room (fs_reserved_ids s)\<rparr>) (snd (reserve_room_id rnd wanted s))"
    using all by blast
  show "fst (reserve_room_id rnd wanted s) = Inl e \<Longrightarrow> memo_only s (snd (reserve_room_id rnd wanted s))"
    using all by blast
qed

section \<open>Placement\<close>

lemma place_cases:
  "(\<exists>e. place rnd req s = (Inl e, s)) \<or>
   (\<exists>i. place rnd req s = (Inr (i, fst (reserve (ii_id i) s)), snd (reserve (ii_id i) s)))"
  by (auto simp: place_def place_pinned_def case_prod_unfold Let_def split: option.split)

lemma place_inv: "fleet_inv digest s \<Longrightarrow> fleet_inv digest (snd (place rnd req s))"
  using place_cases [of rnd req s] reserve_inv [of digest s] by auto

end
