(* ===== verification/Fleet_State_Props.thy ===== *)
theory Fleet_State_Props
  imports Fleet_State_Inv
begin

text \<open>
  What the orchestrator's read model and placement promise. \<open>fleet_reachable\<close> is the set of
  states any sequence of public calls leads to; the properties hold in all of them.
\<close>

section \<open>Reachable states\<close>

text \<open>A reservation handed to \<open>release\<close> or \<open>holdUntilVisible\<close> is one that \<open>place\<close> returned, so
  it names the instance its token is filed under.\<close>

inductive fleet_reachable :: "(jsstr \<Rightarrow> jsstr) \<Rightarrow> fleet \<Rightarrow> bool" for digest where
  start: "fleet_reachable digest new_fleet"
| snapshot: "fleet_reachable digest s \<Longrightarrow> fleet_reachable digest (fst (apply_snapshot inst p now s))"
| hash_only: "fleet_reachable digest s \<Longrightarrow> fleet_reachable digest (touch inst now s)"
| removed: "fleet_reachable digest s \<Longrightarrow> fleet_reachable digest (fst (remove_instance inst s))"
| stale: "fleet_reachable digest s \<Longrightarrow> fleet_reachable digest (set_stale inst b s)"
| override: "fleet_reachable digest s \<Longrightarrow> fleet_reachable digest (set_pending_status inst st s)"
| placed: "fleet_reachable digest s \<Longrightarrow> fleet_reachable digest (snd (place rnd req s))"
| released: "fleet_reachable digest s \<Longrightarrow> issued r s \<Longrightarrow> fleet_reachable digest (release r s)"
| id_reserved: "fleet_reachable digest s \<Longrightarrow> fleet_reachable digest (snd (reserve_room_id rb wanted s))"
| id_released: "fleet_reachable digest s \<Longrightarrow> fleet_reachable digest (release_room_id room s)"
| held: "fleet_reachable digest s \<Longrightarrow> issued r s \<Longrightarrow> fleet_reachable digest (hold_until_visible room r s)"
| queried: "fleet_reachable digest s \<Longrightarrow> fleet_reachable digest (snd (resolve s))"
| stats: "fleet_reachable digest s \<Longrightarrow> fleet_reachable digest (snd (fleet_stats_of digest s))"

lemma reachable_fleet_inv: "fleet_reachable digest s \<Longrightarrow> fleet_inv digest s"
  by (induction rule: fleet_reachable.induct)
    (simp_all add: new_fleet_inv apply_snapshot_inv touch_inv remove_instance_inv set_stale_inv
      set_pending_status_inv place_inv release_inv reserve_room_id_spec(1) release_room_id_inv
      hold_until_visible_inv resolve_memo(3) fleet_stats_inv(3))

section \<open>A fleet of two instances\<close>

text \<open>Both report a room \<open>x\<close>: instance 1 (process \<open>p\<close>) as a local one, instance 2 (process \<open>q\<close>)
  as a fleet one. The witnesses below evaluate the properties on it.\<close>

definition sample_payload :: "jsstr \<Rightarrow> jsstr \<Rightarrow> sync_payload" where
  "sample_payload uid origin = \<lparr>sp_seq = 1, sp_hash = [], sp_name = [], sp_process = uid,
     sp_agent_version = [], sp_protocol = 3, sp_url = [], sp_labels = [],
     sp_capacity = \<lparr>max_connections = None, max_rooms = Some 2\<rparr>, sp_auto = True, sp_types = [[0x63]],
     sp_rooms = [\<lparr>sr_id = [0x78], sr_type = [0x63], sr_connections = 3, sr_origin = origin\<rparr>],
     sp_status = active\<rparr>"

definition sample_fleet :: fleet where
  "sample_fleet = fst (apply_snapshot [2] (sample_payload [0x71] []) 0
     (fst (apply_snapshot [1] (sample_payload [0x70] local_origin) 0 new_fleet)))"

definition sample_request :: placement_input where
  "sample_request = \<lparr>pi_type = [0x63], pi_instance = None, pi_process = None, pi_strategy = None,
     pi_labels = None, pi_force = False\<rparr>"

lemma sample_reachable: "fleet_reachable digest sample_fleet"
  unfolding sample_fleet_def by (intro fleet_reachable.intros)

lemma sample_valid: "is_valid_room_id [0x78]" "encode_room_id [0x78] = [0x78]"
  by (simp_all add: encode_room_id_def is_valid_room_id_def room_id_char_def)

lemmas sample_defs = sample_fleet_def sample_payload_def apply_snapshot_def new_fleet_def Let_def
  invalidate_def clear_pending_visibility_def reconcile_pending_status_def build_instance_info_def
  room_of_sync_def local_origin_def js_def

lemmas resolve_eval = assign_public_ids_def group_entries_def assign_bucket_def order_bucket_def js_sort_def
  compare_for_canonical_def set_public_def namespace_room_id_def namespace_separator_def Let_def

lemma sample_entries: "collect_entries (fs_records sample_fleet) =
   [\<lparr>re_instance = [1], re_process = [0x70], re_join = 1, re_raw = [0x78], re_base = [0x78], re_fleet = False,
     re_room = \<lparr>ri_id = [0x78], ri_type = [0x63], ri_connections = 3, ri_instance = [1], ri_url = [], ri_local = True\<rparr>,
     re_public = []\<rparr>,
    \<lparr>re_instance = [2], re_process = [0x71], re_join = 2, re_raw = [0x78], re_base = [0x78], re_fleet = True,
     re_room = \<lparr>ri_id = [0x78], ri_type = [0x63], ri_connections = 3, ri_instance = [2], ri_url = [], ri_local = False\<rparr>,
     re_public = []\<rparr>]"
  by (simp add: sample_defs collect_entries_def entries_of_record_def sample_valid)

lemma sample_public_ids:
  "map re_public (assign_public_ids (collect_entries (fs_records sample_fleet))) = [[0x70, 0x7E, 0x78], [0x78]]"
  unfolding sample_entries by (simp add: resolve_eval eval_nat_numeral)

lemma sample_raw: "raw_instances sample_fleet =
   [build_instance_info [1] (sample_payload [0x70] local_origin) 0, build_instance_info [2] (sample_payload [0x71] []) 0]"
  by (simp add: sample_fleet_def apply_snapshot_def new_fleet_def Let_def invalidate_def
      clear_pending_visibility_def reconcile_pending_status_def raw_instances_def)

lemma sample_headroom: "candidate sample_fleet sample_request (build_instance_info [i] (sample_payload u g) 0)"
  by (simp add: candidate_def sample_request_def effective_status_def has_headroom_def reserved_rooms_def
      pending_rooms_def count_of_def sample_defs)

section \<open>Public ids\<close>

lemma entries_nth:
  assumes "i < length es"
  shows "assign_public_ids es ! i \<in> set (assign_public_ids es)"
    "re_public (assign_public_ids es ! i) = public_id_of es i"
    "re_instance (assign_public_ids es ! i) = re_instance (es ! i)"
    "re_raw (assign_public_ids es ! i) = re_raw (es ! i)"
proof -
  show "assign_public_ids es ! i \<in> set (assign_public_ids es)"
    by (rule nth_mem) (use assms in \<open>simp add: assign_public_ids_spec(1)\<close>)
qed (use assms in \<open>simp_all add: assign_public_ids_spec\<close>)

text \<open>An id that one entry alone carries routes to that entry.\<close>

lemma routes_to_only:
  assumes "fleet_inv digest s" and es: "es = collect_entries (fs_records s)"
    and k: "k < length es" "public_id_of es k = p"
    and only: "\<And>j. j < length es \<Longrightarrow> public_id_of es j = p \<Longrightarrow> j = k"
  shows "fst (resolve_room p s) = Some (re_instance (es ! k), re_raw (es ! k))"
proof -
  let ?A = "assign_public_ids es"
  let ?fs = "filter (\<lambda>e. re_public e = p) ?A"
  have "?A ! k \<in> set ?fs" using k by (simp add: entries_nth)
  then have ne: "?fs \<noteq> []" by (metis empty_iff empty_set)
  then have "last ?fs \<in> set ?fs" by (rule last_in_set)
  then obtain j where j: "j < length es" "last ?fs = ?A ! j" "re_public (?A ! j) = p"
    by (auto simp: in_set_conv_nth assign_public_ids_spec(1))
  with only have "j = k" by (simp add: entries_nth)
  with j have "last ?fs = ?A ! k" by simp
  with ne have "jm_get (rv_by_public (build_view (fs_records s))) p = Some (locator_of (?A ! k))"
    by (auto simp: build_view_public es split: list.split)
  with k show ?thesis by (simp add: query_answers(5) [OF assms(1)] locator_of_def entries_nth)
qed

text \<open>
  Canonical ids are unique. In every reachable state, whatever ids the agents report, for
  each reported room exactly one room carries its base id publicly; it is the first in the
  documented order (fleet before local, then earliest joiner, then lower instance id), and the
  base id routes to it: to its instance, under the raw id that instance knows.
\<close>

lemma canonical_id_unique:
  assumes "fleet_reachable digest s" and "es = collect_entries (fs_records s)" and "i < length es"
  shows "\<exists>k < length es. re_base (es ! k) = re_base (es ! i) \<and>
    (\<forall>j < length es. re_base (es ! j) = re_base (es ! i) \<longrightarrow> compare_for_canonical (es ! k) (es ! j) \<le> 0) \<and>
    (\<forall>j < length es. re_public (assign_public_ids es ! j) = re_base (es ! i) \<longleftrightarrow> j = k) \<and>
    fst (resolve_room (re_base (es ! i)) s) = Some (re_instance (es ! k), re_raw (es ! k))"
proof -
  have inv: "fleet_inv digest s" using assms(1) by (rule reachable_fleet_inv)
  have enc: "encoded_entries es" unfolding assms(2) by (rule encoded_collect)
  let ?b = "re_base (es ! i)"
  let ?k = "keeper_of es (bucket_of es ?b)"
  have "bucket_of es ?b \<noteq> []" using assms(3) bucket_mem by (metis empty_iff empty_set)
  then have k: "?k < length es" "re_base (es ! ?k) = ?b" using keeper_in bucket_mem by blast+
  have pub: "public_id_of es j = ?b \<longleftrightarrow> j = ?k" if "j < length es" for j
    using public_is_base [OF enc assms(3) that] .
  have "compare_for_canonical (es ! ?k) (es ! j) \<le> 0" if "j < length es" "re_base (es ! j) = ?b" for j
    using that by (intro keeper_least) (simp add: bucket_mem)
  moreover have "fst (resolve_room ?b s) = Some (re_instance (es ! ?k), re_raw (es ! ?k))"
    by (rule routes_to_only [OF inv assms(2) k(1)]) (use pub k(1) in auto)
  ultimately show ?thesis using k pub by (intro exI [of _ ?k]) (simp add: entries_nth)
qed

lemma canonical_id_sample:
  "fst (resolve_room [0x78] sample_fleet) = Some ([2], [0x78])"
proof -
  define es where "es = collect_entries (fs_records sample_fleet)"
  have e: "length es = 2" "re_base (es ! 0) = [0x78]" "re_instance (es ! 1) = [2]" "re_raw (es ! 1) = [0x78]"
    "re_base (es ! 1) = [0x78]" "\<not> compare_for_canonical (es ! 0) (es ! 1) \<le> 0"
    by (simp_all add: es_def sample_entries compare_for_canonical_def)
  have "0 < length es" using e(1) by simp
  from canonical_id_unique [OF sample_reachable es_def this] obtain k where k: "k < 2"
    "\<forall>j < 2. re_base (es ! j) = [0x78] \<longrightarrow> compare_for_canonical (es ! k) (es ! j) \<le> 0"
    "fst (resolve_room [0x78] sample_fleet) = Some (re_instance (es ! k), re_raw (es ! k))"
    unfolding e by blast
  have "k \<noteq> 0" using k(2) e by (metis one_less_numeral_iff semiring_norm(76))
  with k(1) have "k = 1" by simp
  with k(3) e show ?thesis by simp
qed

text \<open>
  Public ids route. When no process reports two rooms with one base id (over all its
  connections), every reported room has a public id of its own, that id routes to the room's
  instance and raw id, and the row of each instance lists its rooms in reported order with
  nothing but the id changed.
\<close>

lemma public_ids_route:
  assumes "fleet_reachable digest s" and "es = collect_entries (fs_records s)"
    and "distinct (map (\<lambda>e. (re_process e, re_base e)) es)"
  shows "(\<forall>i < length es. fst (resolve_room (re_public (assign_public_ids es ! i)) s) =
            Some (re_instance (es ! i), re_raw (es ! i))) \<and>
    (\<forall>(k, r) \<in> set (fs_records s). \<exists>row. fst (get_instance k s) = Some row \<and>
       map (\<lambda>room. room\<lparr>ri_id := []\<rparr>) (ii_rooms row) = map (\<lambda>room. room\<lparr>ri_id := []\<rparr>) (ii_rooms (ir_info r)))"
proof (intro conjI allI impI ballI)
  have inv: "fleet_inv digest s" using assms(1) by (rule reachable_fleet_inv)
  have enc: "encoded_entries es" unfolding assms(2) by (rule encoded_collect)
  fix i assume i: "i < length es"
  have "j = i" if "j < length es" "public_id_of es j = public_id_of es i" for j
    using public_id_inject [OF enc that(1) i that(2)] assms(3) that(1) i
    by (auto simp: distinct_conv_nth)
  with i show "fst (resolve_room (re_public (assign_public_ids es ! i)) s) =
      Some (re_instance (es ! i), re_raw (es ! i))"
    by (simp add: entries_nth routes_to_only [OF inv assms(2) i])
next
  have inv: "fleet_inv digest s" using assms(1) by (rule reachable_fleet_inv)
  then have ok: "records_ok (fs_records s)" by (simp add: fleet_inv_def)
  fix kr assume m: "kr \<in> set (fs_records s)"
  obtain k r where e: "kr = (k, r)" by (cases kr)
  with m have kr: "kr = (k, r)" "(k, r) \<in> set (fs_records s)" by simp_all
  with ok have id: "ii_id (ir_info r) = k" "jm_get (fs_records s) k = Some r"
    by (auto simp: records_ok_def map_of_eq_Some_iff)
  then have "fst (get_instance k s) = Some (view_row (fs_records s) r)"
    by (simp add: query_answers(3) [OF inv] build_view_by_id [OF ok] map_of_map)
  moreover have "map (\<lambda>room. room\<lparr>ri_id := []\<rparr>) (ii_rooms (view_row (fs_records s) r)) =
      map (\<lambda>room. room\<lparr>ri_id := []\<rparr>) (ii_rooms (ir_info r))"
    using view_rooms_content [OF ok kr(2)] by (simp add: view_row_def id)
  ultimately show "case kr of (k, r) \<Rightarrow> \<exists>row. fst (get_instance k s) = Some row \<and>
       map (\<lambda>room. room\<lparr>ri_id := []\<rparr>) (ii_rooms row) = map (\<lambda>room. room\<lparr>ri_id := []\<rparr>) (ii_rooms (ir_info r))"
    by (auto simp: kr(1))
qed

text \<open>
  C23: the public id space. In every reachable state, whatever ids the agents report: for each
  reported room exactly one room carries its base id publicly, the first in the documented order
  (fleet before local, then earliest joiner, then lower instance id), and the base id routes to
  that room's instance and raw id. When no process reports two rooms with one base id, every room
  has a public id of its own that routes back to it, and the row of each instance lists its rooms
  in reported order with nothing but the id changed.
\<close>

theorem public_id_space:
  assumes "fleet_reachable digest s" and "es = collect_entries (fs_records s)"
  shows "(\<forall>i < length es. \<exists>k < length es. re_base (es ! k) = re_base (es ! i) \<and>
      (\<forall>j < length es. re_base (es ! j) = re_base (es ! i) \<longrightarrow> compare_for_canonical (es ! k) (es ! j) \<le> 0) \<and>
      (\<forall>j < length es. re_public (assign_public_ids es ! j) = re_base (es ! i) \<longleftrightarrow> j = k) \<and>
      fst (resolve_room (re_base (es ! i)) s) = Some (re_instance (es ! k), re_raw (es ! k))) \<and>
    (distinct (map (\<lambda>e. (re_process e, re_base e)) es) \<longrightarrow>
      (\<forall>i < length es. fst (resolve_room (re_public (assign_public_ids es ! i)) s) =
          Some (re_instance (es ! i), re_raw (es ! i))) \<and>
      (\<forall>(k, r) \<in> set (fs_records s). \<exists>row. fst (get_instance k s) = Some row \<and>
         map (\<lambda>room. room\<lparr>ri_id := []\<rparr>) (ii_rooms row) = map (\<lambda>room. room\<lparr>ri_id := []\<rparr>) (ii_rooms (ir_info r))))"
  using canonical_id_unique [OF assms] public_ids_route [OF assms] by blast

theorem public_id_space_witness:
  "fst (resolve_room [0x70, 0x7E, 0x78] sample_fleet) = Some ([1], [0x78]) \<and>
   fst (resolve_room [0x78] sample_fleet) = Some ([2], [0x78])"
proof -
  let ?es = "collect_entries (fs_records sample_fleet)"
  have d: "distinct (map (\<lambda>e. (re_process e, re_base e)) ?es)" by (simp add: sample_entries)
  have l: "length (assign_public_ids ?es) = 2" using arg_cong [OF sample_public_ids, of length] by simp
  have "re_public (assign_public_ids ?es ! 0) = [0x70, 0x7E, 0x78]" "re_public (assign_public_ids ?es ! 1) = [0x78]"
    using arg_cong [OF sample_public_ids, of "\<lambda>xs. xs ! 0"] arg_cong [OF sample_public_ids, of "\<lambda>xs. xs ! 1"] l
    by (simp_all add: nth_map)
  with public_id_space [OF sample_reachable refl, THEN conjunct2, rule_format, OF d, THEN conjunct1] show ?thesis
    by (force simp: sample_entries)
qed

section \<open>Counters and caches\<close>

text \<open>
  C25: counters and caches are exact. In every reachable state the number of reserved and of
  pending rooms of an instance is the number of live reservations and of held ids filed under
  it, and every cached answer (rows, lookups, the state hash) is what recomputing it from the
  records gives.
\<close>

theorem counters_and_caches_exact:
  assumes "fleet_reachable digest s"
  shows "reserved_rooms inst s = length (filter (\<lambda>(t, i). i = inst) (fs_reservations s)) \<and>
    pending_rooms inst s = length (filter (\<lambda>(room, i). i = inst) (fs_pending_ids s)) \<and>
    fst (fleet_instances s) = rv_instances (build_view (fs_records s)) \<and>
    fst (get_instance inst s) = jm_get (rv_by_id (build_view (fs_records s))) inst \<and>
    fst (get_room room s) = map_option lc_room (jm_get (rv_by_public (build_view (fs_records s))) room) \<and>
    st_hash (fst (fleet_stats_of digest s)) =
      compute_state_hash digest (rv_instances (build_view (fs_records s)))"
proof -
  have inv: "fleet_inv digest s" using assms by (rule reachable_fleet_inv)
  then have "counts (fs_reservations s) (fs_reserved_by s)" "counts (fs_pending_ids s) (fs_pending_by s)"
    by (simp_all add: fleet_inv_def tokens_ok_def ids_ok_def)
  then show ?thesis
    by (simp add: reserved_rooms_def pending_rooms_def count_of_counts query_answers [OF inv]
        fleet_stats_inv(1) [OF inv])
qed

theorem counters_and_caches_exact_witness:
  "reserved_rooms [1] sample_fleet = 0 \<and> length (fst (fleet_instances sample_fleet)) = 2"
  using counters_and_caches_exact [of "\<lambda>_. []" sample_fleet "[1]", OF sample_reachable]
  by (simp add: build_view_instances) (simp add: sample_defs)

section \<open>Placement\<close>

lemma choose_one_in: "xs \<noteq> [] \<Longrightarrow> choose_one rnd xs \<in> set xs"
  unfolding choose_one_def by (rule nth_mem) (cases xs, simp_all)

text \<open>The loop of \<open>pick\<close> ends with the extreme score.\<close>

lemma best_score:
  fixes f :: "instance_info \<Rightarrow> real"
  assumes "xs \<noteq> []" and b: "b = fold (\<lambda>i b. if most then max b (f i) else min b (f i)) xs (f (hd xs))"
  shows "(\<exists>i \<in> set xs. f i = b) \<and> (\<forall>i \<in> set xs. if most then f i \<le> b else b \<le> f i)"
proof -
  have "(fold (\<lambda>i b. if most then max b (f i) else min b (f i)) ys c = c \<or>
      (\<exists>i \<in> set ys. f i = fold (\<lambda>i b. if most then max b (f i) else min b (f i)) ys c)) \<and>
    (\<forall>v. v = c \<or> v \<in> f ` set ys \<longrightarrow>
      (if most then v \<le> fold (\<lambda>i b. if most then max b (f i) else min b (f i)) ys c
       else fold (\<lambda>i b. if most then max b (f i) else min b (f i)) ys c \<le> v))" for ys c
  proof (induction ys arbitrary: c)
    case (Cons y ys)
    from Cons.IH [of "if most then max c (f y) else min c (f y)"] show ?case
      by (cases most) (auto simp: max_def min_def split: if_splits)
  qed simp
  from this [of xs "f (hd xs)"] assms show ?thesis by (auto simp: hd_in_set)
qed

lemma pick_spec:
  assumes "xs \<noteq> []"
  defines "n \<equiv> list_all (\<lambda>i. max_connections (ii_capacity i) \<noteq> None) xs"
  shows "pick rnd xs strat \<in> set xs \<and>
    (strat = LeastLoaded \<longrightarrow> (\<forall>i \<in> set xs. score_of n (pick rnd xs strat) \<le> score_of n i)) \<and>
    (strat = MostLoaded \<longrightarrow> (\<forall>i \<in> set xs. score_of n i \<le> score_of n (pick rnd xs strat)))"
proof (cases "strat = Random")
  case True
  with assms show ?thesis by (simp add: pick_def choose_one_in)
next
  case False
  define b where "b = fold (\<lambda>i best. if strat = MostLoaded then max best (score_of n i)
                                 else min best (score_of n i)) xs (score_of n (hd xs))"
  note best = best_score [OF assms(1) b_def]
  have p: "pick rnd xs strat = choose_one rnd (filter (\<lambda>i. score_of n i = b) xs)"
    unfolding pick_def b_def n_def Let_def using False by (simp only: if_False)
  have "filter (\<lambda>i. score_of n i = b) xs \<noteq> []" using best by (auto simp: filter_empty_conv)
  from choose_one_in [OF this, of rnd] have m: "pick rnd xs strat \<in> set xs" "score_of n (pick rnd xs strat) = b"
    unfolding p by auto
  from best m show ?thesis by (cases strat) auto
qed

lemma sample_placement:
  "\<exists>i r t. place 0 sample_request sample_fleet = (Inr (i, r), t) \<and> max_rooms (ii_capacity i) = Some 2"
proof -
  have f: "filter (candidate sample_fleet sample_request) (raw_instances sample_fleet) = raw_instances sample_fleet"
    "raw_instances sample_fleet \<noteq> []"
    by (simp_all add: sample_raw sample_headroom)
  have r: "pi_instance sample_request = None" "pi_process sample_request = None" by (simp_all add: sample_request_def)
  obtain i rt where i: "i \<in> set (raw_instances sample_fleet)"
    "place 0 sample_request sample_fleet = (Inr (i, fst rt), snd rt)"
    using pick_spec [OF f(2)] by (simp add: place_def r f case_prod_unfold Let_def)
  from i(1) have "max_rooms (ii_capacity i) = Some 2"
    by (auto simp: sample_raw build_instance_info_def sample_payload_def Let_def)
  with i(2) show ?thesis by blast
qed

lemma strategy_placement:
  assumes "pi_instance req = None" "pi_process req = None" "place rnd req s = (Inr (i, r), t)"
  shows "filter (candidate s req) (raw_instances s) \<noteq> []"
    "i = pick rnd (filter (candidate s req) (raw_instances s)) (case pi_strategy req of Some x \<Rightarrow> x | None \<Rightarrow> LeastLoaded)"
    "r = fst (reserve (ii_id i) s)" "t = snd (reserve (ii_id i) s)"
  using assms by (auto simp: place_def Let_def case_prod_unfold split: if_splits)

text \<open>
  Placement never over-admits. When a strategy placement succeeds, the chosen instance is
  connected, active, not stale, accepts rooms of the type and matches the labels; and with the new
  reservation counted, its rooms, reservations and invisible rooms together are within its
  declared maximum, its connections below theirs.
\<close>

lemma placement_within_capacity:
  assumes "fleet_reachable digest s"
    and "pi_instance req = None" "pi_process req = None" "place rnd req s = (Inr (i, r), t)"
  shows "raw_instance_by_id (ii_id i) s = Some i \<and> effective_status s i = active \<and> ii_id i \<notin> fs_stale s \<and>
    ii_auto i \<and> pi_type req \<in> set (ii_types i) \<and>
    (\<forall>l. pi_labels req = Some l \<longrightarrow> matches_labels (ii_labels i) l) \<and>
    (\<forall>m. max_rooms (ii_capacity i) = Some m \<longrightarrow>
       int (length (ii_rooms i) + reserved_rooms (ii_id i) t + pending_rooms (ii_id i) t) \<le> m) \<and>
    (\<forall>m. max_connections (ii_capacity i) = Some m \<longrightarrow> ii_connections i < m)"
proof -
  note st = strategy_placement [OF assms(2-4)]
  have ok: "records_ok (fs_records s)" using reachable_fleet_inv [OF assms(1)] by (simp add: fleet_inv_def)
  have "i \<in> set (filter (candidate s req) (raw_instances s))"
    unfolding st(2) using pick_spec [OF st(1)] by blast
  then have c: "candidate s req i" and "i \<in> set (raw_instances s)" by auto
  then obtain k x where x: "(k, x) \<in> set (fs_records s)" "i = ir_info x" by (auto simp: raw_instances_def)
  with ok have "ii_id i = k" "jm_get (fs_records s) k = Some x" by (auto simp: records_ok_def map_of_eq_Some_iff)
  with x have raw: "raw_instance_by_id (ii_id i) s = Some i" by (simp add: raw_instance_by_id_def)
  have "reserved_rooms (ii_id i) t = reserved_rooms (ii_id i) s + 1" "pending_rooms (ii_id i) t = pending_rooms (ii_id i) s"
    unfolding st(4) by (simp_all add: reserve_def Let_def reserved_rooms_def pending_rooms_def count_of_def jsmap_simps)
  with c raw show ?thesis
    by (auto simp: candidate_def has_headroom_def split: if_splits option.splits)
qed

text \<open>
  Placement follows its strategy. A strategy placement fails only when no instance
  qualifies, and then changes nothing; otherwise it takes one of the qualifying instances, for
  \<open>least-loaded\<close> (the default) one whose score none undercuts, for \<open>most-loaded\<close> one whose
  score none exceeds, where scores are relative to capacity when every candidate declares it.
\<close>

lemma placement_follows_strategy:
  assumes "pi_instance req = None" "pi_process req = None"
    and "qualified = filter (candidate s req) (raw_instances s)"
    and "n = list_all (\<lambda>i. max_connections (ii_capacity i) \<noteq> None) qualified"
  shows "(qualified = [] \<longrightarrow> place rnd req s = (Inl NoCandidate, s)) \<and>
    (qualified \<noteq> [] \<longrightarrow> (\<exists>i r t. place rnd req s = (Inr (i, r), t) \<and> i \<in> set qualified \<and>
       (pi_strategy req \<in> {None, Some LeastLoaded} \<longrightarrow> (\<forall>j \<in> set qualified. score_of n i \<le> score_of n j)) \<and>
       (pi_strategy req = Some MostLoaded \<longrightarrow> (\<forall>j \<in> set qualified. score_of n j \<le> score_of n i))))"
proof (cases "qualified = []")
  case True
  with assms show ?thesis by (simp add: place_def Let_def)
next
  case False
  let ?strat = "case pi_strategy req of Some x \<Rightarrow> x | None \<Rightarrow> LeastLoaded"
  let ?i = "pick rnd qualified ?strat"
  have "place rnd req s = (Inr (?i, fst (reserve (ii_id ?i) s)), snd (reserve (ii_id ?i) s))"
    using assms False by (simp add: place_def Let_def case_prod_unfold)
  moreover note pick_spec [OF False, of rnd ?strat, folded assms(4)]
  ultimately show ?thesis using False by (auto split: option.splits)
qed

text \<open>
  C26: placement. In every reachable state a strategy placement fails only when no instance
  qualifies, and then changes nothing; otherwise it takes a qualifying one: connected, active, not
  stale, accepting rooms of the type, matching the labels, within its declared capacities even with
  the new reservation counted beside rooms and invisible creates; for \<open>least-loaded\<close> (the default)
  one whose score none undercuts, for \<open>most-loaded\<close> one whose score none exceeds.
\<close>

theorem placement_sound:
  assumes "fleet_reachable digest s" and "pi_instance req = None" "pi_process req = None"
    and "qualified = filter (candidate s req) (raw_instances s)"
    and "n = list_all (\<lambda>i. max_connections (ii_capacity i) \<noteq> None) qualified"
  shows "(qualified = [] \<longrightarrow> place rnd req s = (Inl NoCandidate, s)) \<and>
    (qualified \<noteq> [] \<longrightarrow> (\<exists>i r t. place rnd req s = (Inr (i, r), t) \<and> i \<in> set qualified \<and>
       (pi_strategy req \<in> {None, Some LeastLoaded} \<longrightarrow> (\<forall>j \<in> set qualified. score_of n i \<le> score_of n j)) \<and>
       (pi_strategy req = Some MostLoaded \<longrightarrow> (\<forall>j \<in> set qualified. score_of n j \<le> score_of n i)) \<and>
       raw_instance_by_id (ii_id i) s = Some i \<and> effective_status s i = active \<and> ii_id i \<notin> fs_stale s \<and>
       ii_auto i \<and> pi_type req \<in> set (ii_types i) \<and>
       (\<forall>l. pi_labels req = Some l \<longrightarrow> matches_labels (ii_labels i) l) \<and>
       (\<forall>m. max_rooms (ii_capacity i) = Some m \<longrightarrow>
          int (length (ii_rooms i) + reserved_rooms (ii_id i) t + pending_rooms (ii_id i) t) \<le> m) \<and>
       (\<forall>m. max_connections (ii_capacity i) = Some m \<longrightarrow> ii_connections i < m)))"
proof (intro conjI impI)
  note f = placement_follows_strategy [OF assms(2-5), of rnd]
  then show "qualified = [] \<Longrightarrow> place rnd req s = (Inl NoCandidate, s)" by blast
  assume "qualified \<noteq> []"
  with f obtain i r t where p: "place rnd req s = (Inr (i, r), t)" and i: "i \<in> set qualified"
    "pi_strategy req \<in> {None, Some LeastLoaded} \<longrightarrow> (\<forall>j \<in> set qualified. score_of n i \<le> score_of n j)"
    "pi_strategy req = Some MostLoaded \<longrightarrow> (\<forall>j \<in> set qualified. score_of n j \<le> score_of n i)" by blast
  from placement_within_capacity [OF assms(1-3) p] show "\<exists>i r t. place rnd req s = (Inr (i, r), t) \<and> i \<in> set qualified \<and>
       (pi_strategy req \<in> {None, Some LeastLoaded} \<longrightarrow> (\<forall>j \<in> set qualified. score_of n i \<le> score_of n j)) \<and>
       (pi_strategy req = Some MostLoaded \<longrightarrow> (\<forall>j \<in> set qualified. score_of n j \<le> score_of n i)) \<and>
       raw_instance_by_id (ii_id i) s = Some i \<and> effective_status s i = active \<and> ii_id i \<notin> fs_stale s \<and>
       ii_auto i \<and> pi_type req \<in> set (ii_types i) \<and>
       (\<forall>l. pi_labels req = Some l \<longrightarrow> matches_labels (ii_labels i) l) \<and>
       (\<forall>m. max_rooms (ii_capacity i) = Some m \<longrightarrow>
          int (length (ii_rooms i) + reserved_rooms (ii_id i) t + pending_rooms (ii_id i) t) \<le> m) \<and>
       (\<forall>m. max_connections (ii_capacity i) = Some m \<longrightarrow> ii_connections i < m)"
    by (intro exI [of _ i] exI [of _ r] exI [of _ t] conjI) (use p i in simp_all)
qed

theorem placement_sound_witness:
  "\<exists>i r t. place 0 sample_request sample_fleet = (Inr (i, r), t) \<and> ii_id i \<notin> fs_stale sample_fleet"
proof -
  have "pi_instance sample_request = None" "pi_process sample_request = None" by (simp_all add: sample_request_def)
  note p = placement_sound [OF sample_reachable this refl refl, of 0]
  have "filter (candidate sample_fleet sample_request) (raw_instances sample_fleet) \<noteq> []"
    by (simp add: sample_raw sample_headroom)
  with p show ?thesis by blast
qed

section \<open>Room ids and snapshots\<close>

lemma claimed_rejected:
  assumes "fleet_inv digest s" "is_valid_room_id room" "room \<in> fs_reserved_ids s \<or> jm_has (fs_pending_ids s) room"
  shows "fst (reserve_room_id rb (Some room) s) = Inl RoomExists"
  using is_room_id_taken_memo(1) [OF assms(1), of room] assms
  by (cases "is_room_id_taken room s") (auto simp: reserve_room_id_def)

lemma apply_snapshot_pending:
  assumes "fleet_inv digest s"
  shows "fs_pending_ids (fst (apply_snapshot inst p now s)) =
      (if snd (apply_snapshot inst p now s) then filter (\<lambda>(k, i). i \<noteq> inst) (fs_pending_ids s) else fs_pending_ids s)"
    "fs_pending_by (fst (apply_snapshot inst p now s)) =
      (if snd (apply_snapshot inst p now s) then jm_delete (fs_pending_by s) inst else fs_pending_by s)"
proof -
  have "ids_ok (invalidate (stored inst p now j c s))" for j c
    using assms by (simp add: fleet_inv_def ids_ok_def invalidate_def stored_def)
  note cl = clear_pending_ids [OF this, of inst]
  have same: "fs_pending_ids (invalidate (stored inst p now j c s)) = fs_pending_ids s"
    "fs_pending_by (invalidate (stored inst p now j c s)) = fs_pending_by s" for j c
    by (simp_all add: invalidate_def stored_def)
  show "fs_pending_ids (fst (apply_snapshot inst p now s)) =
      (if snd (apply_snapshot inst p now s) then filter (\<lambda>(k, i). i \<noteq> inst) (fs_pending_ids s) else fs_pending_ids s)"
    "fs_pending_by (fst (apply_snapshot inst p now s)) =
      (if snd (apply_snapshot inst p now s) then jm_delete (fs_pending_by s) inst else fs_pending_by s)"
    by (simp_all add: apply_snapshot_cases reconcile_frame cl same split: option.split)
qed

lemma touch_pending:
  assumes "fleet_inv digest s" "jm_has (fs_records s) inst"
  shows "fs_pending_ids (touch inst now s) = filter (\<lambda>(k, i). i \<noteq> inst) (fs_pending_ids s)"
proof -
  from assms(2) obtain r where r: "jm_get (fs_records s) inst = Some r" by (auto simp: jm_has_def)
  have "ids_ok (s\<lparr>fs_records := recs\<rparr>)" for recs
    using assms(1) by (simp add: fleet_inv_def ids_ok_def)
  from clear_pending_ids(1) [OF this, of inst] r show ?thesis
    by (simp add: touch_def Let_def reconcile_frame)
qed

lemma remove_pending:
  assumes "fleet_inv digest s" "jm_has (fs_records s) inst"
  shows "fs_pending_ids (fst (remove_instance inst s)) = filter (\<lambda>(k, i). i \<noteq> inst) (fs_pending_ids s)"
proof -
  from assms(2) obtain r where r: "jm_get (fs_records s) inst = Some r" by (auto simp: jm_has_def)
  have "ids_ok (s\<lparr>fs_records := recs, fs_stale := st, fs_pending_status := ps\<rparr>)" for recs st ps
    using assms(1) by (simp add: fleet_inv_def ids_ok_def)
  from clear_pending_ids(1) [OF this, of inst] r show ?thesis
    by (simp add: remove_instance_def Let_def invalidate_def)
qed

lemma filter_other_has:
  "jm_get m room = Some i \<Longrightarrow> i \<noteq> inst \<Longrightarrow> jm_has (filter (\<lambda>(k, i). i \<noteq> inst) m) room"
  by (force simp: jm_has_iff_keys dest: map_of_SomeD)

text \<open>Reports of other instances leave a held id held.\<close>

lemma pending_survives_others:
  assumes inv: "fleet_inv digest s" and "jm_get (fs_pending_ids s) room = Some i" "i \<noteq> inst"
  shows "jm_has (fs_pending_ids (fst (apply_snapshot inst p now s))) room"
    "jm_has (fs_pending_ids (touch inst now s)) room"
    "jm_has (fs_pending_ids (fst (remove_instance inst s))) room"
proof -
  have h: "jm_has (fs_pending_ids s) room" using assms(2) by (simp add: jm_has_def)
  note f = filter_other_has [OF assms(2,3)]
  have none: "touch inst now s = s" "fst (remove_instance inst s) = s" if "\<not> jm_has (fs_records s) inst"
    using that by (simp_all add: jm_has_def touch_def remove_instance_def)
  show "jm_has (fs_pending_ids (fst (apply_snapshot inst p now s))) room"
    using h f by (simp add: apply_snapshot_pending [OF inv])
  show "jm_has (fs_pending_ids (touch inst now s)) room"
    using h f by (cases "jm_has (fs_records s) inst") (simp_all add: touch_pending [OF inv] none)
  show "jm_has (fs_pending_ids (fst (remove_instance inst s))) room"
    using h f by (cases "jm_has (fs_records s) inst") (simp_all add: remove_pending [OF inv] none)
qed

text \<open>
  C28: a room id has one holder. A successful \<open>reserveRoomId\<close> returns a legal id that no create
  in flight, no settled create and no live room has; every second claim of it fails with
  \<open>ROOM_EXISTS\<close> while the create is in flight, and also after the create settled with
  \<open>holdUntilVisible\<close>, whatever other instances report, time out or leave meanwhile.
\<close>

theorem room_id_has_one_holder:
  assumes "fleet_reachable digest s" and "reserve_room_id rb wanted s = (Inr room, t)"
    and "issued r t" and "inst \<noteq> rs_instance r"
    and "u = hold_until_visible room r t"
  shows "is_valid_room_id room \<and> room \<notin> fs_reserved_ids s \<and> \<not> jm_has (fs_pending_ids s) room \<and>
    fst (get_room room s) = None \<and>
    (\<forall>v \<in> {t, u, fst (apply_snapshot inst p now u), touch inst now u, fst (remove_instance inst u)}.
       fst (reserve_room_id rb' (Some room) v) = Inl RoomExists)"
proof -
  have inv: "fleet_inv digest s" using assms(1) by (rule reachable_fleet_inv)
  have spec: "\<not> fst (is_room_id_taken room s)" "is_valid_room_id room"
    "memo_only (s\<lparr>fs_reserved_ids := insert room (fs_reserved_ids s)\<rparr>) t" "fleet_inv digest t"
    using reserve_room_id_spec(1,2) [OF inv, of rb wanted] assms(2) by auto
  note free = spec(1) [unfolded is_room_id_taken_memo(1) [OF inv]]
  have res: "room \<in> fs_reserved_ids t" "fs_pending_ids t = fs_pending_ids s"
    using memo_only_fields(5,6) [OF spec(3)] by simp_all
  have invu: "fleet_inv digest u" unfolding assms(5) by (rule hold_until_visible_inv [OF spec(4) assms(3)])
  have "jm_get (fs_pending_ids u) room = Some (rs_instance r)"
    using free res(2) by (simp add: assms(5) hold_cases Let_def release_room_id_def release_frame jm_get_set)
  note pend = this pending_survives_others [OF invu this not_sym [OF assms(4)]]
  have "fst (reserve_room_id rb' (Some room) v) = Inl RoomExists"
    if "fleet_inv digest v" "room \<in> fs_reserved_ids v \<or> jm_has (fs_pending_ids v) room" for v
    by (rule claimed_rejected [OF that(1) spec(2) that(2)])
  then have "\<forall>v \<in> {t, u, fst (apply_snapshot inst p now u), touch inst now u, fst (remove_instance inst u)}.
       fst (reserve_room_id rb' (Some room) v) = Inl RoomExists"
    using spec(4) res(1) invu pend apply_snapshot_inv [OF invu] touch_inv [OF invu] remove_instance_inv [OF invu]
    by (auto simp: jm_has_def)
  with free spec(2) show ?thesis by (simp add: query_answers [OF inv])
qed

theorem room_id_has_one_holder_witness:
  "fst (reserve_room_id (\<lambda>_. []) (Some [0x78]) (hold_until_visible [0x78] \<lparr>rs_id = [], rs_instance = [1]\<rparr>
     (snd (reserve_room_id (\<lambda>_. []) (Some [0x78]) new_fleet)))) = Inl RoomExists"
proof -
  have e: "reserve_room_id (\<lambda>_. []) (Some [0x78]) new_fleet =
      (Inr [0x78], snd (reserve_room_id (\<lambda>_. []) (Some [0x78]) new_fleet))"
    by (simp add: reserve_room_id_def sample_valid is_room_id_taken_def get_room_def resolve_def new_fleet_def
        build_view_def collect_entries_def assign_public_ids_def group_entries_def Let_def)
  have "issued \<lparr>rs_id = [], rs_instance = [1]\<rparr> (snd (reserve_room_id (\<lambda>_. []) (Some [0x78]) new_fleet))"
    by (simp add: issued_def reserve_room_id_def sample_valid is_room_id_taken_def get_room_def resolve_def
        new_fleet_def Let_def split: bool.split)
  from room_id_has_one_holder [OF fleet_reachable.start e this _ refl, where inst = "[2]" and rb' = "\<lambda>_. []"] show ?thesis by simp
qed

text \<open>
  C29: snapshots apply in order. A snapshot is applied exactly when its sequence number exceeds
  the last one applied on the connection; a late or repeated one changes nothing. An applied one
  becomes the instance's row under its sequence number, keeps the join order that decides
  collisions, releases the instance's held ids, and touches no other instance.
\<close>

theorem snapshots_apply_in_order:
  assumes "fleet_reachable digest s" and "apply_snapshot inst p now s = (t, applied)"
  shows "(applied \<longleftrightarrow> (\<forall>old. jm_get (fs_records s) inst = Some old \<longrightarrow> ir_seq old < sp_seq p)) \<and>
    (\<not> applied \<longrightarrow> t = s) \<and>
    (applied \<longrightarrow> (\<exists>row. jm_get (fs_records t) inst = Some row \<and> ir_seq row = sp_seq p \<and>
        ir_info row = build_instance_info inst p now \<and>
        (\<forall>old. jm_get (fs_records s) inst = Some old \<longrightarrow> ir_join row = ir_join old)) \<and>
      pending_rooms inst t = 0) \<and>
    (\<forall>i. i \<noteq> inst \<longrightarrow> jm_get (fs_records t) i = jm_get (fs_records s) i \<and> pending_rooms i t = pending_rooms i s)"
proof -
  have inv: "fleet_inv digest s" using assms(1) by (rule reachable_fleet_inv)
  have pend: "fs_pending_by t = (if applied then jm_delete (fs_pending_by s) inst else fs_pending_by s)"
    using apply_snapshot_pending(2) [OF inv, of inst p now] assms(2) by simp
  have recs: "applied \<Longrightarrow> \<exists>j. fs_records t = jm_set (fs_records s) inst \<lparr>ir_info = build_instance_info inst p now,
        ir_seq = sp_seq p, ir_hash = sp_hash p, ir_join = j\<rparr> \<and>
      (\<forall>old. jm_get (fs_records s) inst = Some old \<longrightarrow> j = ir_join old)"
    using assms(2) by (auto simp: apply_snapshot_cases reconcile_frame clear_pending_frame invalidate_def
        stored_def split: option.splits if_splits)
  have ap: "applied \<longleftrightarrow> (\<forall>old. jm_get (fs_records s) inst = Some old \<longrightarrow> ir_seq old < sp_seq p)"
    and no: "\<not> applied \<longrightarrow> t = s"
    using assms(2) by (auto simp: apply_snapshot_cases split: option.splits if_splits)
  show ?thesis
  proof (cases applied)
    case True
    from recs [OF True] obtain j where r: "fs_records t = jm_set (fs_records s) inst
        \<lparr>ir_info = build_instance_info inst p now, ir_seq = sp_seq p, ir_hash = sp_hash p, ir_join = j\<rparr>"
      "\<forall>old. jm_get (fs_records s) inst = Some old \<longrightarrow> j = ir_join old" by blast
    with True ap pend show ?thesis
      by (simp add: jm_get_set jm_get_delete pending_rooms_def count_of_def)
  qed (use ap no in auto)
qed

theorem snapshots_apply_in_order_witness:
  "\<not> snd (apply_snapshot [1] (sample_payload [0x70] []) 5 sample_fleet) \<and>
   snd (apply_snapshot [1] ((sample_payload [0x70] [])\<lparr>sp_seq := 2\<rparr>) 5 sample_fleet)"
proof -
  obtain r where "jm_get (fs_records sample_fleet) [1] = Some r" "ir_seq r = 1"
    by (simp add: sample_fleet_def apply_snapshot_def new_fleet_def Let_def invalidate_def
      clear_pending_visibility_def reconcile_pending_status_def sample_payload_def)
  then show ?thesis
    using snapshots_apply_in_order [of "\<lambda>_. []" sample_fleet "[1]" "sample_payload [0x70] []" 5, OF sample_reachable surjective_pairing]
      snapshots_apply_in_order [of "\<lambda>_. []" sample_fleet "[1]" "(sample_payload [0x70] [])\<lparr>sp_seq := 2\<rparr>" 5, OF sample_reachable surjective_pairing]
    by (simp add: sample_payload_def)
qed

end
