(* ===== verification/Fleet_Commands.thy ===== *)
theory Fleet_Commands
  imports Fleet_State_Inv
begin

text \<open>
  The command engine (\<open>fleet/src/orchestrator/CommandEngine.ts\<close>). Its \<open>ReservationReleaser\<close>
  interface is a record of functions on the releaser's state; the locale states the laws a
  releaser obeys and proves once, for any releaser, that the engine disposes of every reservation
  exactly when its command settles. \<open>FleetState\<close> is the releaser of the program.
  A promise is its command id; its settlement is an entry of \<open>en_outcomes\<close>. \<open>throws\<close> says
  whether \<open>link.send\<close> throws.
\<close>

section \<open>Payloads and state\<close>

text \<open>Decoding does not check the operation; \<open>UnknownOp\<close> is any other decoded value.\<close>

datatype command_op = Create | Destroy | Drain | Undrain | UnknownOp jsval

record cmd_payload =
  cp_id :: jsstr
  cp_op :: command_op
  cp_room :: "jsstr option"
  cp_type :: "jsstr option"

record ack_payload =
  ak_cmd :: jsstr
  ak_ok :: bool
  ak_error :: "jsstr option"
  ak_gone :: "bool option"
  ak_exists :: "bool option"
  ak_room :: "(jsstr \<times> jsstr) option"

definition max_inflight_commands :: nat where
  "max_inflight_commands = 32"

record 'r releaser =
  rl_release :: "reservation \<Rightarrow> 'r \<Rightarrow> 'r"
  rl_release_id :: "jsstr \<Rightarrow> 'r \<Rightarrow> 'r"
  rl_hold :: "jsstr \<Rightarrow> reservation \<Rightarrow> 'r \<Rightarrow> 'r"

datatype outcome = Resolved ack_payload | Rejected fleet_error

record pending_command =
  pc_timer :: nat
  pc_reservation :: "reservation option"
  pc_room :: "jsstr option"

record 'r engine =
  en_rel :: 'r
  en_pending :: "(jsstr, (jsstr, pending_command) jsmap) jsmap"
  en_seq :: nat
  en_timers :: "(nat, jsstr \<times> jsstr) jsmap"
  en_next :: nat
  en_outcomes :: "(jsstr \<times> outcome) list"
  en_sent :: "(jsstr \<times> cmd_payload) list"

section \<open>Operations\<close>

definition next_cmd_id :: "'r engine \<Rightarrow> jsstr \<times> 'r engine" where
  "next_cmd_id e = (js ''cmd_'' @ decimal (en_seq e + 1), e\<lparr>en_seq := en_seq e + 1\<rparr>)"

definition in_flight :: "jsstr \<Rightarrow> 'r engine \<Rightarrow> nat" where
  "in_flight inst e = (case jm_get (en_pending e) inst of Some m \<Rightarrow> length m | None \<Rightarrow> 0)"

definition map_for :: "jsstr \<Rightarrow> 'r engine \<Rightarrow> (jsstr, pending_command) jsmap \<times> 'r engine" where
  "map_for inst e = (case jm_get (en_pending e) inst of
     Some m \<Rightarrow> (m, e)
   | None \<Rightarrow> ([], e\<lparr>en_pending := jm_set (en_pending e) inst []\<rparr>))"

definition release_both :: "'r releaser \<Rightarrow> reservation option \<Rightarrow> jsstr option \<Rightarrow> 'r engine \<Rightarrow> 'r engine" where
  "release_both rel res room e =
     (let e = (case res of None \<Rightarrow> e | Some r \<Rightarrow> e\<lparr>en_rel := rl_release rel r (en_rel e)\<rparr>)
      in case room of None \<Rightarrow> e | Some i \<Rightarrow> e\<lparr>en_rel := rl_release_id rel i (en_rel e)\<rparr>)"

definition release_reservations :: "'r releaser \<Rightarrow> pending_command \<Rightarrow> 'r engine \<Rightarrow> 'r engine" where
  "release_reservations rel pc e = release_both rel (pc_reservation pc) (pc_room pc) e"

definition hold_or_release :: "'r releaser \<Rightarrow> pending_command \<Rightarrow> 'r engine \<Rightarrow> 'r engine" where
  "hold_or_release rel pc e = (case (pc_reservation pc, pc_room pc) of
     (Some r, Some i) \<Rightarrow> e\<lparr>en_rel := rl_hold rel i r (en_rel e)\<rparr>
   | _ \<Rightarrow> release_reservations rel pc e)"

definition finish :: "jsstr \<Rightarrow> outcome \<Rightarrow> 'r engine \<Rightarrow> 'r engine" where
  "finish c out e = e\<lparr>en_outcomes := en_outcomes e @ [(c, out)]\<rparr>"

definition settle ::
  "jsstr \<Rightarrow> jsstr \<Rightarrow> (pending_command \<Rightarrow> 'r engine \<Rightarrow> 'r engine) \<Rightarrow> 'r engine \<Rightarrow> 'r engine \<times> bool" where
  "settle inst c action e = (case jm_get (en_pending e) inst of
     None \<Rightarrow> (e, False)
   | Some m \<Rightarrow> (case jm_get m c of
       None \<Rightarrow> (e, False)
     | Some pc \<Rightarrow>
         (action pc (e\<lparr>en_pending := jm_set (en_pending e) inst (jm_delete m c),
                       en_timers := jm_delete (en_timers e) (pc_timer pc)\<rparr>), True)))"

definition engine_send ::
  "'r releaser \<Rightarrow> bool \<Rightarrow> jsstr \<Rightarrow> cmd_payload \<Rightarrow> reservation option \<Rightarrow> jsstr option \<Rightarrow> 'r engine \<Rightarrow> 'r engine" where
  "engine_send rel throws inst cmd res room e =
     (let (m, e) = map_for inst e
      in if length m \<ge> max_inflight_commands
         then finish (cp_id cmd) (Rejected InstanceBusy) (release_both rel res room e)
         else
           let h = en_next e;
               e = e\<lparr>en_timers := jm_set (en_timers e) h (inst, cp_id cmd), en_next := h + 1,
                     en_pending := jm_set (en_pending e) inst
                       (jm_set m (cp_id cmd) \<lparr>pc_timer = h, pc_reservation = res, pc_room = room\<rparr>)\<rparr>
           in if throws
              then fst (settle inst (cp_id cmd)
                     (\<lambda>pc e. finish (cp_id cmd) (Rejected InstanceDisconnected) (release_reservations rel pc e)) e)
              else e\<lparr>en_sent := en_sent e @ [(inst, cmd)]\<rparr>)"

text \<open>The timer's callback, for an armed handle.\<close>

definition engine_timeout :: "'r releaser \<Rightarrow> nat \<Rightarrow> 'r engine \<Rightarrow> 'r engine" where
  "engine_timeout rel h e = (case jm_get (en_timers e) h of
     None \<Rightarrow> e
   | Some (inst, c) \<Rightarrow>
       fst (settle inst c (\<lambda>pc e. finish c (Rejected CommandTimeout) (hold_or_release rel pc e))
         (e\<lparr>en_timers := jm_delete (en_timers e) h\<rparr>)))"

definition engine_ack :: "'r releaser \<Rightarrow> jsstr \<Rightarrow> ack_payload \<Rightarrow> 'r engine \<Rightarrow> 'r engine \<times> bool" where
  "engine_ack rel inst ack e = settle inst (ak_cmd ack)
     (\<lambda>pc e. if ak_ok ack then finish (ak_cmd ack) (Resolved ack) (hold_or_release rel pc e)
             else finish (ak_cmd ack)
               (Rejected (if ak_exists ack = Some True then RoomExists else CommandFailed))
               (release_reservations rel pc e)) e"

definition reject_one :: "'r releaser \<Rightarrow> jsstr \<Rightarrow> jsstr \<Rightarrow> 'r engine \<Rightarrow> 'r engine" where
  "reject_one rel inst c e =
     fst (settle inst c (\<lambda>pc e. finish c (Rejected InstanceDisconnected) (release_reservations rel pc e)) e)"

definition reject_all :: "'r releaser \<Rightarrow> jsstr \<Rightarrow> 'r engine \<Rightarrow> 'r engine" where
  "reject_all rel inst e = (case jm_get (en_pending e) inst of
     None \<Rightarrow> e
   | Some m \<Rightarrow>
       (let e = fold (reject_one rel inst) (jm_keys m) e
        in e\<lparr>en_pending := jm_delete (en_pending e) inst\<rparr>))"

definition new_engine :: "'r \<Rightarrow> 'r engine" where
  "new_engine r = \<lparr>en_rel = r, en_pending = [], en_seq = 0, en_timers = [], en_next = 0, en_outcomes = [], en_sent = []\<rparr>"

end
