(* ===== verification/Fleet_Wire.thy ===== *)
theory Fleet_Wire
  imports Fleet_Commands Handshake
begin

text \<open>
  The agent--orchestrator wire format: \<open>fleet/src/wire/topics.ts\<close>, \<open>payloads.ts\<close> and
  \<open>serializer.ts\<close>. The protobuf library \<open>@toolcase/serializer\<close> is not part of the
  repository: its \<open>encode\<close> and \<open>decode\<close> are the parameters \<open>enc\<close> and
  \<open>dec\<close>, and \<open>unset t k\<close> is what reading a field that was not on the wire yields (the
  prototype default of the decoded object). The locale \<open>message_library\<close> states what the code
  relies on; it is interpreted on the wire-compatible serializer of \<open>handshake/src/wire\<close>.
\<close>

declare map_of_eq_Some_iff [simp del] Some_eq_map_of_iff [simp del]

section \<open>Topics and payloads\<close>

definition protocol_version :: nat where "protocol_version = 3"
definition wire_minor :: nat where "wire_minor = 0"
definition fleet_header_bytes :: nat where "fleet_header_bytes = 2"

definition topic_hello :: jsstr where "topic_hello = js ''fleet/hello''"
definition topic_poll :: jsstr where "topic_poll = js ''fleet/poll''"
definition topic_state :: jsstr where "topic_state = js ''fleet/state''"
definition topic_cmd :: jsstr where "topic_cmd = js ''fleet/cmd''"
definition topic_ack :: jsstr where "topic_ack = js ''fleet/ack''"

record hello_payload =
  hp_instance :: jsstr
  hp_protocol :: int
  hp_heartbeat :: int

record poll_payload =
  pp_req :: jsstr
  pp_known :: "jsstr option"
  pp_status :: jsstr

record state_payload = sync_payload +
  sy_req :: jsstr
  sy_full :: bool

datatype fleet_frame =
    HelloFrame hello_payload | PollFrame poll_payload | StateFrame state_payload
  | CmdFrame cmd_payload | AckFrame ack_payload

section \<open>Schema\<close>

definition opt_field :: "string \<Rightarrow> ftype \<Rightarrow> field_def" where
  "opt_field k t = \<lparr>fd_key = js k, fd_type = t, fd_rule = Optional\<rparr>"

definition rep_field :: "string \<Rightarrow> ftype \<Rightarrow> field_def" where
  "rep_field k t = \<lparr>fd_key = js k, fd_type = t, fd_rule = Repeated\<rparr>"

definition label_fields :: "field_def list" where
  "label_fields = [opt_field ''key'' TString, opt_field ''value'' TString]"

definition room_fields :: "field_def list" where
  "room_fields = [opt_field ''id'' TString, opt_field ''type'' TString, opt_field ''connections'' TUint32,
     opt_field ''origin'' TString]"

definition capacity_fields :: "field_def list" where
  "capacity_fields = [opt_field ''maxConnections'' TInt32, opt_field ''maxRooms'' TInt32]"

definition ack_room_fields :: "field_def list" where
  "ack_room_fields = [opt_field ''id'' TString, opt_field ''type'' TString]"

definition hello_fields :: "field_def list" where
  "hello_fields = [opt_field ''instanceId'' TString, opt_field ''protocolVersion'' TUint32,
     opt_field ''heartbeatMs'' TUint32]"

definition poll_fields :: "field_def list" where
  "poll_fields = [opt_field ''reqId'' TString, opt_field ''knownHash'' TString, opt_field ''status'' TString]"

definition state_fields :: "field_def list" where
  "state_fields = [opt_field ''reqId'' TString, opt_field ''full'' TBool, opt_field ''seq'' TUint32,
     opt_field ''hash'' TString, opt_field ''name'' TString, opt_field ''processUid'' TString,
     opt_field ''agentVersion'' TString, opt_field ''protocolVersion'' TUint32,
     opt_field ''endpointUrl'' TString, rep_field ''labels'' (TMessage (js ''Label'')),
     opt_field ''capacity'' (TMessage (js ''Capacity'')), opt_field ''autoCreate'' TBool,
     rep_field ''roomTypes'' TString, rep_field ''rooms'' (TMessage (js ''SyncRoom'')),
     opt_field ''status'' TString]"

definition cmd_fields :: "field_def list" where
  "cmd_fields = [opt_field ''cmdId'' TString, opt_field ''op'' TString, opt_field ''roomId'' TString,
     opt_field ''roomType'' TString]"

definition ack_fields :: "field_def list" where
  "ack_fields = [opt_field ''cmdId'' TString, opt_field ''ok'' TBool, opt_field ''error'' TString,
     opt_field ''alreadyGone'' TBool, opt_field ''room'' (TMessage (js ''AckRoom'')),
     opt_field ''exists'' TBool]"

definition fleet_schema :: schema where
  "fleet_schema = [(js ''Label'', label_fields), (js ''SyncRoom'', room_fields),
     (js ''Capacity'', capacity_fields), (js ''AckRoom'', ack_room_fields), (js ''Hello'', hello_fields),
     (js ''Poll'', poll_fields), (js ''State'', state_fields), (js ''Cmd'', cmd_fields),
     (js ''Ack'', ack_fields)]"

definition topic_type :: "jsstr \<Rightarrow> jsstr option" where
  "topic_type topic =
     (if topic = topic_hello then Some (js ''Hello'')
      else if topic = topic_poll then Some (js ''Poll'')
      else if topic = topic_state then Some (js ''State'')
      else if topic = topic_cmd then Some (js ''Cmd'')
      else if topic = topic_ack then Some (js ''Ack'')
      else None)"

section \<open>Payload to message\<close>

definition labels_to_list :: "labels \<Rightarrow> jsval" where
  "labels_to_list l = JArr (map (\<lambda>(k, v). JObj [(js ''key'', JStr k), (js ''value'', JStr v)]) l)"

definition limit_value :: "int option \<Rightarrow> jsval" where
  "limit_value c = (case c of None \<Rightarrow> JNull | Some n \<Rightarrow> JNum n)"

definition capacity_to_message :: "capacity \<Rightarrow> jsval" where
  "capacity_to_message c = JObj [(js ''maxConnections'', limit_value (max_connections c)),
     (js ''maxRooms'', limit_value (max_rooms c))]"

definition room_to_message :: "sync_room \<Rightarrow> jsval" where
  "room_to_message r = JObj [(js ''id'', JStr (sr_id r)), (js ''type'', JStr (sr_type r)),
     (js ''connections'', JNum (sr_connections r)), (js ''origin'', JStr (sr_origin r))]"

definition state_to_message :: "state_payload \<Rightarrow> jsval" where
  "state_to_message p =
     (if \<not> sy_full p then
        JObj [(js ''reqId'', JStr (sy_req p)), (js ''full'', JBool False), (js ''seq'', JNum (sp_seq p)),
              (js ''hash'', JStr (sp_hash p))]
      else
        JObj [(js ''reqId'', JStr (sy_req p)), (js ''full'', JBool True), (js ''seq'', JNum (sp_seq p)),
              (js ''hash'', JStr (sp_hash p)), (js ''name'', JStr (sp_name p)),
              (js ''processUid'', JStr (sp_process p)), (js ''agentVersion'', JStr (sp_agent_version p)),
              (js ''protocolVersion'', JNum (sp_protocol p)), (js ''endpointUrl'', JStr (sp_url p)),
              (js ''labels'', labels_to_list (sp_labels p)), (js ''capacity'', capacity_to_message (sp_capacity p)),
              (js ''autoCreate'', JBool (sp_auto p)), (js ''roomTypes'', JArr (map JStr (sp_types p))),
              (js ''rooms'', JArr (map room_to_message (sp_rooms p))), (js ''status'', JStr (sp_status p))])"

text \<open>Hello, commands and acks go to the library as they are: an absent field is no property.\<close>

definition opt_prop :: "string \<Rightarrow> ('a \<Rightarrow> jsval) \<Rightarrow> 'a option \<Rightarrow> (jsstr \<times> jsval) list" where
  "opt_prop k f x = (case x of None \<Rightarrow> [] | Some v \<Rightarrow> [(js k, f v)])"

definition op_value :: "command_op \<Rightarrow> jsval" where
  "op_value c = (case c of Create \<Rightarrow> JStr (js ''create'') | Destroy \<Rightarrow> JStr (js ''destroy'')
     | Drain \<Rightarrow> JStr (js ''drain'') | Undrain \<Rightarrow> JStr (js ''undrain'') | UnknownOp v \<Rightarrow> v)"

definition op_of_value :: "jsval \<Rightarrow> command_op" where
  "op_of_value v =
     (if v = JStr (js ''create'') then Create else if v = JStr (js ''destroy'') then Destroy
      else if v = JStr (js ''drain'') then Drain else if v = JStr (js ''undrain'') then Undrain
      else UnknownOp v)"

definition ack_room_value :: "jsstr \<times> jsstr \<Rightarrow> jsval" where
  "ack_room_value r = JObj [(js ''id'', JStr (fst r)), (js ''type'', JStr (snd r))]"

fun to_message :: "fleet_frame \<Rightarrow> jsval" where
  "to_message (StateFrame p) = state_to_message p"
| "to_message (PollFrame p) =
     JObj ([(js ''reqId'', JStr (pp_req p)), (js ''status'', JStr (pp_status p))] @
           opt_prop ''knownHash'' JStr (pp_known p))"
| "to_message (HelloFrame p) =
     JObj [(js ''instanceId'', JStr (hp_instance p)), (js ''protocolVersion'', JNum (hp_protocol p)),
           (js ''heartbeatMs'', JNum (hp_heartbeat p))]"
| "to_message (CmdFrame p) =
     JObj ([(js ''cmdId'', JStr (cp_id p)), (js ''op'', op_value (cp_op p))] @
           opt_prop ''roomId'' JStr (cp_room p) @ opt_prop ''roomType'' JStr (cp_type p))"
| "to_message (AckFrame p) =
     JObj ([(js ''cmdId'', JStr (ak_cmd p)), (js ''ok'', JBool (ak_ok p))] @
           opt_prop ''error'' JStr (ak_error p) @ opt_prop ''alreadyGone'' JBool (ak_gone p) @
           opt_prop ''exists'' JBool (ak_exists p) @ opt_prop ''room'' ack_room_value (ak_room p))"

fun topic_of :: "fleet_frame \<Rightarrow> jsstr" where
  "topic_of (HelloFrame p) = topic_hello"
| "topic_of (PollFrame p) = topic_poll"
| "topic_of (StateFrame p) = topic_state"
| "topic_of (CmdFrame p) = topic_cmd"
| "topic_of (AckFrame p) = topic_ack"

section \<open>Message to payload\<close>

text \<open>Reading a property: its own value, or what the library leaves for an unset field; then
  \<open>?? default\<close>. The library decodes a field to its declared type.\<close>

definition read_prop :: "(jsstr \<Rightarrow> jsstr \<Rightarrow> jsval) \<Rightarrow> string \<Rightarrow> jsval \<Rightarrow> string \<Rightarrow> jsval" where
  "read_prop unset t m k = (if present m (js k) then get_prop m (js k) else unset (js t) (js k))"

definition str_or :: "jsstr \<Rightarrow> jsval \<Rightarrow> jsstr" where
  "str_or d v = (case v of JStr s \<Rightarrow> s | _ \<Rightarrow> d)"

definition int_or :: "int \<Rightarrow> jsval \<Rightarrow> int" where
  "int_or d v = (case v of JNum n \<Rightarrow> n | _ \<Rightarrow> d)"

definition bool_or :: "bool \<Rightarrow> jsval \<Rightarrow> bool" where
  "bool_or d v = (case v of JBool b \<Rightarrow> b | _ \<Rightarrow> d)"

definition list_or_empty :: "jsval \<Rightarrow> jsval list" where
  "list_or_empty v = (case v of JArr xs \<Rightarrow> xs | _ \<Rightarrow> [])"

text \<open>Assigning a string to the property \<open>__proto__\<close> has no effect.\<close>

definition labels_from_list :: "(jsstr \<Rightarrow> jsstr \<Rightarrow> jsval) \<Rightarrow> jsval \<Rightarrow> labels" where
  "labels_from_list unset list =
     fold (\<lambda>entry labels.
         let k = str_or [] (read_prop unset ''Label'' entry ''key'');
             v = str_or [] (read_prop unset ''Label'' entry ''value'')
         in if k = js ''__proto__'' then labels else jm_set labels k v)
       (list_or_empty list) []"

definition limit_from :: "jsval \<Rightarrow> string \<Rightarrow> int option" where
  "limit_from m k = (if present m (js k) then (case get_prop m (js k) of JNum n \<Rightarrow> Some n | _ \<Rightarrow> None) else None)"

definition capacity_from_message :: "jsval \<Rightarrow> capacity" where
  "capacity_from_message m = \<lparr>max_connections = limit_from m ''maxConnections'', max_rooms = limit_from m ''maxRooms''\<rparr>"

definition room_from_message :: "(jsstr \<Rightarrow> jsstr \<Rightarrow> jsval) \<Rightarrow> jsval \<Rightarrow> sync_room" where
  "room_from_message unset r =
     (let rd = read_prop unset ''SyncRoom'' r
      in \<lparr>sr_id = str_or [] (rd ''id''), sr_type = str_or [] (rd ''type''),
          sr_connections = int_or 0 (rd ''connections''), sr_origin = str_or local_origin (rd ''origin'')\<rparr>)"

definition state_from_message :: "(jsstr \<Rightarrow> jsstr \<Rightarrow> jsval) \<Rightarrow> jsval \<Rightarrow> state_payload" where
  "state_from_message unset m =
     (let rd = read_prop unset ''State'' m
      in \<lparr>sp_seq = int_or 0 (rd ''seq''), sp_hash = str_or [] (rd ''hash''), sp_name = str_or [] (rd ''name''),
          sp_process = str_or [] (rd ''processUid''), sp_agent_version = str_or [] (rd ''agentVersion''),
          sp_protocol = int_or 0 (rd ''protocolVersion''), sp_url = str_or [] (rd ''endpointUrl''),
          sp_labels = labels_from_list unset (rd ''labels''),
          sp_capacity = capacity_from_message (rd ''capacity''), sp_auto = bool_or False (rd ''autoCreate''),
          sp_types = map (str_or []) (list_or_empty (rd ''roomTypes'')),
          sp_rooms = map (room_from_message unset) (list_or_empty (rd ''rooms'')),
          sp_status = str_or active (rd ''status''),
          sy_req = str_or [] (rd ''reqId''), sy_full = bool_or False (rd ''full'')\<rparr>)"

definition opt_read :: "jsval \<Rightarrow> string \<Rightarrow> (jsval \<Rightarrow> 'a) \<Rightarrow> 'a option" where
  "opt_read m k f = (if present m (js k) then Some (f (get_prop m (js k))) else None)"

definition from_message :: "(jsstr \<Rightarrow> jsstr \<Rightarrow> jsval) \<Rightarrow> jsstr \<Rightarrow> jsval \<Rightarrow> fleet_frame" where
  "from_message unset topic m =
     (if topic = topic_hello then
        (let rd = read_prop unset ''Hello'' m
         in HelloFrame \<lparr>hp_instance = str_or [] (rd ''instanceId''), hp_protocol = int_or 0 (rd ''protocolVersion''),
              hp_heartbeat = int_or 0 (rd ''heartbeatMs'')\<rparr>)
      else if topic = topic_poll then
        (let rd = read_prop unset ''Poll'' m
         in PollFrame \<lparr>pp_req = str_or [] (rd ''reqId''), pp_known = opt_read m ''knownHash'' (str_or []),
              pp_status = str_or active (rd ''status'')\<rparr>)
      else if topic = topic_state then StateFrame (state_from_message unset m)
      else if topic = topic_cmd then
        (let rd = read_prop unset ''Cmd'' m
         in CmdFrame \<lparr>cp_id = str_or [] (rd ''cmdId''), cp_op = op_of_value (rd ''op''),
              cp_room = opt_read m ''roomId'' (str_or []), cp_type = opt_read m ''roomType'' (str_or [])\<rparr>)
      else
        (let rd = read_prop unset ''Ack'' m
         in AckFrame \<lparr>ak_cmd = str_or [] (rd ''cmdId''), ak_ok = bool_or False (rd ''ok''),
              ak_error = opt_read m ''error'' (str_or []), ak_gone = opt_read m ''alreadyGone'' (bool_or False),
              ak_exists = opt_read m ''exists'' (bool_or False),
              ak_room = opt_read m ''room'' (\<lambda>r. (str_or [] (read_prop unset ''AckRoom'' r ''id''),
                                                  str_or [] (read_prop unset ''AckRoom'' r ''type'')))\<rparr>))"

section \<open>Frames\<close>

datatype 'e frame_error = NoMessageType jsstr | ShortFrame | WrongMajor nat | Malformed 'e

definition encode_frame :: "(jsstr \<Rightarrow> jsval \<Rightarrow> 'e + bytes) \<Rightarrow> fleet_frame \<Rightarrow> 'e frame_error + bytes" where
  "encode_frame enc p = (case topic_type (topic_of p) of
     None \<Rightarrow> Inl (NoMessageType (topic_of p))
   | Some t \<Rightarrow> (case enc t (to_message p) of
       Inl e \<Rightarrow> Inl (Malformed e)
     | Inr body \<Rightarrow> Inr ([word_of_nat protocol_version, word_of_nat wire_minor] @ body)))"

definition decode_frame ::
  "(jsstr \<Rightarrow> bytes \<Rightarrow> 'e + jsval) \<Rightarrow> (jsstr \<Rightarrow> jsstr \<Rightarrow> jsval) \<Rightarrow> jsstr \<Rightarrow> bytes \<Rightarrow> 'e frame_error + fleet_frame" where
  "decode_frame dec unset topic frame = (case topic_type topic of
     None \<Rightarrow> Inl (NoMessageType topic)
   | Some t \<Rightarrow>
       (if length frame < fleet_header_bytes then Inl ShortFrame
        else if unat (frame ! 0) \<noteq> protocol_version then Inl (WrongMajor (unat (frame ! 0)))
        else case dec t (drop fleet_header_bytes frame) of
               Inl e \<Rightarrow> Inl (Malformed e)
             | Inr m \<Rightarrow> Inr (from_message unset topic m)))"

end
