(* ===== verification/Fleet_Wire_Props.thy ===== *)
theory Fleet_Wire_Props
  imports Fleet_Wire
begin

text \<open>
  What the fleet's wire layer promises: a frame that was encoded decodes to the same payload, for
  any protobuf library that keeps the fields it is given (locale \<open>message_library\<close>, interpreted
  on the serializer of the handshake package); frames of another protocol major are refused.
\<close>

declare map_of_eq_Some_iff [simp del] Some_eq_map_of_iff [simp del]

section \<open>The fields a message sets\<close>

definition set_value :: "(jsstr \<Rightarrow> jsval \<Rightarrow> jsval) \<Rightarrow> ftype \<Rightarrow> jsval \<Rightarrow> jsval" where
  "set_value nested ft v = (case ft of TMessage t \<Rightarrow> nested t (if nullish v then JObj [] else v) | _ \<Rightarrow> v)"

definition set_field :: "(jsstr \<Rightarrow> jsval \<Rightarrow> jsval) \<Rightarrow> field_def \<Rightarrow> jsval \<Rightarrow> (jsstr \<times> jsval) list" where
  "set_field nested f x =
     (if nullish x \<or> x = JArr [] \<and> fd_rule f = Repeated then []
      else if fd_rule f = Repeated
      then [(fd_key f, case x of JArr xs \<Rightarrow> JArr (map (set_value nested (fd_type f)) xs) | _ \<Rightarrow> x)]
      else [(fd_key f, set_value nested (fd_type f) x)])"

fun set_fields :: "schema \<Rightarrow> nat \<Rightarrow> jsstr \<Rightarrow> jsval \<Rightarrow> jsval" where
  "set_fields s 0 t v = JObj []"
| "set_fields s (Suc n) t v =
     JObj (concat (map (\<lambda>f. set_field (set_fields s n) f (get_prop v (fd_key f)))
       (case map_of s t of Some fs \<Rightarrow> fs | None \<Rightarrow> [])))"

lemma set_fields_object [simp]: "\<not> nullish (set_fields s n t v)"
  by (cases n) (simp_all add: nullish_def)

lemma set_field_keys: "fst ` set (set_field nested h x) \<subseteq> {fd_key h}"
  by (auto simp: set_field_def)

lemma set_field_get:
  "map_of (set_field nested f x) (fd_key f) = (case set_field nested f x of [] \<Rightarrow> None | kv # _ \<Rightarrow> Some (snd kv))"
  by (simp add: set_field_def)

lemma get_prop_fields:
  assumes "distinct (map fd_key fs)" "f \<in> set fs"
  shows "get_prop (JObj (concat (map (\<lambda>f. set_field nested f (get_prop v (fd_key f))) fs))) (fd_key f) =
    (case set_field nested f (get_prop v (fd_key f)) of [] \<Rightarrow> JUndef | kv # _ \<Rightarrow> snd kv)"
  using assms
proof (induction fs)
  case (Cons g fs)
  let ?rest = "concat (map (\<lambda>f. set_field nested f (get_prop v (fd_key f))) fs)"
  show ?case
  proof (cases "f = g")
    case True
    have "fst ` set ?rest \<subseteq> fd_key ` set fs" using set_field_keys by fastforce
    then have "map_of ?rest (fd_key g) = None"
      unfolding map_of_eq_None_iff using Cons.prems(1) by auto
    with True show ?thesis
      by (simp add: get_prop_def map_add_def set_field_get split: list.split)
  next
    case False
    with Cons.prems have "f \<in> set fs" by simp
    then have "fd_key f \<in> fd_key ` set fs" by (rule imageI)
    with Cons.prems(1) have "fd_key f \<noteq> fd_key g" by auto
    then have "map_of (set_field nested g (get_prop v (fd_key g))) (fd_key f) = None"
      unfolding map_of_eq_None_iff using set_field_keys by fastforce
    with Cons.IH Cons.prems(1) \<open>f \<in> set fs\<close> show ?thesis
      by (simp add: get_prop_def map_add_def split: option.split)
  qed
qed simp

text \<open>The reference encoding does not see the difference: an unset field, \<open>null\<close> and an empty
  list all write nothing.\<close>

definition all_optional :: "schema \<Rightarrow> bool" where
  "all_optional s \<longleftrightarrow> (\<forall>(t, fs) \<in> set s. \<forall>f \<in> set fs. fd_rule f \<noteq> Required)"

definition same_bytes :: "(jsstr \<Rightarrow> jsval \<Rightarrow> wire_error + bytes) \<Rightarrow> (jsstr \<Rightarrow> jsval \<Rightarrow> jsval) \<Rightarrow> bool" where
  "same_bytes enc nested \<longleftrightarrow> (\<forall>t v. enc t (nested t v) = enc t v \<and> \<not> nullish (nested t v))"

lemma spec_field_set_value:
  "same_bytes enc nested \<Longrightarrow> spec_field enc tag f (set_value nested (fd_type f) x) = spec_field enc tag f x"
  by (simp add: same_bytes_def spec_field_def set_value_def split: ftype.split)

lemma spec_elems_set_value:
  "same_bytes enc nested \<Longrightarrow> spec_elems enc tag f (map (set_value nested (fd_type f)) xs) = spec_elems enc tag f xs"
  by (induction xs) (simp_all add: spec_field_set_value)

lemma set_value_nullish: "same_bytes enc nested \<Longrightarrow> \<not> nullish x \<Longrightarrow> \<not> nullish (set_value nested (fd_type f) x)"
  by (simp add: same_bytes_def set_value_def split: ftype.split)

lemma spec_slot_set_field:
  assumes "same_bytes enc nested" "fd_rule f \<noteq> Required"
  shows "spec_slot enc tag f (case set_field nested f x of [] \<Rightarrow> JUndef | kv # _ \<Rightarrow> snd kv) = spec_slot enc tag f x"
proof (cases "fd_rule f = Repeated")
  case True
  then show ?thesis
    by (cases x) (simp_all add: set_field_def spec_slot_def nullish_def spec_elems_set_value [OF assms(1)])
next
  case False
  then show ?thesis
    using assms(2) set_value_nullish [OF assms(1), of x f] spec_field_set_value [OF assms(1), of tag f x]
    by (cases "nullish x") (simp_all add: set_field_def spec_slot_def nullish_iff)
qed

lemma spec_fields_set:
  assumes "same_bytes enc nested"
    "\<And>f. f \<in> set gs \<Longrightarrow> fd_rule f \<noteq> Required \<and>
      get_prop w (fd_key f) = (case set_field nested f (get_prop v (fd_key f)) of [] \<Rightarrow> JUndef | kv # _ \<Rightarrow> snd kv)"
  shows "spec_fields enc tag gs w = spec_fields enc tag gs v"
  using assms(2) by (induction gs arbitrary: tag) (simp_all add: spec_slot_set_field [OF assms(1)])

lemma spec_message_set_fields:
  assumes "schema_ok s" "all_optional s"
  shows "spec_message s n t (set_fields s n t v) = spec_message s n t v"
proof (induction n arbitrary: t v)
  case (Suc n)
  then have same: "same_bytes (spec_message s n) (set_fields s n)" by (simp add: same_bytes_def)
  show ?case
  proof (cases "map_of s t")
    case (Some fs)
    then have fs: "fields_of s t = Inr fs" "distinct (map fd_key fs)" "\<And>f. f \<in> set fs \<Longrightarrow> fd_rule f \<noteq> Required"
      using schema_ok_fields [OF assms(1), of t fs] assms(2)
      by (auto simp: fields_of_def all_optional_def dest!: map_of_SomeD)
    have "spec_fields (spec_message s n) 1 fs (set_fields s (Suc n) t v) = spec_fields (spec_message s n) 1 fs v"
      by (rule spec_fields_set [OF same]) (use fs get_prop_fields [OF fs(2)] Some in auto)
    with fs show ?thesis by simp
  qed (simp add: fields_of_def)
qed simp

declare set_fields.simps [simp del]

section \<open>The contract of the protobuf library\<close>

text \<open>A message whose set fields have their declared types, and that is not too long to count,
  is encoded; decoding yields exactly its set fields. An unset list reads as an empty one.\<close>

locale message_library =
  fixes enc :: "jsstr \<Rightarrow> jsval \<Rightarrow> 'e + bytes"
    and dec :: "jsstr \<Rightarrow> bytes \<Rightarrow> 'e + jsval"
    and unset :: "jsstr \<Rightarrow> jsstr \<Rightarrow> jsval"
  assumes lossless: "fits fleet_schema 2 t (set_fields fleet_schema 2 t v) \<Longrightarrow>
      \<exists>b. enc t v = Inr b \<and> dec t b = Inr (set_fields fleet_schema 2 t v)"
    and unset_list: "list_or_empty (unset (js ''State'') k) = []"
begin

lemma frame_roundtrip:
  assumes "topic_type (topic_of p) = Some t" "fits fleet_schema 2 t (set_fields fleet_schema 2 t (to_message p))"
  shows "\<exists>b. encode_frame enc p = Inr b \<and>
    decode_frame dec unset (topic_of p) b = Inr (from_message unset (topic_of p) (set_fields fleet_schema 2 t (to_message p)))"
proof -
  from lossless [OF assms(2)] obtain b where
    b: "enc t (to_message p) = Inr b" "dec t b = Inr (set_fields fleet_schema 2 t (to_message p))" by blast
  then show ?thesis
    using assms(1) by (intro exI [of _ "[word_of_nat protocol_version, word_of_nat wire_minor] @ b"])
      (simp add: encode_frame_def decode_frame_def fleet_header_bytes_def protocol_version_def)
qed

end

lemmas fleet_fields = label_fields_def room_fields_def capacity_fields_def ack_room_fields_def hello_fields_def
  poll_fields_def state_fields_def cmd_fields_def ack_fields_def opt_field_def rep_field_def

lemma fleet_schema_ok: "schema_ok fleet_schema"
  by (simp add: schema_ok_def fleet_schema_def fleet_fields js_eval)

lemma fleet_all_optional: "all_optional fleet_schema"
  by (simp add: all_optional_def fleet_schema_def fleet_fields)

interpretation own_library: message_library "encode_message fleet_schema 2" "decode_message fleet_schema" "\<lambda>_ _. JUndef"
proof unfold_locales
  fix t v
  assume f: "fits fleet_schema 2 t (set_fields fleet_schema 2 t v)"
  from fits_roundtrip [OF fleet_schema_ok f] obtain b where
    b: "spec_message fleet_schema 2 t v = Inr b" "length b < 2 ^ 53"
      "decode_message fleet_schema t b = Inr (set_fields fleet_schema 2 t v)"
    by (auto simp: spec_message_set_fields [OF fleet_schema_ok fleet_all_optional])
  from encode_message_spec [OF fleet_schema_ok b(1,2)] b(3)
  show "\<exists>b. encode_message fleet_schema 2 t v = Inr b \<and> decode_message fleet_schema t b = Inr (set_fields fleet_schema 2 t v)"
    by blast
qed (simp add: list_or_empty_def)

section \<open>Frames that can be sent\<close>

definition limit_ok :: "int option \<Rightarrow> bool" where
  "limit_ok c \<longleftrightarrow> (case c of None \<Rightarrow> True | Some n \<Rightarrow> - (2 ^ 31) \<le> n \<and> n < 2 ^ 31)"

definition uint_ok :: "int \<Rightarrow> bool" where
  "uint_ok n \<longleftrightarrow> 0 \<le> n \<and> n < 2 ^ 32"

definition labels_ok :: "labels \<Rightarrow> bool" where
  "labels_ok l \<longleftrightarrow> jm_ok l \<and> js ''__proto__'' \<notin> set (jm_keys l) \<and>
     (\<forall>(k, v) \<in> set l. wire_safe k \<and> wire_safe v)"

definition room_ok :: "sync_room \<Rightarrow> bool" where
  "room_ok r \<longleftrightarrow> wire_safe (sr_id r) \<and> wire_safe (sr_type r) \<and> uint_ok (sr_connections r) \<and> wire_safe (sr_origin r)"

text \<open>Strings without lone surrogates or a leading byte order mark, numbers of the declared width.\<close>

fun frame_ok :: "fleet_frame \<Rightarrow> bool" where
  "frame_ok (HelloFrame p) \<longleftrightarrow> wire_safe (hp_instance p) \<and> uint_ok (hp_protocol p) \<and> uint_ok (hp_heartbeat p)"
| "frame_ok (PollFrame p) \<longleftrightarrow> wire_safe (pp_req p) \<and> wire_safe (pp_status p) \<and>
     list_all wire_safe (case pp_known p of None \<Rightarrow> [] | Some h \<Rightarrow> [h])"
| "frame_ok (StateFrame p) \<longleftrightarrow> sy_full p \<and> uint_ok (sp_seq p) \<and> uint_ok (sp_protocol p) \<and>
     list_all wire_safe [sy_req p, sp_hash p, sp_name p, sp_process p, sp_agent_version p, sp_url p, sp_status p] \<and>
     labels_ok (sp_labels p) \<and> limit_ok (max_connections (sp_capacity p)) \<and> limit_ok (max_rooms (sp_capacity p)) \<and>
     list_all wire_safe (sp_types p) \<and> list_all room_ok (sp_rooms p)"
| "frame_ok (CmdFrame p) \<longleftrightarrow> wire_safe (cp_id p) \<and> cp_op p \<in> {Create, Destroy, Drain, Undrain} \<and>
     list_all wire_safe (case cp_room p of None \<Rightarrow> [] | Some r \<Rightarrow> [r]) \<and>
     list_all wire_safe (case cp_type p of None \<Rightarrow> [] | Some t \<Rightarrow> [t])"
| "frame_ok (AckFrame p) \<longleftrightarrow> wire_safe (ak_cmd p) \<and>
     list_all wire_safe (case ak_error p of None \<Rightarrow> [] | Some r \<Rightarrow> [r]) \<and>
     list_all wire_safe (case ak_room p of None \<Rightarrow> [] | Some (r, t) \<Rightarrow> [r, t])"

fun frame_type :: "fleet_frame \<Rightarrow> jsstr" where
  "frame_type (HelloFrame p) = js ''Hello''"
| "frame_type (PollFrame p) = js ''Poll''"
| "frame_type (StateFrame p) = js ''State''"
| "frame_type (CmdFrame p) = js ''Cmd''"
| "frame_type (AckFrame p) = js ''Ack''"

definition sent_message :: "fleet_frame \<Rightarrow> jsval" where
  "sent_message p = set_fields fleet_schema 2 (frame_type p) (to_message p)"

text \<open>The frame's length is a number a double holds exactly.\<close>

definition frame_sendable :: "fleet_frame \<Rightarrow> bool" where
  "frame_sendable p \<longleftrightarrow> frame_ok p \<and>
     (\<forall>b. spec_message fleet_schema 2 (frame_type p) (to_message p) = Inr b \<longrightarrow> length b < 2 ^ 53)"

lemmas topic_defs = topic_hello_def topic_poll_def topic_state_def topic_cmd_def topic_ack_def

lemma topic_type_of: "topic_type (topic_of p) = Some (frame_type p)"
  by (cases p) (simp_all add: topic_type_def topic_defs js_eval)

lemma set_fields_numeral:
  "set_fields s (numeral k) t v =
     JObj (concat (map (\<lambda>f. set_field (set_fields s (pred_numeral k)) f (get_prop v (fd_key f)))
       (case map_of s t of Some fs \<Rightarrow> fs | None \<Rightarrow> [])))"
  by (simp add: numeral_eq_Suc set_fields.simps)

lemmas set_eval = set_fields.simps set_fields_numeral set_field_def set_value_def fleet_schema_def fleet_fields
  get_prop_def nullish_def js_eval

lemma nested_label: "set_fields fleet_schema (Suc 0) (js ''Label'') (JObj [(js ''key'', JStr k), (js ''value'', JStr v)]) =
    JObj [(js ''key'', JStr k), (js ''value'', JStr v)]"
  by (simp add: set_eval)

lemma nested_room: "set_fields fleet_schema (Suc 0) (js ''SyncRoom'') (room_to_message r) = room_to_message r"
  by (simp add: set_eval room_to_message_def)

lemma nested_ack_room: "set_fields fleet_schema (Suc 0) (js ''AckRoom'') (ack_room_value r) = ack_room_value r"
  by (simp add: set_eval ack_room_value_def)

lemma nested_capacity: "set_fields fleet_schema (Suc 0) (js ''Capacity'') (capacity_to_message c) =
    JObj (opt_prop ''maxConnections'' JNum (max_connections c) @ opt_prop ''maxRooms'' JNum (max_rooms c))"
  by (simp add: set_eval capacity_to_message_def limit_value_def opt_prop_def split: option.split)

definition list_prop :: "string \<Rightarrow> jsval list \<Rightarrow> (jsstr \<times> jsval) list" where
  "list_prop k xs = (if xs = [] then [] else [(js k, JArr xs)])"

definition label_value :: "jsstr \<times> jsstr \<Rightarrow> jsval" where
  "label_value kv = JObj [(js ''key'', JStr (fst kv)), (js ''value'', JStr (snd kv))]"

definition full_message :: "state_payload \<Rightarrow> jsval" where
  "full_message p = JObj
     ([(js ''reqId'', JStr (sy_req p)), (js ''full'', JBool True), (js ''seq'', JNum (sp_seq p)),
       (js ''hash'', JStr (sp_hash p)), (js ''name'', JStr (sp_name p)),
       (js ''processUid'', JStr (sp_process p)), (js ''agentVersion'', JStr (sp_agent_version p)),
       (js ''protocolVersion'', JNum (sp_protocol p)), (js ''endpointUrl'', JStr (sp_url p))] @
      list_prop ''labels'' (map label_value (sp_labels p)) @
      [(js ''capacity'', JObj (opt_prop ''maxConnections'' JNum (max_connections (sp_capacity p)) @
                             opt_prop ''maxRooms'' JNum (max_rooms (sp_capacity p)))),
       (js ''autoCreate'', JBool (sp_auto p))] @
      list_prop ''roomTypes'' (map JStr (sp_types p)) @
      list_prop ''rooms'' (map room_to_message (sp_rooms p)) @
      [(js ''status'', JStr (sp_status p))])"

lemma state_lookup: "map_of fleet_schema (js ''State'') = Some state_fields"
  by (simp add: fleet_schema_def js_eval)

lemma state_props:
  assumes "sy_full p"
  shows "get_prop (state_to_message p) (js ''reqId'') = JStr (sy_req p)"
    "get_prop (state_to_message p) (js ''full'') = JBool True"
    "get_prop (state_to_message p) (js ''seq'') = JNum (sp_seq p)"
    "get_prop (state_to_message p) (js ''hash'') = JStr (sp_hash p)"
    "get_prop (state_to_message p) (js ''name'') = JStr (sp_name p)"
    "get_prop (state_to_message p) (js ''processUid'') = JStr (sp_process p)"
    "get_prop (state_to_message p) (js ''agentVersion'') = JStr (sp_agent_version p)"
    "get_prop (state_to_message p) (js ''protocolVersion'') = JNum (sp_protocol p)"
    "get_prop (state_to_message p) (js ''endpointUrl'') = JStr (sp_url p)"
    "get_prop (state_to_message p) (js ''labels'') = JArr (map label_value (sp_labels p))"
    "get_prop (state_to_message p) (js ''capacity'') = capacity_to_message (sp_capacity p)"
    "get_prop (state_to_message p) (js ''autoCreate'') = JBool (sp_auto p)"
    "get_prop (state_to_message p) (js ''roomTypes'') = JArr (map JStr (sp_types p))"
    "get_prop (state_to_message p) (js ''rooms'') = JArr (map room_to_message (sp_rooms p))"
    "get_prop (state_to_message p) (js ''status'') = JStr (sp_status p)"
  using assms
  by (simp_all add: state_to_message_def get_prop_def js_eval labels_to_list_def label_value_def case_prod_unfold)

lemma sent_state:
  assumes "sy_full p"
  shows "sent_message (StateFrame p) = full_message p"
proof -
  have nl: "map (set_fields fleet_schema (Suc 0) (js ''Label'')) (map label_value (sp_labels p)) = map label_value (sp_labels p)"
    by (simp add: label_value_def nested_label)
  have nr: "map (set_fields fleet_schema (Suc 0) (js ''SyncRoom'')) (map room_to_message (sp_rooms p)) = map room_to_message (sp_rooms p)"
    by (simp add: nested_room)
  have obj: "\<not> nullish (capacity_to_message c)" "\<not> nullish (label_value l)" "\<not> nullish (room_to_message r)" for c l r
    by (simp_all add: nullish_def capacity_to_message_def label_value_def room_to_message_def)
  have "sent_message (StateFrame p) =
      JObj (concat (map (\<lambda>f. set_field (set_fields fleet_schema (Suc 0)) f (get_prop (state_to_message p) (fd_key f))) state_fields))"
    by (simp add: sent_message_def set_fields_numeral state_lookup)
  also have "\<dots> = full_message p"
    using nl nr obj
    by (simp add: state_fields_def opt_field_def rep_field_def set_field_def set_value_def state_props [OF assms]
        full_message_def list_prop_def nullish_iff nested_capacity comp_def)
  finally show ?thesis .
qed

lemma sent_unfold:
  "map_of fleet_schema (frame_type p) = Some fs \<Longrightarrow> sent_message p =
     JObj (concat (map (\<lambda>f. set_field (set_fields fleet_schema (Suc 0)) f (get_prop (to_message p) (fd_key f))) fs))"
  by (simp add: sent_message_def set_fields_numeral)

lemma flat_lookup:
  "map_of fleet_schema (js ''Hello'') = Some hello_fields" "map_of fleet_schema (js ''Poll'') = Some poll_fields"
  "map_of fleet_schema (js ''Cmd'') = Some cmd_fields" "map_of fleet_schema (js ''Ack'') = Some ack_fields"
  by (simp_all add: fleet_schema_def js_eval)

lemmas flat_eval = set_field_def set_value_def opt_field_def get_prop_def nullish_def opt_prop_def

lemma sent_flat:
  defines "via \<equiv> \<lambda>p. map (\<lambda>f. set_field (set_fields fleet_schema (Suc 0)) f (get_prop (to_message p) (fd_key f)))"
  shows "sent_message (HelloFrame hp) = JObj (concat (via (HelloFrame hp) hello_fields))"
    "sent_message (PollFrame pp) = JObj (concat (via (PollFrame pp) poll_fields))"
    "sent_message (CmdFrame cp) = JObj (concat (via (CmdFrame cp) cmd_fields))"
    "sent_message (AckFrame ap) = JObj (concat (via (AckFrame ap) ack_fields))"
  unfolding via_def by (rule sent_unfold, simp add: flat_lookup)+

lemma sent_hello: "sent_message (HelloFrame p) = to_message (HelloFrame p)"
  unfolding sent_flat by (simp add: hello_fields_def flat_eval js_eval)

lemma sent_poll: "sent_message (PollFrame p) = JObj ([(js ''reqId'', JStr (pp_req p))] @
    opt_prop ''knownHash'' JStr (pp_known p) @ [(js ''status'', JStr (pp_status p))])"
  unfolding sent_flat by (cases "pp_known p") (simp_all add: poll_fields_def flat_eval js_eval)

lemma op_value_str: "c \<in> {Create, Destroy, Drain, Undrain} \<Longrightarrow> \<exists>s. op_value c = JStr s \<and> wire_safe s"
  by (auto simp: op_value_def conforms_eval)

lemma sent_cmd:
  assumes "cp_op p \<in> {Create, Destroy, Drain, Undrain}"
  shows "sent_message (CmdFrame p) = to_message (CmdFrame p)"
proof -
  obtain s where "op_value (cp_op p) = JStr s" using op_value_str [OF assms] by blast
  then show ?thesis
    unfolding sent_flat
    by (cases "cp_room p"; cases "cp_type p") (simp_all add: cmd_fields_def flat_eval js_eval)
qed

lemma sent_ack: "sent_message (AckFrame p) = JObj ([(js ''cmdId'', JStr (ak_cmd p)), (js ''ok'', JBool (ak_ok p))] @
     opt_prop ''error'' JStr (ak_error p) @ opt_prop ''alreadyGone'' JBool (ak_gone p) @
     opt_prop ''room'' ack_room_value (ak_room p) @ opt_prop ''exists'' JBool (ak_exists p))"
proof -
  have r: "get_prop (to_message (AckFrame p)) (js ''error'') = (case ak_error p of None \<Rightarrow> JUndef | Some e \<Rightarrow> JStr e)"
    "get_prop (to_message (AckFrame p)) (js ''alreadyGone'') = (case ak_gone p of None \<Rightarrow> JUndef | Some e \<Rightarrow> JBool e)"
    "get_prop (to_message (AckFrame p)) (js ''room'') = (case ak_room p of None \<Rightarrow> JUndef | Some e \<Rightarrow> ack_room_value e)"
    "get_prop (to_message (AckFrame p)) (js ''exists'') = (case ak_exists p of None \<Rightarrow> JUndef | Some e \<Rightarrow> JBool e)"
    "get_prop (to_message (AckFrame p)) (js ''cmdId'') = JStr (ak_cmd p)"
    "get_prop (to_message (AckFrame p)) (js ''ok'') = JBool (ak_ok p)"
    by (simp_all add: get_prop_def opt_prop_def js_eval split: option.split)
  have "\<not> nullish (ack_room_value x)" for x by (simp add: ack_room_value_def nullish_def)
  then show ?thesis
    by (simp add: sent_unfold [where fs = ack_fields] flat_lookup ack_fields_def set_field_def set_value_def opt_field_def r
        nullish_iff nested_ack_room opt_prop_def del: to_message.simps split: option.split)
qed

section \<open>They conform\<close>

lemma conforms_unfold:
  "map_of fleet_schema t = Some fs \<Longrightarrow> conforms fleet_schema 2 t (JObj kvs) \<longleftrightarrow> msg_ok (conforms fleet_schema (Suc 0)) fs kvs"
  by (simp add: numeral_eq_Suc)

lemma nested_conform:
  "wire_safe (fst l) \<Longrightarrow> wire_safe (snd l) \<Longrightarrow> conforms fleet_schema (Suc 0) (js ''Label'') (label_value l)"
  "room_ok r \<Longrightarrow> conforms fleet_schema (Suc 0) (js ''SyncRoom'') (room_to_message r)"
  "wire_safe (fst a) \<Longrightarrow> wire_safe (snd a) \<Longrightarrow> conforms fleet_schema (Suc 0) (js ''AckRoom'') (ack_room_value a)"
  "limit_ok m \<Longrightarrow> limit_ok n \<Longrightarrow> conforms fleet_schema (Suc 0) (js ''Capacity'')
     (JObj (opt_prop ''maxConnections'' JNum m @ opt_prop ''maxRooms'' JNum n))"
  by (simp_all add: fleet_schema_def fleet_fields label_value_def room_to_message_def ack_room_value_def room_ok_def
      uint_ok_def limit_ok_def opt_prop_def slot_ok_def js_eval split: option.splits)

lemma nested_objects: "\<exists>k. label_value l = JObj k" "\<exists>k. room_to_message r = JObj k" "\<exists>k. ack_room_value a = JObj k"
  by (simp_all add: label_value_def room_to_message_def ack_room_value_def)

lemma value_ok_nested: "conforms s n t v \<Longrightarrow> value_ok (conforms s n) (TMessage t) v"
  using conforms_JObj by fastforce

lemma state_conforms:
  assumes "frame_ok (StateFrame p)"
  shows "conforms fleet_schema 2 (js ''State'') (full_message p)"
proof -
  have labels: "list_all (value_ok (conforms fleet_schema (Suc 0)) (TMessage (js ''Label''))) (map label_value (sp_labels p))"
    using assms by (auto simp: list_all_iff labels_ok_def intro!: value_ok_nested nested_conform(1))
  have rooms: "list_all (value_ok (conforms fleet_schema (Suc 0)) (TMessage (js ''SyncRoom''))) (map room_to_message (sp_rooms p))"
    using assms by (auto simp: list_all_iff intro!: value_ok_nested nested_conform(2))
  have cap: "conforms fleet_schema (Suc 0) (js ''Capacity'') (JObj (opt_prop ''maxConnections'' JNum (max_connections (sp_capacity p)) @
      opt_prop ''maxRooms'' JNum (max_rooms (sp_capacity p))))"
    using assms by (intro nested_conform(4)) simp_all
  have types: "list_all (value_ok (conforms fleet_schema (Suc 0)) TString) (map JStr (sp_types p))"
    using assms by (simp add: list_all_iff)
  show ?thesis
    unfolding full_message_def conforms_unfold [OF state_lookup]
    using labels rooms cap types assms
    by (simp add: state_fields_def opt_field_def rep_field_def list_prop_def slot_ok_def uint_ok_def js_def)
qed

lemma frame_conforms:
  assumes "frame_ok p"
  shows "conforms fleet_schema 2 (frame_type p) (sent_message p)"
proof (cases p)
  case (HelloFrame h)
  show ?thesis
    unfolding HelloFrame frame_type.simps sent_hello to_message.simps conforms_unfold [OF flat_lookup(1)]
    using assms HelloFrame by (simp add: hello_fields_def opt_field_def slot_ok_def uint_ok_def js_def)
next
  case (PollFrame q)
  show ?thesis
    unfolding PollFrame frame_type.simps sent_poll conforms_unfold [OF flat_lookup(2)]
    using assms PollFrame
    by (cases "pp_known q") (simp_all add: poll_fields_def opt_field_def opt_prop_def slot_ok_def js_def)
next
  case (StateFrame q)
  with assms state_conforms [of q] show ?thesis by (simp add: sent_state)
next
  case (CmdFrame q)
  with assms have op: "cp_op q \<in> {Create, Destroy, Drain, Undrain}" by simp
  obtain s where "op_value (cp_op q) = JStr s" "wire_safe s" using op_value_str [OF op] by blast
  then show ?thesis
    unfolding CmdFrame frame_type.simps sent_cmd [OF op] to_message.simps conforms_unfold [OF flat_lookup(3)]
    using assms CmdFrame
    by (cases "cp_room q"; cases "cp_type q")
      (simp_all add: cmd_fields_def opt_field_def opt_prop_def slot_ok_def js_def)
next
  case (AckFrame q)
  have "ak_room q = Some r \<Longrightarrow> value_ok (conforms fleet_schema (Suc 0)) (TMessage (js ''AckRoom'')) (ack_room_value r)" for r
    using assms AckFrame by (cases r) (auto intro!: value_ok_nested nested_conform(3))
  then show ?thesis
    unfolding AckFrame frame_type.simps sent_ack conforms_unfold [OF flat_lookup(4)]
    using assms AckFrame
    by (cases "ak_error q"; cases "ak_gone q"; cases "ak_room q"; cases "ak_exists q")
      (simp_all add: ack_fields_def opt_field_def opt_prop_def slot_ok_def js_def)
qed

lemma frame_fits:
  assumes "frame_sendable p"
  shows "fits fleet_schema 2 (frame_type p) (sent_message p)"
proof (rule fitsI [OF fleet_schema_ok frame_conforms])
  show "frame_ok p" using assms by (simp add: frame_sendable_def)
  show "spec_message fleet_schema 2 (frame_type p) (sent_message p) = Inr b \<Longrightarrow> length b < 2 ^ 53" for b
    using assms unfolding sent_message_def spec_message_set_fields [OF fleet_schema_ok fleet_all_optional] frame_sendable_def
    by blast
qed

section \<open>Reading a frame back\<close>

lemma labels_fold:
  assumes "jm_ok (acc @ l)" "js ''__proto__'' \<notin> set (jm_keys l)"
  shows "fold (\<lambda>entry labels.
         let k = str_or [] (read_prop unset ''Label'' entry ''key'');
             v = str_or [] (read_prop unset ''Label'' entry ''value'')
         in if k = js ''__proto__'' then labels else jm_set labels k v) (map label_value l) acc = acc @ l"
  using assms
proof (induction l arbitrary: acc)
  case (Cons kv l)
  have r: "read_prop unset ''Label'' (label_value kv) ''key'' = JStr (fst kv)"
    "read_prop unset ''Label'' (label_value kv) ''value'' = JStr (snd kv)"
    by (simp_all add: read_prop_def present_def get_prop_def label_value_def js_def)
  have "\<not> jm_has acc (fst kv)" using Cons.prems(1) by (auto simp: jm_has_iff_keys)
  then have "jm_set acc (fst kv) (snd kv) = acc @ [kv]" by (simp add: jm_set_new)
  with Cons.IH [of "acc @ [kv]"] Cons.prems r show ?case
    by (auto simp: str_or_def Let_def)
qed simp

lemma labels_read: "labels_ok l \<Longrightarrow> labels_from_list unset (JArr (map label_value l)) = l"
  using labels_fold [of "[]" l unset] by (simp add: labels_from_list_def labels_ok_def list_or_empty_def)

lemma room_read: "room_from_message unset (room_to_message r) = r"
  by (simp add: room_from_message_def room_to_message_def read_prop_def present_def get_prop_def js_def Let_def
      str_or_def int_or_def)

lemma capacity_read:
  "capacity_from_message (JObj (opt_prop ''maxConnections'' JNum (max_connections c) @ opt_prop ''maxRooms'' JNum (max_rooms c))) = c"
  by (cases "max_connections c"; cases "max_rooms c")
    (simp_all add: capacity_from_message_def limit_from_def opt_prop_def present_def get_prop_def js_def)

lemma full_read:
  assumes "list_or_empty (unset (js ''State'') (js ''labels'')) = []" "list_or_empty (unset (js ''State'') (js ''roomTypes'')) = []"
    "list_or_empty (unset (js ''State'') (js ''rooms'')) = []"
  shows "read_prop unset ''State'' (full_message p) ''reqId'' = JStr (sy_req p)"
    "read_prop unset ''State'' (full_message p) ''full'' = JBool True"
    "read_prop unset ''State'' (full_message p) ''seq'' = JNum (sp_seq p)"
    "read_prop unset ''State'' (full_message p) ''hash'' = JStr (sp_hash p)"
    "read_prop unset ''State'' (full_message p) ''name'' = JStr (sp_name p)"
    "read_prop unset ''State'' (full_message p) ''processUid'' = JStr (sp_process p)"
    "read_prop unset ''State'' (full_message p) ''agentVersion'' = JStr (sp_agent_version p)"
    "read_prop unset ''State'' (full_message p) ''protocolVersion'' = JNum (sp_protocol p)"
    "read_prop unset ''State'' (full_message p) ''endpointUrl'' = JStr (sp_url p)"
    "list_or_empty (read_prop unset ''State'' (full_message p) ''labels'') = map label_value (sp_labels p)"
    "read_prop unset ''State'' (full_message p) ''capacity'' =
       JObj (opt_prop ''maxConnections'' JNum (max_connections (sp_capacity p)) @ opt_prop ''maxRooms'' JNum (max_rooms (sp_capacity p)))"
    "read_prop unset ''State'' (full_message p) ''autoCreate'' = JBool (sp_auto p)"
    "list_or_empty (read_prop unset ''State'' (full_message p) ''roomTypes'') = map JStr (sp_types p)"
    "list_or_empty (read_prop unset ''State'' (full_message p) ''rooms'') = map room_to_message (sp_rooms p)"
    "read_prop unset ''State'' (full_message p) ''status'' = JStr (sp_status p)"
  using assms
  by (auto simp: read_prop_def present_def get_prop_def full_message_def list_prop_def js_def list_or_empty_def)

lemma frame_read:
  assumes ok: "frame_ok p" and unset: "\<And>k. list_or_empty (unset (js ''State'') k) = []"
  shows "from_message unset (topic_of p) (sent_message p) = p"
proof (cases p)
  case (HelloFrame h)
  then show ?thesis
    by (simp add: sent_hello from_message_def read_prop_def present_def get_prop_def str_or_def int_or_def topic_defs js_def Let_def)
next
  case (PollFrame q)
  then show ?thesis
    by (cases "pp_known q")
      (simp_all add: sent_poll from_message_def read_prop_def present_def get_prop_def str_or_def opt_read_def opt_prop_def
        topic_defs js_def Let_def)
next
  case (StateFrame q)
  have l: "labels_from_list unset (read_prop unset ''State'' (full_message q) ''labels'') = sp_labels q"
  proof -
    have "labels_from_list unset (read_prop unset ''State'' (full_message q) ''labels'') =
        labels_from_list unset (JArr (map label_value (sp_labels q)))"
      using unset by (simp add: labels_from_list_def full_read) (simp add: list_or_empty_def)
    with ok StateFrame show ?thesis by (simp add: labels_read)
  qed
  have t: "topic_state \<noteq> topic_hello" "topic_state \<noteq> topic_poll" by (simp_all add: topic_defs js_def)
  from ok StateFrame have "sy_full q" by simp
  with StateFrame l t unset show ?thesis
    by (simp add: sent_state from_message_def state_from_message_def full_read Let_def str_or_def int_or_def bool_or_def
        comp_def room_read capacity_read)
next
  case (CmdFrame q)
  with ok have op: "cp_op q \<in> {Create, Destroy, Drain, Undrain}" by simp
  have "op_of_value (op_value (cp_op q)) = cp_op q" using op by (auto simp: op_of_value_def op_value_def js_def)
  with CmdFrame sent_cmd [OF op] show ?thesis
    by (cases "cp_room q"; cases "cp_type q")
      (simp_all add: from_message_def read_prop_def present_def get_prop_def str_or_def opt_read_def opt_prop_def
        topic_defs js_def Let_def)
next
  case (AckFrame q)
  have room: "present (ack_room_value r) (js ''id'')" "present (ack_room_value r) (js ''type'')"
    "get_prop (ack_room_value r) (js ''id'') = JStr (fst r)" "get_prop (ack_room_value r) (js ''type'') = JStr (snd r)" for r
    by (simp_all add: ack_room_value_def present_def get_prop_def js_def)
  have t: "topic_ack \<noteq> topic_hello" "topic_ack \<noteq> topic_poll" "topic_ack \<noteq> topic_state" "topic_ack \<noteq> topic_cmd"
    by (simp_all add: topic_defs js_def)
  let ?m = "sent_message (AckFrame q)"
  have rd: "read_prop unset ''Ack'' ?m ''cmdId'' = JStr (ak_cmd q)" "read_prop unset ''Ack'' ?m ''ok'' = JBool (ak_ok q)"
    "opt_read ?m ''error'' f = map_option (f \<circ> JStr) (ak_error q)" "opt_read ?m ''alreadyGone'' g = map_option (g \<circ> JBool) (ak_gone q)"
    "opt_read ?m ''exists'' g = map_option (g \<circ> JBool) (ak_exists q)"
    "opt_read ?m ''room'' h = map_option (h \<circ> ack_room_value) (ak_room q)" for f :: "jsval \<Rightarrow> jsstr" and g :: "jsval \<Rightarrow> bool" and h :: "jsval \<Rightarrow> jsstr \<times> jsstr"
    by (simp_all add: sent_ack read_prop_def opt_read_def present_def get_prop_def opt_prop_def js_def split: option.split)
  have ids: "str_or [] \<circ> JStr = id" "bool_or False \<circ> JBool = id" by (auto simp: str_or_def bool_or_def)
  from AckFrame t show ?thesis
    by (simp add: from_message_def rd ids str_or_def bool_or_def Let_def)
      (simp add: comp_def read_prop_def room str_or_def option.map_id option.map_ident)
qed

text \<open>A hash-only reply carries four fields, whatever the snapshot fields hold.\<close>

definition hash_message :: "state_payload \<Rightarrow> jsval" where
  "hash_message p = JObj [(js ''reqId'', JStr (sy_req p)), (js ''full'', JBool False), (js ''seq'', JNum (sp_seq p)),
     (js ''hash'', JStr (sp_hash p))]"

lemma hash_props:
  "get_prop (hash_message p) (js ''reqId'') = JStr (sy_req p)" "get_prop (hash_message p) (js ''full'') = JBool False"
  "get_prop (hash_message p) (js ''seq'') = JNum (sp_seq p)" "get_prop (hash_message p) (js ''hash'') = JStr (sp_hash p)"
  "get_prop (hash_message p) (js ''name'') = JUndef" "get_prop (hash_message p) (js ''processUid'') = JUndef"
  "get_prop (hash_message p) (js ''agentVersion'') = JUndef" "get_prop (hash_message p) (js ''protocolVersion'') = JUndef"
  "get_prop (hash_message p) (js ''endpointUrl'') = JUndef" "get_prop (hash_message p) (js ''labels'') = JUndef"
  "get_prop (hash_message p) (js ''capacity'') = JUndef" "get_prop (hash_message p) (js ''autoCreate'') = JUndef"
  "get_prop (hash_message p) (js ''roomTypes'') = JUndef" "get_prop (hash_message p) (js ''rooms'') = JUndef"
  "get_prop (hash_message p) (js ''status'') = JUndef"
  by (simp_all add: hash_message_def get_prop_def js_def)

lemma hash_bytes:
  "spec_message fleet_schema 2 (js ''State'') (hash_message p) =
     Inr (spec_key 1 2 @ spec_len (text_encode (sy_req p)) @ spec_key 2 0 @ varint_bytes 0 @
          spec_key 3 0 @ varint_bytes (nat (sp_seq p mod 2 ^ 32)) @ spec_key 4 2 @ spec_len (text_encode (sp_hash p)))"
  by (simp add: depth_numeral fields_of_def state_lookup state_fields_def opt_field_def rep_field_def
      spec_slot_def nullish_def spec_field_def truthy_def js_int_def hash_props eval_nat_numeral)

lemma hash_only:
  assumes "\<not> sy_full p" "wire_safe (sy_req p)" "wire_safe (sp_hash p)" "uint_ok (sp_seq p)"
    "length (text_encode (sy_req p)) + length (text_encode (sp_hash p)) < 2 ^ 52"
  shows "sent_message (StateFrame p) = hash_message p" "fits fleet_schema 2 (js ''State'') (hash_message p)"
    "\<exists>q. from_message unset topic_state (hash_message p) = StateFrame q \<and> sy_req q = sy_req p \<and> \<not> sy_full q \<and>
       sp_seq q = sp_seq p \<and> sp_hash q = sp_hash p"
proof -
  have t: "topic_state \<noteq> topic_hello" "topic_state \<noteq> topic_poll" by (simp_all add: topic_defs js_def)
  have "sent_message (StateFrame p) =
      JObj (concat (map (\<lambda>f. set_field (set_fields fleet_schema (Suc 0)) f (get_prop (hash_message p) (fd_key f))) state_fields))"
    using assms(1) by (simp add: sent_message_def set_fields_numeral state_lookup state_to_message_def hash_message_def)
  also have "\<dots> = hash_message p"
    by (simp add: hash_message_def state_fields_def opt_field_def rep_field_def set_field_def set_value_def get_prop_def nullish_def js_def)
  finally show "sent_message (StateFrame p) = hash_message p" .
  have conf: "conforms fleet_schema 2 (js ''State'') (hash_message p)"
    unfolding hash_message_def conforms_unfold [OF state_lookup] using assms(2-4)
    by (simp add: state_fields_def opt_field_def rep_field_def slot_ok_def uint_ok_def js_def)
  show "fits fleet_schema 2 (js ''State'') (hash_message p)"
  proof (rule fitsI [OF fleet_schema_ok conf])
    fix b assume "spec_message fleet_schema 2 (js ''State'') (hash_message p) = Inr b"
    then have b: "b = spec_key 1 2 @ spec_len (text_encode (sy_req p)) @ spec_key 2 0 @ varint_bytes 0 @
        spec_key 3 0 @ varint_bytes (nat (sp_seq p mod 2 ^ 32)) @ spec_key 4 2 @ spec_len (text_encode (sp_hash p))"
      by (simp add: hash_bytes)
    have v: "n < 2 ^ 53 \<Longrightarrow> length (varint_bytes n) \<le> 8" for n by (rule varint_bytes_length_53)
    have k: "t < 10 \<Longrightarrow> w < 8 \<Longrightarrow> length (spec_key t w) \<le> 8" for t w
      unfolding spec_key_def by (intro v) simp
    have "length (varint_bytes (nat (sp_seq p mod 2 ^ 32))) \<le> 8" by (rule v) (rule uint32_bound)
    moreover have "length (varint_bytes (length (text_encode (sy_req p)))) \<le> 8" "length (varint_bytes (length (text_encode (sp_hash p)))) \<le> 8"
      using assms(5) by (intro v; simp)+
    ultimately have "length b \<le> 80 + (length (text_encode (sy_req p)) + length (text_encode (sp_hash p)))"
      unfolding b using v [of 0] k [of "Suc 0" 2] k [of 2 0] k [of 3 0] k [of 4 2] by (simp add: spec_len_def)
    with assms(5) show "length b < 2 ^ 53" by simp
  qed
  show "\<exists>q. from_message unset topic_state (hash_message p) = StateFrame q \<and> sy_req q = sy_req p \<and> \<not> sy_full q \<and>
       sp_seq q = sp_seq p \<and> sp_hash q = sp_hash p"
    using t by (simp add: from_message_def state_from_message_def Let_def read_prop_def present_def get_prop_def hash_message_def
        str_or_def int_or_def bool_or_def js_def)
qed

lemma sendable_frame_roundtrip:
  assumes "message_library enc dec unset" "frame_sendable p"
  shows "\<exists>b. encode_frame enc p = Inr b \<and> decode_frame dec unset (topic_of p) b = Inr p"
  using message_library.frame_roundtrip [OF assms(1) topic_type_of, of p] frame_fits [OF assms(2)] assms(2)
    frame_read [of p unset] message_library.unset_list [OF assms(1)]
  by (simp add: sent_message_def frame_sendable_def)

lemma hash_frame_roundtrip:
  assumes "message_library enc dec unset" "\<not> sy_full h" "wire_safe (sy_req h)" "wire_safe (sp_hash h)" "uint_ok (sp_seq h)"
    "length (text_encode (sy_req h)) + length (text_encode (sp_hash h)) < 2 ^ 52"
  shows "\<exists>b q. encode_frame enc (StateFrame h) = Inr b \<and> decode_frame dec unset topic_state b = Inr (StateFrame q) \<and>
    sy_req q = sy_req h \<and> \<not> sy_full q \<and> sp_seq q = sp_seq h \<and> sp_hash q = sp_hash h"
  using message_library.frame_roundtrip [OF assms(1) topic_type_of, of "StateFrame h"]
    hash_only(1,2) [OF assms(2-6)] hash_only(3) [OF assms(2-6), of unset]
  by (auto simp: sent_message_def)

section \<open>Property\<close>

text \<open>
  C32: the agent protocol is lossless and guarded by its version. With any protobuf library that
  keeps the set fields of a message, a hello, poll, command, ack or full state frame decodes to
  exactly the payload that was sent (an absent limit stays absent and 0 stays 0), and a hash-only
  reply to its request id, sequence number and hash. A frame of another protocol major (a JSON
  frame of the old protocol starts with the byte 123) is refused with that major, one shorter than
  the header as truncated; its body is never read.
\<close>

theorem fleet_frame_roundtrip:
  assumes "message_library enc dec unset"
  shows "(frame_sendable p \<longrightarrow> (\<exists>b. encode_frame enc p = Inr b \<and> decode_frame dec unset (topic_of p) b = Inr p)) \<and>
    (\<not> sy_full h \<and> wire_safe (sy_req h) \<and> wire_safe (sp_hash h) \<and> uint_ok (sp_seq h) \<and>
       length (text_encode (sy_req h)) + length (text_encode (sp_hash h)) < 2 ^ 52 \<longrightarrow>
     (\<exists>b q. encode_frame enc (StateFrame h) = Inr b \<and> decode_frame dec unset topic_state b = Inr (StateFrame q) \<and>
        sy_req q = sy_req h \<and> \<not> sy_full q \<and> sp_seq q = sp_seq h \<and> sp_hash q = sp_hash h)) \<and>
    (length f < 2 \<longrightarrow> decode_frame dec unset (topic_of p) f = Inl ShortFrame) \<and>
    (2 \<le> length f \<and> unat (f ! 0) \<noteq> 3 \<longrightarrow> decode_frame dec unset (topic_of p) f = Inl (WrongMajor (unat (f ! 0))))"
  using sendable_frame_roundtrip [OF assms, of p] hash_frame_roundtrip [OF assms, of h] topic_type_of [of p]
  by (auto simp: decode_frame_def fleet_header_bytes_def protocol_version_def)

theorem fleet_frame_roundtrip_witness:
  "\<exists>b. encode_frame (encode_message fleet_schema 2) (HelloFrame \<lparr>hp_instance = [0x78], hp_protocol = 3, hp_heartbeat = 5000\<rparr>) = Inr b \<and>
     decode_frame (decode_message fleet_schema) (\<lambda>_ _. JUndef) topic_hello b =
       Inr (HelloFrame \<lparr>hp_instance = [0x78], hp_protocol = 3, hp_heartbeat = 5000\<rparr>)"
proof -
  let ?p = "HelloFrame \<lparr>hp_instance = [0x78], hp_protocol = 3, hp_heartbeat = 5000\<rparr>"
  have "frame_sendable ?p"
    by (simp add: frame_sendable_def conforms_eval uint_ok_def fleet_schema_def hello_fields_def opt_field_def encode_eval)
  with fleet_frame_roundtrip [OF own_library.message_library_axioms, of ?p] show ?thesis by simp
qed

end
