(* ===== verification/Fleet_Snapshot.thy ===== *)
theory Fleet_Snapshot
  imports Fleet_Wire
begin

text \<open>
  Bounds checks on agent snapshots (\<open>fleet/src/wire/snapshotSchema.ts\<close>): a small schema
  interpreter over the decoded value, then the checks a field rule cannot express. A reason is the
  message the code returns; \<open>None\<close> is \<open>null\<close>. The URL parser of the platform is the
  parameter \<open>url_protocol\<close> (the scheme with its colon, or \<open>None\<close> when \<open>new URL\<close> throws), regular
  expressions are the parameter \<open>re_test\<close>.
\<close>

declare map_of_eq_Some_iff [simp del] Some_eq_map_of_iff [simp del]

section \<open>Limits\<close>

definition max_endpoint_url_length :: nat where "max_endpoint_url_length = 512"
definition max_name_length :: nat where "max_name_length = 64"
definition max_labels :: nat where "max_labels = 32"
definition max_label_key_length :: nat where "max_label_key_length = 64"
definition max_label_value_length :: nat where "max_label_value_length = 64"
definition max_room_types :: nat where "max_room_types = 256"
definition max_rooms_count :: nat where "max_rooms_count = 50000"
definition max_room_id_length :: nat where "max_room_id_length = 256"
definition max_room_type_length :: nat where "max_room_type_length = 64"
definition max_room_connections :: nat where "max_room_connections = 1000000"

definition allowed_endpoint_schemes :: "jsstr list" where
  "allowed_endpoint_schemes = [js ''ws:'', js ''wss:'', js ''http:'', js ''https:'']"

section \<open>The schema interpreter\<close>

datatype rule_type = RString | RNumber | RInteger | RBoolean | RObject | RArray | ROther

datatype field_rule = Rule (fr_type: rule_type) (fr_required: bool) (fr_min: "int option") (fr_max: "int option")
  (fr_pattern: "jsstr option") (fr_items: "field_rule option")

definition over :: "int \<Rightarrow> int option \<Rightarrow> bool" where
  "over n limit = (case limit of None \<Rightarrow> False | Some m \<Rightarrow> n > m)"

definition under :: "int \<Rightarrow> int option \<Rightarrow> bool" where
  "under n limit = (case limit of None \<Rightarrow> False | Some m \<Rightarrow> n < m)"

definition limit_text :: "int option \<Rightarrow> jsstr" where
  "limit_text limit = (case limit of None \<Rightarrow> js ''undefined'' | Some n \<Rightarrow> js_string (JNum n))"

text \<open>The loop over an array's entries stops at the first reason.\<close>

fun first_reason :: "('a \<Rightarrow> jsstr option) \<Rightarrow> 'a list \<Rightarrow> jsstr option" where
  "first_reason f [] = None"
| "first_reason f (x # xs) = (case f x of None \<Rightarrow> first_reason f xs | Some r \<Rightarrow> Some r)"

lemma first_reason_cong [fundef_cong]:
  "xs = ys \<Longrightarrow> (\<And>x. x \<in> set ys \<Longrightarrow> f x = g x) \<Longrightarrow> first_reason f xs = first_reason g ys"
  by (induction ys arbitrary: xs) (auto split: option.split)

fun check_rule :: "(jsstr \<Rightarrow> jsstr \<Rightarrow> bool) \<Rightarrow> jsstr \<Rightarrow> jsval \<Rightarrow> field_rule \<Rightarrow> jsstr option" where
  "check_rule re_test field v (Rule ty required mn mx pat items) =
     (if nullish v then (if required then Some (field @ js '' is required'') else None)
      else case ty of
        RString \<Rightarrow>
          (case v of JStr s \<Rightarrow>
             if over (int (length s)) mx then Some (field @ js '' exceeds '' @ limit_text mx @ js '' characters'')
             else if under (int (length s)) mn then Some (field @ js '' must be at least '' @ limit_text mn @ js '' characters'')
             else if (case pat of None \<Rightarrow> False | Some p \<Rightarrow> \<not> re_test p s) then Some (field @ js '' has an invalid format'')
             else None
           | _ \<Rightarrow> Some (field @ js '' must be a string''))
      | RBoolean \<Rightarrow> (case v of JBool b \<Rightarrow> None | _ \<Rightarrow> Some (field @ js '' must be a boolean''))
      | RObject \<Rightarrow> (case v of JObj kvs \<Rightarrow> None | JBytes b \<Rightarrow> None | _ \<Rightarrow> Some (field @ js '' must be an object''))
      | RArray \<Rightarrow>
          (case v of JArr xs \<Rightarrow>
             if over (int (length xs)) mx then Some (field @ js '' exceeds '' @ limit_text mx @ js '' entries'')
             else if under (int (length xs)) mn then Some (field @ js '' must have at least '' @ limit_text mn @ js '' entries'')
             else (case items of None \<Rightarrow> None
                   | Some r \<Rightarrow> first_reason (\<lambda>x. check_rule re_test (field @ js '' entry'') x r) xs)
           | _ \<Rightarrow> Some (field @ js '' must be an array''))
      | ROther \<Rightarrow> None
      | _ \<Rightarrow>
          (case v of JNum n \<Rightarrow>
             if over n mx then Some (field @ js '' exceeds '' @ limit_text mx)
             else if under n mn then Some (field @ js '' is below '' @ limit_text mn)
             else None
           | _ \<Rightarrow> Some (field @ js '' must be a number'')))"

definition check_schema :: "(jsstr \<Rightarrow> jsstr \<Rightarrow> bool) \<Rightarrow> (jsstr \<times> field_rule) list \<Rightarrow> jsval \<Rightarrow> jsstr option" where
  "check_schema re_test sch data = first_reason (\<lambda>(k, r). check_rule re_test k (get_prop data k) r) sch"

definition sync_payload_schema :: "(jsstr \<times> field_rule) list" where
  "sync_payload_schema =
     [(js ''endpointUrl'', Rule RString True None (Some (int max_endpoint_url_length)) None None),
      (js ''name'', Rule RString True None (Some (int max_name_length)) None None),
      (js ''labels'', Rule RObject True None None None None),
      (js ''roomTypes'', Rule RArray True None (Some (int max_room_types)) None
         (Some (Rule RString False None (Some (int max_room_type_length)) None None))),
      (js ''rooms'', Rule RArray True None (Some (int max_rooms_count)) None
         (Some (Rule RObject False None None None None)))]"

section \<open>Snapshots\<close>

text \<open>The payload as the object the checks read.\<close>

definition payload_value :: "sync_payload \<Rightarrow> jsval" where
  "payload_value p = JObj
     [(js ''endpointUrl'', JStr (sp_url p)), (js ''name'', JStr (sp_name p)),
      (js ''labels'', JObj (map (\<lambda>(k, v). (k, JStr v)) (sp_labels p))),
      (js ''roomTypes'', JArr (map JStr (sp_types p))), (js ''rooms'', JArr (map room_to_message (sp_rooms p)))]"

definition check_label :: "jsval \<Rightarrow> jsstr \<Rightarrow> jsstr option" where
  "check_label labels k =
     (if length k > max_label_key_length then Some (js ''a label key exceeds 64 characters'')
      else case get_prop labels k of
        JStr s \<Rightarrow> (if length s > max_label_value_length then Some (js ''a label value is not a string of at most 64 characters'')
                  else None)
      | _ \<Rightarrow> Some (js ''a label value is not a string of at most 64 characters''))"

definition check_room :: "jsval \<Rightarrow> jsstr option" where
  "check_room e =
     (if (case get_prop e (js ''id'') of JStr s \<Rightarrow> length s > max_room_id_length | _ \<Rightarrow> True)
      then Some (js ''a room id is not a string of at most 256 characters'')
      else if (case get_prop e (js ''type'') of JStr s \<Rightarrow> length s > max_room_type_length | _ \<Rightarrow> True)
      then Some (js ''a room type is not a string of at most 64 characters'')
      else if (case get_prop e (js ''connections'') of JNum n \<Rightarrow> n > int max_room_connections | _ \<Rightarrow> True)
      then Some (js ''a room connections value exceeds 1000000'')
      else None)"

definition object_keys :: "jsval \<Rightarrow> jsstr list" where
  "object_keys v = (case v of JObj kvs \<Rightarrow> jm_keys kvs | _ \<Rightarrow> [])"

definition array_items :: "jsval \<Rightarrow> jsval list" where
  "array_items v = (case v of JArr xs \<Rightarrow> xs | _ \<Rightarrow> [])"

definition validate_snapshot ::
  "(jsstr \<Rightarrow> jsstr \<Rightarrow> bool) \<Rightarrow> (jsstr \<Rightarrow> jsstr option) \<Rightarrow> sync_payload \<Rightarrow> jsstr option" where
  "validate_snapshot re_test url_protocol p =
     (let data = payload_value p
      in case check_schema re_test sync_payload_schema data of
           Some reason \<Rightarrow> Some reason
         | None \<Rightarrow> (case url_protocol (sp_url p) of
             None \<Rightarrow> Some (js ''endpointUrl is not a valid URL'')
           | Some scheme \<Rightarrow>
               (if scheme \<notin> set allowed_endpoint_schemes then Some (js ''endpointUrl scheme is not allowed'')
                else let labels = get_prop data (js ''labels''); ks = object_keys labels
                     in if length ks > max_labels then Some (js ''labels exceeds 32 entries'')
                        else case first_reason (check_label labels) ks of
                          Some reason \<Rightarrow> Some reason
                        | None \<Rightarrow> first_reason check_room (array_items (get_prop data (js ''rooms''))))))"

end
