(* ===== verification/Fleet_Snapshot_Props.thy ===== *)
theory Fleet_Snapshot_Props
  imports Fleet_Snapshot
begin

text \<open>What the snapshot checks accept, and that a rejection names no agent-supplied content.\<close>

declare map_of_eq_Some_iff [simp del] Some_eq_map_of_iff [simp del]

definition snapshot_bounded :: "(jsstr \<Rightarrow> jsstr option) \<Rightarrow> sync_payload \<Rightarrow> bool" where
  "snapshot_bounded url_protocol p \<longleftrightarrow>
     length (sp_url p) \<le> 512 \<and> url_protocol (sp_url p) \<in> Some ` {js ''ws:'', js ''wss:'', js ''http:'', js ''https:''} \<and>
     length (sp_name p) \<le> 64 \<and>
     length (sp_labels p) \<le> 32 \<and> (\<forall>(k, v) \<in> set (sp_labels p). length k \<le> 64 \<and> length v \<le> 64) \<and>
     length (sp_types p) \<le> 256 \<and> (\<forall>t \<in> set (sp_types p). length t \<le> 64) \<and>
     length (sp_rooms p) \<le> 50000 \<and>
     (\<forall>r \<in> set (sp_rooms p). length (sr_id r) \<le> 256 \<and> length (sr_type r) \<le> 64 \<and> sr_connections r \<le> 1000000)"

definition snapshot_reasons :: "jsstr list" where
  "snapshot_reasons =
     [js ''endpointUrl exceeds 512 characters'', js ''name exceeds 64 characters'',
      js ''roomTypes exceeds 256 entries'', js ''roomTypes entry exceeds 64 characters'',
      js ''rooms exceeds 50000 entries'', js ''endpointUrl is not a valid URL'',
      js ''endpointUrl scheme is not allowed'', js ''labels exceeds 32 entries'',
      js ''a label key exceeds 64 characters'', js ''a label value is not a string of at most 64 characters'',
      js ''a room id is not a string of at most 256 characters'',
      js ''a room type is not a string of at most 64 characters'', js ''a room connections value exceeds 1000000'']"

lemma first_reason_None: "first_reason f xs = None \<longleftrightarrow> (\<forall>x \<in> set xs. f x = None)"
  by (induction xs) (auto split: option.split)

lemma first_reason_Some: "first_reason f xs = Some r \<Longrightarrow> \<exists>x \<in> set xs. f x = Some r"
  by (induction xs) (auto split: option.splits)

lemmas limit_defs = max_endpoint_url_length_def max_name_length_def max_labels_def max_label_key_length_def
  max_label_value_length_def max_room_types_def max_rooms_count_def max_room_id_length_def
  max_room_type_length_def max_room_connections_def

lemma payload_props:
  "get_prop (payload_value p) (js ''endpointUrl'') = JStr (sp_url p)"
  "get_prop (payload_value p) (js ''name'') = JStr (sp_name p)"
  "get_prop (payload_value p) (js ''labels'') = JObj (map (\<lambda>(k, v). (k, JStr v)) (sp_labels p))"
  "get_prop (payload_value p) (js ''roomTypes'') = JArr (map JStr (sp_types p))"
  "get_prop (payload_value p) (js ''rooms'') = JArr (map room_to_message (sp_rooms p))"
  by (simp_all add: payload_value_def get_prop_def js_def)

lemma room_props:
  "get_prop (room_to_message r) (js ''id'') = JStr (sr_id r)" "get_prop (room_to_message r) (js ''type'') = JStr (sr_type r)"
  "get_prop (room_to_message r) (js ''connections'') = JNum (sr_connections r)"
  by (simp_all add: room_to_message_def get_prop_def js_def)

lemma limit_texts:
  "limit_text (Some 512) = js ''512''" "limit_text (Some 64) = js ''64''" "limit_text (Some 256) = js ''256''"
  "limit_text (Some 50000) = js ''50000''"
  by (simp_all add: limit_text_def js_def decimal.simps)

lemma js_append: "js a @ js b = js (a @ b)"
  by (simp add: js_def)

lemma rule_cases:
  "check_rule re_test f (JStr s) (Rule RString req None (Some m) None None) =
     (if int (length s) > m then Some (f @ js '' exceeds '' @ limit_text (Some m) @ js '' characters'') else None)"
  "check_rule re_test f (JObj kvs) (Rule RObject req None None None None) = None"
  "check_rule re_test f (JArr xs) (Rule RArray req None (Some m) None (Some r)) =
     (if int (length xs) > m then Some (f @ js '' exceeds '' @ limit_text (Some m) @ js '' entries'')
      else first_reason (\<lambda>x. check_rule re_test (f @ js '' entry'') x r) xs)"
  by (simp_all add: nullish_def over_def under_def)

declare check_rule.simps [simp del]

lemma schema_outcome:
  "check_schema re_test sync_payload_schema (payload_value p) =
     (if length (sp_url p) > 512 then Some (js ''endpointUrl exceeds 512 characters'')
      else if length (sp_name p) > 64 then Some (js ''name exceeds 64 characters'')
      else if length (sp_types p) > 256 then Some (js ''roomTypes exceeds 256 entries'')
      else case first_reason (\<lambda>t. if length t > 64 then Some (js ''roomTypes entry exceeds 64 characters'') else None) (sp_types p) of
        Some r \<Rightarrow> Some r
      | None \<Rightarrow> if length (sp_rooms p) > 50000 then Some (js ''rooms exceeds 50000 entries'') else None)"
proof -
  have types: "first_reason (\<lambda>x. check_rule re_test (js ''roomTypes entry'') x (Rule RString False None (Some 64) None None)) (map JStr ts) =
      first_reason (\<lambda>t. if length t > 64 then Some (js ''roomTypes entry exceeds 64 characters'') else None) ts" for ts
    by (induction ts) (simp_all add: rule_cases limit_texts js_append)
  have rooms: "first_reason (\<lambda>x. check_rule re_test f x (Rule RObject False None None None None)) (map room_to_message rs) = None" for f rs
    by (simp add: first_reason_None room_to_message_def rule_cases)
  show ?thesis
    by (simp add: check_schema_def sync_payload_schema_def payload_props limit_defs rule_cases limit_texts
        js_append types rooms split: option.split)
qed

lemma label_value_get:
  assumes "jm_ok l" "(k, v) \<in> set l"
  shows "get_prop (JObj (map (\<lambda>(k, v). (k, JStr v)) l)) k = JStr v"
proof -
  have "map_of (map (\<lambda>(k, v). (k, JStr v)) l) k = map_option JStr (map_of l k)" by (induction l) auto
  with assms show ?thesis by (simp add: get_prop_def)
qed

lemma labels_checked:
  assumes "jm_ok l"
  shows "first_reason (check_label (JObj (map (\<lambda>(k, v). (k, JStr v)) l))) (map fst l) = None \<longleftrightarrow>
    (\<forall>(k, v) \<in> set l. length k \<le> 64 \<and> length v \<le> 64)"
proof -
  have "check_label (JObj (map (\<lambda>(k, v). (k, JStr v)) l)) (fst kv) = None \<longleftrightarrow> length (fst kv) \<le> 64 \<and> length (snd kv) \<le> 64"
    if "kv \<in> set l" for kv
    using label_value_get [OF assms, of "fst kv" "snd kv"] that
    by (simp add: check_label_def limit_defs not_less)
  then show ?thesis by (auto simp: first_reason_None)
qed

lemma check_label_reason:
  "check_label ls k = Some r \<Longrightarrow>
     r = js ''a label key exceeds 64 characters'' \<or> r = js ''a label value is not a string of at most 64 characters''"
  by (auto simp: check_label_def split: if_splits jsval.splits)

lemma check_room_outcome:
  "check_room (room_to_message r) =
     (if length (sr_id r) > 256 then Some (js ''a room id is not a string of at most 256 characters'')
      else if length (sr_type r) > 64 then Some (js ''a room type is not a string of at most 64 characters'')
      else if sr_connections r > 1000000 then Some (js ''a room connections value exceeds 1000000'') else None)"
  by (simp add: check_room_def room_props limit_defs)

lemma in_reasons:
  "js ''endpointUrl exceeds 512 characters'' \<in> set snapshot_reasons"
  "js ''name exceeds 64 characters'' \<in> set snapshot_reasons"
  "js ''roomTypes exceeds 256 entries'' \<in> set snapshot_reasons"
  "js ''roomTypes entry exceeds 64 characters'' \<in> set snapshot_reasons"
  "js ''rooms exceeds 50000 entries'' \<in> set snapshot_reasons"
  "js ''endpointUrl is not a valid URL'' \<in> set snapshot_reasons"
  "js ''endpointUrl scheme is not allowed'' \<in> set snapshot_reasons"
  "js ''labels exceeds 32 entries'' \<in> set snapshot_reasons"
  "js ''a label key exceeds 64 characters'' \<in> set snapshot_reasons"
  "js ''a label value is not a string of at most 64 characters'' \<in> set snapshot_reasons"
  "js ''a room id is not a string of at most 256 characters'' \<in> set snapshot_reasons"
  "js ''a room type is not a string of at most 64 characters'' \<in> set snapshot_reasons"
  "js ''a room connections value exceeds 1000000'' \<in> set snapshot_reasons"
  by (simp_all add: snapshot_reasons_def)

lemma schema_reasons: "check_schema re_test sync_payload_schema (payload_value p) = Some r \<Longrightarrow> r \<in> set snapshot_reasons"
  by (auto simp: schema_outcome in_reasons split: if_splits option.splits dest!: first_reason_Some)

lemma label_reasons: "first_reason (check_label l) ks = Some r \<Longrightarrow> r \<in> set snapshot_reasons"
  by (auto simp: in_reasons dest!: first_reason_Some check_label_reason)

lemma room_reasons: "first_reason check_room (map room_to_message rooms) = Some r \<Longrightarrow> r \<in> set snapshot_reasons"
  by (auto simp: in_reasons check_room_outcome split: if_splits dest!: first_reason_Some)

lemma schema_None:
  "check_schema re_test sync_payload_schema (payload_value p) = None \<longleftrightarrow>
     length (sp_url p) \<le> 512 \<and> length (sp_name p) \<le> 64 \<and> length (sp_types p) \<le> 256 \<and>
     (\<forall>t \<in> set (sp_types p). length t \<le> 64) \<and> length (sp_rooms p) \<le> 50000"
proof (cases "first_reason (\<lambda>t. if length t > 64 then Some (js ''roomTypes entry exceeds 64 characters'') else None) (sp_types p)")
  case None
  then have "\<forall>t \<in> set (sp_types p). length t \<le> 64"
    by (auto simp: first_reason_None not_less split: if_splits)
  with None show ?thesis by (simp add: schema_outcome)
next
  case (Some r)
  then have "\<not> (\<forall>t \<in> set (sp_types p). length t \<le> 64)"
    by (force simp: not_le dest!: first_reason_Some split: if_splits)
  with Some show ?thesis by (simp add: schema_outcome)
qed

lemma validate_None:
  "validate_snapshot re_test url_protocol p = None \<longleftrightarrow>
     check_schema re_test sync_payload_schema (payload_value p) = None \<and>
     url_protocol (sp_url p) \<in> Some ` set allowed_endpoint_schemes \<and>
     length (object_keys (get_prop (payload_value p) (js ''labels''))) \<le> 32 \<and>
     first_reason (check_label (get_prop (payload_value p) (js ''labels''))) (object_keys (get_prop (payload_value p) (js ''labels''))) = None \<and>
     first_reason check_room (array_items (get_prop (payload_value p) (js ''rooms''))) = None"
  by (auto simp: validate_snapshot_def Let_def max_labels_def split: option.splits)

lemma connections_bounded:
  "\<forall>r \<in> set rs. sr_connections r \<le> m \<Longrightarrow>
   fold (\<lambda>r n. n + ri_connections r) (map (room_of_sync inst url) rs) acc \<le> acc + int (length rs) * m"
proof (induction rs arbitrary: acc)
  case (Cons r rs)
  from Cons.IH [of "acc + sr_connections r"] Cons.prems show ?case
    by (simp add: room_of_sync_def algebra_simps)
qed simp

lemma validate_bounded:
  assumes "jm_ok (sp_labels p)"
  shows "validate_snapshot re_test url_protocol p = None \<longleftrightarrow> snapshot_bounded url_protocol p"
proof -
  let ?l = "JObj (map (\<lambda>(k, v). (k, JStr v)) (sp_labels p))"
  have keys: "object_keys ?l = map fst (sp_labels p)"
    by (simp add: object_keys_def case_prod_unfold comp_def)
  have rooms: "first_reason check_room (map room_to_message rs) = None \<longleftrightarrow>
      (\<forall>r \<in> set rs. length (sr_id r) \<le> 256 \<and> length (sr_type r) \<le> 64 \<and> sr_connections r \<le> 1000000)" for rs
    by (auto simp: first_reason_None check_room_outcome not_less)
  show ?thesis
    unfolding validate_None schema_None payload_props keys array_items_def snapshot_bounded_def
    using labels_checked [OF assms] rooms [of "sp_rooms p"]
    by (auto simp: allowed_endpoint_schemes_def)
qed

text \<open>
  C33: only bounded snapshots reach the read model. The checks accept a snapshot exactly when every
  documented limit holds: URL length and an allow-listed scheme, name, label count and sizes, room
  type count and sizes, room count, room id and type sizes, connections per room. A rejection is
  one of thirteen fixed sentences, so it carries nothing the agent sent. An accepted snapshot
  contributes at most \<open>50000 * 1000000\<close> connections to an instance.
\<close>

theorem snapshot_checks_exact:
  assumes "jm_ok (sp_labels p)"
  shows "(validate_snapshot re_test url_protocol p = None \<longleftrightarrow> snapshot_bounded url_protocol p) \<and>
    (\<forall>r. validate_snapshot re_test url_protocol p = Some r \<longrightarrow> r \<in> set snapshot_reasons) \<and>
    (validate_snapshot re_test url_protocol p = None \<longrightarrow>
       ii_connections (build_instance_info inst p now) \<le> 50000 * 1000000)"
proof -
  note bounded = validate_bounded [OF assms]
  have reasons: "validate_snapshot re_test url_protocol p = Some r \<Longrightarrow> r \<in> set snapshot_reasons" for r
    by (auto simp: validate_snapshot_def payload_props Let_def array_items_def in_reasons split: option.splits if_splits
        dest: schema_reasons label_reasons room_reasons)
  have "ii_connections (build_instance_info inst p now) \<le> 50000 * 1000000" if "snapshot_bounded url_protocol p"
  proof -
    have r: "\<forall>r \<in> set (sp_rooms p). sr_connections r \<le> 1000000" and n: "length (sp_rooms p) \<le> 50000"
      using that by (simp_all add: snapshot_bounded_def)
    from connections_bounded [OF r, of inst "sp_url p" 0] n show ?thesis
      by (simp add: build_instance_info_def Let_def)
  qed
  with bounded reasons show ?thesis by blast
qed

text \<open>A snapshot with one room, and the same with a script URL.\<close>

definition sample_snapshot :: "jsstr \<Rightarrow> sync_payload" where
  "sample_snapshot url = \<lparr>sp_seq = 1, sp_hash = [], sp_name = [0x6E], sp_process = [], sp_agent_version = [], sp_protocol = 3,
     sp_url = url, sp_labels = [([0x7A], [0x61])], sp_capacity = \<lparr>max_connections = None, max_rooms = None\<rparr>,
     sp_auto = True, sp_types = [[0x67]],
     sp_rooms = [\<lparr>sr_id = [0x72], sr_type = [0x67], sr_connections = 2, sr_origin = []\<rparr>], sp_status = []\<rparr>"

theorem snapshot_checks_exact_witness:
  "validate_snapshot (\<lambda>_ _. True) (\<lambda>u. Some u) (sample_snapshot (js ''ws:'')) = None \<and>
   validate_snapshot (\<lambda>_ _. True) (\<lambda>u. Some u) (sample_snapshot (js ''js:'')) \<noteq> None"
  using snapshot_checks_exact [of "sample_snapshot (js ''ws:'')" "\<lambda>_ _. True" "\<lambda>u. Some u"]
    snapshot_checks_exact [of "sample_snapshot (js ''js:'')" "\<lambda>_ _. True" "\<lambda>u. Some u"]
  by (simp add: sample_snapshot_def snapshot_bounded_def js_def)

end
