(* ===== verification/Fleet_Commands_Inv.thy ===== *)
theory Fleet_Commands_Inv
  imports Fleet_Commands
begin

text \<open>
  Invariants of the command engine: the pending table and the armed timers mirror each other, a
  command settles once, the table of an instance stays within the cap; and, for any releaser
  that obeys the laws of the locale, the reservations held by the releaser are exactly those
  carried by pending commands. The locale is interpreted on \<open>FleetState\<close>.
\<close>

declare map_of_eq_Some_iff [simp del] Some_eq_map_of_iff [simp del]

section \<open>The pending table\<close>

definition pend :: "'r engine \<Rightarrow> jsstr \<Rightarrow> jsstr \<Rightarrow> pending_command option" where
  "pend e i c = (case jm_get (en_pending e) i of None \<Rightarrow> None | Some m \<Rightarrow> jm_get m c)"

definition table_ok :: "'r engine \<Rightarrow> bool" where
  "table_ok e \<longleftrightarrow> jm_ok (en_pending e) \<and> jm_ok (en_timers e) \<and>
     (\<forall>i m. jm_get (en_pending e) i = Some m \<longrightarrow> jm_ok m \<and> length m \<le> max_inflight_commands)"

definition timers_ok :: "'r engine \<Rightarrow> bool" where
  "timers_ok e \<longleftrightarrow>
     (\<forall>h i c. jm_get (en_timers e) h = Some (i, c) \<longleftrightarrow> (\<exists>pc. pend e i c = Some pc \<and> pc_timer pc = h)) \<and>
     (\<forall>h. jm_has (en_timers e) h \<longrightarrow> h < en_next e)"

definition known_id :: "'r engine \<Rightarrow> jsstr \<Rightarrow> bool" where
  "known_id e c \<longleftrightarrow> (\<exists>k \<le> en_seq e. c = js ''cmd_'' @ decimal k)"

definition settled :: "'r engine \<Rightarrow> jsstr set" where
  "settled e = fst ` set (en_outcomes e)"

definition once_ok :: "'r engine \<Rightarrow> bool" where
  "once_ok e \<longleftrightarrow> distinct (map fst (en_outcomes e)) \<and> (\<forall>c \<in> settled e. known_id e c) \<and>
     (\<forall>i c. pend e i c \<noteq> None \<longrightarrow> c \<notin> settled e \<and> known_id e c) \<and>
     (\<forall>i j c. pend e i c \<noteq> None \<longrightarrow> pend e j c \<noteq> None \<longrightarrow> i = j)"

definition engine_ok :: "'r engine \<Rightarrow> bool" where
  "engine_ok e \<longleftrightarrow> table_ok e \<and> timers_ok e \<and> once_ok e"

text \<open>The engine without one pending command and its timer.\<close>

definition dropped :: "jsstr \<Rightarrow> jsstr \<Rightarrow> 'r engine \<Rightarrow> 'r engine" where
  "dropped i c e = (case jm_get (en_pending e) i of None \<Rightarrow> e
     | Some m \<Rightarrow> (case jm_get m c of None \<Rightarrow> e
        | Some pc \<Rightarrow> e\<lparr>en_pending := jm_set (en_pending e) i (jm_delete m c),
                       en_timers := jm_delete (en_timers e) (pc_timer pc)\<rparr>))"

lemma settle_cases:
  "settle i c act e = (case pend e i c of None \<Rightarrow> (e, False) | Some pc \<Rightarrow> (act pc (dropped i c e), True))"
  by (simp add: settle_def pend_def dropped_def split: option.split)

lemma dropped_pend:
  "pend (dropped i c e) i' c' = (if i' = i \<and> c' = c then None else pend e i' c')"
  by (simp add: pend_def dropped_def jm_get_set jm_get_delete split: option.split)

lemma dropped_timers:
  "pend e i c = Some pc \<Longrightarrow> en_timers (dropped i c e) = jm_delete (en_timers e) (pc_timer pc)"
  by (auto simp: pend_def dropped_def split: option.splits)

lemma dropped_frame:
  "en_rel (dropped i c e) = en_rel e" "en_seq (dropped i c e) = en_seq e" "en_next (dropped i c e) = en_next e"
  "en_outcomes (dropped i c e) = en_outcomes e" "en_sent (dropped i c e) = en_sent e"
  by (simp_all add: dropped_def split: option.split)

lemma length_delete: "length (jm_delete m k) \<le> length m"
  by (simp add: length_delete_le)

lemma dropped_ok:
  assumes "table_ok e"
  shows "table_ok (dropped i c e)"
  using assms
  by (auto simp: table_ok_def dropped_def jm_get_set split: option.split intro: le_trans [OF length_delete])

lemma dropped_timers_ok:
  assumes "timers_ok e" and p: "pend e i c = Some pc"
  shows "timers_ok (dropped i c e)"
proof -
  have iff: "jm_get (en_timers e) h = Some (i', c') \<longleftrightarrow> (\<exists>pc'. pend e i' c' = Some pc' \<and> pc_timer pc' = h)" for h i' c'
    using assms(1) unfolding timers_ok_def by blast
  have t: "jm_get (en_timers e) (pc_timer pc) = Some (i, c)" using iff p by blast
  have "jm_get (en_timers (dropped i c e)) h = Some (i', c') \<longleftrightarrow>
      (\<exists>pc'. pend (dropped i c e) i' c' = Some pc' \<and> pc_timer pc' = h)" for h i' c'
  proof (cases "i' = i \<and> c' = c")
    case True
    have "jm_get (en_timers e) h = Some (i, c) \<Longrightarrow> h = pc_timer pc"
      using iff [of h i c] p by auto
    with True show ?thesis by (auto simp: dropped_pend dropped_timers [OF p] jm_get_delete)
  next
    case False
    then have "jm_get (en_timers e) h = Some (i', c') \<Longrightarrow> h \<noteq> pc_timer pc" using t by auto
    with False iff [of h i' c'] show ?thesis
      by (auto simp: dropped_pend dropped_timers [OF p] jm_get_delete)
  qed
  moreover have "\<forall>h. jm_has (en_timers (dropped i c e)) h \<longrightarrow> h < en_next (dropped i c e)"
    using assms(1) by (simp add: timers_ok_def dropped_timers [OF p] dropped_frame jm_has_delete)
  ultimately show ?thesis unfolding timers_ok_def by blast
qed

lemma dropped_once: "once_ok e \<Longrightarrow> once_ok (dropped i c e)"
  unfolding once_ok_def settled_def known_id_def by (simp add: dropped_pend dropped_frame)

text \<open>Finishing a command that is no longer pending.\<close>

lemma finish_once:
  assumes "once_ok e" "\<And>i. pend e i c = None" "c \<notin> settled e" "known_id e c"
  shows "once_ok (finish c out e)"
  using assms by (auto simp: once_ok_def finish_def settled_def known_id_def pend_def)

lemma finish_frame [simp]:
  "pend (finish c out e) = pend e" "en_rel (finish c out e) = en_rel e" "en_seq (finish c out e) = en_seq e"
  "en_timers (finish c out e) = en_timers e" "en_pending (finish c out e) = en_pending e"
  "en_next (finish c out e) = en_next e" "en_sent (finish c out e) = en_sent e"
  by (auto simp: finish_def pend_def fun_eq_iff)

lemma rel_update_frame [simp]:
  "pend (e\<lparr>en_rel := r\<rparr>) = pend e" "pend (e\<lparr>en_sent := x\<rparr>) = pend e" "pend (e\<lparr>en_seq := q\<rparr>) = pend e"
  by (auto simp: pend_def fun_eq_iff)

lemma engine_ok_rel [simp]:
  "engine_ok (e\<lparr>en_rel := r\<rparr>) \<longleftrightarrow> engine_ok e" "engine_ok (e\<lparr>en_sent := x\<rparr>) \<longleftrightarrow> engine_ok e"
  by (simp_all add: engine_ok_def table_ok_def timers_ok_def once_ok_def settled_def known_id_def)

text \<open>What disposing of a command's reservations does to the releaser.\<close>

definition release_state :: "'r releaser \<Rightarrow> reservation option \<Rightarrow> jsstr option \<Rightarrow> 'r \<Rightarrow> 'r" where
  "release_state rel res room s =
     (let s = (case res of None \<Rightarrow> s | Some r \<Rightarrow> rl_release rel r s)
      in case room of None \<Rightarrow> s | Some i \<Rightarrow> rl_release_id rel i s)"

definition hold_state :: "'r releaser \<Rightarrow> reservation option \<Rightarrow> jsstr option \<Rightarrow> 'r \<Rightarrow> 'r" where
  "hold_state rel res room s = (case (res, room) of
     (Some r, Some i) \<Rightarrow> rl_hold rel i r s | _ \<Rightarrow> release_state rel res room s)"

lemma release_both_state: "release_both rel res room e = e\<lparr>en_rel := release_state rel res room (en_rel e)\<rparr>"
  by (simp add: release_both_def release_state_def Let_def split: option.split)

lemma release_reservations_state:
  "release_reservations rel pc e = e\<lparr>en_rel := release_state rel (pc_reservation pc) (pc_room pc) (en_rel e)\<rparr>"
  by (simp add: release_reservations_def release_both_state)

lemma hold_or_release_state:
  "hold_or_release rel pc e = e\<lparr>en_rel := hold_state rel (pc_reservation pc) (pc_room pc) (en_rel e)\<rparr>"
  by (simp add: hold_or_release_def hold_state_def release_reservations_state split: option.split)

text \<open>One settlement: the command leaves the table, its reservations are disposed of, its outcome
  is recorded.\<close>

definition settled_by :: "jsstr \<Rightarrow> jsstr \<Rightarrow> outcome \<Rightarrow> ('r \<Rightarrow> 'r) \<Rightarrow> 'r engine \<Rightarrow> 'r engine" where
  "settled_by i c out f e = finish c out ((dropped i c e)\<lparr>en_rel := f (en_rel e)\<rparr>)"

lemma settled_by_ok:
  assumes "engine_ok e" "pend e i c \<noteq> None"
  shows "engine_ok (settled_by i c out f e)"
proof -
  obtain pc where p: "pend e i c = Some pc" using assms(2) by blast
  have o: "once_ok e" and t: "table_ok e" "timers_ok e" using assms(1) by (simp_all add: engine_ok_def)
  let ?d = "(dropped i c e)\<lparr>en_rel := f (en_rel e)\<rparr>"
  have "engine_ok (dropped i c e)"
    unfolding engine_ok_def using dropped_once [OF o] dropped_ok [OF t(1)] dropped_timers_ok [OF t(2) p] by blast
  then have d: "engine_ok ?d" by simp
  have "pend ?d j c = None" for j
  proof (cases "j = i")
    case False
    have "pend e j c \<noteq> None \<Longrightarrow> j = i" using o assms(2) unfolding once_ok_def by blast
    with False show ?thesis by (cases "pend e j c") (simp_all add: dropped_pend)
  qed (simp add: dropped_pend)
  moreover have "c \<notin> settled e" "known_id e c"
    using o assms(2) unfolding once_ok_def by blast+
  then have "c \<notin> settled ?d" "known_id ?d c"
    by (simp_all add: settled_def known_id_def dropped_frame)
  ultimately have "once_ok (finish c out ?d)"
    using d by (intro finish_once) (simp_all add: engine_ok_def)
  with d show ?thesis
    unfolding settled_by_def engine_ok_def by (simp add: table_ok_def timers_ok_def)
qed

lemma settled_by_frame:
  "pend (settled_by i c out f e) i' c' = (if i' = i \<and> c' = c then None else pend e i' c')"
  "en_rel (settled_by i c out f e) = f (en_rel e)" "en_seq (settled_by i c out f e) = en_seq e"
  "en_outcomes (settled_by i c out f e) = en_outcomes e @ [(c, out)]"
  by (simp_all add: settled_by_def dropped_pend dropped_frame) (simp add: finish_def dropped_frame)

section \<open>The operations as settlements\<close>

lemma engine_ack_cases:
  "engine_ack rel i ack e = (case pend e i (ak_cmd ack) of
     None \<Rightarrow> (e, False)
   | Some pc \<Rightarrow>
       (if ak_ok ack then settled_by i (ak_cmd ack) (Resolved ack) (hold_state rel (pc_reservation pc) (pc_room pc)) e
        else settled_by i (ak_cmd ack) (Rejected (if ak_exists ack = Some True then RoomExists else CommandFailed))
               (release_state rel (pc_reservation pc) (pc_room pc)) e, True))"
  by (simp add: engine_ack_def settle_cases hold_or_release_state release_reservations_state settled_by_def
      dropped_frame split: option.split)

lemma reject_one_cases:
  "reject_one rel i c e = (case pend e i c of None \<Rightarrow> e
     | Some pc \<Rightarrow> settled_by i c (Rejected InstanceDisconnected) (release_state rel (pc_reservation pc) (pc_room pc)) e)"
  by (simp add: reject_one_def settle_cases release_reservations_state settled_by_def dropped_frame split: option.split)

lemma engine_timeout_cases:
  assumes "timers_ok e"
  shows "engine_timeout rel h e = (case jm_get (en_timers e) h of None \<Rightarrow> e
     | Some (i, c) \<Rightarrow> (case pend e i c of None \<Rightarrow> e
        | Some pc \<Rightarrow> settled_by i c (Rejected CommandTimeout) (hold_state rel (pc_reservation pc) (pc_room pc)) e))"
proof (cases "jm_get (en_timers e) h")
  case (Some ic)
  obtain i c where ic: "ic = (i, c)" by (cases ic)
  with Some assms obtain pc where p: "pend e i c = Some pc" "pc_timer pc = h" by (auto simp: timers_ok_def)
  let ?e = "e\<lparr>en_timers := jm_delete (en_timers e) h\<rparr>"
  have "pend ?e i c = Some pc" using p by (simp add: pend_def)
  moreover have "dropped i c ?e = dropped i c e"
    using p by (auto simp: pend_def dropped_def delete_idem split: option.splits)
  ultimately show ?thesis
    using Some ic p by (simp add: engine_timeout_def settle_cases hold_or_release_state settled_by_def dropped_frame)
qed (simp add: engine_timeout_def)

lemma engine_ack_ok: "engine_ok e \<Longrightarrow> engine_ok (fst (engine_ack rel i ack e))"
  by (simp add: engine_ack_cases settled_by_ok split: option.split)

lemma reject_one_ok: "engine_ok e \<Longrightarrow> engine_ok (reject_one rel i c e)"
  by (simp add: reject_one_cases settled_by_ok split: option.split)

lemma engine_timeout_ok: "engine_ok e \<Longrightarrow> engine_ok (engine_timeout rel h e)"
  by (subst engine_timeout_cases) (auto simp: engine_ok_def [of e] intro!: settled_by_ok split: option.split)

text \<open>Rejecting every command of an instance.\<close>

lemma reject_loop_ok: "engine_ok e \<Longrightarrow> engine_ok (fold (reject_one rel i) cs e)"
  by (induction cs arbitrary: e) (simp_all add: reject_one_ok)

lemma reject_one_pend:
  "pend (reject_one rel i c e) i' c' = (if i' = i \<and> c' = c then None else pend e i' c')"
  by (auto simp: reject_one_cases settled_by_frame split: option.split)

lemma reject_loop_pend:
  "pend (fold (reject_one rel i) cs e) i' c' = (if i' = i \<and> c' \<in> set cs then None else pend e i' c')"
  by (induction cs arbitrary: e) (auto simp: reject_one_pend)

lemma reject_all_loop:
  "reject_all rel i e = (case jm_get (en_pending e) i of None \<Rightarrow> e
     | Some m \<Rightarrow> (fold (reject_one rel i) (jm_keys m) e)\<lparr>en_pending :=
          jm_delete (en_pending (fold (reject_one rel i) (jm_keys m) e)) i\<rparr>)"
  by (simp add: reject_all_def Let_def split: option.split)

lemma reject_all_pend: "pend (reject_all rel i e) i' c' = (if i' = i then None else pend e i' c')"
proof (cases "jm_get (en_pending e) i")
  case None
  then show ?thesis by (simp add: reject_all_def pend_def)
next
  case (Some m)
  then have "pend (reject_all rel i e) i' c' =
      (if i' = i then None else pend (fold (reject_one rel i) (jm_keys m) e) i' c')"
    by (simp add: reject_all_loop pend_def jm_get_delete)
  then show ?thesis by (simp add: reject_loop_pend)
qed

lemma drop_empty_table_ok:
  assumes "engine_ok e" "\<And>c. pend e i c = None"
  shows "engine_ok (e\<lparr>en_pending := jm_delete (en_pending e) i\<rparr>)"
proof -
  have "pend (e\<lparr>en_pending := jm_delete (en_pending e) i\<rparr>) = pend e"
    using assms(2) by (auto simp: pend_def jm_get_delete fun_eq_iff)
  with assms(1) show ?thesis
    by (simp add: engine_ok_def table_ok_def timers_ok_def once_ok_def settled_def known_id_def jm_get_delete)
qed

lemma reject_all_ok:
  assumes "engine_ok e"
  shows "engine_ok (reject_all rel i e)"
proof (cases "jm_get (en_pending e) i")
  case (Some m)
  have "c \<notin> set (jm_keys m) \<Longrightarrow> pend e i c = None" for c
    using Some by (simp add: pend_def map_of_eq_None_iff)
  then have "pend (fold (reject_one rel i) (jm_keys m) e) i c = None" for c
    by (auto simp: reject_loop_pend)
  then have "engine_ok ((fold (reject_one rel i) (jm_keys m) e)\<lparr>en_pending :=
          jm_delete (en_pending (fold (reject_one rel i) (jm_keys m) e)) i\<rparr>)"
    by (rule drop_empty_table_ok [OF reject_loop_ok [OF assms]])
  with Some show ?thesis by (simp add: reject_all_loop)
qed (simp add: reject_all_def assms)

section \<open>Sending\<close>

definition fresh_id :: "jsstr \<Rightarrow> 'r engine \<Rightarrow> bool" where
  "fresh_id c e \<longleftrightarrow> c \<notin> settled e \<and> (\<forall>i. pend e i c = None) \<and> known_id e c"

lemma next_cmd_id_fresh:
  assumes "engine_ok e"
  shows "engine_ok (snd (next_cmd_id e))" "fresh_id (fst (next_cmd_id e)) (snd (next_cmd_id e))"
proof -
  let ?e = "snd (next_cmd_id e)"
  have known: "known_id e c \<Longrightarrow> known_id ?e c" for c
    by (auto simp: known_id_def next_cmd_id_def)
  have new: "\<not> known_id e (fst (next_cmd_id e))"
    by (simp add: known_id_def next_cmd_id_def)
  have frame: "pend ?e = pend e" "settled ?e = settled e"
    by (simp_all add: next_cmd_id_def settled_def)
  show "engine_ok ?e"
    using assms known unfolding engine_ok_def once_ok_def frame
    by (auto simp: table_ok_def timers_ok_def frame next_cmd_id_def)
  have "fst (next_cmd_id e) \<notin> settled e" "pend e i (fst (next_cmd_id e)) = None" for i
    using assms new unfolding engine_ok_def once_ok_def by blast+
  then show "fresh_id (fst (next_cmd_id e)) ?e"
    unfolding fresh_id_def frame by (auto simp: known_id_def next_cmd_id_def)
qed

text \<open>The state after a command entered the table.\<close>

definition entered :: "jsstr \<Rightarrow> jsstr \<Rightarrow> pending_command \<Rightarrow> 'r engine \<Rightarrow> 'r engine" where
  "entered i c pc e = e\<lparr>en_timers := jm_set (en_timers e) (en_next e) (i, c), en_next := en_next e + 1,
     en_pending := jm_set (en_pending e) i (jm_set (case jm_get (en_pending e) i of Some m \<Rightarrow> m | None \<Rightarrow> []) c pc)\<rparr>"

lemma entered_pend: "pend (entered i c pc e) i' c' = (if i' = i \<and> c' = c then Some pc else pend e i' c')"
  by (auto simp: pend_def entered_def jm_get_set split: option.split)

lemma entered_ok:
  assumes e: "engine_ok e" and f: "fresh_id c e" and cap: "in_flight i e < max_inflight_commands"
    and t: "pc_timer pc = en_next e"
  shows "engine_ok (entered i c pc e)"
proof -
  have te: "table_ok e" "timers_ok e" "once_ok e" using e by (simp_all add: engine_ok_def)
  have "length (jm_set (case jm_get (en_pending e) i of Some m \<Rightarrow> m | None \<Rightarrow> []) c pc) \<le> max_inflight_commands"
    using cap by (auto simp: in_flight_def jm_size_set split: option.splits)
  with te(1) have "table_ok (entered i c pc e)"
    by (auto simp: table_ok_def entered_def jm_get_set split: option.split)
  moreover have "timers_ok (entered i c pc e)"
  proof -
    have iff: "jm_get (en_timers e) h = Some (i', c') \<longleftrightarrow> (\<exists>pc'. pend e i' c' = Some pc' \<and> pc_timer pc' = h)" for h i' c'
      using te(2) unfolding timers_ok_def by blast
    have lt: "jm_get (en_timers e) h = Some x \<Longrightarrow> h < en_next e" for h x
      using te(2) by (auto simp: timers_ok_def jm_has_def)
    have old: "pend e i c = None" using f by (simp add: fresh_id_def)
    have tm: "en_timers (entered i c pc e) = jm_set (en_timers e) (en_next e) (i, c)"
      "en_next (entered i c pc e) = en_next e + 1" by (simp_all add: entered_def)
    have "jm_get (en_timers (entered i c pc e)) h = Some (i', c') \<longleftrightarrow>
        (\<exists>pc'. pend (entered i c pc e) i' c' = Some pc' \<and> pc_timer pc' = h)" for h i' c'
    proof (cases "h = en_next e")
      case True
      have "\<not> (\<exists>pc'. pend e i' c' = Some pc' \<and> pc_timer pc' = h)"
        using iff [of h i' c'] lt True by (metis less_irrefl)
      with True t show ?thesis by (auto simp: tm entered_pend jm_get_set)
    next
      case False
      with iff [of h i' c'] old t show ?thesis by (auto simp: tm entered_pend jm_get_set)
    qed
    moreover have "\<forall>h. jm_has (en_timers (entered i c pc e)) h \<longrightarrow> h < en_next (entered i c pc e)"
      using lt by (auto simp: tm jm_has_def jm_get_set intro: less_SucI split: if_splits)
    ultimately show ?thesis unfolding timers_ok_def by blast
  qed
  moreover have "once_ok (entered i c pc e)"
  proof -
    have fr: "settled (entered i c pc e) = settled e" "known_id (entered i c pc e) = known_id e"
      "en_outcomes (entered i c pc e) = en_outcomes e"
      by (auto simp: entered_def settled_def known_id_def fun_eq_iff)
    from te(3) f show ?thesis
      unfolding once_ok_def fr fresh_id_def by (auto simp: entered_pend split: if_splits)
  qed
  ultimately show ?thesis by (simp add: engine_ok_def)
qed

lemma engine_send_cases:
  fixes rel :: "'r releaser"
  defines "busy \<equiv> \<lambda>i res room c e. finish c (Rejected InstanceBusy)
      ((snd (map_for i e))\<lparr>en_rel := release_state rel res room (en_rel e)\<rparr>)"
  shows "engine_send rel throws i cmd res room e =
     (if in_flight i e \<ge> max_inflight_commands then busy i res room (cp_id cmd) e
      else let e' = entered i (cp_id cmd) \<lparr>pc_timer = en_next e, pc_reservation = res, pc_room = room\<rparr> e
           in if throws
              then settled_by i (cp_id cmd) (Rejected InstanceDisconnected) (release_state rel res room) e'
              else e'\<lparr>en_sent := en_sent e @ [(i, cmd)]\<rparr>)"
proof -
  let ?pc = "\<lparr>pc_timer = en_next e, pc_reservation = res, pc_room = room\<rparr>"
  obtain m e0 where m: "map_for i e = (m, e0)" by (cases "map_for i e")
  have l: "length m = in_flight i e" and r: "en_rel e0 = en_rel e"
    using m by (auto simp: map_for_def in_flight_def split: option.splits)
  have en: "e0\<lparr>en_timers := jm_set (en_timers e0) (en_next e0) (i, cp_id cmd), en_next := Suc (en_next e0),
                     en_pending := jm_set (en_pending e0) i (jm_set m (cp_id cmd) ?pc)\<rparr> = entered i (cp_id cmd) ?pc e"
    and nx: "en_next e0 = en_next e" and st: "en_sent (entered i (cp_id cmd) ?pc e) = en_sent e"
    using m by (auto simp: map_for_def entered_def update_triv split: option.splits)
  show ?thesis
    unfolding engine_send_def m prod.case Let_def l snd_conv
    by (simp add: busy_def release_both_state r nx settle_cases entered_pend release_reservations_state
        settled_by_def dropped_frame m en [unfolded nx] st)
qed

section \<open>Reservations\<close>

text \<open>What the pending commands carry, and what the releaser holds beyond that (a reservation just
  made, not yet handed to a command).\<close>

definition carries :: "'r engine \<Rightarrow> jsstr \<Rightarrow> jsstr \<Rightarrow> reservation \<Rightarrow> bool" where
  "carries e i c r \<longleftrightarrow> (\<exists>pc. pend e i c = Some pc \<and> pc_reservation pc = Some r)"

definition carries_id :: "'r engine \<Rightarrow> jsstr \<Rightarrow> jsstr \<Rightarrow> jsstr \<Rightarrow> bool" where
  "carries_id e i c room \<longleftrightarrow> (\<exists>pc. pend e i c = Some pc \<and> pc_room pc = Some room)"

text \<open>Every held token is carried by exactly one command or is in hand, likewise every held id.\<close>

definition balanced :: "('r \<Rightarrow> jsstr set) \<Rightarrow> ('r \<Rightarrow> jsstr set) \<Rightarrow> jsstr set \<Rightarrow> jsstr set \<Rightarrow> 'r engine \<Rightarrow> bool" where
  "balanced tokens ids hand hand_ids e \<longleftrightarrow>
     tokens (en_rel e) = {rs_id r | i c r. carries e i c r} \<union> hand \<and>
     ids (en_rel e) = {room | i c room. carries_id e i c room} \<union> hand_ids \<and>
     (\<forall>i c r. carries e i c r \<longrightarrow> rs_id r \<notin> hand) \<and> (\<forall>i c room. carries_id e i c room \<longrightarrow> room \<notin> hand_ids) \<and>
     (\<forall>i c r i' c' r'. carries e i c r \<longrightarrow> carries e i' c' r' \<longrightarrow> rs_id r = rs_id r' \<longrightarrow> i = i' \<and> c = c') \<and>
     (\<forall>i c i' c' room. carries_id e i c room \<longrightarrow> carries_id e i' c' room \<longrightarrow> i = i' \<and> c = c')"

abbreviation token_set :: "reservation option \<Rightarrow> jsstr set" where
  "token_set res \<equiv> set_option (map_option rs_id res)"

lemma carries_settled:
  "carries (settled_by i c out f e) i' c' r \<longleftrightarrow> (i' \<noteq> i \<or> c' \<noteq> c) \<and> carries e i' c' r"
  "carries_id (settled_by i c out f e) i' c' room \<longleftrightarrow> (i' \<noteq> i \<or> c' \<noteq> c) \<and> carries_id e i' c' room"
  by (auto simp: carries_def carries_id_def settled_by_frame)

text \<open>A settlement that frees exactly what the command carried keeps the balance.\<close>

lemma settled_balanced:
  assumes b: "balanced tokens ids {} {} e" and p: "pend e i c = Some pc"
    and t: "tokens (f (en_rel e)) = tokens (en_rel e) - token_set (pc_reservation pc)"
    and d: "ids (f (en_rel e)) = ids (en_rel e) - set_option (pc_room pc)"
  shows "balanced tokens ids {} {} (settled_by i c out f e)"
proof -
  have own: "carries e i c r \<longleftrightarrow> pc_reservation pc = Some r" "carries_id e i c room \<longleftrightarrow> pc_room pc = Some room" for r room
    using p by (auto simp: carries_def carries_id_def)
  have uni: "carries e i' c' r' \<Longrightarrow> pc_reservation pc = Some r \<Longrightarrow> rs_id r = rs_id r' \<Longrightarrow> i' = i \<and> c' = c" for i' c' r r'
    using b own(1) unfolding balanced_def by metis
  have uni_id: "carries_id e i' c' room \<Longrightarrow> pc_room pc = Some room \<Longrightarrow> i' = i \<and> c' = c" for i' c' room
    using b own(2) unfolding balanced_def by metis
  have held: "tokens (en_rel e) = {rs_id r | i c r. carries e i c r}" "ids (en_rel e) = {room | i c room. carries_id e i c room}"
    using b by (simp_all add: balanced_def)
  have tk: "tokens (f (en_rel e)) = {rs_id r | i' c' r. (i' \<noteq> i \<or> c' \<noteq> c) \<and> carries e i' c' r}"
    unfolding t held using own(1) uni by (auto simp: set_eq_iff) metis+
  have di: "ids (f (en_rel e)) = {room | i' c' room. (i' \<noteq> i \<or> c' \<noteq> c) \<and> carries_id e i' c' room}"
    unfolding d held using own(2) uni_id by (auto simp: set_eq_iff) metis+
  show ?thesis
    unfolding balanced_def carries_settled settled_by_frame
  proof (intro conjI, goal_cases)
    case 1
    show ?case using tk by simp
  next
    case 2
    show ?case using di by simp
  next
    case 5
    show ?case using b unfolding balanced_def by blast
  next
    case 6
    show ?case using b unfolding balanced_def by blast
  qed simp_all
qed

text \<open>Giving back what is in hand balances too.\<close>

lemma hand_back_balanced:
  assumes b: "balanced tokens ids hand hand_ids e" and p: "pend e' = pend e"
    and t: "tokens (en_rel e') = tokens (en_rel e) - hand" and d: "ids (en_rel e') = ids (en_rel e) - hand_ids"
  shows "balanced tokens ids {} {} e'"
proof -
  have c: "carries e' = carries e" "carries_id e' = carries_id e"
    by (auto simp: carries_def carries_id_def p fun_eq_iff)
  show ?thesis
    unfolding balanced_def c t d
  proof (intro conjI, goal_cases)
    case 1
    show ?case using b unfolding balanced_def by auto
  next
    case 2
    show ?case using b unfolding balanced_def by auto
  next
    case 5
    show ?case using b unfolding balanced_def by blast
  next
    case 6
    show ?case using b unfolding balanced_def by blast
  qed simp_all
qed

text \<open>
  The contract of a releaser: releasing or holding a reservation that is its own frees exactly
  the token, releasing or holding an id frees exactly the id, and none of it invalidates the
  releaser or another reservation.
\<close>

locale reservation_releaser =
  fixes rel :: "'r releaser" and tokens :: "'r \<Rightarrow> jsstr set" and ids :: "'r \<Rightarrow> jsstr set"
    and inv :: "'r \<Rightarrow> bool" and own :: "reservation \<Rightarrow> 'r \<Rightarrow> bool"
  assumes release_tokens: "tokens (rl_release rel r s) = tokens s - {rs_id r}"
    and release_ids: "ids (rl_release rel r s) = ids s"
    and release_id_tokens: "tokens (rl_release_id rel room s) = tokens s"
    and release_id_ids: "ids (rl_release_id rel room s) = ids s - {room}"
    and hold_tokens: "tokens (rl_hold rel room r s) = tokens s - {rs_id r}"
    and hold_ids: "ids (rl_hold rel room r s) = ids s - {room}"
    and release_inv: "inv s \<Longrightarrow> own r s \<Longrightarrow> inv (rl_release rel r s)"
    and release_id_inv: "inv s \<Longrightarrow> inv (rl_release_id rel room s)"
    and hold_inv: "inv s \<Longrightarrow> own r s \<Longrightarrow> inv (rl_hold rel room r s)"
    and own_release: "own r s \<Longrightarrow> own r (rl_release rel q s)"
    and own_release_id: "own r s \<Longrightarrow> own r (rl_release_id rel room s)"
    and own_hold: "own r s \<Longrightarrow> own r (rl_hold rel room q s)"
begin

definition sound :: "jsstr set \<Rightarrow> jsstr set \<Rightarrow> 'r engine \<Rightarrow> bool" where
  "sound hand hand_ids e \<longleftrightarrow> engine_ok e \<and> balanced tokens ids hand hand_ids e \<and> inv (en_rel e) \<and>
     (\<forall>i c r. carries e i c r \<longrightarrow> own r (en_rel e))"

lemma release_state_effect:
  "tokens (release_state rel res room s) = tokens s - token_set res"
  "ids (release_state rel res room s) = ids s - set_option room"
  "own r s \<Longrightarrow> own r (release_state rel res room s)"
  "inv s \<Longrightarrow> (\<And>r. res = Some r \<Longrightarrow> own r s) \<Longrightarrow> inv (release_state rel res room s)"
  by (auto simp: release_state_def Let_def release_tokens release_ids release_id_tokens release_id_ids
      own_release own_release_id release_inv release_id_inv split: option.split)

lemma hold_state_effect:
  "tokens (hold_state rel res room s) = tokens s - token_set res"
  "ids (hold_state rel res room s) = ids s - set_option room"
  "own r s \<Longrightarrow> own r (hold_state rel res room s)"
  "inv s \<Longrightarrow> (\<And>r. res = Some r \<Longrightarrow> own r s) \<Longrightarrow> inv (hold_state rel res room s)"
  by (auto simp: hold_state_def hold_tokens hold_ids own_hold hold_inv release_state_effect split: option.split)

lemma settled_sound:
  assumes "sound {} {} e" "pend e i c = Some pc"
    and "f = release_state rel (pc_reservation pc) (pc_room pc) \<or> f = hold_state rel (pc_reservation pc) (pc_room pc)"
  shows "sound {} {} (settled_by i c out f e)"
proof -
  have o: "own r (en_rel e)" if "carries e i' c' r" for i' c' r
    using assms(1) that unfolding sound_def by blast
  have pr: "own r (en_rel e)" if "pc_reservation pc = Some r" for r
    using o [of i c r] assms(2) that by (simp add: carries_def)
  have f: "tokens (f (en_rel e)) = tokens (en_rel e) - token_set (pc_reservation pc)"
    "ids (f (en_rel e)) = ids (en_rel e) - set_option (pc_room pc)"
    "\<And>r. own r (en_rel e) \<Longrightarrow> own r (f (en_rel e))" "inv (f (en_rel e))"
    using assms(1,3) pr by (auto simp: release_state_effect hold_state_effect sound_def)
  have "balanced tokens ids {} {} (settled_by i c out f e)"
    using assms(1) f(1,2) by (intro settled_balanced [OF _ assms(2)]) (simp_all add: sound_def)
  moreover have "engine_ok (settled_by i c out f e)"
    using assms(1,2) by (intro settled_by_ok) (simp_all add: sound_def)
  ultimately show ?thesis
    using f(3,4) o unfolding sound_def carries_settled settled_by_frame by blast
qed

lemma ack_sound: "sound {} {} e \<Longrightarrow> sound {} {} (fst (engine_ack rel i ack e))"
  by (auto simp: engine_ack_cases intro: settled_sound split: option.split)

lemma timeout_sound:
  assumes "sound {} {} e"
  shows "sound {} {} (engine_timeout rel h e)"
proof -
  have "timers_ok e" using assms by (simp add: sound_def engine_ok_def)
  then show ?thesis
    using assms by (auto simp: engine_timeout_cases intro: settled_sound split: option.split)
qed

lemma reject_one_sound: "sound {} {} e \<Longrightarrow> sound {} {} (reject_one rel i c e)"
  by (auto simp: reject_one_cases intro: settled_sound split: option.split)

lemma reject_loop_sound: "sound {} {} e \<Longrightarrow> sound {} {} (fold (reject_one rel i) cs e)"
  by (induction cs arbitrary: e) (simp_all add: reject_one_sound)

lemma sound_frame:
  assumes "sound hand hand_ids e" "pend e' = pend e" "en_rel e' = en_rel e" "engine_ok e'"
  shows "sound hand hand_ids e'"
  using assms by (simp add: sound_def balanced_def carries_def carries_id_def)

lemma reject_all_sound:
  assumes "sound {} {} e"
  shows "sound {} {} (reject_all rel i e)"
proof (cases "jm_get (en_pending e) i")
  case (Some m)
  let ?l = "fold (reject_one rel i) (jm_keys m) e"
  have "pend (reject_all rel i e) = pend ?l"
  proof (intro ext)
    fix i' c'
    have "c' \<notin> set (jm_keys m) \<Longrightarrow> pend e i c' = None"
      using Some by (simp add: pend_def map_of_eq_None_iff)
    then show "pend (reject_all rel i e) i' c' = pend ?l i' c'"
      by (auto simp: reject_all_pend reject_loop_pend)
  qed
  moreover have "en_rel (reject_all rel i e) = en_rel ?l" using Some by (simp add: reject_all_loop)
  moreover have "engine_ok (reject_all rel i e)" using assms by (intro reject_all_ok) (simp add: sound_def)
  ultimately show ?thesis by (rule sound_frame [OF reject_loop_sound [OF assms]])
qed (simp add: reject_all_def assms)

text \<open>A reservation just made passes into the command, or is given back at once.\<close>

lemma entered_sound:
  assumes s: "sound (token_set res) (set_option room) e" and f: "fresh_id c e"
    and cap: "in_flight i e < max_inflight_commands"
    and o: "\<And>r. res = Some r \<Longrightarrow> own r (en_rel e)"
  shows "sound {} {} (entered i c \<lparr>pc_timer = en_next e, pc_reservation = res, pc_room = room\<rparr> e)"
    (is "sound _ _ ?e")
proof -
  have rel: "en_rel ?e = en_rel e" by (simp add: entered_def)
  have none: "\<not> carries e i c r" "\<not> carries_id e i c x" for r x
    using f by (simp_all add: carries_def carries_id_def fresh_id_def)
  have ca: "carries ?e i' c' r \<longleftrightarrow> carries e i' c' r \<or> i' = i \<and> c' = c \<and> res = Some r" for i' c' r
    using none(1) [of r] by (auto simp: carries_def entered_pend split: if_splits)
  have ci: "carries_id ?e i' c' x \<longleftrightarrow> carries_id e i' c' x \<or> i' = i \<and> c' = c \<and> room = Some x" for i' c' x
    using none(2) [of x] by (auto simp: carries_id_def entered_pend split: if_splits)
  have b: "balanced tokens ids (token_set res) (set_option room) e" using s by (simp add: sound_def)
  have "balanced tokens ids {} {} ?e"
    unfolding balanced_def rel ca ci
  proof (intro conjI, goal_cases)
    case 1
    show ?case using b unfolding balanced_def by (cases res) auto
  next
    case 2
    show ?case using b unfolding balanced_def by (cases room) auto
  next
    case 5
    have "rs_id r \<noteq> rs_id r'" if "carries e i' c' r" "res = Some r'" for i' c' r r'
      using b that unfolding balanced_def by auto
    moreover have "\<forall>i c r i' c' r'. carries e i c r \<longrightarrow> carries e i' c' r' \<longrightarrow> rs_id r = rs_id r' \<longrightarrow> i = i' \<and> c = c'"
      using b unfolding balanced_def by blast
    ultimately show ?case by (metis option.inject)
  next
    case 6
    have "x \<noteq> y" if "carries_id e i' c' x" "room = Some y" for i' c' x y
      using b that unfolding balanced_def by auto
    moreover have "\<forall>i c i' c' x. carries_id e i c x \<longrightarrow> carries_id e i' c' x \<longrightarrow> i = i' \<and> c = c'"
      using b unfolding balanced_def by blast
    ultimately show ?case by (metis option.inject)
  qed simp_all
  moreover have "engine_ok ?e"
    using s by (intro entered_ok [OF _ f cap]) (simp_all add: sound_def)
  ultimately show ?thesis
    using s o unfolding sound_def rel ca by blast
qed

lemma send_sound:
  assumes s: "sound (token_set res) (set_option room) e" and f: "fresh_id (cp_id cmd) e"
    and o: "\<And>r. res = Some r \<Longrightarrow> own r (en_rel e)"
  shows "sound {} {} (engine_send rel throws i cmd res room e)"
proof (cases "in_flight i e \<ge> max_inflight_commands")
  case True
  let ?m = "(snd (map_for i e))\<lparr>en_rel := release_state rel res room (en_rel e)\<rparr>"
  have p: "pend ?m = pend e"
    by (auto simp: map_for_def pend_def jm_get_set fun_eq_iff split: option.split)
  have eok: "engine_ok e" using s by (simp add: sound_def)
  have "engine_ok (snd (map_for i e))"
  proof -
    have "pend (snd (map_for i e)) = pend e" using p by simp
    then show ?thesis
      using eok by (auto simp: engine_ok_def table_ok_def timers_ok_def once_ok_def settled_def known_id_def
          map_for_def jm_get_set split: option.split)
  qed
  then have m: "engine_ok ?m" by simp
  have "fresh_id (cp_id cmd) ?m"
    using f unfolding fresh_id_def p by (auto simp: settled_def known_id_def map_for_def split: option.split)
  then have ok: "engine_ok (finish (cp_id cmd) (Rejected InstanceBusy) ?m)"
    using m finish_once [of ?m "cp_id cmd"] unfolding fresh_id_def engine_ok_def
    by (simp add: table_ok_def timers_ok_def)
  have "balanced tokens ids {} {} (finish (cp_id cmd) (Rejected InstanceBusy) ?m)"
    using s by (intro hand_back_balanced [of tokens ids "token_set res" "set_option room" e])
      (simp_all add: sound_def release_state_effect p [simplified])
  moreover have "inv (release_state rel res room (en_rel e))"
    using s o by (intro release_state_effect) (simp_all add: sound_def)
  ultimately have "sound {} {} (finish (cp_id cmd) (Rejected InstanceBusy) ?m)"
    using s ok unfolding sound_def carries_def finish_frame p
    by (auto simp: release_state_effect)
  with True show ?thesis by (simp add: engine_send_cases)
next
  case False
  let ?pc = "\<lparr>pc_timer = en_next e, pc_reservation = res, pc_room = room\<rparr>"
  let ?e = "entered i (cp_id cmd) ?pc e"
  have en: "sound {} {} ?e" using False by (intro entered_sound [OF s f _ o]) simp_all
  have "sound {} {} (settled_by i (cp_id cmd) (Rejected InstanceDisconnected) (release_state rel res room) ?e)"
    by (rule settled_sound [OF en, of i "cp_id cmd" ?pc]) (simp_all add: entered_pend)
  moreover have "sound {} {} (?e\<lparr>en_sent := en_sent e @ [(i, cmd)]\<rparr>)"
    by (rule sound_frame [OF en]) (use en in \<open>simp_all add: sound_def\<close>)
  ultimately show ?thesis using False by (simp add: engine_send_cases Let_def)
qed

end

section \<open>FleetState is the releaser\<close>

lemma set_keys_delete: "set (jm_keys (jm_delete m k)) = set (jm_keys m) - {k}"
  unfolding jm_delete_keys by auto

definition fleet_releaser :: "fleet releaser" where
  "fleet_releaser = \<lparr>rl_release = release, rl_release_id = release_room_id, rl_hold = hold_until_visible\<rparr>"

definition held_tokens :: "fleet \<Rightarrow> jsstr set" where
  "held_tokens s = set (jm_keys (fs_reservations s))"

lemma issued_delete:
  assumes "issued r s" "fs_reservations t = jm_delete (fs_reservations s) k"
  shows "issued r t"
  using assms by (auto simp: issued_def jm_get_delete)

interpretation fleet_holds: reservation_releaser fleet_releaser held_tokens fs_reserved_ids "fleet_inv digest" issued
  for digest
proof unfold_locales
  fix r q :: reservation and s :: fleet and room :: jsstr
  show "held_tokens (rl_release fleet_releaser r s) = held_tokens s - {rs_id r}"
    unfolding held_tokens_def fleet_releaser_def releaser.simps release_tokens by (rule set_keys_delete)
  show "fs_reserved_ids (rl_release fleet_releaser r s) = fs_reserved_ids s"
    by (simp add: fleet_releaser_def release_frame)
  show "held_tokens (rl_release_id fleet_releaser room s) = held_tokens s"
    by (simp add: fleet_releaser_def release_room_id_def held_tokens_def)
  show "fs_reserved_ids (rl_release_id fleet_releaser room s) = fs_reserved_ids s - {room}"
    by (simp add: fleet_releaser_def release_room_id_def)
  show "held_tokens (rl_hold fleet_releaser room r s) = held_tokens s - {rs_id r}"
  proof -
    have "fs_reservations (rl_hold fleet_releaser room r s) = jm_delete (fs_reservations s) (rs_id r)"
      by (simp add: fleet_releaser_def hold_cases Let_def release_room_id_def release_tokens)
    then show ?thesis unfolding held_tokens_def by (simp only: set_keys_delete)
  qed
  show "fs_reserved_ids (rl_hold fleet_releaser room r s) = fs_reserved_ids s - {room}"
    by (auto simp: fleet_releaser_def hold_cases Let_def release_room_id_def release_frame)
  show "fleet_inv digest s \<Longrightarrow> issued r s \<Longrightarrow> fleet_inv digest (rl_release fleet_releaser r s)"
    by (simp add: fleet_releaser_def release_inv)
  show "fleet_inv digest s \<Longrightarrow> fleet_inv digest (rl_release_id fleet_releaser room s)"
    by (simp add: fleet_releaser_def release_room_id_inv)
  show "fleet_inv digest s \<Longrightarrow> issued r s \<Longrightarrow> fleet_inv digest (rl_hold fleet_releaser room r s)"
    by (simp add: fleet_releaser_def hold_until_visible_inv)
  show "issued r s \<Longrightarrow> issued r (rl_release fleet_releaser q s)"
    by (erule issued_delete [where k = "rs_id q"]) (simp add: fleet_releaser_def release_tokens)
  show "issued r s \<Longrightarrow> issued r (rl_release_id fleet_releaser room s)"
    by (simp add: fleet_releaser_def release_room_id_def issued_def)
  show "issued r s \<Longrightarrow> issued r (rl_hold fleet_releaser room q s)"
    by (erule issued_delete [where k = "rs_id q"])
      (simp add: fleet_releaser_def hold_cases Let_def release_room_id_def release_tokens)
qed

end
