(* ===== verification/Fleet_Poller.thy ===== *)
theory Fleet_Poller
  imports Prelude
begin

text \<open>
  The poll scheduler (\<open>fleet/src/orchestrator/Poller.ts\<close>). Its three callbacks never call back
  into the poller except for the eviction, which is the last thing a tick does; so an operation
  returns the callbacks it makes, in order, and the orchestrator runs them.
\<close>

section \<open>State and operations\<close>

record poll_entry =
  pe_timer :: "nat option"
  pe_outstanding :: "jsstr option"
  pe_missed :: nat
  pe_count :: nat

record poller =
  po_entries :: "(jsstr, poll_entry) jsmap"
  po_seq :: nat
  po_timers :: "(nat, jsstr) jsmap"
  po_next :: nat

datatype poll_call = SendPoll jsstr jsstr bool | OnStale jsstr | OnEvict jsstr

definition force_full_every_polls :: nat where
  "force_full_every_polls = 12"

definition new_poller :: poller where
  "new_poller = \<lparr>po_entries = [], po_seq = 0, po_timers = [], po_next = 0\<rparr>"

definition poller_has :: "jsstr \<Rightarrow> poller \<Rightarrow> bool" where
  "poller_has inst p = jm_has (po_entries p) inst"

definition poll :: "jsstr \<Rightarrow> poller \<Rightarrow> poller \<times> poll_call list" where
  "poll inst p = (case jm_get (po_entries p) inst of
     None \<Rightarrow> (p, [])
   | Some e \<Rightarrow>
       (let p = p\<lparr>po_seq := po_seq p + 1\<rparr>; req = js ''poll_'' @ decimal (po_seq p);
            full = (pe_count e mod force_full_every_polls = 0)
        in (p\<lparr>po_entries := jm_set (po_entries p) inst
               (e\<lparr>pe_count := pe_count e + 1, pe_outstanding := Some req\<rparr>)\<rparr>,
            [SendPoll inst req full])))"

definition schedule :: "jsstr \<Rightarrow> poller \<Rightarrow> poller" where
  "schedule inst p = (case jm_get (po_entries p) inst of
     None \<Rightarrow> p
   | Some e \<Rightarrow>
       p\<lparr>po_entries := jm_set (po_entries p) inst (e\<lparr>pe_timer := Some (po_next p)\<rparr>),
         po_timers := jm_set (po_timers p) (po_next p) inst, po_next := po_next p + 1\<rparr>)"

definition start_polling :: "jsstr \<Rightarrow> poller \<Rightarrow> poller \<times> poll_call list" where
  "start_polling inst p =
     (let p = p\<lparr>po_entries := jm_set (po_entries p) inst
                 \<lparr>pe_timer = None, pe_outstanding = None, pe_missed = 0, pe_count = 0\<rparr>\<rparr>;
          (p, calls) = poll inst p
      in (schedule inst p, calls))"

definition poll_reply :: "jsstr \<Rightarrow> jsstr \<Rightarrow> poller \<Rightarrow> poller \<times> bool" where
  "poll_reply inst req p = (case jm_get (po_entries p) inst of
     None \<Rightarrow> (p, False)
   | Some e \<Rightarrow>
       (if pe_outstanding e = None \<or> pe_outstanding e \<noteq> Some req then (p, False)
        else (p\<lparr>po_entries := jm_set (po_entries p) inst (e\<lparr>pe_outstanding := None, pe_missed := 0\<rparr>)\<rparr>, True)))"

definition forget :: "jsstr \<Rightarrow> poller \<Rightarrow> poller" where
  "forget inst p = (case jm_get (po_entries p) inst of
     None \<Rightarrow> p
   | Some e \<Rightarrow>
       p\<lparr>po_timers := (case pe_timer e of None \<Rightarrow> po_timers p | Some h \<Rightarrow> jm_delete (po_timers p) h),
         po_entries := jm_delete (po_entries p) inst\<rparr>)"

definition tick :: "jsstr \<Rightarrow> poller \<Rightarrow> poller \<times> poll_call list" where
  "tick inst p = (case jm_get (po_entries p) inst of
     None \<Rightarrow> (p, [])
   | Some e \<Rightarrow>
       (if pe_outstanding e \<noteq> None then
          (let m = pe_missed e + 1;
               p = p\<lparr>po_entries := jm_set (po_entries p) inst (e\<lparr>pe_missed := m\<rparr>)\<rparr>;
               calls = (if m = 2 then [OnStale inst] else [])
           in if m \<ge> 3 then (p, calls @ [OnEvict inst]) else (schedule inst p, calls))
        else
          (let (p, calls) = poll inst p in (schedule inst p, calls))))"

text \<open>The scheduler runs the callback of an armed handle once.\<close>

definition fire :: "nat \<Rightarrow> poller \<Rightarrow> poller \<times> poll_call list" where
  "fire h p = (case jm_get (po_timers p) h of
     None \<Rightarrow> (p, []) | Some inst \<Rightarrow> tick inst (p\<lparr>po_timers := jm_delete (po_timers p) h\<rparr>))"

section \<open>Runs\<close>

text \<open>A run is a sequence of calls and timer firings; it collects the calls made and the replies
  accepted.\<close>

datatype poll_event = Start jsstr | Reply jsstr jsstr | Forget jsstr | Fire nat
datatype poll_log = Called poll_call | Accepted jsstr jsstr

fun poll_step :: "poll_event \<Rightarrow> poller \<Rightarrow> poller \<times> poll_log list" where
  "poll_step (Start inst) p = (let (p, cs) = start_polling inst p in (p, map Called cs))"
| "poll_step (Reply inst req) p = (let (p, ok) = poll_reply inst req p in (p, if ok then [Accepted inst req] else []))"
| "poll_step (Forget inst) p = (forget inst p, [])"
| "poll_step (Fire h) p = (let (p, cs) = fire h p in (p, map Called cs))"

fun poll_run :: "poll_event list \<Rightarrow> poller \<times> poll_log list \<Rightarrow> poller \<times> poll_log list" where
  "poll_run [] s = s"
| "poll_run (e # es) s = (let (p, l) = poll_step e (fst s) in poll_run es (p, snd s @ l))"

section \<open>Replies answer polls\<close>

definition sent :: "poll_log list \<Rightarrow> (jsstr \<times> jsstr) list" where
  "sent l = concat (map (\<lambda>x. case x of Called (SendPoll i r f) \<Rightarrow> [(i, r)] | _ \<Rightarrow> []) l)"

definition accepted :: "poll_log list \<Rightarrow> (jsstr \<times> jsstr) list" where
  "accepted l = concat (map (\<lambda>x. case x of Accepted i r \<Rightarrow> [(i, r)] | _ \<Rightarrow> []) l)"

lemma log_simps [simp]:
  "sent [] = []" "sent (xs @ ys) = sent xs @ sent ys" "accepted [] = []" "accepted (xs @ ys) = accepted xs @ accepted ys"
  "sent [Called (SendPoll i r f)] = [(i, r)]" "sent [Called (OnStale i)] = []" "sent [Called (OnEvict i)] = []"
  "sent [Accepted i r] = []" "accepted [Called c] = []" "accepted [Accepted i r] = [(i, r)]"
  "sent (Called (OnStale i) # l) = sent l" "accepted (Called c # l) = accepted l"
  by (simp_all add: sent_def accepted_def)

text \<open>An open request was sent and has not been answered; request numbers only grow.\<close>

definition run_inv :: "poller \<times> poll_log list \<Rightarrow> bool" where
  "run_inv s \<longleftrightarrow> (case s of (p, l) \<Rightarrow>
     distinct (map snd (sent l)) \<and> distinct (accepted l) \<and> set (accepted l) \<subseteq> set (sent l) \<and>
     (\<forall>x \<in> set (sent l). \<exists>k \<le> po_seq p. snd x = js ''poll_'' @ decimal k) \<and>
     (\<forall>i e r. jm_get (po_entries p) i = Some e \<longrightarrow> pe_outstanding e = Some r \<longrightarrow>
        (i, r) \<in> set (sent l) \<and> (i, r) \<notin> set (accepted l)))"

lemma run_inv_frame:
  assumes "run_inv (p, l)" "po_seq q = po_seq p"
    and "\<And>i e r. jm_get (po_entries q) i = Some e \<Longrightarrow> pe_outstanding e = Some r \<Longrightarrow>
      \<exists>e'. jm_get (po_entries p) i = Some e' \<and> pe_outstanding e' = Some r"
    and "sent m = []" "accepted m = []"
  shows "run_inv (q, l @ m)"
  using assms unfolding run_inv_def prod.case by (simp, blast)

lemma schedule_inv: "run_inv (p, l) \<Longrightarrow> run_inv (schedule i p, l)"
proof (cases "jm_get (po_entries p) i")
  case (Some e)
  assume "run_inv (p, l)"
  then have "run_inv (schedule i p, l @ [])"
    by (rule run_inv_frame) (use Some in \<open>auto simp: schedule_def jm_get_set split: if_splits\<close>)
  then show ?thesis by simp
qed (simp add: schedule_def)

lemma poll_inv:
  assumes "run_inv (p, l)"
  shows "run_inv (fst (poll i p), l @ map Called (snd (poll i p)))"
proof (cases "jm_get (po_entries p) i")
  case None
  with assms show ?thesis by (simp add: poll_def)
next
  case (Some e)
  let ?r = "js ''poll_'' @ decimal (po_seq p + 1)"
  have new: "?r \<notin> set (map snd (sent l))"
    using assms by (auto simp: run_inv_def)
  then have acc: "(j, ?r) \<notin> set (accepted l)" for j
    using assms by (force simp: run_inv_def)
  have out: "jm_get (po_entries (fst (poll i p))) j = Some e' \<Longrightarrow> pe_outstanding e' = Some r \<Longrightarrow>
      j = i \<and> r = ?r \<or> (\<exists>e''. jm_get (po_entries p) j = Some e'' \<and> pe_outstanding e'' = Some r)" for j e' r
    using Some by (auto simp: poll_def Let_def jm_get_set split: if_splits)
  have calls: "sent (map Called (snd (poll i p))) = [(i, ?r)]" "accepted (map Called (snd (poll i p))) = []"
    "po_seq (fst (poll i p)) = po_seq p + 1"
    using Some by (simp_all add: poll_def Let_def)
  from assms new acc show ?thesis
    unfolding run_inv_def prod.case log_simps calls
    by (auto dest!: out intro: le_SucI)
qed

lemma poll_then_schedule_inv:
  "run_inv (p, l) \<Longrightarrow> run_inv (schedule i (fst (poll i p)), l @ map Called (snd (poll i p)))"
  by (rule schedule_inv) (rule poll_inv)

lemma tick_inv:
  assumes "run_inv (p, l)"
  shows "run_inv (fst (tick i p), l @ map Called (snd (tick i p)))"
proof (cases "jm_get (po_entries p) i")
  case None
  with assms show ?thesis by (simp add: tick_def)
next
  case (Some e)
  show ?thesis
  proof (cases "pe_outstanding e = None")
    case True
    with Some poll_then_schedule_inv [OF assms, of i] show ?thesis by (simp add: tick_def case_prod_unfold Let_def)
  next
    case False
    let ?p = "p\<lparr>po_entries := jm_set (po_entries p) i (e\<lparr>pe_missed := pe_missed e + 1\<rparr>)\<rparr>"
    have m: "run_inv (?p, l @ cs)" if "sent cs = []" "accepted cs = []" for cs
      by (rule run_inv_frame [OF assms]) (use Some that in \<open>auto simp: jm_get_set split: if_splits\<close>)
    from m [of "[]"] have "run_inv (?p, l)" by simp
    then have "run_inv (schedule i ?p, l)" by (rule schedule_inv)
    with False Some schedule_inv [OF m [of "[Called (OnStale i)]"], of i] m [of "[Called (OnEvict i)]"]
    show ?thesis by (auto simp: tick_def Let_def)
  qed
qed

lemma poll_step_inv:
  assumes "run_inv (p, l)"
  shows "run_inv (fst (poll_step ev p), l @ snd (poll_step ev p))"
proof (cases ev)
  case (Start i)
  let ?p = "p\<lparr>po_entries := jm_set (po_entries p) i
                 \<lparr>pe_timer = None, pe_outstanding = None, pe_missed = 0, pe_count = 0\<rparr>\<rparr>"
  have "run_inv (?p, l @ [])"
    by (rule run_inv_frame [OF assms]) (auto simp: jm_get_set split: if_splits)
  then have "run_inv (?p, l)" by simp
  from poll_then_schedule_inv [OF this, of i] Start show ?thesis
    by (simp add: start_polling_def case_prod_unfold Let_def)
next
  case (Reply i r)
  show ?thesis
  proof (cases "snd (poll_reply i r p)")
    case False
    with assms Reply show ?thesis by (auto simp: poll_reply_def split: option.splits if_splits)
  next
    case True
    then obtain e where e: "jm_get (po_entries p) i = Some e" "pe_outstanding e = Some r"
      by (auto simp: poll_reply_def split: option.splits if_splits)
    from True e have st: "poll_step ev p = (p\<lparr>po_entries := jm_set (po_entries p) i (e\<lparr>pe_outstanding := None, pe_missed := 0\<rparr>)\<rparr>, [Accepted i r])"
      by (simp add: Reply poll_reply_def)
    have opn: "(i, r) \<in> set (sent l)" "(i, r) \<notin> set (accepted l)"
      using assms e unfolding run_inv_def by auto
    from assms opn show ?thesis
      unfolding st run_inv_def fst_conv snd_conv prod.case log_simps
      by (auto simp: jm_get_set split: if_splits)
  qed
next
  case (Forget i)
  have "run_inv (forget i p, l @ [])"
    by (rule run_inv_frame [OF assms])
      (auto simp: forget_def jm_get_delete split: option.splits if_splits)
  with Forget show ?thesis by simp
next
  case (Fire h)
  show ?thesis
  proof (cases "jm_get (po_timers p) h")
    case None
    with Fire assms show ?thesis by (simp add: fire_def)
  next
    case (Some i)
    have "run_inv (p\<lparr>po_timers := jm_delete (po_timers p) h\<rparr>, l @ [])"
      by (rule run_inv_frame [OF assms]) auto
    then have "run_inv (p\<lparr>po_timers := jm_delete (po_timers p) h\<rparr>, l)" by simp
    from tick_inv [OF this, of i] Fire Some show ?thesis by (simp add: fire_def case_prod_unfold Let_def)
  qed
qed

lemma poll_run_inv: "run_inv s \<Longrightarrow> run_inv (poll_run es s)"
proof (induction es arbitrary: s)
  case (Cons e es)
  obtain p l where "s = (p, l)" by (cases s)
  with Cons poll_step_inv [of p l e] show ?case by (simp add: case_prod_unfold Let_def)
qed simp

text \<open>
  C30: replies answer polls. Over any sequence of starts, replies, teardowns and timer firings,
  request ids are never reused, every accepted reply answers a poll that was sent to that
  instance, and no poll is answered twice: a duplicate, late or invented reply is refused.
\<close>

theorem replies_answer_polls:
  "distinct (map snd (sent (snd (poll_run es (new_poller, []))))) \<and>
   distinct (accepted (snd (poll_run es (new_poller, [])))) \<and>
   set (accepted (snd (poll_run es (new_poller, [])))) \<subseteq> set (sent (snd (poll_run es (new_poller, []))))"
proof -
  have "run_inv (new_poller, [])" by (simp add: run_inv_def new_poller_def)
  from poll_run_inv [OF this, of es] show ?thesis by (auto simp: run_inv_def split: prod.splits)
qed

section \<open>Liveness\<close>

text \<open>An instance with an open poll and its tick armed; \<open>own_tick\<close> lets its timer fire.\<close>

definition awaiting :: "jsstr \<Rightarrow> jsstr \<Rightarrow> nat \<Rightarrow> poller \<Rightarrow> bool" where
  "awaiting i r m p \<longleftrightarrow> (\<exists>e h. jm_get (po_entries p) i = Some e \<and> pe_outstanding e = Some r \<and> pe_missed e = m \<and>
     pe_timer e = Some h \<and> jm_get (po_timers p) h = Some i)"

definition own_tick :: "jsstr \<Rightarrow> poller \<Rightarrow> poller \<times> poll_call list" where
  "own_tick i p = (case jm_get (po_entries p) i of
     Some e \<Rightarrow> (case pe_timer e of Some h \<Rightarrow> fire h p | None \<Rightarrow> (p, [])) | None \<Rightarrow> (p, []))"

lemma schedule_get:
  "jm_get (po_entries p) i = Some e \<Longrightarrow>
   jm_get (po_entries (schedule i p)) i = Some (e\<lparr>pe_timer := Some (po_next p)\<rparr>) \<and>
   jm_get (po_timers (schedule i p)) (po_next p) = Some i"
  by (simp add: schedule_def jm_get_set)

lemma start_awaits: "\<exists>r. snd (start_polling i p) = [SendPoll i r True] \<and> awaiting i r 0 (fst (start_polling i p))"
  by (simp add: start_polling_def poll_def schedule_def awaiting_def jm_get_set Let_def force_full_every_polls_def)

lemma awaiting_tick:
  assumes "awaiting i r m p"
  shows "snd (own_tick i p) = (if m + 1 = 2 then [OnStale i] else []) @ (if m + 1 \<ge> 3 then [OnEvict i] else [])"
    "m + 1 < 3 \<Longrightarrow> awaiting i r (m + 1) (fst (own_tick i p))"
proof -
  obtain e h where e: "jm_get (po_entries p) i = Some e" "pe_outstanding e = Some r" "pe_missed e = m"
    "pe_timer e = Some h" "jm_get (po_timers p) h = Some i"
    using assms by (auto simp: awaiting_def)
  then show "snd (own_tick i p) = (if m + 1 = 2 then [OnStale i] else []) @ (if m + 1 \<ge> 3 then [OnEvict i] else [])"
    by (simp add: own_tick_def fire_def tick_def Let_def)
  assume "m + 1 < 3"
  with e show "awaiting i r (m + 1) (fst (own_tick i p))"
    by (simp add: own_tick_def fire_def tick_def Let_def schedule_def awaiting_def jm_get_set)
qed

lemma awaiting_reply:
  assumes "awaiting i r m p"
  shows "snd (poll_reply i r p)"
    "\<exists>r'. (\<exists>full. snd (own_tick i (fst (poll_reply i r p))) = [SendPoll i r' full]) \<and>
       awaiting i r' 0 (fst (own_tick i (fst (poll_reply i r p))))"
proof -
  obtain e h where e: "jm_get (po_entries p) i = Some e" "pe_outstanding e = Some r" "pe_missed e = m"
    "pe_timer e = Some h" "jm_get (po_timers p) h = Some i"
    using assms by (auto simp: awaiting_def)
  then show "snd (poll_reply i r p)" by (simp add: poll_reply_def)
  from e show "\<exists>r'. (\<exists>full. snd (own_tick i (fst (poll_reply i r p))) = [SendPoll i r' full]) \<and>
       awaiting i r' 0 (fst (own_tick i (fst (poll_reply i r p))))"
    by (simp add: poll_reply_def own_tick_def fire_def tick_def poll_def schedule_def awaiting_def jm_get_set Let_def)
qed

text \<open>
  C31: silence is noticed, slowness forgiven. A new connection is polled at once, for a full
  report. If the open poll stays unanswered, the second interval marks the instance stale and the
  third evicts it, neither earlier nor later. If the reply comes at any point before that, it is
  accepted, and the next interval sends a new poll with no missed replies counted.
\<close>

theorem silent_agent_evicted:
  "(\<exists>r. snd (start_polling i p) = [SendPoll i r True] \<and> awaiting i r 0 (fst (start_polling i p))) \<and>
   (awaiting i r 0 q \<longrightarrow>
     (let q1 = fst (own_tick i q); q2 = fst (own_tick i q1)
      in snd (own_tick i q) = [] \<and> snd (own_tick i q1) = [OnStale i] \<and> snd (own_tick i q2) = [OnEvict i] \<and>
         (\<forall>s \<in> {q, q1, q2}. snd (poll_reply i r s) \<and>
            (\<exists>r' full. snd (own_tick i (fst (poll_reply i r s))) = [SendPoll i r' full] \<and>
               awaiting i r' 0 (fst (own_tick i (fst (poll_reply i r s))))))))"
proof (rule conjI [OF start_awaits], rule impI)
  assume a0: "awaiting i r 0 q"
  have a1: "awaiting i r 1 (fst (own_tick i q))" using awaiting_tick(2) [OF a0] by simp
  have a2: "awaiting i r 2 (fst (own_tick i (fst (own_tick i q))))" using awaiting_tick(2) [OF a1] by (simp add: numeral_2_eq_2)
  have rep: "snd (poll_reply i r s) \<and> (\<exists>r' full. snd (own_tick i (fst (poll_reply i r s))) = [SendPoll i r' full] \<and>
               awaiting i r' 0 (fst (own_tick i (fst (poll_reply i r s)))))" if "awaiting i r m s" for m s
    using awaiting_reply [OF that] by blast
  show "let q1 = fst (own_tick i q); q2 = fst (own_tick i q1)
      in snd (own_tick i q) = [] \<and> snd (own_tick i q1) = [OnStale i] \<and> snd (own_tick i q2) = [OnEvict i] \<and>
         (\<forall>s \<in> {q, q1, q2}. snd (poll_reply i r s) \<and>
            (\<exists>r' full. snd (own_tick i (fst (poll_reply i r s))) = [SendPoll i r' full] \<and>
               awaiting i r' 0 (fst (own_tick i (fst (poll_reply i r s))))))"
    using awaiting_tick(1) [OF a0] awaiting_tick(1) [OF a1] awaiting_tick(1) [OF a2] rep [OF a0] rep [OF a1] rep [OF a2]
    by (simp add: Let_def)
qed

theorem silent_agent_evicted_witness:
  "let q = fst (start_polling [1] new_poller); q1 = fst (own_tick [1] q); q2 = fst (own_tick [1] q1)
   in snd (own_tick [1] q1) = [OnStale [1]] \<and> snd (own_tick [1] q2) = [OnEvict [1]]"
proof -
  obtain r where "awaiting [1] r 0 (fst (start_polling [1] new_poller))"
    using silent_agent_evicted [of "[1]" new_poller] by blast
  with silent_agent_evicted [of "[1]" new_poller r "fst (start_polling [1] new_poller)"] show ?thesis
    by (simp add: Let_def)
qed

end
