(* ===== verification/Fleet_Events.thy ===== *)
theory Fleet_Events
  imports Fleet_State_Inv
begin

text \<open>
  Fleet events (\<open>fleet/src/orchestrator/EventReconciler.ts\<close>): the diff between what was last
  announced and the read model. Listeners are application code; \<open>emit\<close> appends to the list of
  events an operation returns. \<open>observe\<close> is the specification: a subscriber that keeps the
  instances and rooms it was told about, and fails on an event that contradicts them.
\<close>

declare map_of_eq_Some_iff [simp del] Some_eq_map_of_iff [simp del]

section \<open>State and operations\<close>

datatype fleet_event =
    InstanceJoin instance_info
  | InstanceLeave instance_info
  | InstanceStale instance_info
  | RoomCreate room_info
  | RoomDestroy room_info
  | Sync fleet_stats

record reconciler =
  ec_instances :: "jsstr set"
  ec_rooms :: "(jsstr, room_info) jsmap"
  ec_hash :: jsstr

definition new_reconciler :: reconciler where
  "new_reconciler = \<lparr>ec_instances = {}, ec_rooms = [], ec_hash = []\<rparr>"

text \<open>The loop over the current instances and, inside, over their rooms.\<close>

definition announce_room :: "room_info \<Rightarrow> reconciler \<times> fleet_event list \<Rightarrow> reconciler \<times> fleet_event list" where
  "announce_room r acc = (case acc of (c, l) \<Rightarrow>
     if \<not> jm_has (ec_rooms c) (ri_id r)
     then (c\<lparr>ec_rooms := jm_set (ec_rooms c) (ri_id r) r\<rparr>, l @ [RoomCreate r]) else (c, l))"

definition announce_instance :: "instance_info \<Rightarrow> reconciler \<times> fleet_event list \<Rightarrow> reconciler \<times> fleet_event list" where
  "announce_instance i acc = (case acc of (c, l) \<Rightarrow>
     fold announce_room (ii_rooms i)
       (if ii_id i \<notin> ec_instances c
        then (c\<lparr>ec_instances := insert (ii_id i) (ec_instances c)\<rparr>, l @ [InstanceJoin i]) else (c, l)))"

definition retract_room :: "jsstr set \<Rightarrow> jsstr \<times> room_info \<Rightarrow> reconciler \<times> fleet_event list \<Rightarrow> reconciler \<times> fleet_event list" where
  "retract_room current kr acc = (case (kr, acc) of ((k, r), (c, l)) \<Rightarrow>
     if k \<notin> current then (c\<lparr>ec_rooms := jm_delete (ec_rooms c) k\<rparr>, l @ [RoomDestroy r]) else (c, l))"

definition reconcile :: "instance_info list \<Rightarrow> fleet_stats \<Rightarrow> reconciler \<Rightarrow> reconciler \<times> fleet_event list" where
  "reconcile insts stats c =
     (let (c, l) = fold announce_instance insts (c, []);
          rooms = set (map ri_id (concat (map ii_rooms insts)));
          (c, l) = fold (retract_room rooms) (ec_rooms c) (c, l);
          c = c\<lparr>ec_instances := ec_instances c \<inter> set (map ii_id insts)\<rparr>
      in if st_hash stats \<noteq> ec_hash c then (c\<lparr>ec_hash := st_hash stats\<rparr>, l @ [Sync stats]) else (c, l))"

definition instance_removed :: "instance_info \<Rightarrow> reconciler \<Rightarrow> reconciler \<times> fleet_event list" where
  "instance_removed i c = (c\<lparr>ec_instances := ec_instances c - {ii_id i}\<rparr>, [InstanceLeave i])"

section \<open>The subscriber\<close>

type_synonym observer = "jsstr set \<times> jsstr set"

fun observe1 :: "observer \<Rightarrow> fleet_event \<Rightarrow> observer option" where
  "observe1 (ii, rs) (InstanceJoin i) = (if ii_id i \<in> ii then None else Some (insert (ii_id i) ii, rs))"
| "observe1 (ii, rs) (InstanceLeave i) = (if ii_id i \<in> ii then Some (ii - {ii_id i}, rs) else None)"
| "observe1 (ii, rs) (InstanceStale i) = (if ii_id i \<in> ii then Some (ii, rs) else None)"
| "observe1 (ii, rs) (RoomCreate r) = (if ri_id r \<in> rs then None else Some (ii, insert (ri_id r) rs))"
| "observe1 (ii, rs) (RoomDestroy r) = (if ri_id r \<in> rs then Some (ii, rs - {ri_id r}) else None)"
| "observe1 (ii, rs) (Sync st) = Some (ii, rs)"

fun observe :: "observer \<Rightarrow> fleet_event list \<Rightarrow> observer option" where
  "observe s [] = Some s"
| "observe s (e # es) = (case observe1 s e of None \<Rightarrow> None | Some s \<Rightarrow> observe s es)"

lemma observe_append:
  "observe s (es @ fs) = (case observe s es of None \<Rightarrow> None | Some t \<Rightarrow> observe t fs)"
  by (induction es arbitrary: s) (simp_all split: option.split)

text \<open>What the reconciler has announced.\<close>

definition announced :: "reconciler \<Rightarrow> observer" where
  "announced c = (ec_instances c, set (jm_keys (ec_rooms c)))"

definition rec_ok :: "reconciler \<Rightarrow> bool" where
  "rec_ok c \<longleftrightarrow> jm_ok (ec_rooms c) \<and> (\<forall>k r. jm_get (ec_rooms c) k = Some r \<longrightarrow> ri_id r = k)"

text \<open>An accumulator that an observer of \<open>s\<close> can follow.\<close>

definition follows :: "observer \<Rightarrow> reconciler \<times> fleet_event list \<Rightarrow> bool" where
  "follows s acc \<longleftrightarrow> rec_ok (fst acc) \<and> observe s (snd acc) = Some (announced (fst acc))"

lemma follows_start: "rec_ok c \<Longrightarrow> follows (announced c) (c, [])"
  by (simp add: follows_def)

lemma announce_room_follows:
  assumes "follows s acc"
  shows "follows s (announce_room r acc)"
    "announced (fst (announce_room r acc)) = (ec_instances (fst acc), insert (ri_id r) (set (jm_keys (ec_rooms (fst acc)))))"
    "ec_hash (fst (announce_room r acc)) = ec_hash (fst acc)"
proof -
  obtain c l where acc: "acc = (c, l)" by (cases acc)
  have keys: "set (jm_keys (jm_set (ec_rooms c) (ri_id r) r)) = insert (ri_id r) (set (jm_keys (ec_rooms c)))"
    by (rule jm_set_eq_keys)
  show "follows s (announce_room r acc)"
  proof (cases "jm_has (ec_rooms c) (ri_id r)")
    case False
    then have "ri_id r \<notin> set (jm_keys (ec_rooms c))" by (simp add: jm_has_iff_keys)
    with assms acc False keys show ?thesis
      by (auto simp: follows_def announce_room_def observe_append announced_def rec_ok_def jm_get_set
          simp del: set_map split: if_splits)
  qed (use assms acc in \<open>simp add: announce_room_def\<close>)
  show "announced (fst (announce_room r acc)) =
      (ec_instances (fst acc), insert (ri_id r) (set (jm_keys (ec_rooms (fst acc)))))"
    using acc keys by (auto simp: announce_room_def announced_def jm_has_iff_keys simp del: set_map)
  show "ec_hash (fst (announce_room r acc)) = ec_hash (fst acc)"
    using acc by (simp add: announce_room_def)
qed

lemma announce_rooms_follow:
  assumes "follows s acc"
  shows "follows s (fold announce_room rs acc) \<and>
    announced (fst (fold announce_room rs acc)) =
      (ec_instances (fst acc), set (map ri_id rs) \<union> set (jm_keys (ec_rooms (fst acc)))) \<and>
    ec_hash (fst (fold announce_room rs acc)) = ec_hash (fst acc)"
  using assms
proof (induction rs arbitrary: acc)
  case (Cons r rs)
  note a = announce_room_follows [OF Cons.prems, of r]
  from Cons.IH [OF a(1)] a(2,3) show ?case by (auto simp: announced_def)
qed (simp add: announced_def)

lemma announce_instance_follows:
  assumes "follows s acc"
  shows "follows s (announce_instance i acc)"
    "announced (fst (announce_instance i acc)) =
      (insert (ii_id i) (ec_instances (fst acc)), set (map ri_id (ii_rooms i)) \<union> set (jm_keys (ec_rooms (fst acc))))"
    "ec_hash (fst (announce_instance i acc)) = ec_hash (fst acc)"
proof -
  obtain c l where acc: "acc = (c, l)" by (cases acc)
  let ?a = "if ii_id i \<notin> ec_instances c
        then (c\<lparr>ec_instances := insert (ii_id i) (ec_instances c)\<rparr>, l @ [InstanceJoin i]) else (c, l)"
  have "follows s ?a"
    using assms acc by (auto simp: follows_def observe_append announced_def rec_ok_def)
  from announce_rooms_follow [OF this, of "ii_rooms i"] acc show
    "follows s (announce_instance i acc)"
    "announced (fst (announce_instance i acc)) =
      (insert (ii_id i) (ec_instances (fst acc)), set (map ri_id (ii_rooms i)) \<union> set (jm_keys (ec_rooms (fst acc))))"
    "ec_hash (fst (announce_instance i acc)) = ec_hash (fst acc)"
    by (auto simp: announce_instance_def insert_absorb)
qed

lemma announce_instances_follow:
  assumes "follows s acc"
  shows "follows s (fold announce_instance insts acc) \<and>
    announced (fst (fold announce_instance insts acc)) =
      (set (map ii_id insts) \<union> ec_instances (fst acc),
       set (map ri_id (concat (map ii_rooms insts))) \<union> set (jm_keys (ec_rooms (fst acc)))) \<and>
    ec_hash (fst (fold announce_instance insts acc)) = ec_hash (fst acc)"
  using assms
proof (induction insts arbitrary: acc)
  case (Cons i insts)
  note a = announce_instance_follows [OF Cons.prems, of i]
  from Cons.IH [OF a(1)] a(2,3) show ?case by (auto simp: announced_def)
qed (simp add: announced_def)

text \<open>Retracting: the loop runs over the rooms known when it starts.\<close>

lemma retract_rooms_follow:
  assumes "follows s acc" "distinct (map fst krs)" "\<And>k r. (k, r) \<in> set krs \<Longrightarrow> jm_get (ec_rooms (fst acc)) k = Some r"
  shows "follows s (fold (retract_room cur) krs acc) \<and>
    ec_instances (fst (fold (retract_room cur) krs acc)) = ec_instances (fst acc) \<and>
    set (jm_keys (ec_rooms (fst (fold (retract_room cur) krs acc)))) =
      set (jm_keys (ec_rooms (fst acc))) - (fst ` set krs - cur) \<and>
    ec_hash (fst (fold (retract_room cur) krs acc)) = ec_hash (fst acc)"
  using assms
proof (induction krs arbitrary: acc)
  case (Cons kr krs)
  obtain k r c l where kr: "kr = (k, r)" and acc: "acc = (c, l)" by (cases kr, cases acc)
  let ?a = "retract_room cur kr acc"
  have get: "jm_get (ec_rooms c) k = Some r" using Cons.prems(3) kr acc by simp
  then have id: "ri_id r = k" and mem: "k \<in> set (jm_keys (ec_rooms c))"
    using Cons.prems(1) acc by (auto simp: follows_def rec_ok_def jm_has_iff_keys [symmetric] jm_has_def simp del: set_map)
  have keys: "set (jm_keys (jm_delete (ec_rooms c) k)) = set (jm_keys (ec_rooms c)) - {k}"
    by (auto simp: jm_delete_keys)
  have f: "follows s ?a"
    using Cons.prems(1) kr acc id mem keys
    by (auto simp: follows_def retract_room_def observe_append announced_def rec_ok_def jm_get_delete
        simp del: set_map split: if_splits)
  have g: "jm_get (ec_rooms (fst ?a)) k' = Some r'" if "(k', r') \<in> set krs" for k' r'
  proof -
    have "k' \<noteq> k" using Cons.prems(2) kr that by force
    with that Cons.prems(3) [of k' r'] kr acc show ?thesis by (simp add: retract_room_def jm_get_delete)
  qed
  have ks: "set (jm_keys (ec_rooms (fst ?a))) = set (jm_keys (ec_rooms c)) - ({k} - cur)"
    "ec_instances (fst ?a) = ec_instances c" "ec_hash (fst ?a) = ec_hash c"
    using kr acc keys by (auto simp: retract_room_def simp del: set_map)
  from Cons.IH [OF f _ g] Cons.prems(2) ks kr acc show ?case by (auto simp del: set_map)
qed simp

definition view_of :: "instance_info list \<Rightarrow> observer" where
  "view_of insts = (set (map ii_id insts), set (map ri_id (concat (map ii_rooms insts))))"

lemma reconcile_follows:
  assumes ok: "rec_ok c" and known: "ec_instances c \<subseteq> set (map ii_id insts)"
  shows "rec_ok (fst (reconcile insts stats c))"
    "observe (announced c) (snd (reconcile insts stats c)) = Some (view_of insts)"
    "announced (fst (reconcile insts stats c)) = view_of insts"
    "ec_hash (fst (reconcile insts stats c)) = st_hash stats"
proof -
  let ?s = "announced c"
  obtain c1 l1 where 1: "fold announce_instance insts (c, []) = (c1, l1)" by (cases "fold announce_instance insts (c, [])")
  note a = announce_instances_follow [OF follows_start [OF ok], of insts, unfolded 1, simplified]
  let ?cur = "set (map ri_id (concat (map ii_rooms insts)))"
  obtain c2 l2 where 2: "fold (retract_room ?cur) (ec_rooms c1) (c1, l1) = (c2, l2)"
    by (cases "fold (retract_room ?cur) (ec_rooms c1) (c1, l1)")
  have f1: "follows ?s (c1, l1)" using a by blast
  have ok1: "jm_ok (ec_rooms c1)" using f1 by (simp add: follows_def rec_ok_def)
  have "(k, r) \<in> set (ec_rooms c1) \<Longrightarrow> jm_get (ec_rooms (fst (c1, l1))) k = Some r" for k r
    using ok1 by (simp add: map_of_is_SomeI)
  note b = retract_rooms_follow [OF f1 ok1 this, of ?cur, unfolded 2]
  have f2: "follows ?s (c2, l2)" using b by blast
  have i2: "ec_instances c2 = set (map ii_id insts)"
    using a b known by (auto simp: announced_def)
  have r2: "set (jm_keys (ec_rooms c2)) = ?cur"
  proof -
    have "set (jm_keys (ec_rooms c1)) = ?cur \<union> set (jm_keys (ec_rooms c))"
      using a by (simp add: announced_def)
    moreover have "set (jm_keys (ec_rooms c2)) = set (jm_keys (ec_rooms c1)) - (fst ` set (ec_rooms c1) - ?cur)"
      using b by simp
    ultimately show ?thesis by auto
  qed
  let ?c3 = "c2\<lparr>ec_instances := ec_instances c2 \<inter> set (map ii_id insts)\<rparr>"
  have c3: "?c3 = c2" using i2 by simp
  have v: "announced c2 = view_of insts" using i2 r2 by (simp add: announced_def view_of_def)
  have eq: "reconcile insts stats c =
      (if st_hash stats \<noteq> ec_hash c2 then (c2\<lparr>ec_hash := st_hash stats\<rparr>, l2 @ [Sync stats]) else (c2, l2))"
    unfolding reconcile_def 1 prod.case Let_def 2 c3 by simp
  obtain a b where ab: "view_of insts = (a, b)" by (cases "view_of insts")
  show "rec_ok (fst (reconcile insts stats c))" "observe ?s (snd (reconcile insts stats c)) = Some (view_of insts)"
    "announced (fst (reconcile insts stats c)) = view_of insts" "ec_hash (fst (reconcile insts stats c)) = st_hash stats"
    using f2 v ab by (auto simp: eq follows_def rec_ok_def announced_def observe_append)
qed

lemma instance_removed_follows:
  assumes "rec_ok c" "ii_id i \<in> ec_instances c"
  shows "rec_ok (fst (instance_removed i c))"
    "observe (announced c) (snd (instance_removed i c)) = Some (announced (fst (instance_removed i c)))"
    "announced (fst (instance_removed i c)) = (ec_instances c - {ii_id i}, set (jm_keys (ec_rooms c)))"
  using assms by (simp_all add: instance_removed_def rec_ok_def announced_def)

end
