(* ===== verification/Fleet_Orchestrator.thy ===== *)
theory Fleet_Orchestrator
  imports Fleet_Commands_Inv Fleet_Poller Fleet_Events Fleet_Snapshot
begin

text \<open>
  The orchestrator (\<open>fleet/src/orchestrator/Orchestrator.ts\<close>) and its control surface
  (\<open>FleetControl.ts\<close>): the read model, the command engine, the poll scheduler and the event
  reconciler, wired as the constructor wires them. A handler runs to completion; the promises it
  settles are observed later, by \<open>resume\<close>, when their continuations run.

  Event listeners are application code that does not call back into the orchestrator while they
  run. \<open>throws\<close> says whether \<open>link.send\<close> throws; \<open>guard\<close> contains that. What the
  environment supplies is in \<open>orch_env\<close>: the digest, the wire decoder, regular expressions and the
  URL parser.
\<close>

declare map_of_eq_Some_iff [simp del] Some_eq_map_of_iff [simp del]

section \<open>State\<close>

record 'e orch_env =
  ev_digest :: "jsstr \<Rightarrow> jsstr"
  ev_dec :: "jsstr \<Rightarrow> bytes \<Rightarrow> 'e + jsval"
  ev_unset :: "jsstr \<Rightarrow> jsstr \<Rightarrow> jsval"
  ev_re_test :: "jsstr \<Rightarrow> jsstr \<Rightarrow> bool"
  ev_url :: "jsstr \<Rightarrow> jsstr option"
  ev_heartbeat :: int

text \<open>What an async function does after its \<open>await\<close>.\<close>

datatype continuation = ThenRoom room_info | ThenNothing | ThenStatus jsstr jsstr

record orch =
  oc_engine :: "fleet engine"
  oc_poller :: poller
  oc_rec :: reconciler
  oc_links :: "(jsstr, unit) jsmap"
  oc_waiting :: "(jsstr, continuation) jsmap"
  oc_results :: "(jsstr \<times> (fleet_error + room_info option)) list"
  oc_events :: "fleet_event list"
  oc_frames :: "(jsstr \<times> fleet_frame) list"
  oc_closed :: "jsstr list"

abbreviation fleet_of :: "orch \<Rightarrow> fleet" where
  "fleet_of w \<equiv> en_rel (oc_engine w)"

definition with_fleet :: "fleet \<Rightarrow> orch \<Rightarrow> orch" where
  "with_fleet s w = w\<lparr>oc_engine := (oc_engine w)\<lparr>en_rel := s\<rparr>\<rparr>"

definition new_orch :: orch where
  "new_orch = \<lparr>oc_engine = new_engine new_fleet, oc_poller = new_poller, oc_rec = new_reconciler,
     oc_links = [], oc_waiting = [], oc_results = [], oc_events = [], oc_frames = [], oc_closed = []\<rparr>"

section \<open>Teardown and enforcement\<close>

definition emit_events :: "fleet_event list \<Rightarrow> orch \<Rightarrow> orch" where
  "emit_events es w = w\<lparr>oc_events := oc_events w @ es\<rparr>"

definition run_reconcile :: "'e orch_env \<Rightarrow> orch \<Rightarrow> orch" where
  "run_reconcile ev w =
     (let (insts, s) = fleet_instances (fleet_of w);
          (stats, s) = fleet_stats_of (ev_digest ev) s;
          (c, es) = reconcile insts stats (oc_rec w)
      in emit_events es ((with_fleet s w)\<lparr>oc_rec := c\<rparr>))"

definition teardown_instance :: "'e orch_env \<Rightarrow> jsstr \<Rightarrow> orch \<Rightarrow> orch" where
  "teardown_instance ev inst w =
     (if \<not> jm_has (oc_links w) inst \<and> \<not> poller_has inst (oc_poller w) then w
      else
        let w = w\<lparr>oc_links := jm_delete (oc_links w) inst\<rparr>;
            w = w\<lparr>oc_poller := forget inst (oc_poller w)\<rparr>;
            w = w\<lparr>oc_engine := reject_all fleet_releaser inst (oc_engine w)\<rparr>;
            (s, removed) = remove_instance inst (fleet_of w);
            w = with_fleet s w;
            w = (case removed of None \<Rightarrow> w
                 | Some i \<Rightarrow> let (c, es) = instance_removed i (oc_rec w) in emit_events es (w\<lparr>oc_rec := c\<rparr>))
        in run_reconcile ev w)"

definition close_link :: "bool \<Rightarrow> jsstr \<Rightarrow> orch \<Rightarrow> orch" where
  "close_link linked inst w = (if linked then w\<lparr>oc_closed := oc_closed w @ [inst]\<rparr> else w)"

definition orch_kick :: "'e orch_env \<Rightarrow> jsstr \<Rightarrow> orch \<Rightarrow> orch" where
  "orch_kick ev inst w = close_link (jm_has (oc_links w) inst) inst (teardown_instance ev inst w)"

section \<open>Polling\<close>

definition orch_send_poll :: "bool \<Rightarrow> jsstr \<Rightarrow> jsstr \<Rightarrow> bool \<Rightarrow> orch \<Rightarrow> orch" where
  "orch_send_poll throws inst req full w =
     (if \<not> jm_has (oc_links w) inst then w
      else
        let known = (if full then None else last_hash_of inst (fleet_of w));
            (info, s) = get_instance inst (fleet_of w);
            status = (case info of None \<Rightarrow> active | Some i \<Rightarrow> ii_status i);
            w = with_fleet s w
        in if throws then w
           else w\<lparr>oc_frames := oc_frames w @ [(inst, PollFrame \<lparr>pp_req = req, pp_known = known, pp_status = status\<rparr>)]\<rparr>)"

definition on_stale :: "jsstr \<Rightarrow> orch \<Rightarrow> orch" where
  "on_stale inst w =
     (let w = with_fleet (set_stale inst True (fleet_of w)) w;
          (info, s) = get_instance inst (fleet_of w);
          w = with_fleet s w
      in case info of None \<Rightarrow> w | Some i \<Rightarrow> emit_events [InstanceStale i] w)"

definition on_evict :: "'e orch_env \<Rightarrow> jsstr \<Rightarrow> orch \<Rightarrow> orch" where
  "on_evict ev inst w = close_link (jm_has (oc_links w) inst) inst (teardown_instance ev inst w)"

fun run_poll_call :: "'e orch_env \<Rightarrow> bool \<Rightarrow> poll_call \<Rightarrow> orch \<Rightarrow> orch" where
  "run_poll_call ev throws (SendPoll inst req full) w = orch_send_poll throws inst req full w"
| "run_poll_call ev throws (OnStale inst) w = on_stale inst w"
| "run_poll_call ev throws (OnEvict inst) w = on_evict ev inst w"

text \<open>The interval timer of the scheduler.\<close>

definition poll_timer :: "'e orch_env \<Rightarrow> bool \<Rightarrow> nat \<Rightarrow> orch \<Rightarrow> orch" where
  "poll_timer ev throws h w =
     (let (p, calls) = fire h (oc_poller w)
      in fold (run_poll_call ev throws) calls (w\<lparr>oc_poller := p\<rparr>))"

section \<open>Agents\<close>

definition handle_agent_join :: "'e orch_env \<Rightarrow> bool \<Rightarrow> bool \<Rightarrow> jsstr \<Rightarrow> orch \<Rightarrow> orch" where
  "handle_agent_join ev hello_throws poll_throws inst w =
     (let w = w\<lparr>oc_links := jm_set (oc_links w) inst ()\<rparr>
      in if hello_throws then w
         else
           let w = w\<lparr>oc_frames := oc_frames w @
                 [(inst, HelloFrame \<lparr>hp_instance = inst, hp_protocol = int protocol_version, hp_heartbeat = ev_heartbeat ev\<rparr>)]\<rparr>;
               (p, calls) = start_polling inst (oc_poller w)
           in fold (run_poll_call ev poll_throws) calls (w\<lparr>oc_poller := p\<rparr>))"

definition handle_agent_leave :: "'e orch_env \<Rightarrow> jsstr \<Rightarrow> orch \<Rightarrow> orch" where
  "handle_agent_leave ev inst w = teardown_instance ev inst w"

definition handle_state :: "'e orch_env \<Rightarrow> int \<Rightarrow> jsstr \<Rightarrow> state_payload \<Rightarrow> orch \<Rightarrow> orch" where
  "handle_state ev now inst st w =
     (let (p, answered) = poll_reply inst (sy_req st) (oc_poller w)
      in if \<not> answered then orch_kick ev inst w
         else
           let w = w\<lparr>oc_poller := p\<rparr>;
               w = with_fleet (set_stale inst False (fleet_of w)) w
           in if \<not> sy_full st then with_fleet (touch inst now (fleet_of w)) w
              else case validate_snapshot (ev_re_test ev) (ev_url ev) (sync_payload.truncate st) of
                     Some reason \<Rightarrow> w
                   | None \<Rightarrow>
                       (let (s, applied) = apply_snapshot inst (sync_payload.truncate st) now (fleet_of w);
                            w = with_fleet s w
                        in if applied then run_reconcile ev w else w))"

definition handle_ack :: "'e orch_env \<Rightarrow> jsstr \<Rightarrow> ack_payload \<Rightarrow> orch \<Rightarrow> orch" where
  "handle_ack ev inst a w =
     (let (e, known) = engine_ack fleet_releaser inst a (oc_engine w)
      in if \<not> known then orch_kick ev inst (w\<lparr>oc_engine := e\<rparr>) else w\<lparr>oc_engine := e\<rparr>)"

definition handle_agent_message :: "'e orch_env \<Rightarrow> int \<Rightarrow> jsstr \<Rightarrow> jsstr \<Rightarrow> bytes \<Rightarrow> orch \<Rightarrow> orch" where
  "handle_agent_message ev now inst topic payload w =
     (if \<not> jm_has (oc_links w) inst then w
      else if topic = topic_state then
        (case decode_frame (ev_dec ev) (ev_unset ev) topic_state payload of
           Inr (StateFrame st) \<Rightarrow> handle_state ev now inst st w | _ \<Rightarrow> w)
      else if topic = topic_ack then
        (case decode_frame (ev_dec ev) (ev_unset ev) topic_ack payload of
           Inr (AckFrame a) \<Rightarrow> handle_ack ev inst a w | _ \<Rightarrow> w)
      else orch_kick ev inst w)"

section \<open>Control surface\<close>

text \<open>A call of the control API either throws before its first \<open>await\<close> or waits for a command.\<close>

definition create_room ::
  "(nat \<Rightarrow> bytes) \<Rightarrow> real \<Rightarrow> bool \<Rightarrow> jsstr option \<Rightarrow> placement_input \<Rightarrow> orch \<Rightarrow> (fleet_error + jsstr) \<times> orch" where
  "create_room rnd pick_rnd throws wanted req w = (case reserve_room_id rnd wanted (fleet_of w) of
     (Inl e, s) \<Rightarrow> (Inl e, with_fleet s w)
   | (Inr room, s) \<Rightarrow> (case place pick_rnd req s of
       (Inl e, s) \<Rightarrow> (Inl e, with_fleet (release_room_id room s) w)
     | (Inr (i, res), s) \<Rightarrow>
         (if \<not> jm_has (oc_links w) (ii_id i)
          then (Inl InstanceDisconnected, with_fleet (release_room_id room (release res s)) w)
          else
            let (c, e) = next_cmd_id ((oc_engine w)\<lparr>en_rel := s\<rparr>);
                cmd = \<lparr>cp_id = c, cp_op = Create, cp_room = Some room, cp_type = Some (pi_type req)\<rparr>;
                e = engine_send fleet_releaser throws (ii_id i) cmd (Some res) (Some room) e;
                info = \<lparr>ri_id = room, ri_type = pi_type req, ri_connections = 0, ri_instance = ii_id i,
                        ri_url = ii_url i, ri_local = False\<rparr>
            in (Inr c, w\<lparr>oc_engine := e, oc_waiting := jm_set (oc_waiting w) c (ThenRoom info)\<rparr>))))"

text \<open>The common tail of the commands that carry no reservation.\<close>

definition send_plain ::
  "bool \<Rightarrow> jsstr \<Rightarrow> command_op \<Rightarrow> jsstr option \<Rightarrow> continuation \<Rightarrow> orch \<Rightarrow> (fleet_error + jsstr) \<times> orch" where
  "send_plain throws inst op room k w =
     (if \<not> jm_has (oc_links w) inst then (Inl InstanceDisconnected, w)
      else
        let (c, e) = next_cmd_id (oc_engine w);
            cmd = \<lparr>cp_id = c, cp_op = op, cp_room = room, cp_type = None\<rparr>
        in (Inr c, w\<lparr>oc_engine := engine_send fleet_releaser throws inst cmd None None e,
                     oc_waiting := jm_set (oc_waiting w) c k\<rparr>))"

definition destroy_room :: "bool \<Rightarrow> jsstr \<Rightarrow> orch \<Rightarrow> (fleet_error + jsstr) \<times> orch" where
  "destroy_room throws room w = (case resolve_room room (fleet_of w) of
     (None, s) \<Rightarrow> (Inl RoomNotFound, with_fleet s w)
   | (Some (inst, raw), s) \<Rightarrow> send_plain throws inst Destroy (Some raw) ThenNothing (with_fleet s w))"

definition send_status_command :: "bool \<Rightarrow> jsstr \<Rightarrow> bool \<Rightarrow> orch \<Rightarrow> (fleet_error + jsstr) \<times> orch" where
  "send_status_command throws inst drain w = (case get_instance inst (fleet_of w) of
     (None, s) \<Rightarrow> (Inl InstanceNotFound, with_fleet s w)
   | (Some _, s) \<Rightarrow> send_plain throws inst (if drain then Drain else Undrain) None
       (ThenStatus inst (if drain then draining else active)) (with_fleet s w))"

text \<open>The continuation of a settled command.\<close>

definition finish_call :: "jsstr \<Rightarrow> fleet_error + room_info option \<Rightarrow> orch \<Rightarrow> orch" where
  "finish_call c r w = w\<lparr>oc_waiting := jm_delete (oc_waiting w) c, oc_results := oc_results w @ [(c, r)]\<rparr>"

definition resume :: "jsstr \<Rightarrow> orch \<Rightarrow> orch" where
  "resume c w = (case (jm_get (oc_waiting w) c, map_of (en_outcomes (oc_engine w)) c) of
     (Some k, Some (Rejected e)) \<Rightarrow> finish_call c (Inl e) w
   | (Some k, Some (Resolved a)) \<Rightarrow> (case k of
       ThenRoom info \<Rightarrow> finish_call c (Inr (Some info)) w
     | ThenNothing \<Rightarrow> finish_call c (Inr None) w
     | ThenStatus inst st \<Rightarrow>
         finish_call c (Inr None) (with_fleet (set_pending_status inst st (fleet_of w)) w))
   | _ \<Rightarrow> w)"

definition command_timer :: "nat \<Rightarrow> orch \<Rightarrow> orch" where
  "command_timer h w = w\<lparr>oc_engine := engine_timeout fleet_releaser h (oc_engine w)\<rparr>"

text \<open>The part of \<open>shutdown\<close> that the control plane owns.\<close>

definition orch_shutdown :: "'e orch_env \<Rightarrow> orch \<Rightarrow> orch" where
  "orch_shutdown ev w = fold (teardown_instance ev) (jm_keys (oc_links w)) w"

section \<open>Runs\<close>

inductive orch_step :: "'e orch_env \<Rightarrow> orch \<Rightarrow> orch \<Rightarrow> bool" for ev where
  join: "orch_step ev w (handle_agent_join ev ht pt i w)"
| leave: "orch_step ev w (handle_agent_leave ev i w)"
| message: "orch_step ev w (handle_agent_message ev now i topic payload w)"
| poll_tick: "orch_step ev w (poll_timer ev throws h w)"
| cmd_timeout: "orch_step ev w (command_timer h w)"
| create: "orch_step ev w (snd (create_room rnd pr throws wanted req w))"
| destroy: "orch_step ev w (snd (destroy_room throws room w))"
| status: "orch_step ev w (snd (send_status_command throws i drain w))"
| microtask: "orch_step ev w (resume c w)"
| shut: "orch_step ev w (orch_shutdown ev w)"

inductive orch_reachable :: "'e orch_env \<Rightarrow> orch \<Rightarrow> bool" for ev where
  init: "orch_reachable ev new_orch"
| step: "orch_reachable ev w \<Longrightarrow> orch_step ev w w' \<Longrightarrow> orch_reachable ev w'"

inductive_cases orch_stepE: "orch_step ev w w'"

end
