(* ===== verification/Fleet_Orchestrator_Inv.thy ===== *)
theory Fleet_Orchestrator_Inv
  imports Fleet_Orchestrator
begin

text \<open>
  The invariant of the orchestrator: reservations are carried by pending commands, the tables only
  mention linked instances, every waiting call belongs to a live or settled command, and the
  events emitted so far describe the read model.
\<close>

declare map_of_eq_Some_iff [simp del] Some_eq_map_of_iff [simp del]

section \<open>What the engine leaves alone\<close>

text \<open>Any observation of the releaser that its three operations keep.\<close>

locale engine_frame =
  fixes rel :: "'r releaser" and g :: "'r \<Rightarrow> 'a"
  assumes keep_release: "g (rl_release rel r s) = g s"
    and keep_release_id: "g (rl_release_id rel room s) = g s"
    and keep_hold: "g (rl_hold rel room r s) = g s"
begin

lemma keep_release_state: "g (release_state rel res room s) = g s"
  by (simp add: release_state_def Let_def keep_release keep_release_id split: option.split)

lemma keep_hold_state: "g (hold_state rel res room s) = g s"
  by (simp add: hold_state_def keep_hold keep_release_state split: option.split)

lemma keep_ack: "g (en_rel (fst (engine_ack rel i a e))) = g (en_rel e)"
  by (simp add: engine_ack_cases settled_by_frame keep_release_state keep_hold_state split: option.split)

lemma keep_timeout: "engine_ok e \<Longrightarrow> g (en_rel (engine_timeout rel h e)) = g (en_rel e)"
  by (subst engine_timeout_cases)
    (auto simp: engine_ok_def settled_by_frame keep_hold_state split: option.split)

lemma keep_reject_one: "g (en_rel (reject_one rel i c e)) = g (en_rel e)"
  by (simp add: reject_one_cases settled_by_frame keep_release_state split: option.split)

lemma keep_reject_loop: "g (en_rel (fold (reject_one rel i) cs e)) = g (en_rel e)"
  by (induction cs arbitrary: e) (simp_all add: keep_reject_one)

lemma keep_reject_all: "g (en_rel (reject_all rel i e)) = g (en_rel e)"
  by (simp add: reject_all_loop keep_reject_loop split: option.split)

lemma keep_send: "g (en_rel (engine_send rel throws i cmd res room e)) = g (en_rel e)"
  by (simp add: engine_send_cases Let_def settled_by_frame keep_release_state entered_def)

end

interpretation records_kept: engine_frame fleet_releaser fs_records
  by unfold_locales (simp_all add: fleet_releaser_def release_frame release_room_id_def hold_cases Let_def)

section \<open>Progress of commands\<close>

text \<open>A command is known to the engine while it is pending or settled. Apart from sending, an
  engine operation only moves commands from the table to the outcomes.\<close>

definition live :: "'r engine \<Rightarrow> jsstr \<Rightarrow> bool" where
  "live e c \<longleftrightarrow> (\<exists>i. pend e i c \<noteq> None) \<or> c \<in> settled e"

definition progress :: "'r engine \<Rightarrow> 'r engine \<Rightarrow> bool" where
  "progress e e' \<longleftrightarrow> (\<forall>i c. pend e' i c = pend e i c \<or> pend e' i c = None) \<and> (\<forall>c. live e c \<longleftrightarrow> live e' c) \<and>
     (\<exists>x. en_outcomes e' = en_outcomes e @ x)"

lemma progress_refl [simp]: "progress e e"
  by (simp add: progress_def)

lemma progress_trans: "progress e f \<Longrightarrow> progress f g \<Longrightarrow> progress e g"
  unfolding progress_def by (metis append_assoc)

lemma settled_by_settled: "settled (settled_by i c out f e) = insert c (settled e)"
  by (auto simp: settled_def settled_by_frame)

lemma settled_by_progress: "pend e i c \<noteq> None \<Longrightarrow> progress e (settled_by i c out f e)"
  unfolding progress_def live_def settled_by_settled
  by (auto simp: settled_by_frame)

lemma ack_progress: "progress e (fst (engine_ack rel i a e))"
  by (simp add: engine_ack_cases settled_by_progress split: option.split)

lemma timeout_progress: "engine_ok e \<Longrightarrow> progress e (engine_timeout rel h e)"
  by (subst engine_timeout_cases) (auto simp: engine_ok_def settled_by_progress split: option.split)

lemma reject_one_progress: "progress e (reject_one rel i c e)"
  by (simp add: reject_one_cases settled_by_progress split: option.split)

lemma reject_loop_progress: "progress e (fold (reject_one rel i) cs e)"
proof (induction cs arbitrary: e)
  case (Cons c cs)
  from progress_trans [OF reject_one_progress Cons.IH] show ?case by simp
qed simp

lemma reject_all_progress: "progress e (reject_all rel i e)"
proof (cases "jm_get (en_pending e) i")
  case (Some m)
  let ?l = "fold (reject_one rel i) (jm_keys m) e"
  have l: "reject_all rel i e = ?l\<lparr>en_pending := jm_delete (en_pending ?l) i\<rparr>"
    using Some by (simp add: reject_all_loop)
  have "pend (reject_all rel i e) = pend ?l"
  proof (intro ext)
    fix i' c'
    have "c' \<notin> set (jm_keys m) \<Longrightarrow> pend e i c' = None" using Some by (simp add: pend_def map_of_eq_None_iff)
    then show "pend (reject_all rel i e) i' c' = pend ?l i' c'" by (auto simp: reject_all_pend reject_loop_pend)
  qed
  moreover have "en_outcomes (reject_all rel i e) = en_outcomes ?l" by (simp add: l)
  ultimately have "progress ?l (reject_all rel i e)" by (simp add: progress_def live_def settled_def)
  then show ?thesis by (rule progress_trans [OF reject_loop_progress])
qed (simp add: reject_all_def)

lemma rel_progress [simp]: "progress (e\<lparr>en_rel := s\<rparr>) e' \<longleftrightarrow> progress e e'" "progress e (e'\<lparr>en_rel := s\<rparr>) \<longleftrightarrow> progress e e'"
  by (simp_all add: progress_def live_def settled_def)

text \<open>Sending makes one fresh command live.\<close>

lemma send_live:
  assumes "fresh_id (cp_id cmd) e"
  shows "live (engine_send rel throws i cmd res room e) c \<longleftrightarrow> live e c \<or> c = cp_id cmd"
    "pend (engine_send rel throws i cmd res room e) j c \<noteq> None \<Longrightarrow> pend e j c \<noteq> None \<or> j = i \<and> c = cp_id cmd"
    "\<exists>x. en_outcomes (engine_send rel throws i cmd res room e) = en_outcomes e @ x"
proof -
  have m: "pend (snd (map_for i e)) = pend e" "en_outcomes (snd (map_for i e)) = en_outcomes e"
    by (auto simp: map_for_def pend_def jm_get_set fun_eq_iff split: option.split)
  have s: "settled (finish c out e) = insert c (settled e)" for c out and e :: "'b engine"
    by (auto simp: settled_def finish_def)
  have o: "en_outcomes (entered i c pc e) = en_outcomes e" "en_outcomes (finish c out e') = en_outcomes e' @ [(c, out)]"
    for c pc out and e' :: "'a engine"
    by (simp_all add: entered_def finish_def)
  show "live (engine_send rel throws i cmd res room e) c \<longleftrightarrow> live e c \<or> c = cp_id cmd"
    by (auto simp: engine_send_cases Let_def live_def settled_by_frame settled_by_settled entered_pend s m
        settled_def o)
  show "pend (engine_send rel throws i cmd res room e) j c \<noteq> None \<Longrightarrow> pend e j c \<noteq> None \<or> j = i \<and> c = cp_id cmd"
    by (auto simp: engine_send_cases Let_def settled_by_frame entered_pend m split: if_splits)
  show "\<exists>x. en_outcomes (engine_send rel throws i cmd res room e) = en_outcomes e @ x"
    by (auto simp: engine_send_cases Let_def settled_by_frame o m)
qed

lemma next_cmd_frame:
  "pend (snd (next_cmd_id e)) = pend e" "live (snd (next_cmd_id e)) = live e"
  "en_outcomes (snd (next_cmd_id e)) = en_outcomes e" "en_rel (snd (next_cmd_id e)) = en_rel e"
  by (simp_all add: next_cmd_id_def live_def settled_def fun_eq_iff)

section \<open>The invariant\<close>

definition fleet_view :: "fleet \<Rightarrow> observer" where
  "fleet_view s = view_of (rv_instances (build_view (fs_records s)))"

definition reservations_ok :: "'e orch_env \<Rightarrow> orch \<Rightarrow> bool" where
  "reservations_ok ev w \<longleftrightarrow> fleet_holds.sound (ev_digest ev) {} {} (oc_engine w)"

definition mentions :: "orch \<Rightarrow> jsstr \<Rightarrow> bool" where
  "mentions w i \<longleftrightarrow> jm_has (fs_records (fleet_of w)) i \<or> poller_has i (oc_poller w) \<or>
     (\<exists>c. pend (oc_engine w) i c \<noteq> None)"

definition tables_ok :: "orch \<Rightarrow> bool" where
  "tables_ok w \<longleftrightarrow> (\<forall>i. mentions w i \<longrightarrow> jm_has (oc_links w) i)"

definition calls_ok :: "orch \<Rightarrow> bool" where
  "calls_ok w \<longleftrightarrow> (\<forall>c. jm_has (oc_waiting w) c \<longrightarrow> live (oc_engine w) c) \<and>
     (\<forall>c. live (oc_engine w) c \<longrightarrow> jm_has (oc_waiting w) c \<or> c \<in> fst ` set (oc_results w)) \<and>
     distinct (map fst (oc_results w)) \<and>
     (\<forall>c \<in> fst ` set (oc_results w). c \<in> settled (oc_engine w) \<and> \<not> jm_has (oc_waiting w) c)"

definition log_ok :: "orch \<Rightarrow> bool" where
  "log_ok w \<longleftrightarrow> rec_ok (oc_rec w) \<and> observe ({}, {}) (oc_events w) = Some (announced (oc_rec w))"

definition events_ok :: "orch \<Rightarrow> bool" where
  "events_ok w \<longleftrightarrow> log_ok w \<and> announced (oc_rec w) = fleet_view (fleet_of w)"

definition world_ok :: "'e orch_env \<Rightarrow> orch \<Rightarrow> bool" where
  "world_ok ev w \<longleftrightarrow> reservations_ok ev w \<and> tables_ok w \<and> calls_ok w \<and> events_ok w"

lemma world_fleet_inv: "reservations_ok ev w \<Longrightarrow> fleet_inv (ev_digest ev) (fleet_of w)"
  by (simp add: reservations_ok_def fleet_holds.sound_def)

lemma world_engine_ok: "reservations_ok ev w \<Longrightarrow> engine_ok (oc_engine w)"
  by (simp add: reservations_ok_def fleet_holds.sound_def)

lemma view_instances:
  "records_ok recs \<Longrightarrow> set (map ii_id (rv_instances (build_view recs))) = set (jm_keys recs)"
  by (force simp: build_view_instances records_ok_def)

lemma new_orch_ok: "world_ok ev new_orch"
proof -
  have e: "engine_ok (new_engine new_fleet)"
    by (simp add: engine_ok_def table_ok_def timers_ok_def once_ok_def new_engine_def pend_def settled_def)
  have p: "pend (new_engine new_fleet) i c = None" for i c by (simp add: new_engine_def pend_def)
  have v: "fleet_view new_fleet = ({}, {})"
    by (simp add: fleet_view_def view_of_def build_view_instances new_fleet_def)
  have b: "balanced held_tokens fs_reserved_ids {} {} (new_engine new_fleet)"
    by (simp add: balanced_def carries_def carries_id_def p) (simp add: new_engine_def held_tokens_def new_fleet_def)
  have "reservations_ok ev new_orch"
    using e b new_fleet_inv [of "ev_digest ev"]
    by (simp add: reservations_ok_def fleet_holds.sound_def new_orch_def carries_def p) (simp add: new_engine_def)
  moreover have "tables_ok new_orch"
    by (simp add: tables_ok_def mentions_def new_orch_def p) (simp add: new_engine_def new_fleet_def new_poller_def poller_has_def)
  moreover have "calls_ok new_orch"
    by (simp add: calls_ok_def new_orch_def live_def p) (simp add: new_engine_def settled_def)
  moreover have "events_ok new_orch"
    by (simp add: events_ok_def log_ok_def new_orch_def v new_reconciler_def rec_ok_def announced_def)
      (simp add: new_engine_def v)
  ultimately show ?thesis by (simp add: world_ok_def)
qed

section \<open>Steps of the read model\<close>

definition fleet_step :: "(jsstr \<Rightarrow> jsstr) \<Rightarrow> fleet \<Rightarrow> fleet \<Rightarrow> bool" where
  "fleet_step digest s t \<longleftrightarrow> fleet_inv digest t \<and> fs_reservations t = fs_reservations s \<and>
     fs_reserved_ids t = fs_reserved_ids s"

lemma sound_fleet_step:
  assumes "fleet_holds.sound digest {} {} e" "fleet_step digest (en_rel e) t"
  shows "fleet_holds.sound digest {} {} (e\<lparr>en_rel := t\<rparr>)"
proof -
  have "issued r t \<longleftrightarrow> issued r (en_rel e)" for r using assms(2) by (simp add: issued_def fleet_step_def)
  moreover have "held_tokens t = held_tokens (en_rel e)" using assms(2) by (simp add: held_tokens_def fleet_step_def)
  ultimately show ?thesis
    using assms by (simp add: fleet_holds.sound_def balanced_def carries_def carries_id_def fleet_step_def)
qed

lemma with_fleet_frame [simp]:
  "oc_poller (with_fleet s w) = oc_poller w" "oc_rec (with_fleet s w) = oc_rec w" "oc_links (with_fleet s w) = oc_links w"
  "oc_waiting (with_fleet s w) = oc_waiting w" "oc_results (with_fleet s w) = oc_results w"
  "oc_events (with_fleet s w) = oc_events w" "oc_frames (with_fleet s w) = oc_frames w"
  "oc_closed (with_fleet s w) = oc_closed w" "oc_engine (with_fleet s w) = (oc_engine w)\<lparr>en_rel := s\<rparr>"
  by (simp_all add: with_fleet_def)

lemma with_fleet_twice: "with_fleet s (with_fleet t w) = with_fleet s w"
  by (simp add: with_fleet_def)

lemma live_rel [simp]: "live (e\<lparr>en_rel := s\<rparr>) = live e" "settled (e\<lparr>en_rel := s\<rparr>) = settled e"
  by (simp_all add: live_def settled_def fun_eq_iff)

lemma with_fleet_ok:
  assumes "world_ok ev w" "fleet_step (ev_digest ev) (fleet_of w) s"
    and "\<And>i. jm_has (fs_records s) i = jm_has (fs_records (fleet_of w)) i"
    and "fleet_view s = fleet_view (fleet_of w)"
  shows "world_ok ev (with_fleet s w)"
  using assms sound_fleet_step [of "ev_digest ev" "oc_engine w" s]
  by (auto simp: world_ok_def reservations_ok_def tables_ok_def mentions_def calls_ok_def events_ok_def log_ok_def)

lemma memo_step: "memo_only s t \<Longrightarrow> fleet_inv digest t \<Longrightarrow> fleet_step digest s t"
  by (simp add: fleet_step_def memo_only_fields)

lemma memo_ok:
  assumes "world_ok ev w" "memo_only (fleet_of w) s" "fleet_inv (ev_digest ev) s"
  shows "world_ok ev (with_fleet s w)"
  by (rule with_fleet_ok [OF assms(1) memo_step [OF assms(2,3)]])
    (simp_all add: memo_only_fields [OF assms(2)] fleet_view_def)

lemma get_instance_ok:
  assumes "world_ok ev w"
  shows "world_ok ev (with_fleet (snd (get_instance i (fleet_of w))) w)"
    "fst (get_instance i (fleet_of w)) = Some info \<Longrightarrow> ii_id info = i \<and> jm_has (fs_records (fleet_of w)) i"
    "jm_has (fs_records (fleet_of w)) i \<Longrightarrow> fst (get_instance i (fleet_of w)) \<noteq> None"
proof -
  have inv: "fleet_inv (ev_digest ev) (fleet_of w)" using assms by (simp add: world_ok_def world_fleet_inv)
  note r = resolve_memo [OF inv]
  show "world_ok ev (with_fleet (snd (get_instance i (fleet_of w))) w)"
    unfolding query_states by (rule memo_ok [OF assms r(2,3)])
  have rok: "records_ok (fs_records (fleet_of w))" using inv by (simp add: fleet_inv_def)
  have g: "fst (get_instance i (fleet_of w)) =
      map_option (view_row (fs_records (fleet_of w))) (jm_get (fs_records (fleet_of w)) i)"
    unfolding query_answers(3) [OF inv] build_view_by_id [OF rok] by (simp add: map_of_map)
  show "fst (get_instance i (fleet_of w)) = Some info \<Longrightarrow> ii_id info = i \<and> jm_has (fs_records (fleet_of w)) i"
    using rok by (auto simp: g jm_has_def records_ok_def dest!: map_of_SomeD)
  show "jm_has (fs_records (fleet_of w)) i \<Longrightarrow> fst (get_instance i (fleet_of w)) \<noteq> None"
    by (simp add: g jm_has_def)
qed

lemma touch_step:
  assumes "fleet_inv digest s"
  shows "fleet_step digest s (touch i now s)" "jm_has (fs_records (touch i now s)) j = jm_has (fs_records s) j"
    "fleet_view (touch i now s) = fleet_view s"
proof -
  have rok: "records_ok (fs_records s)" using assms by (simp add: fleet_inv_def)
  show "fleet_step digest s (touch i now s)"
    using touch_inv [OF assms, of i now]
    by (simp add: fleet_step_def touch_def Let_def reconcile_frame clear_pending_frame split: option.split)
  show "jm_has (fs_records (touch i now s)) j = jm_has (fs_records s) j"
    by (auto simp: touch_def Let_def reconcile_frame clear_pending_frame jm_has_set split: option.split)
      (simp add: jm_has_def)
  show "fleet_view (touch i now s) = fleet_view s"
  proof (cases "jm_get (fs_records s) i")
    case (Some r)
    let ?r = "r\<lparr>ir_info := (ir_info r)\<lparr>ii_last_sync := now\<rparr>\<rparr>"
    have recs: "fs_records (touch i now s) = jm_set (fs_records s) i ?r"
      by (simp add: touch_def Some Let_def reconcile_frame clear_pending_frame)
    have "rv_instances (build_view (jm_set (fs_records s) i ?r)) = map (stamp i now) (rv_instances (build_view (fs_records s)))"
      using arg_cong [OF instances_touch [OF rok Some, of now], of "map snd"]
      by (simp add: build_view_instances comp_def case_prod_unfold)
    moreover have "ii_id (stamp i now x) = ii_id x" "ii_rooms (stamp i now x) = ii_rooms x" for x
      by (simp_all add: stamp_def)
    ultimately show ?thesis by (simp add: fleet_view_def recs view_of_def comp_def image_image)
  qed (simp add: touch_def)
qed

lemma touch_ok: "world_ok ev w \<Longrightarrow> world_ok ev (with_fleet (touch i now (fleet_of w)) w)"
  using touch_step [of "ev_digest ev" "fleet_of w" i now]
  by (intro with_fleet_ok) (simp_all add: world_ok_def world_fleet_inv)

lemma set_stale_ok:
  assumes "world_ok ev w"
  shows "world_ok ev (with_fleet (set_stale i b (fleet_of w)) w)"
  using assms set_stale_inv [of "ev_digest ev" "fleet_of w" i b]
  by (intro with_fleet_ok)
    (auto simp: world_ok_def world_fleet_inv set_stale_def fleet_step_def fleet_view_def split: if_splits)

lemma set_pending_status_ok:
  assumes "world_ok ev w"
  shows "world_ok ev (with_fleet (set_pending_status i st (fleet_of w)) w)"
  using assms set_pending_status_inv [of "ev_digest ev" "fleet_of w" i st]
  by (intro with_fleet_ok)
    (auto simp: world_ok_def world_fleet_inv set_pending_status_def fleet_step_def fleet_view_def split: if_splits)

section \<open>Steps of the engine\<close>

lemma progress_live: "progress e e' \<Longrightarrow> live e' c = live e c" "progress e e' \<Longrightarrow> settled e \<subseteq> settled e'"
  "progress e e' \<Longrightarrow> pend e' i c \<noteq> None \<Longrightarrow> pend e i c \<noteq> None"
  by (auto simp: progress_def settled_def) (metis option.distinct(1))

lemma engine_step_parts:
  assumes "progress (oc_engine w) e"
    and "fs_records (en_rel e) = fs_records (fleet_of w)"
  shows "tables_ok w \<Longrightarrow> tables_ok (w\<lparr>oc_engine := e\<rparr>)" "calls_ok w \<Longrightarrow> calls_ok (w\<lparr>oc_engine := e\<rparr>)"
    "events_ok w \<Longrightarrow> events_ok (w\<lparr>oc_engine := e\<rparr>)"
  using assms progress_live(1,2) [OF assms(1)] progress_live(3) [OF assms(1)]
  by (auto simp: tables_ok_def mentions_def calls_ok_def events_ok_def log_ok_def fleet_view_def) blast+

lemma engine_step_ok:
  assumes "world_ok ev w" "fleet_holds.sound (ev_digest ev) {} {} e" "progress (oc_engine w) e"
    and "fs_records (en_rel e) = fs_records (fleet_of w)"
  shows "world_ok ev (w\<lparr>oc_engine := e\<rparr>)"
  using assms(1,2) engine_step_parts [OF assms(3,4)] by (simp add: world_ok_def reservations_ok_def)

lemma ack_ok: "world_ok ev w \<Longrightarrow> world_ok ev (w\<lparr>oc_engine := fst (engine_ack fleet_releaser i a (oc_engine w))\<rparr>)"
  by (rule engine_step_ok)
    (simp_all add: world_ok_def reservations_ok_def fleet_holds.ack_sound ack_progress records_kept.keep_ack)

lemma command_timer_ok:
  assumes "world_ok ev w"
  shows "world_ok ev (command_timer h w)"
proof -
  have r: "reservations_ok ev w" using assms by (simp add: world_ok_def)
  show ?thesis
    unfolding command_timer_def using assms r world_engine_ok [OF r]
    by (intro engine_step_ok)
      (simp_all add: reservations_ok_def fleet_holds.timeout_sound timeout_progress records_kept.keep_timeout)
qed

section \<open>Reconciling\<close>

lemma run_reconcile_ok:
  assumes r: "reservations_ok ev w" and t: "tables_ok w" and c: "calls_ok w" and l: "log_ok w"
    and known: "ec_instances (oc_rec w) \<subseteq> set (jm_keys (fs_records (fleet_of w)))"
  shows "world_ok ev (run_reconcile ev w)"
    "oc_links (run_reconcile ev w) = oc_links w" "oc_poller (run_reconcile ev w) = oc_poller w"
    "oc_closed (run_reconcile ev w) = oc_closed w" "fs_records (fleet_of (run_reconcile ev w)) = fs_records (fleet_of w)"
    "pend (oc_engine (run_reconcile ev w)) = pend (oc_engine w)"
    "fs_stale (fleet_of (run_reconcile ev w)) = fs_stale (fleet_of w)"
proof -
  let ?s = "fleet_of w" and ?d = "ev_digest ev"
  have inv: "fleet_inv ?d ?s" using r by (rule world_fleet_inv)
  have rok: "records_ok (fs_records ?s)" using inv by (simp add: fleet_inv_def)
  obtain insts s1 where 1: "fleet_instances ?s = (insts, s1)" by (cases "fleet_instances ?s")
  obtain st s2 where 2: "fleet_stats_of ?d s1 = (st, s2)" by (cases "fleet_stats_of ?d s1")
  have i: "insts = rv_instances (build_view (fs_records ?s))"
    using query_answers(1) [OF inv] 1 by simp
  have m1: "memo_only ?s s1" "fleet_inv ?d s1"
    using resolve_memo(2,3) [OF inv] query_states(1) [of ?s] 1 by simp_all
  have m2: "memo_only s1 s2" "fleet_inv ?d s2"
    using fleet_stats_inv(2,3) [OF m1(2)] 2 by simp_all
  have m: "memo_only ?s s2" by (rule memo_only_trans [OF m1(1) m2(1)])
  obtain cc es where 3: "reconcile insts st (oc_rec w) = (cc, es)" by (cases "reconcile insts st (oc_rec w)")
  have e: "run_reconcile ev w = emit_events es ((with_fleet s2 w)\<lparr>oc_rec := cc\<rparr>)"
    by (simp add: run_reconcile_def 1 2 3)
  have k: "ec_instances (oc_rec w) \<subseteq> set (map ii_id insts)"
    using known view_instances [OF rok] by (simp add: i)
  have rr: "rec_ok (oc_rec w)" and ob: "observe ({}, {}) (oc_events w) = Some (announced (oc_rec w))"
    using l by (simp_all add: log_ok_def)
  note f = reconcile_follows [OF rr k, of st, unfolded 3 fst_conv snd_conv]
  have sound: "reservations_ok ev (run_reconcile ev w)"
    using sound_fleet_step [of ?d "oc_engine w" s2] r memo_step [OF m m2(2)]
    by (simp add: e reservations_ok_def emit_events_def)
  moreover have "tables_ok (run_reconcile ev w)"
    using t by (simp add: e tables_ok_def mentions_def emit_events_def memo_only_fields [OF m])
  moreover have "calls_ok (run_reconcile ev w)"
    using c by (simp add: e calls_ok_def emit_events_def)
  moreover have "events_ok (run_reconcile ev w)"
    using f ob
    by (simp add: e events_ok_def log_ok_def emit_events_def observe_append fleet_view_def memo_only_fields [OF m] i)
  ultimately show "world_ok ev (run_reconcile ev w)" by (simp add: world_ok_def)
  show "oc_links (run_reconcile ev w) = oc_links w" "oc_poller (run_reconcile ev w) = oc_poller w"
    "oc_closed (run_reconcile ev w) = oc_closed w" "fs_records (fleet_of (run_reconcile ev w)) = fs_records (fleet_of w)"
    "pend (oc_engine (run_reconcile ev w)) = pend (oc_engine w)"
    "fs_stale (fleet_of (run_reconcile ev w)) = fs_stale (fleet_of w)"
    by (simp_all add: e emit_events_def memo_only_fields [OF m])
qed

lemma events_known:
  assumes "events_ok w" "reservations_ok ev w"
  shows "ec_instances (oc_rec w) = set (jm_keys (fs_records (fleet_of w)))"
proof -
  have "records_ok (fs_records (fleet_of w))" using world_fleet_inv [OF assms(2)] by (simp add: fleet_inv_def)
  from view_instances [OF this] assms(1) show ?thesis
    by (simp add: events_ok_def announced_def fleet_view_def view_of_def)
qed

section \<open>Teardown\<close>

lemma remove_instance_frame:
  "fs_reservations (fst (remove_instance i s)) = fs_reservations s" "fs_reserved_ids (fst (remove_instance i s)) = fs_reserved_ids s"
  "fs_records (fst (remove_instance i s)) = jm_delete (fs_records s) i"
  "snd (remove_instance i s) = map_option ir_info (jm_get (fs_records s) i)"
  by (auto simp: remove_instance_def Let_def invalidate_def clear_pending_frame jm_delete_absent jm_has_def split: option.split)

lemma remove_instance_stale:
  "jm_has (fs_records s) i \<Longrightarrow> fs_stale (fst (remove_instance i s)) = fs_stale s - {i}"
  "\<not> jm_has (fs_records s) i \<Longrightarrow> fs_stale (fst (remove_instance i s)) = fs_stale s"
  by (auto simp: remove_instance_def Let_def invalidate_def clear_pending_frame jm_has_def split: option.split)

text \<open>The state after the tables forgot the instance, before the events.\<close>

definition dropped_world :: "jsstr \<Rightarrow> orch \<Rightarrow> orch" where
  "dropped_world i w =
     (let e = reject_all fleet_releaser i (oc_engine w)
      in w\<lparr>oc_links := jm_delete (oc_links w) i, oc_poller := forget i (oc_poller w),
           oc_engine := e\<lparr>en_rel := fst (remove_instance i (en_rel e))\<rparr>\<rparr>)"

definition leave_events :: "instance_info option \<Rightarrow> orch \<Rightarrow> orch" where
  "leave_events removed w = (case removed of None \<Rightarrow> w
     | Some i \<Rightarrow> emit_events (snd (instance_removed i (oc_rec w))) (w\<lparr>oc_rec := fst (instance_removed i (oc_rec w))\<rparr>))"

lemma teardown_cases:
  "teardown_instance ev i w =
     (if \<not> jm_has (oc_links w) i \<and> \<not> poller_has i (oc_poller w) then w
      else run_reconcile ev (leave_events
        (snd (remove_instance i (en_rel (reject_all fleet_releaser i (oc_engine w))))) (dropped_world i w)))"
  by (simp add: teardown_instance_def dropped_world_def leave_events_def with_fleet_def case_prod_unfold Let_def
      split: option.split)

lemma forget_has: "poller_has j (forget i p) \<longleftrightarrow> j \<noteq> i \<and> poller_has j p"
  by (auto simp: poller_has_def forget_def jm_has_delete jm_has_def jm_get_delete split: option.split)

lemma dropped_world_parts:
  assumes "world_ok ev w"
  shows "reservations_ok ev (dropped_world i w)" "tables_ok (dropped_world i w)" "calls_ok (dropped_world i w)"
    "log_ok (dropped_world i w)" "fs_records (fleet_of (dropped_world i w)) = jm_delete (fs_records (fleet_of w)) i"
    "pend (oc_engine (dropped_world i w)) j c = (if j = i then None else pend (oc_engine w) j c)"
proof -
  let ?e = "reject_all fleet_releaser i (oc_engine w)"
  have r: "reservations_ok ev w" using assms by (simp add: world_ok_def)
  have snd: "fleet_holds.sound (ev_digest ev) {} {} ?e"
    using r by (simp add: reservations_ok_def fleet_holds.reject_all_sound)
  then have inv: "fleet_inv (ev_digest ev) (en_rel ?e)" by (simp add: fleet_holds.sound_def)
  have "fleet_step (ev_digest ev) (en_rel ?e) (fst (remove_instance i (en_rel ?e)))"
    using remove_instance_inv [OF inv, of i] by (simp add: fleet_step_def remove_instance_frame)
  from sound_fleet_step [OF snd this] show "reservations_ok ev (dropped_world i w)"
    by (simp add: reservations_ok_def dropped_world_def Let_def)
  show recs: "fs_records (fleet_of (dropped_world i w)) = jm_delete (fs_records (fleet_of w)) i"
    by (simp add: dropped_world_def Let_def remove_instance_frame records_kept.keep_reject_all)
  show pend: "pend (oc_engine (dropped_world i w)) j c = (if j = i then None else pend (oc_engine w) j c)" for j c
    by (simp add: dropped_world_def Let_def reject_all_pend)
  have l: "oc_links (dropped_world i w) = jm_delete (oc_links w) i" "oc_poller (dropped_world i w) = forget i (oc_poller w)"
    "oc_waiting (dropped_world i w) = oc_waiting w" "oc_results (dropped_world i w) = oc_results w"
    "oc_rec (dropped_world i w) = oc_rec w" "oc_events (dropped_world i w) = oc_events w"
    by (simp_all add: dropped_world_def Let_def)
  show "tables_ok (dropped_world i w)"
    using assms unfolding world_ok_def tables_ok_def mentions_def recs l pend
    by (auto simp: jm_has_delete forget_has)
  have pr: "progress (oc_engine w) (oc_engine (dropped_world i w))"
    by (simp add: dropped_world_def Let_def reject_all_progress)
  show "calls_ok (dropped_world i w)"
    using assms progress_live(1,2) [OF pr] unfolding world_ok_def calls_ok_def l by blast
  show "log_ok (dropped_world i w)"
    using assms by (simp add: world_ok_def events_ok_def log_ok_def l)
qed

lemma leave_events_frame:
  "oc_engine (leave_events r w) = oc_engine w" "oc_links (leave_events r w) = oc_links w"
  "oc_poller (leave_events r w) = oc_poller w" "oc_waiting (leave_events r w) = oc_waiting w"
  "oc_results (leave_events r w) = oc_results w" "oc_closed (leave_events r w) = oc_closed w"
  by (simp_all add: leave_events_def emit_events_def split: option.split)

lemma teardown_ok:
  assumes "world_ok ev w"
  shows "world_ok ev (teardown_instance ev i w)"
    "jm_has (oc_links w) i \<or> poller_has i (oc_poller w) \<Longrightarrow>
       oc_links (teardown_instance ev i w) = jm_delete (oc_links w) i \<and>
       oc_poller (teardown_instance ev i w) = forget i (oc_poller w) \<and>
       fs_records (fleet_of (teardown_instance ev i w)) = jm_delete (fs_records (fleet_of w)) i \<and>
       (\<forall>j c. pend (oc_engine (teardown_instance ev i w)) j c = (if j = i then None else pend (oc_engine w) j c)) \<and>
       oc_closed (teardown_instance ev i w) = oc_closed w"
proof -
  let ?d = "dropped_world i w"
  let ?r = "snd (remove_instance i (en_rel (reject_all fleet_releaser i (oc_engine w))))"
  let ?l = "leave_events ?r ?d"
  have r: "reservations_ok ev w" using assms by (simp add: world_ok_def)
  have known: "ec_instances (oc_rec w) = set (jm_keys (fs_records (fleet_of w)))"
    using assms by (intro events_known [where ev = ev]) (simp_all add: world_ok_def)
  note d = dropped_world_parts [OF assms, of i]
  have rid: "?r = map_option ir_info (jm_get (fs_records (fleet_of w)) i)"
    by (simp add: remove_instance_frame records_kept.keep_reject_all)
  have rok: "records_ok (fs_records (fleet_of w))" using world_fleet_inv [OF r] by (simp add: fleet_inv_def)
  have id: "jm_get (fs_records (fleet_of w)) i = Some x \<Longrightarrow> ii_id (ir_info x) = i" for x
    using rok by (auto simp: records_ok_def dest!: map_of_SomeD)
  have ec: "oc_rec ?d = oc_rec w" "oc_events ?d = oc_events w" by (simp_all add: dropped_world_def Let_def)
  have log: "log_ok ?l \<and> ec_instances (oc_rec ?l) \<subseteq> set (jm_keys (fs_records (fleet_of ?l)))"
  proof (cases "jm_get (fs_records (fleet_of w)) i")
    case None
    then have "?r = None" by (simp add: rid)
    then have "?l = ?d" unfolding leave_events_def by simp
    with d(4,5) known ec None show ?thesis
      by (auto simp: jm_delete_absent jm_has_def)
  next
    case (Some x)
    then have rs: "?r = Some (ir_info x)" by (simp add: rid)
    have mem: "ii_id (ir_info x) \<in> ec_instances (oc_rec w)"
      using Some known by (auto simp: id jm_has_iff_keys [symmetric] jm_has_def simp del: set_map)
    have "rec_ok (oc_rec w)" using assms by (simp add: world_ok_def events_ok_def log_ok_def)
    note f = instance_removed_follows [OF this mem]
    have "log_ok ?l"
      unfolding leave_events_def rs option.case log_ok_def using f d(4)
      by (simp add: emit_events_def observe_append log_ok_def ec)
    moreover have "ec_instances (oc_rec ?l) \<subseteq> set (jm_keys (fs_records (fleet_of ?l)))"
      unfolding leave_events_frame d(5)
      by (simp add: leave_events_def rs [unfolded remove_instance_frame] emit_events_def instance_removed_def id [OF Some] ec known
          jm_delete_keys remove_instance_frame) auto
    ultimately show ?thesis by blast
  qed
  have parts: "reservations_ok ev ?l" "tables_ok ?l" "calls_ok ?l"
    using d(1-3) by (simp_all add: reservations_ok_def tables_ok_def mentions_def calls_ok_def leave_events_frame)
  note rr = run_reconcile_ok [OF parts conjunct1 [OF log] conjunct2 [OF log]]
  show "world_ok ev (teardown_instance ev i w)"
    unfolding teardown_cases using assms rr(1) by simp
  assume "jm_has (oc_links w) i \<or> poller_has i (oc_poller w)"
  then have t: "teardown_instance ev i w = run_reconcile ev ?l" by (auto simp: teardown_cases)
  show "oc_links (teardown_instance ev i w) = jm_delete (oc_links w) i \<and>
       oc_poller (teardown_instance ev i w) = forget i (oc_poller w) \<and>
       fs_records (fleet_of (teardown_instance ev i w)) = jm_delete (fs_records (fleet_of w)) i \<and>
       (\<forall>j c. pend (oc_engine (teardown_instance ev i w)) j c = (if j = i then None else pend (oc_engine w) j c)) \<and>
       oc_closed (teardown_instance ev i w) = oc_closed w"
    unfolding t rr(2-6) leave_events_frame d(5,6)
    by (simp add: dropped_world_def Let_def)
qed

lemma close_link_ok: "world_ok ev w \<Longrightarrow> world_ok ev (close_link b i w)"
  by (simp add: close_link_def world_ok_def reservations_ok_def tables_ok_def mentions_def calls_ok_def events_ok_def log_ok_def)

lemma kick_ok: "world_ok ev w \<Longrightarrow> world_ok ev (orch_kick ev i w)"
  by (simp add: orch_kick_def close_link_ok teardown_ok)

lemma on_evict_ok: "world_ok ev w \<Longrightarrow> world_ok ev (on_evict ev i w)"
  by (simp add: on_evict_def close_link_ok teardown_ok)

section \<open>Polling\<close>

lemma frames_ok: "world_ok ev w \<Longrightarrow> world_ok ev (w\<lparr>oc_frames := f\<rparr>)"
  by (simp add: world_ok_def reservations_ok_def tables_ok_def mentions_def calls_ok_def events_ok_def log_ok_def)

lemma orch_send_poll_ok:
  assumes "world_ok ev w"
  shows "world_ok ev (orch_send_poll throws i req full w)"
  using assms get_instance_ok(1) [OF assms, of i] frames_ok [OF get_instance_ok(1) [OF assms, of i]]
  by (simp add: orch_send_poll_def Let_def case_prod_unfold)

lemma on_stale_ok:
  assumes "world_ok ev w"
  shows "world_ok ev (on_stale i w)"
proof -
  let ?w = "with_fleet (set_stale i True (fleet_of w)) w"
  let ?v = "with_fleet (snd (get_instance i (fleet_of ?w))) ?w"
  have w: "world_ok ev ?w" by (rule set_stale_ok [OF assms])
  note g = get_instance_ok [OF w, of i]
  show ?thesis
  proof (cases "fst (get_instance i (fleet_of ?w))")
    case None
    then have "on_stale i w = ?v" by (simp add: on_stale_def Let_def case_prod_unfold)
    with g(1) show ?thesis by simp
  next
    case (Some info)
    then have e: "on_stale i w = emit_events [InstanceStale info] ?v"
      by (simp add: on_stale_def Let_def case_prod_unfold)
    have ev: "events_ok ?w" and r: "reservations_ok ev ?w" using w by (simp_all add: world_ok_def)
    have "ii_id info \<in> ec_instances (oc_rec ?w)"
      using events_known [OF ev r] g(2) [OF Some] by (simp add: jm_has_iff_keys)
    then have "observe (announced (oc_rec ?w)) [InstanceStale info] = Some (announced (oc_rec ?w))"
      by (simp add: announced_def)
    with g(1) show ?thesis
      unfolding e by (simp add: world_ok_def reservations_ok_def tables_ok_def mentions_def calls_ok_def events_ok_def log_ok_def
          emit_events_def observe_append)
  qed
qed

lemma run_poll_call_ok: "world_ok ev w \<Longrightarrow> world_ok ev (run_poll_call ev throws call w)"
  by (cases call) (simp_all add: orch_send_poll_ok on_stale_ok on_evict_ok)

lemma run_poll_calls_ok: "world_ok ev w \<Longrightarrow> world_ok ev (fold (run_poll_call ev throws) calls w)"
  by (induction calls arbitrary: w) (simp_all add: run_poll_call_ok)

lemma poller_keys:
  "poller_has j (fst (poll i p)) = poller_has j p" "poller_has j (schedule i p) = poller_has j p"
  "poller_has j (fst (poll_reply i r p)) = poller_has j p" "poller_has j (fst (fire h p)) = poller_has j p"
  "poller_has j (fst (start_polling i p)) \<longleftrightarrow> j = i \<or> poller_has j p"
proof -
  have poll: "poller_has j (fst (poll i p)) = poller_has j p" for i p
    by (auto simp: poller_has_def poll_def Let_def jm_get_set jm_has_def split: option.split)
  have sched: "poller_has j (schedule i p) = poller_has j p" for i p
    by (auto simp: poller_has_def schedule_def jm_get_set jm_has_def split: option.split)
  have tick: "poller_has j (fst (tick i p)) = poller_has j p" for i p
    using poll sched
    by (auto simp: tick_def Let_def case_prod_unfold split: option.split)
      (auto simp: poller_has_def jm_get_set jm_has_def split: if_splits)
  show "poller_has j (fst (poll i p)) = poller_has j p" "poller_has j (schedule i p) = poller_has j p"
    by (fact poll sched)+
  show "poller_has j (fst (poll_reply i r p)) = poller_has j p"
    by (auto simp: poller_has_def poll_reply_def jm_get_set jm_has_def split: option.split)
  show "poller_has j (fst (fire h p)) = poller_has j p"
    by (simp add: fire_def tick split: option.split) (simp add: poller_has_def)
  show "poller_has j (fst (start_polling i p)) \<longleftrightarrow> j = i \<or> poller_has j p"
    by (simp add: start_polling_def Let_def case_prod_unfold sched poll) (simp add: poller_has_def jm_has_set)
qed

lemma poller_ok:
  assumes "world_ok ev w" "\<And>j. poller_has j p \<Longrightarrow> poller_has j (oc_poller w) \<or> jm_has (oc_links w) j"
  shows "world_ok ev (w\<lparr>oc_poller := p\<rparr>)"
  using assms by (auto simp: world_ok_def reservations_ok_def tables_ok_def mentions_def calls_ok_def events_ok_def log_ok_def)

lemma poll_timer_ok: "world_ok ev w \<Longrightarrow> world_ok ev (poll_timer ev throws h w)"
  by (simp add: poll_timer_def Let_def case_prod_unfold) (intro run_poll_calls_ok poller_ok; simp add: poller_keys)

lemma links_ok:
  assumes "world_ok ev w"
  shows "world_ok ev (w\<lparr>oc_links := jm_set (oc_links w) i ()\<rparr>)"
  using assms by (auto simp: world_ok_def reservations_ok_def tables_ok_def mentions_def calls_ok_def events_ok_def log_ok_def jm_has_set)

lemma handle_agent_join_ok:
  assumes "world_ok ev w"
  shows "world_ok ev (handle_agent_join ev ht pt i w)"
proof (cases ht)
  case False
  let ?f = "[(i, HelloFrame \<lparr>hp_instance = i, hp_protocol = int protocol_version, hp_heartbeat = ev_heartbeat ev\<rparr>)]"
  let ?w = "w\<lparr>oc_links := jm_set (oc_links w) i (), oc_frames := oc_frames w @ ?f\<rparr>"
  have w: "world_ok ev ?w" using frames_ok [OF links_ok [OF assms]] by simp
  have "world_ok ev (?w\<lparr>oc_poller := fst (start_polling i (oc_poller ?w))\<rparr>)"
    by (rule poller_ok [OF w]) (auto simp: poller_keys jm_has_set)
  from run_poll_calls_ok [OF this] False show ?thesis
    by (simp add: handle_agent_join_def Let_def case_prod_unfold)
qed (simp add: handle_agent_join_def Let_def links_ok assms)

section \<open>Agent frames\<close>

lemma apply_snapshot_frame:
  "fs_reservations (fst (apply_snapshot i p now s)) = fs_reservations s"
  "fs_reserved_ids (fst (apply_snapshot i p now s)) = fs_reserved_ids s"
  "jm_has (fs_records (fst (apply_snapshot i p now s))) j \<longleftrightarrow> j = i \<or> jm_has (fs_records s) j"
  "\<not> snd (apply_snapshot i p now s) \<Longrightarrow> fst (apply_snapshot i p now s) = s"
  by (auto simp: apply_snapshot_cases reconcile_frame clear_pending_frame invalidate_def stored_def jm_get_set jm_has_def
      split: option.split)

lemma handle_state_ok:
  assumes "world_ok ev w" "jm_has (oc_links w) i"
  shows "world_ok ev (handle_state ev now i st w)"
proof (cases "snd (poll_reply i (sy_req st) (oc_poller w))")
  case False
  then show ?thesis by (simp add: handle_state_def case_prod_unfold Let_def kick_ok assms)
next
  case True
  let ?w1 = "w\<lparr>oc_poller := fst (poll_reply i (sy_req st) (oc_poller w))\<rparr>"
  let ?w = "with_fleet (set_stale i False (fleet_of ?w1)) ?w1"
  have "world_ok ev ?w1" by (rule poller_ok [OF assms(1)]) (simp add: poller_keys)
  then have w: "world_ok ev ?w" by (rule set_stale_ok)
  have link: "jm_has (oc_links ?w) i" using assms(2) by simp
  let ?p = "sync_payload.truncate st"
  let ?a = "apply_snapshot i ?p now (fleet_of ?w)"
  have h: "handle_state ev now i st w =
      (if \<not> sy_full st then with_fleet (touch i now (fleet_of ?w)) ?w
       else case validate_snapshot (ev_re_test ev) (ev_url ev) ?p of
              Some r \<Rightarrow> ?w | None \<Rightarrow> if snd ?a then run_reconcile ev (with_fleet (fst ?a) ?w) else with_fleet (fst ?a) ?w)"
    using True by (simp add: handle_state_def case_prod_unfold Let_def split: option.split)
  have res: "reservations_ok ev ?w" "tables_ok ?w" "calls_ok ?w" "events_ok ?w" using w by (simp_all add: world_ok_def)
  have inv: "fleet_inv (ev_digest ev) (fleet_of ?w)" by (rule world_fleet_inv [OF res(1)])
  have "fleet_step (ev_digest ev) (fleet_of ?w) (fst ?a)"
    using apply_snapshot_inv [OF inv, of i ?p now] by (simp add: fleet_step_def apply_snapshot_frame)
  from sound_fleet_step [OF res(1) [unfolded reservations_ok_def] this]
  have r: "reservations_ok ev (with_fleet (fst ?a) ?w)" by (simp add: reservations_ok_def)
  have t: "tables_ok (with_fleet (fst ?a) ?w)"
    using res(2) link by (auto simp: tables_ok_def mentions_def apply_snapshot_frame)
  have c: "calls_ok (with_fleet (fst ?a) ?w)" using res(3) by (simp add: calls_ok_def)
  have l: "log_ok (with_fleet (fst ?a) ?w)" using res(4) by (simp add: events_ok_def log_ok_def)
  have known: "ec_instances (oc_rec (with_fleet (fst ?a) ?w)) \<subseteq> set (jm_keys (fs_records (fleet_of (with_fleet (fst ?a) ?w))))"
    using events_known [OF res(4,1)] by (auto simp: jm_has_iff_keys [symmetric] apply_snapshot_frame simp del: set_map)
  have rec: "world_ok ev (run_reconcile ev (with_fleet (fst ?a) ?w))" by (rule run_reconcile_ok [OF r t c l known])
  have same: "with_fleet (fleet_of ?w) ?w = ?w" by (simp add: with_fleet_def)
  show ?thesis
    unfolding h using touch_ok [OF w, of i now] rec w apply_snapshot_frame(4) [of i ?p now "fleet_of ?w"] same
    by (cases "sy_full st"; cases "snd ?a") (simp_all add: with_fleet_twice split: option.split)
qed

lemma handle_ack_ok: "world_ok ev w \<Longrightarrow> world_ok ev (handle_ack ev i a w)"
  using ack_ok [of ev w i a] kick_ok [OF ack_ok, of ev w i i a]
  by (simp add: handle_ack_def case_prod_unfold Let_def)

lemma handle_agent_message_ok: "world_ok ev w \<Longrightarrow> world_ok ev (handle_agent_message ev now i topic payload w)"
  by (simp add: handle_agent_message_def handle_state_ok handle_ack_ok kick_ok split: sum.split fleet_frame.split)

section \<open>Control surface\<close>

lemma reserve_facts:
  assumes "tokens_ok s"
  shows "rs_id (fst (reserve i s)) \<notin> held_tokens s"
    "held_tokens (snd (reserve i s)) = insert (rs_id (fst (reserve i s))) (held_tokens s)"
    "issued (fst (reserve i s)) (snd (reserve i s))"
    "issued r s \<Longrightarrow> rs_id r \<in> held_tokens s \<Longrightarrow> issued r (snd (reserve i s))"
    "fs_reserved_ids (snd (reserve i s)) = fs_reserved_ids s" "fs_records (snd (reserve i s)) = fs_records s"
    "fs_reservations (snd (reserve i s)) = jm_set (fs_reservations s) (rs_id (fst (reserve i s))) i"
  using reserve_fresh [OF assms]
  by (auto simp: reserve_def Let_def held_tokens_def jm_set_eq_keys issued_def jm_get_set jm_has_iff_keys [symmetric]
      simp del: set_map split: if_splits)

text \<open>A reservation made and given back.\<close>

lemma reserve_release:
  assumes "fleet_inv digest s"
  shows "fleet_step digest s (release (fst (reserve i s)) (snd (reserve i s)))"
    "fs_records (release (fst (reserve i s)) (snd (reserve i s))) = fs_records s"
proof -
  have t: "tokens_ok s" using assms by (simp add: fleet_inv_def)
  let ?r = "fst (reserve i s)" and ?s = "snd (reserve i s)"
  have fresh: "\<not> jm_has (fs_reservations s) (rs_id ?r)"
    using reserve_facts(1) [OF t] by (simp add: held_tokens_def jm_has_iff_keys)
  then have "jm_delete (jm_set (fs_reservations s) (rs_id ?r) i) (rs_id ?r) = fs_reservations s"
    using jm_delete_absent [OF fresh] by (simp add: jm_set_new jm_delete_filter)
  then have "fs_reservations (release ?r ?s) = fs_reservations s"
    by (simp add: release_tokens reserve_facts [OF t])
  then show "fleet_step digest s (release ?r ?s)" "fs_records (release ?r ?s) = fs_records s"
    using release_inv [OF reserve_inv [OF assms], of ?r i] reserve_facts [OF t]
    by (simp_all add: fleet_step_def release_frame)
qed

lemma fleet_step_trans: "fleet_step d s t \<Longrightarrow> fleet_step d t u \<Longrightarrow> fleet_step d s u"
  by (simp add: fleet_step_def)

text \<open>A freshly reserved id: held by nobody before, by nobody else after.\<close>

lemma reserve_id_facts:
  assumes "fleet_inv digest s" "reserve_room_id rnd wanted s = (Inr room, t)"
  shows "fleet_inv digest t" "room \<notin> fs_reserved_ids s" "fs_reserved_ids t = insert room (fs_reserved_ids s)"
    "fs_reservations t = fs_reservations s" "fs_records t = fs_records s"
    "fleet_step digest s (release_room_id room t)"
proof -
  note r = reserve_room_id_spec [OF assms(1), of rnd wanted, unfolded assms(2) fst_conv snd_conv]
  have m: "memo_only (s\<lparr>fs_reserved_ids := insert room (fs_reserved_ids s)\<rparr>) t" using r(2) by blast
  show inv: "fleet_inv digest t" by (rule r(1))
  show n: "room \<notin> fs_reserved_ids s" using r(2) is_room_id_taken_memo(1) [OF assms(1), of room] by blast
  show "fs_reserved_ids t = insert room (fs_reserved_ids s)" "fs_reservations t = fs_reservations s" "fs_records t = fs_records s"
    using memo_only_fields [OF m] by simp_all
  then show "fleet_step digest s (release_room_id room t)"
    using release_room_id_inv [OF inv, of room] n by (simp add: fleet_step_def release_room_id_def)
qed

lemma fleet_only_ok:
  assumes "world_ok ev w" "fleet_step (ev_digest ev) (fleet_of w) s" "fs_records s = fs_records (fleet_of w)"
  shows "world_ok ev (with_fleet s w)"
  by (rule with_fleet_ok [OF assms(1,2)]) (simp_all add: assms(3) fleet_view_def)

text \<open>Sending a command for a linked instance adds one waiting call.\<close>

lemma send_step_ok:
  assumes w: "world_ok ev w" and l: "jm_has (oc_links w) i"
    and snd: "fleet_holds.sound (ev_digest ev) (token_set res) (set_option room) e"
    and own: "\<And>r. res = Some r \<Longrightarrow> issued r (en_rel e)"
    and e: "pend e = pend (oc_engine w)" "live e = live (oc_engine w)" "en_outcomes e = en_outcomes (oc_engine w)"
      "fs_records (en_rel e) = fs_records (fleet_of w)"
    and fr: "fresh_id (cp_id cmd) e"
  shows "world_ok ev (w\<lparr>oc_engine := engine_send fleet_releaser throws i cmd res room e,
    oc_waiting := jm_set (oc_waiting w) (cp_id cmd) k\<rparr>)"
proof -
  let ?e = "engine_send fleet_releaser throws i cmd res room e"
  have "fleet_holds.sound (ev_digest ev) {} {} ?e" by (rule fleet_holds.send_sound [OF snd fr own])
  moreover have recs: "fs_records (en_rel ?e) = fs_records (fleet_of w)" by (simp add: records_kept.keep_send e)
  have "tables_ok (w\<lparr>oc_engine := ?e, oc_waiting := jm_set (oc_waiting w) (cp_id cmd) k\<rparr>)"
    using w l send_live(2) [OF fr] recs e(1)
    by (auto simp: world_ok_def tables_ok_def mentions_def) metis
  moreover have "calls_ok (w\<lparr>oc_engine := ?e, oc_waiting := jm_set (oc_waiting w) (cp_id cmd) k\<rparr>)"
  proof -
    have "\<not> live e (cp_id cmd)" using fr by (simp add: fresh_id_def live_def)
    then have new: "\<not> live (oc_engine w) (cp_id cmd)" by (simp add: e(2))
    obtain x where "en_outcomes ?e = en_outcomes (oc_engine w) @ x"
      using send_live(3) [OF fr, of fleet_releaser throws i res room] e(3) by auto
    then have st: "settled (oc_engine w) \<subseteq> settled ?e" by (auto simp: settled_def)
    have nr: "cp_id cmd \<notin> fst ` set (oc_results w)" using w new by (auto simp: world_ok_def calls_ok_def live_def)
    have c: "calls_ok w" using w by (simp add: world_ok_def)
    note lv = send_live(1) [OF fr, of fleet_releaser throws i res room, unfolded e(2)]
    have old: "jm_has (oc_waiting w) c' \<Longrightarrow> live (oc_engine w) c'"
      "live (oc_engine w) c' \<Longrightarrow> jm_has (oc_waiting w) c' \<or> c' \<in> fst ` set (oc_results w)"
      "c' \<in> fst ` set (oc_results w) \<Longrightarrow> c' \<in> settled (oc_engine w) \<and> \<not> jm_has (oc_waiting w) c'" for c'
      using c unfolding calls_ok_def by blast+
    have "distinct (map fst (oc_results w))" using c by (simp add: calls_ok_def)
    moreover have "\<forall>c' \<in> fst ` set (oc_results w). c' \<in> settled ?e \<and> \<not> (c' = cp_id cmd \<or> jm_has (oc_waiting w) c')"
      using old(3) nr st by blast
    moreover have "\<forall>c'. live ?e c' \<longrightarrow> (c' = cp_id cmd \<or> jm_has (oc_waiting w) c') \<or> c' \<in> fst ` set (oc_results w)"
      using old(2) lv by blast
    moreover have "\<forall>c'. c' = cp_id cmd \<or> jm_has (oc_waiting w) c' \<longrightarrow> live ?e c'"
      using old(1) lv by blast
    ultimately show ?thesis unfolding calls_ok_def by (simp add: jm_has_set)
  qed
  moreover have "events_ok (w\<lparr>oc_engine := ?e, oc_waiting := jm_set (oc_waiting w) (cp_id cmd) k\<rparr>)"
    using w recs by (simp add: world_ok_def events_ok_def log_ok_def fleet_view_def)
  ultimately show ?thesis by (simp add: world_ok_def reservations_ok_def)
qed

lemma send_plain_ok:
  assumes "world_ok ev w"
  shows "world_ok ev (snd (send_plain throws i op room k w))"
proof (cases "jm_has (oc_links w) i")
  case True
  let ?e = "snd (next_cmd_id (oc_engine w))"
  have r: "reservations_ok ev w" using assms by (simp add: world_ok_def)
  note n = next_cmd_id_fresh [OF world_engine_ok [OF r]]
  have "fleet_holds.sound (ev_digest ev) {} {} ?e"
    by (rule fleet_holds.sound_frame [OF r [unfolded reservations_ok_def]]) (simp_all add: next_cmd_frame n(1))
  then have "world_ok ev (w\<lparr>oc_engine := engine_send fleet_releaser throws i
      \<lparr>cp_id = fst (next_cmd_id (oc_engine w)), cp_op = op, cp_room = room, cp_type = None\<rparr> None None ?e,
      oc_waiting := jm_set (oc_waiting w) (cp_id \<lparr>cp_id = fst (next_cmd_id (oc_engine w)), cp_op = op, cp_room = room, cp_type = None\<rparr>) k\<rparr>)"
    using n(2) by (intro send_step_ok [OF assms True]) (simp_all add: next_cmd_frame)
  with True show ?thesis by (simp add: send_plain_def case_prod_unfold Let_def)
qed (simp add: send_plain_def assms)

lemma destroy_room_ok:
  assumes "world_ok ev w"
  shows "world_ok ev (snd (destroy_room throws room w))"
proof -
  have inv: "fleet_inv (ev_digest ev) (fleet_of w)" using assms by (simp add: world_ok_def world_fleet_inv)
  note r = resolve_memo [OF inv]
  have "world_ok ev (with_fleet (snd (resolve_room room (fleet_of w))) w)"
    unfolding query_states by (rule memo_ok [OF assms r(2,3)])
  then show ?thesis
    by (cases "resolve_room room (fleet_of w)") (auto simp: destroy_room_def send_plain_ok split: option.split)
qed

lemma send_status_command_ok:
  assumes "world_ok ev w"
  shows "world_ok ev (snd (send_status_command throws i drain w))"
  using get_instance_ok(1) [OF assms, of i]
  by (cases "get_instance i (fleet_of w)") (auto simp: send_status_command_def send_plain_ok split: option.split)

lemma create_room_ok:
  assumes "world_ok ev w"
  shows "world_ok ev (snd (create_room rnd pr throws wanted req w))"
proof (cases "reserve_room_id rnd wanted (fleet_of w)")
  case (Pair x s)
  let ?d = "ev_digest ev"
  have r: "reservations_ok ev w" using assms by (simp add: world_ok_def)
  have inv: "fleet_inv ?d (fleet_of w)" by (rule world_fleet_inv [OF r])
  note spec = reserve_room_id_spec [OF inv, of rnd wanted, unfolded Pair fst_conv snd_conv]
  show ?thesis
  proof (cases x)
    case (Inl e)
    with spec(3) have m: "memo_only (fleet_of w) s" by blast
    from memo_ok [OF assms m spec(1)] Pair Inl show ?thesis by (simp add: create_room_def)
  next
    case (Inr room)
    note f = reserve_id_facts [OF inv, of rnd wanted room s, OF Pair [unfolded Inr]]
    from place_cases [of pr req s] show ?thesis
    proof (elim disjE exE)
      fix e assume p: "place pr req s = (Inl e, s)"
      have "world_ok ev (with_fleet (release_room_id room s) w)"
        by (rule fleet_only_ok [OF assms f(6)]) (simp add: release_room_id_def f(5))
      with Pair Inr p show ?thesis by (simp add: create_room_def)
    next
      fix i assume p: "place pr req s = (Inr (i, fst (reserve (ii_id i) s)), snd (reserve (ii_id i) s))"
      let ?r = "fst (reserve (ii_id i) s)" and ?s = "snd (reserve (ii_id i) s)"
      have tok: "tokens_ok s" using f(1) by (simp add: fleet_inv_def)
      note rf = reserve_facts [OF tok, where i = "ii_id i"]
      show ?thesis
      proof (cases "jm_has (oc_links w) (ii_id i)")
        case False
        note rr = reserve_release [OF f(1), of "ii_id i"]
        have "fleet_step ?d (release_room_id room s) (release_room_id room (release ?r ?s))"
          using rr(1) release_room_id_inv [of ?d "release ?r ?s" room] by (simp add: fleet_step_def release_room_id_def)
        then have "world_ok ev (with_fleet (release_room_id room (release ?r ?s)) w)"
          by (intro fleet_only_ok [OF assms fleet_step_trans [OF f(6)]])
              (assumption, simp add: release_room_id_def release_frame rf(6) f(5))
        with Pair Inr p False show ?thesis by (simp add: create_room_def)
      next
        case True
        let ?e = "(oc_engine w)\<lparr>en_rel := ?s\<rparr>"
        let ?n = "snd (next_cmd_id ?e)" and ?c = "fst (next_cmd_id ?e)"
        have snd: "fleet_holds.sound ?d {} {} (oc_engine w)" using r by (simp add: reservations_ok_def)
        have held: "held_tokens s = held_tokens (fleet_of w)" by (simp add: held_tokens_def f(4))
        have b: "balanced held_tokens fs_reserved_ids {} {} (oc_engine w)" using snd by (simp add: fleet_holds.sound_def)
        have c1: "rs_id q \<in> held_tokens s" if "carries (oc_engine w) j c q" for j c q
          using b that by (auto simp: balanced_def held)
        have c2: "x \<in> fs_reserved_ids (fleet_of w)" if "carries_id (oc_engine w) j c x" for j c x
          using b that by (auto simp: balanced_def)
        have ca: "carries ?e = carries (oc_engine w)" "carries_id ?e = carries_id (oc_engine w)"
          by (simp_all add: carries_def carries_id_def fun_eq_iff)
        have "balanced held_tokens fs_reserved_ids {rs_id ?r} {room} ?e"
          unfolding balanced_def ca
        proof (intro conjI, goal_cases)
          case 1
          have "held_tokens (fleet_of w) = {rs_id r | i c r. carries (oc_engine w) i c r}" using b by (simp add: balanced_def)
          then show ?case by (simp add: rf(2) held)
        next
          case 2
          have "fs_reserved_ids (fleet_of w) = {room | i c room. carries_id (oc_engine w) i c room}" using b by (simp add: balanced_def)
          then show ?case by (simp add: rf(5) f(3))
        next
          case 3
          show ?case using c1 rf(1) by (metis singletonD)
        next
          case 4
          show ?case using c2 f(2) by (metis singletonD)
        next
          case 5
          show ?case using b unfolding balanced_def by blast
        next
          case 6
          show ?case using b unfolding balanced_def by blast
        qed
        moreover have "engine_ok ?e" using snd by (simp add: fleet_holds.sound_def)
        moreover have "fleet_inv ?d ?s" by (rule reserve_inv [OF f(1)])
        moreover have "issued q ?s" if "carries ?e j c q" for j c q
        proof -
          have q: "carries (oc_engine w) j c q" using that by (simp add: carries_def)
          then have "issued q (fleet_of w)" using snd by (simp add: fleet_holds.sound_def)
          then have "issued q s" by (simp add: issued_def f(4))
          then show ?thesis by (rule rf(4)) (rule c1 [OF q])
        qed
        ultimately have se: "fleet_holds.sound ?d {rs_id ?r} {room} ?e" by (simp add: fleet_holds.sound_def)
        have eok: "engine_ok ?e" using se by (simp add: fleet_holds.sound_def)
        note n = next_cmd_id_fresh [OF eok]
        have sn: "fleet_holds.sound ?d {rs_id ?r} {room} ?n"
          by (rule fleet_holds.sound_frame [OF se]) (simp_all add: next_cmd_frame n)
        let ?cmd = "\<lparr>cp_id = ?c, cp_op = Create, cp_room = Some room, cp_type = Some (pi_type req)\<rparr>"
        let ?k = "ThenRoom \<lparr>ri_id = room, ri_type = pi_type req, ri_connections = 0, ri_instance = ii_id i,
                        ri_url = ii_url i, ri_local = False\<rparr>"
        have "world_ok ev (w\<lparr>oc_engine := engine_send fleet_releaser throws (ii_id i) ?cmd (Some ?r) (Some room) ?n,
            oc_waiting := jm_set (oc_waiting w) (cp_id ?cmd) ?k\<rparr>)"
          by (rule send_step_ok [OF assms True])
            (use sn n rf(3,6) f(5) in \<open>simp_all add: next_cmd_frame\<close>)
        with Pair Inr p True show ?thesis by (simp add: create_room_def case_prod_unfold Let_def)
      qed
    qed
  qed
qed

section \<open>Continuations and shutdown\<close>

lemma finish_call_ok:
  assumes "world_ok ev w" "jm_has (oc_waiting w) c" "c \<in> settled (oc_engine w)"
  shows "world_ok ev (finish_call c r w)"
proof -
  have "calls_ok w" using assms(1) by (simp add: world_ok_def)
  then have "calls_ok (finish_call c r w)"
    using assms(2,3) by (auto simp: calls_ok_def finish_call_def jm_has_delete)
  with assms(1) show ?thesis
    by (simp add: world_ok_def reservations_ok_def tables_ok_def mentions_def events_ok_def log_ok_def finish_call_def)
qed

lemma resume_ok:
  assumes "world_ok ev w"
  shows "world_ok ev (resume c w)"
proof -
  have st: "map_of (en_outcomes (oc_engine w)) c = Some out \<Longrightarrow> c \<in> settled (oc_engine w)" for out
    by (force simp: settled_def dest: map_of_SomeD)
  show ?thesis
  proof (cases "jm_has (oc_waiting w) c \<and> map_of (en_outcomes (oc_engine w)) c \<noteq> None")
    case False
    then have "resume c w = w" by (auto simp: resume_def jm_has_def split: option.split)
    with assms show ?thesis by simp
  next
    case True
    then obtain k out where k: "jm_get (oc_waiting w) c = Some k" "map_of (en_outcomes (oc_engine w)) c = Some out"
      by (auto simp: jm_has_def)
    note f = finish_call_ok [OF assms _ st [OF k(2)]]
    have "world_ok ev (finish_call c r (with_fleet (set_pending_status i x (fleet_of w)) w))" for r i x
      using True st [OF k(2)] by (intro finish_call_ok set_pending_status_ok assms) simp_all
    with f True k show ?thesis
      by (cases out; cases k) (simp_all add: resume_def)
  qed
qed

lemma orch_shutdown_ok: "world_ok ev w \<Longrightarrow> world_ok ev (orch_shutdown ev w)"
proof -
  have "world_ok ev w \<Longrightarrow> world_ok ev (fold (teardown_instance ev) is w)" for "is"
    by (induction "is" arbitrary: w) (simp_all add: teardown_ok)
  then show "world_ok ev w \<Longrightarrow> world_ok ev (orch_shutdown ev w)" by (simp add: orch_shutdown_def)
qed

lemma orch_step_ok:
  assumes "orch_step ev w w'" "world_ok ev w"
  shows "world_ok ev w'"
  using assms by cases
    (simp_all add: handle_agent_join_ok handle_agent_leave_def teardown_ok handle_agent_message_ok poll_timer_ok
      command_timer_ok create_room_ok destroy_room_ok send_status_command_ok resume_ok orch_shutdown_ok)

lemma reachable_ok: "orch_reachable ev w \<Longrightarrow> world_ok ev w"
  by (induction rule: orch_reachable.induct) (auto intro: new_orch_ok orch_step_ok)

end
