(* ===== verification/Fleet_Orchestrator_Props.thy ===== *)
theory Fleet_Orchestrator_Props
  imports Fleet_Orchestrator_Inv
begin

text \<open>The properties of the orchestrator, over every reachable state.\<close>

declare map_of_eq_Some_iff [simp del] Some_eq_map_of_iff [simp del]

section \<open>A concrete environment\<close>

definition sample_env :: "wire_error orch_env" where
  "sample_env = \<lparr>ev_digest = \<lambda>s. s, ev_dec = decode_message fleet_schema, ev_unset = \<lambda>_ _. JUndef,
     ev_re_test = \<lambda>_ _. True, ev_url = \<lambda>u. Some (js ''ws:''), ev_heartbeat = 5000\<rparr>"

text \<open>One agent joined; then a room is asked for.\<close>

definition sample_joined :: orch where
  "sample_joined = handle_agent_join sample_env False False [1] new_orch"

definition sample_create :: orch where
  "sample_create = snd (create_room (\<lambda>_. []) 0 False (Some [0x78])
     \<lparr>pi_type = [0x67], pi_instance = None, pi_process = None, pi_strategy = None, pi_labels = None, pi_force = False\<rparr> sample_joined)"

lemma sample_orch_reachable: "orch_reachable sample_env sample_joined" "orch_reachable sample_env sample_create"
proof -
  show j: "orch_reachable sample_env sample_joined"
    unfolding sample_joined_def by (rule orch_reachable.step [OF orch_reachable.init]) (rule orch_step.join)
  show "orch_reachable sample_env sample_create"
    unfolding sample_create_def by (rule orch_reachable.step [OF j]) (rule orch_step.create)
qed

section \<open>Reservations\<close>

lemma reachable_parts:
  assumes "orch_reachable ev w"
  shows "reservations_ok ev w" "tables_ok w" "calls_ok w" "events_ok w" "fleet_inv (ev_digest ev) (fleet_of w)"
    "engine_ok (oc_engine w)" "balanced held_tokens fs_reserved_ids {} {} (oc_engine w)"
proof -
  show r: "reservations_ok ev w" "tables_ok w" "calls_ok w" "events_ok w"
    using reachable_ok [OF assms] by (simp_all add: world_ok_def)
  show "fleet_inv (ev_digest ev) (fleet_of w)" "engine_ok (oc_engine w)" "balanced held_tokens fs_reserved_ids {} {} (oc_engine w)"
    using r(1) by (simp_all add: reservations_ok_def fleet_holds.sound_def)
qed

text \<open>
  C34: no reservation leaks. In every reachable state the capacity tokens and the room ids that
  are reserved are exactly those carried by commands awaiting their answer, each by one command;
  so two pending creations never share a room id, and once no command is pending nothing is
  reserved and no instance has a reserved slot, however the commands ended.
\<close>

theorem reservations_accounted:
  assumes "orch_reachable ev w"
  shows "set (jm_keys (fs_reservations (fleet_of w))) = {rs_id r | i c r. carries (oc_engine w) i c r} \<and>
    fs_reserved_ids (fleet_of w) = {room | i c room. carries_id (oc_engine w) i c room} \<and>
    (\<forall>i c i' c' room. carries_id (oc_engine w) i c room \<longrightarrow> carries_id (oc_engine w) i' c' room \<longrightarrow> i = i' \<and> c = c') \<and>
    (\<forall>i c r i' c' r'. carries (oc_engine w) i c r \<longrightarrow> carries (oc_engine w) i' c' r' \<longrightarrow> rs_id r = rs_id r' \<longrightarrow> i = i' \<and> c = c') \<and>
    ((\<forall>i c. pend (oc_engine w) i c = None) \<longrightarrow>
       fs_reservations (fleet_of w) = [] \<and> fs_reserved_ids (fleet_of w) = {} \<and> (\<forall>i. reserved_rooms i (fleet_of w) = 0))"
proof -
  note p = reachable_parts [OF assms]
  have b: "set (jm_keys (fs_reservations (fleet_of w))) = {rs_id r | i c r. carries (oc_engine w) i c r}"
    "fs_reserved_ids (fleet_of w) = {room | i c room. carries_id (oc_engine w) i c room}"
    using p(7) by (simp_all add: balanced_def held_tokens_def)
  have none: "fs_reservations (fleet_of w) = [] \<and> fs_reserved_ids (fleet_of w) = {} \<and> (\<forall>i. reserved_rooms i (fleet_of w) = 0)"
    if "\<forall>i c. pend (oc_engine w) i c = None"
  proof -
    have n: "\<not> carries (oc_engine w) i c r" "\<not> carries_id (oc_engine w) i c room" for i c r room
      using that by (simp_all add: carries_def carries_id_def)
    have e: "fs_reservations (fleet_of w) = []" using b(1) n by simp
    have "counts (fs_reservations (fleet_of w)) (fs_reserved_by (fleet_of w))"
      using p(5) by (simp add: fleet_inv_def tokens_ok_def)
    from count_of_counts [OF this] e b(2) n show ?thesis by (simp add: reserved_rooms_def)
  qed
  have "(\<forall>i c i' c' room. carries_id (oc_engine w) i c room \<longrightarrow> carries_id (oc_engine w) i' c' room \<longrightarrow> i = i' \<and> c = c') \<and>
    (\<forall>i c r i' c' r'. carries (oc_engine w) i c r \<longrightarrow> carries (oc_engine w) i' c' r' \<longrightarrow> rs_id r = rs_id r' \<longrightarrow> i = i' \<and> c = c')"
    using p(7) unfolding balanced_def by blast
  with b none show ?thesis by blast
qed

theorem reservations_accounted_witness:
  "fs_reserved_ids (fleet_of sample_create) = {room | i c room. carries_id (oc_engine sample_create) i c room}"
  using reservations_accounted [OF sample_orch_reachable(2)] by blast

section \<open>Calls\<close>

lemma in_flight_bound: "engine_ok e \<Longrightarrow> in_flight i e \<le> max_inflight_commands"
  by (auto simp: engine_ok_def table_ok_def in_flight_def split: option.split)

lemma settled_lookup:
  assumes "c \<in> settled e"
  shows "map_of (en_outcomes e) c \<noteq> None"
  using assms by (simp add: settled_def map_of_eq_None_iff)

lemma resume_result:
  assumes "jm_has (oc_waiting w) c" "c \<in> settled (oc_engine w)"
  shows "\<exists>r. oc_results (resume c w) = oc_results w @ [(c, r)]" "\<not> jm_has (oc_waiting (resume c w)) c"
proof -
  obtain k out where "jm_get (oc_waiting w) c = Some k" "map_of (en_outcomes (oc_engine w)) c = Some out"
    using assms(1) settled_lookup [OF assms(2)] by (auto simp: jm_has_def)
  then show "\<exists>r. oc_results (resume c w) = oc_results w @ [(c, r)]" "\<not> jm_has (oc_waiting (resume c w)) c"
    by (cases out; cases k; simp add: resume_def finish_call_def jm_has_delete)+
qed

lemma pending_call:
  assumes "orch_reachable ev w" and pend: "pend (oc_engine w) i c = Some pc"
  shows "jm_get (en_timers (oc_engine w)) (pc_timer pc) = Some (i, c)"
    and "jm_has (oc_waiting w) c"
    and "oc_results (resume c (command_timer (pc_timer pc) w)) = oc_results w @ [(c, Inl CommandTimeout)]"
proof -
  note p = reachable_parts [OF assms(1)]
  let ?e = "oc_engine w"
  let ?t = "settled_by i c (Rejected CommandTimeout) (hold_state fleet_releaser (pc_reservation pc) (pc_room pc)) ?e"
  have once: "once_ok ?e" and timers: "timers_ok ?e" using p(6) by (simp_all add: engine_ok_def)
  show armed: "jm_get (en_timers ?e) (pc_timer pc) = Some (i, c)"
    using timers pend unfolding timers_ok_def by blast
  have "live ?e c" and unsettled: "c \<notin> settled ?e" using pend once by (auto simp: live_def once_ok_def)
  with p(3) show waiting: "jm_has (oc_waiting w) c" unfolding calls_ok_def by blast
  have t: "command_timer (pc_timer pc) w = w\<lparr>oc_engine := ?t\<rparr>"
    using armed pend by (simp add: command_timer_def engine_timeout_cases [OF timers])
  have "map_of (en_outcomes ?e) c = None" using unsettled by (simp add: settled_def map_of_eq_None_iff)
  then have "map_of (en_outcomes ?t) c = Some (Rejected CommandTimeout)"
    by (simp add: settled_by_frame map_add_def)
  moreover obtain k where "jm_get (oc_waiting w) c = Some k" using waiting by (auto simp: jm_has_def)
  ultimately show "oc_results (resume c (command_timer (pc_timer pc) w)) = oc_results w @ [(c, Inl CommandTimeout)]"
    by (simp add: t resume_def finish_call_def)
qed

text \<open>
  C35: every control call completes, once. A call that waits for its command either has the
  command pending with its timeout armed, or settled; firing that timeout settles it, and the
  continuation of a settled call yields its result. No call yields two results. At most 32
  commands are in flight per instance.
\<close>

theorem calls_complete_once:
  assumes "orch_reachable ev w"
  shows "distinct (map fst (oc_results w)) \<and>
    (\<forall>i. in_flight i (oc_engine w) \<le> 32) \<and>
    (\<forall>c. jm_has (oc_waiting w) c \<longrightarrow> c \<notin> fst ` set (oc_results w) \<and>
       ((\<exists>i pc. pend (oc_engine w) i c = Some pc \<and> jm_get (en_timers (oc_engine w)) (pc_timer pc) = Some (i, c)) \<or>
        c \<in> settled (oc_engine w))) \<and>
    (\<forall>i c pc. pend (oc_engine w) i c = Some pc \<longrightarrow>
       jm_has (oc_waiting w) c \<and>
       oc_results (resume c (command_timer (pc_timer pc) w)) = oc_results w @ [(c, Inl CommandTimeout)]) \<and>
    (\<forall>c. jm_has (oc_waiting w) c \<and> c \<in> settled (oc_engine w) \<longrightarrow>
       (\<exists>r. oc_results (resume c w) = oc_results w @ [(c, r)]))"
proof -
  note p = reachable_parts [OF assms]
  note pc = pending_call [OF assms]
  let ?e = "oc_engine w"
  have pending: "(\<exists>i pc. pend ?e i c = Some pc \<and> jm_get (en_timers ?e) (pc_timer pc) = Some (i, c)) \<or> c \<in> settled ?e"
    if "jm_has (oc_waiting w) c" for c
  proof -
    have "live ?e c" using p(3) that unfolding calls_ok_def by blast
    with pc(1) show ?thesis unfolding live_def by blast
  qed
  have fresh: "c \<notin> fst ` set (oc_results w)" if "jm_has (oc_waiting w) c" for c
    using p(3) that unfolding calls_ok_def by blast
  have cap: "in_flight i ?e \<le> 32" for i using in_flight_bound [OF p(6), of i] by (simp add: max_inflight_commands_def)
  show ?thesis
  proof (intro conjI allI impI, goal_cases)
    case 1
    show ?case using p(3) by (simp add: calls_ok_def)
  next
    case (2 i)
    show ?case by (rule cap)
  next
    case (3 c)
    then show ?case by (rule fresh)
  next
    case (4 c)
    then show ?case by (rule pending)
  next
    case (5 i c pc)
    then show ?case by (rule pc(2))
  next
    case (6 i c pc)
    then show ?case by (rule pc(3))
  next
    case (7 c)
    then show ?case by (auto intro: resume_result(1))
  qed
qed

theorem calls_complete_once_witness: "distinct (map fst (oc_results sample_create)) \<and> in_flight [1] (oc_engine sample_create) \<le> 32"
  using calls_complete_once [OF sample_orch_reachable(2)] by blast

section \<open>Events\<close>

text \<open>
  C36: the event stream is exact. A subscriber that starts empty and applies the events emitted so
  far never sees a contradiction (no second join or creation without a leave or destruction in
  between, no leave, stale mark or destruction of something unknown), and ends with exactly the
  instances and the public room ids of the read model.
\<close>

theorem event_stream_exact:
  assumes "orch_reachable ev w"
  shows "observe ({}, {}) (oc_events w) =
    Some (set (map ii_id (fst (fleet_instances (fleet_of w)))), set (map ri_id (fst (fleet_rooms (fleet_of w)))))"
proof -
  note p = reachable_parts [OF assms]
  from p(4) show ?thesis
    by (simp add: events_ok_def log_ok_def fleet_view_def view_of_def query_answers [OF p(5)])
qed

theorem event_stream_exact_witness:
  "observe ({}, {}) (oc_events sample_joined) = Some (set (map ii_id (fst (fleet_instances (fleet_of sample_joined)))),
     set (map ri_id (fst (fleet_rooms (fleet_of sample_joined)))))"
  by (rule event_stream_exact [OF sample_orch_reachable(1)])

section \<open>Teardown\<close>

lemma reject_loop_outcomes:
  "pend e i c \<noteq> None \<Longrightarrow> c \<in> set cs \<Longrightarrow> (c, Rejected InstanceDisconnected) \<in> set (en_outcomes (fold (reject_one rel i) cs e))"
proof (induction cs arbitrary: e)
  case (Cons d cs)
  show ?case
  proof (cases "d = c")
    case True
    then obtain pc where "pend e i d = Some pc" using Cons.prems(1) by blast
    then have "(d, Rejected InstanceDisconnected) \<in> set (en_outcomes (reject_one rel i d e))"
      by (simp add: reject_one_cases settled_by_frame)
    moreover have "set (en_outcomes e') \<subseteq> set (en_outcomes (fold (reject_one rel i) cs e'))" for e'
      using reject_loop_progress [of e' rel i cs] by (auto simp: progress_def)
    ultimately show ?thesis using True by auto
  next
    case False
    with Cons.prems have "pend (reject_one rel i d e) i c \<noteq> None" by (simp add: reject_one_pend)
    with Cons.IH Cons.prems(2) False show ?thesis by simp
  qed
qed simp

lemma reject_all_outcomes:
  assumes "pend e i c \<noteq> None"
  shows "(c, Rejected InstanceDisconnected) \<in> set (en_outcomes (reject_all rel i e))"
proof -
  obtain m where m: "jm_get (en_pending e) i = Some m" "c \<in> set (jm_keys m)"
    using assms by (auto simp: pend_def jm_has_iff_keys [symmetric] jm_has_def simp del: set_map split: option.splits)
  then show ?thesis using reject_loop_outcomes [OF assms m(2), of rel] by (simp add: reject_all_loop)
qed

lemma reconcile_outcomes: "en_outcomes (oc_engine (run_reconcile ev w)) = en_outcomes (oc_engine w)"
  by (simp add: run_reconcile_def case_prod_unfold emit_events_def Let_def)

definition gone :: "jsstr \<Rightarrow> orch \<Rightarrow> bool" where
  "gone i w \<longleftrightarrow> \<not> jm_has (oc_links w) i \<and> \<not> poller_has i (oc_poller w) \<and> (\<forall>c. pend (oc_engine w) i c = None) \<and>
     in_flight i (oc_engine w) = 0 \<and> fst (get_instance i (fleet_of w)) = None"

definition others_kept :: "jsstr \<Rightarrow> orch \<Rightarrow> orch \<Rightarrow> bool" where
  "others_kept i w v \<longleftrightarrow> (\<forall>j. j \<noteq> i \<longrightarrow> jm_has (oc_links v) j = jm_has (oc_links w) j \<and>
     poller_has j (oc_poller v) = poller_has j (oc_poller w) \<and>
     jm_get (fs_records (fleet_of v)) j = jm_get (fs_records (fleet_of w)) j \<and>
     (\<forall>c. pend (oc_engine v) j c = pend (oc_engine w) j c))"

lemma no_record_no_instance:
  assumes "reservations_ok ev w" "\<not> jm_has (fs_records (fleet_of w)) i"
  shows "fst (get_instance i (fleet_of w)) = None"
proof -
  have inv: "fleet_inv (ev_digest ev) (fleet_of w)" by (rule world_fleet_inv [OF assms(1)])
  then have "records_ok (fs_records (fleet_of w))" by (simp add: fleet_inv_def)
  with assms(2) show ?thesis
    by (simp add: query_answers(3) [OF inv] build_view_by_id map_of_map jm_has_def)
qed

lemma in_flight_none:
  assumes "engine_ok e" "\<And>c. pend e i c = None"
  shows "in_flight i e = 0"
proof (cases "jm_get (en_pending e) i")
  case (Some m)
  have "map_of m = Map.empty" using assms(2) Some by (auto simp: pend_def fun_eq_iff)
  then have "m = []" by simp
  with Some show ?thesis by (simp add: in_flight_def)
qed (simp add: in_flight_def)

lemma teardown_gone:
  assumes w: "world_ok ev w" and l: "jm_has (oc_links w) i"
  shows "gone i (teardown_instance ev i w)" "others_kept i w (teardown_instance ev i w)"
    "pend (oc_engine w) i c \<noteq> None \<Longrightarrow>
       (c, Rejected InstanceDisconnected) \<in> set (en_outcomes (oc_engine (teardown_instance ev i w)))"
    "oc_closed (teardown_instance ev i w) = oc_closed w"
proof -
  let ?v = "teardown_instance ev i w"
  have ok: "world_ok ev ?v" by (rule teardown_ok(1) [OF w])
  have t: "oc_links ?v = jm_delete (oc_links w) i \<and> oc_poller ?v = forget i (oc_poller w) \<and>
       fs_records (fleet_of ?v) = jm_delete (fs_records (fleet_of w)) i \<and>
       (\<forall>j c. pend (oc_engine ?v) j c = (if j = i then None else pend (oc_engine w) j c)) \<and> oc_closed ?v = oc_closed w"
    using teardown_ok(2) [OF w, of i] l by blast
  have r: "reservations_ok ev ?v" using ok by (simp add: world_ok_def)
  have nr: "\<not> jm_has (fs_records (fleet_of ?v)) i" using t by (simp add: jm_has_delete)
  show "gone i ?v"
    using t no_record_no_instance [OF r nr] in_flight_none [OF world_engine_ok [OF r], of i]
    by (simp add: gone_def jm_has_delete forget_has)
  show "others_kept i w ?v"
    using t by (simp add: others_kept_def jm_has_delete forget_has jm_get_delete)
  show "oc_closed ?v = oc_closed w" using t by simp
  assume "pend (oc_engine w) i c \<noteq> None"
  then have "(c, Rejected InstanceDisconnected) \<in> set (en_outcomes (oc_engine (dropped_world i w)))"
    by (simp add: dropped_world_def Let_def reject_all_outcomes)
  then show "(c, Rejected InstanceDisconnected) \<in> set (en_outcomes (oc_engine ?v))"
    using l by (simp add: teardown_cases reconcile_outcomes leave_events_frame)
qed

text \<open>
  C37: a departed agent leaves nothing behind. When the socket of a linked agent closes, the agent
  is neither linked nor polled, has no command in flight and no row in the read model; every
  command it had pending is rejected as disconnected; links, polling, records and pending
  commands of every other agent are untouched, and nobody's socket is closed. At any time only
  linked agents are polled, recorded or sent commands.
\<close>

theorem departure_is_complete:
  assumes "orch_reachable ev w"
  shows "(jm_has (oc_links w) i \<longrightarrow>
      (let v = handle_agent_leave ev i w
       in gone i v \<and> others_kept i w v \<and> oc_closed v = oc_closed w \<and>
          (\<forall>c. pend (oc_engine w) i c \<noteq> None \<longrightarrow> (c, Rejected InstanceDisconnected) \<in> set (en_outcomes (oc_engine v))))) \<and>
    (\<forall>j. jm_has (fs_records (fleet_of w)) j \<or> poller_has j (oc_poller w) \<or> (\<exists>c. pend (oc_engine w) j c \<noteq> None) \<longrightarrow>
       jm_has (oc_links w) j)"
proof -
  have w: "world_ok ev w" by (rule reachable_ok [OF assms])
  then have "tables_ok w" by (simp add: world_ok_def)
  with teardown_gone [OF w, of i] show ?thesis
    by (auto simp: handle_agent_leave_def Let_def tables_ok_def mentions_def)
qed

theorem departure_is_complete_witness: "gone [1] (handle_agent_leave sample_env [1] sample_joined)"
proof -
  have "jm_has (oc_links sample_joined) [1]"
    by (simp add: sample_joined_def handle_agent_join_def start_polling_def poll_def schedule_def new_orch_def new_poller_def
        orch_send_poll_def Let_def case_prod_unfold jm_get_set jm_has_def)
  with departure_is_complete [OF sample_orch_reachable(1), of "[1]"] show ?thesis by (simp add: Let_def)
qed

section \<open>Enforcement\<close>

definition kicked :: "jsstr \<Rightarrow> orch \<Rightarrow> orch \<Rightarrow> bool" where
  "kicked i w v \<longleftrightarrow> gone i v \<and> others_kept i w v \<and> oc_closed v = oc_closed w @ [i]"

definition served :: "jsstr \<Rightarrow> orch \<Rightarrow> orch \<Rightarrow> bool" where
  "served i w v \<longleftrightarrow> oc_links v = oc_links w \<and> others_kept i w v \<and> oc_closed v = oc_closed w"

lemma kick_kicked:
  assumes "world_ok ev w" "jm_has (oc_links w) i"
  shows "kicked i w (orch_kick ev i w)"
proof -
  have eq: "oc_engine (close_link b i v) = oc_engine v" "oc_links (close_link b i v) = oc_links v"
    "oc_poller (close_link b i v) = oc_poller v" for b and v
    by (simp_all add: close_link_def)
  note t = teardown_gone [OF assms]
  show ?thesis
    using t(1,2,4) assms(2) by (simp add: kicked_def orch_kick_def gone_def others_kept_def eq) (simp add: close_link_def)
qed

lemma reconcile_frame_all:
  "oc_links (run_reconcile ev w) = oc_links w" "oc_poller (run_reconcile ev w) = oc_poller w"
  "oc_closed (run_reconcile ev w) = oc_closed w" "pend (oc_engine (run_reconcile ev w)) = pend (oc_engine w)"
  by (simp_all add: run_reconcile_def case_prod_unfold emit_events_def Let_def)

lemma apply_snapshot_others:
  "j \<noteq> i \<Longrightarrow> jm_get (fs_records (fst (apply_snapshot i p now s))) j = jm_get (fs_records s) j"
  by (auto simp: apply_snapshot_cases reconcile_frame clear_pending_frame invalidate_def stored_def jm_get_set split: option.split)

lemma touch_others: "j \<noteq> i \<Longrightarrow> jm_get (fs_records (touch i now s)) j = jm_get (fs_records s) j"
  by (auto simp: touch_def Let_def reconcile_frame clear_pending_frame jm_get_set split: option.split)

lemma reconcile_records:
  assumes "fleet_inv (ev_digest ev) (fleet_of w)"
  shows "fs_records (fleet_of (run_reconcile ev w)) = fs_records (fleet_of w)"
proof -
  have m: "memo_only (fleet_of w) (snd (fleet_instances (fleet_of w)))" "fleet_inv (ev_digest ev) (snd (fleet_instances (fleet_of w)))"
    using resolve_memo(2,3) [OF assms] query_states(1) [of "fleet_of w"] by simp_all
  from memo_only_fields(1) [OF m(1)] memo_only_fields(1) [OF fleet_stats_inv(2) [OF m(2)]] show ?thesis
    by (simp add: run_reconcile_def case_prod_unfold emit_events_def Let_def)
qed

lemma handle_state_served:
  assumes w: "world_ok ev w" and a: "snd (poll_reply i (sy_req st) (oc_poller w))"
  shows "served i w (handle_state ev now i st w)"
proof -
  let ?w = "with_fleet (set_stale i False (fleet_of w)) (w\<lparr>oc_poller := fst (poll_reply i (sy_req st) (oc_poller w))\<rparr>)"
  let ?p = "sync_payload.truncate st"
  let ?a = "apply_snapshot i ?p now (fleet_of ?w)"
  have h: "handle_state ev now i st w =
      (if \<not> sy_full st then with_fleet (touch i now (fleet_of ?w)) ?w
       else case validate_snapshot (ev_re_test ev) (ev_url ev) ?p of
              Some r \<Rightarrow> ?w | None \<Rightarrow> if snd ?a then run_reconcile ev (with_fleet (fst ?a) ?w) else with_fleet (fst ?a) ?w)"
    using a by (simp add: handle_state_def case_prod_unfold Let_def split: option.split)
  have s: "fs_records (set_stale i False s) = fs_records s" for s by (simp add: set_stale_def)
  have "fleet_inv (ev_digest ev) (fleet_of w)" using w by (simp add: world_ok_def world_fleet_inv)
  then have inv: "fleet_inv (ev_digest ev) (fst ?a)" by (simp add: apply_snapshot_inv set_stale_inv)
  have rec: "fs_records (fleet_of (run_reconcile ev (with_fleet (fst ?a) ?w))) = fs_records (fst ?a)"
    using reconcile_records [of ev "with_fleet (fst ?a) ?w"] inv by simp
  have "served i w (run_reconcile ev (with_fleet (fst ?a) ?w))"
    unfolding served_def others_kept_def rec reconcile_frame_all
    by (simp add: poller_keys apply_snapshot_others s)
  moreover have "served i w ?w" "served i w (with_fleet (fst ?a) ?w)" "served i w (with_fleet (touch i now (fleet_of ?w)) ?w)"
    by (simp_all add: served_def others_kept_def poller_keys apply_snapshot_others touch_others s)
  ultimately show ?thesis unfolding h by (simp split: option.split)
qed

lemma handle_ack_served:
  assumes "snd (engine_ack fleet_releaser i a (oc_engine w))"
  shows "served i w (handle_ack ev i a w)"
proof -
  have "pend (fst (engine_ack fleet_releaser i a (oc_engine w))) j c = pend (oc_engine w) j c" if "j \<noteq> i" for j c
    using that by (simp add: engine_ack_cases settled_by_frame split: option.split)
  with assms show ?thesis
    by (simp add: handle_ack_def case_prod_unfold Let_def served_def others_kept_def records_kept.keep_ack)
qed

lemma topics_differ: "topic_state \<noteq> topic_ack"
  by (simp add: topic_state_def topic_ack_def js_def)

text \<open>
  C38: strict request and reply. For a linked agent, a frame on a topic that is not a reply, a
  state report whose request id is not that of its open poll, and an ack for a command it does not
  have pending all get exactly this agent kicked: torn down completely and its socket closed. A frame
  that does not decode changes nothing. A solicited report or ack is served: no link and no socket
  is touched. Whatever an agent sends, links, polling, records and commands of the others stay as
  they were.
\<close>

theorem unsolicited_frames_kick:
  assumes "orch_reachable ev w" "jm_has (oc_links w) i"
  shows "(topic \<noteq> topic_state \<and> topic \<noteq> topic_ack \<longrightarrow> kicked i w (handle_agent_message ev now i topic b w)) \<and>
    (\<forall>e. decode_frame (ev_dec ev) (ev_unset ev) topic b = Inl e \<and> topic \<in> {topic_state, topic_ack} \<longrightarrow>
       handle_agent_message ev now i topic b w = w) \<and>
    (\<forall>st. decode_frame (ev_dec ev) (ev_unset ev) topic_state b = Inr (StateFrame st) \<longrightarrow>
       (if snd (poll_reply i (sy_req st) (oc_poller w)) then served i w (handle_agent_message ev now i topic_state b w)
        else kicked i w (handle_agent_message ev now i topic_state b w))) \<and>
    (\<forall>a. decode_frame (ev_dec ev) (ev_unset ev) topic_ack b = Inr (AckFrame a) \<longrightarrow>
       (if pend (oc_engine w) i (ak_cmd a) \<noteq> None then served i w (handle_agent_message ev now i topic_ack b w)
        else kicked i w (handle_agent_message ev now i topic_ack b w)))"
proof -
  have w: "world_ok ev w" by (rule reachable_ok [OF assms(1)])
  note k = kick_kicked [OF w assms(2)]
  have state: "if snd (poll_reply i (sy_req st) (oc_poller w)) then served i w (handle_state ev now i st w)
      else kicked i w (handle_state ev now i st w)" for st
    using handle_state_served [OF w, of i st now] k by (simp add: handle_state_def case_prod_unfold Let_def)
  have known: "snd (engine_ack fleet_releaser i a (oc_engine w)) \<longleftrightarrow> pend (oc_engine w) i (ak_cmd a) \<noteq> None"
    "pend (oc_engine w) i (ak_cmd a) = None \<Longrightarrow> fst (engine_ack fleet_releaser i a (oc_engine w)) = oc_engine w" for a
    by (simp_all add: engine_ack_cases split: option.split)
  have ack: "if pend (oc_engine w) i (ak_cmd a) \<noteq> None then served i w (handle_ack ev i a w)
      else kicked i w (handle_ack ev i a w)" for a
    using handle_ack_served [of i a w ev] known [of a] k by (auto simp: handle_ack_def case_prod_unfold Let_def)
  show ?thesis
    using assms(2) k state ack topics_differ by (auto simp: handle_agent_message_def)
qed

theorem unsolicited_frames_kick_witness:
  "kicked [1] sample_joined (handle_agent_message sample_env 0 [1] (js ''x'') [] sample_joined) \<and>
   handle_agent_message sample_env 0 [1] topic_state [] sample_joined = sample_joined"
proof -
  have l: "jm_has (oc_links sample_joined) [1]"
    by (simp add: sample_joined_def handle_agent_join_def start_polling_def poll_def schedule_def new_orch_def new_poller_def
        orch_send_poll_def Let_def case_prod_unfold jm_get_set jm_has_def)
  have "js ''x'' \<noteq> topic_state" "js ''x'' \<noteq> topic_ack" by (simp_all add: topic_state_def topic_ack_def js_def)
  moreover have "decode_frame (ev_dec sample_env) (ev_unset sample_env) topic_state [] = Inl ShortFrame"
    by (simp add: decode_frame_def topic_type_def topic_state_def topic_hello_def topic_poll_def fleet_header_bytes_def js_def)
  ultimately show ?thesis
    using unsolicited_frames_kick [OF sample_orch_reachable(1) l, of "js ''x''" 0 "[]"]
      unsolicited_frames_kick [OF sample_orch_reachable(1) l, of topic_state 0 "[]"] by auto
qed

end
