(* ===== verification/Agent_Snapshot.thy ===== *)
theory Agent_Snapshot
  imports Core Fleet_Wire_Props
begin

text \<open>
  The snapshot builder of the fleet agent (\<open>fleet/src/agent/Snapshot.ts\<close>) over the room manager
  of the core (theory \<open>Core\<close>). \<open>assertCoreSupport\<close> and the check of \<open>room.type\<close> guard against
  older cores; with the core of this repository every room has a string type and they never
  fire. The digest is a parameter.
\<close>

section \<open>State\<close>

record snapshot_options =
  so_name :: jsstr
  so_url :: jsstr
  so_labels :: labels
  so_capacity :: capacity
  so_auto :: bool
  so_version :: jsstr
  so_uid :: jsstr

record snapshot_state =
  ss_origins :: "jsstr set"
  ss_status :: jsstr
  ss_seq :: nat

record snapshot_content =
  sc_name :: jsstr
  sc_process :: jsstr
  sc_version :: jsstr
  sc_protocol :: int
  sc_url :: jsstr
  sc_labels :: labels
  sc_capacity :: capacity
  sc_auto :: bool
  sc_types :: "jsstr list"
  sc_rooms :: "sync_room list"
  sc_status :: jsstr

definition new_snapshot_state :: snapshot_state where
  "new_snapshot_state = \<lparr>ss_origins = {}, ss_status = active, ss_seq = 0\<rparr>"

definition fleet_origin :: jsstr where "fleet_origin = js ''fleet''"

section \<open>Operations\<close>

definition set_status :: "jsstr \<Rightarrow> snapshot_state \<Rightarrow> snapshot_state" where
  "set_status st s = s\<lparr>ss_status := st\<rparr>"

definition mark_fleet_origin :: "jsstr \<Rightarrow> snapshot_state \<Rightarrow> snapshot_state" where
  "mark_fleet_origin rid s = s\<lparr>ss_origins := insert rid (ss_origins s)\<rparr>"

definition forget_room :: "jsstr \<Rightarrow> snapshot_state \<Rightarrow> snapshot_state" where
  "forget_room rid s = s\<lparr>ss_origins := ss_origins s - {rid}\<rparr>"

definition reset_connection :: "snapshot_state \<Rightarrow> snapshot_state" where
  "reset_connection s = s\<lparr>ss_seq := 0\<rparr>"

definition sync_room_of :: "world \<Rightarrow> snapshot_state \<Rightarrow> jsstr \<Rightarrow> sync_room option" where
  "sync_room_of w s rid = (case jm_get (wd_rooms w) rid of
     None \<Rightarrow> None
   | Some r \<Rightarrow> Some \<lparr>sr_id = rid, sr_type = rm_type (wd_heap w ! r),
       sr_connections = int (length (rm_actors (wd_heap w ! r))),
       sr_origin = (if rid \<in> ss_origins s then fleet_origin else local_origin)\<rparr>)"

definition compare_room_ids :: "sync_room \<Rightarrow> sync_room \<Rightarrow> int" where
  "compare_room_ids a b = (if sr_id a < sr_id b then -1 else if sr_id a > sr_id b then 1 else 0)"

definition build_content :: "snapshot_options \<Rightarrow> world \<Rightarrow> snapshot_state \<Rightarrow> snapshot_content" where
  "build_content opts w s =
     (let types = sort (jm_keys (wd_defs w));
          rooms = js_sort compare_room_ids (List.map_filter (sync_room_of w s) (jm_keys (wd_rooms w)))
      in \<lparr>sc_name = so_name opts, sc_process = so_uid opts, sc_version = so_version opts,
          sc_protocol = int protocol_version, sc_url = so_url opts, sc_labels = so_labels opts,
          sc_capacity = so_capacity opts, sc_auto = so_auto opts, sc_types = types, sc_rooms = rooms,
          sc_status = ss_status s\<rparr>)"

text \<open>The content as the object that is hashed.\<close>

definition content_value :: "snapshot_content \<Rightarrow> jsval" where
  "content_value c = JObj
     [(js ''name'', JStr (sc_name c)), (js ''processUid'', JStr (sc_process c)),
      (js ''agentVersion'', JStr (sc_version c)), (js ''protocolVersion'', JNum (sc_protocol c)),
      (js ''endpointUrl'', JStr (sc_url c)),
      (js ''labels'', JObj (map (\<lambda>(k, v). (k, JStr v)) (sc_labels c))),
      (js ''capacity'', capacity_to_message (sc_capacity c)), (js ''autoCreate'', JBool (sc_auto c)),
      (js ''roomTypes'', JArr (map JStr (sc_types c))), (js ''rooms'', JArr (map room_to_message (sc_rooms c))),
      (js ''status'', JStr (sc_status c))]"

definition rebuild :: "(jsstr \<Rightarrow> jsstr) \<Rightarrow> snapshot_options \<Rightarrow> world \<Rightarrow> snapshot_state \<Rightarrow> snapshot_content \<times> jsstr" where
  "rebuild digest opts w s = (let c = build_content opts w s in (c, hash64 digest (content_value c)))"

definition next_seq :: "snapshot_state \<Rightarrow> snapshot_state" where
  "next_seq s = s\<lparr>ss_seq := ss_seq s + 1\<rparr>"

definition state_reply :: "jsstr \<Rightarrow> bool \<Rightarrow> nat \<Rightarrow> jsstr \<Rightarrow> snapshot_content \<Rightarrow> state_payload" where
  "state_reply req full seq hash c =
     \<lparr>sp_seq = int seq, sp_hash = hash, sp_name = sc_name c, sp_process = sc_process c,
      sp_agent_version = sc_version c, sp_protocol = sc_protocol c, sp_url = sc_url c,
      sp_labels = sc_labels c, sp_capacity = sc_capacity c, sp_auto = sc_auto c, sp_types = sc_types c,
      sp_rooms = sc_rooms c, sp_status = sc_status c, sy_req = req, sy_full = full\<rparr>"

definition max_snapshot_bytes :: nat where
  "max_snapshot_bytes = 4 * 1024 * 1024"

text \<open>The size guard only logs; its result is the level of the log entry.\<close>

datatype size_level = SizeFine | SizeWarning | SizeError

definition check_size :: "nat \<Rightarrow> size_level" where
  "check_size n =
     (if 10 * n \<ge> 9 * max_snapshot_bytes then SizeError
      else if 2 * n \<ge> max_snapshot_bytes then SizeWarning else SizeFine)"

text \<open>A full reply is encoded once to measure it, which throws when it cannot be encoded; the
  sequence number has advanced by then.\<close>

definition agent_poll_reply ::
  "(jsstr \<Rightarrow> jsval \<Rightarrow> 'e + bytes) \<Rightarrow> (jsstr \<Rightarrow> jsstr) \<Rightarrow> snapshot_options \<Rightarrow> world \<Rightarrow>
   jsstr \<Rightarrow> jsstr option \<Rightarrow> snapshot_state \<Rightarrow> snapshot_state \<times> ('e frame_error + state_payload \<times> size_level)" where
  "agent_poll_reply enc digest opts w req known s =
     (let (c, hash) = rebuild digest opts w s; s = next_seq s
      in if known = Some hash then (s, Inr (state_reply req False (ss_seq s) hash c, SizeFine))
         else let p = state_reply req True (ss_seq s) hash c
              in case encode_frame enc (StateFrame p) of
                   Inl e \<Rightarrow> (s, Inl e)
                 | Inr b \<Rightarrow> (s, Inr (p, check_size (length b))))"

end
