(* ===== verification/Client_Node.thy ===== *)
theory Client_Node
  imports Handshake
begin

text \<open>
  The WebSocket client of the node package (\<open>node/src/WSClient.ts\<close>). The socket of the platform
  is its ready state; the events it fires are the operations \<open>node_open\<close>, \<open>node_message\<close>,
  \<open>node_error\<close> and \<open>node_close\<close>. An operation returns the events it emits, in order: a name and
  the argument its listeners get. \<open>opens\<close> says whether the constructors of \<open>URL\<close> and
  \<open>WebSocket\<close> succeed. A socket that the client let go of has no listeners left, so only
  the current one is heard.
\<close>

section \<open>State\<close>

datatype socket_phase = SockConnecting | SockOpen | SockClosing

datatype event_arg = NoArg | BytesArg bytes | KickedArg nat jsstr | ErrorArg | ValueArg jsval

type_synonym client_event = "jsstr \<times> event_arg"

definition ev_connect :: jsstr where "ev_connect = js ''client:connect''"
definition ev_disconnect :: jsstr where "ev_disconnect = js ''client:disconnect''"
definition ev_kicked :: jsstr where "ev_kicked = js ''client:kicked''"
definition ev_error :: jsstr where "ev_error = js ''client:error''"

record node_options =
  no_protocol :: bool  \<comment> \<open>\<open>ticketSource\<close> is \<open>'protocol'\<close>\<close>
  no_subprotocols :: "jsstr list"

text \<open>What the handshake carries: the \<open>ticket\<close> query parameter and the offered subprotocols.\<close>

record handshake_request =
  hq_query :: "jsstr option"
  hq_protocols :: "jsstr list"

record node_client =
  nc_socket :: "socket_phase option"
  nc_requests :: "handshake_request list"
  nc_sent :: "bytes list"

definition new_node_client :: node_client where
  "new_node_client = \<lparr>nc_socket = None, nc_requests = [], nc_sent = []\<rparr>"

section \<open>Operations\<close>

definition node_connected :: "node_client \<Rightarrow> bool" where
  "node_connected c \<longleftrightarrow> nc_socket c = Some SockOpen"

definition node_request :: "node_options \<Rightarrow> jsstr \<Rightarrow> handshake_request" where
  "node_request opts ticket =
     (if no_protocol opts then
        \<lparr>hq_query = None, hq_protocols = (if length ticket > 0 then ticket # no_subprotocols opts else no_subprotocols opts)\<rparr>
      else \<lparr>hq_query = Some ticket, hq_protocols = no_subprotocols opts\<rparr>)"

text \<open>The result says whether the call threw.\<close>

definition node_connect :: "node_options \<Rightarrow> bool \<Rightarrow> jsstr \<Rightarrow> node_client \<Rightarrow> node_client \<times> bool" where
  "node_connect opts opens ticket c =
     (if nc_socket c \<noteq> None then (c, False)
      else if \<not> opens then (c, True)
      else (c\<lparr>nc_socket := Some SockConnecting, nc_requests := nc_requests c @ [node_request opts ticket]\<rparr>, False))"

definition node_disconnect :: "node_client \<Rightarrow> node_client \<times> client_event list" where
  "node_disconnect c =
     (if nc_socket c = None then (c, [])
      else (c\<lparr>nc_socket := None\<rparr>, [(ev_disconnect, BytesArg (text_encode (js ''terminated'')))]))"

definition node_send :: "jsstr \<Rightarrow> bytes \<Rightarrow> node_client \<Rightarrow> node_client \<times> bool" where
  "node_send topic payload c =
     (if \<not> node_connected c then (c, False)
      else case message_encode topic payload of
             Inl _ \<Rightarrow> (c, True)
           | Inr frame \<Rightarrow> (c\<lparr>nc_sent := nc_sent c @ [frame]\<rparr>, False))"

section \<open>Events of the socket\<close>

definition node_open :: "node_client \<Rightarrow> node_client \<times> client_event list" where
  "node_open c =
     (if nc_socket c \<noteq> Some SockConnecting then (c, [])
      else (c\<lparr>nc_socket := Some SockOpen\<rparr>, [(ev_connect, NoArg)]))"

text \<open>The listener for messages is added when the socket opens. A frame that does not decode
  throws in the listener; one without a topic has the event name \<open>undefined\<close>, to which nobody
  listens.\<close>

definition property_arg :: "jsval \<Rightarrow> event_arg" where
  "property_arg v = (case v of JBytes b \<Rightarrow> BytesArg b | _ \<Rightarrow> ValueArg v)"

definition node_message :: "bytes \<Rightarrow> node_client \<Rightarrow> wire_error + client_event list" where
  "node_message frame c =
     (if nc_socket c = None \<or> nc_socket c = Some SockConnecting then Inr []
      else case message_decode frame of
             Inl e \<Rightarrow> Inl e
           | Inr v \<Rightarrow> (case get_prop v (js ''topic'') of
               JStr topic \<Rightarrow> Inr [(topic, property_arg (get_prop v (js ''payload'')))]
             | _ \<Rightarrow> Inr []))"

definition node_error :: "node_client \<Rightarrow> client_event list" where
  "node_error c = (if nc_socket c = None then [] else [(ev_error, ErrorArg)])"

definition node_closing :: "node_client \<Rightarrow> node_client" where
  "node_closing c = (if nc_socket c = Some SockOpen then c\<lparr>nc_socket := Some SockClosing\<rparr> else c)"

definition node_close :: "nat \<Rightarrow> bytes \<Rightarrow> node_client \<Rightarrow> node_client \<times> client_event list" where
  "node_close code reason c =
     (if nc_socket c = None then (c, [])
      else (c\<lparr>nc_socket := None\<rparr>,
            (if 4000 \<le> code \<and> code < 5000 then [(ev_kicked, KickedArg code (text_decode reason))] else []) @
            [(ev_disconnect, BytesArg reason)]))"

section \<open>Credentials and frames\<close>

lemma protocol_ticket_not_in_url: "no_protocol opts \<Longrightarrow> hq_query (node_request opts ticket) = None"
  by (simp add: node_request_def)

lemma protocol_ticket_first:
  "no_protocol opts \<Longrightarrow> ticket \<noteq> [] \<Longrightarrow> hd (hq_protocols (node_request opts ticket)) = ticket"
  by (simp add: node_request_def)

text \<open>A frame of the framework raises the event of its topic with its payload.\<close>

lemma node_message_frame:
  assumes "message_sendable (topic, payload)" "node_connected c"
  shows "node_message (message_bytes topic payload) c = Inr [(topic, BytesArg payload)]"
  using assms
  by (simp add: node_message_def node_connected_def message_encode_decode message_object_def property_arg_def
      get_prop_def js_eval)

lemma node_send_frame:
  assumes "message_sendable (topic, payload)" "node_connected c"
  shows "node_send topic payload c = (c\<lparr>nc_sent := nc_sent c @ [message_bytes topic payload]\<rparr>, False)"
  using assms by (simp add: node_send_def message_encode_decode)

lemma node_socket_frame [simp]:
  "nc_socket (fst (node_send topic payload c)) = nc_socket c"
  "nc_socket (fst (node_disconnect c)) = None"
  "node_connected (fst (node_send topic payload c)) = node_connected c"
  by (simp_all add: node_send_def node_disconnect_def node_connected_def split: sum.splits)

end
