(* ===== verification/Agent.thy ===== *)
theory Agent
  imports Agent_Snapshot Client_Node Complex_Main
begin

text \<open>
  The fleet agent (\<open>fleet/src/agent/FleetAgent.ts\<close>) inside its host process: the agent, its
  WebSocket client (\<open>Client_Node\<close>) and the server whose rooms it reports and changes
  (\<open>Core\<close>). A promise is the number of the call that returned it; \<open>CallResolved\<close> and
  \<open>CallRejected\<close> settle it. A timer is a handle in \<open>ag_timers\<close>. What the environment decides is
  an argument: \<open>opens\<close> (the socket's constructor succeeds), \<open>rnd\<close> (\<open>Math.random\<close>), \<open>fresh\<close>
  (\<open>generateId\<close>), \<open>why\<close> (the text of a thrown error). Listeners of the agent's own events are
  application code that does not call back into the agent while they run.
\<close>

declare map_of_eq_Some_iff [simp del] Some_eq_map_of_iff [simp del]

section \<open>State\<close>

datatype lifecycle = AgConnecting | AgConnected | AgDraining | AgClosed

datatype agent_timer = ReconnectTimer | ConnectDeadline | EmptyPoll nat | EmptyDeadline nat

datatype agent_event =
    CallResolved nat | CallRejected nat
  | EmitConnect jsstr | EmitDisconnect event_arg | EmitError | EmitCommand cmd_payload
  | Backoff nat nat  \<comment> \<open>attempt, delay\<close>

text \<open>A run of \<open>gracefulShutdown\<close>: the call it awaits.\<close>

datatype grace = GraceDrain nat nat | GraceEmpty nat | GraceDisconnect nat

record 'e agent_env =
  ae_options :: snapshot_options
  ae_digest :: "jsstr \<Rightarrow> jsstr"
  ae_enc :: "jsstr \<Rightarrow> jsval \<Rightarrow> 'e + bytes"
  ae_dec :: "jsstr \<Rightarrow> bytes \<Rightarrow> 'e + jsval"
  ae_unset :: "jsstr \<Rightarrow> jsstr \<Rightarrow> jsval"
  ae_client :: node_options
  ae_key :: jsstr
  ae_connect_timeout :: "nat option"
  ae_backoff_base :: nat
  ae_backoff_cap :: nat
  ae_hooks :: hooks
  ae_depth :: nat

record agent =
  ag_snapshot :: snapshot_state
  ag_client :: node_client
  ag_lifecycle :: lifecycle
  ag_instance :: "jsstr option"
  ag_closed :: bool
  ag_intentional :: bool
  ag_reconnect :: "nat option"
  ag_deadline :: "nat option"
  ag_attempt :: nat
  ag_connects :: "nat list"  \<comment> \<open>\<open>connectResolve\<close>: the calls it settles, \<open>[]\<close> for \<open>null\<close>\<close>
  ag_pending :: "(jsstr \<times> nat) list"  \<comment> \<open>\<open>pendingStatus\<close>\<close>
  ag_signals :: "nat option"  \<comment> \<open>the installed handler's \<open>emptyTimeoutMs\<close>\<close>
  ag_shutdowns :: "grace list"
  ag_attached :: bool
  ag_waits :: "(nat, nat \<times> nat option) jsmap"  \<comment> \<open>\<open>awaitEmpty\<close> calls: their interval and deadline\<close>
  ag_timers :: "(nat, agent_timer) jsmap"
  ag_next_timer :: nat
  ag_next_call :: nat
  ag_log :: "agent_event list"

record host =
  ho_agent :: agent
  ho_server :: server

abbreviation host_world :: "host \<Rightarrow> world" where
  "host_world x \<equiv> sv_world (ho_server x)"

definition new_agent :: agent where
  "new_agent = \<lparr>ag_snapshot = new_snapshot_state, ag_client = new_node_client, ag_lifecycle = AgClosed,
     ag_instance = None, ag_closed = False, ag_intentional = False, ag_reconnect = None, ag_deadline = None,
     ag_attempt = 0, ag_connects = [], ag_pending = [], ag_signals = None, ag_shutdowns = [], ag_attached = True, ag_waits = [],
     ag_timers = [], ag_next_timer = 0, ag_next_call = 0, ag_log = []\<rparr>"

section \<open>Timers and promises\<close>

definition log_events :: "agent_event list \<Rightarrow> agent \<Rightarrow> agent" where
  "log_events es a = a\<lparr>ag_log := ag_log a @ es\<rparr>"

definition set_timer :: "agent_timer \<Rightarrow> agent \<Rightarrow> nat \<times> agent" where
  "set_timer t a = (ag_next_timer a,
     a\<lparr>ag_timers := jm_set (ag_timers a) (ag_next_timer a) t, ag_next_timer := ag_next_timer a + 1\<rparr>)"

definition clear_timer :: "nat option \<Rightarrow> agent \<Rightarrow> agent" where
  "clear_timer h a = (case h of None \<Rightarrow> a | Some k \<Rightarrow> a\<lparr>ag_timers := jm_delete (ag_timers a) k\<rparr>)"

definition clear_reconnect :: "agent \<Rightarrow> agent" where
  "clear_reconnect a = (clear_timer (ag_reconnect a) a)\<lparr>ag_reconnect := None\<rparr>"

definition clear_connect_deadline :: "agent \<Rightarrow> agent" where
  "clear_connect_deadline a = (clear_timer (ag_deadline a) a)\<lparr>ag_deadline := None\<rparr>"

definition clear_all_timers :: "agent \<Rightarrow> agent" where
  "clear_all_timers a = (clear_connect_deadline (clear_reconnect a))\<lparr>ag_signals := None\<rparr>"

definition new_call :: "agent \<Rightarrow> nat \<times> agent" where
  "new_call a = (ag_next_call a, a\<lparr>ag_next_call := ag_next_call a + 1\<rparr>)"

definition reject_pending_status :: "agent \<Rightarrow> agent" where
  "reject_pending_status a = log_events (map (CallRejected \<circ> snd) (ag_pending a)) (a\<lparr>ag_pending := []\<rparr>)"

definition resolve_status_on_echo :: "jsstr \<Rightarrow> agent \<Rightarrow> agent" where
  "resolve_status_on_echo echoed a =
     log_events (map (CallResolved \<circ> snd) (filter (\<lambda>p. fst p = echoed) (ag_pending a)))
       (a\<lparr>ag_pending := filter (\<lambda>p. fst p \<noteq> echoed) (ag_pending a)\<rparr>)"

definition settle_connect :: "(nat \<Rightarrow> agent_event) \<Rightarrow> agent \<Rightarrow> agent" where
  "settle_connect f a = log_events (map f (ag_connects a)) (a\<lparr>ag_connects := []\<rparr>)"

section \<open>Connecting\<close>

text \<open>What \<open>Math.random\<close> returns.\<close>

definition unit_random :: "real \<Rightarrow> bool" where
  "unit_random r \<longleftrightarrow> 0 \<le> r \<and> r < 1"

definition backoff_delay :: "'e agent_env \<Rightarrow> real \<Rightarrow> nat \<Rightarrow> nat" where
  "backoff_delay E rnd attempt =
     nat \<lfloor>rnd * real (min (ae_backoff_cap E) (ae_backoff_base E * 2 ^ attempt))\<rfloor>"

definition schedule_reconnect :: "'e agent_env \<Rightarrow> real \<Rightarrow> agent \<Rightarrow> agent" where
  "schedule_reconnect E rnd a =
     (if ag_closed a \<or> ag_intentional a \<or> ag_reconnect a \<noteq> None then a
      else let delay = backoff_delay E rnd (ag_attempt a);
               a = log_events [Backoff (ag_attempt a) delay] a;
               a = a\<lparr>ag_attempt := ag_attempt a + 1\<rparr>;
               (h, a) = set_timer ReconnectTimer a
           in a\<lparr>ag_reconnect := Some h\<rparr>)"

definition open_connection :: "'e agent_env \<Rightarrow> bool \<Rightarrow> real \<Rightarrow> agent \<Rightarrow> agent" where
  "open_connection E opens rnd a =
     (if ag_closed a then a
      else let (c, threw) = node_connect (ae_client E) opens (ae_key E) (ag_client a); a = a\<lparr>ag_client := c\<rparr>
           in if threw then schedule_reconnect E rnd a else a)"

definition on_transport_close :: "'e agent_env \<Rightarrow> real \<Rightarrow> event_arg \<Rightarrow> agent \<Rightarrow> agent" where
  "on_transport_close E rnd reason a =
     (if ag_closed a \<or> ag_intentional a then a
      else schedule_reconnect E rnd
             (log_events [EmitDisconnect reason] ((reject_pending_status a)\<lparr>ag_lifecycle := AgConnecting\<rparr>)))"

text \<open>The client's own \<open>disconnect\<close>: its event reaches the agent while the listeners are attached.\<close>

definition client_disconnect :: "'e agent_env \<Rightarrow> real \<Rightarrow> agent \<Rightarrow> agent" where
  "client_disconnect E rnd a =
     (let (c, evs) = node_disconnect (ag_client a); a = a\<lparr>ag_client := c\<rparr>
      in if ag_attached a then fold (\<lambda>e. on_transport_close E rnd (snd e)) evs a else a)"

definition attach_listeners :: "agent \<Rightarrow> agent" where
  "attach_listeners a = a\<lparr>ag_attached := True\<rparr>"

definition detach_listeners :: "agent \<Rightarrow> agent" where
  "detach_listeners a = a\<lparr>ag_attached := False\<rparr>"

definition fail_connect :: "'e agent_env \<Rightarrow> real \<Rightarrow> agent \<Rightarrow> agent" where
  "fail_connect E rnd a =
     (let a = a\<lparr>ag_closed := True, ag_intentional := True\<rparr>;
          a = reject_pending_status (clear_all_timers a);
          a = client_disconnect E rnd a;
          a = (detach_listeners a)\<lparr>ag_lifecycle := AgClosed\<rparr>
      in settle_connect CallRejected a)"

definition agent_connect :: "'e agent_env \<Rightarrow> bool \<Rightarrow> real \<Rightarrow> agent \<Rightarrow> agent" where
  "agent_connect E opens rnd a =
     (let (call, a) = new_call a in
      if ag_lifecycle a = AgConnected \<or> ag_lifecycle a = AgDraining then log_events [CallResolved call] a
      else if ag_connects a \<noteq> [] then a\<lparr>ag_connects := ag_connects a @ [call]\<rparr>
      else
        let a = attach_listeners (a\<lparr>ag_closed := False, ag_intentional := False,
                  ag_lifecycle := AgConnecting, ag_attempt := 0\<rparr>);
            a = a\<lparr>ag_connects := [call]\<rparr>;
            a = (case ae_connect_timeout E of
                   None \<Rightarrow> a
                 | Some _ \<Rightarrow> (let (h, a) = set_timer ConnectDeadline a in a\<lparr>ag_deadline := Some h\<rparr>))
        in open_connection E opens rnd a)"

definition agent_disconnect :: "'e agent_env \<Rightarrow> real \<Rightarrow> agent \<Rightarrow> agent" where
  "agent_disconnect E rnd a =
     (let (call, a) = new_call a;
          a = a\<lparr>ag_intentional := True, ag_closed := True\<rparr>;
          a = reject_pending_status (clear_all_timers a);
          a = client_disconnect E rnd a;
          a = (detach_listeners a)\<lparr>ag_lifecycle := AgClosed\<rparr>;
          a = settle_connect CallRejected a
      in log_events [EmitDisconnect (BytesArg (text_encode (js ''closed''))), CallResolved call] a)"

section \<open>Status\<close>

definition lifecycle_of :: "jsstr \<Rightarrow> lifecycle" where
  "lifecycle_of st = (if st = draining then AgDraining else AgConnected)"

definition request_status :: "jsstr \<Rightarrow> agent \<Rightarrow> agent" where
  "request_status target a =
     (let (call, a) = new_call a
      in a\<lparr>ag_snapshot := set_status target (ag_snapshot a), ag_lifecycle := lifecycle_of target,
           ag_pending := ag_pending a @ [(target, call)]\<rparr>)"

definition agent_drain :: "agent \<Rightarrow> agent" where "agent_drain a = request_status draining a"
definition agent_undrain :: "agent \<Rightarrow> agent" where "agent_undrain a = request_status active a"

section \<open>Waiting for empty rooms\<close>

definition rooms_empty :: "world \<Rightarrow> bool" where
  "rooms_empty w = list_all (\<lambda>rid. case jm_get (wd_rooms w) rid of
     None \<Rightarrow> True | Some r \<Rightarrow> \<not> length (rm_actors (wd_heap w ! r)) > 0) (jm_keys (wd_rooms w))"

definition await_empty :: "nat option \<Rightarrow> world \<Rightarrow> agent \<Rightarrow> agent" where
  "await_empty timeout w a =
     (let (call, a) = new_call a in
      if rooms_empty w then log_events [CallResolved call] a
      else
        let (p, a) = set_timer (EmptyPoll call) a;
            (d, a) = (case timeout of None \<Rightarrow> (None, a)
                      | Some _ \<Rightarrow> (let (h, a) = set_timer (EmptyDeadline call) a in (Some h, a)))
        in a\<lparr>ag_waits := jm_set (ag_waits a) call (p, d)\<rparr>)"

definition end_wait :: "nat \<Rightarrow> agent_event \<Rightarrow> agent \<Rightarrow> agent" where
  "end_wait call e a = (case jm_get (ag_waits a) call of
     None \<Rightarrow> a
   | Some (p, d) \<Rightarrow>
       log_events [e] ((clear_timer d (clear_timer (Some p) a))\<lparr>ag_waits := jm_delete (ag_waits a) call\<rparr>))"

section \<open>Frames\<close>

definition agent_send :: "'e agent_env \<Rightarrow> fleet_frame \<Rightarrow> agent \<Rightarrow> agent" where
  "agent_send E f a = (case encode_frame (ae_enc E) f of
     Inl _ \<Rightarrow> a
   | Inr b \<Rightarrow> a\<lparr>ag_client := fst (node_send (topic_of f) b (ag_client a))\<rparr>)"

definition on_agent :: "(agent \<Rightarrow> agent) \<Rightarrow> host \<Rightarrow> host" where
  "on_agent f x = x\<lparr>ho_agent := f (ho_agent x)\<rparr>"

definition to_bytes :: "event_arg \<Rightarrow> bytes" where
  "to_bytes raw = (case raw of BytesArg b \<Rightarrow> b | ValueArg (JStr s) \<Rightarrow> text_encode s | _ \<Rightarrow> [])"

definition on_hello :: "'e agent_env \<Rightarrow> real \<Rightarrow> event_arg \<Rightarrow> agent \<Rightarrow> agent" where
  "on_hello E rnd raw a = (case decode_frame (ae_dec E) (ae_unset E) topic_hello (to_bytes raw) of
     Inl (WrongMajor m) \<Rightarrow> fail_connect E rnd (log_events [EmitError] a)
   | Inr (HelloFrame h) \<Rightarrow>
       (if hp_protocol h \<noteq> int protocol_version then fail_connect E rnd (log_events [EmitError] a)
        else
          let a = clear_connect_deadline (clear_reconnect (a\<lparr>ag_instance := Some (hp_instance h), ag_attempt := 0\<rparr>));
              a = a\<lparr>ag_snapshot := reset_connection (ag_snapshot a)\<rparr>;
              a = a\<lparr>ag_lifecycle := lifecycle_of (ss_status (ag_snapshot a))\<rparr>
          in log_events [EmitConnect (hp_instance h)] (settle_connect CallResolved a))
   | _ \<Rightarrow> a)"

text \<open>\<open>guard\<close> turns a throw of the handler into an \<open>error\<close> event.\<close>

definition on_poll :: "'e agent_env \<Rightarrow> event_arg \<Rightarrow> world \<Rightarrow> agent \<Rightarrow> agent" where
  "on_poll E raw w a = (case decode_frame (ae_dec E) (ae_unset E) topic_poll (to_bytes raw) of
     Inr (PollFrame p) \<Rightarrow>
       (let a = resolve_status_on_echo (pp_status p) a
        in if \<not> node_connected (ag_client a) then a
           else let (s, r) = agent_poll_reply (ae_enc E) (ae_digest E) (ae_options E) w (pp_req p) (pp_known p) (ag_snapshot a);
                    a = a\<lparr>ag_snapshot := s\<rparr>
                in case r of Inl _ \<Rightarrow> log_events [EmitError] a
                   | Inr (st, level) \<Rightarrow> agent_send E (StateFrame st) a)
   | _ \<Rightarrow> a)"

section \<open>Commands\<close>

definition ack_of :: "jsstr \<Rightarrow> bool \<Rightarrow> ack_payload" where
  "ack_of c ok = \<lparr>ak_cmd = c, ak_ok = ok, ak_error = None, ak_gone = None, ak_exists = None, ak_room = None\<rparr>"

definition refusal :: "jsstr \<Rightarrow> jsstr \<Rightarrow> ack_payload" where
  "refusal c text = (ack_of c False)\<lparr>ak_error := Some text\<rparr>"

text \<open>While its listener is attached, the agent forgets the provenance of every room that the
  manager announces as destroyed.\<close>

definition rooms_destroyed :: "world \<Rightarrow> world \<Rightarrow> jsstr list" where
  "rooms_destroyed w w' = List.map_filter
     (\<lambda>obs. case obs of Announce name rid \<Rightarrow> (if name = js ''destroy'' then Some rid else None) | _ \<Rightarrow> None)
     (drop (length (wd_out w)) (wd_out w'))"

definition on_room_destroy :: "jsstr \<Rightarrow> agent \<Rightarrow> agent" where
  "on_room_destroy rid a = a\<lparr>ag_snapshot := forget_room rid (ag_snapshot a)\<rparr>"

definition with_server :: "server \<Rightarrow> host \<Rightarrow> host" where
  "with_server s x =
     \<lparr>ho_agent = (if ag_attached (ho_agent x)
                 then fold on_room_destroy (rooms_destroyed (host_world x) (sv_world s)) (ho_agent x) else ho_agent x),
      ho_server = s\<rparr>"

definition with_world :: "world \<Rightarrow> host \<Rightarrow> host" where
  "with_world w x = with_server ((ho_server x)\<lparr>sv_world := w\<rparr>) x"

definition send_ack :: "'e agent_env \<Rightarrow> ack_payload \<Rightarrow> host \<Rightarrow> host" where
  "send_ack E k x = on_agent (agent_send E (AckFrame k)) x"

definition exec_create :: "'e agent_env \<Rightarrow> jsstr \<Rightarrow> jsstr \<Rightarrow> cmd_payload \<Rightarrow> host \<Rightarrow> host" where
  "exec_create E fresh why cmd x =
     (let c = cp_id cmd; w = host_world x; limit = max_rooms (so_capacity (ae_options E)) in
      if \<not> so_auto (ae_options E) then send_ack E (refusal c (js ''autoCreate is disabled on this instance'')) x
      else case cp_type cmd of
        None \<Rightarrow> send_ack E (refusal c (js ''create requires roomType'')) x
      | Some type \<Rightarrow>
          (if (case limit of None \<Rightarrow> False | Some m \<Rightarrow> int (length (wd_rooms w)) \<ge> m)
           then send_ack E (refusal c (js ''capacity exhausted: maxRooms='' @ number_string (the limit))) x
           else if (case cp_room cmd of None \<Rightarrow> False | Some rid \<Rightarrow> jm_get (wd_rooms w) rid \<noteq> None)
           then send_ack E ((refusal c (js ''room id already exists''))\<lparr>ak_exists := Some True\<rparr>) x
           else
             let rid = (case cp_room cmd of None \<Rightarrow> fresh | Some rid \<Rightarrow> rid);
                 (w', threw) = manager_create (run_script (ae_depth E) (ae_hooks E)) (ae_hooks E) type rid w;
                 x = with_world w' x
             in if threw then send_ack E (refusal c why) x
                else send_ack E ((ack_of c True)\<lparr>ak_room := Some (rid, type)\<rparr>)
                       (on_agent (\<lambda>a. a\<lparr>ag_snapshot := mark_fleet_origin rid (ag_snapshot a)\<rparr>) x)))"

definition exec_destroy :: "'e agent_env \<Rightarrow> jsstr \<Rightarrow> cmd_payload \<Rightarrow> host \<Rightarrow> host" where
  "exec_destroy E why cmd x =
     (let c = cp_id cmd; w = host_world x in
      case cp_room cmd of
        None \<Rightarrow> send_ack E (refusal c (js ''destroy requires roomId'')) x
      | Some rid \<Rightarrow>
          (if jm_get (wd_rooms w) rid = None then send_ack E ((ack_of c True)\<lparr>ak_gone := Some True\<rparr>) x
           else
             let (w', threw) = manager_destroy (run_script (ae_depth E) (ae_hooks E)) (ae_hooks E) rid w;
                 x = with_world w' x
             in if threw then send_ack E (refusal c why) x
                else send_ack E (ack_of c True) (on_agent (on_room_destroy rid) x)))"

definition exec_status_cmd :: "'e agent_env \<Rightarrow> cmd_payload \<Rightarrow> jsstr \<Rightarrow> host \<Rightarrow> host" where
  "exec_status_cmd E cmd st x =
     send_ack E (ack_of (cp_id cmd) True)
       (on_agent (\<lambda>a. a\<lparr>ag_snapshot := set_status st (ag_snapshot a), ag_lifecycle := lifecycle_of st\<rparr>) x)"

definition run_cmd :: "'e agent_env \<Rightarrow> jsstr \<Rightarrow> jsstr \<Rightarrow> cmd_payload \<Rightarrow> host \<Rightarrow> host" where
  "run_cmd E fresh why cmd x =
     (let x = on_agent (log_events [EmitCommand cmd]) x
      in case cp_op cmd of
           Create \<Rightarrow> exec_create E fresh why cmd x
         | Destroy \<Rightarrow> exec_destroy E why cmd x
         | Drain \<Rightarrow> exec_status_cmd E cmd draining x
         | Undrain \<Rightarrow> exec_status_cmd E cmd active x
         | UnknownOp v \<Rightarrow> send_ack E (refusal (cp_id cmd) (js ''unknown op: '' @ js_string v)) x)"

definition on_cmd :: "'e agent_env \<Rightarrow> jsstr \<Rightarrow> jsstr \<Rightarrow> event_arg \<Rightarrow> host \<Rightarrow> host" where
  "on_cmd E fresh why raw x = (case decode_frame (ae_dec E) (ae_unset E) topic_cmd (to_bytes raw) of
     Inr (CmdFrame cmd) \<Rightarrow> run_cmd E fresh why cmd x | _ \<Rightarrow> x)"

section \<open>Events\<close>

definition dispatch :: "'e agent_env \<Rightarrow> real \<Rightarrow> jsstr \<Rightarrow> jsstr \<Rightarrow> client_event \<Rightarrow> host \<Rightarrow> host" where
  "dispatch E rnd fresh why e x = (case e of (name, arg) \<Rightarrow>
     (if \<not> ag_attached (ho_agent x) then x
      else if name = ev_disconnect then on_agent (on_transport_close E rnd arg) x
      else if name = ev_error then on_agent (log_events [EmitError]) x
      else if name = topic_hello then on_agent (on_hello E rnd arg) x
      else if name = topic_poll then on_agent (on_poll E arg (host_world x)) x
      else if name = topic_cmd then on_cmd E fresh why arg x
      else x))"

definition with_client :: "node_client \<Rightarrow> host \<Rightarrow> host" where
  "with_client c x = on_agent (\<lambda>a. a\<lparr>ag_client := c\<rparr>) x"

definition host_open :: "'e agent_env \<Rightarrow> real \<Rightarrow> jsstr \<Rightarrow> jsstr \<Rightarrow> host \<Rightarrow> host" where
  "host_open E rnd fresh why x =
     (let (c, evs) = node_open (ag_client (ho_agent x)) in fold (dispatch E rnd fresh why) evs (with_client c x))"

text \<open>A frame that does not decode throws out of the socket's listener, into the host process.\<close>

definition host_message :: "'e agent_env \<Rightarrow> real \<Rightarrow> jsstr \<Rightarrow> jsstr \<Rightarrow> bytes \<Rightarrow> host \<Rightarrow> wire_error + host" where
  "host_message E rnd fresh why frame x =
     rbind (node_message frame (ag_client (ho_agent x))) (\<lambda>evs. Inr (fold (dispatch E rnd fresh why) evs x))"

definition host_error :: "'e agent_env \<Rightarrow> real \<Rightarrow> jsstr \<Rightarrow> jsstr \<Rightarrow> host \<Rightarrow> host" where
  "host_error E rnd fresh why x = fold (dispatch E rnd fresh why) (node_error (ag_client (ho_agent x))) x"

definition host_close :: "'e agent_env \<Rightarrow> real \<Rightarrow> jsstr \<Rightarrow> jsstr \<Rightarrow> nat \<Rightarrow> bytes \<Rightarrow> host \<Rightarrow> host" where
  "host_close E rnd fresh why code reason x =
     (let (c, evs) = node_close code reason (ag_client (ho_agent x))
      in fold (dispatch E rnd fresh why) evs (with_client c x))"

definition drop_timer :: "nat \<Rightarrow> agent \<Rightarrow> agent" where
  "drop_timer h a = a\<lparr>ag_timers := jm_delete (ag_timers a) h\<rparr>"

definition host_timer :: "'e agent_env \<Rightarrow> bool \<Rightarrow> real \<Rightarrow> nat \<Rightarrow> host \<Rightarrow> host" where
  "host_timer E opens rnd h x = (case jm_get (ag_timers (ho_agent x)) h of
     None \<Rightarrow> x
   | Some ReconnectTimer \<Rightarrow>
       on_agent (\<lambda>a. open_connection E opens rnd ((drop_timer h a)\<lparr>ag_reconnect := None\<rparr>)) x
   | Some ConnectDeadline \<Rightarrow> on_agent (\<lambda>a. fail_connect E rnd (drop_timer h a)) x
   | Some (EmptyPoll call) \<Rightarrow>
       (if rooms_empty (host_world x) then on_agent (end_wait call (CallResolved call)) x else x)
   | Some (EmptyDeadline call) \<Rightarrow> on_agent (\<lambda>a. end_wait call (CallRejected call) (drop_timer h a)) x)"

section \<open>Graceful shutdown\<close>

definition enable_graceful_shutdown :: "nat \<Rightarrow> agent \<Rightarrow> agent" where
  "enable_graceful_shutdown timeout a = a\<lparr>ag_signals := Some timeout\<rparr>"

definition on_signal :: "agent \<Rightarrow> agent" where
  "on_signal a = (case ag_signals a of
     None \<Rightarrow> a
   | Some timeout \<Rightarrow>
       (let call = ag_next_call a; a = agent_drain a in a\<lparr>ag_shutdowns := ag_shutdowns a @ [GraceDrain call timeout]\<rparr>))"

definition call_settled :: "nat \<Rightarrow> agent \<Rightarrow> bool" where
  "call_settled c a \<longleftrightarrow> CallResolved c \<in> set (ag_log a) \<or> CallRejected c \<in> set (ag_log a)"

definition set_grace :: "nat \<Rightarrow> grace \<Rightarrow> agent \<Rightarrow> agent" where
  "set_grace i g a = a\<lparr>ag_shutdowns := (ag_shutdowns a)[i := g]\<rparr>"

text \<open>The continuation after an \<open>await\<close> whose promise has settled; a rejection is caught and logged.\<close>

definition graceful_resume :: "'e agent_env \<Rightarrow> real \<Rightarrow> nat \<Rightarrow> host \<Rightarrow> host" where
  "graceful_resume E rnd i x =
     (let a = ho_agent x; call = ag_next_call a in
      if \<not> i < length (ag_shutdowns a) then x
      else case ag_shutdowns a ! i of
        GraceDrain c timeout \<Rightarrow>
          (if call_settled c a
           then on_agent (\<lambda>a. set_grace i (GraceEmpty call) (await_empty (Some timeout) (host_world x) a)) x else x)
      | GraceEmpty c \<Rightarrow>
          (if call_settled c a
           then on_agent (\<lambda>a. set_grace i (GraceDisconnect call) (agent_disconnect E rnd a)) x else x)
      | GraceDisconnect c \<Rightarrow>
          (if call_settled c a
           then with_world (shutdown_rooms (ae_depth E) (ae_hooks E) (host_world x))
                  (on_agent (\<lambda>a. a\<lparr>ag_shutdowns := take i (ag_shutdowns a) @ drop (i + 1) (ag_shutdowns a)\<rparr>) x)
           else x))"

section \<open>Runs\<close>

text \<open>Every step is one turn of the event loop of the host process.\<close>

inductive host_step :: "'e agent_env \<Rightarrow> config \<Rightarrow> host \<Rightarrow> host \<Rightarrow> bool" for E C where
  connect: "unit_random rnd \<Longrightarrow> host_step E C x (on_agent (agent_connect E opens rnd) x)"
| disconnect: "unit_random rnd \<Longrightarrow> host_step E C x (on_agent (agent_disconnect E rnd) x)"
| drain: "host_step E C x (on_agent agent_drain x)"
| undrain: "host_step E C x (on_agent agent_undrain x)"
| await: "host_step E C x (on_agent (await_empty timeout (host_world x)) x)"
| graceful: "host_step E C x (on_agent (enable_graceful_shutdown t) x)"
| signal: "host_step E C x (on_agent on_signal x)"
| grace_turn: "unit_random rnd \<Longrightarrow> host_step E C x (graceful_resume E rnd i x)"
| sock_open: "unit_random rnd \<Longrightarrow> host_step E C x (host_open E rnd fresh why x)"
| sock_message: "unit_random rnd \<Longrightarrow> host_message E rnd fresh why frame x = Inr x' \<Longrightarrow> host_step E C x x'"
| sock_error: "unit_random rnd \<Longrightarrow> host_step E C x (host_error E rnd fresh why x)"
| sock_closing: "host_step E C x (on_agent (\<lambda>a. a\<lparr>ag_client := node_closing (ag_client a)\<rparr>) x)"
| sock_close: "unit_random rnd \<Longrightarrow> host_step E C x (host_close E rnd fresh why code reason x)"
| timer: "unit_random rnd \<Longrightarrow> host_step E C x (host_timer E opens rnd h x)"
| server: "server_step (Suc (ae_depth E)) (ae_hooks E) C (ho_server x) s \<Longrightarrow> host_step E C x (with_server s x)"

text \<open>The agent is created when the server may have run for a while.\<close>

inductive host_reachable :: "'e agent_env \<Rightarrow> config \<Rightarrow> host \<Rightarrow> bool" for E C where
  start: "server_reachable (Suc (ae_depth E)) (ae_hooks E) C s \<Longrightarrow> host_reachable E C \<lparr>ho_agent = new_agent, ho_server = s\<rparr>"
| turn: "host_reachable E C x \<Longrightarrow> host_step E C x x' \<Longrightarrow> host_reachable E C x'"

inductive_cases host_stepE: "host_step E C x x'"

end
