(* ===== verification/Agent_Inv.thy ===== *)
theory Agent_Inv
  imports Agent
begin

text \<open>
  The invariant of the agent over all runs of its host: every call's promise is open or settled,
  once; every armed timer belongs to a field that names it; a closed agent holds nothing; an
  agent that is wanted has a socket or an armed retry.
\<close>

section \<open>Settled and open calls\<close>

definition settled_calls :: "agent_event list \<Rightarrow> nat list" where
  "settled_calls es = List.map_filter
     (\<lambda>e. case e of CallResolved c \<Rightarrow> Some c | CallRejected c \<Rightarrow> Some c | _ \<Rightarrow> None) es"

definition open_calls :: "agent \<Rightarrow> nat list" where
  "open_calls a = ag_connects a @ map snd (ag_pending a) @ jm_keys (ag_waits a)"

lemma settled_calls_simps [simp]:
  "settled_calls [] = []" "settled_calls (xs @ ys) = settled_calls xs @ settled_calls ys"
  "settled_calls (CallResolved c # es) = c # settled_calls es" "settled_calls (CallRejected c # es) = c # settled_calls es"
  "settled_calls (EmitConnect i # es) = settled_calls es" "settled_calls (EmitDisconnect r # es) = settled_calls es"
  "settled_calls (EmitError # es) = settled_calls es" "settled_calls (EmitCommand m # es) = settled_calls es"
  "settled_calls (Backoff k d # es) = settled_calls es"
  by (simp_all add: settled_calls_def List.map_filter_def)

lemma settled_calls_map [simp]:
  "settled_calls (map CallResolved cs) = cs" "settled_calls (map CallRejected cs) = cs"
  "settled_calls (map (CallResolved \<circ> f) ps) = map f ps" "settled_calls (map (CallRejected \<circ> f) ps) = map f ps"
  by (induction cs; simp)+ (induction ps; simp)+

lemma settled_calls_iff: "c \<in> set (settled_calls es) \<longleftrightarrow> CallResolved c \<in> set es \<or> CallRejected c \<in> set es"
  by (induction es) (auto simp: settled_calls_def List.map_filter_def split: agent_event.splits)

lemma mset_calls_Suc [simp]: "mset_set {0..<Suc n} = add_mset n (mset_set {0..<n})"
  by (simp add: atLeast0_lessThan_Suc)

definition agent_calls_ok :: "agent \<Rightarrow> bool" where
  "agent_calls_ok a \<longleftrightarrow> mset (open_calls a) + mset (settled_calls (ag_log a)) = mset [0..<ag_next_call a]"

definition agent_timers_ok :: "agent \<Rightarrow> bool" where
  "agent_timers_ok a \<longleftrightarrow>
     (\<forall>h. jm_get (ag_timers a) h = Some ReconnectTimer \<longleftrightarrow> ag_reconnect a = Some h) \<and>
     (\<forall>h. jm_get (ag_timers a) h = Some ConnectDeadline \<longleftrightarrow> ag_deadline a = Some h) \<and>
     (\<forall>h c. jm_get (ag_timers a) h = Some (EmptyPoll c) \<longleftrightarrow> (\<exists>d. jm_get (ag_waits a) c = Some (h, d))) \<and>
     (\<forall>h c. jm_get (ag_timers a) h = Some (EmptyDeadline c) \<longleftrightarrow> (\<exists>p. jm_get (ag_waits a) c = Some (p, Some h))) \<and>
     (\<forall>h \<ge> ag_next_timer a. jm_get (ag_timers a) h = None)"

definition backoffs_ok :: "'e agent_env \<Rightarrow> agent \<Rightarrow> bool" where
  "backoffs_ok E a \<longleftrightarrow> (\<forall>k d. Backoff k d \<in> set (ag_log a) \<longrightarrow>
     d \<le> min (ae_backoff_cap E) (ae_backoff_base E * 2 ^ k))"

text \<open>\<open>wanted\<close>: a \<open>connect\<close> is waiting, or the agent has been connected and was not told to stop.\<close>

definition wanted :: "agent \<Rightarrow> bool" where
  "wanted a \<longleftrightarrow> ag_connects a \<noteq> [] \<or> (ag_instance a \<noteq> None \<and> \<not> ag_closed a)"

definition served :: "agent \<Rightarrow> bool" where
  "served a \<longleftrightarrow> (wanted a \<longrightarrow> nc_socket (ag_client a) \<noteq> None \<or> ag_reconnect a \<noteq> None)"

definition link_ok :: "'e agent_env \<Rightarrow> agent \<Rightarrow> bool" where
  "link_ok E a \<longleftrightarrow>
     ag_intentional a = ag_closed a \<and> ag_attached a = (\<not> ag_closed a) \<and>
     (ag_closed a \<longrightarrow> nc_socket (ag_client a) = None \<and> ag_reconnect a = None \<and> ag_connects a = []) \<and>
     (ag_deadline a \<noteq> None \<longleftrightarrow> ag_connects a \<noteq> [] \<and> ae_connect_timeout E \<noteq> None)"

text \<open>The part that also holds while a handler runs.\<close>

definition agent_core :: "'e agent_env \<Rightarrow> agent \<Rightarrow> bool" where
  "agent_core E a \<longleftrightarrow> agent_calls_ok a \<and> agent_timers_ok a \<and> backoffs_ok E a \<and> link_ok E a"

definition agent_ok :: "'e agent_env \<Rightarrow> agent \<Rightarrow> bool" where
  "agent_ok E a \<longleftrightarrow> agent_core E a \<and> served a"

lemmas agent_defs = agent_calls_ok_def agent_timers_ok_def backoffs_ok_def link_ok_def wanted_def served_def open_calls_def
lemmas agent_ok_defs = agent_ok_def agent_core_def agent_defs

lemma new_agent_ok: "agent_ok E new_agent"
  by (simp add: agent_ok_defs new_agent_def new_node_client_def)

section \<open>Fields the invariant does not read\<close>

named_theorems agent_frames \<open>updates that leave the invariant alone\<close>

lemma parts_frame [agent_frames]:
  "agent_core E (a\<lparr>ag_snapshot := s\<rparr>) = agent_core E a" "agent_core E (a\<lparr>ag_lifecycle := l\<rparr>) = agent_core E a"
  "agent_core E (a\<lparr>ag_attempt := k\<rparr>) = agent_core E a" "agent_core E (a\<lparr>ag_signals := t\<rparr>) = agent_core E a"
  "agent_core E (a\<lparr>ag_shutdowns := g\<rparr>) = agent_core E a" "agent_core E (a\<lparr>ag_instance := i\<rparr>) = agent_core E a"
  "served (a\<lparr>ag_snapshot := s\<rparr>) = served a" "served (a\<lparr>ag_lifecycle := l\<rparr>) = served a"
  "served (a\<lparr>ag_attempt := k\<rparr>) = served a" "served (a\<lparr>ag_signals := t\<rparr>) = served a"
  "served (a\<lparr>ag_shutdowns := g\<rparr>) = served a"
  by (simp_all add: agent_ok_defs)

definition quiet :: "agent_event list \<Rightarrow> bool" where
  "quiet es \<longleftrightarrow> settled_calls es = [] \<and> (\<forall>k d. Backoff k d \<notin> set es)"

lemma quiet_simps [simp]:
  "quiet []" "quiet [EmitConnect i]" "quiet [EmitDisconnect r]" "quiet [EmitError]" "quiet [EmitCommand m]"
  by (simp_all add: quiet_def)

lemma log_quiet:
  "quiet es \<Longrightarrow> agent_core E (log_events es a) = agent_core E a"
  "served (log_events es a) = served a"
  by (auto simp: agent_ok_defs log_events_def quiet_def)

lemma client_frame:
  "nc_socket c = nc_socket (ag_client a) \<Longrightarrow> agent_core E (a\<lparr>ag_client := c\<rparr>) = agent_core E a"
  "nc_socket c = nc_socket (ag_client a) \<Longrightarrow> served (a\<lparr>ag_client := c\<rparr>) = served a"
  by (simp_all add: agent_ok_defs)

lemma agent_send_ok [agent_frames]:
  "agent_core E (agent_send E' f a) = agent_core E a" "served (agent_send E' f a) = served a"
  by (simp_all add: agent_send_def client_frame split: sum.split)

lemma reject_pending_ok:
  "agent_core E a \<Longrightarrow> agent_core E (reject_pending_status a)"
  "served (reject_pending_status a) = served a"
  by (auto simp: agent_ok_defs reject_pending_status_def log_events_def ac_simps)

lemma filter_mset_parts: "mset (map f (filter P xs)) + mset (map f (filter (\<lambda>x. \<not> P x) xs)) = mset (map f xs)"
  by (induction xs) auto

lemma resolve_status_ok:
  "agent_core E a \<Longrightarrow> agent_core E (resolve_status_on_echo st a)"
  "served (resolve_status_on_echo st a) = served a"
  using filter_mset_parts [of snd "\<lambda>p. fst p = st" "ag_pending a"]
  by (auto simp: agent_ok_defs resolve_status_on_echo_def log_events_def ac_simps)

section \<open>Timers\<close>

lemma timers_fresh:
  assumes "agent_timers_ok a" "ag_next_timer a \<le> n"
  shows "jm_get (ag_timers a) n = None" "ag_reconnect a \<noteq> Some n" "ag_deadline a \<noteq> Some n"
    "jm_get (ag_waits a) c \<noteq> Some (n, d)" "jm_get (ag_waits a) c \<noteq> Some (p, Some n)"
proof -
  show none: "jm_get (ag_timers a) n = None" using assms by (simp add: agent_timers_ok_def)
  show "ag_reconnect a \<noteq> Some n" "ag_deadline a \<noteq> Some n"
    "jm_get (ag_waits a) c \<noteq> Some (n, d)" "jm_get (ag_waits a) c \<noteq> Some (p, Some n)"
    using assms(1) none unfolding agent_timers_ok_def by (metis option.distinct(1))+
qed

lemma timer_owner:
  assumes "agent_timers_ok a" "jm_get (ag_timers a) h = Some t"
  shows "ag_reconnect a = Some h \<longleftrightarrow> t = ReconnectTimer" "ag_deadline a = Some h \<longleftrightarrow> t = ConnectDeadline"
    "(\<exists>d. jm_get (ag_waits a) c = Some (h, d)) \<longleftrightarrow> t = EmptyPoll c"
    "(\<exists>p. jm_get (ag_waits a) c = Some (p, Some h)) \<longleftrightarrow> t = EmptyDeadline c"
  using assms unfolding agent_timers_ok_def by (metis option.inject)+

lemma backoff_bound:
  assumes "unit_random rnd"
  shows "backoff_delay E rnd k \<le> min (ae_backoff_cap E) (ae_backoff_base E * 2 ^ k)"
proof -
  let ?m = "min (ae_backoff_cap E) (ae_backoff_base E * 2 ^ k)"
  have "rnd * real ?m \<le> real ?m"
    using assms by (intro mult_left_le_one_le) (auto simp: unit_random_def)
  then have "\<lfloor>rnd * real ?m\<rfloor> \<le> int ?m" by linarith
  then show ?thesis by (simp only: backoff_delay_def nat_le_iff)
qed

lemma schedule_reconnect_ok:
  assumes "agent_core E a" "unit_random rnd"
  shows "agent_core E (schedule_reconnect E rnd a)" "\<not> ag_closed a \<Longrightarrow> ag_reconnect (schedule_reconnect E rnd a) \<noteq> None"
    "served a \<Longrightarrow> served (schedule_reconnect E rnd a)"
    "ag_closed (schedule_reconnect E rnd a) = ag_closed a"
proof -
  have c: "agent_calls_ok (schedule_reconnect E rnd a)"
    using assms(1) by (simp add: schedule_reconnect_def Let_def set_timer_def log_events_def agent_ok_defs)
  have t: "agent_timers_ok (schedule_reconnect E rnd a)"
  proof -
    have ok: "agent_timers_ok a" using assms(1) by (simp add: agent_core_def)
    then show ?thesis
      by (auto simp: schedule_reconnect_def Let_def set_timer_def log_events_def agent_timers_ok_def jm_get_set
          timers_fresh [OF ok])
  qed
  have b: "backoffs_ok E (schedule_reconnect E rnd a)"
    using assms(1) backoff_bound [OF assms(2), of E "ag_attempt a"]
    by (auto simp: schedule_reconnect_def Let_def set_timer_def log_events_def agent_core_def backoffs_ok_def)
  have l: "link_ok E (schedule_reconnect E rnd a)"
    using assms(1) by (auto simp: schedule_reconnect_def Let_def set_timer_def log_events_def agent_core_def link_ok_def)
  from c t b l show "agent_core E (schedule_reconnect E rnd a)" by (simp add: agent_core_def)
  have "ag_intentional a = ag_closed a" using assms(1) by (simp add: agent_core_def link_ok_def)
  then show "\<not> ag_closed a \<Longrightarrow> ag_reconnect (schedule_reconnect E rnd a) \<noteq> None"
    by (simp add: schedule_reconnect_def Let_def set_timer_def)
  show "served a \<Longrightarrow> served (schedule_reconnect E rnd a)"
    by (auto simp: schedule_reconnect_def Let_def set_timer_def log_events_def served_def wanted_def)
  show "ag_closed (schedule_reconnect E rnd a) = ag_closed a"
    by (simp add: schedule_reconnect_def Let_def set_timer_def log_events_def)
qed

section \<open>Books\<close>

text \<open>Calls, timers and delays, without the link.\<close>

definition books :: "'e agent_env \<Rightarrow> agent \<Rightarrow> bool" where
  "books E a \<longleftrightarrow> agent_calls_ok a \<and> agent_timers_ok a \<and> backoffs_ok E a"

lemma agent_core_books: "agent_core E a \<longleftrightarrow> books E a \<and> link_ok E a"
  by (auto simp: agent_core_def books_def)

lemma books_frame [simp]:
  "books E (a\<lparr>ag_client := c\<rparr>) = books E a" "books E (a\<lparr>ag_lifecycle := l\<rparr>) = books E a"
  "books E (a\<lparr>ag_closed := b\<rparr>) = books E a" "books E (a\<lparr>ag_intentional := b\<rparr>) = books E a"
  "books E (a\<lparr>ag_attached := b\<rparr>) = books E a" "books E (a\<lparr>ag_attempt := k\<rparr>) = books E a"
  "books E (a\<lparr>ag_instance := i\<rparr>) = books E a" "books E (a\<lparr>ag_snapshot := s\<rparr>) = books E a"
  "books E (a\<lparr>ag_signals := t\<rparr>) = books E a"
  by (simp_all add: books_def agent_calls_ok_def agent_timers_ok_def backoffs_ok_def open_calls_def)

lemma books_log: "quiet es \<Longrightarrow> books E (log_events es a) = books E a"
  by (auto simp: books_def agent_calls_ok_def agent_timers_ok_def backoffs_ok_def open_calls_def log_events_def quiet_def)

lemma books_clear:
  "books E a \<Longrightarrow> books E (clear_reconnect a)" "books E a \<Longrightarrow> books E (clear_connect_deadline a)"
  "books E a \<Longrightarrow> books E (clear_all_timers a)"
proof -
  have r: "books E (clear_reconnect a)" if "books E a" for a
  proof (cases "ag_reconnect a")
    case None
    then show ?thesis using that
      by (simp add: clear_reconnect_def clear_timer_def books_def agent_calls_ok_def agent_timers_ok_def backoffs_ok_def open_calls_def)
  next
    case (Some h)
    have t: "jm_get (ag_timers a) h = Some ReconnectTimer" and ok: "agent_timers_ok a"
      using that Some by (simp_all add: books_def agent_timers_ok_def)
    show ?thesis
      using that timer_owner [OF ok t] by (auto simp: clear_reconnect_def clear_timer_def Some books_def agent_calls_ok_def agent_timers_ok_def
          backoffs_ok_def open_calls_def jm_get_delete)
  qed
  have d: "books E (clear_connect_deadline a)" if "books E a" for a
  proof (cases "ag_deadline a")
    case None
    then show ?thesis using that
      by (simp add: clear_connect_deadline_def clear_timer_def books_def agent_calls_ok_def agent_timers_ok_def backoffs_ok_def open_calls_def)
  next
    case (Some h)
    have t: "jm_get (ag_timers a) h = Some ConnectDeadline" and ok: "agent_timers_ok a"
      using that Some by (simp_all add: books_def agent_timers_ok_def)
    show ?thesis
      using that timer_owner [OF ok t] by (auto simp: clear_connect_deadline_def clear_timer_def Some books_def agent_calls_ok_def agent_timers_ok_def
          backoffs_ok_def open_calls_def jm_get_delete)
  qed
  show "books E a \<Longrightarrow> books E (clear_reconnect a)" "books E a \<Longrightarrow> books E (clear_connect_deadline a)"
    "books E a \<Longrightarrow> books E (clear_all_timers a)"
    by (simp_all add: clear_all_timers_def r d)
qed

lemma books_settle:
  "books E a \<Longrightarrow> books E (settle_connect CallResolved a)" "books E a \<Longrightarrow> books E (settle_connect CallRejected a)"
  "books E a \<Longrightarrow> books E (reject_pending_status a)"
  by (auto simp: settle_connect_def reject_pending_status_def log_events_def books_def agent_calls_ok_def agent_timers_ok_def
      backoffs_ok_def open_calls_def ac_simps)

text \<open>Firing a deadline removes the handle before its callback runs; the callback clears the field.\<close>

lemma deadline_fired:
  assumes "agent_core E a" "jm_get (ag_timers a) h = Some ConnectDeadline"
  shows "clear_connect_deadline (clear_reconnect ((drop_timer h a))) = clear_connect_deadline (clear_reconnect a)"
proof -
  have "ag_deadline a = Some h" using assms by (simp add: agent_core_def agent_timers_ok_def)
  then show ?thesis
    by (simp add: drop_timer_def clear_connect_deadline_def clear_reconnect_def clear_timer_def delete_conv'
        split: option.split) (metis delete_twist delete_idem AList.delete_notin_dom)
qed

section \<open>Closing\<close>

lemma on_transport_close_closed: "ag_closed a \<Longrightarrow> on_transport_close E rnd r a = a"
  by (simp add: on_transport_close_def)

lemma client_disconnect_closed:
  "ag_closed a \<Longrightarrow> client_disconnect E rnd a = a\<lparr>ag_client := fst (node_disconnect (ag_client a))\<rparr>"
  by (simp add: client_disconnect_def node_disconnect_def on_transport_close_closed)

text \<open>What \<open>disconnect\<close> and a fatal failure share.\<close>

definition shut_down :: "agent \<Rightarrow> agent" where
  "shut_down a = (settle_connect CallRejected (detach_listeners
     ((\<lambda>a. a\<lparr>ag_client := fst (node_disconnect (ag_client a))\<rparr>)
        (reject_pending_status (clear_all_timers (a\<lparr>ag_closed := True, ag_intentional := True\<rparr>))))))\<lparr>ag_lifecycle := AgClosed\<rparr>"

lemma fields_shared [simp]:
  "ag_closed (reject_pending_status a) = ag_closed a" "ag_closed (clear_all_timers a) = ag_closed a"
  "ag_client (reject_pending_status a) = ag_client a" "ag_client (clear_all_timers a) = ag_client a"
  by (simp_all add: reject_pending_status_def clear_all_timers_def clear_connect_deadline_def clear_reconnect_def
      clear_timer_def log_events_def split: option.splits)

lemma fail_connect_shut_down: "fail_connect E rnd a = shut_down a"
  by (simp add: fail_connect_def Let_def client_disconnect_closed shut_down_def detach_listeners_def settle_connect_def
      log_events_def)

lemma shut_down_fields:
  "ag_closed (shut_down a)" "ag_intentional (shut_down a)" "\<not> ag_attached (shut_down a)"
  "nc_socket (ag_client (shut_down a)) = None" "ag_reconnect (shut_down a) = None" "ag_deadline (shut_down a) = None"
  "ag_connects (shut_down a) = []" "ag_pending (shut_down a) = []" "ag_signals (shut_down a) = None"
  "ag_lifecycle (shut_down a) = AgClosed" "ag_waits (shut_down a) = ag_waits a"
  "ag_next_call (shut_down a) = ag_next_call a"
  "settled_calls (ag_log (shut_down a)) = settled_calls (ag_log a) @ map snd (ag_pending a) @ ag_connects a"
  by (auto simp: shut_down_def detach_listeners_def settle_connect_def log_events_def reject_pending_status_def
      clear_all_timers_def clear_connect_deadline_def clear_reconnect_def clear_timer_def split: option.splits)

lemma shut_down_ok:
  assumes "books E a"
  shows "agent_ok E (shut_down a)"
proof -
  have "books E (shut_down a)"
    unfolding shut_down_def detach_listeners_def using assms by (simp add: books_clear books_settle)
  moreover have "link_ok E (shut_down a)" "served (shut_down a)"
    by (simp_all add: link_ok_def served_def wanted_def shut_down_fields)
  ultimately show ?thesis by (simp add: agent_ok_def agent_core_books)
qed

section \<open>Operations\<close>

lemma agent_okD: "agent_ok E a \<Longrightarrow> books E a" "agent_ok E a \<Longrightarrow> agent_core E a" "agent_ok E a \<Longrightarrow> link_ok E a"
  by (simp_all add: agent_ok_def agent_core_books)

lemma open_connection_ok:
  assumes "agent_core E a" "unit_random rnd"
  shows "agent_ok E (open_connection E opens rnd a)"
proof -
  have conn: "agent_core E (a\<lparr>ag_client := fst (node_connect (ae_client E) opens (ae_key E) (ag_client a))\<rparr>)"
    if "\<not> ag_closed a"
    using assms(1) that by (simp add: agent_core_books link_ok_def)
  have idle: "served a" if "ag_closed a" using that assms(1) by (simp add: agent_core_def link_ok_def served_def wanted_def)
  have sock: "nc_socket (fst (node_connect opts opens k c)) \<noteq> None \<or> snd (node_connect opts opens k c)" for opts k c
    by (simp add: node_connect_def)
  have up: "served (a\<lparr>ag_client := c\<rparr>)" if "nc_socket c \<noteq> None" for c
    using that by (simp add: served_def)
  show ?thesis
    using assms idle conn sock [of "ae_client E" "ae_key E" "ag_client a"]
      schedule_reconnect_ok(1,2,3) [OF conn assms(2)]
    by (auto simp: open_connection_def Let_def case_prod_unfold agent_ok_def up served_def)
qed

lemma on_transport_close_ok:
  assumes "agent_core E a" "unit_random rnd"
  shows "agent_ok E (on_transport_close E rnd r a)"
proof (cases "ag_closed a")
  case True
  then show ?thesis using assms(1)
    by (simp add: on_transport_close_closed agent_ok_def agent_core_def link_ok_def served_def wanted_def)
next
  case False
  let ?b = "log_events [EmitDisconnect r] ((reject_pending_status a)\<lparr>ag_lifecycle := AgConnecting\<rparr>)"
  have b: "agent_core E ?b" "\<not> ag_closed ?b"
    using False by (simp_all add: log_quiet agent_frames reject_pending_ok assms(1)) (simp add: log_events_def)
  have "on_transport_close E rnd r a = schedule_reconnect E rnd ?b"
    using False assms(1) by (simp add: on_transport_close_def agent_core_def link_ok_def)
  then show ?thesis
    using schedule_reconnect_ok [OF b(1) assms(2)] b(2) by (simp add: agent_ok_def served_def)
qed

lemma agent_disconnect_ok:
  assumes "agent_ok E a"
  shows "agent_ok E (agent_disconnect E rnd a)"
proof -
  let ?c = "ag_next_call a" and ?a = "a\<lparr>ag_next_call := ag_next_call a + 1\<rparr>"
  have d: "agent_disconnect E rnd a =
      log_events [EmitDisconnect (BytesArg (text_encode (js ''closed''))), CallResolved ?c] (shut_down ?a)"
    by (simp add: agent_disconnect_def Let_def new_call_def client_disconnect_closed shut_down_def detach_listeners_def
        settle_connect_def log_events_def clear_all_timers_def clear_connect_deadline_def clear_reconnect_def clear_timer_def
        reject_pending_status_def split: option.split)
  have s: "agent_ok E (shut_down a)" using shut_down_ok agent_okD(1) [OF assms] by blast
  have n: "shut_down ?a = (shut_down a)\<lparr>ag_next_call := ag_next_call a + 1\<rparr>"
    by (simp add: shut_down_def detach_listeners_def settle_connect_def log_events_def clear_all_timers_def
        clear_connect_deadline_def clear_reconnect_def clear_timer_def reject_pending_status_def split: option.split)
  show ?thesis
    using s unfolding d n by (auto simp: agent_ok_defs log_events_def shut_down_fields(12))
qed

lemma request_status_ok: "agent_ok E a \<Longrightarrow> agent_ok E (request_status st a)"
  by (auto simp: request_status_def new_call_def agent_ok_defs)

lemma agent_connect_ok:
  assumes "agent_ok E a" "unit_random rnd"
  shows "agent_ok E (agent_connect E opens rnd a)"
proof -
  let ?a = "a\<lparr>ag_next_call := ag_next_call a + 1\<rparr>" and ?c = "ag_next_call a"
  consider "ag_lifecycle a = AgConnected \<or> ag_lifecycle a = AgDraining"
    | "\<not> (ag_lifecycle a = AgConnected \<or> ag_lifecycle a = AgDraining)" "ag_connects a \<noteq> []"
    | "\<not> (ag_lifecycle a = AgConnected \<or> ag_lifecycle a = AgDraining)" "ag_connects a = []" by blast
  then show ?thesis
  proof cases
    case 1
    then have "agent_connect E opens rnd a = log_events [CallResolved ?c] ?a"
      by (auto simp: agent_connect_def new_call_def Let_def)
    then show ?thesis using assms(1) by (auto simp: agent_ok_defs log_events_def)
  next
    case 2
    then have "agent_connect E opens rnd a = ?a\<lparr>ag_connects := ag_connects a @ [?c]\<rparr>"
      by (auto simp: agent_connect_def new_call_def Let_def)
    then show ?thesis using assms(1) 2(2) by (auto simp: agent_ok_defs)
  next
    case 3
    let ?b = "?a\<lparr>ag_closed := False, ag_intentional := False, ag_lifecycle := AgConnecting, ag_attempt := 0,
        ag_attached := True, ag_connects := [?c]\<rparr>"
    let ?d = "case ae_connect_timeout E of None \<Rightarrow> ?b
      | Some _ \<Rightarrow> (let (h, a) = set_timer ConnectDeadline ?b in a\<lparr>ag_deadline := Some h\<rparr>)"
    have eq: "agent_connect E opens rnd a = open_connection E opens rnd ?d"
      using 3 by (cases "ae_connect_timeout E") (simp_all add: agent_connect_def new_call_def Let_def attach_listeners_def)
    have t: "agent_timers_ok a" and dl: "ag_deadline a = None"
      using assms(1) 3(2) by (auto simp: agent_ok_def agent_core_def link_ok_def)
    have "books E ?b" using agent_okD(1) [OF assms(1)] 3(2)
      by (auto simp: books_def agent_calls_ok_def agent_timers_ok_def backoffs_ok_def open_calls_def)
    then have "books E ?d"
      using timers_fresh [OF t] dl
      by (auto simp: books_def agent_calls_ok_def agent_timers_ok_def backoffs_ok_def open_calls_def set_timer_def
          jm_get_set split: option.split)
    moreover have "link_ok E ?d"
      using dl by (auto simp: link_ok_def set_timer_def split: option.split)
    ultimately have "agent_core E ?d" by (simp add: agent_core_books)
    then show ?thesis unfolding eq by (rule open_connection_ok [OF _ assms(2)])
  qed
qed

lemma await_empty_ok:
  assumes "agent_ok E a"
  shows "agent_ok E (await_empty timeout w a)"
proof -
  have ok: "agent_timers_ok a" using assms by (simp add: agent_ok_def agent_core_def)
  have "ag_next_call a \<notin> set (open_calls a)"
  proof
    assume "ag_next_call a \<in> set (open_calls a)"
    then have "ag_next_call a \<in># mset [0..<ag_next_call a]"
      using assms unfolding agent_ok_def agent_core_def agent_calls_ok_def by (metis UnI1 set_mset_mset set_mset_union)
    then show False by simp
  qed
  then have new: "\<not> jm_has (ag_waits a) (ag_next_call a)" by (auto simp: open_calls_def jm_has_iff_keys)
  then have none: "jm_get (ag_waits a) (ag_next_call a) = None" by (simp add: jm_get_None_has)
  have t: "agent_timers_ok (await_empty timeout w a)"
    using ok none timers_fresh [OF ok]
    by (cases timeout) (auto simp: await_empty_def new_call_def Let_def set_timer_def agent_timers_ok_def jm_get_set
        log_events_def)
  have "agent_calls_ok (await_empty timeout w a)" "backoffs_ok E (await_empty timeout w a)"
    "link_ok E (await_empty timeout w a)" "served (await_empty timeout w a)"
    using assms by (cases timeout; auto simp: await_empty_def new_call_def Let_def set_timer_def agent_ok_defs
        log_events_def jm_set_new [OF new])+
  with t show ?thesis by (simp add: agent_ok_def agent_core_def)
qed

lemma remove_mset: "distinct ks \<Longrightarrow> k \<in> set ks \<Longrightarrow> add_mset k (mset (filter (\<lambda>j. j \<noteq> k) ks)) = mset ks"
proof (induction ks)
  case (Cons j ks)
  show ?case
  proof (cases "j = k")
    case True
    with Cons.prems have "filter (\<lambda>j. j \<noteq> k) ks = ks" by (auto intro: filter_True)
    with True show ?thesis by simp
  next
    case False
    with Cons show ?thesis by (simp add: add_mset_commute)
  qed
qed simp

lemma jm_delete_mset:
  assumes "jm_ok m" "jm_has m k"
  shows "mset (jm_keys m) = add_mset k (mset (jm_keys (jm_delete m k)))"
  using remove_mset [of "jm_keys m" k] assms unfolding jm_delete_keys jm_has_iff_keys by simp

lemma waits_distinct: "agent_calls_ok a \<Longrightarrow> distinct (open_calls a @ settled_calls (ag_log a))"
  unfolding agent_calls_ok_def mset_append [symmetric] by (metis distinct_upt mset_eq_imp_distinct_iff)

lemma end_wait_ok:
  assumes "agent_core E a" "settled_calls [e] = [call]" "\<forall>k d. e \<noteq> Backoff k d"
  shows "agent_core E (end_wait call e a)" "served (end_wait call e a) = served a"
proof -
  have parts: "agent_calls_ok a" "agent_timers_ok a" "backoffs_ok E a" "link_ok E a" using assms(1) by (simp_all add: agent_core_def)
  show "served (end_wait call e a) = served a"
    by (auto simp: end_wait_def clear_timer_def log_events_def served_def wanted_def split: option.splits prod.splits)
  show "agent_core E (end_wait call e a)"
  proof (cases "jm_get (ag_waits a) call")
    case None
    with assms(1) show ?thesis by (simp add: end_wait_def)
  next
    case (Some pd)
    obtain p d where pd: "pd = (p, d)" by (cases pd)
    have ok: "jm_ok (ag_waits a)" "jm_has (ag_waits a) call"
      using waits_distinct [OF parts(1)] Some by (auto simp: open_calls_def jm_has_def)
    have c: "agent_calls_ok (end_wait call e a)"
      using parts(1) assms(2) unfolding agent_calls_ok_def open_calls_def mset_append jm_delete_mset [OF ok]
      by (simp add: end_wait_def Some pd clear_timer_def log_events_def split: option.split)
    have tp: "jm_get (ag_timers a) p = Some (EmptyPoll call)" using parts(2) Some pd by (auto simp: agent_timers_ok_def)
    have td: "jm_get (ag_timers a) h = Some (EmptyDeadline call)" if "d = Some h" for h
      using parts(2) Some pd that by (auto simp: agent_timers_ok_def)
    have u: "c = call" if "jm_get (ag_waits a) c = Some (p, d')" for c d'
      using timer_owner(3) [OF parts(2) tp, of c] that by auto
    have v: "c = call" if "d = Some h" "jm_get (ag_waits a) c = Some (p', Some h)" for c p' h
      using timer_owner(4) [OF parts(2) td [OF that(1)], of c] that(2) by auto
    have t: "agent_timers_ok (end_wait call e a)"
    proof (cases d)
      case None
      with parts(2) Some pd tp timer_owner [OF parts(2) tp] show ?thesis
        by (auto dest: u simp: end_wait_def clear_timer_def log_events_def agent_timers_ok_def jm_get_delete)
    next
      case (Some h)
      show ?thesis
        using parts(2) \<open>jm_get (ag_waits a) call = Some pd\<close> pd Some tp td [OF Some]
          timer_owner [OF parts(2) tp] timer_owner [OF parts(2) td [OF Some]]
        by (auto dest: u v [OF Some] simp: end_wait_def clear_timer_def log_events_def agent_timers_ok_def jm_get_delete)
    qed
    have "backoffs_ok E (end_wait call e a)" "link_ok E (end_wait call e a)"
      using parts assms(3) by (auto simp: end_wait_def Some pd clear_timer_def log_events_def backoffs_ok_def link_ok_def
          split: option.splits)
    with c t show ?thesis by (simp add: agent_core_def)
  qed
qed

section \<open>Handlers\<close>

lemma on_hello_ok:
  assumes "agent_ok E a" "\<not> ag_closed a" "nc_socket (ag_client a) \<noteq> None"
  shows "agent_ok E (on_hello E rnd raw a)"
proof -
  have b: "books E a" by (rule agent_okD(1) [OF assms(1)])
  have f: "agent_ok E (fail_connect E rnd (log_events [EmitError] a))"
    unfolding fail_connect_shut_down by (rule shut_down_ok) (simp add: books_log b)
  have good: "agent_ok E (log_events es (settle_connect CallResolved
      ((clear_connect_deadline (clear_reconnect (a\<lparr>ag_instance := i, ag_attempt := 0\<rparr>)))\<lparr>ag_snapshot := s, ag_lifecycle := l\<rparr>)))"
    if "quiet es" for es i s l
  proof -
    let ?b = "log_events es (settle_connect CallResolved
      ((clear_connect_deadline (clear_reconnect (a\<lparr>ag_instance := i, ag_attempt := 0\<rparr>)))\<lparr>ag_snapshot := s, ag_lifecycle := l\<rparr>))"
    have "books E ?b" using b that by (simp add: books_log books_settle books_clear)
    moreover have "link_ok E ?b" "served ?b"
      using agent_okD(3) [OF assms(1)] assms(2,3)
      by (auto simp: link_ok_def served_def log_events_def settle_connect_def clear_connect_deadline_def clear_reconnect_def
          clear_timer_def split: option.splits)
    ultimately show ?thesis by (simp add: agent_ok_def agent_core_books)
  qed
  show ?thesis
    using assms(1) f good [of "[EmitConnect _]"]
    by (auto simp: on_hello_def Let_def split: sum.split frame_error.split fleet_frame.split)
qed

lemma on_poll_ok: "agent_ok E a \<Longrightarrow> agent_ok E (on_poll E raw w a)"
  by (auto simp: on_poll_def Let_def agent_ok_def agent_frames log_quiet resolve_status_ok split: sum.split fleet_frame.split prod.split)

lemma on_room_destroy_ok [agent_frames]:
  "agent_core E (on_room_destroy rid a) = agent_core E a" "served (on_room_destroy rid a) = served a"
  by (simp_all add: on_room_destroy_def agent_frames)

lemma with_server_ok: "agent_ok E (ho_agent (with_server s x)) = agent_ok E (ho_agent x)"
proof -
  have "agent_ok E (fold on_room_destroy rids a) = agent_ok E a" for rids a
    by (induction rids arbitrary: a) (simp_all add: agent_ok_def agent_frames)
  then show ?thesis by (simp add: with_server_def)
qed

lemma send_ack_ok: "agent_ok E (ho_agent (send_ack E' k x)) = agent_ok E (ho_agent x)"
  by (simp add: send_ack_def on_agent_def agent_ok_def agent_frames)

lemma agent_ok_snapshot: "agent_ok E (a\<lparr>ag_snapshot := s\<rparr>) = agent_ok E a" "agent_ok E (a\<lparr>ag_lifecycle := l\<rparr>) = agent_ok E a"
  by (simp_all add: agent_ok_def agent_frames)

lemma run_cmd_ok: "agent_ok E (ho_agent x) \<Longrightarrow> agent_ok E (ho_agent (run_cmd E fresh why cmd x))"
proof -
  assume ok: "agent_ok E (ho_agent x)"
  let ?x = "on_agent (log_events [EmitCommand cmd]) x"
  have "agent_ok E (ho_agent ?x)" using ok by (simp add: on_agent_def agent_ok_def log_quiet)
  moreover have "agent_ok E (ho_agent (exec_create E fresh why cmd x))" if "agent_ok E (ho_agent x)" for x
    using that by (simp add: exec_create_def Let_def case_prod_unfold send_ack_ok on_agent_def with_world_def with_server_ok
        agent_ok_snapshot split: option.split)
  moreover have "agent_ok E (ho_agent (exec_destroy E why cmd x))" if "agent_ok E (ho_agent x)" for x
    using that with_server_ok
    by (simp add: exec_destroy_def Let_def case_prod_unfold send_ack_ok on_agent_def with_world_def with_server_ok
        on_room_destroy_def agent_ok_snapshot split: option.split)
  moreover have "agent_ok E (ho_agent (exec_status_cmd E cmd st x))" if "agent_ok E (ho_agent x)" for st x
    using that by (simp add: exec_status_cmd_def send_ack_ok on_agent_def agent_ok_snapshot)
  ultimately show ?thesis by (simp add: run_cmd_def Let_def send_ack_ok split: command_op.split)
qed

section \<open>Events of the client\<close>

lemmas event_names = ev_connect_def ev_disconnect_def ev_kicked_def ev_error_def topic_defs

lemma kicked_ignored: "dispatch E rnd fresh why (ev_kicked, arg) x = x"
  by (simp add: dispatch_def event_names js_eval)

lemma connect_ignored: "dispatch E rnd fresh why (ev_connect, arg) x = x"
  by (simp add: dispatch_def event_names js_eval)

lemma dispatch_disconnect:
  "dispatch E rnd fresh why (ev_disconnect, arg) x =
     (if ag_attached (ho_agent x) then on_agent (on_transport_close E rnd arg) x else x)"
  by (simp add: dispatch_def)

lemma detached_closed: "link_ok E a \<Longrightarrow> \<not> ag_attached a \<longleftrightarrow> ag_closed a"
  by (simp add: link_ok_def)

lemma closed_served: "link_ok E a \<Longrightarrow> ag_closed a \<Longrightarrow> served a"
  by (auto simp: link_ok_def served_def wanted_def)

lemma disconnect_event_ok:
  assumes "agent_core E (ho_agent x)" "unit_random rnd"
  shows "agent_ok E (ho_agent (dispatch E rnd fresh why (ev_disconnect, arg) x))"
  using assms on_transport_close_ok [OF assms, of arg]
  by (auto simp: dispatch_disconnect on_agent_def agent_ok_def agent_core_def dest: closed_served detached_closed)

lemma dispatch_ok:
  assumes "agent_ok E (ho_agent x)" "unit_random rnd" "nc_socket (ag_client (ho_agent x)) \<noteq> None"
  shows "agent_ok E (ho_agent (dispatch E rnd fresh why e x))"
proof -
  obtain name arg where e: "e = (name, arg)" by (cases e)
  have core: "agent_core E (ho_agent x)" and link: "link_ok E (ho_agent x)" using agent_okD [OF assms(1)] by simp_all
  have err: "agent_ok E (log_events [EmitError] (ho_agent x))" using assms(1) by (simp add: agent_ok_def log_quiet)
  have hello: "agent_ok E (on_hello E rnd arg (ho_agent x))" if "ag_attached (ho_agent x)"
    using on_hello_ok [OF assms(1) _ assms(3)] that link by (simp add: link_ok_def)
  have cmd: "agent_ok E (ho_agent (on_cmd E fresh why arg x))"
    using assms(1) by (auto simp: on_cmd_def run_cmd_ok split: sum.split fleet_frame.split)
  show ?thesis
    using assms(1) on_transport_close_ok [OF core assms(2)] err hello cmd on_poll_ok [OF assms(1)]
    by (simp add: e dispatch_def on_agent_def)
qed

lemma message_events: "node_message frame c = Inr evs \<Longrightarrow> evs = [] \<or> (nc_socket c \<noteq> None \<and> (\<exists>e. evs = [e]))"
  by (auto simp: node_message_def split: if_splits sum.splits jsval.splits)

lemma host_message_ok:
  assumes "agent_ok E (ho_agent x)" "unit_random rnd" "host_message E rnd fresh why frame x = Inr x'"
  shows "agent_ok E (ho_agent x')"
proof -
  from assms(3) obtain evs where evs: "node_message frame (ag_client (ho_agent x)) = Inr evs"
    "x' = fold (dispatch E rnd fresh why) evs x"
    by (auto simp: host_message_def rbind_Inr_iff)
  from message_events [OF evs(1)] show ?thesis
    using assms(1) dispatch_ok [OF assms(1,2)] evs(2) by auto
qed

lemma client_same_ok:
  "agent_ok E a \<Longrightarrow> (nc_socket c = None \<longleftrightarrow> nc_socket (ag_client a) = None) \<Longrightarrow> agent_ok E (a\<lparr>ag_client := c\<rparr>)"
  by (auto simp: agent_ok_defs)

lemma host_open_ok: "agent_ok E (ho_agent x) \<Longrightarrow> agent_ok E (ho_agent (host_open E rnd fresh why x))"
  by (auto simp: host_open_def node_open_def with_client_def on_agent_def connect_ignored intro!: client_same_ok)

lemma host_error_ok:
  "agent_ok E (ho_agent x) \<Longrightarrow> unit_random rnd \<Longrightarrow> agent_ok E (ho_agent (host_error E rnd fresh why x))"
  by (auto simp: host_error_def node_error_def intro: dispatch_ok)

lemma host_close_ok:
  assumes "agent_ok E (ho_agent x)" "unit_random rnd"
  shows "agent_ok E (ho_agent (host_close E rnd fresh why code reason x))"
proof (cases "nc_socket (ag_client (ho_agent x)) = None")
  case True
  then show ?thesis using assms(1)
    by (auto simp: host_close_def node_close_def with_client_def on_agent_def intro!: client_same_ok)
next
  case False
  let ?x = "with_client ((ag_client (ho_agent x))\<lparr>nc_socket := None\<rparr>) x"
  have "agent_core E (ho_agent ?x)"
    using assms(1) by (auto simp: with_client_def on_agent_def agent_ok_def agent_core_books link_ok_def)
  note event = disconnect_event_ok [OF this assms(2)]
  have "node_close code reason (ag_client (ho_agent x)) = ((ag_client (ho_agent x))\<lparr>nc_socket := None\<rparr>,
      (if 4000 \<le> code \<and> code < 5000 then [(ev_kicked, KickedArg code (text_decode reason))] else []) @
      [(ev_disconnect, BytesArg reason)])"
    using False by (simp add: node_close_def)
  with event show ?thesis by (simp add: host_close_def kicked_ignored)
qed

section \<open>Timers of the agent\<close>

lemma reconnect_fired:
  assumes "agent_ok E a" "jm_get (ag_timers a) h = Some ReconnectTimer"
  shows "agent_core E ((drop_timer h a)\<lparr>ag_reconnect := None\<rparr>)"
proof -
  have t: "agent_timers_ok a" using assms(1) by (simp add: agent_ok_def agent_core_def)
  from assms timer_owner [OF t assms(2)] show ?thesis
    by (auto simp: drop_timer_def agent_ok_def agent_core_def agent_calls_ok_def agent_timers_ok_def backoffs_ok_def link_ok_def
        open_calls_def jm_get_delete)
qed

lemma delete_twice: "jm_delete (jm_delete m k) k = jm_delete m k"
  by (rule jm_delete_absent) (simp add: jsmap_simps)

lemma shut_down_dropped:
  assumes "agent_ok E a" "jm_get (ag_timers a) h = Some ConnectDeadline"
  shows "shut_down (drop_timer h a) = shut_down a"
proof -
  let ?c = "\<lambda>a. a\<lparr>ag_closed := True, ag_intentional := True\<rparr>"
  have "clear_all_timers (?c (drop_timer h a)) = (?c (clear_connect_deadline (clear_reconnect (drop_timer h a))))\<lparr>ag_signals := None\<rparr>"
    by (simp add: clear_all_timers_def clear_connect_deadline_def clear_reconnect_def clear_timer_def split: option.split)
  also have "\<dots> = (?c (clear_connect_deadline (clear_reconnect a)))\<lparr>ag_signals := None\<rparr>"
    using deadline_fired [OF agent_okD(2) [OF assms(1)] assms(2)] by simp
  also have "\<dots> = clear_all_timers (?c a)"
    by (simp add: clear_all_timers_def clear_connect_deadline_def clear_reconnect_def clear_timer_def split: option.split)
  finally show ?thesis by (simp add: shut_down_def)
qed

lemma end_wait_dropped:
  assumes "agent_ok E a" "jm_get (ag_timers a) h = Some (EmptyDeadline call)"
  shows "end_wait call e (drop_timer h a) = end_wait call e a"
proof -
  obtain p where "jm_get (ag_waits a) call = Some (p, Some h)"
    using assms by (auto simp: agent_ok_def agent_core_def agent_timers_ok_def)
  moreover have "jm_delete (jm_delete (jm_delete m h) p) h = jm_delete (jm_delete m p) h" for m :: "(nat, agent_timer) jsmap"
    by (metis delete_twice delete_twist)
  ultimately show ?thesis by (simp add: end_wait_def drop_timer_def clear_timer_def log_events_def)
qed

lemma host_timer_ok:
  assumes "agent_ok E (ho_agent x)" "unit_random rnd"
  shows "agent_ok E (ho_agent (host_timer E opens rnd h x))"
proof (cases "jm_get (ag_timers (ho_agent x)) h")
  case (Some t)
  have core: "agent_core E (ho_agent x)" by (rule agent_okD(2) [OF assms(1)])
  have wait: "agent_ok E (end_wait c e (ho_agent x))" if "settled_calls [e] = [c]" "\<forall>k d. e \<noteq> Backoff k d" for c e
    using end_wait_ok [OF core that] assms(1) by (simp add: agent_ok_def)
  show ?thesis
  proof (cases t)
    case ReconnectTimer
    with Some reconnect_fired [OF assms(1)] show ?thesis
      by (auto simp: host_timer_def on_agent_def intro: open_connection_ok assms(2))
  next
    case ConnectDeadline
    with Some shut_down_dropped [OF assms(1)] shut_down_ok [OF agent_okD(1) [OF assms(1)]] show ?thesis
      by (simp add: host_timer_def on_agent_def fail_connect_shut_down)
  next
    case (EmptyPoll c)
    with Some wait assms(1) show ?thesis by (simp add: host_timer_def on_agent_def)
  next
    case (EmptyDeadline c)
    with Some wait end_wait_dropped [OF assms(1)] show ?thesis by (simp add: host_timer_def on_agent_def)
  qed
qed (simp add: host_timer_def assms(1))

section \<open>Every run\<close>

lemma shutdowns_frame: "agent_ok E (a\<lparr>ag_shutdowns := g\<rparr>) = agent_ok E a" "agent_ok E (a\<lparr>ag_signals := t\<rparr>) = agent_ok E a"
  by (simp_all add: agent_ok_def agent_frames)

lemma graceful_resume_ok:
  assumes "agent_ok E (ho_agent x)"
  shows "agent_ok E (ho_agent (graceful_resume E rnd i x))"
  using assms await_empty_ok [OF assms] agent_disconnect_ok [OF assms]
  by (auto simp: graceful_resume_def Let_def on_agent_def set_grace_def with_world_def with_server_ok shutdowns_frame
      split: grace.split)

lemma host_step_ok:
  assumes "host_step E C x x'" "agent_ok E (ho_agent x)"
  shows "agent_ok E (ho_agent x')"
  using assms(1)
proof cases
  case signal
  then show ?thesis using request_status_ok [OF assms(2)] assms(2)
    by (auto simp: on_agent_def on_signal_def agent_drain_def Let_def shutdowns_frame split: option.split)
next
  case sock_closing
  then show ?thesis using assms(2) by (auto simp: on_agent_def node_closing_def intro!: client_same_ok)
qed (use assms(2) in \<open>auto simp: on_agent_def agent_drain_def agent_undrain_def enable_graceful_shutdown_def shutdowns_frame
      with_server_ok intro: agent_connect_ok agent_disconnect_ok request_status_ok await_empty_ok graceful_resume_ok host_open_ok
      host_message_ok host_error_ok host_close_ok host_timer_ok\<close>)

lemma host_reachable_ok: "host_reachable E C x \<Longrightarrow> agent_ok E (ho_agent x)"
proof (induction rule: host_reachable.induct)
  case (start s)
  show ?case by (simp add: new_agent_ok)
qed (rule host_step_ok)

end
