(* ===== verification/Agent_Props.thy ===== *)
theory Agent_Props
  imports Agent_Inv Core_Props
begin

text \<open>
  What the agent guarantees: its promises and its link, and the effect of each command on
  the rooms of the host. The witnesses run a concrete agent.
\<close>

section \<open>Scripts keep room types\<close>

definition types_kept :: "world \<Rightarrow> world \<Rightarrow> bool" where
  "types_kept w w' \<longleftrightarrow> length (wd_heap w) \<le> length (wd_heap w') \<and>
     (\<forall>r < length (wd_heap w). rm_type (wd_heap w' ! r) = rm_type (wd_heap w ! r))"

lemma types_kept_refl [simp, intro]: "types_kept w w"
  by (simp add: types_kept_def)

lemma types_kept_trans: "types_kept u v \<Longrightarrow> types_kept v w \<Longrightarrow> types_kept u w"
  by (simp add: types_kept_def)

lemma types_kept_heap: "wd_heap w' = wd_heap w \<Longrightarrow> types_kept w w'"
  by (simp add: types_kept_def)

lemma types_kept_upd: "(\<And>q. rm_type (f q) = rm_type q) \<Longrightarrow> types_kept w (upd_room r f w)"
  by (cases "r < length (wd_heap w)") (auto simp: types_kept_def upd_room_def nth_list_update)

lemma types_kept_fold: "(\<And>x v. types_kept v (f x v)) \<Longrightarrow> types_kept w (fold f xs w)"
  by (induction xs arbitrary: w) (auto intro: types_kept_trans)

lemma room_send_heap: "wd_heap (fst (room_send r a topic p w)) = wd_heap w"
  by (simp add: room_send_def tl_send_def split: sum.split)

lemma send_each_heap: "wd_heap (fst (send_each r as topic p w)) = wd_heap w"
proof (induction "as" arbitrary: w)
  case (Cons a "as")
  then show ?case using room_send_heap [of r a topic p w]
    by (cases "room_send r a topic p w") simp
qed simp

lemma room_kick_heap: "wd_heap (room_kick r a p w) = wd_heap w"
  by (simp add: room_kick_def tl_kick_def)

definition typed_run :: "(script \<Rightarrow> world \<Rightarrow> world \<times> bool) \<Rightarrow> bool" where
  "typed_run run \<longleftrightarrow> (\<forall>s v. types_kept v (fst (run s v)))"

lemma types_manager_destroy:
  assumes "typed_run run"
  shows "types_kept w (fst (manager_destroy run H rid w))"
proof (cases "jm_get (wd_rooms w) rid")
  case (Some r)
  define w1 where "w1 = w\<lparr>wd_rooms := jm_delete (wd_rooms w) rid\<rparr>"
  define w2 where "w2 = fold (\<lambda>a. room_kick r a (PText kick_room_destroyed)) (jm_keys (rm_actors (wd_heap w1 ! r))) w1"
  define w3 where "w3 = fst (run (hk_destroy H w2 r) w2)"
  have "types_kept w w1" by (simp add: w1_def types_kept_heap)
  moreover have "types_kept w1 w2" unfolding w2_def by (rule types_kept_fold) (simp add: types_kept_heap room_kick_heap)
  moreover have "types_kept w2 w3" using assms unfolding w3_def typed_run_def by blast
  moreover have "types_kept w3 (handle_destroy run H r w1)"
    unfolding handle_destroy_def Let_def w2_def [symmetric] w3_def [symmetric] by (rule types_kept_upd) simp
  ultimately have "types_kept w (handle_destroy run H r w1)" by (blast intro: types_kept_trans)
  then show ?thesis
    by (simp add: manager_destroy_def Some Let_def w1_def [symmetric]) (simp add: types_kept_def)
qed (simp add: manager_destroy_def)

lemma types_manager_create:
  assumes "typed_run run"
  shows "types_kept w (fst (manager_create run H type rid w))"
proof (cases "\<exists>c. jm_get (wd_defs w) type = Some c \<and> \<not> jm_has (wd_rooms w) rid")
  case True
  then obtain c where c: "jm_get (wd_defs w) type = Some c" "\<not> jm_has (wd_rooms w) rid" by blast
  define w1 where "w1 = w\<lparr>wd_heap := wd_heap w @ [new_room rid type c]\<rparr>"
  obtain v threw where v: "run (hk_create H w1 (length (wd_heap w))) w1 = (v, threw)" by fastforce
  have "types_kept w w1" by (simp add: w1_def types_kept_def nth_append)
  moreover have "types_kept w1 v" using assms v unfolding typed_run_def by (metis fst_conv)
  ultimately have "types_kept w v" by (rule types_kept_trans)
  then show ?thesis
    using c v by (simp add: manager_create_def Let_def w1_def) (simp add: types_kept_def)
qed (auto simp: manager_create_def split: option.split)

lemma types_run_action: "typed_run run \<Longrightarrow> types_kept w (fst (run_action run H act w))"
  by (cases act)
    (simp_all add: run_action_def room_send_heap send_each_heap room_kick_heap types_kept_heap room_broadcast_def
      room_bind_def room_unbind_def room_bind_any_def room_unbind_any_def types_kept_upd types_manager_destroy
      types_manager_create room_destroy_def)

lemma types_run_actions: "typed_run run \<Longrightarrow> types_kept w (fst (run_actions run H acts w))"
proof (induction acts arbitrary: w)
  case (Cons act acts)
  obtain v threw where v: "run_action run H act w = (v, threw)" by fastforce
  with types_run_action [OF Cons.prems, of w H act] have "types_kept w v" by simp
  with Cons v show ?case by (auto intro: types_kept_trans)
qed simp

lemma typed_run_script: "typed_run (run_script n H)"
proof (induction n)
  case (Suc n)
  show ?case unfolding typed_run_def
    using types_run_actions [OF Suc.IH, where H = H] by (simp add: Let_def case_prod_beta)
qed (simp add: typed_run_def)

section \<open>The world of the host\<close>

lemma with_server_world [simp]: "host_world (with_server s x) = sv_world s" "host_world (with_world w x) = w"
  by (simp_all add: with_server_def with_world_def)

lemma on_agent_world [simp]: "ho_server (on_agent f x) = ho_server x" "ho_server (send_ack E k x) = ho_server x"
  by (simp_all add: on_agent_def send_ack_def)

definition world_kept :: "host \<Rightarrow> host \<Rightarrow> bool" where
  "world_kept x x' \<longleftrightarrow> (world_inv (host_world x) \<longrightarrow> world_inv (host_world x'))"

lemma world_kept_refl: "ho_server x' = ho_server x \<Longrightarrow> world_kept x x'"
  by (simp add: world_kept_def)

lemma run_cmd_world: "world_kept x (run_cmd E fresh why cmd x)"
proof -
  have c: "world_inv w \<Longrightarrow> world_inv (fst (manager_create (run_script n H) H type rid w))" for n H type rid w
    by (rule world_inv_steady [OF _ steady_manager_create [OF steady_run_script]])
  have d: "world_inv w \<Longrightarrow> world_inv (fst (manager_destroy (run_script n H) H rid w))" for n H rid w
    by (rule world_inv_steady [OF _ steady_manager_destroy [OF steady_run_script]])
  show ?thesis
    using c d by (simp add: world_kept_def run_cmd_def exec_create_def exec_destroy_def exec_status_cmd_def Let_def
        case_prod_unfold split: command_op.split option.split)
qed

lemma dispatch_world: "world_kept x (dispatch E rnd fresh why e x)"
  using run_cmd_world
  by (auto simp: dispatch_def on_cmd_def world_kept_refl split: prod.split sum.split fleet_frame.split)

lemma world_kept_fold: "world_kept x (fold (dispatch E rnd fresh why) evs x)"
proof (induction evs arbitrary: x)
  case (Cons e evs)
  then show ?case using dispatch_world [of x E rnd fresh why e] by (simp add: world_kept_def)
qed (simp add: world_kept_def)

lemma host_step_world: "host_step E C x x' \<Longrightarrow> world_kept x x'"
proof (induction rule: host_step.induct)
  case (sock_message rnd fresh why frame x x')
  then show ?case using world_kept_fold by (auto simp: host_message_def rbind_Inr_iff)
next
  case (sock_open rnd x fresh why)
  show ?case using world_kept_fold [of "with_client _ x"]
    by (simp add: host_open_def case_prod_unfold world_kept_def with_client_def Let_def)
next
  case (sock_close rnd x fresh why code reason)
  show ?case using world_kept_fold [of "with_client _ x"]
    by (simp add: host_close_def case_prod_unfold world_kept_def with_client_def Let_def)
next
  case (grace_turn rnd x i)
  show ?case
    using world_inv_steady [OF _ steady_shutdown]
    by (auto simp: graceful_resume_def Let_def world_kept_def split: grace.split)
next
  case (server x s)
  then show ?case using step_inv by (simp add: world_kept_def)
qed (auto simp: host_error_def host_timer_def world_kept_refl world_kept_fold split: option.split agent_timer.split)

lemma host_world_inv: "host_reachable E C x \<Longrightarrow> world_inv (host_world x)"
proof (induction rule: host_reachable.induct)
  case (start s)
  then show ?case using reachable_inv by simp
next
  case (turn x x')
  then show ?case using host_step_world [OF turn.hyps(2)] by (simp add: world_kept_def)
qed

section \<open>Promises and the link\<close>

lemma waiting_connect:
  assumes "agent_ok E a" "ag_connects a \<noteq> []"
  shows "\<not> ag_closed a" "nc_socket (ag_client a) \<noteq> None \<or> (\<exists>h. jm_get (ag_timers a) h = Some ReconnectTimer)"
proof -
  show "\<not> ag_closed a" using assms by (auto simp: agent_ok_def agent_core_def link_ok_def)
  have "nc_socket (ag_client a) \<noteq> None \<or> ag_reconnect a \<noteq> None"
    using assms by (simp add: agent_ok_def served_def wanted_def)
  then show "nc_socket (ag_client a) \<noteq> None \<or> (\<exists>h. jm_get (ag_timers a) h = Some ReconnectTimer)"
    using assms(1) by (auto simp: agent_ok_def agent_core_def agent_timers_ok_def)
qed

lemma deadline_rejects:
  assumes "agent_ok E (ho_agent x)" "jm_get (ag_timers (ho_agent x)) h = Some ConnectDeadline" "c \<in> set (ag_connects (ho_agent x))"
  shows "CallRejected c \<in> set (ag_log (ho_agent (host_timer E opens rnd h x)))"
proof -
  have "host_timer E opens rnd h x = on_agent (\<lambda>a. shut_down a) x"
    using assms(2) shut_down_dropped [OF assms(1,2)] by (simp add: host_timer_def on_agent_def fail_connect_shut_down)
  then show ?thesis
    using assms(3) by (simp add: on_agent_def shut_down_def settle_connect_def detach_listeners_def log_events_def
        clear_all_timers_def clear_connect_deadline_def clear_reconnect_def clear_timer_def reject_pending_status_def
        split: option.split)
qed

lemma closed_agent_idle:
  assumes "agent_ok E a" "ag_closed a"
  shows "nc_socket (ag_client a) = None \<and> ag_connects a = [] \<and> \<not> ag_attached a \<and>
    (\<forall>h. jm_get (ag_timers a) h \<notin> {Some ReconnectTimer, Some ConnectDeadline})"
  using assms by (auto simp: agent_ok_def agent_core_def link_ok_def agent_timers_ok_def)

lemma empty_wait_resolves:
  assumes "agent_ok E (ho_agent x)" "jm_has (ag_waits (ho_agent x)) c" "rooms_empty (host_world x)"
  shows "\<exists>h. CallResolved c \<in> set (ag_log (ho_agent (host_timer E opens rnd h x)))"
proof -
  obtain p d where w: "jm_get (ag_waits (ho_agent x)) c = Some (p, d)" using assms(2) by (auto simp: jm_has_def)
  then have "jm_get (ag_timers (ho_agent x)) p = Some (EmptyPoll c)"
    using assms(1) by (auto simp: agent_ok_def agent_core_def agent_timers_ok_def)
  with assms(3) w show ?thesis
    by (intro exI [of _ p]) (simp add: host_timer_def on_agent_def end_wait_def log_events_def)
qed

text \<open>
  C39: the agent never loses a promise or its link. In every run of the host, whatever the network,
  the orchestrator and the rooms do: each call of \<open>connect\<close>, \<open>disconnect\<close>, \<open>drain\<close>, \<open>undrain\<close> and
  \<open>awaitEmpty\<close> is open or has settled, and settles at most once; while a \<open>connect\<close> is open, or
  after a hello until the agent is closed, it has a socket or an armed retry; with
  \<open>connectTimeoutMs\<close> an open \<open>connect\<close> has an armed deadline that rejects it; an \<open>awaitEmpty\<close>
  has a timer that resolves it once the rooms are empty; a closed agent holds no socket, no
  listener and no such timer; every retry waits at most \<open>min(cap, base * 2^attempt)\<close>.
\<close>

theorem agent_promises_kept:
  assumes "host_reachable E C x"
  shows "let a = ho_agent x in
    distinct (open_calls a @ settled_calls (ag_log a)) \<and>
    set (open_calls a @ settled_calls (ag_log a)) = {..<ag_next_call a} \<and>
    (ag_connects a \<noteq> [] \<or> (ag_instance a \<noteq> None \<and> \<not> ag_closed a) \<longrightarrow>
       nc_socket (ag_client a) \<noteq> None \<or> (\<exists>h. jm_get (ag_timers a) h = Some ReconnectTimer)) \<and>
    (\<forall>c \<in> set (ag_connects a). ae_connect_timeout E \<noteq> None \<longrightarrow>
       (\<exists>h. jm_get (ag_timers a) h = Some ConnectDeadline \<and>
          CallRejected c \<in> set (ag_log (ho_agent (host_timer E opens rnd h x))))) \<and>
    (\<forall>c. jm_has (ag_waits a) c \<and> rooms_empty (host_world x) \<longrightarrow>
       (\<exists>h. CallResolved c \<in> set (ag_log (ho_agent (host_timer E opens rnd h x))))) \<and>
    (ag_closed a \<longrightarrow> nc_socket (ag_client a) = None \<and> ag_connects a = [] \<and> \<not> ag_attached a \<and>
       (\<forall>h. jm_get (ag_timers a) h \<notin> {Some ReconnectTimer, Some ConnectDeadline})) \<and>
    (\<forall>k d. Backoff k d \<in> set (ag_log a) \<longrightarrow> d \<le> min (ae_backoff_cap E) (ae_backoff_base E * 2 ^ k))"
proof -
  let ?a = "ho_agent x"
  have ok: "agent_ok E ?a" by (rule host_reachable_ok [OF assms])
  have calls: "agent_calls_ok ?a" using ok by (simp add: agent_ok_def agent_core_def)
  then have m: "mset (open_calls ?a @ settled_calls (ag_log ?a)) = mset [0..<ag_next_call ?a]"
    by (simp add: agent_calls_ok_def)
  show ?thesis
    unfolding Let_def
  proof (intro conjI impI allI ballI, goal_cases)
    case 1
    show ?case by (rule waits_distinct [OF calls])
  next
    case 2
    show ?case using mset_eq_setD [OF m] by (simp add: atLeast0LessThan)
  next
    case 3
    then show ?case using ok
      by (auto simp: agent_ok_def served_def wanted_def agent_core_def agent_timers_ok_def)
  next
    case (4 c)
    then obtain h where "ag_deadline ?a = Some h" using ok by (auto simp: agent_ok_def agent_core_def link_ok_def)
    then have "jm_get (ag_timers ?a) h = Some ConnectDeadline"
      using ok by (simp add: agent_ok_def agent_core_def agent_timers_ok_def)
    with deadline_rejects [OF ok _ 4(1)] show ?case by blast
  next
    case (5 c)
    then show ?case using empty_wait_resolves [OF ok] by blast
  next
    case (10 k d)
    then show ?case using ok unfolding agent_ok_def agent_core_def backoffs_ok_def by blast
  qed (use closed_agent_idle [OF ok] in blast)+
qed

section \<open>A concrete agent\<close>

definition sample_options :: snapshot_options where
  "sample_options = \<lparr>so_name = js ''n'', so_url = js ''ws://a'', so_labels = [], so_capacity = \<lparr>max_connections = None, max_rooms = Some 2\<rparr>,
     so_auto = True, so_version = js ''1'', so_uid = js ''p_1''\<rparr>"

definition sample_agent_env :: "wire_error agent_env" where
  "sample_agent_env = \<lparr>ae_options = sample_options, ae_digest = (\<lambda>s. s), ae_enc = encode_message fleet_schema 2,
     ae_dec = decode_message fleet_schema, ae_unset = (\<lambda>_ _. JUndef),
     ae_client = \<lparr>no_protocol = True, no_subprotocols = [js ''rivalis-fleet'']\<rparr>, ae_key = js ''key'',
     ae_connect_timeout = Some 1000, ae_backoff_base = 500, ae_backoff_cap = 30000, ae_hooks = idle_hooks, ae_depth = 2\<rparr>"

definition sample_host :: host where
  "sample_host = on_agent (agent_connect sample_agent_env False 0) \<lparr>ho_agent = new_agent, ho_server = new_server\<rparr>"

lemma sample_host_reachable: "host_reachable sample_agent_env plain_config sample_host"
  unfolding sample_host_def
  by (rule host_reachable.turn [OF host_reachable.start [OF server_reachable.start] host_step.connect])
    (simp add: unit_random_def)

theorem agent_promises_kept_witness:
  "ag_connects (ho_agent sample_host) = [0] \<and>
   (\<exists>h. jm_get (ag_timers (ho_agent sample_host)) h = Some ConnectDeadline \<and>
      CallRejected 0 \<in> set (ag_log (ho_agent (host_timer sample_agent_env True 0 h sample_host))))"
proof -
  have c: "ag_connects (ho_agent sample_host) = [0]" "ae_connect_timeout sample_agent_env \<noteq> None"
    by (simp_all add: sample_host_def on_agent_def agent_connect_def new_call_def new_agent_def set_timer_def Let_def
        sample_agent_env_def open_connection_def node_connect_def new_node_client_def schedule_reconnect_def
        attach_listeners_def log_events_def)
  with agent_promises_kept [OF sample_host_reachable, of True 0] show ?thesis by (simp add: Let_def)
qed

end
