(* ===== verification/Agent_Commands.thy ===== *)
theory Agent_Commands
  imports Agent_Props
begin

text \<open>
  The effect of the orchestrator's commands on the host: what each branch does to the rooms, the
  provenance and the status, and that it answers with one ack.
\<close>

section \<open>Rooms\<close>

lemma create_result:
  assumes "manager_create (run_script n H) H type rid w = (w', False)"
  shows "jm_get (wd_rooms w) rid = None" "jm_has (wd_defs w) type"
    "\<exists>r. jm_get (wd_rooms w') rid = Some r \<and> r < length (wd_heap w') \<and> rm_type (wd_heap w' ! r) = type"
proof -
  obtain c where c: "jm_get (wd_defs w) type = Some c" "\<not> jm_has (wd_rooms w) rid"
    using assms by (auto simp: manager_create_def split: option.splits if_splits)
  then show "jm_get (wd_rooms w) rid = None" "jm_has (wd_defs w) type" by (simp_all add: jm_has_def)
  define w1 where "w1 = w\<lparr>wd_heap := wd_heap w @ [new_room rid type c]\<rparr>"
  obtain v threw where v: "run_script n H (hk_create H w1 (length (wd_heap w))) w1 = (v, threw)" by fastforce
  have w': "w' = v\<lparr>wd_rooms := jm_set (wd_rooms v) rid (length (wd_heap w)),
      wd_out := wd_out v @ [Announce (js ''create'') rid]\<rparr>"
    using assms c v by (simp add: manager_create_def Let_def w1_def split: if_splits)
  have "types_kept w1 v" using typed_run_script [of n H] v unfolding typed_run_def by (metis fst_conv)
  then have "length (wd_heap w) < length (wd_heap v)" "rm_type (wd_heap v ! length (wd_heap w)) = type"
    by (simp_all add: types_kept_def w1_def new_room_def)
  then show "\<exists>r. jm_get (wd_rooms w') rid = Some r \<and> r < length (wd_heap w') \<and> rm_type (wd_heap w' ! r) = type"
    by (intro exI [of _ "length (wd_heap w)"]) (simp add: w' jm_get_set)
qed

lemma destroy_result:
  assumes "world_inv w" "jm_get (wd_rooms w) rid = Some r"
  shows "manager_destroy run H rid w = (fst (manager_destroy run H rid w), False)"
    "dead_room r (fst (manager_destroy (run_script n H) H rid w))"
  using destroy_kills [OF world_invD(1) [OF assms(1)] assms(2)] assms(2)
  by (simp_all add: manager_destroy_def Let_def)

section \<open>Which creates are refused\<close>

definition limit_reached :: "'e agent_env \<Rightarrow> world \<Rightarrow> bool" where
  "limit_reached E w \<longleftrightarrow> (case max_rooms (so_capacity (ae_options E)) of None \<Rightarrow> False
     | Some m \<Rightarrow> int (length (wd_rooms w)) \<ge> m)"

definition id_taken :: "cmd_payload \<Rightarrow> world \<Rightarrow> bool" where
  "id_taken cmd w \<longleftrightarrow> (case cp_room cmd of None \<Rightarrow> False | Some rid \<Rightarrow> jm_get (wd_rooms w) rid \<noteq> None)"

definition refused :: "'e agent_env \<Rightarrow> cmd_payload \<Rightarrow> world \<Rightarrow> bool" where
  "refused E cmd w \<longleftrightarrow> \<not> so_auto (ae_options E) \<or> cp_type cmd = None \<or> limit_reached E w \<or> id_taken cmd w"

definition wanted_id :: "jsstr \<Rightarrow> cmd_payload \<Rightarrow> jsstr" where
  "wanted_id fresh cmd = (case cp_room cmd of None \<Rightarrow> fresh | Some rid \<Rightarrow> rid)"

text \<open>The answer to a command and the state it leaves.\<close>

definition answers :: "'e agent_env \<Rightarrow> host \<Rightarrow> cmd_payload \<Rightarrow> host \<Rightarrow> ack_payload \<Rightarrow> host \<Rightarrow> bool" where
  "answers E x cmd x' k y \<longleftrightarrow> x' = send_ack E k y \<and> ag_client (ho_agent y) = ag_client (ho_agent x) \<and> ak_cmd k = cp_id cmd"

lemma ack_simps [simp]:
  "ak_cmd (ack_of c b) = c" "ak_ok (ack_of c b) = b" "ak_gone (ack_of c b) = None" "ak_exists (ack_of c b) = None"
  "ak_room (ack_of c b) = None" "ak_cmd (refusal c t) = c" "ak_ok (refusal c t) = False" "ak_exists (refusal c t) = None"
  by (simp_all add: ack_of_def refusal_def)

lemma with_server_client [simp]: "ag_client (ho_agent (with_server s x)) = ag_client (ho_agent x)"
  "ag_client (ho_agent (with_world w x)) = ag_client (ho_agent x)"
proof -
  have "ag_client (fold on_room_destroy rids a) = ag_client a" for rids a
    by (induction rids arbitrary: a) (simp_all add: on_room_destroy_def)
  then show "ag_client (ho_agent (with_server s x)) = ag_client (ho_agent x)"
    "ag_client (ho_agent (with_world w x)) = ag_client (ho_agent x)"
    by (simp_all add: with_server_def with_world_def)
qed

lemma create_refused:
  assumes "refused E cmd (host_world x)"
  shows "\<exists>k. answers E x cmd (exec_create E fresh why cmd x) k x \<and> \<not> ak_ok k \<and>
    (ak_exists k = Some True \<longleftrightarrow> so_auto (ae_options E) \<and> cp_type cmd \<noteq> None \<and>
       \<not> limit_reached E (host_world x) \<and> id_taken cmd (host_world x))"
proof -
  let ?c = "cp_id cmd"
  let ?k = "if \<not> so_auto (ae_options E) then refusal ?c (js ''autoCreate is disabled on this instance'')
    else if cp_type cmd = None then refusal ?c (js ''create requires roomType'')
    else if limit_reached E (host_world x)
    then refusal ?c (js ''capacity exhausted: maxRooms='' @ number_string (the (max_rooms (so_capacity (ae_options E)))))
    else (refusal ?c (js ''room id already exists''))\<lparr>ak_exists := Some True\<rparr>"
  have "exec_create E fresh why cmd x = send_ack E ?k x"
    using assms unfolding exec_create_def Let_def refused_def limit_reached_def [symmetric] id_taken_def [symmetric]
    by (cases "cp_type cmd"; cases "limit_reached E (host_world x)"; cases "id_taken cmd (host_world x)") simp_all
  moreover have "\<not> ak_ok ?k" "ak_cmd ?k = ?c"
    "ak_exists ?k = Some True \<longleftrightarrow> so_auto (ae_options E) \<and> cp_type cmd \<noteq> None \<and> \<not> limit_reached E (host_world x) \<and> id_taken cmd (host_world x)"
    using assms by (auto simp: refused_def)
  ultimately show ?thesis unfolding answers_def by blast
qed

lemma create_tried:
  assumes "\<not> refused E cmd (host_world x)"
  shows "\<exists>k y. answers E x cmd (exec_create E fresh why cmd x) k y \<and>
    host_world y = fst (manager_create (run_script (ae_depth E) (ae_hooks E)) (ae_hooks E) (the (cp_type cmd)) (wanted_id fresh cmd) (host_world x)) \<and>
    ak_ok k = (\<not> snd (manager_create (run_script (ae_depth E) (ae_hooks E)) (ae_hooks E) (the (cp_type cmd)) (wanted_id fresh cmd) (host_world x))) \<and>
    (ak_ok k \<longrightarrow> ak_room k = Some (wanted_id fresh cmd, the (cp_type cmd)) \<and> wanted_id fresh cmd \<in> ss_origins (ag_snapshot (ho_agent y)))"
proof -
  obtain type where t: "cp_type cmd = Some type" using assms by (auto simp: refused_def)
  obtain w' threw where m: "manager_create (run_script (ae_depth E) (ae_hooks E)) (ae_hooks E) type (wanted_id fresh cmd) (host_world x) = (w', threw)"
    by fastforce
  let ?x = "with_world w' x"
  let ?y = "if threw then ?x else on_agent (\<lambda>a. a\<lparr>ag_snapshot := mark_fleet_origin (wanted_id fresh cmd) (ag_snapshot a)\<rparr>) ?x"
  let ?k = "if threw then refusal (cp_id cmd) why else (ack_of (cp_id cmd) True)\<lparr>ak_room := Some (wanted_id fresh cmd, type)\<rparr>"
  have e: "exec_create E fresh why cmd x = send_ack E ?k ?y"
    using assms m unfolding exec_create_def Let_def refused_def limit_reached_def [symmetric] id_taken_def [symmetric]
      wanted_id_def [symmetric]
    by (simp add: t)
  have "answers E x cmd (exec_create E fresh why cmd x) ?k ?y"
    unfolding e answers_def by (simp add: on_agent_def)
  then show ?thesis
    by (intro exI [of _ ?k] exI [of _ ?y]) (simp add: t m on_agent_def mark_fleet_origin_def)
qed

text \<open>The ack of a connected agent is one frame.\<close>

lemma ack_frame:
  assumes "node_connected (ag_client (ho_agent y))" "encode_frame (ae_enc E) (AckFrame k) = Inr b" "message_sendable (topic_ack, b)"
  shows "nc_sent (ag_client (ho_agent (send_ack E k y))) = nc_sent (ag_client (ho_agent y)) @ [message_bytes topic_ack b]"
  using assms by (simp add: send_ack_def on_agent_def agent_send_def node_send_frame)

text \<open>What a command asks for, and what its answer means.\<close>

definition create_done :: "'e agent_env \<Rightarrow> jsstr \<Rightarrow> cmd_payload \<Rightarrow> world \<Rightarrow> ack_payload \<Rightarrow> host \<Rightarrow> bool" where
  "create_done E fresh cmd w k y \<longleftrightarrow>
     (if refused E cmd w
      then \<not> ak_ok k \<and> host_world y = w \<and>
        (ak_exists k = Some True \<longleftrightarrow> so_auto (ae_options E) \<and> cp_type cmd \<noteq> None \<and> \<not> limit_reached E w \<and> id_taken cmd w)
      else ak_ok k \<longrightarrow> ak_room k = Some (wanted_id fresh cmd, the (cp_type cmd)) \<and>
        jm_get (wd_rooms w) (wanted_id fresh cmd) = None \<and>
        (\<exists>n. sync_room_of (host_world y) (ag_snapshot (ho_agent y)) (wanted_id fresh cmd) =
           Some \<lparr>sr_id = wanted_id fresh cmd, sr_type = the (cp_type cmd), sr_connections = n, sr_origin = fleet_origin\<rparr>))"

definition destroy_done :: "cmd_payload \<Rightarrow> world \<Rightarrow> ack_payload \<Rightarrow> host \<Rightarrow> bool" where
  "destroy_done cmd w k y \<longleftrightarrow> (case cp_room cmd of
     None \<Rightarrow> \<not> ak_ok k \<and> host_world y = w
   | Some rid \<Rightarrow> ak_ok k \<and> (case jm_get (wd_rooms w) rid of
       None \<Rightarrow> ak_gone k = Some True \<and> host_world y = w
     | Some r \<Rightarrow> ak_gone k = None \<and> dead_room r (host_world y) \<and> rid \<notin> ss_origins (ag_snapshot (ho_agent y))))"

definition command_done :: "'e agent_env \<Rightarrow> jsstr \<Rightarrow> cmd_payload \<Rightarrow> world \<Rightarrow> ack_payload \<Rightarrow> host \<Rightarrow> bool" where
  "command_done E fresh cmd w k y \<longleftrightarrow> (case cp_op cmd of
     Create \<Rightarrow> create_done E fresh cmd w k y
   | Destroy \<Rightarrow> destroy_done cmd w k y
   | Drain \<Rightarrow> ak_ok k \<and> ss_status (ag_snapshot (ho_agent y)) = draining \<and> host_world y = w
   | Undrain \<Rightarrow> ak_ok k \<and> ss_status (ag_snapshot (ho_agent y)) = active \<and> host_world y = w
   | UnknownOp v \<Rightarrow> \<not> ak_ok k \<and> host_world y = w)"

lemma create_effect: "\<exists>k y. answers E x cmd (exec_create E fresh why cmd x) k y \<and> create_done E fresh cmd (host_world x) k y"
proof (cases "refused E cmd (host_world x)")
  case True
  from create_refused [OF this] obtain k where k: "answers E x cmd (exec_create E fresh why cmd x) k x" "\<not> ak_ok k"
    "ak_exists k = Some True \<longleftrightarrow> so_auto (ae_options E) \<and> cp_type cmd \<noteq> None \<and> \<not> limit_reached E (host_world x) \<and> id_taken cmd (host_world x)"
    by blast
  have "create_done E fresh cmd (host_world x) k x" unfolding create_done_def k(3) using True k(2) by simp
  with k(1) show ?thesis by blast
next
  case False
  from create_tried [OF this] obtain k y where k: "answers E x cmd (exec_create E fresh why cmd x) k y"
    "host_world y = fst (manager_create (run_script (ae_depth E) (ae_hooks E)) (ae_hooks E) (the (cp_type cmd)) (wanted_id fresh cmd) (host_world x))"
    "ak_ok k = (\<not> snd (manager_create (run_script (ae_depth E) (ae_hooks E)) (ae_hooks E) (the (cp_type cmd)) (wanted_id fresh cmd) (host_world x)))"
    "ak_ok k \<longrightarrow> ak_room k = Some (wanted_id fresh cmd, the (cp_type cmd)) \<and> wanted_id fresh cmd \<in> ss_origins (ag_snapshot (ho_agent y))"
    by blast
  have made: "jm_get (wd_rooms (host_world x)) (wanted_id fresh cmd) = None"
    "\<exists>r. jm_get (wd_rooms (host_world y)) (wanted_id fresh cmd) = Some r \<and> rm_type (wd_heap (host_world y) ! r) = the (cp_type cmd)"
    if "ak_ok k"
  proof -
    have m: "manager_create (run_script (ae_depth E) (ae_hooks E)) (ae_hooks E) (the (cp_type cmd)) (wanted_id fresh cmd) (host_world x) =
        (host_world y, False)"
      using that k(2,3) by (metis prod.collapse)
    from create_result [OF m] show "jm_get (wd_rooms (host_world x)) (wanted_id fresh cmd) = None"
      "\<exists>r. jm_get (wd_rooms (host_world y)) (wanted_id fresh cmd) = Some r \<and> rm_type (wd_heap (host_world y) ! r) = the (cp_type cmd)"
      by blast+
  qed
  have "create_done E fresh cmd (host_world x) k y"
    unfolding create_done_def
    using False made k(4) by (auto simp: sync_room_of_def)
  with k(1) show ?thesis by blast
qed

lemma destroy_effect:
  assumes "world_inv (host_world x)"
  shows "\<exists>k y. answers E x cmd (exec_destroy E why cmd x) k y \<and> destroy_done cmd (host_world x) k y"
proof (cases "\<exists>rid r. cp_room cmd = Some rid \<and> jm_get (wd_rooms (host_world x)) rid = Some r")
  case True
  then obtain rid r where r: "cp_room cmd = Some rid" "jm_get (wd_rooms (host_world x)) rid = Some r" by blast
  note d = destroy_result [OF assms r(2)]
  obtain w' where m: "manager_destroy (run_script (ae_depth E) (ae_hooks E)) (ae_hooks E) rid (host_world x) = (w', False)"
    using d(1) by blast
  let ?y = "on_agent (on_room_destroy rid) (with_world w' x)" and ?k = "ack_of (cp_id cmd) True"
  have "exec_destroy E why cmd x = send_ack E ?k ?y"
    unfolding exec_destroy_def Let_def r(1) option.case m prod.case using r(2) by simp
  then have "answers E x cmd (exec_destroy E why cmd x) ?k ?y"
    by (simp add: answers_def) (simp add: on_agent_def on_room_destroy_def)
  moreover have "destroy_done cmd (host_world x) ?k ?y"
    using d(2) [of "ae_depth E" "ae_hooks E"] r by (simp add: m destroy_done_def on_agent_def on_room_destroy_def forget_room_def)
  ultimately show ?thesis by blast
next
  case False
  let ?k = "case cp_room cmd of None \<Rightarrow> refusal (cp_id cmd) (js ''destroy requires roomId'')
    | Some rid \<Rightarrow> (ack_of (cp_id cmd) True)\<lparr>ak_gone := Some True\<rparr>"
  have "answers E x cmd (exec_destroy E why cmd x) ?k x"
    using False by (cases "cp_room cmd") (auto simp: exec_destroy_def answers_def)
  moreover have "destroy_done cmd (host_world x) ?k x"
    using False by (cases "cp_room cmd") (auto simp: destroy_done_def split: option.split)
  ultimately show ?thesis by blast
qed

lemma status_effect:
  "\<exists>k y. answers E x cmd (exec_status_cmd E cmd st x) k y \<and> ak_ok k \<and> ss_status (ag_snapshot (ho_agent y)) = st \<and>
     host_world y = host_world x"
  by (intro exI [of _ "ack_of (cp_id cmd) True"]
      exI [of _ "on_agent (\<lambda>a. a\<lparr>ag_snapshot := set_status st (ag_snapshot a), ag_lifecycle := lifecycle_of st\<rparr>) x"])
    (simp add: exec_status_cmd_def answers_def, simp add: on_agent_def set_status_def)

lemma run_cmd_effect:
  assumes "world_inv (host_world x)"
  shows "\<exists>k y. answers E x cmd (run_cmd E fresh why cmd x) k y \<and> command_done E fresh cmd (host_world x) k y"
proof -
  let ?x = "on_agent (log_events [EmitCommand cmd]) x"
  have same: "host_world ?x = host_world x" "answers E ?x cmd = answers E x cmd"
    by (simp_all add: answers_def fun_eq_iff) (simp add: on_agent_def log_events_def)
  show ?thesis
  proof (cases "cp_op cmd")
    case Create
    with create_effect [of E ?x cmd fresh why] show ?thesis unfolding same by (simp add: run_cmd_def command_done_def)
  next
    case Destroy
    with destroy_effect [of ?x E cmd why] assms show ?thesis unfolding same by (simp add: run_cmd_def command_done_def)
  next
    case Drain
    with status_effect [of E ?x cmd draining] show ?thesis unfolding same by (simp add: run_cmd_def command_done_def)
  next
    case Undrain
    with status_effect [of E ?x cmd active] show ?thesis unfolding same by (simp add: run_cmd_def command_done_def)
  next
    case (UnknownOp v)
    let ?k = "refusal (cp_id cmd) (js ''unknown op: '' @ js_string v)"
    have "answers E ?x cmd (run_cmd E fresh why cmd x) ?k ?x" by (simp add: run_cmd_def UnknownOp answers_def)
    then show ?thesis unfolding same
      by (intro exI [of _ ?k] exI [of _ ?x]) (simp add: UnknownOp command_done_def)
  qed
qed

text \<open>
  C40: every command is answered once and does what the answer says. Running a command decoded from
  the wire sends exactly one frame, the ack with the command's id. A create is refused, with the
  rooms untouched, exactly when \<open>autoCreate\<close> is off, the type is missing, the manager holds
  \<open>maxRooms\<close> rooms or the id is taken (only the last reports \<open>exists\<close>); otherwise a positive ack
  means that the named room is registered with that type and will be reported as created by the
  fleet. A destroy of an absent room reports \<open>alreadyGone\<close> and changes nothing; of a present room it
  kills that room and forgets its provenance. Drain and undrain change the status only. An unknown
  operation is refused.
\<close>

theorem commands_take_effect:
  assumes "host_reachable E C x"
  shows "\<exists>k y. run_cmd E fresh why cmd x = send_ack E k y \<and> ak_cmd k = cp_id cmd \<and>
    command_done E fresh cmd (host_world x) k y \<and>
    (\<forall>b. node_connected (ag_client (ho_agent x)) \<and> encode_frame (ae_enc E) (AckFrame k) = Inr b \<and> message_sendable (topic_ack, b) \<longrightarrow>
       nc_sent (ag_client (ho_agent (run_cmd E fresh why cmd x))) = nc_sent (ag_client (ho_agent x)) @ [message_bytes topic_ack b])"
proof -
  from run_cmd_effect [OF host_world_inv [OF assms]] obtain k y where
    k: "answers E x cmd (run_cmd E fresh why cmd x) k y" "command_done E fresh cmd (host_world x) k y" by blast
  then show ?thesis
    using ack_frame [of y E k] by (intro exI [of _ k] exI [of _ y]) (auto simp: answers_def)
qed

theorem commands_take_effect_witness:
  "\<exists>k y. run_cmd sample_agent_env [] [] \<lparr>cp_id = [1], cp_op = Destroy, cp_room = Some [2], cp_type = None\<rparr> sample_host =
     send_ack sample_agent_env k y \<and> ak_ok k \<and> ak_gone k = Some True"
proof -
  let ?cmd = "\<lparr>cp_id = [1], cp_op = Destroy, cp_room = Some [2], cp_type = None\<rparr> :: cmd_payload"
  have "wd_rooms (host_world sample_host) = []" by (simp add: sample_host_def new_server_def)
  with commands_take_effect [OF sample_host_reachable, of "[]" "[]" ?cmd] show ?thesis
    by (auto simp: command_done_def destroy_done_def)
qed

end
