(* ===== verification/Agent_Sync.thy ===== *)
theory Agent_Sync
  imports Agent_Commands Fleet_Orchestrator_Props Fleet_Snapshot_Props
begin

text \<open>
  Agent and orchestrator together: one poll exchange, from the agent's rooms over the wire into
  the orchestrator's read model. \<open>recorded\<close> says that the orchestrator's row for an instance is
  the row of one content of that agent; the exchange makes it the current one.
\<close>

section \<open>The hash determines the content\<close>

lemma normal_strings_inject: "map normal (map JStr xs) = map normal (map JStr ys) \<Longrightarrow> xs = ys"
  by (induction xs arbitrary: ys) (case_tac ys; simp)+

lemma normal_lookup:
  assumes "normal (JObj kvs) = normal (JObj kvs')" "distinct (map fst kvs')"
    and "(k, v) \<in> set kvs" "v \<noteq> JUndef" "(k, v') \<in> set kvs'"
  shows "normal v = normal v'"
proof -
  let ?n = "\<lambda>kvs. map (\<lambda>(k, v). (k, normal v)) (filter (\<lambda>(k, v). v \<noteq> JUndef) kvs)"
  from assms(1) have "set (?n kvs) = set (?n kvs')"
    by (simp del: set_map set_filter) (metis set_sort)
  moreover have "(k, normal v) \<in> set (?n kvs)" using assms(3,4) by force
  ultimately obtain v'' where "(k, v'') \<in> set kvs'" "normal v'' = normal v" by auto
  moreover from this(1) assms(2,5) have "v'' = v'" by (metis eq_key_imp_eq_value)
  ultimately show ?thesis by simp
qed

lemma normal_room_inject:
  assumes "normal (room_to_message r) = normal (room_to_message q)"
  shows "r = q"
proof -
  note look = normal_lookup [OF assms [unfolded room_to_message_def]]
  have d: "distinct (map fst [(js ''id'', JStr (sr_id q)), (js ''type'', JStr (sr_type q)),
      (js ''connections'', JNum (sr_connections q)), (js ''origin'', JStr (sr_origin q))])"
    by (simp add: js_def)
  have "sr_id r = sr_id q" using look [OF d, of "js ''id''" "JStr (sr_id r)" "JStr (sr_id q)"] by simp
  moreover have "sr_type r = sr_type q" using look [OF d, of "js ''type''" "JStr (sr_type r)" "JStr (sr_type q)"] by simp
  moreover have "sr_connections r = sr_connections q"
    using look [OF d, of "js ''connections''" "JNum (sr_connections r)" "JNum (sr_connections q)"] by simp
  moreover have "sr_origin r = sr_origin q" using look [OF d, of "js ''origin''" "JStr (sr_origin r)" "JStr (sr_origin q)"] by simp
  ultimately show ?thesis by simp
qed

lemma normal_rooms_inject: "map normal (map room_to_message xs) = map normal (map room_to_message ys) \<Longrightarrow> xs = ys"
proof (induction xs arbitrary: ys)
  case (Cons x xs)
  then show ?case by (cases ys) (auto dest: normal_room_inject)
qed simp

text \<open>Two contents of one agent: only the types, rooms and status can differ.\<close>

lemma content_inject:
  assumes "canonicalize (content_value (build_content opts w s)) = canonicalize (content_value (build_content opts w' s'))"
  shows "build_content opts w s = build_content opts w' s'"
proof -
  let ?c = "build_content opts w s" and ?d = "build_content opts w' s'"
  have n: "normal (content_value ?c) = normal (content_value ?d)" using assms by (simp add: canonicalize_normal)
  note look = normal_lookup [OF n [unfolded content_value_def]]
  have d: "distinct (map fst
     [(js ''name'', JStr (sc_name ?d)), (js ''processUid'', JStr (sc_process ?d)),
      (js ''agentVersion'', JStr (sc_version ?d)), (js ''protocolVersion'', JNum (sc_protocol ?d)),
      (js ''endpointUrl'', JStr (sc_url ?d)),
      (js ''labels'', JObj (map (\<lambda>(k, v). (k, JStr v)) (sc_labels ?d))),
      (js ''capacity'', capacity_to_message (sc_capacity ?d)), (js ''autoCreate'', JBool (sc_auto ?d)),
      (js ''roomTypes'', JArr (map JStr (sc_types ?d))), (js ''rooms'', JArr (map room_to_message (sc_rooms ?d))),
      (js ''status'', JStr (sc_status ?d))])"
    by (simp add: js_def)
  have "normal (JArr (map JStr (sc_types ?c))) = normal (JArr (map JStr (sc_types ?d)))"
    by (rule look [OF d, of "js ''roomTypes''"]) simp_all
  then have "sc_types ?c = sc_types ?d" using normal_strings_inject [of "sc_types ?c" "sc_types ?d"] by simp
  moreover have "normal (JArr (map room_to_message (sc_rooms ?c))) = normal (JArr (map room_to_message (sc_rooms ?d)))"
    by (rule look [OF d, of "js ''rooms''"]) simp_all
  then have "sc_rooms ?c = sc_rooms ?d" using normal_rooms_inject [of "sc_rooms ?c" "sc_rooms ?d"] by simp
  moreover have "normal (JStr (sc_status ?c)) = normal (JStr (sc_status ?d))"
    by (rule look [OF d, of "js ''status''"]) simp_all
  then have "sc_status ?c = sc_status ?d" by simp
  ultimately show ?thesis by (simp add: build_content_def Let_def)
qed

section \<open>Rows\<close>

definition current :: "'e agent_env \<Rightarrow> host \<Rightarrow> snapshot_content" where
  "current E x = build_content (ae_options E) (host_world x) (ag_snapshot (ho_agent x))"

definition content_hash :: "'e agent_env \<Rightarrow> snapshot_content \<Rightarrow> jsstr" where
  "content_hash E c = hash64 (ae_digest E) (content_value c)"

definition content_payload :: "snapshot_content \<Rightarrow> sync_payload" where
  "content_payload c = sync_payload.truncate (state_reply [] True 0 [] c)"

definition recorded :: "'e agent_env \<Rightarrow> jsstr \<Rightarrow> snapshot_content \<Rightarrow> nat \<Rightarrow> fleet \<Rightarrow> bool" where
  "recorded E inst c seq s \<longleftrightarrow> (\<exists>r t. jm_get (fs_records s) inst = Some r \<and>
     ir_info r = build_instance_info inst (content_payload c) t \<and> ir_hash r = content_hash E c \<and> ir_seq r \<le> int seq)"

lemma payload_row:
  "build_instance_info inst (sync_payload.truncate (state_reply req full n h c)) t = build_instance_info inst (content_payload c) t"
  by (simp add: build_instance_info_def content_payload_def state_reply_def sync_payload.truncate_def)

lemma payload_same:
  "payload_value (sync_payload.truncate (state_reply req full n h c)) = payload_value (content_payload c)"
  "sp_url (sync_payload.truncate (state_reply req full n h c)) = sp_url (content_payload c)"
  by (simp_all add: payload_value_def content_payload_def state_reply_def sync_payload.truncate_def)

lemma payload_valid:
  "validate_snapshot re url (sync_payload.truncate (state_reply req full n h c)) = validate_snapshot re url (content_payload c)"
  unfolding validate_snapshot_def payload_same ..

lemma payload_fields:
  "sp_seq (sync_payload.truncate (state_reply req full n h c)) = int n"
  "sp_hash (sync_payload.truncate (state_reply req full n h c)) = h"
  by (simp_all add: state_reply_def sync_payload.truncate_def)

section \<open>The agent's side\<close>

definition poll_answer :: "'e agent_env \<Rightarrow> poll_payload \<Rightarrow> host \<Rightarrow> state_payload" where
  "poll_answer E p x = state_reply (pp_req p) (pp_known p \<noteq> Some (content_hash E (current E x)))
     (ss_seq (ag_snapshot (ho_agent x)) + 1) (content_hash E (current E x)) (current E x)"

lemma on_poll_sends:
  assumes "decode_frame (ae_dec E) (ae_unset E) topic_poll (to_bytes raw) = Inr (PollFrame p)"
    and "node_connected (ag_client (ho_agent x))"
    and "encode_frame (ae_enc E) (StateFrame (poll_answer E p x)) = Inr b" "message_sendable (topic_state, b)"
  shows "nc_sent (ag_client (on_poll E raw (host_world x) (ho_agent x))) = nc_sent (ag_client (ho_agent x)) @ [message_bytes topic_state b]"
    "ss_seq (ag_snapshot (on_poll E raw (host_world x) (ho_agent x))) = ss_seq (ag_snapshot (ho_agent x)) + 1"
proof -
  let ?a = "resolve_status_on_echo (pp_status p) (ho_agent x)"
  have same: "ag_client ?a = ag_client (ho_agent x)" "ag_snapshot ?a = ag_snapshot (ho_agent x)"
    by (simp_all add: resolve_status_on_echo_def log_events_def)
  have "\<exists>level. agent_poll_reply (ae_enc E) (ae_digest E) (ae_options E) (host_world x) (pp_req p) (pp_known p) (ag_snapshot (ho_agent x)) =
      (next_seq (ag_snapshot (ho_agent x)), Inr (poll_answer E p x, level))"
    using assms(3) by (cases "pp_known p = Some (content_hash E (current E x))")
      (simp_all add: agent_poll_reply_def rebuild_def Let_def poll_answer_def current_def content_hash_def next_seq_def)
  then obtain level where r: "agent_poll_reply (ae_enc E) (ae_digest E) (ae_options E) (host_world x) (pp_req p) (pp_known p) (ag_snapshot (ho_agent x)) =
      (next_seq (ag_snapshot (ho_agent x)), Inr (poll_answer E p x, level))" by blast
  have "on_poll E raw (host_world x) (ho_agent x) =
      ?a\<lparr>ag_snapshot := next_seq (ag_snapshot (ho_agent x)), ag_client := fst (node_send topic_state b (ag_client (ho_agent x)))\<rparr>"
    using assms by (simp add: on_poll_def Let_def same r agent_send_def)
  then show "nc_sent (ag_client (on_poll E raw (host_world x) (ho_agent x))) = nc_sent (ag_client (ho_agent x)) @ [message_bytes topic_state b]"
    "ss_seq (ag_snapshot (on_poll E raw (host_world x) (ho_agent x))) = ss_seq (ag_snapshot (ho_agent x)) + 1"
    by (simp_all add: node_send_frame [OF assms(4,2)] next_seq_def)
qed

text \<open>A hash-only answer is only given for a hash the orchestrator has on record, which the digest
  ties to the current content.\<close>

definition distinguishes :: "'e agent_env \<Rightarrow> snapshot_content \<Rightarrow> bool" where
  "distinguishes E c \<longleftrightarrow> (\<forall>w s. content_hash E (build_content (ae_options E) w s) = content_hash E c \<longrightarrow>
     canonicalize (content_value (build_content (ae_options E) w s)) = canonicalize (content_value c))"

lemma hash_tells:
  assumes "distinguishes E (current E x)" "content_hash E (build_content (ae_options E) w s) = content_hash E (current E x)"
  shows "build_content (ae_options E) w s = current E x"
  using assms content_inject unfolding distinguishes_def current_def by blast

section \<open>The orchestrator's side\<close>

lemma records_memo: "fs_records (snd (fleet_instances s)) = fs_records s" "fs_records (snd (fleet_stats_of d s)) = fs_records s"
  by (simp_all add: fleet_instances_def fleet_stats_of_def resolve_def Let_def split: option.split prod.split)

lemma reconcile_same_records: "fs_records (fleet_of (run_reconcile ev w)) = fs_records (fleet_of w)"
  using records_memo by (simp add: run_reconcile_def Let_def case_prod_unfold emit_events_def with_fleet_def)

lemma tidy_records:
  "fs_records (clear_pending_visibility i s) = fs_records s" "fs_records (reconcile_pending_status i s) = fs_records s"
  "fs_records (set_stale i b s) = fs_records s" "fs_records (invalidate s) = fs_records s"
  by (simp_all add: clear_pending_visibility_def reconcile_pending_status_def set_stale_def invalidate_def split: option.split)

lemma applied_record:
  assumes "\<And>r. jm_get (fs_records s) inst = Some r \<Longrightarrow> ir_seq r < sp_seq p"
  shows "snd (apply_snapshot inst p now s)"
    "\<exists>j. jm_get (fs_records (fst (apply_snapshot inst p now s))) inst =
       Some \<lparr>ir_info = build_instance_info inst p now, ir_seq = sp_seq p, ir_hash = sp_hash p, ir_join = j\<rparr>"
  using assms by (auto simp: apply_snapshot_def Let_def tidy_records jm_get_set split: option.split)

lemma touched_record:
  "jm_get (fs_records s) inst = Some r \<Longrightarrow>
   jm_get (fs_records (touch inst now s)) inst = Some (r\<lparr>ir_info := (ir_info r)\<lparr>ii_last_sync := now\<rparr>\<rparr>)"
  by (simp add: touch_def Let_def tidy_records jm_get_set)

lemma touched_row: "(build_instance_info inst p t)\<lparr>ii_last_sync := now\<rparr> = build_instance_info inst p now"
  by (simp add: build_instance_info_def Let_def)


lemma full_report:
  assumes "snd (poll_reply inst req (oc_poller w))" "p = state_reply req True n (content_hash E c) c"
    and "validate_snapshot (ev_re_test ev) (ev_url ev) (content_payload c) = None"
    and "\<And>r. jm_get (fs_records (fleet_of w)) inst = Some r \<Longrightarrow> ir_seq r < int n"
  shows "recorded E inst c n (fleet_of (handle_state ev now inst p w))"
proof -
  let ?q = "sync_payload.truncate p"
  let ?w = "with_fleet (set_stale inst False (fleet_of w)) (w\<lparr>oc_poller := fst (poll_reply inst req (oc_poller w))\<rparr>)"
  have q: "sp_seq ?q = int n" "sp_hash ?q = content_hash E c" "sy_req p = req" "sy_full p"
    unfolding assms(2) payload_fields by (simp_all add: state_reply_def)
  have older: "\<And>r. jm_get (fs_records (fleet_of ?w)) inst = Some r \<Longrightarrow> ir_seq r < sp_seq ?q"
    using assms(4) by (simp add: q tidy_records)
  obtain j where a: "snd (apply_snapshot inst ?q now (fleet_of ?w))"
    "jm_get (fs_records (fst (apply_snapshot inst ?q now (fleet_of ?w)))) inst =
       Some \<lparr>ir_info = build_instance_info inst ?q now, ir_seq = int n, ir_hash = content_hash E c, ir_join = j\<rparr>"
    using applied_record [OF older, where now = now] unfolding q by blast
  have v: "validate_snapshot (ev_re_test ev) (ev_url ev) ?q = None" unfolding assms(2) payload_valid by (rule assms(3))
  have "handle_state ev now inst p w = run_reconcile ev (with_fleet (fst (apply_snapshot inst ?q now (fleet_of ?w))) ?w)"
    using assms(1) a(1) v by (simp add: handle_state_def Let_def case_prod_unfold q)
  then show ?thesis using a(2) by (auto simp: recorded_def reconcile_same_records assms(2) payload_row)
qed

lemma hash_report:
  assumes "snd (poll_reply inst req (oc_poller w))" "sy_req p = req" "\<not> sy_full p"
    and "recorded E inst c n (fleet_of w)"
  shows "recorded E inst c n (fleet_of (handle_state ev now inst p w))"
proof -
  let ?s = "set_stale inst False (fleet_of w)"
  obtain r t where r: "jm_get (fs_records (fleet_of w)) inst = Some r" "ir_info r = build_instance_info inst (content_payload c) t"
    "ir_hash r = content_hash E c" "ir_seq r \<le> int n"
    using assms(4) by (auto simp: recorded_def)
  have "fleet_of (handle_state ev now inst p w) = touch inst now ?s"
    using assms(1-3) by (simp add: handle_state_def Let_def case_prod_unfold)
  moreover have "jm_get (fs_records ?s) inst = Some r" using r(1) by (simp add: tidy_records)
  ultimately show ?thesis
    using r(2-4) by (auto simp: recorded_def touched_record touched_row)
qed

lemma recorded_mono: "recorded E inst c m s \<Longrightarrow> m \<le> n \<Longrightarrow> recorded E inst c n s"
  by (fastforce simp: recorded_def)

section \<open>Property\<close>

definition full_answer :: "'e agent_env \<Rightarrow> poll_payload \<Rightarrow> host \<Rightarrow> state_payload" where
  "full_answer E p x = state_reply (pp_req p) True (ss_seq (ag_snapshot (ho_agent x)) + 1) (content_hash E (current E x)) (current E x)"

definition answer_sendable :: "'e agent_env \<Rightarrow> poll_payload \<Rightarrow> host \<Rightarrow> bool" where
  "answer_sendable E p x \<longleftrightarrow> frame_sendable (StateFrame (full_answer E p x)) \<and>
     length (text_encode (pp_req p)) + length (text_encode (content_hash E (current E x))) < 2 ^ 52 \<and>
     (\<forall>b. encode_frame (ae_enc E) (StateFrame (poll_answer E p x)) = Inr b \<longrightarrow> message_sendable (topic_state, b))"

lemma answer_decodes:
  assumes "message_library (ae_enc E) (ae_dec E) (ae_unset E)" "answer_sendable E p x"
  shows "\<exists>b q. encode_frame (ae_enc E) (StateFrame (poll_answer E p x)) = Inr b \<and>
    decode_frame (ae_dec E) (ae_unset E) topic_state b = Inr (StateFrame q) \<and> sy_req q = pp_req p \<and>
    (if pp_known p = Some (content_hash E (current E x)) then \<not> sy_full q else q = full_answer E p x)"
proof (cases "pp_known p = Some (content_hash E (current E x))")
  case True
  let ?h = "poll_answer E p x"
  have h: "\<not> sy_full ?h" "sy_req ?h = pp_req p" "sp_hash ?h = content_hash E (current E x)"
    "sp_seq ?h = int (ss_seq (ag_snapshot (ho_agent x)) + 1)"
    using True by (simp_all add: poll_answer_def state_reply_def)
  have "frame_ok (StateFrame (full_answer E p x))" using assms(2) by (simp add: answer_sendable_def frame_sendable_def)
  then have "wire_safe (sy_req ?h)" "wire_safe (sp_hash ?h)" "uint_ok (sp_seq ?h)"
    by (simp_all add: full_answer_def h) (simp_all add: state_reply_def)
  with hash_frame_roundtrip [OF assms(1) h(1)] assms(2) True show ?thesis
    by (simp add: answer_sendable_def h) blast
next
  case False
  then have "poll_answer E p x = full_answer E p x" by (simp add: poll_answer_def full_answer_def)
  with sendable_frame_roundtrip [OF assms(1), of "StateFrame (full_answer E p x)"] assms(2) False show ?thesis
    by (auto simp: answer_sendable_def) (simp add: full_answer_def state_reply_def)
qed

text \<open>What the orchestrator's row for the agent says before the exchange: nothing, or an earlier
  content; the hash it may have asked with is that row's.\<close>

definition row_before :: "'e agent_env \<Rightarrow> jsstr \<Rightarrow> poll_payload \<Rightarrow> host \<Rightarrow> fleet \<Rightarrow> bool" where
  "row_before E inst p x s \<longleftrightarrow>
     jm_get (fs_records s) inst = None \<and> pp_known p = None \<or>
     (\<exists>v u. recorded E inst (build_content (ae_options E) v u) (ss_seq (ag_snapshot (ho_agent x))) s \<and>
        (pp_known p = None \<or> pp_known p = Some (content_hash E (build_content (ae_options E) v u))))"

text \<open>
  C4: one poll exchange carries the agent's rooms into the orchestrator's view. When a connected
  agent handles the open poll of its orchestrator, it sends exactly one frame, and once the orchestrator has
  handled the body of that frame its row for the agent is the row of the agent's current content
  (types, rooms with their connections, status), whether the answer was the full snapshot or
  only the hash the orchestrator already had on record; the sequence number has moved up by one.
\<close>

theorem poll_exchange_syncs:
  assumes "message_library (ae_enc E) (ae_dec E) (ae_unset E)" "ev_dec ev = ae_dec E" "ev_unset ev = ae_unset E"
    and poll: "decode_frame (ae_dec E) (ae_unset E) topic_poll (to_bytes raw) = Inr (PollFrame p)" "answer_sendable E p x"
    and up: "node_connected (ag_client (ho_agent x))" "jm_has (oc_links w) inst" "snd (poll_reply inst (pp_req p) (oc_poller w))"
    and "row_before E inst p x (fleet_of w)" "distinguishes E (current E x)"
    and "validate_snapshot (ev_re_test ev) (ev_url ev) (content_payload (current E x)) = None"
  shows "\<exists>b. nc_sent (ag_client (on_poll E raw (host_world x) (ho_agent x))) =
      nc_sent (ag_client (ho_agent x)) @ [message_bytes topic_state b] \<and>
    ss_seq (ag_snapshot (on_poll E raw (host_world x) (ho_agent x))) = ss_seq (ag_snapshot (ho_agent x)) + 1 \<and>
    recorded E inst (current E x) (ss_seq (ag_snapshot (ho_agent x)) + 1)
      (fleet_of (handle_agent_message ev now inst topic_state b w))"
proof -
  let ?n = "ss_seq (ag_snapshot (ho_agent x))" and ?c = "current E x"
  obtain b q where b: "encode_frame (ae_enc E) (StateFrame (poll_answer E p x)) = Inr b"
    "decode_frame (ae_dec E) (ae_unset E) topic_state b = Inr (StateFrame q)" "sy_req q = pp_req p"
    "if pp_known p = Some (content_hash E ?c) then \<not> sy_full q else q = full_answer E p x"
    using answer_decodes [OF assms(1) poll(2)] by blast
  have m: "handle_agent_message ev now inst topic_state b w = handle_state ev now inst q w"
    using up(2) b(2) assms(2,3) by (simp add: handle_agent_message_def)
  have "message_sendable (topic_state, b)" using poll(2) b(1) by (simp add: answer_sendable_def)
  note sent = on_poll_sends [OF poll(1) up(1) b(1) this]
  have "recorded E inst ?c (?n + 1) (fleet_of (handle_state ev now inst q w))"
  proof (cases "pp_known p = Some (content_hash E ?c)")
    case True
    then obtain v u where "recorded E inst (build_content (ae_options E) v u) ?n (fleet_of w)"
      "content_hash E (build_content (ae_options E) v u) = content_hash E ?c"
      using assms(9) by (auto simp: row_before_def)
    moreover from this(2) have "build_content (ae_options E) v u = ?c" by (rule hash_tells [OF assms(10)])
    ultimately have "recorded E inst ?c (?n + 1) (fleet_of w)" using recorded_mono [of E inst ?c ?n] by simp
    with up(3) b(3,4) True show ?thesis by (simp add: hash_report)
  next
    case False
    have full: "q = state_reply (pp_req p) True (?n + 1) (content_hash E ?c) ?c" using b(4) False by (simp add: full_answer_def)
    have older: "jm_get (fs_records (fleet_of w)) inst = Some r \<Longrightarrow> ir_seq r < int (?n + 1)" for r
      using assms(9) by (auto simp: row_before_def recorded_def)
    from full_report [OF up(3) full assms(11)] older show ?thesis by blast
  qed
  with sent show ?thesis by (intro exI [of _ b]) (simp add: m)
qed

text \<open>A connected agent without rooms and the orchestrator that polls it for the first time.\<close>

definition synced_host :: host where
  "synced_host = \<lparr>ho_agent = new_agent\<lparr>ag_client := new_node_client\<lparr>nc_socket := Some SockOpen\<rparr>\<rparr>, ho_server = new_server\<rparr>"

definition synced_env :: "wire_error agent_env" where
  "synced_env = sample_agent_env\<lparr>ae_digest := (\<lambda>t. if t = canonicalize (content_value (build_content sample_options
       (host_world synced_host) (ag_snapshot (ho_agent synced_host)))) then [0x68] else [0x69])\<rparr>"

definition synced_poll :: poll_payload where
  "synced_poll = \<lparr>pp_req = js ''poll_1'', pp_known = None, pp_status = active\<rparr>"

lemma synced_hash: "content_hash synced_env (current synced_env synced_host) = [0x68]" "distinguishes synced_env (current synced_env synced_host)"
  by (simp_all add: content_hash_def hash64_def synced_env_def current_def sample_agent_env_def distinguishes_def)

lemma synced_current:
  "current synced_env synced_host = \<lparr>sc_name = [0x6E], sc_process = js ''p_1'', sc_version = [0x31], sc_protocol = 3, sc_url = js ''ws://a'',
     sc_labels = [], sc_capacity = \<lparr>max_connections = None, max_rooms = Some 2\<rparr>, sc_auto = True, sc_types = [], sc_rooms = [],
     sc_status = active\<rparr>"
  by (simp add: current_def build_content_def synced_env_def sample_agent_env_def sample_options_def synced_host_def new_agent_def
      new_snapshot_state_def new_server_def js_sort_def protocol_version_def js_def)

lemma synced_full: "full_answer synced_env synced_poll synced_host = \<lparr>sp_seq = 1, sp_hash = [0x68], sp_name = [0x6E], sp_process = js ''p_1'',
    sp_agent_version = [0x31], sp_protocol = 3, sp_url = js ''ws://a'', sp_labels = [],
    sp_capacity = \<lparr>max_connections = None, max_rooms = Some 2\<rparr>, sp_auto = True, sp_types = [], sp_rooms = [], sp_status = active,
    sy_req = js ''poll_1'', sy_full = True\<rparr>"
  unfolding full_answer_def synced_hash unfolding synced_current
  by (simp add: state_reply_def synced_poll_def synced_host_def new_agent_def new_snapshot_state_def)

lemma capacity_bytes:
  "map_of fleet_schema (js ''Capacity'') = Some capacity_fields"
  "spec_fields (spec_message fleet_schema 0) (Suc 0) capacity_fields (capacity_to_message \<lparr>max_connections = None, max_rooms = Some 2\<rparr>) = Inr [16, 4]"
  "\<exists>kvs. capacity_to_message \<lparr>max_connections = None, max_rooms = Some 2\<rparr> = JObj kvs"
  by (simp_all add: fleet_schema_def capacity_fields_def opt_field_def capacity_to_message_def opt_prop_def limit_value_def encode_eval
      zigzag_def)

lemma synced_bytes: "\<exists>b. spec_message fleet_schema 2 (js ''State'') (to_message (StateFrame (full_answer synced_env synced_poll synced_host))) = Inr b \<and>
    length b < 1000"
proof -
  have t: "text_encode [0x68] = [0x68]" "text_encode [0x6E] = [0x6E]" "text_encode [0x31] = [0x31]" 
    "length (text_encode (js ''p_1'')) = 3" "length (text_encode (js ''ws://a'')) = 6" "length (text_encode (js ''poll_1'')) = 6"
    "length (text_encode active) = 6"
    by (simp_all add: js_eval text_encode_def utf8_point_def is_high_def is_low_def active_def)
  obtain kvs where k: "capacity_to_message \<lparr>max_connections = None, max_rooms = Some 2\<rparr> = JObj kvs"
    "spec_fields (spec_message fleet_schema 0) (Suc 0) capacity_fields (JObj kvs) = Inr [16, 4]"
    using capacity_bytes(2,3) by auto
  show ?thesis
    by (simp add: depth_numeral fields_of_def state_lookup state_fields_def opt_field_def rep_field_def spec_slot_def nullish_def
        spec_field_def truthy_def js_int_def state_props synced_full capacity_bytes(1) k spec_key_small varint_bytes_small spec_len_def t)
qed

lemma synced_sendable: "answer_sendable synced_env synced_poll synced_host"
proof -
  let ?p = "full_answer synced_env synced_poll synced_host"
  obtain b where b: "spec_message fleet_schema 2 (js ''State'') (to_message (StateFrame ?p)) = Inr b" "length b < 1000"
    using synced_bytes by blast
  have e: "ae_enc synced_env = encode_message fleet_schema 2" by (simp add: synced_env_def sample_agent_env_def)
  have "encode_frame (ae_enc synced_env) (StateFrame ?p) = Inr ([3, 0] @ b)"
    using encode_message_spec [OF fleet_schema_ok b(1)] b(2)
    by (simp add: e encode_frame_def topic_type_of [of "StateFrame _", simplified] protocol_version_def wire_minor_def)
  moreover have "poll_answer synced_env synced_poll synced_host = ?p"
    by (simp add: poll_answer_def full_answer_def synced_poll_def)
  moreover have "frame_ok (StateFrame ?p)"
    by (simp add: synced_full conforms_eval uint_ok_def labels_ok_def limit_ok_def active_def)
  moreover have "message_sendable (topic_state, [3, 0] @ b)"
    using b(2) by (simp add: message_sendable_def message_bytes_def topic_state_def encode_eval wire_safe_def well_formed_def)
  ultimately show ?thesis
    using b by (simp add: answer_sendable_def frame_sendable_def synced_hash synced_poll_def text_encode_def js_eval utf8_point_def is_high_def is_low_def)
qed

theorem poll_exchange_syncs_witness:
  "\<exists>raw b. nc_sent (ag_client (on_poll synced_env raw (host_world synced_host) (ho_agent synced_host))) = [message_bytes topic_state b] \<and>
     recorded synced_env [1] (current synced_env synced_host) 1 (fleet_of (handle_agent_message sample_env 0 [1] topic_state b sample_joined))"
proof -
  have lib: "message_library (ae_enc synced_env) (ae_dec synced_env) (ae_unset synced_env)"
    and dec: "ev_dec sample_env = ae_dec synced_env" "ev_unset sample_env = ae_unset synced_env"
    using own_library.message_library_axioms by (simp_all add: synced_env_def sample_agent_env_def sample_env_def)
  have "\<exists>b. spec_message fleet_schema 2 (js ''Poll'') (to_message (PollFrame synced_poll)) = Inr b \<and> length b < 1000"
    by (simp add: synced_poll_def active_def fleet_schema_def poll_fields_def opt_field_def opt_prop_def encode_eval)
  then have "frame_sendable (PollFrame synced_poll)"
    by (auto simp: frame_sendable_def) (simp_all add: synced_poll_def active_def conforms_eval)
  from sendable_frame_roundtrip [OF lib this] obtain f where
    f: "decode_frame (ae_dec synced_env) (ae_unset synced_env) topic_poll (to_bytes (BytesArg f)) = Inr (PollFrame synced_poll)"
    by (auto simp: to_bytes_def)
  have w: "jm_has (oc_links sample_joined) [1]" "snd (poll_reply [1] (pp_req synced_poll) (oc_poller sample_joined))"
    "jm_get (fs_records (fleet_of sample_joined)) [1] = None"
    by (simp_all add: sample_joined_def handle_agent_join_def start_polling_def poll_def schedule_def new_orch_def new_poller_def
        orch_send_poll_def Let_def case_prod_unfold jm_get_set jm_has_def poll_reply_def synced_poll_def decimal.simps js_def
        get_instance_def resolve_def new_engine_def new_fleet_def)
  have "validate_snapshot (ev_re_test sample_env) (ev_url sample_env) (content_payload (current synced_env synced_host)) = None"
    by (simp add: validate_bounded synced_current content_payload_def state_reply_def sync_payload.truncate_def sample_env_def
        snapshot_bounded_def js_def)
  moreover have "node_connected (ag_client (ho_agent synced_host))" "nc_sent (ag_client (ho_agent synced_host)) = []"
    "ss_seq (ag_snapshot (ho_agent synced_host)) = 0"
    by (simp_all add: synced_host_def new_agent_def new_snapshot_state_def node_connected_def new_node_client_def)
  ultimately have "\<exists>b. nc_sent (ag_client (on_poll synced_env (BytesArg f) (host_world synced_host) (ho_agent synced_host))) = [message_bytes topic_state b] \<and>
     recorded synced_env [1] (current synced_env synced_host) 1 (fleet_of (handle_agent_message sample_env 0 [1] topic_state b sample_joined))"
    using poll_exchange_syncs [OF lib dec f synced_sendable _ w(1,2) _ synced_hash(2), of 0] w(3)
    by (auto simp: row_before_def synced_poll_def)
  then show ?thesis by blast
qed

end
