(* ===== verification/Signal_Wire.thy ===== *)
theory Signal_Wire
  imports Handshake
begin

text \<open>
  The frames of the signalling protocol: \<open>signal/src/wire/index.ts\<close> and the copy of its schema
  in \<open>node/src/peer/NegotiationCore.ts\<close>. Both are codecs of the handshake package with major 1.
\<close>

section \<open>Schemas\<close>

definition opt_string :: "string \<Rightarrow> field_def" where
  "opt_string k = \<lparr>fd_key = js k, fd_type = TString, fd_rule = Optional\<rparr>"

definition welcome_fields :: "field_def list" where
  "welcome_fields = [opt_string ''youId'', opt_string ''hostId'', opt_string ''iceServers'']"

text \<open>Offer and answer.\<close>

definition sdp_fields :: "field_def list" where
  "sdp_fields = [opt_string ''to'', opt_string ''sdp'', opt_string ''from'']"

definition candidate_fields :: "field_def list" where
  "candidate_fields = [opt_string ''to'', opt_string ''candidate'', opt_string ''from'']"

definition elected_fields :: "field_def list" where
  "elected_fields = [opt_string ''newHostId'']"

definition signal_schema :: schema where
  "signal_schema =
     [(js ''Welcome'', welcome_fields), (js ''Offer'', sdp_fields), (js ''Answer'', sdp_fields),
      (js ''IceCandidate'', candidate_fields), (js ''HostElected'', elected_fields),
      (js ''HostState'', [\<lparr>fd_key = js ''state'', fd_type = TBytes, fd_rule = Optional\<rparr>])]"

definition signal_wire_major :: nat where
  "signal_wire_major = 1"

definition signal_codec :: codec where
  "signal_codec = \<lparr>cd_major = signal_wire_major, cd_minor = 0, cd_schema = signal_schema\<rparr>"

text \<open>The peers' copy, without the host state.\<close>

definition peer_schema :: schema where
  "peer_schema =
     [(js ''Welcome'', welcome_fields), (js ''Offer'', sdp_fields), (js ''Answer'', sdp_fields),
      (js ''IceCandidate'', candidate_fields), (js ''HostElected'', elected_fields)]"

definition peer_codec :: codec where
  "peer_codec = \<lparr>cd_major = 1, cd_minor = 0, cd_schema = peer_schema\<rparr>"

section \<open>Encoding\<close>

record sdp_payload =
  sg_to :: jsstr
  sg_body :: jsstr
  sg_from :: "jsstr option"

text \<open>The property \<open>from\<close> is set when it is truthy.\<close>

definition from_prop :: "jsstr option \<Rightarrow> (jsstr \<times> jsval) list" where
  "from_prop f = (case f of None \<Rightarrow> [] | Some s \<Rightarrow> if s = [] then [] else [(js ''from'', JStr s)])"

definition encode_welcome :: "jsstr \<Rightarrow> jsstr option \<Rightarrow> jsstr \<Rightarrow> codec_error + bytes" where
  "encode_welcome you host ice =
     codec_encode signal_codec 1 (js ''Welcome'')
       (JObj ([(js ''youId'', JStr you), (js ''iceServers'', JStr ice)] @
              (case host of None \<Rightarrow> [] | Some h \<Rightarrow> [(js ''hostId'', JStr h)])))"

definition encode_offer :: "sdp_payload \<Rightarrow> codec_error + bytes" where
  "encode_offer p = codec_encode signal_codec 1 (js ''Offer'')
     (JObj ([(js ''to'', JStr (sg_to p)), (js ''sdp'', JStr (sg_body p))] @ from_prop (sg_from p)))"

definition encode_answer :: "sdp_payload \<Rightarrow> codec_error + bytes" where
  "encode_answer p = codec_encode signal_codec 1 (js ''Answer'')
     (JObj ([(js ''to'', JStr (sg_to p)), (js ''sdp'', JStr (sg_body p))] @ from_prop (sg_from p)))"

definition encode_ice :: "sdp_payload \<Rightarrow> codec_error + bytes" where
  "encode_ice p = codec_encode signal_codec 1 (js ''IceCandidate'')
     (JObj ([(js ''to'', JStr (sg_to p)), (js ''candidate'', JStr (sg_body p))] @ from_prop (sg_from p)))"

definition encode_elected :: "jsstr \<Rightarrow> codec_error + bytes" where
  "encode_elected h = codec_encode signal_codec 1 (js ''HostElected'') (JObj [(js ''newHostId'', JStr h)])"

definition encode_host_state :: "bytes \<Rightarrow> codec_error + bytes" where
  "encode_host_state s = codec_encode signal_codec 1 (js ''HostState'') (JObj [(js ''state'', JBytes s)])"

section \<open>Decoding\<close>

text \<open>\<open>m[k] ?? d\<close> of a string field: a decoded field is a string.\<close>

definition field_text :: "jsval \<Rightarrow> string \<Rightarrow> jsstr \<Rightarrow> jsstr" where
  "field_text m k d = (case get_prop m (js k) of JStr s \<Rightarrow> s | _ \<Rightarrow> d)"

definition field_option :: "jsval \<Rightarrow> string \<Rightarrow> jsstr option" where
  "field_option m k = (if present m (js k) then Some (field_text m k []) else None)"

definition decode_welcome :: "bytes \<Rightarrow> codec_error + jsstr \<times> jsstr option \<times> jsstr" where
  "decode_welcome f = rbind (codec_decode signal_codec (js ''Welcome'') f) (\<lambda>m.
     Inr (field_text m ''youId'' [], field_option m ''hostId'', field_text m ''iceServers'' (js ''[]'')))"

definition decode_offer :: "bytes \<Rightarrow> codec_error + sdp_payload" where
  "decode_offer f = rbind (codec_decode signal_codec (js ''Offer'') f) (\<lambda>m.
     Inr \<lparr>sg_to = field_text m ''to'' [], sg_body = field_text m ''sdp'' [], sg_from = field_option m ''from''\<rparr>)"

definition decode_answer :: "bytes \<Rightarrow> codec_error + sdp_payload" where
  "decode_answer f = rbind (codec_decode signal_codec (js ''Answer'') f) (\<lambda>m.
     Inr \<lparr>sg_to = field_text m ''to'' [], sg_body = field_text m ''sdp'' [], sg_from = field_option m ''from''\<rparr>)"

definition decode_ice :: "bytes \<Rightarrow> codec_error + sdp_payload" where
  "decode_ice f = rbind (codec_decode signal_codec (js ''IceCandidate'') f) (\<lambda>m.
     Inr \<lparr>sg_to = field_text m ''to'' [], sg_body = field_text m ''candidate'' [], sg_from = field_option m ''from''\<rparr>)"

definition decode_elected :: "bytes \<Rightarrow> codec_error + jsstr" where
  "decode_elected f = rbind (codec_decode signal_codec (js ''HostElected'') f) (\<lambda>m. Inr (field_text m ''newHostId'' []))"

definition decode_host_state :: "bytes \<Rightarrow> codec_error + bytes option" where
  "decode_host_state f = rbind (codec_decode signal_codec (js ''HostState'') f) (\<lambda>m.
     Inr (if \<not> present m (js ''state'') then None else case get_prop m (js ''state'') of JBytes b \<Rightarrow> Some b | _ \<Rightarrow> None))"

text \<open>The relay reads the target of any of the three frames as if it were an offer.\<close>

definition decode_relay_to :: "bytes \<Rightarrow> codec_error + jsstr" where
  "decode_relay_to f = rbind (codec_decode signal_codec (js ''Offer'') f) (\<lambda>m. Inr (field_text m ''to'' []))"

end
