(* ===== verification/Signal_Wire_Props.thy ===== *)
theory Signal_Wire_Props
  imports Signal_Wire
begin

text \<open>
  The signalling frames round-trip, the three relayed frames have one wire form, and the
  two copies of the schema read each other.
\<close>

lemma signal_schema_ok: "schema_ok signal_schema"
  by (simp add: schema_ok_def signal_schema_def welcome_fields_def sdp_fields_def candidate_fields_def elected_fields_def
      opt_string_def js_eval)

lemma signal_lookup:
  "map_of signal_schema (js ''Welcome'') = Some welcome_fields" "map_of signal_schema (js ''Offer'') = Some sdp_fields"
  "map_of signal_schema (js ''Answer'') = Some sdp_fields" "map_of signal_schema (js ''IceCandidate'') = Some candidate_fields"
  "map_of signal_schema (js ''HostElected'') = Some elected_fields"
  "map_of signal_schema (js ''HostState'') = Some [\<lparr>fd_key = js ''state'', fd_type = TBytes, fd_rule = Optional\<rparr>]"
  by (simp_all add: signal_schema_def js_eval)

lemma peer_lookup:
  "t \<noteq> js ''HostState'' \<Longrightarrow> map_of peer_schema t = map_of signal_schema t"
  by (simp add: signal_schema_def peer_schema_def)

lemma spec_len_bound: "length xs < 2 ^ 53 \<Longrightarrow> length (spec_len xs) \<le> 8 + length xs"
  using varint_bytes_length_53 [of "length xs"] by (simp add: spec_len_def)

section \<open>One wire form\<close>

definition sdp_bytes :: "sdp_payload \<Rightarrow> bytes" where
  "sdp_bytes p = [0x0A] @ spec_len (text_encode (sg_to p)) @ [0x12] @ spec_len (text_encode (sg_body p)) @
     (case sg_from p of None \<Rightarrow> [] | Some s \<Rightarrow> if s = [] then [] else [0x1A] @ spec_len (text_encode s))"

definition sdp_object :: "string \<Rightarrow> sdp_payload \<Rightarrow> jsval" where
  "sdp_object k p = JObj ([(js ''to'', JStr (sg_to p)), (js k, JStr (sg_body p))] @ from_prop (sg_from p))"

definition from_field :: "jsstr option \<Rightarrow> jsval" where
  "from_field f = (case f of None \<Rightarrow> JUndef | Some s \<Rightarrow> if s = [] then JUndef else JStr s)"

lemma sdp_props:
  "get_prop (sdp_object ''sdp'' p) (js ''to'') = JStr (sg_to p)" "get_prop (sdp_object ''candidate'' p) (js ''to'') = JStr (sg_to p)"
  "get_prop (sdp_object ''sdp'' p) (js ''sdp'') = JStr (sg_body p)"
  "get_prop (sdp_object ''candidate'' p) (js ''candidate'') = JStr (sg_body p)"
  "get_prop (sdp_object ''sdp'' p) (js ''from'') = from_field (sg_from p)"
  "get_prop (sdp_object ''candidate'' p) (js ''from'') = from_field (sg_from p)"
  by (simp_all add: sdp_object_def get_prop_def from_prop_def from_field_def js_def split: option.split)

lemmas slot_eval = depth_numeral fields_of_def signal_lookup opt_string_def spec_slot_def nullish_def spec_field_def spec_key_small

lemma text_slot:
  "rbind (spec_slot enc t (opt_string k) (JStr x)) c = c (spec_key t 2 @ spec_len (text_encode x))"
  by (simp add: opt_string_def spec_slot_def nullish_def spec_field_def)

lemma from_slot:
  "rbind (spec_slot enc (Suc (Suc (Suc 0))) (opt_string k) (from_field f)) c =
     c (case f of None \<Rightarrow> [] | Some s \<Rightarrow> if s = [] then [] else [0x1A] @ spec_len (text_encode s))"
  by (auto simp: slot_eval from_field_def split: option.split)

lemma sdp_spec:
  "t \<in> {js ''Offer'', js ''Answer''} \<Longrightarrow> spec_message signal_schema (Suc 0) t (sdp_object ''sdp'' p) = Inr (sdp_bytes p)"
  "spec_message signal_schema (Suc 0) (js ''IceCandidate'') (sdp_object ''candidate'' p) = Inr (sdp_bytes p)"
proof -
  have key: "fd_key (opt_string k) = js k" for k by (simp add: opt_string_def)
  have k: "spec_key (Suc 0) 2 = [0x0A]" "spec_key (Suc (Suc 0)) 2 = [0x12]" by (simp_all add: spec_key_small)
  note e = fields_of_def signal_lookup key sdp_props text_slot from_slot k sdp_bytes_def
  show "t \<in> {js ''Offer'', js ''Answer''} \<Longrightarrow> spec_message signal_schema (Suc 0) t (sdp_object ''sdp'' p) = Inr (sdp_bytes p)"
    by (auto simp: sdp_fields_def e)
  show "spec_message signal_schema (Suc 0) (js ''IceCandidate'') (sdp_object ''candidate'' p) = Inr (sdp_bytes p)"
    by (simp add: candidate_fields_def e)
qed

section \<open>Frames\<close>

lemma peer_schema_ok: "schema_ok peer_schema"
  by (simp add: schema_ok_def peer_schema_def welcome_fields_def sdp_fields_def candidate_fields_def elected_fields_def
      opt_string_def js_eval)

lemma text_slot_frame: "spec_slot enc t (opt_string k) x = spec_slot enc' t (opt_string k) x"
  by (simp add: opt_string_def spec_slot_def spec_field_def default_for_def)

lemma text_fields_frame: "spec_fields enc t (map opt_string ks) v = spec_fields enc' t (map opt_string ks) v"
  by (induction ks arbitrary: t) (simp_all add: text_slot_frame [of enc _ _ _ enc'])

lemma text_fields:
  "welcome_fields = map opt_string [''youId'', ''hostId'', ''iceServers'']" "sdp_fields = map opt_string [''to'', ''sdp'', ''from'']"
  "candidate_fields = map opt_string [''to'', ''candidate'', ''from'']" "elected_fields = map opt_string [''newHostId'']"
  by (simp_all add: welcome_fields_def sdp_fields_def candidate_fields_def elected_fields_def)

lemma peer_spec:
  assumes "t \<noteq> js ''HostState''"
  shows "spec_message peer_schema (Suc 0) t v = spec_message signal_schema (Suc 0) t v"
proof (cases "map_of signal_schema t")
  case (Some fs)
  then have "fs \<in> {welcome_fields, sdp_fields, candidate_fields, elected_fields}"
    using assms by (auto simp: signal_schema_def split: if_splits)
  then obtain ks where "fs = map opt_string ks" using text_fields by blast
  with Some show ?thesis
    using text_fields_frame [of _ 1 ks v] by (simp add: fields_of_def peer_lookup [OF assms])
qed (simp add: fields_of_def peer_lookup [OF assms])

lemma codec_frame:
  assumes "schema_ok s" "conforms s (Suc 0) t v" "spec_message s (Suc 0) t v = Inr b" "length b < 2 ^ 53"
  shows "codec_encode \<lparr>cd_major = 1, cd_minor = 0, cd_schema = s\<rparr> (Suc 0) t v = Inr ([1, 0] @ b)"
    "codec_decode \<lparr>cd_major = 1, cd_minor = 0, cd_schema = s\<rparr> t ([1, 0] @ b) = Inr v"
  using fits_roundtrip [OF assms(1) fitsI [OF assms(1,2)], of ] assms(3,4)
  by (auto simp: codec_encode_def codec_decode_def header_bytes_def)

definition sdp_sendable :: "sdp_payload \<Rightarrow> bool" where
  "sdp_sendable p \<longleftrightarrow> wire_safe (sg_to p) \<and> wire_safe (sg_body p) \<and> wire_safe (case sg_from p of None \<Rightarrow> [] | Some s \<Rightarrow> s) \<and>
     length (text_encode (sg_to p)) + length (text_encode (sg_body p)) +
       length (text_encode (case sg_from p of None \<Rightarrow> [] | Some s \<Rightarrow> s)) < 2 ^ 52"

text \<open>An empty \<open>from\<close> is not sent.\<close>

definition sdp_received :: "sdp_payload \<Rightarrow> sdp_payload" where
  "sdp_received p = p\<lparr>sg_from := (if sg_from p = Some [] then None else sg_from p)\<rparr>"

lemma sdp_conforms:
  assumes "sdp_sendable p" "s \<in> {signal_schema, peer_schema}"
  shows "t \<in> {js ''Offer'', js ''Answer''} \<Longrightarrow> conforms s (Suc 0) t (sdp_object ''sdp'' p)"
    "conforms s (Suc 0) (js ''IceCandidate'') (sdp_object ''candidate'' p)"
proof -
  have look: "map_of s (js ''Offer'') = Some sdp_fields" "map_of s (js ''Answer'') = Some sdp_fields"
    "map_of s (js ''IceCandidate'') = Some candidate_fields"
    using assms(2) signal_lookup peer_lookup by (auto simp: js_def)
  show "t \<in> {js ''Offer'', js ''Answer''} \<Longrightarrow> conforms s (Suc 0) t (sdp_object ''sdp'' p)"
    using assms(1) look by (auto simp: sdp_sendable_def sdp_object_def sdp_fields_def opt_string_def slot_ok_def from_prop_def
        js_def split: option.split)
  show "conforms s (Suc 0) (js ''IceCandidate'') (sdp_object ''candidate'' p)"
    using assms(1) look by (auto simp: sdp_sendable_def sdp_object_def candidate_fields_def opt_string_def slot_ok_def from_prop_def
        js_def split: option.split)
qed

lemma sdp_bytes_length:
  assumes "sdp_sendable p"
  shows "length (sdp_bytes p) < 2 ^ 53"
proof -
  let ?f = "case sg_from p of None \<Rightarrow> [] | Some s \<Rightarrow> s"
  have l: "length (text_encode (sg_to p)) + length (text_encode (sg_body p)) + length (text_encode ?f) < 2 ^ 52"
    using assms by (simp add: sdp_sendable_def)
  then have "length (spec_len (text_encode (sg_to p))) \<le> 8 + length (text_encode (sg_to p))"
    "length (spec_len (text_encode (sg_body p))) \<le> 8 + length (text_encode (sg_body p))"
    "length (spec_len (text_encode ?f)) \<le> 8 + length (text_encode ?f)"
    by (intro spec_len_bound; simp)+
  with l show ?thesis by (auto simp: sdp_bytes_def split: option.split)
qed

definition signal_frame :: "bytes \<Rightarrow> bytes" where
  "signal_frame body = [1, 0] @ body"

lemma signal_codecs: "signal_codec = \<lparr>cd_major = 1, cd_minor = 0, cd_schema = signal_schema\<rparr>"
    "peer_codec = \<lparr>cd_major = 1, cd_minor = 0, cd_schema = peer_schema\<rparr>"
  by (simp_all add: signal_codec_def signal_wire_major_def peer_codec_def)

text \<open>The frame of an offer, an answer or a candidate, encoded and decoded by either codec.\<close>

lemma sdp_frames:
  assumes "sdp_sendable p" "c \<in> {signal_codec, peer_codec}"
  shows "t \<in> {js ''Offer'', js ''Answer''} \<Longrightarrow> codec_encode c 1 t (sdp_object ''sdp'' p) = Inr (signal_frame (sdp_bytes p))"
    "t \<in> {js ''Offer'', js ''Answer''} \<Longrightarrow> codec_decode c t (signal_frame (sdp_bytes p)) = Inr (sdp_object ''sdp'' p)"
    "codec_encode c 1 (js ''IceCandidate'') (sdp_object ''candidate'' p) = Inr (signal_frame (sdp_bytes p))"
    "codec_decode c (js ''IceCandidate'') (signal_frame (sdp_bytes p)) = Inr (sdp_object ''candidate'' p)"
proof -
  obtain s where s: "c = \<lparr>cd_major = 1, cd_minor = 0, cd_schema = s\<rparr>" "s \<in> {signal_schema, peer_schema}" "schema_ok s"
    using assms(2) signal_codecs signal_schema_ok peer_schema_ok by auto
  have spec: "t \<in> {js ''Offer'', js ''Answer''} \<Longrightarrow> spec_message s (Suc 0) t (sdp_object ''sdp'' p) = Inr (sdp_bytes p)"
    "spec_message s (Suc 0) (js ''IceCandidate'') (sdp_object ''candidate'' p) = Inr (sdp_bytes p)" for t
    using s(2) sdp_spec peer_spec by (auto simp: js_def)
  note ok = sdp_conforms [OF assms(1) s(2)] and b = sdp_bytes_length [OF assms(1)]
  show "t \<in> {js ''Offer'', js ''Answer''} \<Longrightarrow> codec_encode c 1 t (sdp_object ''sdp'' p) = Inr (signal_frame (sdp_bytes p))"
    "t \<in> {js ''Offer'', js ''Answer''} \<Longrightarrow> codec_decode c t (signal_frame (sdp_bytes p)) = Inr (sdp_object ''sdp'' p)"
    using codec_frame [OF s(3) ok(1) spec(1) b, of t] by (simp_all add: s(1) signal_frame_def)
  show "codec_encode c 1 (js ''IceCandidate'') (sdp_object ''candidate'' p) = Inr (signal_frame (sdp_bytes p))"
    "codec_decode c (js ''IceCandidate'') (signal_frame (sdp_bytes p)) = Inr (sdp_object ''candidate'' p)"
    using codec_frame [OF s(3) ok(2) spec(2) b] by (simp_all add: s(1) signal_frame_def)
qed

lemma sdp_codec:
  assumes "sdp_sendable p"
  defines "f \<equiv> signal_frame (sdp_bytes p)"
  shows "encode_offer p = Inr f" "encode_answer p = Inr f" "encode_ice p = Inr f"
    "decode_offer f = Inr (sdp_received p)" "decode_answer f = Inr (sdp_received p)" "decode_ice f = Inr (sdp_received p)"
    "decode_relay_to f = Inr (sg_to p)"
proof -
  note fr = sdp_frames [OF assms(1), of signal_codec, simplified, folded f_def]
  show "encode_offer p = Inr f" "encode_answer p = Inr f" "encode_ice p = Inr f"
    using fr by (simp_all add: encode_offer_def encode_answer_def encode_ice_def sdp_object_def)
  have "present (sdp_object k p) (js ''from'') \<longleftrightarrow> from_field (sg_from p) \<noteq> JUndef" if "k \<in> {''sdp'', ''candidate''}" for k
    using that by (auto simp: sdp_object_def from_prop_def present_def from_field_def js_def split: option.split)
  then have from_: "field_option (sdp_object k p) ''from'' = sg_from (sdp_received p)" if "k \<in> {''sdp'', ''candidate''}" for k
    using that by (auto simp: field_option_def sdp_props field_text_def from_field_def sdp_received_def split: option.splits)
  show "decode_offer f = Inr (sdp_received p)" "decode_answer f = Inr (sdp_received p)" "decode_ice f = Inr (sdp_received p)"
    "decode_relay_to f = Inr (sg_to p)"
    using fr from_ by (simp_all add: decode_offer_def decode_answer_def decode_ice_def decode_relay_to_def field_text_def sdp_props)
      (simp_all add: sdp_received_def)
qed

definition text_sendable :: "jsstr \<Rightarrow> bool" where
  "text_sendable s \<longleftrightarrow> wire_safe s \<and> length (text_encode s) < 2 ^ 50"

lemma text_len: "text_sendable s \<Longrightarrow> length (spec_len (text_encode s)) < 2 ^ 50 + 9"
  using spec_len_bound [of "text_encode s"] by (simp add: text_sendable_def)

lemma elected_codec:
  assumes "text_sendable h"
  shows "\<exists>f. encode_elected h = Inr f \<and> decode_elected f = Inr h \<and>
    codec_decode peer_codec (js ''HostElected'') f = Inr (JObj [(js ''newHostId'', JStr h)])"
proof -
  let ?v = "JObj [(js ''newHostId'', JStr h)]"
  have g: "get_prop ?v (js ''newHostId'') = JStr h" by (simp add: get_prop_def)
  have spec: "spec_message signal_schema (Suc 0) (js ''HostElected'') ?v = Inr (0x0A # spec_len (text_encode h))"
    using g by (simp add: fields_of_def signal_lookup elected_fields_def slot_eval)
  then have peer: "spec_message peer_schema (Suc 0) (js ''HostElected'') ?v = Inr (0x0A # spec_len (text_encode h))"
    by (subst peer_spec) (simp_all add: js_def)
  have ok: "s \<in> {signal_schema, peer_schema} \<Longrightarrow> conforms s (Suc 0) (js ''HostElected'') ?v" for s
    using assms signal_lookup(5) peer_lookup [of "js ''HostElected''"]
    by (auto simp: text_sendable_def elected_fields_def opt_string_def slot_ok_def js_def)
  have b: "length (0x0A # spec_len (text_encode h)) < 2 ^ 53" using text_len [OF assms] by simp
  from codec_frame [OF signal_schema_ok ok spec b] codec_frame [OF peer_schema_ok ok peer b] show ?thesis
    by (simp add: encode_elected_def decode_elected_def signal_codecs field_text_def g)
qed

lemma host_state_codec:
  assumes "length s < 2 ^ 52"
  shows "\<exists>f. encode_host_state s = Inr f \<and> decode_host_state f = Inr (Some s)"
proof -
  let ?v = "JObj [(js ''state'', JBytes s)]"
  have g: "get_prop ?v (js ''state'') = JBytes s" "present ?v (js ''state'')" by (simp_all add: get_prop_def present_def)
  have spec: "spec_message signal_schema (Suc 0) (js ''HostState'') ?v = Inr (0x0A # spec_len s)"
    using g by (simp add: fields_of_def signal_lookup slot_eval)
  have ok: "conforms signal_schema (Suc 0) (js ''HostState'') ?v"
    using signal_lookup(6) by (simp add: slot_ok_def js_def)
  have b: "length (0x0A # spec_len s) < 2 ^ 53" using assms spec_len_bound [of s] by simp
  from codec_frame [OF signal_schema_ok ok spec b] show ?thesis
    by (simp add: encode_host_state_def decode_host_state_def signal_codecs g)
qed

text \<open>The welcome's properties are written in another order than the schema has them.\<close>

lemma welcome_codec:
  assumes "text_sendable you" "text_sendable ice" "text_sendable (case host of None \<Rightarrow> [] | Some h \<Rightarrow> h)"
  shows "\<exists>f. encode_welcome you host ice = Inr f \<and> decode_welcome f = Inr (you, host, ice)"
proof -
  let ?h = "case host of None \<Rightarrow> [] | Some h \<Rightarrow> [(js ''hostId'', JStr h)]"
  let ?v = "JObj ([(js ''youId'', JStr you)] @ ?h @ [(js ''iceServers'', JStr ice)])"
  let ?w = "JObj ([(js ''youId'', JStr you), (js ''iceServers'', JStr ice)] @ ?h)"
  let ?b = "[0x0A] @ spec_len (text_encode you) @ (case host of None \<Rightarrow> [] | Some h \<Rightarrow> [0x12] @ spec_len (text_encode h)) @
      [0x1A] @ spec_len (text_encode ice)"
  have g: "get_prop ?v (js ''youId'') = JStr you" "get_prop ?v (js ''iceServers'') = JStr ice"
      "get_prop ?v (js ''hostId'') = (case host of None \<Rightarrow> JUndef | Some h \<Rightarrow> JStr h)" "present ?v (js ''hostId'') \<longleftrightarrow> host \<noteq> None"
      "get_prop ?w (js ''youId'') = JStr you" "get_prop ?w (js ''iceServers'') = JStr ice"
      "get_prop ?w (js ''hostId'') = (case host of None \<Rightarrow> JUndef | Some h \<Rightarrow> JStr h)"
    by (cases host; simp add: get_prop_def present_def js_def)+
  have spec: "spec_message signal_schema (Suc 0) (js ''Welcome'') ?v = Inr ?b" "spec_message signal_schema (Suc 0) (js ''Welcome'') ?w = Inr ?b"
    using g by (cases host; simp add: fields_of_def signal_lookup welcome_fields_def slot_eval)+
  have ok: "conforms signal_schema (Suc 0) (js ''Welcome'') ?v"
    using assms signal_lookup(1)
    by (cases host) (auto simp: text_sendable_def welcome_fields_def opt_string_def slot_ok_def js_def)
  have b: "length ?b < 2 ^ 53" using assms [THEN text_len] by (auto split: option.split)
  have w: "encode_message signal_schema (Suc 0) (js ''Welcome'') ?w = Inr ?b"
    using encode_message_spec [OF signal_schema_ok spec(2) b] .
  define v f where "v = ?v" and "f = [1, 0] @ ?b"
  note gv = g(1-4) [folded v_def]
  have "encode_welcome you host ice = Inr f"
    using w by (simp add: encode_welcome_def codec_encode_def signal_codecs f_def)
  moreover have "codec_decode signal_codec (js ''Welcome'') f = Inr v"
    using codec_frame(2) [OF signal_schema_ok ok spec(1) b] unfolding f_def v_def signal_codecs .
  ultimately show ?thesis
    by (auto simp: decode_welcome_def field_text_def field_option_def gv split: option.split)
qed

end
