(* ===== verification/Signal_Room.thy ===== *)
theory Signal_Room
  imports Signal_Wire_Props
begin

text \<open>
  The signalling room (\<open>signal/src/SignalRoom.ts\<close>); the credentials it hands out are an argument,
  see theory \<open>Signal_Auth\<close>. The state is the
  room's own fields, the keys of its actor map and the messages handed to \<open>actor.send\<close>; the
  operations are its hooks and listeners inside the base class's join, leave and dispatch
  (\<open>core/src/Room.ts\<close>), which remove the actor before \<open>onLeave\<close>, take it out again when
  \<open>onJoin\<close> throws, and catch what listeners throw. \<open>pres\<close> is the text of a presence
  broadcast.
\<close>

section \<open>State\<close>

record signal_room =
  sm_members :: "jsstr list"
  sm_host :: "jsstr option"
  sm_order :: "jsstr list"
  sm_pending :: "bytes option"
  sm_sent :: "(jsstr \<times> jsstr \<times> bytes) list"

definition new_signal_room :: signal_room where
  "new_signal_room = \<lparr>sm_members = [], sm_host = None, sm_order = [], sm_pending = None, sm_sent = []\<rparr>"

definition sg_welcome :: jsstr where "sg_welcome = js ''signal:welcome''"
definition sg_offer :: jsstr where "sg_offer = js ''signal:offer''"
definition sg_answer :: jsstr where "sg_answer = js ''signal:answer''"
definition sg_ice :: jsstr where "sg_ice = js ''signal:ice''"
definition sg_host_state :: jsstr where "sg_host_state = js ''signal:host_state''"
definition sg_host_gone :: jsstr where "sg_host_gone = js ''signal:host_gone''"
definition sg_host_elected :: jsstr where "sg_host_elected = js ''signal:host_elected''"

definition sm_send :: "jsstr \<Rightarrow> jsstr \<Rightarrow> bytes \<Rightarrow> signal_room \<Rightarrow> signal_room" where
  "sm_send a topic p g = g\<lparr>sm_sent := sm_sent g @ [(a, topic, p)]\<rparr>"

definition sm_broadcast :: "jsstr \<Rightarrow> bytes \<Rightarrow> signal_room \<Rightarrow> signal_room" where
  "sm_broadcast topic p g = fold (\<lambda>a. sm_send a topic p) (sm_members g) g"

text \<open>\<open>getActor(id)?.send(...)\<close>\<close>

definition sm_send_to :: "jsstr \<Rightarrow> jsstr \<Rightarrow> bytes \<Rightarrow> signal_room \<Rightarrow> signal_room" where
  "sm_send_to a topic p g = (if a \<in> set (sm_members g) then sm_send a topic p g else g)"

section \<open>Hooks\<close>

text \<open>A hook returns whether it threw.\<close>

definition signal_on_join :: "jsstr \<Rightarrow> jsstr \<Rightarrow> signal_room \<Rightarrow> signal_room \<times> bool" where
  "signal_on_join ice a g =
     (let g = g\<lparr>sm_order := sm_order g @ [a]\<rparr>;
          g = (if sm_host g = None then g\<lparr>sm_host := Some a\<rparr> else g)
      in case encode_welcome a (sm_host g) ice of
           Inl _ \<Rightarrow> (g, True)
         | Inr f \<Rightarrow> (sm_send a sg_welcome f g, False))"

definition first_of :: "'a list \<Rightarrow> 'a option" where
  "first_of xs = (case xs of [] \<Rightarrow> None | x # _ \<Rightarrow> Some x)"

text \<open>The state goes to the new host only.\<close>

definition forward_state :: "jsstr \<Rightarrow> signal_room \<Rightarrow> signal_room \<times> bool" where
  "forward_state next_host g = (case sm_pending g of
     None \<Rightarrow> (g, False)
   | Some s \<Rightarrow>
       (if next_host \<notin> set (sm_members g) then (g, False)
        else case encode_host_state s of
               Inl _ \<Rightarrow> (g, True)
             | Inr f \<Rightarrow> (sm_send_to next_host sg_host_state f g, False)))"

definition elect :: "jsstr option \<Rightarrow> signal_room \<Rightarrow> signal_room \<times> bool" where
  "elect next_host g = (case next_host of
     None \<Rightarrow> (g, False)
   | Some h \<Rightarrow> (case encode_elected h of
       Inl _ \<Rightarrow> (g, True)
     | Inr f \<Rightarrow> forward_state h (sm_broadcast sg_host_elected f g)))"

definition signal_on_leave :: "jsstr \<Rightarrow> signal_room \<Rightarrow> signal_room \<times> bool" where
  "signal_on_leave a g =
     (let g = g\<lparr>sm_order := filter (\<lambda>b. b \<noteq> a) (sm_order g)\<rparr>
      in if Some a \<noteq> sm_host g then (g, False)
         else
           let g = sm_broadcast sg_host_gone [] g;
               next_host = first_of (sm_order g);
               (g, threw) = elect next_host (g\<lparr>sm_host := next_host\<rparr>)
           in if threw then (g, True) else (g\<lparr>sm_pending := None\<rparr>, False))"

definition relay :: "jsstr \<Rightarrow> bytes \<Rightarrow> signal_room \<Rightarrow> signal_room" where
  "relay topic payload g = (case decode_relay_to payload of
     Inl _ \<Rightarrow> g | Inr target \<Rightarrow> sm_send_to target topic payload g)"

definition receive_host_state :: "jsstr \<Rightarrow> bytes \<Rightarrow> signal_room \<Rightarrow> signal_room" where
  "receive_host_state a payload g =
     (if Some a \<noteq> sm_host g then g
      else case decode_host_state payload of
             Inr (Some s) \<Rightarrow> g\<lparr>sm_pending := Some s\<rparr>
           | _ \<Rightarrow> g)"

section \<open>Inside the base class\<close>

definition presence_join_event :: jsstr where "presence_join_event = js ''__presence:join''"
definition presence_leave_event :: jsstr where "presence_leave_event = js ''__presence:leave''"

definition signal_join :: "(jsstr \<Rightarrow> jsstr) \<Rightarrow> jsstr \<Rightarrow> jsstr \<Rightarrow> signal_room \<Rightarrow> signal_room \<times> bool" where
  "signal_join pres ice a g =
     (let (g, threw) = signal_on_join ice a (g\<lparr>sm_members := sm_members g @ [a]\<rparr>)
      in if threw then (g\<lparr>sm_members := filter (\<lambda>b. b \<noteq> a) (sm_members g)\<rparr>, True)
         else (sm_broadcast presence_join_event (text_encode (pres a)) g, False))"

definition signal_leave :: "(jsstr \<Rightarrow> jsstr) \<Rightarrow> jsstr \<Rightarrow> signal_room \<Rightarrow> signal_room" where
  "signal_leave pres a g =
     (if a \<notin> set (sm_members g) then g
      else
        let g = g\<lparr>sm_members := filter (\<lambda>b. b \<noteq> a) (sm_members g)\<rparr>;
            (g, _) = signal_on_leave a g
        in sm_broadcast presence_leave_event (text_encode (pres a)) g)"

text \<open>The bindings of \<open>onCreate\<close>; an unbound topic is dropped.\<close>

definition signal_message :: "jsstr \<Rightarrow> jsstr \<Rightarrow> bytes \<Rightarrow> signal_room \<Rightarrow> signal_room" where
  "signal_message a topic payload g =
     (if a \<notin> set (sm_members g) then g
      else if topic \<in> {sg_offer, sg_answer, sg_ice} then relay topic payload g
      else if topic = sg_host_state then receive_host_state a payload g
      else g)"

end
