(* ===== verification/Signal_Room_Props.thy ===== *)
theory Signal_Room_Props
  imports Signal_Room
begin

text \<open>
  The host of a signalling room is its oldest member, and a host change hands the state over to
  the next one: an invariant of the reachable states, with the messages each departure sends.
\<close>

section \<open>Runs\<close>

text \<open>The transport layer admits an actor id once; ids and credentials are texts a frame carries
  unchanged, and an inbound payload is bounded by the framework's frame limit.\<close>

inductive signal_step :: "signal_room \<Rightarrow> signal_room \<Rightarrow> bool" where
  join: "a \<notin> set (sm_members g) \<Longrightarrow> text_sendable a \<Longrightarrow> text_sendable ice \<Longrightarrow>
    signal_step g (fst (signal_join pres ice a g))"
| leave: "signal_step g (signal_leave pres a g)"
| message: "(\<And>s. decode_host_state payload = Inr (Some s) \<Longrightarrow> length s < 2 ^ 52) \<Longrightarrow>
    signal_step g (signal_message a topic payload g)"

inductive signal_reachable :: "signal_room \<Rightarrow> bool" where
  start: "signal_reachable new_signal_room"
| turn: "signal_reachable g \<Longrightarrow> signal_step g g' \<Longrightarrow> signal_reachable g'"

inductive_cases signal_stepE: "signal_step g g'"

definition signal_inv :: "signal_room \<Rightarrow> bool" where
  "signal_inv g \<longleftrightarrow> distinct (sm_members g) \<and> sm_order g = sm_members g \<and> sm_host g = first_of (sm_members g) \<and>
     list_all text_sendable (sm_members g) \<and> (\<forall>s. sm_pending g = Some s \<longrightarrow> length s < 2 ^ 52 \<and> sm_members g \<noteq> [])"

section \<open>Messages of one operation\<close>

definition to_all :: "jsstr list \<Rightarrow> jsstr \<Rightarrow> bytes \<Rightarrow> (jsstr \<times> jsstr \<times> bytes) list" where
  "to_all as topic p = map (\<lambda>a. (a, topic, p)) as"

lemma broadcast_sent: "sm_broadcast topic p g = g\<lparr>sm_sent := sm_sent g @ to_all (sm_members g) topic p\<rparr>"
proof -
  have "fold (\<lambda>a. sm_send a topic p) as g = g\<lparr>sm_sent := sm_sent g @ to_all as topic p\<rparr>" for as g
    by (induction as arbitrary: g) (simp_all add: sm_send_def to_all_def)
  then show ?thesis by (simp add: sm_broadcast_def)
qed

lemma join_sent:
  assumes "signal_inv g" "a \<notin> set (sm_members g)" "text_sendable a" "text_sendable ice"
  shows "\<exists>f. decode_welcome f = Inr (a, first_of (sm_members g @ [a]), ice) \<and>
    signal_join pres ice a g = (g\<lparr>sm_members := sm_members g @ [a], sm_order := sm_members g @ [a],
      sm_host := first_of (sm_members g @ [a]),
      sm_sent := sm_sent g @ [(a, sg_welcome, f)] @ to_all (sm_members g @ [a]) presence_join_event (text_encode (pres a))\<rparr>, False)"
proof -
  have g: "sm_order g = sm_members g" "sm_host g = first_of (sm_members g)" "list_all text_sendable (sm_members g)"
    using assms(1) by (simp_all add: signal_inv_def)
  have "text_sendable (case first_of (sm_members g @ [a]) of None \<Rightarrow> [] | Some h \<Rightarrow> h)"
    using assms(3) g(3) by (cases "sm_members g") (simp_all add: first_of_def)
  from welcome_codec [OF assms(3,4) this] obtain f where
    f: "encode_welcome a (first_of (sm_members g @ [a])) ice = Inr f" "decode_welcome f = Inr (a, first_of (sm_members g @ [a]), ice)"
    by blast
  have "(if sm_host g = None then g'\<lparr>sm_host := Some a\<rparr> else g') = g'\<lparr>sm_host := first_of (sm_members g @ [a])\<rparr>"
    if "sm_host g' = sm_host g" for g' :: signal_room
    using g(2) that by (cases g'; cases "sm_members g") (simp_all add: first_of_def)
  then have "signal_on_join ice a (g\<lparr>sm_members := sm_members g @ [a]\<rparr>) =
      (sm_send a sg_welcome f (g\<lparr>sm_members := sm_members g @ [a], sm_order := sm_order g @ [a],
         sm_host := first_of (sm_members g @ [a])\<rparr>), False)"
    using f(1) by (simp add: signal_on_join_def Let_def)
  then show ?thesis
    by (intro exI [of _ f]) (simp add: f(2) signal_join_def sm_send_def broadcast_sent g(1))
qed

text \<open>What a departing host leaves: everyone is told, the next host is announced to everyone, and
  the pushed state goes to it alone.\<close>

definition handed_over :: "jsstr list \<Rightarrow> bytes option \<Rightarrow> (jsstr \<times> jsstr \<times> bytes) list \<Rightarrow> bool" where
  "handed_over rest pending sent \<longleftrightarrow> (case rest of
     [] \<Rightarrow> sent = []
   | next_host # _ \<Rightarrow> (\<exists>f. decode_elected f = Inr next_host \<and>
       (case pending of
          None \<Rightarrow> sent = to_all rest sg_host_gone [] @ to_all rest sg_host_elected f
        | Some s \<Rightarrow> (\<exists>h. decode_host_state h = Inr (Some s) \<and>
            sent = to_all rest sg_host_gone [] @ to_all rest sg_host_elected f @ [(next_host, sg_host_state, h)]))))"

lemma forward_sent:
  assumes "next_host \<in> set (sm_members g)" "\<And>s. sm_pending g = Some s \<Longrightarrow> length s < 2 ^ 52"
  shows "\<exists>sent. forward_state next_host g = (g\<lparr>sm_sent := sm_sent g @ sent\<rparr>, False) \<and>
    (case sm_pending g of None \<Rightarrow> sent = []
     | Some s \<Rightarrow> \<exists>h. decode_host_state h = Inr (Some s) \<and> sent = [(next_host, sg_host_state, h)])"
proof (cases "sm_pending g")
  case (Some s)
  with assms(2) host_state_codec [of s] obtain h where "encode_host_state s = Inr h" "decode_host_state h = Inr (Some s)" by blast
  with Some assms(1) show ?thesis
    by (intro exI [of _ "[(next_host, sg_host_state, h)]"]) (simp add: forward_state_def sm_send_to_def sm_send_def)
qed (auto simp: forward_state_def)

lemma host_leaves:
  assumes "sm_order g = a # rest" "sm_members g = rest" "a \<notin> set rest" "sm_host g = Some a" "list_all text_sendable rest"
    and "\<And>s. sm_pending g = Some s \<Longrightarrow> length s < 2 ^ 52"
  shows "\<exists>sent. handed_over rest (sm_pending g) sent \<and>
    signal_on_leave a g = (g\<lparr>sm_order := rest, sm_host := first_of rest, sm_pending := None, sm_sent := sm_sent g @ sent\<rparr>, False)"
proof -
  have order: "filter (\<lambda>b. b \<noteq> a) (sm_order g) = rest" using assms(1,3) by (auto simp: filter_id_conv)
  let ?g = "g\<lparr>sm_order := rest, sm_sent := sm_sent g @ to_all rest sg_host_gone [], sm_host := first_of rest\<rparr>"
  have leave: "signal_on_leave a g = (let (g, threw) = elect (first_of rest) ?g
      in if threw then (g, True) else (g\<lparr>sm_pending := None\<rparr>, False))"
    unfolding signal_on_leave_def order using assms(2,4) by (simp add: Let_def broadcast_sent)
  show ?thesis
  proof (cases rest)
    case Nil
    then show ?thesis using leave by (simp add: elect_def first_of_def handed_over_def to_all_def)
  next
    case (Cons h hs)
    with assms(5) elected_codec [of h] obtain f where f: "encode_elected h = Inr f" "decode_elected f = Inr h" by auto
    let ?e = "?g\<lparr>sm_sent := sm_sent ?g @ to_all rest sg_host_elected f\<rparr>"
    have "elect (first_of rest) ?g = forward_state h ?e"
      using f Cons assms(2) by (simp add: elect_def first_of_def broadcast_sent)
    moreover obtain sent where "forward_state h ?e = (?e\<lparr>sm_sent := sm_sent ?e @ sent\<rparr>, False)"
      "case sm_pending g of None \<Rightarrow> sent = [] | Some s \<Rightarrow> \<exists>k. decode_host_state k = Inr (Some s) \<and> sent = [(h, sg_host_state, k)]"
      using forward_sent [of h ?e] assms(2,6) Cons by auto
    moreover from this(2) have "handed_over rest (sm_pending g) (to_all rest sg_host_gone [] @ to_all rest sg_host_elected f @ sent)"
      using f(2) Cons by (auto simp: handed_over_def split: option.splits)
    ultimately show ?thesis
      using leave by (intro exI [of _ "to_all rest sg_host_gone [] @ to_all rest sg_host_elected f @ sent"]) simp
  qed
qed

definition departed :: "(jsstr \<Rightarrow> jsstr) \<Rightarrow> jsstr \<Rightarrow> signal_room \<Rightarrow> signal_room \<Rightarrow> bool" where
  "departed pres a g g' \<longleftrightarrow>
     (let rest = filter (\<lambda>b. b \<noteq> a) (sm_members g); told = to_all rest presence_leave_event (text_encode (pres a))
      in sm_members g' = rest \<and> sm_order g' = rest \<and> sm_host g' = first_of rest \<and>
         (if sm_host g = Some a
          then sm_pending g' = None \<and> (\<exists>sent. handed_over rest (sm_pending g) sent \<and> sm_sent g' = sm_sent g @ sent @ told)
          else sm_pending g' = sm_pending g \<and> sm_sent g' = sm_sent g @ told))"

lemma leave_departed:
  assumes "signal_inv g" "a \<in> set (sm_members g)"
  shows "departed pres a g (signal_leave pres a g)"
proof -
  let ?rest = "filter (\<lambda>b. b \<noteq> a) (sm_members g)" and ?g = "g\<lparr>sm_members := filter (\<lambda>b. b \<noteq> a) (sm_members g)\<rparr>"
  have g: "distinct (sm_members g)" "sm_order g = sm_members g" "sm_host g = first_of (sm_members g)"
    "list_all text_sendable (sm_members g)" "sm_pending g = Some s \<Longrightarrow> length s < 2 ^ 52" for s
    using assms(1) by (simp_all add: signal_inv_def)
  have leave: "signal_leave pres a g = sm_broadcast presence_leave_event (text_encode (pres a)) (fst (signal_on_leave a ?g))"
    using assms(2) by (simp add: signal_leave_def Let_def case_prod_unfold)
  show ?thesis
  proof (cases "sm_host g = Some a")
    case True
    then obtain rest where m: "sm_members g = a # rest" using g(3) by (cases "sm_members g") (simp_all add: first_of_def)
    with g(1) have r: "?rest = rest" "a \<notin> set rest" by (auto simp: filter_id_conv)
    have "list_all text_sendable rest" using g(4) m by simp
    with host_leaves [of ?g a rest] True g(2,5) m r obtain sent where "handed_over rest (sm_pending g) sent"
      "fst (signal_on_leave a ?g) = ?g\<lparr>sm_order := rest, sm_host := first_of rest, sm_pending := None, sm_sent := sm_sent g @ sent\<rparr>"
      by auto
    then show ?thesis using True r by (auto simp: departed_def Let_def leave broadcast_sent)
  next
    case False
    then have "first_of ?rest = sm_host g"
      using g(3) by (cases "sm_members g") (auto simp: first_of_def)
    then show ?thesis using False g(2) by (simp add: departed_def Let_def leave signal_on_leave_def broadcast_sent)
  qed
qed

lemma message_frame:
  "sm_members (signal_message a topic p g) = sm_members g" "sm_order (signal_message a topic p g) = sm_order g"
  "sm_host (signal_message a topic p g) = sm_host g"
  by (simp_all add: signal_message_def relay_def sm_send_to_def sm_send_def receive_host_state_def split: sum.split option.split)

lemma message_pending:
  "sm_pending (signal_message a topic p g) = sm_pending g \<or>
   sm_host g = Some a \<and> topic = sg_host_state \<and> (\<exists>s. decode_host_state p = Inr (Some s) \<and> sm_pending (signal_message a topic p g) = Some s)"
  by (auto simp: signal_message_def relay_def sm_send_to_def sm_send_def receive_host_state_def split: sum.split option.split)

lemma signal_step_inv:
  assumes "signal_step g g'" "signal_inv g"
  shows "signal_inv g'"
  using assms(1)
proof cases
  case (join a ice pres)
  from join_sent [OF assms(2) join(2-4), of pres] assms(2) join(2,3) show ?thesis by (auto simp: join(1) signal_inv_def)
next
  case (leave pres a)
  show ?thesis
  proof (cases "a \<in> set (sm_members g)")
    case True
    have sub: "list_all text_sendable (filter (\<lambda>b. b \<noteq> a) (sm_members g))" "distinct (filter (\<lambda>b. b \<noteq> a) (sm_members g))"
      using assms(2) by (auto simp: signal_inv_def list_all_iff)
    have "filter (\<lambda>b. b \<noteq> a) (sm_members g) \<noteq> []" if "sm_host g \<noteq> Some a" "sm_members g \<noteq> []"
      using that assms(2) by (cases "sm_members g") (auto simp: signal_inv_def first_of_def)
    with leave_departed [OF assms(2) True, of pres] sub assms(2) show ?thesis
      by (auto simp: leave departed_def signal_inv_def Let_def split: if_splits)
  qed (use assms(2) in \<open>simp add: leave signal_leave_def\<close>)
next
  case (message payload a topic)
  have "sm_members g \<noteq> []" if "sm_host g = Some a"
    using that assms(2) by (auto simp: signal_inv_def first_of_def)
  with message_pending [of a topic payload g] message(2) assms(2) show ?thesis
    by (auto simp: message(1) signal_inv_def message_frame)
qed

lemma signal_reachable_inv: "signal_reachable g \<Longrightarrow> signal_inv g"
proof (induction rule: signal_reachable.induct)
  case start
  then show ?case by (simp add: new_signal_room_def signal_inv_def first_of_def)
qed (rule signal_step_inv)

section \<open>Properties\<close>

text \<open>
  C10: the host of a signalling room is its oldest member. In every reachable state the join order is
  the membership and the host its first element, and none exactly in the empty room. A member that leaves
  is gone from both; when it was the host, all others are told, the next oldest is announced to all
  of them and it alone gets the state the old host had pushed, which is then forgotten; otherwise
  host and pushed state stay. Only the host's own frames change the pushed state. A newcomer is
  welcomed with its id, the host and its credentials.
\<close>

theorem oldest_member_hosts:
  assumes "signal_reachable g"
  shows "distinct (sm_members g) \<and> sm_order g = sm_members g \<and> sm_host g = first_of (sm_members g) \<and>
    (\<forall>a \<in> set (sm_members g). departed pres a g (signal_leave pres a g)) \<and>
    (\<forall>a topic p. sm_pending (signal_message a topic p g) \<noteq> sm_pending g \<longrightarrow> sm_host g = Some a \<and> topic = sg_host_state) \<and>
    (\<forall>a ice. a \<notin> set (sm_members g) \<and> text_sendable a \<and> text_sendable ice \<longrightarrow>
       (\<exists>f rest. decode_welcome f = Inr (a, first_of (sm_members g @ [a]), ice) \<and>
          sm_sent (fst (signal_join pres ice a g)) = sm_sent g @ (a, sg_welcome, f) # rest))"
proof -
  note inv = signal_reachable_inv [OF assms]
  from inv have "distinct (sm_members g)" "sm_order g = sm_members g" "sm_host g = first_of (sm_members g)"
    by (simp_all add: signal_inv_def)
  moreover have "\<exists>f rest. decode_welcome f = Inr (a, first_of (sm_members g @ [a]), ice) \<and>
      sm_sent (fst (signal_join pres ice a g)) = sm_sent g @ (a, sg_welcome, f) # rest"
    if "a \<notin> set (sm_members g)" "text_sendable a" "text_sendable ice" for a ice
    using join_sent [OF inv that, of pres] by auto
  ultimately show ?thesis using leave_departed [OF inv] message_pending by fast
qed

definition sample_signal :: "signal_room" where
  "sample_signal = fst (signal_join (\<lambda>_. []) (js ''[]'') [0x62] (fst (signal_join (\<lambda>_. []) (js ''[]'') [0x61] new_signal_room)))"

lemma sample_signal_reachable: "signal_reachable sample_signal" "sm_members sample_signal = [[0x61], [0x62]]"
proof -
  have t: "text_sendable [0x61]" "text_sendable [0x62]" "text_sendable (js ''[]'')"
    by (simp_all add: text_sendable_def text_encode_def utf8_point_def is_high_def is_low_def conforms_eval)
  have m: "signal_inv new_signal_room" by (rule signal_reachable_inv [OF signal_reachable.start])
  let ?g = "fst (signal_join (\<lambda>_. []) (js ''[]'') [0x61] new_signal_room)"
  have g: "sm_members ?g = [[0x61]]"
    using join_sent [OF m _ t(1,3), of "\<lambda>_. []"] by (auto simp: new_signal_room_def)
  have r: "signal_reachable ?g"
    using t by (intro signal_reachable.turn [OF signal_reachable.start] signal_step.join) (simp_all add: new_signal_room_def)
  show "signal_reachable sample_signal"
    unfolding sample_signal_def using t g by (intro signal_reachable.turn [OF r] signal_step.join) simp_all
  show "sm_members sample_signal = [[0x61], [0x62]]"
    using join_sent [OF signal_reachable_inv [OF r] _ t(2,3), of "\<lambda>_. []"] g by (auto simp: sample_signal_def)
qed

theorem oldest_member_hosts_witness:
  "sm_host sample_signal = Some [0x61] \<and> sm_host (signal_leave (\<lambda>_. []) [0x61] sample_signal) = Some [0x62]"
  using oldest_member_hosts [OF sample_signal_reachable(1), of "\<lambda>_. []"] sample_signal_reachable(2)
  by (simp add: departed_def Let_def first_of_def)

text \<open>
  C21: an offer, an answer or a candidate reaches the member it names and nobody else. The frame of each
  kind carries target, body and sender; the relay, which reads every kind as an offer, finds the target,
  hands it the frame as it came and sends nothing when the target is not in the room; the
  target decodes what the sender encoded, with either copy of the schema.
\<close>

theorem signal_reaches_peer:
  assumes "sdp_sendable p" "a \<in> set (sm_members g)"
  shows "\<exists>f. encode_offer p = Inr f \<and> encode_answer p = Inr f \<and> encode_ice p = Inr f \<and>
    (\<forall>topic \<in> {sg_offer, sg_answer, sg_ice}. signal_message a topic f g =
       (if sg_to p \<in> set (sm_members g) then g\<lparr>sm_sent := sm_sent g @ [(sg_to p, topic, f)]\<rparr> else g)) \<and>
    decode_offer f = Inr (sdp_received p) \<and> decode_answer f = Inr (sdp_received p) \<and> decode_ice f = Inr (sdp_received p) \<and>
    (\<forall>t \<in> {js ''Offer'', js ''Answer'', js ''IceCandidate''}. codec_decode peer_codec t f = codec_decode signal_codec t f)"
proof -
  let ?f = "signal_frame (sdp_bytes p)"
  note c = sdp_codec [OF assms(1)]
  have "codec_decode peer_codec t ?f = codec_decode signal_codec t ?f" if "t \<in> {js ''Offer'', js ''Answer'', js ''IceCandidate''}" for t
    using that sdp_frames [OF assms(1), of signal_codec] sdp_frames [OF assms(1), of peer_codec] by auto
  moreover have "signal_message a topic ?f g =
      (if sg_to p \<in> set (sm_members g) then g\<lparr>sm_sent := sm_sent g @ [(sg_to p, topic, ?f)]\<rparr> else g)"
    if "topic \<in> {sg_offer, sg_answer, sg_ice}" for topic
    using that assms(2) c(7) by (simp add: signal_message_def relay_def sm_send_to_def sm_send_def)
  ultimately show ?thesis using c by blast
qed

theorem signal_reaches_peer_witness:
  "\<exists>f. signal_message [0x61] sg_offer f sample_signal =
     sample_signal\<lparr>sm_sent := sm_sent sample_signal @ [([0x62], sg_offer, f)]\<rparr> \<and>
     decode_offer f = Inr \<lparr>sg_to = [0x62], sg_body = [0x73], sg_from = Some [0x61]\<rparr>"
proof -
  have "sdp_sendable \<lparr>sg_to = [0x62], sg_body = [0x73], sg_from = Some [0x61]\<rparr>"
    by (simp add: sdp_sendable_def text_encode_def utf8_point_def is_high_def is_low_def conforms_eval)
  from signal_reaches_peer [OF this, of "[0x61]" sample_signal] sample_signal_reachable(2) show ?thesis
    by (auto simp: sdp_received_def)
qed

end
