(* ===== verification/Fleet_Config.thy ===== *)
theory Fleet_Config
  imports Complex_Main Prelude
begin

text \<open>
  The orchestrator's options (\<open>fleet/src/orchestrator/Config.ts\<close>): defaults, structural checks
  and the credential policy, and the key match shared by agents and administrators
  (\<open>AgentAuthenticator.ts\<close>). Numbers are reals; a value of another type than declared is
  \<open>None\<close> where the code checks for it. \<open>sha\<close> is Node's SHA-256 of a text.
\<close>

section \<open>Options\<close>

datatype key_option = OneKey jsstr | KeyList "jsstr list"

datatype cors_option = CorsOff | CorsOrigins "jsstr list option"  \<comment> \<open>\<open>None\<close>: not an array\<close>

record orchestrator_options =
  oo_host :: "jsstr option"
  oo_port :: "real option"  \<comment> \<open>\<open>None\<close>: not a number\<close>
  oo_agent_key :: "key_option option"
  oo_admin_key :: "key_option option"
  oo_api :: "bool option"
  oo_heartbeat :: "real option"
  oo_timeout :: "real option"
  oo_cors :: "cors_option option"
  oo_sse_query :: "bool option"
  oo_trust_proxy :: "bool option"

record resolved_config =
  rf_host :: jsstr
  rf_port :: int
  rf_agent_keys :: "jsstr list"
  rf_admin_keys :: "jsstr list"
  rf_api :: bool
  rf_heartbeat :: real
  rf_timeout :: real
  rf_cors :: "jsstr list option"
  rf_sse_query :: bool
  rf_trust_proxy :: bool

datatype config_error =
    BadPort | NoAgentKey | NoAdminKey | BadHeartbeat | BadTimeout | BadOrigins | KeysIntersect | ShortKey

definition default_or :: "'a \<Rightarrow> 'a option \<Rightarrow> 'a" where
  "default_or d x = (case x of None \<Rightarrow> d | Some y \<Rightarrow> y)"

text \<open>A set keeps the first occurrence.\<close>

definition add_key :: "jsstr \<Rightarrow> jsstr list \<Rightarrow> jsstr list" where
  "add_key k seen = (if length k > 0 \<and> k \<notin> set seen then seen @ [k] else seen)"

definition normalize_keys :: "key_option option \<Rightarrow> jsstr list" where
  "normalize_keys v = (case v of
     None \<Rightarrow> []
   | Some (OneKey k) \<Rightarrow> fold add_key [k] []
   | Some (KeyList ks) \<Rightarrow> fold add_key ks [])"

definition default_heartbeat_ms :: real where "default_heartbeat_ms = 5000"
definition default_command_timeout_ms :: real where "default_command_timeout_ms = 10000"

definition resolve_cors :: "cors_option option \<Rightarrow> config_error + jsstr list option" where
  "resolve_cors c = (case c of
     Some (CorsOrigins None) \<Rightarrow> Inl BadOrigins
   | Some (CorsOrigins (Some os)) \<Rightarrow> Inr (Some os)
   | _ \<Rightarrow> Inr None)"

definition port_ok :: "real option \<Rightarrow> bool" where
  "port_ok p = (case p of None \<Rightarrow> False | Some x \<Rightarrow> of_int \<lfloor>x\<rfloor> = x \<and> 0 \<le> x \<and> x \<le> 65535)"

definition resolve_config :: "orchestrator_options \<Rightarrow> config_error + resolved_config" where
  "resolve_config oo =
     (let agents = normalize_keys (oo_agent_key oo);
          api = default_or True (oo_api oo);
          admins = normalize_keys (oo_admin_key oo);
          heartbeat = default_or default_heartbeat_ms (oo_heartbeat oo);
          timeout = default_or default_command_timeout_ms (oo_timeout oo)
      in if \<not> port_ok (oo_port oo) then Inl BadPort
         else if agents = [] then Inl NoAgentKey
         else if api \<and> admins = [] then Inl NoAdminKey
         else if heartbeat \<le> 0 then Inl BadHeartbeat
         else if timeout \<le> 0 then Inl BadTimeout
         else case resolve_cors (oo_cors oo) of
                Inl e \<Rightarrow> Inl e
              | Inr cors \<Rightarrow> Inr
                  \<lparr>rf_host = default_or (js ''0.0.0.0'') (oo_host oo), rf_port = \<lfloor>the (oo_port oo)\<rfloor>,
                   rf_agent_keys = agents, rf_admin_keys = admins, rf_api = api, rf_heartbeat = heartbeat,
                   rf_timeout = timeout, rf_cors = cors, rf_sse_query = default_or False (oo_sse_query oo),
                   rf_trust_proxy = default_or False (oo_trust_proxy oo)\<rparr>)"

section \<open>Credential policy\<close>

definition min_key_length :: nat where "min_key_length = 16"
definition weak_key_length :: nat where "weak_key_length = 32"

datatype policy_warning = IntersectWarning | WeakKeyWarning

text \<open>The warnings that are logged, or the refusal to start.\<close>

definition enforce_security_policy :: "bool \<Rightarrow> resolved_config \<Rightarrow> config_error + policy_warning list" where
  "enforce_security_policy production c =
     (let intersects = list_ex (\<lambda>k. k \<in> set (rf_admin_keys c)) (rf_agent_keys c);
          all_keys = rf_agent_keys c @ rf_admin_keys c
      in if intersects \<and> production then Inl KeysIntersect
         else
           let warnings = (if intersects then [IntersectWarning] else [])
           in if \<not> production then Inr warnings
              else if list_ex (\<lambda>k. length k < min_key_length) all_keys then Inl ShortKey
              else Inr (warnings @ map (\<lambda>_. WeakKeyWarning) (filter (\<lambda>k. length k < weak_key_length) all_keys)))"

section \<open>Key match\<close>

text \<open>\<open>timingSafeEqual\<close> throws on buffers of unequal length; digests have one length.\<close>

definition timing_safe_equal :: "bytes \<Rightarrow> bytes \<Rightarrow> bool option" where
  "timing_safe_equal a b = (if length a \<noteq> length b then None else Some (a = b))"

definition match_step :: "(jsstr \<Rightarrow> bytes) \<Rightarrow> bytes \<Rightarrow> jsstr \<Rightarrow> jsstr option option \<Rightarrow> jsstr option option" where
  "match_step sha digest k matched = (case matched of
     None \<Rightarrow> None
   | Some m \<Rightarrow> (case timing_safe_equal digest (sha k) of
       None \<Rightarrow> None | Some same \<Rightarrow> Some (if same then Some k else m)))"

text \<open>Every key is compared, whatever matched before; \<open>None\<close> is a throw.\<close>

definition match_key :: "(jsstr \<Rightarrow> bytes) \<Rightarrow> jsstr option \<Rightarrow> jsstr list \<Rightarrow> jsstr option option" where
  "match_key sha presented ks = (case presented of
     None \<Rightarrow> Some None
   | Some p \<Rightarrow>
       (if length p = 0 \<or> length ks = 0 then Some None
        else fold (match_step sha (sha p)) ks (Some None)))"

definition agent_matches :: "(jsstr \<Rightarrow> bytes) \<Rightarrow> jsstr list \<Rightarrow> jsstr \<Rightarrow> bool option" where
  "agent_matches sha ks ticket = map_option (\<lambda>m. m \<noteq> None) (match_key sha (Some ticket) ks)"

section \<open>Lemmas\<close>

text \<open>What the match relies on: digests of one length, and different ones for the keys and texts in play.\<close>

definition digest_ok :: "(jsstr \<Rightarrow> bytes) \<Rightarrow> jsstr set \<Rightarrow> bool" where
  "digest_ok sha R \<longleftrightarrow> (\<forall>x. length (sha x) = 32) \<and> inj_on sha R"

lemma match_loop:
  "digest_ok sha R \<Longrightarrow> p \<in> R \<Longrightarrow> set ks \<subseteq> R \<Longrightarrow>
   fold (match_step sha (sha p)) ks (Some m) = Some (if p \<in> set ks then Some p else m)"
proof (induction ks arbitrary: m)
  case (Cons k ks)
  have "match_step sha (sha p) k (Some m) = Some (if k = p then Some k else m)"
    using Cons.prems inj_onD [of sha R p k] by (auto simp: match_step_def timing_safe_equal_def digest_ok_def)
  with Cons show ?case by auto
qed simp

lemma match_exact:
  assumes "digest_ok sha R" "insert (default_or [] presented) (set ks) \<subseteq> R"
  shows "match_key sha presented ks =
    Some (case presented of None \<Rightarrow> None | Some p \<Rightarrow> if p \<noteq> [] \<and> p \<in> set ks then Some p else None)"
  using assms match_loop [of sha R "default_or [] presented" ks None]
  by (cases presented) (auto simp: match_key_def default_or_def)

lemma keys_loop: "set (fold add_key ks seen) = set seen \<union> {k \<in> set ks. k \<noteq> []}"
  by (induction ks arbitrary: seen) (auto simp: add_key_def)

lemma keys_loop_distinct: "distinct seen \<Longrightarrow> distinct (fold add_key ks seen)"
  by (induction ks arbitrary: seen) (auto simp: add_key_def)

lemma keys_normal: "distinct (normalize_keys v)" "[] \<notin> set (normalize_keys v)"
  by (auto simp: normalize_keys_def keys_loop keys_loop_distinct simp del: fold.simps split: option.split key_option.split)

end
