(* ===== verification/Fleet_Http.thy ===== *)
theory Fleet_Http
  imports Fleet_Config Fleet_Domain
begin

text \<open>
  The request guards of the control plane's REST interface (\<open>fleet/src/routers/shared.ts\<close>):
  the failed-authentication throttle, the authentication hook, conditional requests, CORS headers
  of the event stream and route classification. Tokens are reals (doubles without their rounding),
  time is in milliseconds.
\<close>

section \<open>Failed-authentication throttle\<close>

record th_bucket =
  tb_tokens :: real
  tb_last :: int

record throttle =
  tr_buckets :: "(jsstr, th_bucket) jsmap"
  tr_last_prune :: "int option"  \<comment> \<open>\<open>None\<close> is minus infinity\<close>

record throttle_config =
  tc_limit :: real
  tc_window :: real
  tc_max :: nat

definition auth_failure_limit :: real where "auth_failure_limit = 10"
definition auth_failure_window_ms :: real where "auth_failure_window_ms = 60000"
definition max_throttle_buckets :: nat where "max_throttle_buckets = 4096"

definition throttle_defaults :: throttle_config where
  "throttle_defaults = \<lparr>tc_limit = auth_failure_limit, tc_window = auth_failure_window_ms, tc_max = max_throttle_buckets\<rparr>"

definition new_throttle :: throttle where
  "new_throttle = \<lparr>tr_buckets = [], tr_last_prune = None\<rparr>"

definition refilled :: "throttle_config \<Rightarrow> int \<Rightarrow> th_bucket \<Rightarrow> real" where
  "refilled cf now b = min (tc_limit cf) (tb_tokens b + (real_of_int (now - tb_last b) / tc_window cf) * tc_limit cf)"

definition throttle_prune :: "throttle_config \<Rightarrow> int \<Rightarrow> throttle \<Rightarrow> throttle" where
  "throttle_prune cf now t =
     (if (case tr_last_prune t of None \<Rightarrow> False | Some l \<Rightarrow> real_of_int (now - l) < tc_window cf) then t
      else t\<lparr>tr_last_prune := Some now,
             tr_buckets := filter (\<lambda>(ip, b). real_of_int (now - tb_last b) \<le> tc_window cf \<or> refilled cf now b < tc_limit cf)
               (tr_buckets t)\<rparr>)"

text \<open>The scan keeps the first of the oldest buckets.\<close>

definition older :: "(jsstr \<times> th_bucket) \<Rightarrow> (jsstr \<times> th_bucket) option \<Rightarrow> (jsstr \<times> th_bucket) option" where
  "older e oldest = (case oldest of None \<Rightarrow> Some e | Some o' \<Rightarrow> if tb_last (snd e) < tb_last (snd o') then Some e else Some o')"

definition evict_if_over :: "throttle_config \<Rightarrow> throttle \<Rightarrow> throttle" where
  "evict_if_over cf t =
     (if length (tr_buckets t) \<le> tc_max cf then t
      else case fold older (tr_buckets t) None of
             None \<Rightarrow> t
           | Some (ip, _) \<Rightarrow> t\<lparr>tr_buckets := jm_delete (tr_buckets t) ip\<rparr>)"

text \<open>The bucket is returned as an object: a later write to it reaches the map only while it is there.\<close>

definition throttle_refill :: "throttle_config \<Rightarrow> int \<Rightarrow> jsstr \<Rightarrow> throttle \<Rightarrow> th_bucket \<times> throttle" where
  "throttle_refill cf now ip t =
     (let t = throttle_prune cf now t in case jm_get (tr_buckets t) ip of
        None \<Rightarrow>
          (let b = \<lparr>tb_tokens = tc_limit cf, tb_last = now\<rparr>
           in (b, evict_if_over cf (t\<lparr>tr_buckets := jm_set (tr_buckets t) ip b\<rparr>)))
      | Some b \<Rightarrow>
          (if now - tb_last b > 0
           then (let b = \<lparr>tb_tokens = refilled cf now b, tb_last = now\<rparr>
                 in (b, t\<lparr>tr_buckets := jm_set (tr_buckets t) ip b\<rparr>))
           else (b, t)))"

definition throttle_blocked :: "throttle_config \<Rightarrow> int \<Rightarrow> jsstr \<Rightarrow> throttle \<Rightarrow> bool \<times> throttle" where
  "throttle_blocked cf now ip t = (let (b, t) = throttle_refill cf now ip t in (tb_tokens b < 1, t))"

definition record_failure :: "throttle_config \<Rightarrow> int \<Rightarrow> jsstr \<Rightarrow> throttle \<Rightarrow> throttle" where
  "record_failure cf now ip t =
     (let (b, t) = throttle_refill cf now ip t
      in if jm_has (tr_buckets t) ip
         then t\<lparr>tr_buckets := jm_set (tr_buckets t) ip (b\<lparr>tb_tokens := max 0 (tb_tokens b - 1)\<rparr>)\<rparr>
         else t)"

section \<open>Requests\<close>

record http_request =
  hr_ip :: "jsstr option"
  hr_method :: jsstr
  hr_url :: jsstr
  hr_authorization :: "jsstr option"
  hr_query_key :: "jsstr option"
  hr_origin :: "jsstr option"
  hr_if_none_match :: "jsstr option"

definition js_space :: "16 word \<Rightarrow> bool" where
  "js_space u \<longleftrightarrow> (9 \<le> u \<and> u \<le> 13) \<or> u = 0x20 \<or> u = 0xA0 \<or> u = 0x1680 \<or> (0x2000 \<le> u \<and> u \<le> 0x200A) \<or>
     u = 0x2028 \<or> u = 0x2029 \<or> u = 0x202F \<or> u = 0x205F \<or> u = 0x3000 \<or> u = 0xFEFF"

definition js_trim :: "jsstr \<Rightarrow> jsstr" where
  "js_trim s = rev (dropWhile js_space (rev (dropWhile js_space s)))"

definition line_break :: "16 word \<Rightarrow> bool" where
  "line_break u \<longleftrightarrow> u = 10 \<or> u = 13 \<or> u = 0x2028 \<or> u = 0x2029"

definition ascii_lower :: "16 word \<Rightarrow> 16 word" where
  "ascii_lower u = (if 0x41 \<le> u \<and> u \<le> 0x5A then u + 0x20 else u)"

text \<open>\<open>/^Bearer\s+(.+)$/i\<close> on the trimmed header: some space after the word, then a rest without
  line breaks.\<close>

definition bearer_token :: "http_request \<Rightarrow> jsstr option" where
  "bearer_token r = (case hr_authorization r of
     None \<Rightarrow> None
   | Some h \<Rightarrow>
       (let h = js_trim h; word = take 6 h; rest = drop 6 h; token = dropWhile js_space rest
        in if map ascii_lower word = js ''bearer'' \<and> token \<noteq> rest \<and> token \<noteq> [] \<and> \<not> list_ex line_break token
           then Some token else None))"

definition remote_ip :: "http_request \<Rightarrow> jsstr" where
  "remote_ip r = default_or (js ''unknown'') (hr_ip r)"

definition path_of :: "http_request \<Rightarrow> jsstr" where
  "path_of r = takeWhile (\<lambda>u. u \<noteq> 0x3F) (hr_url r)"

definition is_events_path :: "http_request \<Rightarrow> bool" where
  "is_events_path r \<longleftrightarrow> hr_method r = js ''GET'' \<and> path_of r = js ''/v1/events''"

definition starts_with :: "jsstr \<Rightarrow> jsstr \<Rightarrow> bool" where
  "starts_with p s \<longleftrightarrow> take (length p) s = p"

text \<open>\<open>/^\/v1\/instances\/[^/]+\/(drain|undrain)$/\<close>: one non-empty segment, then the verb.\<close>

definition instance_verb_path :: "jsstr \<Rightarrow> bool" where
  "instance_verb_path path \<longleftrightarrow>
     (let p = js ''/v1/instances/''; rest = drop (length p) path; segment = takeWhile (\<lambda>u. u \<noteq> 0x2F) rest
      in starts_with p path \<and> segment \<noteq> [] \<and> drop (length segment) rest \<in> {js ''/drain'', js ''/undrain''})"

definition is_mutating_route :: "http_request \<Rightarrow> bool" where
  "is_mutating_route r \<longleftrightarrow>
     (let path = path_of r; p = js ''/v1/rooms/''; rest = drop (length p) path
      in (hr_method r = js ''POST'' \<and> path = js ''/v1/rooms'') \<or>
         (hr_method r = js ''DELETE'' \<and> starts_with p path \<and> rest \<noteq> [] \<and> \<not> list_ex line_break rest) \<or>
         (hr_method r = js ''POST'' \<and> instance_verb_path path))"

section \<open>Authentication\<close>

definition hex_text :: "bytes \<Rightarrow> jsstr" where
  "hex_text bs = concat (map (\<lambda>b. [hex_lower (unat b div 16), hex_lower (unat b mod 16)]) bs)"

definition fingerprint :: "(jsstr \<Rightarrow> bytes) \<Rightarrow> jsstr \<Rightarrow> jsstr" where
  "fingerprint sha k = js ''key#'' @ take 8 (hex_text (sha k))"

datatype auth_outcome = Authenticated jsstr jsstr | Refused fleet_error | AuthThrew

text \<open>The clock is read once per call of the throttle.\<close>

definition auth_hook ::
  "(jsstr \<Rightarrow> bytes) \<Rightarrow> throttle_config \<Rightarrow> resolved_config \<Rightarrow> int \<Rightarrow> int \<Rightarrow> http_request \<Rightarrow> throttle \<Rightarrow> auth_outcome \<times> throttle" where
  "auth_hook sha cf rc now now' r t =
     (let ip = remote_ip r; (over, t) = throttle_blocked cf now ip t
      in if over then (Refused AuthThrottled, t)
         else case match_key sha (bearer_token r) (rf_admin_keys rc) of
                None \<Rightarrow> (AuthThrew, t)
              | Some m \<Rightarrow>
                  (case (if m = None \<and> is_events_path r \<and> rf_sse_query rc \<and> hr_query_key r \<noteq> None
                         then match_key sha (hr_query_key r) (rf_admin_keys rc) else Some m) of
                     None \<Rightarrow> (AuthThrew, t)
                   | Some None \<Rightarrow> (Refused Unauthorized, record_failure cf now' ip t)
                   | Some (Some k) \<Rightarrow> (Authenticated (fingerprint sha k) ip, t)))"

section \<open>Conditional requests and CORS\<close>

definition weak_etag :: "jsstr \<Rightarrow> jsstr" where
  "weak_etag hash = js ''W/'' @ [0x22] @ hash @ [0x22]"

fun js_split :: "16 word \<Rightarrow> jsstr \<Rightarrow> jsstr list" where
  "js_split c [] = [[]]"
| "js_split c (u # us) = (if u = c then [] # js_split c us
     else case js_split c us of [] \<Rightarrow> [[u]] | s # ss \<Rightarrow> (u # s) # ss)"

definition if_none_match :: "http_request \<Rightarrow> jsstr \<Rightarrow> bool" where
  "if_none_match r etag = (case hr_if_none_match r of
     None \<Rightarrow> False
   | Some h \<Rightarrow> js_trim h = js ''*'' \<or> list_ex (\<lambda>c. js_trim c = etag) (js_split 0x2C h))"

text \<open>The status of a conditional answer, and whether it has a body.\<close>

definition send_conditional :: "http_request \<Rightarrow> jsstr \<Rightarrow> nat \<times> bool" where
  "send_conditional r state_hash = (if if_none_match r (weak_etag state_hash) then (304, False) else (200, True))"

definition cors_headers_for_sse :: "http_request \<Rightarrow> jsstr list option \<Rightarrow> (jsstr \<times> jsstr) list" where
  "cors_headers_for_sse r cors = (case (cors, hr_origin r) of
     (Some origins, Some o') \<Rightarrow>
       (if js ''*'' \<in> set origins then [(js ''access-control-allow-origin'', js ''*'')]
        else if o' \<in> set origins then [(js ''access-control-allow-origin'', o'), (js ''vary'', js ''Origin'')]
        else [])
   | _ \<Rightarrow> [])"

end
