(* ===== verification/Signal_Auth.thy ===== *)
theory Signal_Auth
  imports Complex_Main Fleet_Http Fleet_Canonical
begin

text \<open>
  Around the signalling room: the tickets that open it (\<open>signal/src/SignalAuthMiddleware.ts\<close>), the
  TURN credentials it hands out (\<open>signal/src/IceConfig.ts\<close>) and the STUN responder of development
  set-ups (\<open>signal/src/DevStunResponder.ts\<close>, and its choice in \<open>signal/src/SignalServer.ts\<close>).
  \<open>sha\<close> is SHA-256 of a text, \<open>hmac secret text\<close> the base64 of HMAC-SHA-1, \<open>now\<close> the clock in
  milliseconds; sockets are numbered in the order of their creation.
\<close>

section \<open>Tickets\<close>

definition ticket_separator :: "16 word" where
  "ticket_separator = 0x3A"

definition signal_match_step :: "(jsstr \<Rightarrow> bytes) \<Rightarrow> bytes \<Rightarrow> jsstr \<Rightarrow> bool option \<Rightarrow> bool option" where
  "signal_match_step sha digest secret matched = (case matched of
     None \<Rightarrow> None
   | Some m \<Rightarrow> (case timing_safe_equal digest (sha secret) of
       None \<Rightarrow> None | Some same \<Rightarrow> Some (if same then True else m)))"

definition match_secret :: "(jsstr \<Rightarrow> bytes) \<Rightarrow> jsstr list \<Rightarrow> jsstr \<Rightarrow> bool option" where
  "match_secret sha secrets presented =
     (if length presented = 0 \<or> length secrets = 0 then Some False
      else fold (signal_match_step sha (sha presented)) secrets (Some False))"

text \<open>The room of an accepted ticket; the outer \<open>None\<close> is a throw.\<close>

definition signal_authenticate :: "(jsstr \<Rightarrow> bytes) \<Rightarrow> jsstr list \<Rightarrow> jsstr \<Rightarrow> jsstr option option" where
  "signal_authenticate sha secrets ticket =
     (if ticket_separator \<notin> set ticket then Some None
      else
        let sep = length (takeWhile (\<lambda>u. u \<noteq> ticket_separator) ticket); room = take sep ticket; presented = drop (sep + 1) ticket
        in if sep = 0 then Some None
           else if room = [] \<or> presented = [] then Some None
           else case match_secret sha secrets presented of
             None \<Rightarrow> None
           | Some ok \<Rightarrow> Some (if ok then Some room else None))"

section \<open>ICE servers\<close>

record ice_config =
  ic_turn :: "jsstr list"
  ic_secret :: jsstr
  ic_ttl :: int
  ic_stun :: "jsstr list"

text \<open>\<open>parseInt (s, 10)\<close>; \<open>None\<close> is \<open>NaN\<close>. Beyond \<open>2^53\<close> JavaScript rounds.\<close>

definition js_digit :: "16 word \<Rightarrow> bool" where
  "js_digit u \<longleftrightarrow> 0x30 \<le> u \<and> u \<le> 0x39"

definition js_parse_int :: "jsstr \<Rightarrow> int option" where
  "js_parse_int s =
     (let s = dropWhile js_space s; negative = (s \<noteq> [] \<and> hd s = 0x2D);
          s = (if s \<noteq> [] \<and> hd s \<in> {0x2B, 0x2D} then tl s else s); digits = takeWhile js_digit s;
          n = foldl (\<lambda>n u. n * 10 + (uint u - 0x30)) 0 digits
      in if digits = [] then None else Some (if negative then - n else n))"

definition env_list :: "jsstr option \<Rightarrow> jsstr list" where
  "env_list v = filter (\<lambda>s. s \<noteq> []) (map js_trim (js_split 0x2C (default_or [] v)))"

definition ice_from_env :: "(jsstr \<Rightarrow> jsstr option) \<Rightarrow> ice_config" where
  "ice_from_env env = \<lparr>ic_turn = env_list (env (js ''ICE_TURN_URLS'')), ic_secret = default_or [] (env (js ''ICE_TURN_SECRET'')),
     ic_ttl = default_or 86400 (js_parse_int (default_or (js ''86400'') (env (js ''ICE_TTL'')))),
     ic_stun = env_list (env (js ''ICE_STUN_URLS''))\<rparr>"

definition ice_username :: "int \<Rightarrow> ice_config \<Rightarrow> jsstr \<Rightarrow> jsstr" where
  "ice_username now c peer = number_string (now div 1000 + ic_ttl c) @ [ticket_separator] @ peer"

definition ice_servers :: "(jsstr \<Rightarrow> jsstr \<Rightarrow> jsstr) \<Rightarrow> int \<Rightarrow> ice_config \<Rightarrow> jsstr \<Rightarrow> jsval list" where
  "ice_servers hmac now c peer =
     map (\<lambda>url. JObj [(js ''urls'', JStr url)]) (ic_stun c) @
     (if length (ic_turn c) > 0 \<and> ic_secret c \<noteq> [] then
        [JObj [(js ''urls'', JArr (map JStr (ic_turn c))), (js ''username'', JStr (ice_username now c peer)),
               (js ''credential'', JStr (hmac (ic_secret c) (ice_username now c peer)))]]
      else [])"

definition issue_for :: "(jsstr \<Rightarrow> jsstr \<Rightarrow> jsstr) \<Rightarrow> int \<Rightarrow> ice_config \<Rightarrow> jsstr \<Rightarrow> jsstr" where
  "issue_for hmac now c peer = plain_text (JArr (ice_servers hmac now c peer))"

section \<open>STUN\<close>

definition magic_cookie :: "32 word" where
  "magic_cookie = 0x2112A442"

definition stun_u16 :: "bytes \<Rightarrow> nat \<Rightarrow> 32 word" where
  "stun_u16 b i = or (push_bit 8 (ucast (b ! i))) (ucast (b ! (i + 1)))"

definition stun_u32 :: "bytes \<Rightarrow> nat \<Rightarrow> 32 word" where
  "stun_u32 b i = or (push_bit 16 (stun_u16 b i)) (stun_u16 b (i + 2))"

definition put_u16 :: "32 word \<Rightarrow> bytes" where
  "put_u16 w = [ucast (drop_bit 8 w), ucast w]"

definition put_u32 :: "32 word \<Rightarrow> bytes" where
  "put_u32 w = put_u16 (drop_bit 16 w) @ put_u16 w"

text \<open>The sender: the octets of its IPv4 address, and its port.\<close>

record stun_peer =
  sp_octets :: "byte \<times> byte \<times> byte \<times> byte"
  sp_port :: "16 word"

definition peer_ip32 :: "stun_peer \<Rightarrow> 32 word" where
  "peer_ip32 p = (case sp_octets p of (a, b, c, d) \<Rightarrow>
     or (or (or (push_bit 24 (ucast a)) (push_bit 16 (ucast b))) (push_bit 8 (ucast c))) (ucast d))"

definition binding_response :: "bytes \<Rightarrow> stun_peer \<Rightarrow> bytes" where
  "binding_response tx p =
     (let port = and (xor (ucast (sp_port p)) (drop_bit 16 magic_cookie)) 0xFFFF;
          addr = xor (peer_ip32 p) magic_cookie;
          attr = put_u16 0x0020 @ put_u16 8 @ [0x00, 0x01] @ put_u16 port @ put_u32 addr;
          header = put_u16 0x0101 @ put_u16 (of_nat (length attr)) @ put_u32 magic_cookie @ tx
      in header @ attr)"

definition stun_handle :: "bytes \<Rightarrow> stun_peer \<Rightarrow> bytes option" where
  "stun_handle m p =
     (if length m < 20 then None
      else if and (m ! 0) 0xC0 \<noteq> 0 then None
      else if stun_u32 m 4 \<noteq> magic_cookie then None
      else if stun_u16 m 0 \<noteq> 0x0001 then None
      else Some (binding_response (take 12 (drop 8 m)) p))"

text \<open>The responder's socket; \<open>sr_live\<close> are the sockets that were created and not closed.\<close>

record stun_responder =
  sr_count :: nat
  sr_live :: "nat list"
  sr_socket :: "nat option"
  sr_listening :: bool
  sr_closing :: "nat list"

definition new_stun_responder :: stun_responder where
  "new_stun_responder = \<lparr>sr_count = 0, sr_live = [], sr_socket = None, sr_listening = False, sr_closing = []\<rparr>"

definition stun_listen :: "stun_responder \<Rightarrow> stun_responder" where
  "stun_listen s =
     (if sr_listening s \<and> sr_socket s \<noteq> None then s
      else s\<lparr>sr_count := sr_count s + 1, sr_live := sr_live s @ [sr_count s], sr_socket := Some (sr_count s)\<rparr>)"

definition stun_bound :: "stun_responder \<Rightarrow> stun_responder" where
  "stun_bound s = s\<lparr>sr_listening := True\<rparr>"

definition stun_error :: "stun_responder \<Rightarrow> stun_responder" where
  "stun_error s = s\<lparr>sr_socket := None, sr_listening := False\<rparr>"

text \<open>\<open>close\<close>: the platform throws when the socket is closing already, which rejects the promise
  (\<open>True\<close>); its callback comes later.\<close>

definition stun_close :: "stun_responder \<Rightarrow> stun_responder \<times> bool" where
  "stun_close s = (case sr_socket s of
     None \<Rightarrow> (s, False)
   | Some h \<Rightarrow>
       (if h \<notin> set (sr_live s) then (s, True)
        else (s\<lparr>sr_live := filter (\<lambda>k. k \<noteq> h) (sr_live s), sr_closing := sr_closing s @ [h]\<rparr>, False)))"

definition stun_closed :: "nat \<Rightarrow> stun_responder \<Rightarrow> stun_responder" where
  "stun_closed h s =
     (if h \<notin> set (sr_closing s) then s
      else s\<lparr>sr_closing := filter (\<lambda>k. k \<noteq> h) (sr_closing s), sr_socket := None, sr_listening := False\<rparr>)"

text \<open>The port a server starts its responder on, from its option and the environment.\<close>

datatype stun_option = StunFlag bool | StunPort "int option"

definition stun_from_env :: "(jsstr \<Rightarrow> jsstr option) \<Rightarrow> int option" where
  "stun_from_env env =
     (if env (js ''RIVALIS_STUN_DEV'') \<noteq> Some (js ''true'') then None
      else Some (case env (js ''RIVALIS_STUN_DEV_PORT'') of
        None \<Rightarrow> 3478 | Some raw \<Rightarrow> default_or 3478 (js_parse_int raw)))"

definition stun_choice :: "stun_option option \<Rightarrow> (jsstr \<Rightarrow> jsstr option) \<Rightarrow> int option" where
  "stun_choice opt env =
     (if opt \<noteq> None \<and> opt \<noteq> Some (StunFlag False)
      then Some (case opt of Some (StunPort (Some p)) \<Rightarrow> p | _ \<Rightarrow> 3478)
      else if env (js ''RIVALIS_STUN_DEV'') = Some (js ''true'') then stun_from_env env
      else None)"

section \<open>Lemmas\<close>

lemma secret_loop:
  "digest_ok sha R \<Longrightarrow> p \<in> R \<Longrightarrow> set ks \<subseteq> R \<Longrightarrow>
   fold (signal_match_step sha (sha p)) ks (Some m) = Some (m \<or> p \<in> set ks)"
proof (induction ks arbitrary: m)
  case (Cons k ks)
  have "signal_match_step sha (sha p) k (Some m) = Some (m \<or> k = p)"
    using Cons.prems inj_onD [of sha R p k] by (auto simp: signal_match_step_def timing_safe_equal_def digest_ok_def)
  with Cons show ?case by auto
qed simp

text \<open>A ticket opens the room it names exactly when the text after its first colon is one of the
  configured secrets.\<close>

lemma signal_authenticate_exact:
  assumes "digest_ok sha R" "drop (length (takeWhile (\<lambda>u. u \<noteq> ticket_separator) ticket) + 1) ticket \<in> R" "set secrets \<subseteq> R"
  shows "signal_authenticate sha secrets ticket = Some r \<longleftrightarrow>
    (case r of
       Some room \<Rightarrow> room \<noteq> [] \<and> ticket_separator \<notin> set room \<and> (\<exists>k \<in> set secrets. k \<noteq> [] \<and> ticket = room @ [ticket_separator] @ k)
     | None \<Rightarrow> \<not> (\<exists>room. room \<noteq> [] \<and> ticket_separator \<notin> set room \<and> (\<exists>k \<in> set secrets. k \<noteq> [] \<and> ticket = room @ [ticket_separator] @ k)))"
proof -
  define q where "q = takeWhile (\<lambda>u. u \<noteq> ticket_separator) ticket"
  define t where "t = drop (length q + 1) ticket"
  have m: "match_secret sha secrets t = Some (t \<noteq> [] \<and> t \<in> set secrets)"
    using secret_loop [OF assms(1) _ assms(3), of t False] assms(2) by (auto simp: match_secret_def t_def q_def)
  have form: "ticket = q @ [ticket_separator] @ t" if s: "ticket_separator \<in> set ticket"
  proof -
    obtain a b where ab: "ticket = a @ ticket_separator # b" "ticket_separator \<notin> set a" using split_list_first [OF s] by blast
    have "q = a" unfolding q_def ab(1) using ab(2) by (induction a) auto
    with ab show ?thesis by (simp add: t_def)
  qed
  have none: "ticket_separator \<notin> set q" unfolding q_def using set_takeWhileD by fast
  have key: "room = q \<and> k = t \<and> ticket_separator \<in> set ticket"
    if l: "ticket_separator \<notin> set room" "ticket = room @ [ticket_separator] @ k" for room k
  proof -
    have "q = room" unfolding q_def l(2) using l(1) by (induction room) auto
    with l show ?thesis by (simp add: t_def)
  qed
  have take: "take (length q) ticket = q" unfolding q_def by (rule takeWhile_eq_take [symmetric])
  have a: "signal_authenticate sha secrets ticket =
      Some (if ticket_separator \<in> set ticket \<and> q \<noteq> [] \<and> t \<noteq> [] \<and> t \<in> set secrets then Some q else None)"
    using m take unfolding signal_authenticate_def Let_def q_def [symmetric] t_def [symmetric] by auto
  have all: "(room \<noteq> [] \<and> ticket_separator \<notin> set room \<and> (\<exists>k \<in> set secrets. k \<noteq> [] \<and> ticket = room @ [ticket_separator] @ k)) \<longleftrightarrow>
      ticket_separator \<in> set ticket \<and> room = q \<and> q \<noteq> [] \<and> t \<noteq> [] \<and> t \<in> set secrets" (is "?L = ?R") for room
  proof
    assume ?L
    then obtain k where k: "room \<noteq> []" "ticket_separator \<notin> set room" "k \<in> set secrets" "k \<noteq> []" "ticket = room @ [ticket_separator] @ k" by blast
    with key [OF k(2,5)] show ?R by blast
  next
    assume r: ?R
    then have "ticket_separator \<in> set ticket" by blast
    note f = form [OF this]
    from r have q: "room = q" "q \<noteq> []" "t \<noteq> []" "t \<in> set secrets" by blast+
    show ?L unfolding q(1) by (intro conjI bexI [of _ t]) (rule q(2), rule none, rule q(3), rule f, rule q(4))
  qed
  show ?thesis
  proof (cases r)
    case None
    show ?thesis unfolding a None option.case all by auto
  next
    case (Some room)
    show ?thesis unfolding a Some option.case all by auto
  qed
qed

text \<open>What a peer reads from the answer is its own address and port, under its own transaction id.\<close>

definition mapped_address :: "bytes \<Rightarrow> 32 word \<times> 32 word" where
  "mapped_address b = (xor (stun_u32 b 28) magic_cookie, xor (stun_u16 b 26) (drop_bit 16 magic_cookie))"

lemma u16_roundtrip: "stun_u16 (put_u16 w @ xs) 0 = take_bit 16 w"
proof -
  have "or (push_bit 8 (ucast (ucast (drop_bit 8 w) :: 8 word))) (ucast (ucast w :: 8 word)) = take_bit 16 w"
    by (rule bit_word_eqI) (auto simp: bit_simps)
  then show ?thesis by (simp add: stun_u16_def put_u16_def)
qed

lemma u32_roundtrip: "stun_u32 (put_u32 w @ xs) 0 = w"
proof -
  have "stun_u32 (put_u32 w @ xs) 0 = or (push_bit 16 (take_bit 16 (drop_bit 16 w))) (take_bit 16 w)"
    using u16_roundtrip [of "drop_bit 16 w" "put_u16 w @ xs"] u16_roundtrip [of w xs]
    by (simp add: stun_u32_def put_u32_def stun_u16_def put_u16_def)
  also have "\<dots> = w" by (rule bit_word_eqI) (auto simp: bit_simps)
  finally show ?thesis .
qed

lemma stun_shift: "stun_u16 (xs @ ys) (length xs + i) = stun_u16 ys i" "stun_u32 (xs @ ys) (length xs + i) = stun_u32 ys i"
  by (simp_all add: stun_u16_def stun_u32_def nth_append add.assoc numeral_3_eq_3)

lemma stun_answer_maps_sender:
  assumes "stun_handle m p = Some b"
  shows "mapped_address b = (peer_ip32 p, ucast (sp_port p)) \<and> take 12 (drop 8 b) = take 12 (drop 8 m) \<and> length b = 32"
proof -
  have m: "20 \<le> length m" and b: "b = binding_response (take 12 (drop 8 m)) p"
    using assms by (auto simp: stun_handle_def split: if_splits)
  define tx where "tx = take 12 (drop 8 m)"
  have tx: "length tx = 12" using m by (simp add: tx_def)
  define port where "port = and (xor (ucast (sp_port p)) (drop_bit 16 magic_cookie)) (0xFFFF :: 32 word)"
  define pre where "pre = put_u16 0x0101 @ put_u16 12 @ put_u32 magic_cookie @ tx @ put_u16 0x0020 @ put_u16 8 @ [0x00, 0x01 :: byte]"
  have pre: "length pre = 26" using tx by (simp add: pre_def put_u16_def put_u32_def)
  have r: "b = pre @ put_u16 port @ put_u32 (xor (peer_ip32 p) magic_cookie)"
    unfolding b binding_response_def Let_def tx_def [symmetric] port_def [symmetric] pre_def by (simp add: put_u16_def put_u32_def)
  have mask: "port = take_bit 16 (xor (ucast (sp_port p)) (drop_bit 16 magic_cookie))"
    unfolding port_def take_bit_eq_mask by (simp add: mask_eq_exp_minus_1)
  have "stun_u16 b 26 = port" using stun_shift(1) [of pre _ 0] pre u16_roundtrip by (simp add: r mask)
  moreover have "stun_u32 b 28 = xor (peer_ip32 p) magic_cookie"
  proof -
    have "b = (pre @ put_u16 port) @ put_u32 (xor (peer_ip32 p) magic_cookie) @ []" by (simp add: r)
    moreover have "length (pre @ put_u16 port) + 0 = 28" by (simp add: pre put_u16_def)
    ultimately show ?thesis
      using stun_shift(2) [of "pre @ put_u16 port" "put_u32 (xor (peer_ip32 p) magic_cookie) @ []" 0] u32_roundtrip by presburger
  qed
  moreover have "xor port (drop_bit 16 magic_cookie) = ucast (sp_port p)"
    unfolding mask by (rule bit_word_eqI) (auto simp: bit_simps magic_cookie_def dest: bit_imp_le_length)
  moreover have "xor (xor a magic_cookie) magic_cookie = a" for a by (simp add: xor.assoc)
  ultimately have "mapped_address b = (peer_ip32 p, ucast (sp_port p))" by (simp add: mapped_address_def)
  moreover have "take 12 (drop 8 b) = tx" "length b = 32"
    using tx by (simp_all add: r pre_def put_u16_def put_u32_def)
  ultimately show ?thesis by (simp add: tx_def)
qed

text \<open>\<open>listen\<close> before the first socket is bound: the first socket is never closed.\<close>

lemma second_listen_leaks:
  "let s = stun_bound (stun_bound (stun_listen (stun_listen new_stun_responder))); t = stun_closed 1 (fst (stun_close s))
   in sr_socket t = None \<and> sr_live t = [0] \<and> fst (stun_close t) = t"
  by (simp add: new_stun_responder_def stun_listen_def stun_bound_def stun_close_def stun_closed_def)

text \<open>\<open>close\<close> while the socket is closing rejects.\<close>

lemma second_close_rejects:
  "snd (stun_close (fst (stun_close (stun_bound (stun_listen new_stun_responder)))))"
  by (simp add: new_stun_responder_def stun_listen_def stun_bound_def stun_close_def)

text \<open>The documented port variable has no effect on \<open>stunDev: true\<close>.\<close>

lemma stun_flag_ignores_port: "stun_choice (Some (StunFlag True)) env = Some 3478"
  by (simp add: stun_choice_def)

end
