(* ===== verification/Fleet_Http_Props.thy ===== *)
theory Fleet_Http_Props
  imports Fleet_Http
begin

text \<open>
  The throttle bounds the guesses of one source by its budget and the refill, in bounded memory,
  and pruning changes no decision: everything is stated through the level of a source, which is
  what its bucket would hold now and a full budget when it has none.
\<close>

section \<open>Levels\<close>

definition config_ok :: "throttle_config \<Rightarrow> bool" where
  "config_ok cf \<longleftrightarrow> 0 \<le> tc_limit cf \<and> 0 < tc_window cf"

definition level :: "throttle_config \<Rightarrow> int \<Rightarrow> jsstr \<Rightarrow> throttle \<Rightarrow> real" where
  "level cf now ip t = (case jm_get (tr_buckets t) ip of None \<Rightarrow> tc_limit cf | Some b \<Rightarrow> refilled cf now b)"

definition throttle_ok :: "throttle_config \<Rightarrow> int \<Rightarrow> throttle \<Rightarrow> bool" where
  "throttle_ok cf now t \<longleftrightarrow> jm_ok (tr_buckets t) \<and> length (tr_buckets t) \<le> tc_max cf \<and>
     (\<forall>ip b. jm_get (tr_buckets t) ip = Some b \<longrightarrow> 0 \<le> tb_tokens b \<and> tb_tokens b \<le> tc_limit cf \<and> tb_last b \<le> now)"

definition rate :: "throttle_config \<Rightarrow> real" where
  "rate cf = tc_limit cf / tc_window cf"

lemma refilled_rate: "refilled cf now b = min (tc_limit cf) (tb_tokens b + real_of_int (now - tb_last b) * rate cf)"
  by (simp add: refilled_def rate_def)

lemma rate_nonneg: "config_ok cf \<Longrightarrow> 0 \<le> rate cf"
  by (simp add: config_ok_def rate_def)

lemma refilled_bounds:
  assumes "config_ok cf" "0 \<le> tb_tokens b" "tb_last b \<le> now"
  shows "0 \<le> refilled cf now b" "refilled cf now b \<le> tc_limit cf"
  using assms rate_nonneg [OF assms(1)] by (simp_all add: refilled_rate config_ok_def min_def)

lemma refilled_later:
  assumes "config_ok cf" "now \<le> now'"
  shows "refilled cf now' b \<le> refilled cf now b + real_of_int (now' - now) * rate cf" "refilled cf now b \<le> refilled cf now' b"
proof -
  have d: "0 \<le> real_of_int (now' - now) * rate cf" using assms rate_nonneg by simp
  have s: "real_of_int (now' - tb_last b) * rate cf =
      real_of_int (now - tb_last b) * rate cf + real_of_int (now' - now) * rate cf"
    by (simp add: algebra_simps)
  show "refilled cf now' b \<le> refilled cf now b + real_of_int (now' - now) * rate cf"
    "refilled cf now b \<le> refilled cf now' b"
    using d unfolding refilled_rate s by (simp_all add: min_def)
qed

lemma refilled_full: "tb_tokens b = tc_limit cf \<Longrightarrow> tb_last b \<le> now \<Longrightarrow> config_ok cf \<Longrightarrow> refilled cf now b = tc_limit cf"
  using rate_nonneg [of cf] by (simp add: refilled_rate)

lemma level_later:
  assumes "config_ok cf" "now \<le> now'"
  shows "level cf now' ip t \<le> level cf now ip t + real_of_int (now' - now) * rate cf" "level cf now ip t \<le> level cf now' ip t"
  using refilled_later [OF assms] rate_nonneg [OF assms(1)] assms(2) by (simp_all add: level_def split: option.split)

lemma level_bounds:
  assumes "config_ok cf" "throttle_ok cf now t"
  shows "0 \<le> level cf now ip t" "level cf now ip t \<le> tc_limit cf"
  using assms refilled_bounds [OF assms(1)]
  by (auto simp: level_def throttle_ok_def config_ok_def split: option.split)

lemma ok_later: "throttle_ok cf now t \<Longrightarrow> now \<le> now' \<Longrightarrow> throttle_ok cf now' t"
  by (fastforce simp: throttle_ok_def)

section \<open>Pruning\<close>

text \<open>What is pruned has refilled, and stays refilled.\<close>

lemma map_of_filter:
  "distinct (map fst m) \<Longrightarrow> map_of (filter (\<lambda>(k, v). P v) m) k = (case map_of m k of Some v \<Rightarrow> if P v then Some v else None | None \<Rightarrow> None)"
  by (induction m) (auto split: option.splits simp: map_of_eq_None_iff[symmetric] dest: map_of_SomeD)

lemma prune_level:
  assumes "config_ok cf" "throttle_ok cf now t"
  shows "level cf now ip (throttle_prune cf now t) = level cf now ip t" "throttle_ok cf now (throttle_prune cf now t)"
    "set (jm_keys (tr_buckets (throttle_prune cf now t))) \<subseteq> set (jm_keys (tr_buckets t))"
proof -
  let ?P = "\<lambda>b. real_of_int (now - tb_last b) \<le> tc_window cf \<or> refilled cf now b < tc_limit cf"
  have d: "jm_ok (tr_buckets t)" using assms(2) by (simp add: throttle_ok_def)
  have full: "refilled cf now b = tc_limit cf" if "jm_get (tr_buckets t) ip = Some b" "\<not> ?P b" for ip b
    using that refilled_bounds(2) [OF assms(1), of b now] assms(2) by (auto simp: throttle_ok_def)
  show "level cf now ip (throttle_prune cf now t) = level cf now ip t"
    by (auto simp: throttle_prune_def level_def map_of_filter [OF d] intro!: full [symmetric] split: option.splits)
  show "throttle_ok cf now (throttle_prune cf now t)"
    using assms(2) d le_trans [OF length_filter_le]
    by (auto simp: throttle_prune_def throttle_ok_def map_of_filter [OF d] distinct_map_filter split: option.splits if_splits)
  show "set (jm_keys (tr_buckets (throttle_prune cf now t))) \<subseteq> set (jm_keys (tr_buckets t))"
    by (auto simp: throttle_prune_def)
qed

section \<open>Refilling\<close>

lemma oldest_in: "fold older m acc = Some e \<Longrightarrow> e \<in> set m \<or> acc = Some e"
  by (induction m arbitrary: acc) (fastforce simp: older_def split: option.splits if_splits)+

lemma oldest_exists: "m \<noteq> [] \<or> acc \<noteq> None \<Longrightarrow> fold older m acc \<noteq> None"
  by (induction m arbitrary: acc) (auto simp: older_def split: option.splits)

lemma evict_ok:
  assumes "jm_ok (tr_buckets t)" "length (tr_buckets t) \<le> Suc (tc_max cf)"
    and "\<And>ip b. jm_get (tr_buckets t) ip = Some b \<Longrightarrow> 0 \<le> tb_tokens b \<and> tb_tokens b \<le> tc_limit cf \<and> tb_last b \<le> now"
  shows "throttle_ok cf now (evict_if_over cf t)"
proof (cases "length (tr_buckets t) \<le> tc_max cf")
  case True
  with assms show ?thesis by (auto simp: throttle_ok_def evict_if_over_def)
next
  case False
  then have "tr_buckets t \<noteq> []" by auto
  then obtain ip b where o': "fold older (tr_buckets t) None = Some (ip, b)"
    using oldest_exists [of "tr_buckets t" None] by auto
  with oldest_in [of "tr_buckets t" None] have "jm_has (tr_buckets t) ip"
    by (force simp: jm_has_iff_keys)
  with assms(1,2) False have "length (jm_delete (tr_buckets t) ip) \<le> tc_max cf"
    by (simp add: jm_size_delete)
  with assms False o' show ?thesis
    by (auto simp: throttle_ok_def evict_if_over_def jm_get_delete split: if_splits)
qed

lemma throttle_refill_ok:
  assumes "config_ok cf" "throttle_ok cf now t"
  shows "throttle_ok cf now (snd (throttle_refill cf now ip t))"
    "tb_tokens (fst (throttle_refill cf now ip t)) = level cf now ip t" "tb_last (fst (throttle_refill cf now ip t)) = now"
proof -
  let ?t = "throttle_prune cf now t"
  note pr = prune_level [OF assms]
  have p: "jm_ok (tr_buckets ?t)" "length (tr_buckets ?t) \<le> tc_max cf"
    "jm_get (tr_buckets ?t) i = Some b \<Longrightarrow> 0 \<le> tb_tokens b \<and> tb_tokens b \<le> tc_limit cf \<and> tb_last b \<le> now" for i b
    using pr(2) by (auto simp: throttle_ok_def)
  have lim: "0 \<le> tc_limit cf" using assms(1) by (simp add: config_ok_def)
  show "throttle_ok cf now (snd (throttle_refill cf now ip t))"
  proof (cases "jm_get (tr_buckets ?t) ip")
    case None
    then have "\<not> jm_has (tr_buckets ?t) ip" by (simp add: jm_has_def)
    moreover from this p(2) have
      "length (jm_set (tr_buckets ?t) ip \<lparr>tb_tokens = tc_limit cf, tb_last = now\<rparr>) \<le> Suc (tc_max cf)"
      by (simp add: jm_size_set)
    ultimately show ?thesis using None p lim
      by (auto simp: throttle_refill_def Let_def jm_get_set simp del: map_of_eq_Some_iff intro!: evict_ok split: if_splits)
  next
    case (Some b)
    then have "jm_has (tr_buckets ?t) ip" by (simp add: jm_has_def)
    with Some pr(2) p refilled_bounds [OF assms(1), of b now] show ?thesis
      by (auto simp: throttle_refill_def Let_def throttle_ok_def jm_get_set jm_size_set simp del: map_of_eq_Some_iff split: if_splits)
  qed
  show "tb_tokens (fst (throttle_refill cf now ip t)) = level cf now ip t" "tb_last (fst (throttle_refill cf now ip t)) = now"
    using pr(1) [of ip] p(3) [of ip] by (auto simp: throttle_refill_def Let_def level_def refilled_def split: option.splits)
qed

lemma keys_set: "set (jm_keys (jm_set m k v)) = insert k (set (jm_keys m))"
  by (simp add: dom_update)

text \<open>A source that has a bucket, or for which there is room, gets one and nobody loses theirs.\<close>

definition has_room :: "throttle_config \<Rightarrow> jsstr \<Rightarrow> throttle \<Rightarrow> bool" where
  "has_room cf ip t \<longleftrightarrow> card (insert ip (set (jm_keys (tr_buckets t)))) \<le> tc_max cf"

lemma refill_level:
  assumes "config_ok cf" "throttle_ok cf now t" "has_room cf ip t"
  defines "t' \<equiv> snd (throttle_refill cf now ip t)"
  shows "jm_get (tr_buckets t') ip = Some (fst (throttle_refill cf now ip t))" "level cf now j t' = level cf now j t"
    "set (jm_keys (tr_buckets t')) \<subseteq> insert ip (set (jm_keys (tr_buckets t)))"
proof -
  let ?t = "throttle_prune cf now t"
  note pr = prune_level [OF assms(1,2)]
  have p: "jm_ok (tr_buckets ?t)" using pr(2) by (simp add: throttle_ok_def)
  have new: "evict_if_over cf (?t\<lparr>tr_buckets := jm_set (tr_buckets ?t) ip b\<rparr>) = ?t\<lparr>tr_buckets := jm_set (tr_buckets ?t) ip b\<rparr>"
    if "jm_get (tr_buckets ?t) ip = None" for b
  proof -
    have "length (jm_set (tr_buckets ?t) ip b) = card (set (jm_keys (jm_set (tr_buckets ?t) ip b)))"
      using distinct_card [OF jm_ok_set [OF p]] by simp
    also have "\<dots> \<le> card (insert ip (set (jm_keys (tr_buckets t))))"
      unfolding keys_set using pr(3) by (intro card_mono insert_mono) auto
    finally show ?thesis using assms(3) by (simp add: evict_if_over_def has_room_def)
  qed
  show "jm_get (tr_buckets t') ip = Some (fst (throttle_refill cf now ip t))"
    using new by (auto simp: t'_def throttle_refill_def Let_def jm_get_set split: option.split)
  have last: "jm_get (tr_buckets ?t) ip = Some b \<Longrightarrow> 0 \<le> tb_tokens b \<and> tb_tokens b \<le> tc_limit cf \<and> tb_last b \<le> now" for b
    using pr(2) by (auto simp: throttle_ok_def)
  have "refilled cf now \<lparr>tb_tokens = refilled cf now b, tb_last = now\<rparr> = refilled cf now b" for b
    by (simp add: refilled_def)
  moreover have "refilled cf now \<lparr>tb_tokens = tc_limit cf, tb_last = now\<rparr> = tc_limit cf" by (simp add: refilled_def)
  ultimately show "level cf now j t' = level cf now j t"
    unfolding pr(1) [of j, symmetric] using new
    by (auto simp: t'_def throttle_refill_def Let_def level_def jm_get_set split: option.split)
  show "set (jm_keys (tr_buckets t')) \<subseteq> insert ip (set (jm_keys (tr_buckets t)))"
    using pr(3) new by (auto simp: t'_def throttle_refill_def Let_def keys_set simp del: set_map split: option.splits if_splits)
qed

lemma room_kept: "has_room cf ip t \<Longrightarrow> set (jm_keys (tr_buckets t')) \<subseteq> insert ip (set (jm_keys (tr_buckets t))) \<Longrightarrow> has_room cf ip t'"
  unfolding has_room_def by (rule le_trans [OF card_mono]) auto

section \<open>One request\<close>

lemma failure_level:
  assumes "config_ok cf" "throttle_ok cf now t" "has_room cf ip t" "1 \<le> level cf now ip t"
  shows "level cf now ip (record_failure cf now ip t) = level cf now ip t - 1"
    "j \<noteq> ip \<Longrightarrow> level cf now j (record_failure cf now ip t) = level cf now j t"
    "set (jm_keys (tr_buckets (record_failure cf now ip t))) \<subseteq> insert ip (set (jm_keys (tr_buckets t)))"
proof -
  let ?b = "fst (throttle_refill cf now ip t)" and ?t = "snd (throttle_refill cf now ip t)"
  note r = refill_level [OF assms(1-3)] and ok = throttle_refill_ok [OF assms(1,2), of ip]
  have h: "jm_has (tr_buckets ?t) ip" using r(1) by (simp add: jm_has_def)
  then have f: "record_failure cf now ip t =
      ?t\<lparr>tr_buckets := jm_set (tr_buckets ?t) ip (?b\<lparr>tb_tokens := level cf now ip t - 1\<rparr>)\<rparr>"
    using assms(4) ok(2) by (simp add: record_failure_def case_prod_unfold Let_def)
  show "level cf now ip (record_failure cf now ip t) = level cf now ip t - 1"
    using level_bounds(2) [OF assms(1,2), of ip] ok(3) by (simp add: f level_def [of _ _ _ "_\<lparr>tr_buckets := _\<rparr>"] jm_get_set refilled_def)
  show "j \<noteq> ip \<Longrightarrow> level cf now j (record_failure cf now ip t) = level cf now j t"
    using r(2) [of j] by (simp add: f level_def jm_get_set)
  show "set (jm_keys (tr_buckets (record_failure cf now ip t))) \<subseteq> insert ip (set (jm_keys (tr_buckets t)))"
    using r(3) unfolding f by (simp add: keys_set del: set_map)
qed

lemma failure_ok:
  assumes "config_ok cf" "throttle_ok cf now t"
  shows "throttle_ok cf now (record_failure cf now ip t)"
proof -
  let ?b = "fst (throttle_refill cf now ip t)" and ?t = "snd (throttle_refill cf now ip t)"
  note ok = throttle_refill_ok [OF assms, of ip] and l = level_bounds [OF assms, of ip]
  have "record_failure cf now ip t = (if jm_has (tr_buckets ?t) ip
      then ?t\<lparr>tr_buckets := jm_set (tr_buckets ?t) ip (?b\<lparr>tb_tokens := max 0 (tb_tokens ?b - 1)\<rparr>)\<rparr> else ?t)"
    by (simp add: record_failure_def case_prod_unfold Let_def)
  with ok l show ?thesis
    by (auto simp: throttle_ok_def jm_get_set jm_size_set simp del: map_of_eq_Some_iff split: if_splits)
qed

text \<open>The sources of a run; there is a bucket for each of them.\<close>

definition fits_all :: "throttle_config \<Rightarrow> jsstr set \<Rightarrow> throttle \<Rightarrow> bool" where
  "fits_all cf U t \<longleftrightarrow> finite U \<and> card U \<le> tc_max cf \<and> set (jm_keys (tr_buckets t)) \<subseteq> U"

lemma fits_all_room: "fits_all cf U t \<Longrightarrow> ip \<in> U \<Longrightarrow> has_room cf ip t"
  unfolding fits_all_def has_room_def by (meson card_mono insert_subset le_trans)

lemma fits_all_step: "fits_all cf U t \<Longrightarrow> ip \<in> U \<Longrightarrow> set (jm_keys (tr_buckets t')) \<subseteq> insert ip (set (jm_keys (tr_buckets t))) \<Longrightarrow> fits_all cf U t'"
  unfolding fits_all_def by blast

lemma blocked_refill: "throttle_blocked cf now ip t = (tb_tokens (fst (throttle_refill cf now ip t)) < 1, snd (throttle_refill cf now ip t))"
  by (simp add: throttle_blocked_def case_prod_unfold Let_def)

lemma hook_cases:
  "(fst (auth_hook sha cf rc now now' r t) = Refused Unauthorized \<and> \<not> fst (throttle_blocked cf now (remote_ip r) t) \<and>
      snd (auth_hook sha cf rc now now' r t) = record_failure cf now' (remote_ip r) (snd (throttle_blocked cf now (remote_ip r) t))) \<or>
   (fst (auth_hook sha cf rc now now' r t) \<noteq> Refused Unauthorized \<and>
      snd (auth_hook sha cf rc now now' r t) = snd (throttle_blocked cf now (remote_ip r) t))"
  by (auto simp: auth_hook_def case_prod_unfold Let_def split: option.split)

lemma hook_ok:
  assumes "config_ok cf" "throttle_ok cf s t" "s \<le> now" "now \<le> now'"
  shows "throttle_ok cf now' (snd (auth_hook sha cf rc now now' r t))"
proof -
  have "throttle_ok cf now' (snd (throttle_refill cf now (remote_ip r) t))"
    using ok_later [OF throttle_refill_ok(1) [OF assms(1) ok_later [OF assms(2,3)]] assms(4)] .
  with hook_cases [of sha cf rc now now' r t] failure_ok [OF assms(1)] show ?thesis by (auto simp: blocked_refill)
qed

lemma hook_level:
  fixes sha :: "jsstr \<Rightarrow> bytes" and rc :: resolved_config
  assumes "config_ok cf" "throttle_ok cf s t" "s \<le> now" "now \<le> now'" "fits_all cf U t" "remote_ip r \<in> U"
  defines "x \<equiv> auth_hook sha cf rc now now' r t"
  shows "fits_all cf U (snd x)"
    "level cf now' j (snd x) + (if fst x = Refused Unauthorized \<and> remote_ip r = j then 1 else 0) \<le>
     level cf s j t + real_of_int (now' - s) * rate cf"
proof -
  let ?ip = "remote_ip r"
  let ?t = "snd (throttle_refill cf now ?ip t)"
  have ok: "throttle_ok cf now t" by (rule ok_later [OF assms(2,3)])
  note r = refill_level [OF assms(1) ok fits_all_room [OF assms(5,6)]] and f = throttle_refill_ok [OF assms(1) ok, of ?ip]
  have w: "fits_all cf U ?t" by (rule fits_all_step [OF assms(5,6) r(3)])
  have "level cf now j ?t \<le> level cf s j t + real_of_int (now - s) * rate cf"
    using r(2) [of j] level_later(1) [OF assms(1,3), of j t] by simp
  moreover have "level cf now' j ?t \<le> level cf now j ?t + real_of_int (now' - now) * rate cf"
    by (rule level_later(1) [OF assms(1,4)])
  ultimately have l: "level cf now' j ?t \<le> level cf s j t + real_of_int (now' - s) * rate cf"
    by (simp add: algebra_simps)
  have ok': "throttle_ok cf now' ?t" by (rule ok_later [OF f(1) assms(4)])
  show "fits_all cf U (snd x)"
    "level cf now' j (snd x) + (if fst x = Refused Unauthorized \<and> ?ip = j then 1 else 0) \<le>
     level cf s j t + real_of_int (now' - s) * rate cf"
  proof (atomize (full), cases "fst x = Refused Unauthorized")
    case True
    then have x: "1 \<le> level cf now ?ip t" "snd x = record_failure cf now' ?ip ?t"
      using hook_cases [of sha cf rc now now' r t] f(2) by (auto simp: x_def blocked_refill)
    have "1 \<le> level cf now' ?ip ?t"
      using x(1) r(2) [of ?ip] level_later(2) [OF assms(1,4), of ?ip ?t] by simp
    note fl = failure_level [OF assms(1) ok' fits_all_room [OF w assms(6)] this]
    show "fits_all cf U (snd x) \<and> level cf now' j (snd x) + (if fst x = Refused Unauthorized \<and> ?ip = j then 1 else 0) \<le>
        level cf s j t + real_of_int (now' - s) * rate cf"
      using fits_all_step [OF w assms(6) fl(3)] fl(1) fl(2) [of j] l by (cases "j = ?ip") (auto simp: x(2))
  next
    case False
    then have "snd x = ?t" using hook_cases [of sha cf rc now now' r t] by (auto simp: x_def blocked_refill)
    then show "fits_all cf U (snd x) \<and> level cf now' j (snd x) + (if fst x = Refused Unauthorized \<and> ?ip = j then 1 else 0) \<le>
        level cf s j t + real_of_int (now' - s) * rate cf"
      using w l False by simp
  qed
qed

section \<open>Runs\<close>

fun hook_run ::
  "(jsstr \<Rightarrow> bytes) \<Rightarrow> throttle_config \<Rightarrow> resolved_config \<Rightarrow> (int \<times> int \<times> http_request) list \<Rightarrow> throttle \<Rightarrow> auth_outcome list \<times> throttle" where
  "hook_run sha cf rc [] t = ([], t)"
| "hook_run sha cf rc ((now, now', r) # as) t =
     (let (outcome, t) = auth_hook sha cf rc now now' r t; (rest, t) = hook_run sha cf rc as t in (outcome # rest, t))"

fun clocked :: "int \<Rightarrow> (int \<times> int \<times> 'a) list \<Rightarrow> int \<Rightarrow> bool" where
  "clocked s [] e \<longleftrightarrow> s \<le> e"
| "clocked s ((now, now', r) # as) e \<longleftrightarrow> s \<le> now \<and> now \<le> now' \<and> clocked now' as e"

definition guesses :: "jsstr \<Rightarrow> (int \<times> int \<times> http_request) list \<Rightarrow> auth_outcome list \<Rightarrow> nat" where
  "guesses ip as os = length (filter (\<lambda>((_, _, r), outcome). remote_ip r = ip \<and> outcome = Refused Unauthorized) (zip as os))"

lemma run_ok:
  assumes "config_ok cf"
  shows "throttle_ok cf s t \<Longrightarrow> clocked s as e \<Longrightarrow> throttle_ok cf e (snd (hook_run sha cf rc as t))"
proof (induction as arbitrary: s t)
  case (Cons a as)
  obtain now now' r where a: "a = (now, now', r)" by (cases a)
  from Cons.prems a hook_ok [OF assms, of s t now now' sha rc r] Cons.IH [of now' "snd (auth_hook sha cf rc now now' r t)"]
  show ?case by (simp add: case_prod_unfold Let_def)
qed (simp add: ok_later)

lemma run_level:
  assumes "config_ok cf"
  shows "throttle_ok cf s t \<Longrightarrow> clocked s as e \<Longrightarrow> fits_all cf U t \<Longrightarrow> remote_ip ` (\<lambda>(_, _, r). r) ` set as \<subseteq> U \<Longrightarrow>
    real (guesses ip as (fst (hook_run sha cf rc as t))) + level cf e ip (snd (hook_run sha cf rc as t)) \<le>
    level cf s ip t + real_of_int (e - s) * rate cf"
proof (induction as arbitrary: s t)
  case Nil
  then show ?case using level_later(1) [OF assms, of s e ip t] by (simp add: guesses_def)
next
  case (Cons a as)
  obtain now now' r where a: "a = (now, now', r)" by (cases a)
  let ?x = "auth_hook sha cf rc now now' r t"
  have p: "s \<le> now" "now \<le> now'" "clocked now' as e" "remote_ip r \<in> U" "remote_ip ` (\<lambda>(_, _, r). r) ` set as \<subseteq> U"
    using Cons.prems(2,4) a by auto
  note h = hook_level [OF assms Cons.prems(1) p(1,2) Cons.prems(3) p(4), where sha = sha and rc = rc]
  note ih = Cons.IH [OF hook_ok [OF assms Cons.prems(1) p(1,2)] p(3) h(1) p(5)]
  have "real (guesses ip (a # as) (fst (hook_run sha cf rc (a # as) t))) =
      (if fst ?x = Refused Unauthorized \<and> remote_ip r = ip then 1 else 0) +
      real (guesses ip as (fst (hook_run sha cf rc as (snd ?x))))"
    by (auto simp: a guesses_def case_prod_unfold Let_def)
  moreover have "snd (hook_run sha cf rc (a # as) t) = snd (hook_run sha cf rc as (snd ?x))"
    by (simp add: a case_prod_unfold Let_def)
  ultimately show ?case using ih h(2) [of ip] by (simp add: algebra_simps)
qed

section \<open>Past the cap\<close>

text \<open>When more sources are in play than buckets fit, the oldest bucket is dropped and its source starts
  afresh. A request costs source \<open>ip\<close> its bucket when it has none afterwards although it would not have
  refilled yet, or has just made a wrong guess.\<close>

definition bucket_lost :: "throttle_config \<Rightarrow> int \<Rightarrow> jsstr \<Rightarrow> bool \<Rightarrow> throttle \<Rightarrow> throttle \<Rightarrow> bool" where
  "bucket_lost cf now ip guess t t' \<longleftrightarrow> \<not> jm_has (tr_buckets t') ip \<and> (guess \<or> level cf now ip t < tc_limit cf)"

fun evictions ::
  "(jsstr \<Rightarrow> bytes) \<Rightarrow> throttle_config \<Rightarrow> resolved_config \<Rightarrow> jsstr \<Rightarrow> (int \<times> int \<times> http_request) list \<Rightarrow> throttle \<Rightarrow> nat" where
  "evictions sha cf rc ip [] t = 0"
| "evictions sha cf rc ip ((now, now', r) # as) t =
     (let (outcome, t') = auth_hook sha cf rc now now' r t
      in (if bucket_lost cf now' ip (outcome = Refused Unauthorized \<and> remote_ip r = ip) t t' then 1 else 0) +
         evictions sha cf rc ip as t')"

lemma no_bucket_full: "\<not> jm_has (tr_buckets t) ip \<Longrightarrow> level cf now ip t = tc_limit cf"
  by (simp add: level_def jm_has_def split: option.split)

lemma evict_get: "jm_has (tr_buckets (evict_if_over cf t)) ip \<Longrightarrow>
  jm_get (tr_buckets (evict_if_over cf t)) ip = jm_get (tr_buckets t) ip"
  by (auto simp: evict_if_over_def jm_has_def jm_get_delete split: option.splits if_splits)

text \<open>Who keeps a bucket keeps the level; a source without one before keeps its full budget.\<close>

lemma refill_kept:
  fixes ip j :: jsstr
  assumes "config_ok cf" "throttle_ok cf now t"
  defines "t' \<equiv> snd (throttle_refill cf now ip t)"
  shows "jm_has (tr_buckets t') j \<Longrightarrow> level cf now j t' = level cf now j t"
    "jm_has (tr_buckets t') j \<Longrightarrow> j \<noteq> ip \<Longrightarrow> jm_has (tr_buckets t) j"
    "\<not> jm_has (tr_buckets t') ip \<Longrightarrow> level cf now ip t = tc_limit cf"
proof -
  let ?t = "throttle_prune cf now t" and ?b = "\<lparr>tb_tokens = tc_limit cf, tb_last = now\<rparr>"
  note pr = prune_level [OF assms(1,2)]
  have full: "refilled cf now ?b = tc_limit cf" by (simp add: refilled_def)
  have again: "refilled cf now \<lparr>tb_tokens = refilled cf now b, tb_last = now\<rparr> = refilled cf now b" for b
    by (simp add: refilled_def)
  have sub: "jm_has (tr_buckets ?t) j \<Longrightarrow> jm_has (tr_buckets t) j" for j
    using pr(3) by (auto simp: jm_has_iff_keys)
  have "(jm_has (tr_buckets t') j \<longrightarrow> level cf now j t' = level cf now j ?t) \<and>
    (jm_has (tr_buckets t') j \<and> j \<noteq> ip \<longrightarrow> jm_has (tr_buckets ?t) j) \<and>
    (\<not> jm_has (tr_buckets t') ip \<longrightarrow> level cf now ip ?t = tc_limit cf)"
  proof (cases "jm_get (tr_buckets ?t) ip")
    case None
    define u where "u = ?t\<lparr>tr_buckets := jm_set (tr_buckets ?t) ip ?b\<rparr>"
    have t': "t' = evict_if_over cf u" using None by (simp add: t'_def throttle_refill_def Let_def u_def)
    have u: "jm_get (tr_buckets u) i = (if i = ip then Some ?b else jm_get (tr_buckets ?t) i)" for i
      by (simp add: u_def jm_get_set)
    have "level cf now j t' = level cf now j ?t \<and> (j \<noteq> ip \<longrightarrow> jm_has (tr_buckets ?t) j)" if "jm_has (tr_buckets t') j"
    proof -
      have e: "jm_get (tr_buckets t') j = jm_get (tr_buckets u) j" using evict_get that unfolding t' by blast
      then show ?thesis using that None full by (auto simp: level_def u jm_has_def split: if_splits)
    qed
    moreover have "level cf now ip ?t = tc_limit cf" using None by (simp add: level_def)
    ultimately show ?thesis by blast
  next
    case (Some b)
    then show ?thesis using again
      by (auto simp: t'_def throttle_refill_def Let_def level_def jm_get_set jm_has_def split: if_splits option.splits)
  qed
  with pr(1) sub show "jm_has (tr_buckets t') j \<Longrightarrow> level cf now j t' = level cf now j t"
    "jm_has (tr_buckets t') j \<Longrightarrow> j \<noteq> ip \<Longrightarrow> jm_has (tr_buckets t) j"
    "\<not> jm_has (tr_buckets t') ip \<Longrightarrow> level cf now ip t = tc_limit cf" by auto
qed

lemma failure_kept:
  assumes "config_ok cf" "throttle_ok cf now t" "jm_has (tr_buckets (record_failure cf now ip t)) j"
  shows "level cf now j (record_failure cf now ip t) = (if j = ip then max 0 (level cf now j t - 1) else level cf now j t)"
    "j \<noteq> ip \<Longrightarrow> jm_has (tr_buckets t) j"
proof -
  let ?b = "fst (throttle_refill cf now ip t)" and ?t = "snd (throttle_refill cf now ip t)"
  note k = refill_kept [OF assms(1,2), of ip] and ok = throttle_refill_ok [OF assms(1,2), of ip]
  have f: "record_failure cf now ip t = (if jm_has (tr_buckets ?t) ip
      then ?t\<lparr>tr_buckets := jm_set (tr_buckets ?t) ip (?b\<lparr>tb_tokens := max 0 (level cf now ip t - 1)\<rparr>)\<rparr> else ?t)"
    using ok(2) by (simp add: record_failure_def case_prod_unfold Let_def)
  have h: "jm_has (tr_buckets ?t) j" using assms(3) by (auto simp: f jm_has_set split: if_splits)
  have "level cf now ip t \<le> tc_limit cf" "0 \<le> tc_limit cf" using level_bounds(2) [OF assms(1,2)] assms(1) by (simp_all add: config_ok_def)
  then show "level cf now j (record_failure cf now ip t) = (if j = ip then max 0 (level cf now j t - 1) else level cf now j t)"
    using h k(1) [OF h] ok(3)
    by (auto simp: f level_def [of _ _ _ "_\<lparr>tr_buckets := _\<rparr>"] jm_get_set refilled_def) (simp add: level_def)
  show "j \<noteq> ip \<Longrightarrow> jm_has (tr_buckets t) j" using k(2) [OF h] .
qed

lemma hook_charge:
  fixes sha :: "jsstr \<Rightarrow> bytes" and rc :: resolved_config and j :: jsstr and r :: http_request
  assumes "config_ok cf" "throttle_ok cf s t" "s \<le> now" "now \<le> now'"
  defines "x \<equiv> auth_hook sha cf rc now now' r t"
  defines "g \<equiv> fst x = Refused Unauthorized \<and> remote_ip r = j"
  shows "level cf now' j (snd x) + (if g then 1 else 0) \<le>
     level cf s j t + real_of_int (now' - s) * rate cf + (if bucket_lost cf now' j g t (snd x) then tc_limit cf else 0)"
proof -
  let ?ip = "remote_ip r"
  let ?t = "snd (throttle_refill cf now ?ip t)"
  have ok: "throttle_ok cf now t" by (rule ok_later [OF assms(2,3)])
  note f = throttle_refill_ok [OF assms(1) ok, of ?ip] and k = refill_kept [OF assms(1) ok, of ?ip]
  have ok': "throttle_ok cf now' ?t" by (rule ok_later [OF f(1) assms(4)])
  have up: "level cf now' j t \<le> level cf s j t + real_of_int (now' - s) * rate cf"
    using level_later(1) [OF assms(1), of s now' j t] assms(3,4) by simp
  have mid: "level cf now' j ?t \<le> level cf s j t + real_of_int (now' - s) * rate cf" if "level cf now j ?t = level cf now j t"
    using level_later(1) [OF assms(1,4), of j ?t] level_later(1) [OF assms(1,3), of j t] that by (simp add: algebra_simps)
  have lim: "0 \<le> tc_limit cf" using assms(1) by (simp add: config_ok_def)
  have guess: "1 \<le> level cf now ?ip t \<and> snd x = record_failure cf now' ?ip ?t" if "fst x = Refused Unauthorized"
    using hook_cases [of sha cf rc now now' r t] f(2) that by (auto simp: x_def blocked_refill)
  have quiet: "snd x = ?t" if "fst x \<noteq> Refused Unauthorized"
    using hook_cases [of sha cf rc now now' r t] that by (auto simp: x_def blocked_refill)
  show ?thesis
  proof (cases "jm_has (tr_buckets (snd x)) j")
    case False
    then have l: "level cf now' j (snd x) = tc_limit cf" by (rule no_bucket_full)
    show ?thesis
    proof (cases "bucket_lost cf now' j g t (snd x)")
      case True
      have "g \<longrightarrow> 1 \<le> level cf now' j t"
        using guess level_later(2) [OF assms(1,4), of j t] by (auto simp: g_def)
      moreover have "0 \<le> level cf now' j t" using level_bounds(1) [OF assms(1) ok_later [OF ok assms(4)]] .
      ultimately show ?thesis using True up l by (cases g) simp_all
    next
      case n: False
      then have "\<not> g" "tc_limit cf \<le> level cf now' j t" using False by (auto simp: bucket_lost_def)
      with up l n show ?thesis by simp
    qed
  next
    case True
    have nl: "\<not> bucket_lost cf now' j g t (snd x)" using True by (simp add: bucket_lost_def)
    show ?thesis
    proof (cases "fst x = Refused Unauthorized")
      case False
      with True quiet have "level cf now j ?t = level cf now j t" using k(1) by simp
      with mid quiet False nl show ?thesis by (simp add: g_def)
    next
      case ref: True
      note x = guess [OF ref]
      have h: "jm_has (tr_buckets (record_failure cf now' ?ip ?t)) j" using True x by simp
      note fk = failure_kept [OF assms(1) ok' h]
      have same: "level cf now j ?t = level cf now j t"
      proof (cases "jm_has (tr_buckets ?t) j")
        case False
        with fk(2) have "j = ?ip" by blast
        with False k(3) no_bucket_full show ?thesis by metis
      qed (rule k(1))
      show ?thesis
      proof (cases "j = ?ip")
        case j: True
        have "1 \<le> level cf now' j ?t" using x same level_later(2) [OF assms(1,4), of j ?t] j by simp
        with fk(1) mid [OF same] x nl ref j show ?thesis by (simp add: g_def)
      next
        case False
        with fk(1) mid [OF same] x nl show ?thesis by (simp add: g_def)
      qed
    qed
  qed
qed

lemma run_charge:
  assumes "config_ok cf"
  shows "throttle_ok cf s t \<Longrightarrow> clocked s as e \<Longrightarrow>
    real (guesses ip as (fst (hook_run sha cf rc as t))) + level cf e ip (snd (hook_run sha cf rc as t)) \<le>
    level cf s ip t + real_of_int (e - s) * rate cf + real (evictions sha cf rc ip as t) * tc_limit cf"
proof (induction as arbitrary: s t)
  case Nil
  then show ?case using level_later(1) [OF assms, of s e ip t] by (simp add: guesses_def)
next
  case (Cons a as)
  obtain now now' r where a: "a = (now, now', r)" by (cases a)
  let ?x = "auth_hook sha cf rc now now' r t"
  let ?g = "fst ?x = Refused Unauthorized \<and> remote_ip r = ip"
  have p: "s \<le> now" "now \<le> now'" "clocked now' as e" using Cons.prems(2) a by auto
  note h = hook_charge [OF assms Cons.prems(1) p(1,2), where sha = sha and rc = rc and r = r and j = ip]
  note ih = Cons.IH [OF hook_ok [OF assms Cons.prems(1) p(1,2), where sha = sha and rc = rc and r = r] p(3)]
  define G L where "G = (if ?g then 1 else 0 :: real)" and "L = (if bucket_lost cf now' ip ?g t (snd ?x) then tc_limit cf else 0)"
  have "real (guesses ip (a # as) (fst (hook_run sha cf rc (a # as) t))) = G + real (guesses ip as (fst (hook_run sha cf rc as (snd ?x))))"
    by (auto simp: a G_def guesses_def case_prod_unfold Let_def)
  moreover have "level cf e ip (snd (hook_run sha cf rc (a # as) t)) = level cf e ip (snd (hook_run sha cf rc as (snd ?x)))"
    by (simp add: a case_prod_unfold Let_def)
  moreover have "real (evictions sha cf rc ip (a # as) t) * tc_limit cf = L + real (evictions sha cf rc ip as (snd ?x)) * tc_limit cf"
    by (simp add: a L_def case_prod_unfold Let_def algebra_simps)
  moreover have "real_of_int (e - s) * rate cf = real_of_int (e - now') * rate cf + real_of_int (now' - s) * rate cf"
    by (simp add: algebra_simps)
  ultimately show ?case using ih h [folded G_def L_def] by linarith
qed

section \<open>Property\<close>

text \<open>The sources of a run and of the buckets it starts with fit under the cap.\<close>

definition sources_fit :: "throttle_config \<Rightarrow> (int \<times> int \<times> http_request) list \<Rightarrow> throttle \<Rightarrow> bool" where
  "sources_fit cf as t \<longleftrightarrow> card (set (jm_keys (tr_buckets t)) \<union> remote_ip ` (\<lambda>(_, _, r). r) ` set as) \<le> tc_max cf"

text \<open>
  C13: the control plane's key check. With digests that tell the keys and the texts in play apart, a request
  is admitted exactly when its source is not throttled and it carries an admin key, as a bearer
  token or, on the event stream and only if configured, as a query parameter; no other key counts.
  Over any run of requests, interleaved with those of other sources, a source gets at most its budget
  plus the refill of the elapsed time of wrong keys examined, and one more budget for each time the
  cap on the number of buckets cost it its bucket. So the bound is the budget and the refill alone
  only while the sources in play fit under the cap: then no other source gives it anything, nor does the
  sweep; beyond the cap an evicted source starts afresh. The memory stays within the cap of
  buckets, whoever calls.
\<close>

theorem guesses_bounded:
  assumes "config_ok cf" "throttle_ok cf s t" "clocked s as e"
  shows "length (tr_buckets (snd (hook_run sha cf rc as t))) \<le> tc_max cf \<and>
    real (guesses ip as (fst (hook_run sha cf rc as t))) \<le>
      tc_limit cf * (1 + real (evictions sha cf rc ip as t)) + real_of_int (e - s) * tc_limit cf / tc_window cf \<and>
    (sources_fit cf as t \<longrightarrow>
      real (guesses ip as (fst (hook_run sha cf rc as t))) \<le> tc_limit cf + real_of_int (e - s) * tc_limit cf / tc_window cf) \<and>
    (digest_ok sha R \<and> {default_or [] (bearer_token r), default_or [] (hr_query_key r)} \<union> set (rf_admin_keys rc) \<subseteq> R \<longrightarrow>
      ((\<exists>k. fst (auth_hook sha cf rc now now' r t) = Authenticated (fingerprint sha k) (remote_ip r)) \<longleftrightarrow>
       \<not> fst (throttle_blocked cf now (remote_ip r) t) \<and>
       (\<exists>k \<in> set (rf_admin_keys rc). k \<noteq> [] \<and> (bearer_token r = Some k \<or>
          is_events_path r \<and> rf_sse_query rc \<and> hr_query_key r = Some k))))"
proof (intro conjI impI)
  have ok: "throttle_ok cf e (snd (hook_run sha cf rc as t))" by (rule run_ok [OF assms])
  then show "length (tr_buckets (snd (hook_run sha cf rc as t))) \<le> tc_max cf" by (simp add: throttle_ok_def)
  from run_charge [OF assms, of ip sha rc] level_bounds(1) [OF assms(1) ok, of ip] level_bounds(2) [OF assms(1,2), of ip]
  show "real (guesses ip as (fst (hook_run sha cf rc as t))) \<le>
      tc_limit cf * (1 + real (evictions sha cf rc ip as t)) + real_of_int (e - s) * tc_limit cf / tc_window cf"
    by (simp add: rate_def algebra_simps)
  let ?U = "set (jm_keys (tr_buckets t)) \<union> remote_ip ` (\<lambda>(_, _, r). r) ` set as"
  assume "sources_fit cf as t"
  then have "fits_all cf ?U t" by (simp add: fits_all_def sources_fit_def)
  from run_level [OF assms this, of ip sha rc] level_bounds(1) [OF assms(1) ok, of ip] level_bounds(2) [OF assms(1,2), of ip]
  show "real (guesses ip as (fst (hook_run sha cf rc as t))) \<le> tc_limit cf + real_of_int (e - s) * tc_limit cf / tc_window cf"
    by (simp add: rate_def)
next
  assume d: "digest_ok sha R \<and> {default_or [] (bearer_token r), default_or [] (hr_query_key r)} \<union> set (rf_admin_keys rc) \<subseteq> R"
  have m: "match_key sha p (rf_admin_keys rc) = Some (case p of None \<Rightarrow> None | Some p \<Rightarrow> if p \<noteq> [] \<and> p \<in> set (rf_admin_keys rc) then Some p else None)"
    if "p \<in> {bearer_token r, hr_query_key r}" for p
    using d that by (intro match_exact [of sha R]) auto
  show "(\<exists>k. fst (auth_hook sha cf rc now now' r t) = Authenticated (fingerprint sha k) (remote_ip r)) \<longleftrightarrow>
      \<not> fst (throttle_blocked cf now (remote_ip r) t) \<and>
      (\<exists>k \<in> set (rf_admin_keys rc). k \<noteq> [] \<and> (bearer_token r = Some k \<or> is_events_path r \<and> rf_sse_query rc \<and> hr_query_key r = Some k))"
    using m [of "bearer_token r"] m [of "hr_query_key r"]
    by (auto simp: auth_hook_def case_prod_unfold Let_def split: option.splits)
qed

definition sample_request :: http_request where
  "sample_request = \<lparr>hr_ip = None, hr_method = js ''GET'', hr_url = js ''/v1/rooms'', hr_authorization = Some (js ''Bearer k''),
     hr_query_key = None, hr_origin = None, hr_if_none_match = None\<rparr>"

definition sample_sha :: "jsstr \<Rightarrow> bytes" where
  "sample_sha s = replicate 32 (if s = [0x6B] then 1 else 0)"

definition sample_config :: resolved_config where
  "sample_config = \<lparr>rf_host = [], rf_port = 0, rf_agent_keys = [], rf_admin_keys = [[0x6B]], rf_api = True, rf_heartbeat = 1,
     rf_timeout = 1, rf_cors = None, rf_sse_query = False, rf_trust_proxy = False\<rparr>"

theorem guesses_bounded_witness:
  "real (guesses (js ''unknown'') [(0, 0, sample_request)] (fst (hook_run sample_sha throttle_defaults sample_config [(0, 0, sample_request)] new_throttle))) \<le> 10 \<and>
   (\<exists>k. fst (auth_hook sample_sha throttle_defaults sample_config 0 0 sample_request new_throttle) =
      Authenticated (fingerprint sample_sha k) (remote_ip sample_request))"
proof -
  have b: "bearer_token sample_request = Some [0x6B]"
    by (simp add: bearer_token_def sample_request_def js_trim_def js_space_def ascii_lower_def line_break_def js_def)
  have d: "digest_ok sample_sha {[], [0x6B]}" by (simp add: digest_ok_def sample_sha_def)
  have c: "config_ok throttle_defaults" "throttle_ok throttle_defaults 0 new_throttle"
    by (simp_all add: config_ok_def throttle_ok_def new_throttle_def throttle_defaults_def auth_failure_limit_def auth_failure_window_ms_def)
  have n: "\<not> fst (throttle_blocked throttle_defaults 0 (remote_ip sample_request) new_throttle)"
    by (simp add: blocked_refill throttle_refill_ok [OF c]) (simp add: level_def new_throttle_def throttle_defaults_def auth_failure_limit_def)
  from guesses_bounded [OF c, of "[(0, 0, sample_request)]" 0 sample_sha sample_config "js ''unknown''" "{[], [0x6B]}" sample_request 0 0] d b n
  show ?thesis
    by (auto simp: sources_fit_def sample_config_def sample_request_def default_or_def new_throttle_def throttle_defaults_def max_throttle_buckets_def
        auth_failure_limit_def)
qed

text \<open>Past the cap a source starts afresh: with room for one bucket and one guess a minute, source \<open>a\<close> has
  two guesses examined within two milliseconds, because a request of \<open>b\<close> between them evicts its bucket.\<close>

lemma evicted_source_restarts:
  "guesses (js ''a'') [(0, 0, sample_request\<lparr>hr_ip := Some (js ''a''), hr_authorization := None\<rparr>),
      (1, 1, sample_request\<lparr>hr_ip := Some (js ''b''), hr_authorization := None\<rparr>),
      (2, 2, sample_request\<lparr>hr_ip := Some (js ''a''), hr_authorization := None\<rparr>)]
    (fst (hook_run sample_sha \<lparr>tc_limit = 1, tc_window = 60000, tc_max = 1\<rparr> sample_config
      [(0, 0, sample_request\<lparr>hr_ip := Some (js ''a''), hr_authorization := None\<rparr>),
       (1, 1, sample_request\<lparr>hr_ip := Some (js ''b''), hr_authorization := None\<rparr>),
       (2, 2, sample_request\<lparr>hr_ip := Some (js ''a''), hr_authorization := None\<rparr>)] new_throttle)) = 2"
  by (simp add: guesses_def auth_hook_def sample_request_def remote_ip_def default_or_def throttle_blocked_def throttle_refill_def
      throttle_prune_def new_throttle_def evict_if_over_def older_def record_failure_def bearer_token_def is_events_path_def
      path_of_def refilled_def sample_config_def js_def jm_has_def match_key_def Let_def)

end
