(* ===== verification/Client_Browser.thy ===== *)
theory Client_Browser
  imports Complex_Main Client_Node
begin

text \<open>
  The browser client (\<open>browser/src/WSClient.ts\<close>): one connection with automatic reconnection.
  The platform's sockets, timers and the pending \<open>getTicket\<close> calls are part of the state: every
  socket that still has the client's handlers, every timer that is armed, the number of calls not
  yet answered. \<open>opens\<close> says whether \<open>new WebSocket\<close> succeeds, \<open>rnd\<close> is \<open>Math.random()\<close>.
  An operation returns the events it emits, in order.
\<close>

section \<open>State\<close>

record reconnect_config =
  rcc_max :: "nat option"  \<comment> \<open>\<open>None\<close> is infinity\<close>
  rcc_base :: real
  rcc_cap :: real

datatype reconnect_option = ReconnectFlag bool | ReconnectWith "nat option option" "real option" "real option"

definition reconnect_defaults :: reconnect_config where
  "reconnect_defaults = \<lparr>rcc_max = None, rcc_base = 500, rcc_cap = 10000\<rparr>"

definition resolve_reconnect :: "reconnect_option option \<Rightarrow> reconnect_config option" where
  "resolve_reconnect op = (case op of
     None \<Rightarrow> None
   | Some (ReconnectFlag b) \<Rightarrow> if b then Some reconnect_defaults else None
   | Some (ReconnectWith mx bs cp) \<Rightarrow>
       Some \<lparr>rcc_max = (case mx of None \<Rightarrow> rcc_max reconnect_defaults | Some m \<Rightarrow> m),
             rcc_base = (case bs of None \<Rightarrow> rcc_base reconnect_defaults | Some b \<Rightarrow> b),
             rcc_cap = (case cp of None \<Rightarrow> rcc_cap reconnect_defaults | Some m \<Rightarrow> m)\<rparr>)"

record browser_options =
  bo_reconnect :: "reconnect_config option"
  bo_protocol :: bool
  bo_get_ticket :: bool

record browser_socket =
  bk_open :: bool
  bk_listens :: bool  \<comment> \<open>\<open>onmessage\<close> is set\<close>

record browser_client =
  bc_sockets :: "(nat, browser_socket) jsmap"
  bc_ws :: "nat option"
  bc_requests :: "handshake_request list"
  bc_ticket :: "jsstr option"
  bc_attempts :: nat
  bc_timer :: "nat option"
  bc_timers :: "(nat, real) jsmap"  \<comment> \<open>armed handles with their delays\<close>
  bc_fetches :: nat
  bc_user :: bool  \<comment> \<open>\<open>userDisconnected\<close>\<close>
  bc_pending :: "jsval option"
  bc_next :: nat
  bc_sent :: "bytes list"

definition new_browser_client :: browser_client where
  "new_browser_client = \<lparr>bc_sockets = [], bc_ws = None, bc_requests = [], bc_ticket = None, bc_attempts = 0,
     bc_timer = None, bc_timers = [], bc_fetches = 0, bc_user = False, bc_pending = None, bc_next = 0, bc_sent = []\<rparr>"

definition ev_reconnecting :: jsstr where "ev_reconnecting = js ''client:reconnecting''"
definition ev_reconnect_failed :: jsstr where "ev_reconnect_failed = js ''client:reconnect_failed''"

section \<open>Calls\<close>

definition browser_request :: "browser_options \<Rightarrow> jsstr \<Rightarrow> handshake_request" where
  "browser_request op ticket =
     (if bo_protocol op then \<lparr>hq_query = None, hq_protocols = [ticket]\<rparr>
      else \<lparr>hq_query = Some ticket, hq_protocols = []\<rparr>)"

text \<open>The result says whether the constructor threw.\<close>

definition open_socket :: "browser_options \<Rightarrow> bool \<Rightarrow> jsstr \<Rightarrow> browser_client \<Rightarrow> browser_client \<times> bool" where
  "open_socket op opens ticket c =
     (if \<not> opens then (c, True)
      else (c\<lparr>bc_sockets := jm_set (bc_sockets c) (bc_next c) \<lparr>bk_open = False, bk_listens = False\<rparr>,
              bc_ws := Some (bc_next c), bc_next := bc_next c + 1,
              bc_requests := bc_requests c @ [browser_request op ticket]\<rparr>, False))"

definition cancel_reconnect :: "browser_client \<Rightarrow> browser_client" where
  "cancel_reconnect c = (case bc_timer c of
     None \<Rightarrow> c | Some h \<Rightarrow> c\<lparr>bc_timers := jm_delete (bc_timers c) h, bc_timer := None\<rparr>)"

definition browser_connect :: "browser_options \<Rightarrow> bool \<Rightarrow> jsstr \<Rightarrow> browser_client \<Rightarrow> browser_client \<times> bool" where
  "browser_connect op opens ticket c =
     (if bc_ws c \<noteq> None then (c, False)
      else if bo_protocol op \<and> length ticket = 0 then (c, True)
      else open_socket op opens ticket
             ((cancel_reconnect c)\<lparr>bc_user := False, bc_attempts := 0, bc_ticket := Some ticket\<rparr>))"

text \<open>The socket loses its handlers before it is closed.\<close>

definition browser_disconnect :: "browser_client \<Rightarrow> browser_client \<times> client_event list" where
  "browser_disconnect c =
     (let c = (cancel_reconnect (c\<lparr>bc_user := True\<rparr>))\<lparr>bc_ticket := None, bc_pending := None\<rparr>
      in case bc_ws c of
           None \<Rightarrow> (c, [])
         | Some h \<Rightarrow> (c\<lparr>bc_ws := None, bc_sockets := jm_delete (bc_sockets c) h\<rparr>,
             [(ev_disconnect, BytesArg (text_encode (js ''terminated'')))]))"

definition socket_is_open :: "browser_client \<Rightarrow> bool" where
  "socket_is_open c \<longleftrightarrow> (case bc_ws c of None \<Rightarrow> False
     | Some h \<Rightarrow> (case jm_get (bc_sockets c) h of None \<Rightarrow> False | Some s \<Rightarrow> bk_open s))"

definition browser_send :: "jsstr \<Rightarrow> bytes \<Rightarrow> browser_client \<Rightarrow> browser_client \<times> bool" where
  "browser_send topic payload c =
     (if \<not> socket_is_open c then (c, False)
      else case message_encode topic payload of
             Inl _ \<Rightarrow> (c, True)
           | Inr frame \<Rightarrow> (c\<lparr>bc_sent := bc_sent c @ [frame]\<rparr>, False))"

section \<open>Reconnecting\<close>

definition compute_backoff :: "reconnect_config \<Rightarrow> real \<Rightarrow> nat \<Rightarrow> real" where
  "compute_backoff rc rnd attempt = min (rcc_base rc * 2 ^ attempt + rnd * rcc_base rc) (rcc_cap rc)"

definition attempts_left :: "reconnect_config \<Rightarrow> browser_client \<Rightarrow> bool" where
  "attempts_left rc c \<longleftrightarrow> (case rcc_max rc of None \<Rightarrow> True | Some m \<Rightarrow> bc_attempts c < m)"

definition code_invalid_ticket :: int where "code_invalid_ticket = 4001"
definition code_kicked :: int where "code_kicked = 4003"
definition code_room_rejected :: int where "code_room_rejected = 4004"

definition no_reconnect_codes :: "int list" where
  "no_reconnect_codes = [code_invalid_ticket, code_kicked, code_room_rejected]"

definition should_reconnect :: "browser_options \<Rightarrow> int \<Rightarrow> browser_client \<Rightarrow> bool" where
  "should_reconnect op code c = (case bo_reconnect op of
     None \<Rightarrow> False
   | Some rc \<Rightarrow> \<not> bc_user c \<and> \<not> (bc_ticket c = None \<and> \<not> bo_get_ticket op) \<and>
       code \<notin> set no_reconnect_codes \<and> attempts_left rc c)"

definition reconnect_exhausted :: "browser_options \<Rightarrow> browser_client \<Rightarrow> bool" where
  "reconnect_exhausted op c = (case bo_reconnect op of
     None \<Rightarrow> False
   | Some rc \<Rightarrow> \<not> bc_user c \<and> bc_attempts c \<noteq> 0 \<and> \<not> attempts_left rc c)"

text \<open>The handle of an earlier timer is overwritten, not cleared.\<close>

definition schedule_retry :: "browser_options \<Rightarrow> real \<Rightarrow> browser_client \<Rightarrow> browser_client \<times> client_event list" where
  "schedule_retry op rnd c = (case bo_reconnect op of
     None \<Rightarrow> (c, [])
   | Some rc \<Rightarrow>
       (let delay = compute_backoff rc rnd (bc_attempts c); c = c\<lparr>bc_attempts := bc_attempts c + 1\<rparr>
        in (c\<lparr>bc_timer := Some (bc_next c), bc_timers := jm_set (bc_timers c) (bc_next c) delay, bc_next := bc_next c + 1\<rparr>,
            [(ev_reconnecting, BytesArg (text_encode (decimal (bc_attempts c))))])))"

definition perform_reconnect :: "browser_options \<Rightarrow> bool \<Rightarrow> browser_client \<Rightarrow> browser_client" where
  "perform_reconnect op opens c =
     (if bc_user c then c
      else if bo_get_ticket op then c\<lparr>bc_fetches := bc_fetches c + 1\<rparr>
      else case bc_ticket c of None \<Rightarrow> c | Some t \<Rightarrow> fst (open_socket op opens t c))"

section \<open>Events of the platform\<close>

definition retry_timer :: "browser_options \<Rightarrow> bool \<Rightarrow> nat \<Rightarrow> browser_client \<Rightarrow> browser_client" where
  "retry_timer op opens h c =
     (if \<not> jm_has (bc_timers c) h then c
      else perform_reconnect op opens (c\<lparr>bc_timers := jm_delete (bc_timers c) h, bc_timer := None\<rparr>))"

text \<open>A \<open>getTicket\<close> call ends: with a ticket, or it failed or gave something else.\<close>

definition ticket_ready :: "browser_options \<Rightarrow> bool \<Rightarrow> jsstr option \<Rightarrow> browser_client \<Rightarrow> browser_client \<times> client_event list" where
  "ticket_ready op opens fresh c =
     (if bc_fetches c = 0 then (c, [])
      else
        let c = c\<lparr>bc_fetches := bc_fetches c - 1\<rparr>
        in case fresh of
             None \<Rightarrow> (c, [(ev_reconnect_failed, NoArg)])
           | Some t \<Rightarrow>
               (let c = c\<lparr>bc_ticket := Some t\<rparr>
                in if bc_user c then (c, []) else (fst (open_socket op opens t c), [])))"

text \<open>\<open>onopen\<close> adds the message handler to the current socket, whichever socket opened.\<close>

definition browser_open :: "nat \<Rightarrow> browser_client \<Rightarrow> browser_client \<times> client_event list" where
  "browser_open h c = (case jm_get (bc_sockets c) h of
     None \<Rightarrow> (c, [])
   | Some s \<Rightarrow>
       (if bk_open s then (c, [])
        else
          let c = c\<lparr>bc_sockets := jm_set (bc_sockets c) h (s\<lparr>bk_open := True\<rparr>)\<rparr>;
              c = (case bc_ws c of
                     None \<Rightarrow> c
                   | Some w \<Rightarrow> (case jm_get (bc_sockets c) w of
                       None \<Rightarrow> c
                     | Some s \<Rightarrow> c\<lparr>bc_sockets := jm_set (bc_sockets c) w (s\<lparr>bk_listens := True\<rparr>)\<rparr>))
          in (c\<lparr>bc_attempts := 0\<rparr>, [(ev_connect, NoArg)])))"

text \<open>\<open>None\<close> is a throw out of the handler.\<close>

definition browser_message :: "nat \<Rightarrow> bytes \<Rightarrow> browser_client \<Rightarrow> (browser_client \<times> client_event list) option" where
  "browser_message h frame c = (case jm_get (bc_sockets c) h of
     None \<Rightarrow> Some (c, [])
   | Some s \<Rightarrow>
       (if \<not> (bk_open s \<and> bk_listens s) then Some (c, [])
        else case message_decode frame of
               Inl _ \<Rightarrow> None
             | Inr v \<Rightarrow>
                 (case get_prop v (js ''topic'') of
                    JStr topic \<Rightarrow>
                      (if topic = close_control_topic then
                         (case get_prop v (js ''payload'') of
                            JBytes b \<Rightarrow> (case decode_close_frame b of
                                Inl _ \<Rightarrow> None
                              | Inr k \<Rightarrow>
                                  Some (c\<lparr>bc_pending := Some (get_prop k (js ''code''))\<rparr>,
                                    [(ev_kicked, ValueArg (JObj [(js ''code'', get_prop k (js ''code'')),
                                                                  (js ''reason'', get_prop k (js ''reason''))]))]))
                          | _ \<Rightarrow> None)
                       else Some (c, [(topic, property_arg (get_prop v (js ''payload'')))]))
                  | _ \<Rightarrow> Some (c, []))))"

definition browser_error :: "nat \<Rightarrow> browser_client \<Rightarrow> client_event list" where
  "browser_error h c = (if jm_has (bc_sockets c) h then [(ev_error, ErrorArg)] else [])"

definition effective_code :: "jsval option \<Rightarrow> int \<Rightarrow> int" where
  "effective_code pending code = (case pending of Some (JNum n) \<Rightarrow> n | _ \<Rightarrow> code)"

definition browser_close :: "browser_options \<Rightarrow> real \<Rightarrow> nat \<Rightarrow> nat \<Rightarrow> jsstr \<Rightarrow> browser_client \<Rightarrow> browser_client \<times> client_event list" where
  "browser_close op rnd h code reason c =
     (if \<not> jm_has (bc_sockets c) h then (c, [])
      else
        let pending = bc_pending c;
            c = c\<lparr>bc_sockets := jm_delete (bc_sockets c) h, bc_ws := None, bc_pending := None\<rparr>;
            kicked = (if pending = None \<and> 4000 \<le> code \<and> code < 5000 then [(ev_kicked, KickedArg code reason)] else []);
            evs = kicked @ [(ev_disconnect, BytesArg (text_encode reason))]
        in if should_reconnect op (effective_code pending (int code)) c
           then (let (c, more) = schedule_retry op rnd c in (c, evs @ more))
           else (c, evs @ (if reconnect_exhausted op c then [(ev_reconnect_failed, NoArg)] else [])))"

end
