(* ===== verification/Client_Browser_Props.thy ===== *)
theory Client_Browser_Props
  imports Client_Browser
begin

text \<open>
  Reconnection ends, and says so. A retry step is what happens without the user and without a socket
  that opens: a socket closes, a retry timer fires, a ticket call ends. With a limit on the attempts these
  steps are well-founded, with a bound on their number and on the sockets they open, and every
  chain of retries that runs out emits one \<open>client:reconnect_failed\<close>.
\<close>

section \<open>Retry steps\<close>

datatype retry_event = SocketCloses nat nat jsstr real | TimerFires nat bool | TicketEnds "jsstr option" bool

text \<open>A step carries what happened and the events the client emits.\<close>

inductive retry_step :: "browser_options \<Rightarrow> browser_client \<Rightarrow> retry_event \<Rightarrow> client_event list \<Rightarrow> browser_client \<Rightarrow> bool" for op where
  close: "jm_has (bc_sockets c) h \<Longrightarrow>
    retry_step op c (SocketCloses h code reason rnd) (snd (browser_close op rnd h code reason c)) (fst (browser_close op rnd h code reason c))"
| timer: "jm_has (bc_timers c) h \<Longrightarrow> retry_step op c (TimerFires h opens) [] (retry_timer op opens h c)"
| ticket: "0 < bc_fetches c \<Longrightarrow>
    retry_step op c (TicketEnds fresh opens) (snd (ticket_ready op opens fresh c)) (fst (ticket_ready op opens fresh c))"

inductive retry_run :: "browser_options \<Rightarrow> browser_client \<Rightarrow> retry_event list \<Rightarrow> client_event list \<Rightarrow> browser_client \<Rightarrow> bool" for op c where
  stop: "retry_run op c [] [] c"
| more: "retry_run op c es out c' \<Longrightarrow> retry_step op c' e o' c'' \<Longrightarrow> retry_run op c (es @ [e]) (out @ o') c''"

definition client_ok :: "browser_client \<Rightarrow> bool" where
  "client_ok c \<longleftrightarrow> jm_ok (bc_sockets c) \<and> jm_ok (bc_timers c) \<and>
     (\<forall>h. jm_has (bc_sockets c) h \<or> jm_has (bc_timers c) h \<longrightarrow> h < bc_next c)"

text \<open>The attempts that are left, then what is under way: a timer still has a ticket call and a
  socket before it, a call a socket.\<close>

definition retries_left :: "nat \<Rightarrow> browser_client \<Rightarrow> nat" where
  "retries_left n c = 4 * (n - bc_attempts c) + 3 * length (bc_timers c) + 2 * bc_fetches c + length (bc_sockets c)"

definition sockets_due :: "nat \<Rightarrow> browser_client \<Rightarrow> nat" where
  "sockets_due n c = length (bc_requests c) + length (bc_timers c) + bc_fetches c + (n - bc_attempts c)"

text \<open>What a step does to the counts.\<close>

definition counts :: "browser_client \<Rightarrow> nat \<times> nat \<times> nat \<times> nat \<times> nat" where
  "counts c = (length (bc_sockets c), length (bc_timers c), bc_fetches c, bc_attempts c, length (bc_requests c))"

lemma open_counts:
  assumes "client_ok c"
  shows "client_ok (fst (open_socket op opens t c))"
    "counts (fst (open_socket op opens t c)) = (if opens then (length (bc_sockets c) + 1, length (bc_timers c), bc_fetches c, bc_attempts c, length (bc_requests c) + 1) else counts c)"
    "bc_user (fst (open_socket op opens t c)) = bc_user c"
proof -
  have "\<not> jm_has (bc_sockets c) (bc_next c)" using assms by (auto simp: client_ok_def)
  then show "counts (fst (open_socket op opens t c)) = (if opens then (length (bc_sockets c) + 1, length (bc_timers c), bc_fetches c, bc_attempts c, length (bc_requests c) + 1) else counts c)"
    by (simp add: open_socket_def counts_def jm_size_set)
  show "client_ok (fst (open_socket op opens t c))"
    using assms by (auto simp: open_socket_def client_ok_def jm_has_set intro: less_SucI)
  show "bc_user (fst (open_socket op opens t c)) = bc_user c" by (simp add: open_socket_def)
qed

lemma drop_ok:
  assumes "client_ok c"
  shows "client_ok (c\<lparr>bc_sockets := jm_delete (bc_sockets c) h, bc_ws := w, bc_pending := p\<rparr>)"
    "client_ok (c\<lparr>bc_timers := jm_delete (bc_timers c) h, bc_timer := k\<rparr>)"
    "client_ok (c\<lparr>bc_fetches := f\<rparr>)" "client_ok (c\<lparr>bc_ticket := t\<rparr>)" "client_ok (c\<lparr>bc_fetches := f, bc_ticket := t\<rparr>)"
  using assms by (auto simp: client_ok_def jm_has_delete)

lemma perform_cases:
  assumes "client_ok c"
  shows "client_ok (perform_reconnect op opens c)" "bc_user (perform_reconnect op opens c) = bc_user c"
    "perform_reconnect op opens c = c \<or> \<not> bc_user c \<and>
       (counts (perform_reconnect op opens c) = (length (bc_sockets c), length (bc_timers c), bc_fetches c + 1, bc_attempts c, length (bc_requests c)) \<or>
        counts (perform_reconnect op opens c) = (length (bc_sockets c) + 1, length (bc_timers c), bc_fetches c, bc_attempts c, length (bc_requests c) + 1))"
proof -
  have stay: "fst (open_socket op False t c) = c" for t by (simp add: open_socket_def)
  have fetch: "counts (c\<lparr>bc_fetches := bc_fetches c + 1\<rparr>) = (length (bc_sockets c), length (bc_timers c), bc_fetches c + 1, bc_attempts c, length (bc_requests c))"
    by (simp add: counts_def)
  note op = open_counts [OF assms, of op] and ft = drop_ok(3) [OF assms]
  show "client_ok (perform_reconnect op opens c)" "bc_user (perform_reconnect op opens c) = bc_user c"
    using op ft assms by (simp_all add: perform_reconnect_def split: option.split)
  show "perform_reconnect op opens c = c \<or> \<not> bc_user c \<and>
       (counts (perform_reconnect op opens c) = (length (bc_sockets c), length (bc_timers c), bc_fetches c + 1, bc_attempts c, length (bc_requests c)) \<or>
        counts (perform_reconnect op opens c) = (length (bc_sockets c) + 1, length (bc_timers c), bc_fetches c, bc_attempts c, length (bc_requests c) + 1))"
    using op(2) [of opens] fetch stay by (cases opens) (simp_all add: perform_reconnect_def split: option.split)
qed

text \<open>One retry step: it keeps the books, lowers the measure and opens at most what was due.\<close>

definition retried :: "nat \<Rightarrow> browser_client \<Rightarrow> browser_client \<Rightarrow> bool" where
  "retried n c c' \<longleftrightarrow> client_ok c' \<and> retries_left n c' < retries_left n c \<and> sockets_due n c' \<le> sockets_due n c \<and>
     bc_user c' = bc_user c \<and> (bc_user c \<longrightarrow> bc_requests c' = bc_requests c)"

lemma retriedI:
  assumes "client_ok c'" "bc_user c' = bc_user c" "counts c' = (s, t, f, a, r)"
    and "4 * (n - a) + 3 * t + 2 * f + s < retries_left n c" "r + t + f + (n - a) \<le> sockets_due n c"
    and "bc_user c \<Longrightarrow> bc_requests c' = bc_requests c"
  shows "retried n c c'"
  using assms by (auto simp: retried_def counts_def retries_left_def sockets_due_def)

lemma close_retried:
  assumes "client_ok c" "jm_has (bc_sockets c) h" "bo_reconnect op = Some rc" "rcc_max rc = Some n"
  shows "retried n c (fst (browser_close op rnd h code reason c))"
proof -
  let ?c = "c\<lparr>bc_sockets := jm_delete (bc_sockets c) h, bc_ws := None, bc_pending := None\<rparr>"
  have ok: "client_ok ?c" by (rule drop_ok(1) [OF assms(1)])
  have pos: "0 < length (bc_sockets c)" using assms(2) by (cases "bc_sockets c") auto
  have size: "length (bc_sockets ?c) = length (bc_sockets c) - 1"
    using assms(1,2) by (simp add: client_ok_def jm_size_delete)
  show ?thesis
  proof (cases "should_reconnect op (effective_code (bc_pending c) (int code)) ?c")
    case True
    then have left: "bc_attempts c < n" using assms(3,4) by (simp add: should_reconnect_def attempts_left_def)
    have new: "\<not> jm_has (bc_timers c) (bc_next c)" using assms(1) by (auto simp: client_ok_def)
    let ?d = "?c\<lparr>bc_attempts := bc_attempts c + 1, bc_timer := Some (bc_next c),
        bc_timers := jm_set (bc_timers c) (bc_next c) (compute_backoff rc rnd (bc_attempts c)), bc_next := bc_next c + 1\<rparr>"
    have "fst (browser_close op rnd h code reason c) = ?d"
      using True assms(2,3) by (simp add: browser_close_def schedule_retry_def Let_def)
    moreover have ok': "client_ok ?d" using ok by (auto simp: client_ok_def jm_has_set intro: less_SucI)
    moreover have cnt: "counts ?d = (length (bc_sockets c) - 1, length (bc_timers c) + 1, bc_fetches c, bc_attempts c + 1, length (bc_requests c))"
      using size new by (simp add: counts_def jm_size_set)
    moreover obtain k m where "n - bc_attempts c = Suc k" "n - (bc_attempts c + 1) = k" "length (bc_sockets c) = Suc m"
      using left pos by (metis Suc_diff_Suc Suc_eq_plus1 gr0_implies_Suc)
    then have "retried n c ?d"
      by (intro retriedI [OF ok' _ cnt]) (simp_all add: retries_left_def sockets_due_def)
    ultimately show ?thesis by simp
  next
    case False
    then have "fst (browser_close op rnd h code reason c) = ?c" using assms(2) by (simp add: browser_close_def Let_def)
    moreover have cnt: "counts ?c = (length (bc_sockets c) - 1, length (bc_timers c), bc_fetches c, bc_attempts c, length (bc_requests c))"
      using size by (simp add: counts_def)
    have "retried n c ?c"
      using pos by (intro retriedI [OF ok _ cnt]) (simp_all add: retries_left_def sockets_due_def)
    ultimately show ?thesis by simp
  qed
qed

lemma timer_retried:
  assumes "client_ok c" "jm_has (bc_timers c) h"
  shows "retried n c (retry_timer op opens h c)"
proof -
  let ?c = "c\<lparr>bc_timers := jm_delete (bc_timers c) h, bc_timer := None\<rparr>"
  have ok: "client_ok ?c" by (rule drop_ok(2) [OF assms(1)])
  have "0 < length (bc_timers c)" using assms(2) by (cases "bc_timers c") auto
  moreover have "length (bc_timers ?c) = length (bc_timers c) - 1"
    using assms by (simp add: client_ok_def jm_size_delete)
  ultimately obtain m where m: "length (bc_timers c) = Suc m" "length (bc_timers ?c) = m" by (cases "length (bc_timers c)") auto
  have t: "retry_timer op opens h c = perform_reconnect op opens ?c" using assms(2) by (simp add: retry_timer_def)
  note p = perform_cases [OF ok, of op opens]
  have u: "bc_user ?c = bc_user c" "bc_requests ?c = bc_requests c" by simp_all
  from p(3) consider "perform_reconnect op opens ?c = ?c"
    | "\<not> bc_user c" "counts (perform_reconnect op opens ?c) = (length (bc_sockets c), m, bc_fetches c + 1, bc_attempts c, length (bc_requests c))"
    | "\<not> bc_user c" "counts (perform_reconnect op opens ?c) = (length (bc_sockets c) + 1, m, bc_fetches c, bc_attempts c, length (bc_requests c) + 1)"
    using m(2) by auto
  then show ?thesis
  proof cases
    case 1
    have "counts ?c = (length (bc_sockets c), m, bc_fetches c, bc_attempts c, length (bc_requests c))"
      using m(2) by (simp add: counts_def)
    from retriedI [OF ok _ this] show ?thesis unfolding t 1 using m(1) by (simp add: retries_left_def sockets_due_def)
  next
    case 2
    show ?thesis unfolding t by (rule retriedI [OF p(1) _ 2(2)]) (use 2(1) p(2) m(1) in \<open>simp_all add: retries_left_def sockets_due_def\<close>)
  next
    case 3
    show ?thesis unfolding t by (rule retriedI [OF p(1) _ 3(2)]) (use 3(1) p(2) m(1) in \<open>simp_all add: retries_left_def sockets_due_def\<close>)
  qed
qed

lemma ticket_retried:
  assumes "client_ok c" "0 < bc_fetches c"
  shows "retried n c (fst (ticket_ready op opens fresh c))"
proof -
  obtain f where f: "bc_fetches c = Suc f" using assms(2) by (cases "bc_fetches c") auto
  show ?thesis
  proof (cases "\<exists>t. fresh = Some t \<and> \<not> bc_user c \<and> opens")
    case True
    then obtain t where t: "fresh = Some t" "\<not> bc_user c" "opens" by blast
    let ?c = "c\<lparr>bc_fetches := f, bc_ticket := Some t\<rparr>"
    note o' = open_counts [OF drop_ok(5) [OF assms(1), where f = f and t = "Some t"], of op opens t]
    have "fst (ticket_ready op opens fresh c) = fst (open_socket op opens t ?c)"
      using t f by (simp add: ticket_ready_def Let_def)
    moreover have "counts (fst (open_socket op opens t ?c)) =
        (length (bc_sockets c) + 1, length (bc_timers c), f, bc_attempts c, length (bc_requests c) + 1)"
      using o'(2) t(3) by simp
    from retriedI [OF o'(1) _ this] have "retried n c (fst (open_socket op opens t ?c))"
      using o'(3) t(2) f by (simp add: retries_left_def sockets_due_def)
    ultimately show ?thesis by simp
  next
    case False
    let ?c = "c\<lparr>bc_fetches := f, bc_ticket := (case fresh of None \<Rightarrow> bc_ticket c | Some t \<Rightarrow> Some t)\<rparr>"
    have "fst (ticket_ready op opens fresh c) = ?c"
      using False f by (auto simp: ticket_ready_def Let_def open_socket_def split: option.split)
    moreover have "counts ?c = (length (bc_sockets c), length (bc_timers c), f, bc_attempts c, length (bc_requests c))"
      by (simp add: counts_def)
    from retriedI [OF drop_ok(5) [OF assms(1)] _ this] have "retried n c ?c"
      using f by (simp add: retries_left_def sockets_due_def)
    ultimately show ?thesis by simp
  qed
qed

lemma step_retried:
  assumes "retry_step op c e out c'" "client_ok c" "bo_reconnect op = Some rc" "rcc_max rc = Some n"
  shows "retried n c c'"
  using assms(1) by cases (use assms(2-4) close_retried timer_retried ticket_retried in auto)

lemma run_retried:
  assumes "retry_run op c es out c'" "client_ok c" "bo_reconnect op = Some rc" "rcc_max rc = Some n"
  shows "client_ok c' \<and> length es + retries_left n c' \<le> retries_left n c \<and> sockets_due n c' \<le> sockets_due n c \<and>
    bc_user c' = bc_user c \<and> (bc_user c \<longrightarrow> bc_requests c' = bc_requests c)"
  using assms(1,2)
proof induction
  case (more es out c' e o' c'')
  with step_retried [OF more.hyps(2) _ assms(3,4)] show ?case by (auto simp: retried_def)
qed simp

section \<open>Chains of retries\<close>

text \<open>What will lead to a socket or has one: each is one chain, at one of its stations.\<close>

definition chains :: "browser_client \<Rightarrow> nat" where
  "chains c = length (bc_sockets c) + length (bc_timers c) + bc_fetches c"

definition failures :: "client_event list \<Rightarrow> nat" where
  "failures evs = count_list (map fst evs) ev_reconnect_failed"

lemma failures_simps [simp]:
  "failures [] = 0" "failures (xs @ ys) = failures xs + failures ys"
  "failures ((ev_reconnect_failed, x) # xs) = Suc (failures xs)" "failures ((ev_kicked, x) # xs) = failures xs"
  "failures ((ev_disconnect, x) # xs) = failures xs" "failures ((ev_reconnecting, x) # xs) = failures xs"
  by (simp_all add: failures_def ev_reconnect_failed_def ev_kicked_def ev_disconnect_def ev_reconnecting_def js_def)

text \<open>The platform takes every new socket, and no close forbids reconnection.\<close>

fun ordinary :: "retry_event \<Rightarrow> bool" where
  "ordinary (SocketCloses h code reason rnd) \<longleftrightarrow> int code \<notin> set no_reconnect_codes"
| "ordinary (TimerFires h opens) \<longleftrightarrow> opens"
| "ordinary (TicketEnds fresh opens) \<longleftrightarrow> opens"

definition retrying :: "browser_options \<Rightarrow> browser_client \<Rightarrow> bool" where
  "retrying op c \<longleftrightarrow> \<not> bc_user c \<and> (bo_get_ticket op \<or> bc_ticket c \<noteq> None) \<and> bc_pending c = None"

text \<open>A chain moves on silently or ends with one event; it never splits.\<close>

definition chained :: "browser_options \<Rightarrow> nat \<Rightarrow> browser_client \<Rightarrow> retry_event \<Rightarrow> client_event list \<Rightarrow> browser_client \<Rightarrow> bool" where
  "chained op n c e out c' \<longleftrightarrow> failures out + chains c' \<le> chains c \<and>
     (0 < n \<and> retrying op c \<and> ordinary e \<longrightarrow> failures out + chains c' = chains c \<and> retrying op c')"

lemma chains_counts: "counts c = (s, t, f, a, r) \<Longrightarrow> chains c = s + t + f"
  by (simp add: counts_def chains_def)

lemma one_deleted: "jm_ok m \<Longrightarrow> jm_has m h \<Longrightarrow> length m = Suc (length (jm_delete m h))"
  by (cases m) (auto simp: jm_size_delete simp del: delete_simps)

lemma close_chained:
  assumes "client_ok c" "jm_has (bc_sockets c) h" "bo_reconnect op = Some rc" "rcc_max rc = Some n"
  shows "chained op n c (SocketCloses h code reason rnd) (snd (browser_close op rnd h code reason c)) (fst (browser_close op rnd h code reason c))"
proof -
  let ?c = "c\<lparr>bc_sockets := jm_delete (bc_sockets c) h, bc_ws := None, bc_pending := None\<rparr>"
  let ?r = "should_reconnect op (effective_code (bc_pending c) (int code)) ?c"
  let ?kick = "bc_pending c = None \<and> 4000 \<le> code \<and> code < 5000"
  have new: "\<not> jm_has (bc_timers c) (bc_next c)" using assms(1) by (auto simp: client_ok_def)
  have m: "length (bc_sockets c) = Suc (length (jm_delete (bc_sockets c) h))"
    using one_deleted [OF _ assms(2)] assms(1) by (simp add: client_ok_def)
  show ?thesis
  proof (cases ?r)
    case True
    then have "chains (fst (browser_close op rnd h code reason c)) = chains c"
      "failures (snd (browser_close op rnd h code reason c)) = 0"
      "retrying op c \<Longrightarrow> retrying op (fst (browser_close op rnd h code reason c))"
      using assms(2,3) new m
      by (simp_all add: browser_close_def schedule_retry_def Let_def chains_def retrying_def jm_size_set)
    then show ?thesis by (simp add: chained_def)
  next
    case False
    have f: "failures (snd (browser_close op rnd h code reason c)) = (if reconnect_exhausted op ?c then 1 else 0)"
      "fst (browser_close op rnd h code reason c) = ?c"
      using False assms(2) by (simp_all add: browser_close_def Let_def)
    have x: "reconnect_exhausted op ?c" if "retrying op c" "int code \<notin> set no_reconnect_codes" "0 < n"
      using False that assms(3,4)
      by (auto simp: should_reconnect_def reconnect_exhausted_def retrying_def effective_code_def attempts_left_def)
    have "chains ?c + 1 = chains c" using m by (simp add: chains_def)
    with f x show ?thesis by (simp add: chained_def retrying_def)
  qed
qed

lemma timer_chained:
  assumes "client_ok c" "jm_has (bc_timers c) h"
  shows "chained op n c (TimerFires h opens) [] (retry_timer op opens h c)"
proof -
  let ?c = "c\<lparr>bc_timers := jm_delete (bc_timers c) h, bc_timer := None\<rparr>"
  have ok: "client_ok ?c" by (rule drop_ok(2) [OF assms(1)])
  have m: "length (bc_timers c) = Suc (length (jm_delete (bc_timers c) h))"
    using one_deleted [OF _ assms(2)] assms(1) by (simp add: client_ok_def)
  have t: "retry_timer op opens h c = perform_reconnect op opens ?c" using assms(2) by (simp add: retry_timer_def)
  have o': "chains (fst (open_socket op opens k ?c)) = chains ?c + (if opens then 1 else 0)" for k
    using open_counts(2) [OF ok, of op opens k] by (auto simp: counts_def chains_def)
  have r: "retrying op (fst (open_socket op opens k ?c)) = retrying op c" for k
    by (simp add: open_socket_def retrying_def)
  have "chains ?c + 1 = chains c" using m by (simp add: chains_def)
  with o' r show ?thesis unfolding t chained_def
    by (auto simp: perform_reconnect_def retrying_def chains_def split: option.split)
qed

lemma ticket_chained:
  assumes "client_ok c" "0 < bc_fetches c"
  shows "chained op n c (TicketEnds fresh opens) (snd (ticket_ready op opens fresh c)) (fst (ticket_ready op opens fresh c))"
proof -
  obtain f where f: "bc_fetches c = Suc f" using assms(2) by (cases "bc_fetches c") auto
  let ?c = "c\<lparr>bc_fetches := f, bc_ticket := fresh\<rparr>"
  have ok: "client_ok ?c" by (rule drop_ok(5) [OF assms(1)])
  have o': "chains (fst (open_socket op opens k ?c)) = chains ?c + (if opens then 1 else 0)" for k
    using open_counts(2) [OF ok, of op opens k] by (auto simp: counts_def chains_def)
  have r: "retrying op (fst (open_socket op opens k ?c)) = retrying op ?c" for k
    by (simp add: open_socket_def retrying_def)
  have c: "chains c = chains ?c + 1" by (simp add: chains_def f)
  show ?thesis
  proof (cases fresh)
    case None
    then show ?thesis using f by (auto simp: chained_def ticket_ready_def Let_def chains_def retrying_def)
  next
    case (Some t)
    then have "ticket_ready op opens fresh c = (if bc_user c then ?c else fst (open_socket op opens t ?c), [])"
      using f by (simp add: ticket_ready_def Let_def)
    with o' [of t] r [of t] c Some show ?thesis by (auto simp: chained_def retrying_def)
  qed
qed

lemma step_chained:
  assumes "retry_step op c e out c'" "client_ok c" "bo_reconnect op = Some rc" "rcc_max rc = Some n"
  shows "chained op n c e out c'"
  using assms(1) by cases (use assms(2-4) close_chained timer_chained ticket_chained in auto)

lemma run_chained:
  assumes "retry_run op c es out c'" "client_ok c" "bo_reconnect op = Some rc" "rcc_max rc = Some n"
  shows "failures out + chains c' \<le> chains c \<and>
    (0 < n \<and> retrying op c \<and> list_all ordinary es \<longrightarrow> failures out + chains c' = chains c \<and> retrying op c')"
  using assms(1)
proof induction
  case (more es out c' e o' c'')
  have "client_ok c'" using run_retried [OF more.hyps(1) assms(2-4)] by simp
  from step_chained [OF more.hyps(2) this assms(3,4)] more.IH show ?case by (auto simp: chained_def)
qed simp

section \<open>Property\<close>

lemma disconnect_user: "client_ok c \<Longrightarrow> client_ok (fst (browser_disconnect c))" "bc_user (fst (browser_disconnect c))"
  "bc_requests (fst (browser_disconnect c)) = bc_requests c"
  by (auto simp: browser_disconnect_def cancel_reconnect_def Let_def client_ok_def jm_has_delete split: option.split)

text \<open>
  C24: reconnection ends, and says so once. With a limit of n attempts, closes, retry timers and ticket
  calls cannot go on for ever without a socket that opens or a call of the user: the steps are
  well-founded, there are at most four per attempt that is left plus what is under way, and they open at
  most one socket per attempt left and per timer or call under way, also when several sockets or timers
  are around. Every socket, timer and ticket call under way is a chain of retries. In no run are there more
  \<open>client:reconnect_failed\<close> events than chains that ended, so a single connection emits at most one; and
  if n is positive, as long as the user wants the connection, has a ticket, no close is terminal and the platform takes the
  sockets, every chain that ends emits exactly one: a client whose one connection and all its
  retries failed has said so exactly once, and one that is still retrying has not. Once the user has
  disconnected no step opens a socket, whatever timer or ticket call is still to come. A close
  whose code is terminal (the control frame's code when one came) arms no timer.
\<close>

theorem reconnection_terminates:
  assumes "client_ok c" "bo_reconnect op = Some rc" "rcc_max rc = Some n"
  shows "wfP (\<lambda>c'' c'. client_ok c' \<and> (\<exists>e out. retry_step op c' e out c'')) \<and>
    (\<forall>es out c'. retry_run op c es out c' \<longrightarrow> length es \<le> retries_left n c \<and> length (bc_requests c') \<le> sockets_due n c) \<and>
    (\<forall>es out c'. retry_run op c es out c' \<longrightarrow> failures out + chains c' \<le> chains c \<and>
       (0 < n \<and> retrying op c \<and> list_all ordinary es \<longrightarrow> failures out + chains c' = chains c)) \<and>
    (\<forall>es out c'. retry_run op (fst (browser_disconnect c)) es out c' \<longrightarrow> bc_requests c' = bc_requests c) \<and>
    (effective_code (bc_pending c) (int code) \<in> set no_reconnect_codes \<longrightarrow>
       bc_timers (fst (browser_close op rnd h code reason c)) = bc_timers c)"
proof (intro conjI allI impI)
  have "{(c'', c'). client_ok c' \<and> (\<exists>e out. retry_step op c' e out c'')} \<subseteq> measure (retries_left n)"
    using step_retried [OF _ _ assms(2,3)] by (auto simp: retried_def)
  then show "wfP (\<lambda>c'' c'. client_ok c' \<and> (\<exists>e out. retry_step op c' e out c''))"
    unfolding wfp_def by (rule wf_subset [OF wf_measure])
next
  fix es out c' assume r: "retry_run op c es out c'"
  show "length es \<le> retries_left n c" "length (bc_requests c') \<le> sockets_due n c"
    using run_retried [OF r assms] by (auto simp: sockets_due_def [of n c'])
  show "failures out + chains c' \<le> chains c" using run_chained [OF r assms] by blast
  assume "0 < n \<and> retrying op c \<and> list_all ordinary es"
  then show "failures out + chains c' = chains c" using run_chained [OF r assms] by blast
next
  fix es out c' assume r: "retry_run op (fst (browser_disconnect c)) es out c'"
  show "bc_requests c' = bc_requests c"
    using run_retried [OF r disconnect_user(1) [OF assms(1)] assms(2,3)] disconnect_user(2,3) [of c] by simp
next
  assume "effective_code (bc_pending c) (int code) \<in> set no_reconnect_codes"
  then show "bc_timers (fst (browser_close op rnd h code reason c)) = bc_timers c"
    using assms(2) by (simp add: browser_close_def Let_def should_reconnect_def)
qed

definition sample_browser_options :: browser_options where
  "sample_browser_options = \<lparr>bo_reconnect = Some \<lparr>rcc_max = Some 3, rcc_base = 500, rcc_cap = 10000\<rparr>, bo_protocol = False, bo_get_ticket = True\<rparr>"

definition sample_browser :: browser_client where
  "sample_browser = fst (browser_connect sample_browser_options True [] new_browser_client)"

theorem reconnection_terminates_witness:
  "{(length es, length (bc_requests c'), failures out) |es out c'. retry_run sample_browser_options sample_browser es out c'}
      \<subseteq> {..13} \<times> {..4} \<times> {..1} \<and>
   {failures out |es out c'. retry_run sample_browser_options sample_browser es out c' \<and> list_all ordinary es \<and> chains c' = 0} \<subseteq> {1} \<and>
   bc_timers (fst (browser_close sample_browser_options 0 0 4001 [] sample_browser)) = []"
proof -
  have c: "sample_browser = \<lparr>bc_sockets = [(0, \<lparr>bk_open = False, bk_listens = False\<rparr>)], bc_ws = Some 0,
      bc_requests = [\<lparr>hq_query = Some [], hq_protocols = []\<rparr>], bc_ticket = Some [], bc_attempts = 0, bc_timer = None, bc_timers = [],
      bc_fetches = 0, bc_user = False, bc_pending = None, bc_next = 1, bc_sent = []\<rparr>"
    by (simp add: sample_browser_def browser_connect_def new_browser_client_def sample_browser_options_def cancel_reconnect_def
        open_socket_def browser_request_def)
  have k: "client_ok sample_browser" by (simp add: c client_ok_def jm_has_def)
  have v: "retries_left 3 sample_browser = 13" "sockets_due 3 sample_browser = 4" "chains sample_browser = 1"
    "bc_timers sample_browser = []" "bc_pending sample_browser = None" "retrying sample_browser_options sample_browser"
    by (simp_all add: c retries_left_def sockets_due_def chains_def retrying_def)
  have o': "bo_reconnect sample_browser_options = Some \<lparr>rcc_max = Some 3, rcc_base = 500, rcc_cap = 10000\<rparr>"
    by (simp add: sample_browser_options_def)
  have e: "effective_code (bc_pending sample_browser) (int 4001) \<in> set no_reconnect_codes"
    by (simp add: v(5) effective_code_def no_reconnect_codes_def code_invalid_ticket_def)
  note t = reconnection_terminates [OF k o', of 3 4001 0 0 "[]"]
  have "\<forall>es out c'. retry_run sample_browser_options sample_browser es out c' \<longrightarrow> length es \<le> 13 \<and> length (bc_requests c') \<le> 4"
    using t unfolding v(1,2) by simp
  moreover have "\<forall>es out c'. retry_run sample_browser_options sample_browser es out c' \<longrightarrow> failures out + chains c' \<le> 1 \<and>
      (list_all ordinary es \<longrightarrow> failures out + chains c' = 1)"
    using t v(6) unfolding v(3) by simp
  moreover have "bc_timers (fst (browser_close sample_browser_options 0 0 4001 [] sample_browser)) = []"
    using t e unfolding v(4) by simp
  ultimately show ?thesis by fastforce
qed

section \<open>Two sockets\<close>

text \<open>A \<open>connect\<close> while a ticket call is pending opens its own socket; the call's answer opens a second
  one and the first keeps its handlers without being current. When either closes, the client takes itself
  for disconnected.\<close>

lemma connect_during_ticket_call:
  fixes s t :: jsstr
  assumes "client_ok c" "bc_ws c = None" "bc_fetches c = Suc f" "\<not> bo_protocol op"
  defines "c' \<equiv> fst (ticket_ready op True (Some t) (fst (browser_connect op True s c)))"
  shows "length (bc_sockets c') = length (bc_sockets c) + 2" "bc_ws c' = Some (bc_next c + 1)" "jm_has (bc_sockets c') (bc_next c)"
    "bc_ws (fst (browser_close op rnd (bc_next c) code reason c')) = None"
proof -
  have n: "\<not> jm_has (bc_sockets c) (bc_next c)" "\<not> jm_has (bc_sockets c) (Suc (bc_next c))"
    using assms(1) by (auto simp: client_ok_def)
  have "cancel_reconnect c = c\<lparr>bc_timers := bc_timers (cancel_reconnect c), bc_timer := bc_timer (cancel_reconnect c)\<rparr>"
    by (simp add: cancel_reconnect_def split: option.split)
  then obtain ts k where k: "cancel_reconnect c = c\<lparr>bc_timers := ts, bc_timer := k\<rparr>" by blast
  show "length (bc_sockets c') = length (bc_sockets c) + 2" "bc_ws c' = Some (bc_next c + 1)" "jm_has (bc_sockets c') (bc_next c)"
    using n assms(2-4) by (simp_all add: c'_def browser_connect_def k ticket_ready_def open_socket_def jm_size_set jm_has_set)
  then show "bc_ws (fst (browser_close op rnd (bc_next c) code reason c')) = None"
    by (simp add: browser_close_def Let_def schedule_retry_def split: option.split)
qed

end
