(* ===== verification/Client_Rtc.thy ===== *)
theory Client_Rtc
  imports Client_Browser Chunker
begin

text \<open>
  The data-channel client (\<open>node/src/RTCClient.ts\<close>, and where it differs
  \<open>browser/src/RTCClient.ts\<close>): negotiation, frames in both directions, reconnection. A negotiation is
  the index of its negotiator in \<open>pr_tickets\<close>, a data channel an index in \<open>pr_links\<close>; channels and peer
  connections of earlier negotiations still fire their events, a signalling client that was disconnected
  has no listeners left. \<open>connects\<close> says whether the negotiator's \<open>connect\<close> returns, \<open>rnd\<close> is
  \<open>Math.random()\<close>. An operation returns the events it emits, in order.
\<close>

section \<open>State\<close>

record rtc_client_options =
  co_reconnect :: "reconnect_config option"
  co_get_ticket :: bool
  co_topic :: "(jsstr \<Rightarrow> bool) option"  \<comment> \<open>\<open>unreliableTopics\<close>\<close>

record client_link =
  cl_unreliable :: bool
  cl_open :: bool
  cl_gone :: bool
  cl_sent :: "bytes list"

record rtc_client =
  pr_links :: "client_link list"
  pr_channel :: "nat option"
  pr_second :: "nat option"
  pr_negotiator :: "nat option"
  pr_tickets :: "jsstr list"
  pr_left :: "nat list"  \<comment> \<open>the negotiators that were disconnected\<close>
  pr_ticket :: "jsstr option"
  pr_user :: bool
  pr_pending :: "jsval option"
  pr_attempts :: nat
  pr_timer :: "nat option"
  pr_timers :: "(nat, real) jsmap"
  pr_next :: nat
  pr_fetches :: nat
  pr_guard :: bool  \<comment> \<open>\<open>disconnecting\<close>\<close>
  pr_seq :: nat
  pr_inbound :: reassembler

definition new_rtc_client :: "int \<Rightarrow> rtc_client" where
  "new_rtc_client timeout = \<lparr>pr_links = [], pr_channel = None, pr_second = None, pr_negotiator = None, pr_tickets = [],
     pr_left = [], pr_ticket = None, pr_user = False, pr_pending = None, pr_attempts = 0, pr_timer = None, pr_timers = [],
     pr_next = 0, pr_fetches = 0, pr_guard = False, pr_seq = 0, pr_inbound = new_reassembler timeout\<rparr>"

definition link_is_open :: "nat option \<Rightarrow> rtc_client \<Rightarrow> bool" where
  "link_is_open h c \<longleftrightarrow> (case h of None \<Rightarrow> False | Some h \<Rightarrow> h < length (pr_links c) \<and> cl_open (pr_links c ! h))"

definition rtc_connected :: "rtc_client \<Rightarrow> bool" where
  "rtc_connected c \<longleftrightarrow> link_is_open (pr_channel c) c"

section \<open>Negotiations\<close>

text \<open>The result says whether \<open>negotiator.connect\<close> threw; the negotiator is recorded before.\<close>

definition start_negotiation :: "bool \<Rightarrow> jsstr \<Rightarrow> rtc_client \<Rightarrow> rtc_client \<times> bool" where
  "start_negotiation connects ticket c =
     (c\<lparr>pr_guard := False, pr_seq := 0, pr_inbound := ra_clear (pr_inbound c), pr_negotiator := Some (length (pr_tickets c)),
        pr_tickets := pr_tickets c @ [ticket]\<rparr>, \<not> connects)"

definition close_negotiation :: "rtc_client \<Rightarrow> rtc_client" where
  "close_negotiation c = (case pr_negotiator c of
     None \<Rightarrow> c | Some a \<Rightarrow> c\<lparr>pr_negotiator := None, pr_left := pr_left c @ [a]\<rparr>)"

definition cancel_retry :: "rtc_client \<Rightarrow> rtc_client" where
  "cancel_retry c = (case pr_timer c of
     None \<Rightarrow> c | Some h \<Rightarrow> c\<lparr>pr_timers := jm_delete (pr_timers c) h, pr_timer := None\<rparr>)"

definition rtc_connect :: "bool \<Rightarrow> jsstr \<Rightarrow> rtc_client \<Rightarrow> rtc_client \<times> bool" where
  "rtc_connect connects ticket c =
     (if pr_negotiator c \<noteq> None \<or> pr_channel c \<noteq> None then (c, False)
      else start_negotiation connects ticket ((cancel_retry c)\<lparr>pr_user := False, pr_attempts := 0, pr_ticket := Some ticket\<rparr>))"

definition rtc_disconnect :: "rtc_client \<Rightarrow> rtc_client \<times> client_event list" where
  "rtc_disconnect c =
     (let c = (cancel_retry (c\<lparr>pr_user := True\<rparr>))\<lparr>pr_ticket := None, pr_pending := None\<rparr>;
          active = (pr_negotiator c \<noteq> None \<or> pr_channel c \<noteq> None);
          c = close_negotiation (c\<lparr>pr_guard := True, pr_channel := None, pr_second := None, pr_inbound := ra_clear (pr_inbound c)\<rparr>)
      in (c, if active then [(ev_disconnect, BytesArg (text_encode (js ''terminated'')))] else []))"

section \<open>Sending\<close>

definition client_send :: "nat \<Rightarrow> bytes list \<Rightarrow> rtc_client \<Rightarrow> rtc_client" where
  "client_send h bs c =
     c\<lparr>pr_links := (pr_links c)[h := (pr_links c ! h)\<lparr>cl_sent := cl_sent (pr_links c ! h) @ (if cl_open (pr_links c ! h) then bs else [])\<rparr>]\<rparr>"

text \<open>The result says whether the call threw.\<close>

definition rtc_client_send :: "rtc_client_options \<Rightarrow> jsstr \<Rightarrow> bytes \<Rightarrow> rtc_client \<Rightarrow> rtc_client \<times> bool" where
  "rtc_client_send op topic payload c =
     (case pr_channel c of
        None \<Rightarrow> (c, False)
      | Some h \<Rightarrow>
          (if \<not> link_is_open (pr_channel c) c then (c, False)
           else case message_encode topic payload of
             Inl _ \<Rightarrow> (c, True)
           | Inr frame \<Rightarrow>
               (if link_is_open (pr_second c) c \<and> (case co_topic op of None \<Rightarrow> False | Some matches \<Rightarrow> matches topic)
                then (if length frame \<le> rtc_max_frame_bytes then client_send (the (pr_second c)) [frame] c else c, False)
                else if length frame \<le> rtc_max_frame_bytes then (client_send h [frame] c, False)
                else let (seq, bufs) = rtc_send (pr_seq c) frame in (client_send h bufs (c\<lparr>pr_seq := seq\<rparr>), False))))"

section \<open>Reconnecting\<close>

definition retries_open :: "reconnect_config \<Rightarrow> rtc_client \<Rightarrow> bool" where
  "retries_open rc c \<longleftrightarrow> (case rcc_max rc of None \<Rightarrow> True | Some m \<Rightarrow> pr_attempts c < m)"

definition rtc_should_reconnect :: "rtc_client_options \<Rightarrow> int \<Rightarrow> rtc_client \<Rightarrow> bool" where
  "rtc_should_reconnect op code c = (case co_reconnect op of
     None \<Rightarrow> False
   | Some rc \<Rightarrow> \<not> pr_user c \<and> \<not> (pr_ticket c = None \<and> \<not> co_get_ticket op) \<and>
       code \<notin> set no_reconnect_codes \<and> retries_open rc c)"

definition rtc_exhausted :: "rtc_client_options \<Rightarrow> rtc_client \<Rightarrow> bool" where
  "rtc_exhausted op c = (case co_reconnect op of
     None \<Rightarrow> False
   | Some rc \<Rightarrow> \<not> pr_user c \<and> pr_attempts c \<noteq> 0 \<and> \<not> retries_open rc c)"

definition rtc_schedule :: "rtc_client_options \<Rightarrow> real \<Rightarrow> rtc_client \<Rightarrow> rtc_client \<times> client_event list" where
  "rtc_schedule op rnd c = (case co_reconnect op of
     None \<Rightarrow> (c, [])
   | Some rc \<Rightarrow>
       (let delay = compute_backoff rc rnd (pr_attempts c); c = c\<lparr>pr_attempts := pr_attempts c + 1\<rparr>
        in (c\<lparr>pr_timer := Some (pr_next c), pr_timers := jm_set (pr_timers c) (pr_next c) delay, pr_next := pr_next c + 1\<rparr>,
            [(ev_reconnecting, BytesArg (text_encode (decimal (pr_attempts c))))])))"

definition trigger_disconnect :: "rtc_client_options \<Rightarrow> real \<Rightarrow> rtc_client \<Rightarrow> rtc_client \<times> client_event list" where
  "trigger_disconnect op rnd c =
     (if pr_guard c then (c, [])
      else
        let c = close_negotiation (c\<lparr>pr_guard := True, pr_channel := None, pr_second := None\<rparr>)
        in if pr_user c then (c, [])
           else
             let pending = pr_pending c; c = c\<lparr>pr_pending := None\<rparr>; evs = [(ev_disconnect, BytesArg [])]
             in if rtc_should_reconnect op (effective_code pending 1000) c
                then (let (c, more) = rtc_schedule op rnd c in (c, evs @ more))
                else (c, evs @ (if rtc_exhausted op c then [(ev_reconnect_failed, NoArg)] else [])))"

definition rtc_retry :: "rtc_client_options \<Rightarrow> bool \<Rightarrow> rtc_client \<Rightarrow> rtc_client" where
  "rtc_retry op connects c =
     (if pr_user c then c
      else if co_get_ticket op then c\<lparr>pr_fetches := pr_fetches c + 1\<rparr>
      else case pr_ticket c of None \<Rightarrow> c | Some t \<Rightarrow> fst (start_negotiation connects t c))"

definition rtc_retry_timer :: "rtc_client_options \<Rightarrow> bool \<Rightarrow> nat \<Rightarrow> rtc_client \<Rightarrow> rtc_client" where
  "rtc_retry_timer op connects h c =
     (if \<not> jm_has (pr_timers c) h then c
      else rtc_retry op connects (c\<lparr>pr_timers := jm_delete (pr_timers c) h, pr_timer := None\<rparr>))"

text \<open>A \<open>getTicket\<close> call ends: with a ticket, or it failed or gave something else.\<close>

definition rtc_ticket_ready :: "bool \<Rightarrow> jsstr option \<Rightarrow> rtc_client \<Rightarrow> rtc_client \<times> client_event list" where
  "rtc_ticket_ready connects fresh c =
     (if pr_fetches c = 0 then (c, [])
      else
        let c = c\<lparr>pr_fetches := pr_fetches c - 1\<rparr>
        in case fresh of
             None \<Rightarrow> (c, [(ev_error, ErrorArg), (ev_reconnect_failed, NoArg)])
           | Some t \<Rightarrow>
               (let c = c\<lparr>pr_ticket := Some t\<rparr>
                in (if pr_user c then c else fst (start_negotiation connects t c), [])))"

section \<open>Events of the platform\<close>

definition signal_live :: "nat \<Rightarrow> rtc_client \<Rightarrow> bool" where
  "signal_live a c \<longleftrightarrow> a < length (pr_tickets c) \<and> a \<notin> set (pr_left c)"

definition signal_kicked :: "nat \<Rightarrow> int \<Rightarrow> event_arg \<Rightarrow> rtc_client \<Rightarrow> rtc_client \<times> client_event list" where
  "signal_kicked a code info c =
     (if \<not> signal_live a c then (c, []) else (c\<lparr>pr_pending := Some (JNum code)\<rparr>, [(ev_kicked, info)]))"

definition signal_error :: "nat \<Rightarrow> rtc_client \<Rightarrow> client_event list" where
  "signal_error a c = (if signal_live a c then [(ev_error, ErrorArg)] else [])"

definition signal_gone :: "rtc_client_options \<Rightarrow> real \<Rightarrow> nat \<Rightarrow> rtc_client \<Rightarrow> rtc_client \<times> client_event list" where
  "signal_gone op rnd a c =
     (if \<not> signal_live a c \<or> pr_channel c \<noteq> None then (c, []) else trigger_disconnect op rnd c)"

definition rtc_channel_open :: "bool \<Rightarrow> nat \<Rightarrow> rtc_client \<Rightarrow> rtc_client \<times> client_event list" where
  "rtc_channel_open unreliable a c =
     (if \<not> signal_live a c then (c, [])
      else
        let h = length (pr_links c);
            k = \<lparr>cl_unreliable = unreliable, cl_open = True, cl_gone = False, cl_sent = []\<rparr>
        in if unreliable then (c\<lparr>pr_links := pr_links c @ [k], pr_second := Some h\<rparr>, [])
           else (client_send h [text_encode (pr_tickets c ! a)] (c\<lparr>pr_links := pr_links c @ [k], pr_channel := Some h\<rparr>), [(ev_connect, NoArg)]))"

text \<open>\<open>None\<close> is a throw.\<close>

definition dispatch_frame :: "bytes \<Rightarrow> rtc_client \<Rightarrow> (rtc_client \<times> client_event list) option" where
  "dispatch_frame frame c = (case message_decode frame of
     Inl _ \<Rightarrow> None
   | Inr v \<Rightarrow>
       (case get_prop v (js ''topic'') of
          JStr topic \<Rightarrow>
            (if topic = close_control_topic then
               (case get_prop v (js ''payload'') of
                  JBytes b \<Rightarrow> (case decode_close_frame b of
                      Inl _ \<Rightarrow> None
                    | Inr k \<Rightarrow>
                        Some (c\<lparr>pr_pending := Some (get_prop k (js ''code''))\<rparr>,
                          [(ev_kicked, ValueArg (JObj [(js ''code'', get_prop k (js ''code'')),
                                                        (js ''reason'', get_prop k (js ''reason''))]))]))
                | _ \<Rightarrow> None)
             else if topic = chunk_control_topic then Some (c, [])
             else Some (c, [(topic, property_arg (get_prop v (js ''payload'')))]))
        | _ \<Rightarrow> Some (c, [])))"

definition client_frame :: "bytes \<Rightarrow> rtc_client \<Rightarrow> (rtc_client \<times> client_event list) option" where
  "client_frame buf c =
     (if \<not> is_chunk_frame buf then dispatch_frame buf c
      else case message_decode buf of
        Inl _ \<Rightarrow> None
      | Inr v \<Rightarrow>
          (case get_prop v (js ''payload'') of
             JBytes payload \<Rightarrow>
               (case decode_chunk_payload payload of
                  None \<Rightarrow> Some (c, [])
                | Some k \<Rightarrow>
                    (let (r, out) = ra_feed (pr_inbound c) k; c = c\<lparr>pr_inbound := r\<rparr>
                     in case out of None \<Rightarrow> Some (c, []) | Some m \<Rightarrow> dispatch_frame m c))
           | _ \<Rightarrow> None))"

text \<open>A message of any channel the client has listened on.\<close>

definition client_message :: "bytes \<Rightarrow> nat \<Rightarrow> rtc_client \<Rightarrow> (rtc_client \<times> client_event list) option" where
  "client_message buf h c =
     (if h < length (pr_links c) \<and> \<not> cl_gone (pr_links c ! h) then client_frame buf c else Some (c, []))"

definition client_link_closed :: "rtc_client_options \<Rightarrow> real \<Rightarrow> nat \<Rightarrow> rtc_client \<Rightarrow> rtc_client \<times> client_event list" where
  "client_link_closed op rnd h c =
     (if \<not> h < length (pr_links c) \<or> cl_gone (pr_links c ! h) then (c, [])
      else
        let k = pr_links c ! h; c = c\<lparr>pr_links := (pr_links c)[h := k\<lparr>cl_open := False, cl_gone := True\<rparr>]\<rparr>
        in if cl_unreliable k then (c\<lparr>pr_second := None\<rparr>, []) else trigger_disconnect op rnd c)"

text \<open>A peer connection changes its state; the callback does not say of which negotiation it is.\<close>

definition client_peer_state :: "rtc_client_options \<Rightarrow> real \<Rightarrow> jsstr \<Rightarrow> rtc_client \<Rightarrow> rtc_client \<times> client_event list" where
  "client_peer_state op rnd state c =
     (if state \<in> {js ''disconnected'', js ''failed'', js ''closed''} then trigger_disconnect op rnd c else (c, []))"

section \<open>The browser copy\<close>

text \<open>It has one channel, does not reassemble chunks and does not split frames.\<close>

definition browser_rtc_frame :: "bytes \<Rightarrow> rtc_client \<Rightarrow> (rtc_client \<times> client_event list) option" where
  "browser_rtc_frame frame c = (case message_decode frame of
     Inl _ \<Rightarrow> None
   | Inr v \<Rightarrow>
       (case get_prop v (js ''topic'') of
          JStr topic \<Rightarrow>
            (if topic = close_control_topic then
               (case get_prop v (js ''payload'') of
                  JBytes b \<Rightarrow> (case decode_close_frame b of
                      Inl _ \<Rightarrow> None
                    | Inr k \<Rightarrow>
                        Some (c\<lparr>pr_pending := Some (get_prop k (js ''code''))\<rparr>,
                          [(ev_kicked, ValueArg (JObj [(js ''code'', get_prop k (js ''code'')),
                                                        (js ''reason'', get_prop k (js ''reason''))]))]))
                | _ \<Rightarrow> None)
             else Some (c, [(topic, property_arg (get_prop v (js ''payload'')))]))
        | _ \<Rightarrow> Some (c, [])))"

definition browser_rtc_send :: "jsstr \<Rightarrow> bytes \<Rightarrow> rtc_client \<Rightarrow> rtc_client" where
  "browser_rtc_send topic payload c =
     (case pr_channel c of
        None \<Rightarrow> c
      | Some h \<Rightarrow>
          (if \<not> link_is_open (pr_channel c) c then c
           else case message_encode topic payload of Inl _ \<Rightarrow> c | Inr frame \<Rightarrow> client_send h [frame] c))"

end
