(* ===== verification/Client_Rtc_Props.thy ===== *)
theory Client_Rtc_Props
  imports Client_Rtc
begin

text \<open>
  What the data-channel client receives, how often it negotiates and when it stops. The last section
  holds the scenarios in which it differs from what its comments promise.
\<close>

section \<open>Receiving\<close>

fun client_frames :: "bytes list \<Rightarrow> rtc_client \<Rightarrow> (rtc_client \<times> client_event list) option" where
  "client_frames [] c = Some (c, [])"
| "client_frames (b # bs) c = (case client_frame b c of
     None \<Rightarrow> None
   | Some (c, evs) \<Rightarrow> (case client_frames bs c of None \<Rightarrow> None | Some (c, evs') \<Rightarrow> Some (c, evs @ evs')))"

text \<open>A message of the application: its topic is not one of the two reserved ones.\<close>

definition user_message :: "jsstr \<times> bytes \<Rightarrow> bool" where
  "user_message m \<longleftrightarrow> message_sendable m \<and> length (message_bytes (fst m) (snd m)) \<le> 255 * chunk_data_bytes \<and>
     text_encode (fst m) \<noteq> text_encode chunk_control_topic \<and> fst m \<noteq> close_control_topic"

lemma get_message: "get_prop (message_object t p) (js ''topic'') = JStr t" "get_prop (message_object t p) (js ''payload'') = JBytes p"
  by (simp_all add: message_object_def get_prop_def js_eval)

lemma user_frame:
  assumes "user_message (t, p)"
  shows "dispatch_frame (message_bytes t p) c = Some (c, [(t, BytesArg p)])" "\<not> is_chunk_frame (message_bytes t p)"
proof -
  have m: "message_decode (message_bytes t p) = Inr (message_object t p)" and l: "length (text_encode t) < 2 ^ 53"
    and t: "t \<noteq> close_control_topic" "t \<noteq> chunk_control_topic"
    using assms message_encode_decode(2) by (auto simp: user_message_def message_sendable_def message_bytes_def spec_len_def)
  then show "dispatch_frame (message_bytes t p) c = Some (c, [(t, BytesArg p)])"
    by (simp add: dispatch_frame_def get_message property_arg_def)
  show "\<not> is_chunk_frame (message_bytes t p)"
    using assms message_is_chunk [OF l] by (simp add: user_message_def)
qed

lemma client_chunk:
  assumes "seq < 65536" "tot < 256" "i < 256"
  shows "client_frame (chunk_msg frame seq tot i) c =
    (case ra_feed (pr_inbound c) \<lparr>ck_seq = seq, ck_total = tot, ck_index = i, ck_data = chunk_piece frame i\<rparr> of
       (r, None) \<Rightarrow> Some (c\<lparr>pr_inbound := r\<rparr>, [])
     | (r, Some m) \<Rightarrow> dispatch_frame m (c\<lparr>pr_inbound := r\<rparr>))"
  by (simp add: client_frame_def chunk_msg_received [OF assms] get_message Let_def case_prod_beta split: option.split)

lemma client_chunks:
  assumes "seq < 65536" "tot < 256" "user_message (t, p)"
    and whole: "concat (map (chunk_piece frame) [0..<tot]) = message_bytes t p"
  shows "i < tot \<Longrightarrow> ra_partial frame seq tot i (ra_begin seq tot (pr_inbound c)) \<Longrightarrow>
    \<exists>r. ra_seq r = - 1 \<and> client_frames (map (chunk_msg frame seq tot) [i..<tot] @ rest) c =
      map_option (\<lambda>(c, evs). (c, (t, BytesArg p) # evs)) (client_frames rest (c\<lparr>pr_inbound := r\<rparr>))"
proof (induction "tot - i" arbitrary: i c)
  case (Suc k)
  have upt: "[i..<tot] = i # [Suc i..<tot]" using Suc.prems(1) by (simp add: upt_conv_Cons)
  let ?c = "\<lparr>ck_seq = seq, ck_total = tot, ck_index = i, ck_data = chunk_piece frame i\<rparr>"
  obtain r out where f: "ra_feed (pr_inbound c) ?c = (r, out)" by (cases "ra_feed (pr_inbound c) ?c")
  have i: "i < 256" using Suc.prems(1) assms(2) by simp
  note step = client_chunk [OF assms(1,2) i, of frame c] and feed = ra_feed_next [OF Suc.prems(2,1) refl]
  show ?case
  proof (cases "Suc i < tot")
    case True
    with feed f have out: "out = None" and r: "ra_partial frame seq tot (Suc i) r" by auto
    then have "ra_partial frame seq tot (Suc i) (ra_begin seq tot (pr_inbound (c\<lparr>pr_inbound := r\<rparr>)))" by (simp add: ra_begin_same)
    moreover have "k = tot - Suc i" using Suc.hyps(2) by simp
    ultimately obtain q where "ra_seq q = - 1"
      "client_frames (map (chunk_msg frame seq tot) [Suc i..<tot] @ rest) (c\<lparr>pr_inbound := r\<rparr>) =
        map_option (\<lambda>(c, evs). (c, (t, BytesArg p) # evs)) (client_frames rest (c\<lparr>pr_inbound := q\<rparr>))"
      using Suc.hyps(1) [of "Suc i" "c\<lparr>pr_inbound := r\<rparr>"] True by auto
    then show ?thesis by (intro exI [of _ q]) (simp add: upt step f out option.map_comp comp_def case_prod_beta split: option.split)
  next
    case False
    with feed f have out: "out = Some (message_bytes t p)" and r: "ra_seq r = - 1" using whole by auto
    from False Suc.prems(1) have e: "[i..<tot] = [i]" unfolding upt by simp
    show ?thesis using r user_frame(1) [OF assms(3)]
      by (intro exI [of _ r]) (simp add: e step f out case_prod_beta split: option.split)
  qed
qed simp

text \<open>The frames a host sends over the channel, split where they are too long, come out as one event each,
  in order and unchanged; nothing but the reassembler changes.\<close>

lemma host_stream_reaches_listeners:
  "list_all user_message ms \<Longrightarrow> seq < 65536 \<Longrightarrow> ra_seq (pr_inbound c) = - 1 \<Longrightarrow>
   \<exists>r. client_frames (rtc_send_all seq (map (\<lambda>(t, p). message_bytes t p) ms)) c =
     Some (c\<lparr>pr_inbound := r\<rparr>, map (\<lambda>(t, p). (t, BytesArg p)) ms)"
proof (induction ms arbitrary: seq c)
  case (Cons m ms)
  obtain t p where tp: "m = (t, p)" by (cases m)
  let ?f = "message_bytes t p" and ?rest = "\<lambda>seq. rtc_send_all seq (map (\<lambda>(t, p). message_bytes t p) ms)"
  have m: "user_message (t, p)" "list_all user_message ms" using Cons.prems(1) tp by simp_all
  note u = user_frame [OF m(1)]
  show ?case
  proof (cases "length ?f \<le> rtc_max_frame_bytes")
    case True
    with u Cons.IH [OF m(2) Cons.prems(2,3)] show ?thesis by (auto simp: tp rtc_send_def client_frame_def)
  next
    case False
    then have "?f \<noteq> []" by auto
    moreover have l: "length ?f \<le> 255 * chunk_data_bytes" using m(1) by (simp add: user_message_def)
    ultimately have tot: "chunk_total ?f \<le> 255" "0 < chunk_total ?f" using chunk_total_bounds by blast+
    have s: "rtc_send seq ?f = ((seq + 1) mod 65536, map (chunk_msg ?f seq (chunk_total ?f)) [0..<chunk_total ?f])"
      using False tot l by (simp add: rtc_send_def chunk_frame_def Let_def chunk_loop_eq)
    have part: "ra_partial ?f seq (chunk_total ?f) 0 (ra_begin seq (chunk_total ?f) (pr_inbound c))"
      using Cons.prems by (intro ra_begin_new) simp
    have whole: "concat (map (chunk_piece ?f) [0..<chunk_total ?f]) = ?f" by (rule pieces_join)
    have less: "chunk_total ?f < 256" using tot by simp
    obtain q where q: "ra_seq q = - 1" "client_frames (map (chunk_msg ?f seq (chunk_total ?f)) [0..<chunk_total ?f] @ ?rest ((seq + 1) mod 65536)) c =
        map_option (\<lambda>(c, evs). (c, (t, BytesArg p) # evs)) (client_frames (?rest ((seq + 1) mod 65536)) (c\<lparr>pr_inbound := q\<rparr>))"
      using client_chunks [OF Cons.prems(2) less m(1) whole tot(2) part] by blast
    with Cons.IH [OF m(2), of "(seq + 1) mod 65536" "c\<lparr>pr_inbound := q\<rparr>"] show ?thesis
      by (auto simp: tp s)
  qed
next
  case Nil
  show ?case by (intro exI [of _ "pr_inbound c"]) simp
qed

section \<open>Property\<close>

text \<open>What a client sends on its open reliable channel is what the host's own sending puts there.\<close>

lemma client_sends:
  assumes "user_message m" "co_topic op = None" "pr_channel d = Some h" "link_is_open (Some h) d"
  shows "rtc_client_send op (fst m) (snd m) d =
    (client_send h (snd (rtc_send (pr_seq d) (message_bytes (fst m) (snd m))))
      (d\<lparr>pr_seq := fst (rtc_send (pr_seq d) (message_bytes (fst m) (snd m)))\<rparr>), False)"
proof -
  have "message_encode (fst m) (snd m) = Inr (message_bytes (fst m) (snd m))"
    using assms(1) message_encode_decode(1) [of "fst m" "snd m"] by (simp add: user_message_def)
  then show ?thesis using assms(2-4) by (simp add: rtc_client_send_def rtc_send_def case_prod_beta)
qed

lemma start_fresh: "ra_seq (pr_inbound (fst (start_negotiation connects t c))) = - 1"
  by (simp add: start_negotiation_def ra_clear_def ra_reset_def)

text \<open>
  C8: a data channel carries every stream of messages intact, in both directions. From the start of a
  negotiation, whatever mix of small frames (sent as they are) and frames up to 255 chunks (split) a host
  sends, its client emits one event per message, topic and payload unchanged and in order; what
  the client sends is framed and split the same way, and the host hands over exactly the frames that
  were sent, in order, from any sequence number; no side puts more than 16 KiB in one buffer.
\<close>

theorem channel_streams_intact:
  assumes "list_all user_message ms" "seq < 65536" "list_all (sendable_frame cap) fs" "ra_seq r = - 1"
  shows "(\<exists>q. client_frames (rtc_send_all seq (map (\<lambda>(t, p). message_bytes t p) ms)) (fst (start_negotiation connects ticket c)) =
      Some ((fst (start_negotiation connects ticket c))\<lparr>pr_inbound := q\<rparr>, map (\<lambda>(t, p). (t, BytesArg p)) ms)) \<and>
    (\<forall>m op d h. m \<in> set ms \<and> co_topic op = None \<and> pr_channel d = Some h \<and> link_is_open (Some h) d \<longrightarrow>
      rtc_client_send op (fst m) (snd m) d =
        (client_send h (snd (rtc_send (pr_seq d) (message_bytes (fst m) (snd m))))
          (d\<lparr>pr_seq := fst (rtc_send (pr_seq d) (message_bytes (fst m) (snd m)))\<rparr>), False)) \<and>
    snd (rtc_receive_all cap r (rtc_send_all seq fs)) = fs \<and>
    list_all (\<lambda>b. length b \<le> rtc_max_frame_bytes) (rtc_send_all seq fs)"
  using host_stream_reaches_listeners [OF assms(1,2) start_fresh] client_sends assms(1) rtc_delivery [OF assms(3,2,4)] rtc_send_lengths
  by (auto simp: list_all_iff)

theorem channel_streams_intact_witness:
  "(\<exists>d. client_frames (rtc_send_all 65535 [message_bytes (js ''m'') (replicate 17000 7), message_bytes (js ''n'') [1]])
      (fst (start_negotiation True (js ''t'') (new_rtc_client 5000))) =
      Some (d, [(js ''m'', BytesArg (replicate 17000 7)), (js ''n'', BytesArg [1])])) \<and>
   snd (rtc_receive_all 20000 (new_reassembler 5000) (rtc_send_all 65535 [replicate 17000 7, [1, 2]])) =
     [replicate 17000 7, [1, 2]]"
proof -
  have "hd (take 17 (replicate 17000 (7 :: byte))) = 7" by simp
  moreover have "hd chunk_frame_prefix = 0x0A" by (simp add: chunk_prefix)
  ultimately have "\<not> is_chunk_frame (replicate 17000 7)"
    unfolding is_chunk_frame_take by (auto dest: arg_cong [where f = hd])
  then have fs: "list_all (sendable_frame 20000) [replicate 17000 7, [1, 2]]"
    by (simp add: sendable_frame_def chunk_data_bytes_val is_chunk_frame_def)
  have small: "user_message (js [x], p)" if "length p \<le> 17000" "x = CHR ''m'' \<or> x = CHR ''n''" for x p
  proof -
    have "length (varint_bytes (length p)) \<le> 3" using varint_bytes_length [of "length p" 2] that(1) by simp
    moreover have "length (text_encode (js [x])) = 1" "wire_safe (js [x])" "js [x] \<noteq> close_control_topic"
      using that(2) by (auto simp: encode_eval conforms_eval close_control_topic_def js_def)
    moreover from this(1) have "text_encode (js [x]) \<noteq> text_encode chunk_control_topic"
      unfolding chunk_topic_bytes by auto
    ultimately show ?thesis using that(1)
      by (simp add: user_message_def message_sendable_def message_bytes_def spec_len_def varint_bytes_small chunk_data_bytes_val)
  qed
  then have ms: "list_all user_message [(js ''m'', replicate 17000 7), (js ''n'', [1])]" by simp
  have "ra_seq (new_reassembler 5000) = - 1" by (simp add: new_reassembler_def)
  from channel_streams_intact [OF ms _ fs this, of 65535 True "js ''t''" "new_rtc_client 5000"] show ?thesis
    by (simp del: rtc_receive_all.simps rtc_send_all.simps) blast
qed

section \<open>How often it negotiates\<close>

text \<open>Everything that can happen to a client except a \<open>connect\<close> of the user.\<close>

inductive client_step :: "rtc_client_options \<Rightarrow> rtc_client \<Rightarrow> rtc_client \<Rightarrow> bool" for op where
  closed: "client_step op c (fst (client_link_closed op rnd h c))"
| peer: "client_step op c (fst (client_peer_state op rnd st c))"
| gone: "client_step op c (fst (signal_gone op rnd a c))"
| kicked: "client_step op c (fst (signal_kicked a code info c))"
| opened: "client_step op c (fst (rtc_channel_open unreliable a c))"
| message: "client_message buf h c = Some (c', evs) \<Longrightarrow> client_step op c c'"
| send: "client_step op c (fst (rtc_client_send op topic payload c))"
| timer: "client_step op c (rtc_retry_timer op connects h c)"
| ticket: "client_step op c (fst (rtc_ticket_ready connects fresh c))"
| disconnect: "client_step op c (fst (rtc_disconnect c))"

definition rtc_client_ok :: "rtc_client \<Rightarrow> bool" where
  "rtc_client_ok c \<longleftrightarrow> jm_ok (pr_timers c) \<and> (\<forall>h. jm_has (pr_timers c) h \<longrightarrow> h < pr_next c)"

text \<open>Negotiations that were started, and those that timers, ticket calls and attempts may still start.\<close>

definition negotiations_due :: "nat \<Rightarrow> rtc_client \<Rightarrow> nat" where
  "negotiations_due n c = length (pr_tickets c) + length (pr_timers c) + pr_fetches c + (n - pr_attempts c)"

definition retry_view :: "rtc_client \<Rightarrow> (nat, real) jsmap \<times> nat \<times> nat \<times> nat \<times> jsstr list" where
  "retry_view c = (pr_timers c, pr_next c, pr_fetches c, pr_attempts c, pr_tickets c)"

definition retry_kept :: "nat \<Rightarrow> rtc_client \<Rightarrow> rtc_client \<Rightarrow> bool" where
  "retry_kept n c c' \<longleftrightarrow> (rtc_client_ok c \<longrightarrow> rtc_client_ok c' \<and> negotiations_due n c' \<le> negotiations_due n c \<and> pr_attempts c \<le> pr_attempts c')"

lemma retry_same: "retry_view c' = retry_view c \<Longrightarrow> retry_kept n c c'"
  by (simp add: retry_kept_def retry_view_def rtc_client_ok_def negotiations_due_def)

lemma retry_trans: "retry_kept n c c' \<Longrightarrow> retry_kept n c' c'' \<Longrightarrow> retry_kept n c c''"
  by (auto simp: retry_kept_def)

lemma close_view: "retry_view (close_negotiation c) = retry_view c"
  by (simp add: close_negotiation_def retry_view_def split: option.split)

lemma cancel_kept: "retry_kept n c (cancel_retry c)"
  by (auto simp: cancel_retry_def retry_kept_def rtc_client_ok_def negotiations_due_def jm_has_delete jm_size_delete split: option.split)

lemma start_kept:
  assumes "length (pr_timers c) + pr_fetches c < length (pr_timers b) + pr_fetches b" "pr_tickets c = pr_tickets b"
    "pr_attempts c = pr_attempts b" "rtc_client_ok b \<Longrightarrow> rtc_client_ok c"
  shows "retry_kept n b (fst (start_negotiation connects t c))"
  using assms by (auto simp: start_negotiation_def retry_kept_def rtc_client_ok_def negotiations_due_def)

lemma trigger_kept:
  assumes "co_reconnect op = Some rc" "rcc_max rc = Some n"
  shows "retry_kept n c (fst (trigger_disconnect op rnd c))"
proof -
  let ?d = "(close_negotiation (c\<lparr>pr_guard := True, pr_channel := None, pr_second := None\<rparr>))\<lparr>pr_pending := None\<rparr>"
  have v: "retry_view ?d = retry_view c"
    using close_view [of "c\<lparr>pr_guard := True, pr_channel := None, pr_second := None\<rparr>"] by (simp add: retry_view_def)
  have "retry_kept n ?d (fst (rtc_schedule op rnd ?d))" if "pr_attempts ?d < n"
    using that assms(1) by (auto simp: rtc_schedule_def retry_kept_def rtc_client_ok_def negotiations_due_def jm_has_set jm_size_set
        intro: less_SucI)
  moreover have "pr_attempts ?d < n" if "rtc_should_reconnect op code ?d" for code
    using that assms by (simp add: rtc_should_reconnect_def retries_open_def)
  ultimately have "retry_kept n c (fst (rtc_schedule op rnd ?d))" if "rtc_should_reconnect op code ?d" for code
    using that retry_trans [OF retry_same [OF v]] by blast
  moreover have "retry_kept n c ?d" by (rule retry_same [OF v])
  moreover have "retry_kept n c (close_negotiation (c\<lparr>pr_guard := True, pr_channel := None, pr_second := None\<rparr>))"
    by (rule retry_same) (simp add: close_view, simp add: retry_view_def)
  ultimately show ?thesis
    by (simp add: trigger_disconnect_def Let_def case_prod_beta) (simp add: retry_same)
qed

lemma dispatch_view: "dispatch_frame m c = Some (c', evs) \<Longrightarrow> retry_view c' = retry_view c"
  by (auto simp: dispatch_frame_def retry_view_def split: sum.splits jsval.splits if_splits)

lemma frame_view: "client_frame buf c = Some (c', evs) \<Longrightarrow> retry_view c' = retry_view c"
  using dispatch_view [of _ _ c' evs]
  by (fastforce simp: client_frame_def Let_def retry_view_def split: sum.splits jsval.splits option.splits prod.splits if_splits)

lemma retry_run_kept:
  assumes "jm_has (pr_timers c) h" shows "retry_kept n c (rtc_retry_timer op connects h c)"
proof -
  let ?d = "c\<lparr>pr_timers := jm_delete (pr_timers c) h, pr_timer := None\<rparr>"
  have "0 < length (pr_timers c)" using assms by (cases "pr_timers c") auto
  then have l: "length (jm_delete (pr_timers c) h) < length (pr_timers c)" if "rtc_client_ok c"
    using that assms by (simp add: rtc_client_ok_def jm_size_delete)
  have ok: "rtc_client_ok c \<Longrightarrow> rtc_client_ok ?d" by (simp add: rtc_client_ok_def jm_has_delete)
  have f: "retry_kept n c (?d\<lparr>pr_fetches := pr_fetches c + 1\<rparr>)" "retry_kept n c ?d"
    using l ok by (auto simp: retry_kept_def rtc_client_ok_def negotiations_due_def)
  have st: "retry_kept n c (fst (start_negotiation connects t ?d))" for t
  proof (cases "rtc_client_ok c")
    case True
    with l ok show ?thesis by (intro start_kept) simp_all
  qed (simp add: retry_kept_def)
  show ?thesis using assms f st by (simp add: rtc_retry_timer_def rtc_retry_def split: option.split)
qed

lemma ticket_kept: "retry_kept n c (fst (rtc_ticket_ready connects fresh c))"
proof (cases "pr_fetches c")
  case 0
  then show ?thesis by (simp add: rtc_ticket_ready_def retry_same)
next
  case (Suc f)
  have d: "retry_kept n c (c\<lparr>pr_fetches := f\<rparr>)" "retry_kept n c (c\<lparr>pr_fetches := f, pr_ticket := t\<rparr>)" for t
    using Suc by (simp_all add: retry_kept_def rtc_client_ok_def negotiations_due_def)
  have "retry_kept n c (fst (start_negotiation connects u (c\<lparr>pr_fetches := f, pr_ticket := t\<rparr>)))" for t u
    using Suc by (intro start_kept) (simp_all add: rtc_client_ok_def)
  with d Suc show ?thesis by (simp add: rtc_ticket_ready_def Let_def split: option.split)
qed

lemma disconnect_kept: "retry_kept n c (fst (rtc_disconnect c))"
proof -
  let ?d = "cancel_retry (c\<lparr>pr_user := True\<rparr>)"
  have "retry_kept n c ?d" by (rule retry_trans [OF retry_same cancel_kept]) (simp add: retry_view_def)
  moreover have "retry_view (fst (rtc_disconnect c)) = retry_view ?d"
    by (simp add: rtc_disconnect_def Let_def close_view) (simp add: retry_view_def)
  ultimately show ?thesis using retry_trans [OF _ retry_same] by blast
qed

lemma client_step_kept:
  assumes "client_step op c c'" "co_reconnect op = Some rc" "rcc_max rc = Some n"
  shows "retry_kept n c c'"
  using assms(1)
proof cases
  case (closed rnd h)
  have "retry_kept n c (c\<lparr>pr_links := l\<rparr>)" "retry_kept n c (c\<lparr>pr_links := l, pr_second := None\<rparr>)" "retry_kept n c c" for l
    by (rule retry_same, simp add: retry_view_def)+
  then show ?thesis using retry_trans [OF _ trigger_kept [OF assms(2,3)]]
    by (simp add: closed client_link_closed_def Let_def)
next
  case (peer rnd st)
  then show ?thesis using trigger_kept [OF assms(2,3)] by (simp add: client_peer_state_def retry_same)
next
  case (gone rnd a)
  then show ?thesis using trigger_kept [OF assms(2,3)] by (simp add: signal_gone_def retry_same)
next
  case (message buf h evs)
  then show ?thesis using frame_view by (auto intro: retry_same simp: client_message_def split: if_splits)
next
  case (send topic payload)
  show ?thesis by (rule retry_same)
      (simp add: send rtc_client_send_def client_send_def retry_view_def Let_def case_prod_beta split: option.split sum.split)
next
  case (timer connects h)
  then show ?thesis by (cases "jm_has (pr_timers c) h") (simp_all add: retry_run_kept, simp add: rtc_retry_timer_def retry_same)
next
  case (kicked a code info)
  show ?thesis by (rule retry_same) (simp add: kicked signal_kicked_def retry_view_def)
next
  case (opened unreliable a)
  show ?thesis by (rule retry_same) (simp add: opened rtc_channel_open_def client_send_def retry_view_def Let_def)
qed (simp_all add: ticket_kept disconnect_kept)

text \<open>With a limit of n attempts, a client starts at most n negotiations after that of its \<open>connect\<close>, over its whole
  life: the attempts are counted up by connections that succeeded as well, and only \<open>connect\<close> sets them back.\<close>

lemma negotiations_bounded:
  assumes "(client_step op)\<^sup>*\<^sup>* c c'" "rtc_client_ok c" "co_reconnect op = Some rc" "rcc_max rc = Some n"
  shows "length (pr_tickets c') \<le> negotiations_due n c" "pr_attempts c \<le> pr_attempts c'"
proof -
  have "retry_kept n c c'" using assms(1)
    by induction (simp add: retry_same, use client_step_kept [OF _ assms(3,4)] retry_trans in blast)
  with assms(2) show "length (pr_tickets c') \<le> negotiations_due n c" "pr_attempts c \<le> pr_attempts c'"
    by (simp_all add: retry_kept_def negotiations_due_def [of n c'])
qed

section \<open>Closing\<close>

text \<open>A connection is reported lost once, whichever of its channel, its peer connection and its signalling
  socket reports it first.\<close>

lemma lost_once: "trigger_disconnect op rnd' (fst (trigger_disconnect op rnd c)) = (fst (trigger_disconnect op rnd c), [])"
proof -
  have "pr_guard (close_negotiation d) = pr_guard d" for d by (simp add: close_negotiation_def split: option.split)
  then have "pr_guard (fst (trigger_disconnect op rnd c))"
    by (simp add: trigger_disconnect_def Let_def rtc_schedule_def case_prod_beta split: option.split)
  then show ?thesis by (simp add: trigger_disconnect_def)
qed

text \<open>A close frame with a terminal code, then the end of the channel: no timer is armed.\<close>

lemma terminal_code_stops:
  assumes "pr_pending c = Some (JNum code)" "code \<in> set no_reconnect_codes"
  shows "pr_timers (fst (trigger_disconnect op rnd c)) = pr_timers c"
proof -
  have p: "pr_pending (close_negotiation d) = pr_pending d" "pr_timers (close_negotiation d) = pr_timers d" for d
    by (simp_all add: close_negotiation_def split: option.split)
  then show ?thesis using assms
    by (simp add: trigger_disconnect_def Let_def rtc_should_reconnect_def effective_code_def split: option.split)
qed

section \<open>Scenarios\<close>

text \<open>\<open>disconnect\<close> and \<open>connect\<close> before the old channel's close event: the event ends the new negotiation,
  since the guard is the client's and not the negotiation's.\<close>

lemma stale_close_ends_new_negotiation:
  fixes ticket :: jsstr
  assumes "h < length (pr_links c)" "\<not> cl_unreliable (pr_links c ! h)" "\<not> cl_gone (pr_links c ! h)"
  defines "c' \<equiv> fst (rtc_connect True ticket (fst (rtc_disconnect c)))"
  shows "pr_negotiator c' = Some (length (pr_tickets c))"
    "pr_negotiator (fst (client_link_closed op rnd h c')) = None"
    "hd (snd (client_link_closed op rnd h c')) = (ev_disconnect, BytesArg [])"
proof -
  have k: "\<exists>ts k. cancel_retry d = d\<lparr>pr_timers := ts, pr_timer := k\<rparr>" for d
  proof -
    have "cancel_retry d = d\<lparr>pr_timers := pr_timers (cancel_retry d), pr_timer := pr_timer (cancel_retry d)\<rparr>"
      by (simp add: cancel_retry_def split: option.split)
    then show ?thesis by blast
  qed
  let ?u = "c\<lparr>pr_user := True\<rparr>"
  obtain ts k where d: "cancel_retry ?u = ?u\<lparr>pr_timers := ts, pr_timer := k\<rparr>" using k [of ?u] by blast
  define e where "e = fst (rtc_disconnect c)"
  have e: "pr_negotiator e = None" "pr_channel e = None" "pr_links e = pr_links c" "pr_tickets e = pr_tickets c"
    by (simp_all add: e_def rtc_disconnect_def Let_def d close_negotiation_def split: option.split)
  obtain ts k where f: "cancel_retry e = e\<lparr>pr_timers := ts, pr_timer := k\<rparr>" using k [of e] by blast
  have c': "pr_negotiator c' = Some (length (pr_tickets c))" "pr_links c' = pr_links c" "\<not> pr_guard c'" "\<not> pr_user c'"
    using e by (simp_all add: c'_def e_def [symmetric] rtc_connect_def f start_negotiation_def)
  then show "pr_negotiator c' = Some (length (pr_tickets c))" by simp
  show "pr_negotiator (fst (client_link_closed op rnd h c')) = None"
    "hd (snd (client_link_closed op rnd h c')) = (ev_disconnect, BytesArg [])"
    using assms(1-3) c' by (simp_all add: client_link_closed_def Let_def trigger_disconnect_def close_negotiation_def
        rtc_schedule_def case_prod_beta split: option.split)
qed

text \<open>A negotiator whose \<open>connect\<close> throws stays in place, and further calls of \<open>connect\<close> do nothing.\<close>

lemma failed_connect_sticks:
  "rtc_connect True t' (fst (rtc_connect False t (new_rtc_client n))) = (fst (rtc_connect False t (new_rtc_client n)), False)"
  by (simp add: rtc_connect_def start_negotiation_def new_rtc_client_def cancel_retry_def)

text \<open>The browser's client hands the pieces of a long frame to the application, under the reserved topic.\<close>

lemma browser_leaks_chunks:
  assumes "seq < 65536" "chunk_total frame < 256" "chunk_frame frame seq = Inr ms" "b \<in> set ms"
  shows "\<exists>p. browser_rtc_frame b c = Some (c, [(chunk_control_topic, BytesArg p)])"
proof -
  obtain i where i: "i < chunk_total frame" "b = chunk_msg frame seq (chunk_total frame) i"
    using assms(3,4) by (auto simp: chunk_frame_def Let_def chunk_loop_eq split: if_splits)
  have "i < 256" using i(1) assms(2) by simp
  note m = chunk_msg_received(2) [OF assms(1,2) this, of frame]
  have "chunk_control_topic \<noteq> close_control_topic" by (simp add: chunk_control_topic_def close_control_topic_def js_def)
  then show ?thesis unfolding i(2) by (simp add: browser_rtc_frame_def m get_message property_arg_def)
qed

end
