(* ===== verification/Negotiation.thy ===== *)
theory Negotiation
  imports Complex_Main Signal_Wire Fleet_Canonical
begin

text \<open>
  WebRTC negotiation (\<open>node/src/peer/NegotiationCore.ts\<close>): the offering and the answering side.
  The peer connections are handles; what the negotiators ask of them is a log of calls, and the
  events they fire are operations. \<open>parse\<close> is \<open>JSON.parse\<close> (\<open>None\<close>: it throws). Operations that may
  throw return \<open>None\<close> then, where nothing was changed before; otherwise the state and whether they threw.
\<close>

section \<open>Calls on peer connections\<close>

datatype pc_call =
    CreatePc jsval                       \<comment> \<open>the ICE servers\<close>
  | NewChannel jsstr bool "nat option"   \<comment> \<open>label, ordered, retransmissions\<close>
  | SetRemote jsstr jsstr
  | SetLocal jsstr
  | AddCandidate jsval jsval
  | ClosePc

text \<open>\<open>JSON.stringify({ candidate, sdpMid: mid })\<close>\<close>

definition ice_to_json :: "jsstr \<Rightarrow> jsstr \<Rightarrow> jsstr" where
  "ice_to_json candidate mid =
     js ''{'' @ json_quote (js ''candidate'') @ js '':'' @ json_quote candidate @ js '','' @
     json_quote (js ''sdpMid'') @ js '':'' @ json_quote mid @ js ''}''"

definition nullish_or :: "jsval \<Rightarrow> jsval \<Rightarrow> jsval" where
  "nullish_or v d = (if nullish v then d else v)"

definition no_candidate :: "jsval \<times> jsval" where
  "no_candidate = (JStr [], JStr (js ''0''))"

text \<open>Reading a property of \<open>null\<close> throws inside the \<open>try\<close>.\<close>

definition ice_from_json :: "(jsstr \<Rightarrow> jsval option) \<Rightarrow> jsstr \<Rightarrow> jsval \<times> jsval" where
  "ice_from_json parse json = (case parse json of
     None \<Rightarrow> no_candidate
   | Some v \<Rightarrow>
       (if nullish v then no_candidate
        else (nullish_or (get_prop v (js ''candidate'')) (JStr []), nullish_or (get_prop v (js ''sdpMid'')) (JStr (js ''0'')))))"

definition parse_ice_servers :: "(jsstr \<Rightarrow> jsval option) \<Rightarrow> jsstr \<Rightarrow> jsval" where
  "parse_ice_servers parse json = (case parse json of None \<Rightarrow> JArr [] | Some v \<Rightarrow> v)"

text \<open>\<open>String(msg[k])\<close> of a present, truthy string field.\<close>

definition truthy_text :: "jsval \<Rightarrow> string \<Rightarrow> jsstr option" where
  "truthy_text m k = (let s = field_text m k [] in if s = [] then None else Some s)"

section \<open>The host\<close>

record negotiation_guard =
  ng_max :: nat
  ng_timeout :: real

definition default_guard :: negotiation_guard where
  "default_guard = \<lparr>ng_max = 1024, ng_timeout = 15000\<rparr>"

record host_negotiator =
  hn_pcs :: "(jsstr, nat) jsmap"
  hn_timers :: "(jsstr, nat) jsmap"
  hn_armed :: "(nat, jsstr) jsmap"
  hn_my :: jsstr
  hn_ice :: jsval
  hn_next :: nat
  hn_calls :: "(nat \<times> pc_call) list"
  hn_sent :: "(jsstr \<times> bytes) list"
  hn_states :: "(jsstr \<times> jsstr) list"  \<comment> \<open>\<open>onPeerStateChange\<close> calls\<close>

text \<open>After \<open>initialize\<close>.\<close>

definition new_host_negotiator :: "jsstr \<Rightarrow> jsval \<Rightarrow> host_negotiator" where
  "new_host_negotiator my ice = \<lparr>hn_pcs = [], hn_timers = [], hn_armed = [], hn_my = my, hn_ice = ice, hn_next = 0,
     hn_calls = [], hn_sent = [], hn_states = []\<rparr>"

definition pc_connected :: jsstr where "pc_connected = js ''connected''"
definition pc_failed :: jsstr where "pc_failed = js ''failed''"

definition hn_call :: "nat \<Rightarrow> pc_call \<Rightarrow> host_negotiator \<Rightarrow> host_negotiator" where
  "hn_call pc k n = n\<lparr>hn_calls := hn_calls n @ [(pc, k)]\<rparr>"

definition arm_negotiation_timeout :: "negotiation_guard \<Rightarrow> jsstr \<Rightarrow> host_negotiator \<Rightarrow> host_negotiator" where
  "arm_negotiation_timeout gd peer n =
     (if ng_timeout gd \<le> 0 then n
      else n\<lparr>hn_armed := jm_set (hn_armed n) (hn_next n) peer, hn_timers := jm_set (hn_timers n) peer (hn_next n),
             hn_next := hn_next n + 1\<rparr>)"

definition clear_negotiation_timer :: "jsstr \<Rightarrow> host_negotiator \<Rightarrow> host_negotiator" where
  "clear_negotiation_timer peer n = (case jm_get (hn_timers n) peer of
     None \<Rightarrow> n
   | Some h \<Rightarrow> n\<lparr>hn_armed := jm_delete (hn_armed n) h, hn_timers := jm_delete (hn_timers n) peer\<rparr>)"

text \<open>\<open>creates\<close> and \<open>accepts\<close>: whether creating the connection and setting its remote description
  succeed.\<close>

definition host_on_offer ::
  "negotiation_guard \<Rightarrow> bool \<Rightarrow> bool \<Rightarrow> bytes \<Rightarrow> host_negotiator \<Rightarrow> host_negotiator \<times> bool" where
  "host_on_offer gd creates accepts payload n = (case codec_decode peer_codec (js ''Offer'') payload of
     Inl _ \<Rightarrow> (n, True)
   | Inr m \<Rightarrow> (case (truthy_text m ''from'', truthy_text m ''sdp'') of
       (Some peer, Some sdp) \<Rightarrow>
         (if jm_has (hn_pcs n) peer then (n, False)
          else if length (hn_pcs n) \<ge> ng_max gd then (n, False)
          else if \<not> creates then (n, True)
          else
            let pc = hn_next n;
                n = (hn_call pc (CreatePc (hn_ice n)) n)\<lparr>hn_next := pc + 1, hn_pcs := jm_set (hn_pcs n) peer pc\<rparr>;
                n = arm_negotiation_timeout gd peer n;
                n = hn_call pc (SetRemote sdp (js ''offer'')) n
            in if \<not> accepts then (n, True) else (hn_call pc (SetLocal (js ''answer'')) n, False))
     | _ \<Rightarrow> (n, False)))"

definition host_on_ice :: "(jsstr \<Rightarrow> jsval option) \<Rightarrow> bytes \<Rightarrow> host_negotiator \<Rightarrow> host_negotiator \<times> bool" where
  "host_on_ice parse payload n = (case codec_decode peer_codec (js ''IceCandidate'') payload of
     Inl _ \<Rightarrow> (n, True)
   | Inr m \<Rightarrow> (case (truthy_text m ''from'', truthy_text m ''candidate'') of
       (Some peer, Some json) \<Rightarrow> (case jm_get (hn_pcs n) peer of
           None \<Rightarrow> (n, False)
         | Some pc \<Rightarrow>
             (let (candidate, mid) = ice_from_json parse json
              in if \<not> truthy candidate then (n, False) else (hn_call pc (AddCandidate candidate mid) n, False)))
     | _ \<Rightarrow> (n, False)))"

text \<open>What the connection of \<open>peer\<close> fires.\<close>

definition host_state_change :: "jsstr \<Rightarrow> jsstr \<Rightarrow> host_negotiator \<Rightarrow> host_negotiator" where
  "host_state_change peer st n =
     (let n = (if st = pc_connected then clear_negotiation_timer peer n else n)
      in n\<lparr>hn_states := hn_states n @ [(peer, st)]\<rparr>)"

definition host_local_description :: "jsstr \<Rightarrow> jsstr \<Rightarrow> jsstr \<Rightarrow> host_negotiator \<Rightarrow> host_negotiator \<times> bool" where
  "host_local_description peer sdp type n =
     (if type \<noteq> js ''answer'' then (n, False)
      else case codec_encode peer_codec 1 (js ''Answer'')
             (JObj [(js ''to'', JStr peer), (js ''sdp'', JStr sdp), (js ''from'', JStr (hn_my n))]) of
        Inl _ \<Rightarrow> (n, True)
      | Inr f \<Rightarrow> (n\<lparr>hn_sent := hn_sent n @ [(js ''signal:answer'', f)]\<rparr>, False))"

definition host_local_candidate ::
  "jsstr \<Rightarrow> jsstr \<Rightarrow> jsstr \<Rightarrow> host_negotiator \<Rightarrow> host_negotiator \<times> bool" where
  "host_local_candidate peer candidate mid n =
     (case codec_encode peer_codec 1 (js ''IceCandidate'')
             (JObj [(js ''to'', JStr peer), (js ''candidate'', JStr (ice_to_json candidate mid)),
                    (js ''from'', JStr (hn_my n))]) of
        Inl _ \<Rightarrow> (n, True)
      | Inr f \<Rightarrow> (n\<lparr>hn_sent := hn_sent n @ [(js ''signal:ice'', f)]\<rparr>, False))"

definition negotiation_timeout :: "nat \<Rightarrow> host_negotiator \<Rightarrow> host_negotiator" where
  "negotiation_timeout h n = (case jm_get (hn_armed n) h of
     None \<Rightarrow> n
   | Some peer \<Rightarrow>
       (let n = n\<lparr>hn_armed := jm_delete (hn_armed n) h, hn_timers := jm_delete (hn_timers n) peer\<rparr>
        in case jm_get (hn_pcs n) peer of
             None \<Rightarrow> n
           | Some pc \<Rightarrow>
               (let n = hn_call pc ClosePc (n\<lparr>hn_pcs := jm_delete (hn_pcs n) peer\<rparr>)
                in n\<lparr>hn_states := hn_states n @ [(peer, pc_failed)]\<rparr>)))"

definition close_peer :: "jsstr \<Rightarrow> host_negotiator \<Rightarrow> host_negotiator" where
  "close_peer peer n =
     (let n = clear_negotiation_timer peer n
      in case jm_get (hn_pcs n) peer of
           None \<Rightarrow> n
         | Some pc \<Rightarrow> (hn_call pc ClosePc n)\<lparr>hn_pcs := jm_delete (hn_pcs n) peer\<rparr>)"

definition host_dispose :: "host_negotiator \<Rightarrow> host_negotiator" where
  "host_dispose n =
     (let n = n\<lparr>hn_armed := fold (\<lambda>h m. jm_delete m h) (map snd (hn_timers n)) (hn_armed n), hn_timers := []\<rparr>;
          n = fold (\<lambda>pc. hn_call pc ClosePc) (map snd (hn_pcs n)) n
      in n\<lparr>hn_pcs := []\<rparr>)"

section \<open>The peer\<close>

record peer_negotiator =
  pn_pc :: "nat option"
  pn_you :: jsstr
  pn_host :: "jsstr option"
  pn_next :: nat
  pn_calls :: "(nat \<times> pc_call) list"
  pn_sent :: "(jsstr \<times> bytes) list"

record channel_options =
  co_label :: jsstr
  co_ordered :: bool
  co_retransmits :: "nat option"
  co_unreliable :: "jsstr option"

definition new_peer_negotiator :: peer_negotiator where
  "new_peer_negotiator = \<lparr>pn_pc = None, pn_you = [], pn_host = None, pn_next = 0, pn_calls = [], pn_sent = []\<rparr>"

definition pn_call :: "nat \<Rightarrow> pc_call \<Rightarrow> peer_negotiator \<Rightarrow> peer_negotiator" where
  "pn_call pc k n = n\<lparr>pn_calls := pn_calls n @ [(pc, k)]\<rparr>"

definition peer_on_welcome ::
  "(jsstr \<Rightarrow> jsval option) \<Rightarrow> channel_options \<Rightarrow> bool \<Rightarrow> bytes \<Rightarrow> peer_negotiator \<Rightarrow> peer_negotiator \<times> bool" where
  "peer_on_welcome parse op creates payload n = (case codec_decode peer_codec (js ''Welcome'') payload of
     Inl _ \<Rightarrow> (n, True)
   | Inr m \<Rightarrow>
       (let n = n\<lparr>pn_you := field_text m ''youId'' [], pn_host := truthy_text m ''hostId''\<rparr>
        in if pn_host n = None \<or> pn_host n = Some (pn_you n) then (n, False)
           else if \<not> creates then (n, True)
           else
             let pc = pn_next n;
                 n = pn_call pc (CreatePc (parse_ice_servers parse (field_text m ''iceServers'' (js ''[]'')))) n;
                 n = n\<lparr>pn_next := pc + 1, pn_pc := Some pc\<rparr>;
                 n = pn_call pc (NewChannel (co_label op) (co_ordered op) (co_retransmits op)) n;
                 n = (case co_unreliable op of None \<Rightarrow> n | Some l \<Rightarrow> if l = [] then n else pn_call pc (NewChannel l False (Some 0)) n)
             in (pn_call pc (SetLocal (js ''offer'')) n, False)))"

definition host_field :: "jsstr option \<Rightarrow> jsval" where
  "host_field h = (case h of None \<Rightarrow> JNull | Some s \<Rightarrow> JStr s)"

definition peer_local_description :: "jsstr \<Rightarrow> jsstr \<Rightarrow> peer_negotiator \<Rightarrow> peer_negotiator \<times> bool" where
  "peer_local_description sdp type n =
     (if type \<noteq> js ''offer'' then (n, False)
      else case codec_encode peer_codec 1 (js ''Offer'')
             (JObj [(js ''to'', host_field (pn_host n)), (js ''sdp'', JStr sdp), (js ''from'', JStr (pn_you n))]) of
        Inl _ \<Rightarrow> (n, True)
      | Inr f \<Rightarrow> (n\<lparr>pn_sent := pn_sent n @ [(js ''signal:offer'', f)]\<rparr>, False))"

definition peer_local_candidate :: "jsstr \<Rightarrow> jsstr \<Rightarrow> peer_negotiator \<Rightarrow> peer_negotiator \<times> bool" where
  "peer_local_candidate candidate mid n = (case pn_host n of
     None \<Rightarrow> (n, False)
   | Some h \<Rightarrow>
       (if h = [] then (n, False)
        else case codec_encode peer_codec 1 (js ''IceCandidate'')
             (JObj [(js ''to'', JStr h), (js ''candidate'', JStr (ice_to_json candidate mid)),
                    (js ''from'', JStr (pn_you n))]) of
          Inl _ \<Rightarrow> (n, True)
        | Inr f \<Rightarrow> (n\<lparr>pn_sent := pn_sent n @ [(js ''signal:ice'', f)]\<rparr>, False)))"

definition peer_on_answer :: "bytes \<Rightarrow> peer_negotiator \<Rightarrow> peer_negotiator \<times> bool" where
  "peer_on_answer payload n = (case codec_decode peer_codec (js ''Answer'') payload of
     Inl _ \<Rightarrow> (n, True)
   | Inr m \<Rightarrow> (case (truthy_text m ''sdp'', pn_pc n) of
       (Some sdp, Some pc) \<Rightarrow> (pn_call pc (SetRemote sdp (js ''answer'')) n, False)
     | _ \<Rightarrow> (n, False)))"

definition peer_on_ice :: "(jsstr \<Rightarrow> jsval option) \<Rightarrow> bytes \<Rightarrow> peer_negotiator \<Rightarrow> peer_negotiator \<times> bool" where
  "peer_on_ice parse payload n = (case codec_decode peer_codec (js ''IceCandidate'') payload of
     Inl _ \<Rightarrow> (n, True)
   | Inr m \<Rightarrow> (case truthy_text m ''candidate'' of
       None \<Rightarrow> (n, False)
     | Some json \<Rightarrow>
         (let (candidate, mid) = ice_from_json parse json
          in if \<not> truthy candidate then (n, False)
             else case pn_pc n of None \<Rightarrow> (n, False) | Some pc \<Rightarrow> (pn_call pc (AddCandidate candidate mid) n, False))))"

definition peer_on_elected :: "bytes \<Rightarrow> peer_negotiator \<Rightarrow> peer_negotiator \<times> bool" where
  "peer_on_elected payload n = (case codec_decode peer_codec (js ''HostElected'') payload of
     Inl _ \<Rightarrow> (n, True)
   | Inr m \<Rightarrow> (case truthy_text m ''newHostId'' of None \<Rightarrow> (n, False) | Some h \<Rightarrow> (n\<lparr>pn_host := Some h\<rparr>, False)))"

definition peer_disconnect :: "peer_negotiator \<Rightarrow> peer_negotiator" where
  "peer_disconnect n = (case pn_pc n of None \<Rightarrow> n | Some pc \<Rightarrow> (pn_call pc ClosePc n)\<lparr>pn_pc := None\<rparr>)"

end
