(* ===== verification/Negotiation_Props.thy ===== *)
theory Negotiation_Props
  imports Negotiation Signal_Wire_Props
begin

text \<open>
  Admission control of the answering side: the native peer connections that are open are exactly the
  registered ones, they stay within the cap, and each that has not connected has an armed timeout.
\<close>

section \<open>Runs\<close>

text \<open>A closed peer connection fires nothing, as WebRTC specifies; \<open>up\<close> lists the connections that have
  reported \<open>connected\<close>.\<close>

inductive host_neg_step :: "negotiation_guard \<Rightarrow> host_negotiator \<times> nat list \<Rightarrow> host_negotiator \<times> nat list \<Rightarrow> bool" for gd where
  offer: "host_neg_step gd (n, up) (fst (host_on_offer gd creates accepts payload n), up)"
| ice: "host_neg_step gd (n, up) (fst (host_on_ice parse payload n), up)"
| change: "jm_get (hn_pcs n) peer = Some pc \<Longrightarrow>
    host_neg_step gd (n, up) (host_state_change peer st n, if st = pc_connected then pc # up else up)"
| described: "host_neg_step gd (n, up) (fst (host_local_description peer sdp type n), up)"
| candidate: "host_neg_step gd (n, up) (fst (host_local_candidate peer cand mid n), up)"
| timeout: "host_neg_step gd (n, up) (negotiation_timeout h n, up)"
| close: "host_neg_step gd (n, up) (close_peer peer n, up)"
| dispose: "host_neg_step gd (n, up) (host_dispose n, up)"

inductive host_neg_reachable :: "negotiation_guard \<Rightarrow> host_negotiator \<times> nat list \<Rightarrow> bool" for gd where
  start: "host_neg_reachable gd (new_host_negotiator my ice, [])"
| turn: "host_neg_reachable gd x \<Longrightarrow> host_neg_step gd x y \<Longrightarrow> host_neg_reachable gd y"

section \<open>Invariant\<close>

definition opened :: "host_negotiator \<Rightarrow> nat set" where
  "opened n = {pc. \<exists>ice. (pc, CreatePc ice) \<in> set (hn_calls n)}"

definition shut :: "host_negotiator \<Rightarrow> nat set" where
  "shut n = {pc. (pc, ClosePc) \<in> set (hn_calls n)}"

definition pcs_ok :: "negotiation_guard \<Rightarrow> host_negotiator \<Rightarrow> bool" where
  "pcs_ok gd n \<longleftrightarrow> jm_ok (hn_pcs n) \<and> length (hn_pcs n) \<le> ng_max gd \<and>
     (\<forall>p q pc. jm_get (hn_pcs n) p = Some pc \<and> jm_get (hn_pcs n) q = Some pc \<longrightarrow> p = q) \<and>
     opened n - shut n = ran (jm_get (hn_pcs n)) \<and> (\<forall>pc \<in> opened n. pc < hn_next n)"

definition timeouts_ok :: "negotiation_guard \<Rightarrow> host_negotiator \<Rightarrow> nat list \<Rightarrow> bool" where
  "timeouts_ok gd n up \<longleftrightarrow> jm_ok (hn_timers n) \<and>
     (\<forall>p h. jm_get (hn_timers n) p = Some h \<longleftrightarrow> jm_get (hn_armed n) h = Some p) \<and>
     (\<forall>h. jm_has (hn_armed n) h \<longrightarrow> h < hn_next n) \<and>
     (\<forall>p. jm_has (hn_timers n) p \<longrightarrow> jm_has (hn_pcs n) p) \<and>
     (\<forall>p pc. jm_get (hn_pcs n) p = Some pc \<and> pc \<notin> set up \<and> 0 < ng_timeout gd \<longrightarrow> jm_has (hn_timers n) p)"

lemma call_opened:
  "opened (hn_call pc k n) = (case k of CreatePc _ \<Rightarrow> insert pc (opened n) | _ \<Rightarrow> opened n)"
  "shut (hn_call pc k n) = (if k = ClosePc then insert pc (shut n) else shut n)"
  by (auto simp: opened_def shut_def hn_call_def split: pc_call.split)

lemma call_frame [simp]:
  "hn_pcs (hn_call pc k n) = hn_pcs n" "hn_timers (hn_call pc k n) = hn_timers n" "hn_armed (hn_call pc k n) = hn_armed n"
  "hn_next (hn_call pc k n) = hn_next n" "hn_states (hn_call pc k n) = hn_states n" "hn_ice (hn_call pc k n) = hn_ice n"
  by (simp_all add: hn_call_def)

lemma opened_frame [simp]:
  "opened (n\<lparr>hn_pcs := a\<rparr>) = opened n" "opened (n\<lparr>hn_timers := b\<rparr>) = opened n" "opened (n\<lparr>hn_armed := c\<rparr>) = opened n"
  "opened (n\<lparr>hn_next := d\<rparr>) = opened n" "opened (n\<lparr>hn_states := e\<rparr>) = opened n" "opened (n\<lparr>hn_sent := f\<rparr>) = opened n"
  "shut (n\<lparr>hn_pcs := a\<rparr>) = shut n" "shut (n\<lparr>hn_timers := b\<rparr>) = shut n" "shut (n\<lparr>hn_armed := c\<rparr>) = shut n"
  "shut (n\<lparr>hn_next := d\<rparr>) = shut n" "shut (n\<lparr>hn_states := e\<rparr>) = shut n" "shut (n\<lparr>hn_sent := f\<rparr>) = shut n"
  by (simp_all add: opened_def shut_def)

text \<open>Stopping a timer touches the timer maps only.\<close>

definition unarm :: "jsstr \<Rightarrow> nat \<Rightarrow> host_negotiator \<Rightarrow> host_negotiator" where
  "unarm peer h n = n\<lparr>hn_armed := jm_delete (hn_armed n) h, hn_timers := jm_delete (hn_timers n) peer\<rparr>"

lemma clear_unarm: "clear_negotiation_timer peer n = (case jm_get (hn_timers n) peer of None \<Rightarrow> n | Some h \<Rightarrow> unarm peer h n)"
  by (simp add: clear_negotiation_timer_def unarm_def split: option.split)

lemma unarm_frame [simp]:
  "hn_pcs (unarm p h n) = hn_pcs n" "hn_next (unarm p h n) = hn_next n" "hn_states (unarm p h n) = hn_states n" "hn_calls (unarm p h n) = hn_calls n"
  "opened (unarm p h n) = opened n" "shut (unarm p h n) = shut n"
  by (simp_all add: unarm_def)

lemma clear_frame [simp]:
  "hn_pcs (clear_negotiation_timer p n) = hn_pcs n" "hn_next (clear_negotiation_timer p n) = hn_next n"
  "hn_states (clear_negotiation_timer p n) = hn_states n" "hn_calls (clear_negotiation_timer p n) = hn_calls n"
  "opened (clear_negotiation_timer p n) = opened n" "shut (clear_negotiation_timer p n) = shut n"
  by (simp_all add: clear_unarm split: option.split)

lemma drop_pc_ok:
  assumes "pcs_ok gd n" "jm_get (hn_pcs n) p = Some pc"
  shows "pcs_ok gd ((hn_call pc ClosePc n)\<lparr>hn_pcs := jm_delete (hn_pcs n) p\<rparr>)"
proof -
  have o': "jm_ok (hn_pcs n)" "length (hn_pcs n) \<le> ng_max gd" "opened n - shut n = ran (jm_get (hn_pcs n))" "\<forall>pc \<in> opened n. pc < hn_next n"
    and inj: "\<And>q. jm_get (hn_pcs n) q = Some pc \<Longrightarrow> q = p"
      "\<And>q r k. jm_get (hn_pcs n) q = Some k \<Longrightarrow> jm_get (hn_pcs n) r = Some k \<Longrightarrow> q = r"
    using assms unfolding pcs_ok_def by blast+
  have r: "ran (jm_get (jm_delete (hn_pcs n) p)) = ran (jm_get (hn_pcs n)) - {pc}"
  proof
    show "ran (jm_get (jm_delete (hn_pcs n) p)) \<subseteq> ran (jm_get (hn_pcs n)) - {pc}"
      using inj(1) unfolding ran_def by (auto simp: jm_get_delete simp del: map_of_eq_Some_iff split: if_splits)
    show "ran (jm_get (hn_pcs n)) - {pc} \<subseteq> ran (jm_get (jm_delete (hn_pcs n) p))"
    proof
      fix k assume "k \<in> ran (jm_get (hn_pcs n)) - {pc}"
      then obtain q where "jm_get (hn_pcs n) q = Some k" "q \<noteq> p" using assms(2) unfolding ran_def by fastforce
      then have "jm_get (jm_delete (hn_pcs n) p) q = Some k" by (simp add: jm_get_delete)
      then show "k \<in> ran (jm_get (jm_delete (hn_pcs n) p))" by (rule ranI)
    qed
  qed
  have "length (jm_delete (hn_pcs n) p) \<le> ng_max gd" using o'(1,2) by (auto simp: jm_size_delete)
  moreover have "\<forall>q r k. jm_get (jm_delete (hn_pcs n) p) q = Some k \<and> jm_get (jm_delete (hn_pcs n) p) r = Some k \<longrightarrow> q = r"
    using inj(2) unfolding jm_get_delete by (metis option.distinct(1))
  moreover have "opened n - insert pc (shut n) = ran (jm_get (jm_delete (hn_pcs n) p))" using o'(3) r by blast
  moreover have "jm_ok (jm_delete (hn_pcs n) p)" using o'(1) by simp
  moreover have f: "hn_pcs ((hn_call pc ClosePc n)\<lparr>hn_pcs := jm_delete (hn_pcs n) p\<rparr>) = jm_delete (hn_pcs n) p"
    "opened ((hn_call pc ClosePc n)\<lparr>hn_pcs := jm_delete (hn_pcs n) p\<rparr>) = opened n"
    "shut ((hn_call pc ClosePc n)\<lparr>hn_pcs := jm_delete (hn_pcs n) p\<rparr>) = insert pc (shut n)"
    "hn_next ((hn_call pc ClosePc n)\<lparr>hn_pcs := jm_delete (hn_pcs n) p\<rparr>) = hn_next n"
    by (simp_all add: call_opened)
  ultimately show ?thesis using o'(4) unfolding pcs_ok_def f by blast
qed

lemma clear_timeouts [simp]:
  "jm_get (hn_timers (clear_negotiation_timer p n)) q = (if q = p then None else jm_get (hn_timers n) q)"
  "jm_get (hn_armed (clear_negotiation_timer p n)) h = (if jm_get (hn_timers n) p = Some h then None else jm_get (hn_armed n) h)"
  by (cases "jm_get (hn_timers n) p"; simp add: clear_unarm unarm_def jm_get_delete)+

lemma clear_distinct: "jm_ok (hn_timers n) \<Longrightarrow> jm_ok (hn_timers (clear_negotiation_timer p n))"
  by (simp add: clear_unarm unarm_def split: option.split)

lemma timeoutsD:
  assumes "timeouts_ok gd n up"
  shows "jm_ok (hn_timers n)" "jm_get (hn_timers n) p = Some h \<longleftrightarrow> jm_get (hn_armed n) h = Some p"
    "jm_get (hn_armed n) h = Some p \<Longrightarrow> h < hn_next n" "jm_get (hn_timers n) p = Some h \<Longrightarrow> \<exists>pc. jm_get (hn_pcs n) p = Some pc"
    "jm_get (hn_pcs n) p = Some pc \<Longrightarrow> pc \<notin> set up \<Longrightarrow> 0 < ng_timeout gd \<Longrightarrow> \<exists>h. jm_get (hn_timers n) p = Some h"
  using assms unfolding timeouts_ok_def jm_has_def not_None_eq by blast+

lemma timeoutsI:
  assumes "jm_ok (hn_timers n)" "\<And>p h. jm_get (hn_timers n) p = Some h \<longleftrightarrow> jm_get (hn_armed n) h = Some p"
    and "\<And>p h. jm_get (hn_armed n) h = Some p \<Longrightarrow> h < hn_next n" "\<And>p h. jm_get (hn_timers n) p = Some h \<Longrightarrow> \<exists>pc. jm_get (hn_pcs n) p = Some pc"
    and "\<And>p pc. jm_get (hn_pcs n) p = Some pc \<Longrightarrow> pc \<notin> set up \<Longrightarrow> 0 < ng_timeout gd \<Longrightarrow> \<exists>h. jm_get (hn_timers n) p = Some h"
  shows "timeouts_ok gd n up"
  unfolding timeouts_ok_def jm_has_def not_None_eq using assms by blast

lemma clear_ok:
  assumes "timeouts_ok gd n up" "\<And>pc. jm_get (hn_pcs n) p = Some pc \<Longrightarrow> pc \<in> set up'" "set up \<subseteq> set up'"
  shows "timeouts_ok gd (clear_negotiation_timer p n) up'"
proof (rule timeoutsI)
  note t = timeoutsD [OF assms(1)]
  show "jm_ok (hn_timers (clear_negotiation_timer p n))" by (rule clear_distinct [OF t(1)])
  show "jm_get (hn_timers (clear_negotiation_timer p n)) q = Some h \<longleftrightarrow> jm_get (hn_armed (clear_negotiation_timer p n)) h = Some q" for q h
    using t(2) [of p h] t(2) [of q h] by auto
  show "\<exists>h. jm_get (hn_timers (clear_negotiation_timer p n)) q = Some h"
    if "jm_get (hn_pcs (clear_negotiation_timer p n)) q = Some pc" "pc \<notin> set up'" "0 < ng_timeout gd" for q pc
    using that t(5) [of q pc] assms(2) [of pc] assms(3) by auto
qed (use timeoutsD(3,4) [OF assms(1)] in \<open>auto split: if_splits\<close>)

lemma forget_ok:
  assumes "timeouts_ok gd n up"
  shows "timeouts_ok gd ((clear_negotiation_timer p n)\<lparr>hn_pcs := jm_delete (hn_pcs n) p\<rparr>) up"
proof (rule timeoutsI)
  note t = timeoutsD [OF assms]
  let ?n = "(clear_negotiation_timer p n)\<lparr>hn_pcs := jm_delete (hn_pcs n) p\<rparr>"
  show "jm_ok (hn_timers ?n)" using clear_distinct [OF t(1)] by simp
  show "jm_get (hn_timers ?n) q = Some h \<longleftrightarrow> jm_get (hn_armed ?n) h = Some q" for q h
    using t(2) [of p h] t(2) [of q h] by auto
  show "\<exists>pc. jm_get (hn_pcs ?n) q = Some pc" if "jm_get (hn_timers ?n) q = Some h" for q h
    using that t(4) [of q h] by (auto simp: jm_get_delete split: if_splits)
  show "\<exists>h. jm_get (hn_timers ?n) q = Some h" if "jm_get (hn_pcs ?n) q = Some pc" "pc \<notin> set up" "0 < ng_timeout gd" for q pc
    using that t(5) [of q pc] by (auto simp: jm_get_delete split: if_splits)
qed (use timeoutsD(3) [OF assms] in \<open>auto split: if_splits\<close>)

lemma timeouts_calls:
  "timeouts_ok gd (hn_call pc k n) up = timeouts_ok gd n up" "timeouts_ok gd (n\<lparr>hn_states := s\<rparr>) up = timeouts_ok gd n up"
  "timeouts_ok gd (n\<lparr>hn_sent := s'\<rparr>) up = timeouts_ok gd n up"
  "pcs_ok gd (n\<lparr>hn_states := s\<rparr>) = pcs_ok gd n" "pcs_ok gd (n\<lparr>hn_sent := s'\<rparr>) = pcs_ok gd n"
  "pcs_ok gd (clear_negotiation_timer p n) = pcs_ok gd n"
  by (simp_all add: timeouts_ok_def pcs_ok_def)

text \<open>Closing a peer and the timeout of its negotiation leave the same books.\<close>

definition released :: "jsstr \<Rightarrow> host_negotiator \<Rightarrow> host_negotiator" where
  "released p n = (let n = clear_negotiation_timer p n in case jm_get (hn_pcs n) p of
     None \<Rightarrow> n | Some pc \<Rightarrow> (hn_call pc ClosePc n)\<lparr>hn_pcs := jm_delete (hn_pcs n) p\<rparr>)"

lemma close_released: "close_peer p n = released p n"
  by (simp add: close_peer_def released_def Let_def split: option.split)

lemma timeout_released:
  assumes "timeouts_ok gd n up" "jm_get (hn_armed n) h = Some p"
  shows "negotiation_timeout h n = (released p n)\<lparr>hn_states := hn_states n @ [(p, pc_failed)]\<rparr>"
    "\<exists>pc. jm_get (hn_pcs n) p = Some pc"
proof -
  have t: "jm_get (hn_timers n) p = Some h" using assms timeoutsD(2) by blast
  then show "\<exists>pc. jm_get (hn_pcs n) p = Some pc" by (rule timeoutsD(4) [OF assms(1)])
  then obtain pc where "jm_get (hn_pcs n) p = Some pc" ..
  with t assms(2) show "negotiation_timeout h n = (released p n)\<lparr>hn_states := hn_states n @ [(p, pc_failed)]\<rparr>"
    by (simp add: negotiation_timeout_def released_def clear_unarm unarm_def Let_def hn_call_def)
qed

lemma released_ok:
  assumes "pcs_ok gd n" "timeouts_ok gd n up"
  shows "pcs_ok gd (released p n)" "timeouts_ok gd (released p n) up"
proof -
  let ?n = "clear_negotiation_timer p n"
  have p: "pcs_ok gd ?n" using assms(1) by (simp add: timeouts_calls)
  show "pcs_ok gd (released p n)"
    using p drop_pc_ok [OF p, of p] by (simp add: released_def Let_def split: option.split)
  have "timeouts_ok gd ?n up" if "jm_get (hn_pcs n) p = None" using clear_ok [OF assms(2), of p up] that by simp
  moreover have "timeouts_ok gd ((hn_call pc ClosePc ?n)\<lparr>hn_pcs := jm_delete (hn_pcs n) p\<rparr>) up" for pc
    using forget_ok [OF assms(2), of p] by (simp add: timeouts_ok_def)
  ultimately show "timeouts_ok gd (released p n) up"
    by (auto simp: released_def Let_def split: option.split)
qed

section \<open>Offers\<close>

text \<open>The registration of a new connection.\<close>

definition registered :: "negotiation_guard \<Rightarrow> jsstr \<Rightarrow> host_negotiator \<Rightarrow> host_negotiator" where
  "registered gd peer n = arm_negotiation_timeout gd peer
     ((hn_call (hn_next n) (CreatePc (hn_ice n)) n)\<lparr>hn_next := hn_next n + 1, hn_pcs := jm_set (hn_pcs n) peer (hn_next n)\<rparr>)"

lemma offer_cases:
  "fst (host_on_offer gd creates accepts payload n) = n \<or>
   (\<exists>peer. \<not> jm_has (hn_pcs n) peer \<and> length (hn_pcs n) < ng_max gd \<and>
      (\<exists>sdp. fst (host_on_offer gd creates accepts payload n) = hn_call (hn_next n) (SetRemote sdp (js ''offer'')) (registered gd peer n) \<or>
        fst (host_on_offer gd creates accepts payload n) =
          hn_call (hn_next n) (SetLocal (js ''answer'')) (hn_call (hn_next n) (SetRemote sdp (js ''offer'')) (registered gd peer n))))"
  by (auto simp: host_on_offer_def registered_def Let_def not_le split: sum.split option.split)

lemma registered_frame:
  "hn_pcs (registered gd peer n) = jm_set (hn_pcs n) peer (hn_next n)" "opened (registered gd peer n) = insert (hn_next n) (opened n)"
  "shut (registered gd peer n) = shut n" "hn_next n < hn_next (registered gd peer n)"
  by (simp_all add: registered_def arm_negotiation_timeout_def call_opened)

lemma registered_ok:
  assumes "pcs_ok gd n" "timeouts_ok gd n up" "\<not> jm_has (hn_pcs n) peer" "length (hn_pcs n) < ng_max gd"
    and old: "shut n \<subseteq> opened n"
  shows "pcs_ok gd (registered gd peer n)" "timeouts_ok gd (registered gd peer n) up"
proof -
  let ?m = "registered gd peer n"
  have o': "jm_ok (hn_pcs n)" "opened n - shut n = ran (jm_get (hn_pcs n))" "\<forall>pc \<in> opened n. pc < hn_next n"
    "\<And>q r k. jm_get (hn_pcs n) q = Some k \<Longrightarrow> jm_get (hn_pcs n) r = Some k \<Longrightarrow> q = r"
    using assms(1) unfolding pcs_ok_def by blast+
  have fresh: "jm_get (hn_pcs n) q \<noteq> Some (hn_next n)" for q
    using o'(2,3) ranI [of "jm_get (hn_pcs n)" q "hn_next n"] by auto
  have free: "jm_get (hn_pcs n) peer = None" using assms(3) by (simp add: jm_has_def)
  have "ran (jm_get (jm_set (hn_pcs n) peer (hn_next n))) = insert (hn_next n) (ran (jm_get (hn_pcs n)))"
    using free unfolding update_conv' by (rule ran_map_upd)
  moreover have "hn_next n \<notin> shut n" using old o'(3) by auto
  moreover have "\<forall>q r k. jm_get (jm_set (hn_pcs n) peer (hn_next n)) q = Some k \<and> jm_get (jm_set (hn_pcs n) peer (hn_next n)) r = Some k \<longrightarrow> q = r"
    using o'(4) fresh unfolding jm_get_set by (metis option.inject)
  moreover have "length (jm_set (hn_pcs n) peer (hn_next n)) \<le> ng_max gd" using assms(3,4) by (simp add: jm_size_set)
  moreover have "\<forall>pc \<in> insert (hn_next n) (opened n). pc < hn_next ?m"
    using o'(3) registered_frame(4) [of n gd peer] by (auto intro: less_trans)
  ultimately show "pcs_ok gd ?m"
    unfolding pcs_ok_def registered_frame using o'(1,2) by auto
  note t = timeoutsD [OF assms(2)]
  have no_timer: "jm_get (hn_timers n) peer = None" using t(4) [of peer] free by (cases "jm_get (hn_timers n) peer") auto
  have no_handle: "jm_get (hn_armed n) k = None" if "hn_next n \<le> k" for k
    using t(3) [of k] that by (cases "jm_get (hn_armed n) k") force+
  show "timeouts_ok gd ?m up"
  proof (cases "ng_timeout gd \<le> 0")
    case True
    then have m: "hn_timers ?m = hn_timers n" "hn_armed ?m = hn_armed n" by (simp_all add: registered_def arm_negotiation_timeout_def)
    show ?thesis
    proof (rule timeoutsI)
      show "\<exists>pc. jm_get (hn_pcs ?m) p = Some pc" if "jm_get (hn_timers ?m) p = Some h" for p h
        using t(4) [of p h] that unfolding m registered_frame by (auto simp: jm_get_set)
      show "h < hn_next ?m" if "jm_get (hn_armed ?m) h = Some p" for p h
        using t(3) [of h p] that registered_frame(4) [of n gd peer] unfolding m by simp
    qed (use t(1,2) True in \<open>auto simp: m\<close>)
  next
    case False
    then have m: "hn_timers ?m = jm_set (hn_timers n) peer (hn_next n + 1)" "hn_armed ?m = jm_set (hn_armed n) (hn_next n + 1) peer"
      "hn_next ?m = hn_next n + 2"
      by (simp_all add: registered_def arm_negotiation_timeout_def)
    show ?thesis
    proof (rule timeoutsI)
      show "jm_ok (hn_timers ?m)" using t(1) by (simp add: m)
      show "jm_get (hn_timers ?m) p = Some h \<longleftrightarrow> jm_get (hn_armed ?m) h = Some p" for p h
        using t(2) [of p h] t(2) [of peer h] t(2) [of p "hn_next n + 1"] no_timer no_handle [of "hn_next n + 1"] unfolding m jm_get_set by auto
      show "h < hn_next ?m" if "jm_get (hn_armed ?m) h = Some p" for p h
        using t(3) [of h p] that unfolding m jm_get_set by (auto split: if_splits)
      show "\<exists>pc. jm_get (hn_pcs ?m) p = Some pc" if "jm_get (hn_timers ?m) p = Some h" for p h
        using t(4) [of p h] that unfolding m registered_frame jm_get_set by (auto split: if_splits)
      show "\<exists>h. jm_get (hn_timers ?m) p = Some h" if "jm_get (hn_pcs ?m) p = Some pc" "pc \<notin> set up" "0 < ng_timeout gd" for p pc
        using t(5) [of p pc] that unfolding m registered_frame jm_get_set by (auto split: if_splits)
    qed
  qed
qed

section \<open>Every step\<close>

definition neg_ok :: "negotiation_guard \<Rightarrow> host_negotiator \<times> nat list \<Rightarrow> bool" where
  "neg_ok gd x \<longleftrightarrow> pcs_ok gd (fst x) \<and> timeouts_ok gd (fst x) (snd x) \<and> shut (fst x) \<subseteq> opened (fst x)"

lemma call_ok:
  assumes "k \<noteq> ClosePc" "\<And>ice. k \<noteq> CreatePc ice"
  shows "pcs_ok gd (hn_call pc k n) = pcs_ok gd n" "opened (hn_call pc k n) = opened n" "shut (hn_call pc k n) = shut n"
  using assms by (simp_all add: pcs_ok_def call_opened split: pc_call.split)

lemma released_shut:
  assumes "pcs_ok gd n" "shut n \<subseteq> opened n"
  shows "shut (released p n) \<subseteq> opened (released p n)"
proof -
  have "pc \<in> opened n" if "jm_get (hn_pcs n) p = Some pc" for pc
    using assms(1) ranI [of "jm_get (hn_pcs n)" p pc, OF that] unfolding pcs_ok_def by blast
  with assms(2) show ?thesis by (auto simp: released_def Let_def call_opened split: option.split)
qed

lemma frame_ok:
  "host_on_ice parse payload n = (m, b) \<Longrightarrow> m = n \<or> (\<exists>pc c k. m = hn_call pc (AddCandidate c k) n)"
  "fst (host_local_description peer sdp type n) = n\<lparr>hn_sent := hn_sent (fst (host_local_description peer sdp type n))\<rparr>"
  "fst (host_local_candidate peer cand mid n) = n\<lparr>hn_sent := hn_sent (fst (host_local_candidate peer cand mid n))\<rparr>"
  by (auto simp: host_on_ice_def host_local_description_def host_local_candidate_def Let_def split: sum.splits option.splits prod.splits if_splits)

lemma deleted_all: "jm_get (fold (\<lambda>h m. jm_delete m h) hs m) k = (if k \<in> set hs then None else jm_get m k)"
  by (induction hs arbitrary: m) (auto simp: jm_get_delete)

lemma close_all:
  "hn_pcs (fold (\<lambda>pc. hn_call pc ClosePc) ps n) = hn_pcs n" "hn_timers (fold (\<lambda>pc. hn_call pc ClosePc) ps n) = hn_timers n"
  "hn_armed (fold (\<lambda>pc. hn_call pc ClosePc) ps n) = hn_armed n" "hn_next (fold (\<lambda>pc. hn_call pc ClosePc) ps n) = hn_next n"
  "opened (fold (\<lambda>pc. hn_call pc ClosePc) ps n) = opened n" "shut (fold (\<lambda>pc. hn_call pc ClosePc) ps n) = set ps \<union> shut n"
  by (induction ps arbitrary: n) (auto simp: call_opened)

lemma dispose_ok:
  assumes "neg_ok gd (n, up)"
  shows "neg_ok gd (host_dispose n, up)"
proof -
  have p: "jm_ok (hn_pcs n)" "opened n - shut n = ran (jm_get (hn_pcs n))" "\<forall>pc \<in> opened n. pc < hn_next n" and old: "shut n \<subseteq> opened n"
    and t: "timeouts_ok gd n up"
    using assms unfolding neg_ok_def pcs_ok_def by auto
  have vals: "set (map snd (hn_pcs n)) = ran (jm_get (hn_pcs n))"
    using p(1) by (simp add: ran_distinct)
  let ?m = "host_dispose n"
  have f: "hn_pcs ?m = []" "hn_timers ?m = []" "hn_next ?m = hn_next n" "opened ?m = opened n" "shut ?m = ran (jm_get (hn_pcs n)) \<union> shut n"
    "hn_armed ?m = fold (\<lambda>h m. jm_delete m h) (map snd (hn_timers n)) (hn_armed n)"
    unfolding host_dispose_def Let_def using vals by (simp_all add: close_all)
  have "jm_get (hn_armed ?m) h = None" for h
  proof (cases "jm_get (hn_armed n) h")
    case (Some q)
    then have "jm_get (hn_timers n) q = Some h" using timeoutsD(2) [OF t] by blast
    then have "h \<in> set (map snd (hn_timers n))" by (force dest: map_of_SomeD)
    then show ?thesis unfolding f deleted_all by simp
  qed (simp add: f deleted_all del: set_map)
  then have "timeouts_ok gd ?m up" by (intro timeoutsI) (simp_all add: f(1,2))
  moreover have "pcs_ok gd ?m" unfolding pcs_ok_def f using p(2,3) by auto
  moreover have "shut ?m \<subseteq> opened ?m" unfolding f using p(2) old by blast
  ultimately show ?thesis by (simp add: neg_ok_def)
qed

lemma host_neg_step_ok:
  assumes "host_neg_step gd x y" "neg_ok gd x"
  shows "neg_ok gd y"
  using assms(1)
proof cases
  case (offer n up creates accepts payload)
  note o' = assms(2) [unfolded offer(1) neg_ok_def, simplified]
  from offer_cases [of gd creates accepts payload n] show ?thesis
  proof (elim disjE exE conjE)
    fix peer sdp assume a: "\<not> jm_has (hn_pcs n) peer" "length (hn_pcs n) < ng_max gd"
      "fst (host_on_offer gd creates accepts payload n) = hn_call (hn_next n) (SetRemote sdp (js ''offer'')) (registered gd peer n)"
    with registered_ok [of gd n up peer] o' show ?thesis
      by (auto simp: offer(2) neg_ok_def call_ok timeouts_calls registered_frame)
  next
    fix peer sdp assume a: "\<not> jm_has (hn_pcs n) peer" "length (hn_pcs n) < ng_max gd"
      "fst (host_on_offer gd creates accepts payload n) =
        hn_call (hn_next n) (SetLocal (js ''answer'')) (hn_call (hn_next n) (SetRemote sdp (js ''offer'')) (registered gd peer n))"
    with registered_ok [of gd n up peer] o' show ?thesis
      by (auto simp: offer(2) neg_ok_def call_ok timeouts_calls registered_frame)
  qed (use assms(2) offer in simp)
next
  case (ice n up parse payload)
  with assms(2) frame_ok(1) [of parse payload n "fst (host_on_ice parse payload n)" "snd (host_on_ice parse payload n)"]
  show ?thesis by (auto simp: neg_ok_def call_ok timeouts_calls)
next
  case (change n peer pc up st)
  note o' = assms(2) [unfolded change(1) neg_ok_def, simplified]
  have "timeouts_ok gd (clear_negotiation_timer peer n) (pc # up)"
    using clear_ok [of gd n up peer "pc # up"] o' change(3) by auto
  with o' show ?thesis
    by (auto simp: change(2) neg_ok_def host_state_change_def Let_def timeouts_calls)
next
  case (described n up peer sdp type)
  show ?thesis using assms(2) unfolding described by (subst frame_ok(2)) (simp add: neg_ok_def timeouts_calls)
next
  case (candidate n up peer cand mid)
  show ?thesis using assms(2) unfolding candidate by (subst frame_ok(3)) (simp add: neg_ok_def timeouts_calls)
next
  case (timeout n up h)
  note o' = assms(2) [unfolded timeout(1) neg_ok_def, simplified]
  show ?thesis
  proof (cases "jm_get (hn_armed n) h")
    case (Some p)
    with o' timeout_released(1) [of gd n up h p] released_ok [of gd n up p] released_shut [of gd n p] show ?thesis
      by (simp add: timeout(2) neg_ok_def timeouts_calls)
  qed (use assms(2) in \<open>simp add: timeout negotiation_timeout_def\<close>)
next
  case (close n up peer)
  with assms(2) released_ok [of gd n up peer] released_shut [of gd n peer] show ?thesis
    by (simp add: neg_ok_def close_released)
next
  case (dispose n up)
  with dispose_ok assms(2) show ?thesis by simp
qed

lemma host_neg_reachable_ok: "host_neg_reachable gd x \<Longrightarrow> neg_ok gd x"
proof (induction rule: host_neg_reachable.induct)
  case (start my ice)
  show ?case by (simp add: neg_ok_def pcs_ok_def timeouts_ok_def new_host_negotiator_def opened_def shut_def)
qed (rule host_neg_step_ok)

section \<open>Property\<close>

text \<open>
  C27: offers cannot exhaust the host. In every reachable state the native peer connections that were opened
  and not closed are exactly the registered ones, at most the cap, one per sender. An offer from a
  sender with a live connection, or beyond the cap, changes nothing. Every registered connection that has not
  reported \<open>connected\<close> has an armed timeout (unless disabled), and when that fires, this connection
  and no other is closed, forgotten and reported as failed; a connection that connects has its
  timeout cancelled.
\<close>

theorem negotiation_bounded:
  assumes "host_neg_reachable gd (n, up)"
  shows "opened n - shut n = ran (jm_get (hn_pcs n)) \<and> card (opened n - shut n) \<le> ng_max gd \<and>
    (\<forall>p pc. jm_get (hn_pcs n) p = Some pc \<and> pc \<notin> set up \<and> 0 < ng_timeout gd \<longrightarrow>
       (\<exists>h. jm_get (hn_armed n) h = Some p \<and>
          (let m = negotiation_timeout h n in pc \<in> shut m \<and> jm_get (hn_pcs m) = (jm_get (hn_pcs n))(p := None) \<and>
             hn_states m = hn_states n @ [(p, pc_failed)]))) \<and>
    (\<forall>p. jm_get (hn_timers (host_state_change p pc_connected n)) p = None) \<and>
    (\<forall>creates accepts f m. codec_decode peer_codec (js ''Offer'') f = Inr m \<and>
       (jm_has (hn_pcs n) (field_text m ''from'' []) \<or> ng_max gd \<le> length (hn_pcs n)) \<longrightarrow>
       host_on_offer gd creates accepts f n = (n, False))"
proof (intro conjI allI impI)
  have ok: "pcs_ok gd n" "timeouts_ok gd n up" using host_neg_reachable_ok [OF assms] by (simp_all add: neg_ok_def)
  then have d: "jm_ok (hn_pcs n)" "length (hn_pcs n) \<le> ng_max gd" and live: "opened n - shut n = ran (jm_get (hn_pcs n))"
    unfolding pcs_ok_def by blast+
  show "opened n - shut n = ran (jm_get (hn_pcs n))" by (rule live)
  have "card (set (map snd (hn_pcs n))) \<le> length (hn_pcs n)" using card_length [of "map snd (hn_pcs n)"] by simp
  then show "card (opened n - shut n) \<le> ng_max gd" using d live by (simp add: ran_distinct)
  fix p pc assume "jm_get (hn_pcs n) p = Some pc \<and> pc \<notin> set up \<and> 0 < ng_timeout gd"
  then have p: "jm_get (hn_pcs n) p = Some pc" and "\<exists>h. jm_get (hn_timers n) p = Some h" using timeoutsD(5) [OF ok(2)] by blast+
  then obtain h where h: "jm_get (hn_armed n) h = Some p" using timeoutsD(2) [OF ok(2)] by blast
  have "jm_get (hn_pcs (released p n)) = (jm_get (hn_pcs n))(p := None)" "pc \<in> shut (released p n)"
    using p by (auto simp: released_def Let_def call_opened delete_conv fun_eq_iff)
  with timeout_released(1) [OF ok(2) h] h
  show "\<exists>h. jm_get (hn_armed n) h = Some p \<and>
      (let m = negotiation_timeout h n in pc \<in> shut m \<and> jm_get (hn_pcs m) = (jm_get (hn_pcs n))(p := None) \<and>
         hn_states m = hn_states n @ [(p, pc_failed)])"
    by (auto simp: Let_def)
next
  show "jm_get (hn_timers (host_state_change p pc_connected n)) p = None" for p
    by (simp add: host_state_change_def Let_def)
next
  fix creates accepts f m
  assume "codec_decode peer_codec (js ''Offer'') f = Inr m \<and>
    (jm_has (hn_pcs n) (field_text m ''from'' []) \<or> ng_max gd \<le> length (hn_pcs n))"
  then show "host_on_offer gd creates accepts f n = (n, False)"
    by (auto simp: host_on_offer_def truthy_text_def Let_def split: option.split)
qed

definition sample_negotiator :: host_negotiator where
  "sample_negotiator = fst (host_on_offer default_guard True True (signal_frame (sdp_bytes \<lparr>sg_to = [0x68], sg_body = [0x73], sg_from = Some [0x70]\<rparr>))
     (new_host_negotiator [0x68] (JArr [])))"

theorem negotiation_bounded_witness:
  "jm_get (hn_pcs sample_negotiator) [0x70] = Some 0 \<and>
   (\<exists>h. jm_get (hn_armed sample_negotiator) h = Some [0x70] \<and> 0 \<in> shut (negotiation_timeout h sample_negotiator))"
proof -
  have r: "host_neg_reachable default_guard (sample_negotiator, [])"
    unfolding sample_negotiator_def by (rule host_neg_reachable.turn [OF host_neg_reachable.start]) (rule host_neg_step.offer)
  have f: "codec_decode peer_codec (js ''Offer'') (signal_frame (sdp_bytes \<lparr>sg_to = [0x68], sg_body = [0x73], sg_from = Some [0x70]\<rparr>)) =
      Inr (sdp_object ''sdp'' \<lparr>sg_to = [0x68], sg_body = [0x73], sg_from = Some [0x70]\<rparr>)"
    by (rule sdp_frames(2)) (simp_all add: sdp_sendable_def text_encode_def utf8_point_def is_high_def is_low_def conforms_eval)
  have "jm_get (hn_pcs sample_negotiator) [0x70] = Some 0"
    unfolding sample_negotiator_def host_on_offer_def f
    by (simp add: truthy_text_def field_text_def sdp_props from_field_def Let_def new_host_negotiator_def default_guard_def
        arm_negotiation_timeout_def hn_call_def)
  moreover have "0 < ng_timeout default_guard" by (simp add: default_guard_def)
  ultimately show ?thesis using negotiation_bounded [OF r] unfolding Let_def by (metis empty_iff list.set(1))
qed

end
