(* ===== verification/Transport_Ws.thy ===== *)
theory Transport_Ws
  imports Fleet_Http
begin

text \<open>
  The WebSocket transport (\<open>node/src/WSTransport.ts\<close>) with the drop rule shared by the transports
  (\<open>core/src/transports/backpressure.ts\<close>). A socket is an index in \<open>wt_sockets\<close>; its record holds
  what the platform knows of it (\<open>readyState\<close>, whether its \<open>close\<close> event has fired) and the
  variables of the \<open>handleConnect\<close> call that serves it, stopped at one of its two \<open>await\<close>s or past
  them. The transport layer is seen through the calls made to it (\<open>wt_calls\<close>); what it, the
  connection limiter and \<open>URLSearchParams\<close> answer is an argument.
\<close>

section \<open>Shared by the transports\<close>

datatype layer_call = LayerMessage nat jsstr bytes | LayerClose nat jsstr

definition close_invalid_ticket :: nat where "close_invalid_ticket = 4001"
definition close_invalid_frame :: nat where "close_invalid_frame = 4002"
definition close_kicked :: nat where "close_kicked = 4003"
definition close_room_rejected :: nat where "close_room_rejected = 4004"
definition close_rate_limited :: nat where "close_rate_limited = 4005"

definition reason_room_full :: jsstr where "reason_room_full = js ''room_full''"
definition reason_not_joinable :: jsstr where "reason_not_joinable = js ''room_not_joinable''"
definition reason_rate_limited :: jsstr where "reason_rate_limited = js ''rate_limited''"
definition reason_shutdown :: jsstr where "reason_shutdown = js ''server_shutdown''"

definition default_max_buffered_bytes :: nat where
  "default_max_buffered_bytes = 1024 * 1024"

text \<open>Whether a frame is dropped.\<close>

definition check_backpressure :: "nat \<Rightarrow> nat \<Rightarrow> bool" where
  "check_backpressure buffered limit \<longleftrightarrow> \<not> buffered \<le> limit"

section \<open>State\<close>

record ws_request =
  wq_origin :: "jsstr option"
  wq_protocols :: "jsstr option"  \<comment> \<open>\<open>sec-websocket-protocol\<close>\<close>
  wq_url :: "jsstr option"

record ws_options =
  wo_origins :: "(jsstr option \<Rightarrow> bool) option"
  wo_limited :: bool  \<comment> \<open>a connection limiter is configured\<close>
  wo_protocol :: bool  \<comment> \<open>\<open>ticketSource\<close> is \<open>'protocol'\<close>\<close>
  wo_param :: jsstr
  wo_max_buffered :: nat
  wo_heartbeat :: "nat option"  \<comment> \<open>\<open>missThreshold\<close>, \<open>None\<close> for \<open>heartbeat: false\<close>\<close>

datatype ws_stage = WsLimiting ws_request | WsGranting jsstr | WsJoined | WsOver

record ws_socket =
  wk_stage :: ws_stage
  wk_open :: bool  \<comment> \<open>\<open>readyState\<close> is \<open>OPEN\<close>\<close>
  wk_gone :: bool  \<comment> \<open>the \<open>close\<close> event has fired\<close>
  wk_listens :: bool  \<comment> \<open>the \<open>close\<close> listener is registered and has not run\<close>
  wk_early :: bool  \<comment> \<open>\<open>closedEarly\<close>\<close>
  wk_actor :: "jsstr option"
  wk_missed :: nat
  wk_sent :: "bytes list"
  wk_closes :: "(nat \<times> bytes) list"

record ws_transport =
  wt_sockets :: "ws_socket list"
  wt_ready :: bool  \<comment> \<open>\<open>onInitialize\<close> has run\<close>
  wt_disposed :: bool
  wt_calls :: "layer_call list"

definition new_ws_transport :: ws_transport where
  "new_ws_transport = \<lparr>wt_sockets = [], wt_ready = False, wt_disposed = False, wt_calls = []\<rparr>"

definition fresh_socket :: ws_socket where
  "fresh_socket = \<lparr>wk_stage = WsOver, wk_open = True, wk_gone = False, wk_listens = False, wk_early = False,
     wk_actor = None, wk_missed = 0, wk_sent = [], wk_closes = []\<rparr>"

section \<open>Tickets and origins\<close>

definition ws_origin_ok :: "ws_options \<Rightarrow> ws_request \<Rightarrow> bool" where
  "ws_origin_ok op r = (case wo_origins op of None \<Rightarrow> True | Some allowed \<Rightarrow> allowed (wq_origin r))"

definition extract_ticket :: "(jsstr \<Rightarrow> jsstr \<Rightarrow> jsstr option) \<Rightarrow> ws_options \<Rightarrow> ws_request \<Rightarrow> jsstr option" where
  "extract_ticket params op r =
     (if wo_protocol op then
        (case wq_protocols r of
           None \<Rightarrow> None
         | Some header \<Rightarrow>
             (if length header = 0 then None
              else let first = js_trim (hd (js_split 0x2C header)) in if length first > 0 then Some first else None))
      else
        let query = (case wq_url r of
              None \<Rightarrow> []
            | Some url \<Rightarrow> (case js_split 0x3F url of _ # q # _ \<Rightarrow> q | _ \<Rightarrow> []))
        in params query (wo_param op))"

section \<open>One socket\<close>

definition ws_close :: "nat \<Rightarrow> bytes \<Rightarrow> ws_socket \<Rightarrow> ws_socket" where
  "ws_close code reason k =
     (if wk_open k then k\<lparr>wk_open := False, wk_closes := wk_closes k @ [(code, reason)]\<rparr> else k)"

text \<open>\<open>handleConnect\<close> after the limiter, up to the call of \<open>grantAccess\<close>.\<close>

definition request_grant :: "(jsstr \<Rightarrow> jsstr \<Rightarrow> jsstr option) \<Rightarrow> ws_options \<Rightarrow> ws_request \<Rightarrow> ws_socket \<Rightarrow> ws_socket" where
  "request_grant params op r k = (case extract_ticket params op r of
     None \<Rightarrow> ws_close close_invalid_ticket [] (k\<lparr>wk_stage := WsOver\<rparr>)
   | Some t \<Rightarrow> k\<lparr>wk_stage := WsGranting t, wk_listens := True\<rparr>)"

definition accept_socket :: "(jsstr \<Rightarrow> jsstr \<Rightarrow> jsstr option) \<Rightarrow> ws_options \<Rightarrow> ws_request \<Rightarrow> ws_socket \<Rightarrow> ws_socket" where
  "accept_socket params op r k =
     (if \<not> ws_origin_ok op r then ws_close close_invalid_ticket [] k
      else if wo_limited op then k\<lparr>wk_stage := WsLimiting r\<rparr>
      else request_grant params op r k)"

section \<open>Operations\<close>

definition ws_initialize :: "ws_transport \<Rightarrow> ws_transport" where
  "ws_initialize s = s\<lparr>wt_ready := True\<rparr>"

definition put_socket :: "nat \<Rightarrow> ws_socket \<Rightarrow> ws_transport \<Rightarrow> ws_transport" where
  "put_socket h k s = s\<lparr>wt_sockets := (wt_sockets s)[h := k]\<rparr>"

definition ws_call :: "layer_call \<Rightarrow> ws_transport \<Rightarrow> ws_transport" where
  "ws_call c s = s\<lparr>wt_calls := wt_calls s @ [c]\<rparr>"

text \<open>The \<open>connection\<close> event. Before \<open>onInitialize\<close> and after \<open>dispose\<close> it is \<open>handleReject\<close>.\<close>

definition ws_connection :: "(jsstr \<Rightarrow> jsstr \<Rightarrow> jsstr option) \<Rightarrow> ws_options \<Rightarrow> ws_request \<Rightarrow> ws_transport \<Rightarrow> ws_transport" where
  "ws_connection params op r s =
     s\<lparr>wt_sockets := wt_sockets s @
       [if \<not> wt_ready s \<or> wt_disposed s then ws_close close_invalid_ticket [] fresh_socket
        else accept_socket params op r fresh_socket]\<rparr>"

text \<open>\<open>connectionLimiter.check\<close> has answered; \<open>False\<close> is a refusal or a throw.\<close>

definition limiter_answer :: "(jsstr \<Rightarrow> jsstr \<Rightarrow> jsstr option) \<Rightarrow> ws_options \<Rightarrow> bool \<Rightarrow> nat \<Rightarrow> ws_transport \<Rightarrow> ws_transport" where
  "limiter_answer params op allowed h s =
     (if \<not> h < length (wt_sockets s) then s
      else case wk_stage (wt_sockets s ! h) of
        WsLimiting r \<Rightarrow>
          (let k = wt_sockets s ! h
           in put_socket h (if \<not> allowed then ws_close close_rate_limited (text_encode reason_rate_limited) (k\<lparr>wk_stage := WsOver\<rparr>)
                            else request_grant params op r k) s)
      | _ \<Rightarrow> s)"

text \<open>\<open>grantAccess\<close> has answered: the message of what it threw, or the actor id.\<close>

definition grant_answer :: "jsstr + jsstr \<Rightarrow> nat \<Rightarrow> ws_transport \<Rightarrow> ws_transport" where
  "grant_answer res h s =
     (if \<not> h < length (wt_sockets s) then s
      else case wk_stage (wt_sockets s ! h) of
        WsGranting t \<Rightarrow>
          (let k = wt_sockets s ! h in
           case res of
             Inl reason \<Rightarrow>
               put_socket h
                 (if reason = reason_room_full \<or> reason = reason_not_joinable
                  then ws_close close_room_rejected (text_encode reason) (k\<lparr>wk_stage := WsOver\<rparr>)
                  else ws_close close_invalid_ticket [] (k\<lparr>wk_stage := WsOver\<rparr>)) s
           | Inr aid \<Rightarrow>
               (if wk_early k then ws_call (LayerClose h aid) (put_socket h (k\<lparr>wk_stage := WsOver, wk_actor := Some aid\<rparr>) s)
                else put_socket h (k\<lparr>wk_stage := WsJoined, wk_actor := Some aid, wk_missed := 0\<rparr>) s))
      | _ \<Rightarrow> s)"

text \<open>The platform's \<open>close\<close> event, once per socket.\<close>

definition socket_gone :: "nat \<Rightarrow> ws_transport \<Rightarrow> ws_transport" where
  "socket_gone h s =
     (if \<not> h < length (wt_sockets s) \<or> wk_gone (wt_sockets s ! h) then s
      else
        let k = (wt_sockets s ! h)\<lparr>wk_open := False, wk_gone := True\<rparr>
        in if \<not> wk_listens k then put_socket h k s
           else case wk_actor k of
             None \<Rightarrow> put_socket h (k\<lparr>wk_listens := False, wk_early := True\<rparr>) s
           | Some aid \<Rightarrow> ws_call (LayerClose h aid) (put_socket h (k\<lparr>wk_listens := False\<rparr>) s))"

definition socket_frame :: "bool \<Rightarrow> bytes \<Rightarrow> nat \<Rightarrow> ws_transport \<Rightarrow> ws_transport" where
  "socket_frame binary data h s =
     (if \<not> h < length (wt_sockets s) then s
      else let k = wt_sockets s ! h in
        if wk_stage k \<noteq> WsJoined \<or> wk_gone k then s
        else if \<not> binary then put_socket h (ws_close close_invalid_frame [] k) s
        else case wk_actor k of None \<Rightarrow> s | Some aid \<Rightarrow> ws_call (LayerMessage h aid data) s)"

text \<open>The listeners of the transport layer's \<open>message\<close> and \<open>kick\<close> events for the socket's actor.\<close>

definition socket_deliver :: "ws_options \<Rightarrow> nat \<Rightarrow> bytes \<Rightarrow> nat \<Rightarrow> ws_transport \<Rightarrow> ws_transport" where
  "socket_deliver op buffered m h s =
     (if \<not> h < length (wt_sockets s) then s
      else let k = wt_sockets s ! h in
        if wk_stage k \<noteq> WsJoined \<or> \<not> wk_open k then s
        else if check_backpressure buffered (wo_max_buffered op) then s
        else put_socket h (k\<lparr>wk_sent := wk_sent k @ [m]\<rparr>) s)"

definition socket_kick :: "bytes \<Rightarrow> nat \<Rightarrow> ws_transport \<Rightarrow> ws_transport" where
  "socket_kick reason h s =
     (if \<not> h < length (wt_sockets s) \<or> wk_stage (wt_sockets s ! h) \<noteq> WsJoined then s
      else put_socket h (ws_close close_kicked reason (wt_sockets s ! h)) s)"

definition socket_pong :: "ws_options \<Rightarrow> nat \<Rightarrow> ws_transport \<Rightarrow> ws_transport" where
  "socket_pong op h s =
     (if \<not> h < length (wt_sockets s) then s
      else let k = wt_sockets s ! h in
        if wk_stage k \<noteq> WsJoined \<or> wk_gone k \<or> wo_heartbeat op = None then s else put_socket h (k\<lparr>wk_missed := 0\<rparr>) s)"

text \<open>\<open>clients\<close> of the server are the sockets whose \<open>close\<close> event has not fired; \<open>terminate\<close> drops
  the connection without a close frame.\<close>

definition heartbeat_socket :: "nat \<Rightarrow> ws_socket \<Rightarrow> ws_socket" where
  "heartbeat_socket threshold k =
     (if wk_gone k then k
      else if wk_missed k \<ge> threshold then k\<lparr>wk_open := False\<rparr>
      else k\<lparr>wk_missed := wk_missed k + 1\<rparr>)"

definition run_heartbeat :: "ws_options \<Rightarrow> ws_transport \<Rightarrow> ws_transport" where
  "run_heartbeat op s = (case wo_heartbeat op of
     None \<Rightarrow> s
   | Some threshold \<Rightarrow>
       (if wt_disposed s then s else s\<lparr>wt_sockets := map (heartbeat_socket threshold) (wt_sockets s)\<rparr>))"

definition ws_dispose :: "ws_transport \<Rightarrow> ws_transport" where
  "ws_dispose s =
     (if wt_disposed s then s
      else s\<lparr>wt_disposed := True,
             wt_sockets := map (\<lambda>k. if wk_gone k then k else ws_close close_kicked (text_encode reason_shutdown) k) (wt_sockets s)\<rparr>)"

section \<open>Runs\<close>

datatype ws_event =
    WsInit
  | WsConnection ws_request
  | WsLimiter bool nat
  | WsGrant "jsstr + jsstr" nat
  | WsGone nat
  | WsFrame bool bytes nat
  | WsDeliver nat bytes nat
  | WsKick bytes nat
  | WsPong nat
  | WsHeartbeat
  | WsDispose

fun ws_apply :: "(jsstr \<Rightarrow> jsstr \<Rightarrow> jsstr option) \<Rightarrow> ws_options \<Rightarrow> ws_event \<Rightarrow> ws_transport \<Rightarrow> ws_transport" where
  "ws_apply params op WsInit s = ws_initialize s"
| "ws_apply params op (WsConnection r) s = ws_connection params op r s"
| "ws_apply params op (WsLimiter allowed h) s = limiter_answer params op allowed h s"
| "ws_apply params op (WsGrant res h) s = grant_answer res h s"
| "ws_apply params op (WsGone h) s = socket_gone h s"
| "ws_apply params op (WsFrame binary data h) s = socket_frame binary data h s"
| "ws_apply params op (WsDeliver buffered m h) s = socket_deliver op buffered m h s"
| "ws_apply params op (WsKick reason h) s = socket_kick reason h s"
| "ws_apply params op (WsPong h) s = socket_pong op h s"
| "ws_apply params op WsHeartbeat s = run_heartbeat op s"
| "ws_apply params op WsDispose s = ws_dispose s"

text \<open>The transport after any sequence of events, in any order.\<close>

definition ws_after :: "(jsstr \<Rightarrow> jsstr \<Rightarrow> jsstr option) \<Rightarrow> ws_options \<Rightarrow> ws_event list \<Rightarrow> ws_transport" where
  "ws_after params op es = fold (ws_apply params op) es new_ws_transport"

end
