(* ===== verification/Transport_Ws_Props.thy ===== *)
theory Transport_Ws_Props
  imports Transport_Ws
begin

text \<open>
  What the WebSocket transport reports to the transport layer over a whole run: the frames of a
  socket, then its close, once. The exception is a socket that closes while the connection limiter
  is asked: its \<open>close\<close> event has fired before the listener is registered.
\<close>

section \<open>Calls of one socket\<close>

primrec call_socket :: "layer_call \<Rightarrow> nat" where
  "call_socket (LayerMessage h a m) = h"
| "call_socket (LayerClose h a) = h"

definition calls_of :: "nat \<Rightarrow> ws_transport \<Rightarrow> layer_call list" where
  "calls_of h s = filter (\<lambda>c. call_socket c = h) (wt_calls s)"

text \<open>The binary frames that arrive at a socket while it has an actor and its close event has not
  fired, in the order they arrive.\<close>

definition admitted :: "nat \<Rightarrow> ws_transport \<Rightarrow> bool" where
  "admitted h s \<longleftrightarrow> h < length (wt_sockets s) \<and> wk_actor (wt_sockets s ! h) \<noteq> None \<and> \<not> wk_gone (wt_sockets s ! h)"

fun heard_at :: "nat \<Rightarrow> ws_transport \<Rightarrow> ws_event \<Rightarrow> bytes list" where
  "heard_at h s (WsFrame binary data h') = (if binary \<and> h' = h \<and> admitted h s then [data] else [])"
| "heard_at h s _ = []"

fun heard :: "(jsstr \<Rightarrow> jsstr \<Rightarrow> jsstr option) \<Rightarrow> ws_options \<Rightarrow> nat \<Rightarrow> ws_event list \<Rightarrow> ws_transport \<Rightarrow> bytes list" where
  "heard params op h [] s = []"
| "heard params op h (e # es) s = heard_at h s e @ heard params op h es (ws_apply params op e s)"

lemma heard_snoc:
  "heard params op h (es @ [e]) s = heard params op h es s @ heard_at h (fold (ws_apply params op) es s) e"
  by (induction es arbitrary: s) simp_all

text \<open>\<open>limited\<close>: a socket may have gone before it listens. \<open>ms\<close>: the frames the socket has heard.\<close>

definition socket_ok :: "bool \<Rightarrow> nat \<Rightarrow> bytes list \<Rightarrow> layer_call list \<Rightarrow> ws_socket \<Rightarrow> bool" where
  "socket_ok limited h ms cs k \<longleftrightarrow>
     (case wk_stage k of
        WsLimiting r \<Rightarrow> limited \<and> wk_actor k = None \<and> \<not> wk_listens k \<and> \<not> wk_early k
      | WsGranting t \<Rightarrow> wk_actor k = None \<and> wk_listens k = (\<not> wk_early k) \<and>
          (wk_early k \<longrightarrow> wk_gone k) \<and> (wk_gone k \<and> \<not> wk_early k \<longrightarrow> limited)
      | WsJoined \<Rightarrow> wk_actor k \<noteq> None \<and> \<not> wk_early k \<and> (\<not> wk_gone k \<longrightarrow> wk_listens k) \<and>
          (wk_gone k \<and> wk_listens k \<longrightarrow> limited)
      | WsOver \<Rightarrow> (wk_actor k \<noteq> None \<longrightarrow> wk_gone k \<and> \<not> wk_listens k) \<and> (wk_gone k \<and> wk_listens k \<longrightarrow> limited)) \<and>
     (\<not> wk_gone k \<or> \<not> wk_open k) \<and>
     (case wk_actor k of
        None \<Rightarrow> ms = [] \<and> cs = []
      | Some a \<Rightarrow> cs = map (LayerMessage h a) ms @ (if wk_gone k \<and> \<not> wk_listens k then [LayerClose h a] else []))"

definition ws_ok :: "bool \<Rightarrow> (nat \<Rightarrow> bytes list) \<Rightarrow> ws_transport \<Rightarrow> bool" where
  "ws_ok limited H s \<longleftrightarrow>
     (\<forall>h < length (wt_sockets s). socket_ok limited h (H h) (calls_of h s) (wt_sockets s ! h)) \<and>
     (\<forall>c \<in> set (wt_calls s). call_socket c < length (wt_sockets s)) \<and>
     (\<forall>h. \<not> h < length (wt_sockets s) \<longrightarrow> H h = [])"

lemma put_socket_ok:
  assumes "ws_ok l H s" "h < length (wt_sockets s)" "socket_ok l h (H h) (calls_of h s) k"
  shows "ws_ok l H (put_socket h k s)"
  using assms by (auto simp: ws_ok_def put_socket_def calls_of_def nth_list_update)

lemma put_call_ok:
  assumes "ws_ok l H s" "h < length (wt_sockets s)" "call_socket c = h" "socket_ok l h (H h) (calls_of h s @ [c]) k"
  shows "ws_ok l H (ws_call c (put_socket h k s))"
  using assms by (auto simp: ws_ok_def put_socket_def ws_call_def calls_of_def nth_list_update)

lemma sock_call_ok:
  assumes "ws_ok l H s" "h < length (wt_sockets s)" "call_socket c = h"
    "socket_ok l h (H h @ ms) (calls_of h s @ [c]) (wt_sockets s ! h)"
  shows "ws_ok l (H(h := H h @ ms)) (ws_call c s)"
  using assms by (auto simp: ws_ok_def ws_call_def calls_of_def)

lemma ws_okD: "ws_ok l H s \<Longrightarrow> h < length (wt_sockets s) \<Longrightarrow> socket_ok l h (H h) (calls_of h s) (wt_sockets s ! h)"
  by (simp add: ws_ok_def)

lemma map_sockets_ok:
  assumes "ws_ok l H s" "\<And>h k. socket_ok l h (H h) (calls_of h s) k \<Longrightarrow> socket_ok l h (H h) (calls_of h s) (f k)"
  shows "ws_ok l H (s\<lparr>wt_sockets := map f (wt_sockets s)\<rparr>)"
  using assms by (auto simp: ws_ok_def calls_of_def)

section \<open>Every step keeps it\<close>

lemma ws_close_ok: "socket_ok l h ms cs k \<Longrightarrow> socket_ok l h ms cs (ws_close c r k)"
  by (auto simp: socket_ok_def ws_close_def split: ws_stage.splits option.splits)

lemma over_ok:
  "wk_stage k = WsGranting t \<or> wk_stage k = WsLimiting r \<Longrightarrow> socket_ok l h ms cs k \<Longrightarrow> socket_ok l h ms cs (k\<lparr>wk_stage := WsOver\<rparr>)"
  by (auto simp: socket_ok_def split: ws_stage.splits option.splits)

lemma request_grant_ok:
  assumes "wk_actor k = None" "\<not> wk_listens k" "\<not> wk_early k" "cs = []" "ms = []" "wk_gone k \<longrightarrow> l" "\<not> wk_gone k \<or> \<not> wk_open k"
  shows "socket_ok l h ms cs (request_grant params op r k)"
  using assms by (auto simp: request_grant_def socket_ok_def ws_close_def split: option.splits)

lemma connection_ok:
  assumes "ws_ok (wo_limited op) H s" shows "ws_ok (wo_limited op) H (ws_connection params op r s)"
proof -
  have n: "calls_of (length (wt_sockets s)) s = []" using assms by (fastforce simp: ws_ok_def calls_of_def filter_empty_conv)
  have f: "socket_ok l h [] [] fresh_socket" for l h by (simp add: socket_ok_def fresh_socket_def)
  have "socket_ok (wo_limited op) h [] [] (request_grant params op r fresh_socket)" for h
    by (rule request_grant_ok) (simp_all add: fresh_socket_def)
  then have "socket_ok (wo_limited op) h [] [] (accept_socket params op r fresh_socket)" for h
    using f [of _ h] by (auto simp: accept_socket_def ws_close_ok) (simp add: socket_ok_def fresh_socket_def)
  with f have "socket_ok (wo_limited op) h [] []
      (if \<not> wt_ready s \<or> wt_disposed s then ws_close close_invalid_ticket [] fresh_socket
       else accept_socket params op r fresh_socket)" for h
    by (auto simp: ws_close_ok)
  with assms n show ?thesis
    by (auto simp: ws_ok_def ws_connection_def calls_of_def nth_append less_Suc_eq)
qed

lemma limiter_ok:
  assumes "ws_ok l H s" shows "ws_ok l H (limiter_answer params op allowed h s)"
proof (cases "h < length (wt_sockets s) \<and> (\<exists>r. wk_stage (wt_sockets s ! h) = WsLimiting r)")
  case True
  then obtain r where h: "h < length (wt_sockets s)" and r: "wk_stage (wt_sockets s ! h) = WsLimiting r" by blast
  note ok = ws_okD [OF assms h]
  then have "socket_ok l h (H h) (calls_of h s) (ws_close c m ((wt_sockets s ! h)\<lparr>wk_stage := WsOver\<rparr>))" for c m
    by (intro ws_close_ok over_ok) (use r in auto)
  moreover have "socket_ok l h (H h) (calls_of h s) (request_grant params op r (wt_sockets s ! h))"
    by (rule request_grant_ok) (use ok r in \<open>auto simp: socket_ok_def\<close>)
  ultimately show ?thesis using h r assms by (simp add: limiter_answer_def Let_def put_socket_ok)
qed (use assms in \<open>auto simp: limiter_answer_def split: ws_stage.split\<close>)

lemma grant_ok:
  assumes "ws_ok l H s" shows "ws_ok l H (grant_answer res h s)"
proof (cases "h < length (wt_sockets s) \<and> (\<exists>t. wk_stage (wt_sockets s ! h) = WsGranting t)")
  case True
  then obtain t where h: "h < length (wt_sockets s)" and t: "wk_stage (wt_sockets s ! h) = WsGranting t" by blast
  note ok = ws_okD [OF assms h]
  show ?thesis
  proof (cases res)
    case (Inl reason)
    have "socket_ok l h (H h) (calls_of h s) (ws_close c m ((wt_sockets s ! h)\<lparr>wk_stage := WsOver\<rparr>))" for c m
      by (intro ws_close_ok over_ok) (use t ok in auto)
    with Inl h t assms show ?thesis by (simp add: grant_answer_def Let_def put_socket_ok)
  next
    case (Inr a)
    with h t ok assms show ?thesis
      by (auto simp: grant_answer_def Let_def socket_ok_def intro!: put_socket_ok put_call_ok)
  qed
qed (use assms in \<open>auto simp: grant_answer_def split: ws_stage.split\<close>)

lemma gone_ok:
  assumes "ws_ok l H s" shows "ws_ok l H (socket_gone h s)"
proof (cases "h < length (wt_sockets s) \<and> \<not> wk_gone (wt_sockets s ! h)")
  case True
  then have h: "h < length (wt_sockets s)" "\<not> wk_gone (wt_sockets s ! h)" by auto
  note ok = ws_okD [OF assms h(1)]
  let ?k = "(wt_sockets s ! h)\<lparr>wk_open := False, wk_gone := True\<rparr>"
  show ?thesis
  proof (cases "wk_listens ?k")
    case False
    with ok h have "socket_ok l h (H h) (calls_of h s) ?k" by (auto simp: socket_ok_def split: ws_stage.splits option.splits)
    with False h assms show ?thesis by (simp add: socket_gone_def Let_def put_socket_ok)
  next
    case True
    show ?thesis
    proof (cases "wk_actor (wt_sockets s ! h)")
      case None
      with ok h True have "socket_ok l h (H h) (calls_of h s) (?k\<lparr>wk_listens := False, wk_early := True\<rparr>)"
        by (auto simp: socket_ok_def split: ws_stage.splits)
      with None True h assms show ?thesis by (simp add: socket_gone_def Let_def put_socket_ok)
    next
      case (Some a)
      with ok h True have "socket_ok l h (H h) (calls_of h s @ [LayerClose h a]) (?k\<lparr>wk_listens := False\<rparr>)"
        by (auto simp: socket_ok_def split: ws_stage.splits)
      with Some True h assms show ?thesis by (simp add: socket_gone_def Let_def put_call_ok)
    qed
  qed
qed (use assms in \<open>auto simp: socket_gone_def\<close>)

lemma joined_admitted:
  "socket_ok l h ms cs (wt_sockets s ! h) \<Longrightarrow> h < length (wt_sockets s) \<Longrightarrow>
   wk_stage (wt_sockets s ! h) = WsJoined \<and> \<not> wk_gone (wt_sockets s ! h) \<longleftrightarrow> admitted h s"
  by (auto simp: socket_ok_def admitted_def split: ws_stage.splits)

lemma sock_frame_ok:
  assumes "ws_ok l H s" shows "ws_ok l (\<lambda>j. H j @ heard_at j s (WsFrame binary data h)) (socket_frame binary data h s)"
proof (cases "admitted h s")
  case True
  then obtain a where h: "h < length (wt_sockets s)" and a: "wk_actor (wt_sockets s ! h) = Some a" by (auto simp: admitted_def)
  note ok = ws_okD [OF assms h]
  have j: "wk_stage (wt_sockets s ! h) = WsJoined" "\<not> wk_gone (wt_sockets s ! h)"
    using joined_admitted [OF ok h] True by simp_all
  show ?thesis
  proof (cases binary)
    case b: True
    have "socket_ok l h (H h @ [data]) (calls_of h s @ [LayerMessage h a data]) (wt_sockets s ! h)"
      using ok a j by (simp add: socket_ok_def)
    from sock_call_ok [OF assms h _ this] have "ws_ok l (H(h := H h @ [data])) (ws_call (LayerMessage h a data) s)" by simp
    moreover have "(\<lambda>j. H j @ heard_at j s (WsFrame binary data h)) = H(h := H h @ [data])"
      using b True by (auto simp: fun_eq_iff)
    ultimately show ?thesis using b h j a by (simp add: socket_frame_def Let_def)
  next
    case False
    then show ?thesis using h j ok assms by (simp add: socket_frame_def Let_def put_socket_ok ws_close_ok)
  qed
next
  case False
  then have "socket_frame binary data h s = s"
    using joined_admitted [OF ws_okD [OF assms, of h]] by (auto simp: socket_frame_def Let_def)
  moreover have "(\<lambda>j. H j @ heard_at j s (WsFrame binary data h)) = H" using False by (auto simp: fun_eq_iff)
  ultimately show ?thesis using assms by (simp only:)
qed

lemma quiet_step_ok:
  assumes "ws_ok l H s"
  shows "ws_ok l H (socket_deliver op buffered m h s)" "ws_ok l H (socket_kick reason h s)" "ws_ok l H (socket_pong op h s)"
    "ws_ok l H (run_heartbeat op s)" "ws_ok l H (ws_dispose s)" "ws_ok l H (ws_initialize s)"
proof -
  have same: "socket_ok l h ms cs (k\<lparr>wk_sent := x\<rparr>) = socket_ok l h ms cs k" "socket_ok l h ms cs (k\<lparr>wk_missed := y\<rparr>) = socket_ok l h ms cs k"
    for l h ms cs k x y by (cases "wk_stage k"; cases "wk_actor k"; simp add: socket_ok_def)+
  have beat: "socket_ok l h ms cs (heartbeat_socket n k)" if "socket_ok l h ms cs k" for h ms cs n k
    using that unfolding heartbeat_socket_def
    by (cases "wk_stage k"; cases "wk_actor k"; auto simp: socket_ok_def)
  show "ws_ok l H (socket_deliver op buffered m h s)" "ws_ok l H (socket_kick reason h s)" "ws_ok l H (socket_pong op h s)"
    using assms by (auto simp: socket_deliver_def socket_kick_def socket_pong_def Let_def put_socket_ok same ws_okD ws_close_ok)
  show "ws_ok l H (run_heartbeat op s)"
    using assms map_sockets_ok [OF assms beat] by (auto simp: run_heartbeat_def split: option.split)
  have "ws_ok l H (s\<lparr>wt_sockets := map (\<lambda>k. if wk_gone k then k else ws_close close_kicked (text_encode reason_shutdown) k) (wt_sockets s)\<rparr>)"
    by (rule map_sockets_ok [OF assms]) (simp add: ws_close_ok)
  then have "ws_ok l H (s\<lparr>wt_disposed := True, wt_sockets := map (\<lambda>k. if wk_gone k then k else ws_close close_kicked (text_encode reason_shutdown) k) (wt_sockets s)\<rparr>)"
    by (simp add: ws_ok_def calls_of_def)
  with assms show "ws_ok l H (ws_dispose s)" by (simp add: ws_dispose_def)
  show "ws_ok l H (ws_initialize s)" using assms by (simp add: ws_initialize_def ws_ok_def calls_of_def)
qed

lemma ws_apply_ok:
  assumes "ws_ok (wo_limited op) H s"
  shows "ws_ok (wo_limited op) (\<lambda>h. H h @ heard_at h s e) (ws_apply params op e s)"
proof (cases e)
  case (WsFrame binary data h)
  from sock_frame_ok [OF assms] show ?thesis unfolding WsFrame ws_apply.simps .
qed (use assms in \<open>simp_all add: connection_ok limiter_ok grant_ok gone_ok quiet_step_ok\<close>)

lemma ws_after_ok: "ws_ok (wo_limited op) (\<lambda>h. heard params op h es new_ws_transport) (ws_after params op es)"
proof (induction es rule: rev_induct)
  case Nil
  show ?case by (simp add: ws_ok_def new_ws_transport_def ws_after_def)
next
  case (snoc e es)
  from ws_apply_ok [OF snoc, where e = e] show ?case by (simp add: heard_snoc ws_after_def)
qed

text \<open>An actor comes from an answer of \<open>grantAccess\<close>.\<close>

definition actor_of :: "nat \<Rightarrow> ws_transport \<Rightarrow> jsstr option" where
  "actor_of h s = (if h < length (wt_sockets s) then wk_actor (wt_sockets s ! h) else None)"

lemma ws_close_actor [simp]: "wk_actor (ws_close c r k) = wk_actor k"
  and request_grant_actor [simp]: "wk_actor (request_grant params op q k) = wk_actor k"
  and heartbeat_actor [simp]: "wk_actor (heartbeat_socket n k) = wk_actor k"
  by (simp_all add: ws_close_def request_grant_def heartbeat_socket_def split: option.split)

lemma accept_actor [simp]: "wk_actor (accept_socket params op r k) = wk_actor k"
  by (simp add: accept_socket_def)

lemma actor_put [simp]:
  "actor_of h (put_socket j k s) = (if j = h \<and> h < length (wt_sockets s) then wk_actor k else actor_of h s)"
  "actor_of h (ws_call c s) = actor_of h s"
  by (auto simp: actor_of_def put_socket_def ws_call_def)

lemma actor_apply:
  assumes "actor_of h (ws_apply params op e s) = Some a"
  shows "actor_of h s = Some a \<or> e = WsGrant (Inr a) h"
proof (cases e)
  case (WsConnection r)
  then show ?thesis using assms
    by (auto simp: ws_connection_def actor_of_def nth_append fresh_socket_def split: if_splits)
next
  case (WsGrant res j)
  then show ?thesis using assms
    by (auto simp: grant_answer_def Let_def actor_of_def [of _ s] split: if_splits ws_stage.splits sum.splits)
qed (use assms in \<open>auto simp: limiter_answer_def socket_gone_def socket_frame_def socket_deliver_def socket_kick_def socket_pong_def
    run_heartbeat_def ws_dispose_def ws_initialize_def Let_def actor_of_def [of _ s] actor_of_def [of _ "_\<lparr>wt_sockets := _\<rparr>"]
    actor_of_def [of _ "_\<lparr>wt_ready := _\<rparr>"] actor_of_def [of _ "_\<lparr>wt_disposed := _, wt_sockets := _\<rparr>"] actor_of_def [of _ "_\<lparr>wt_sockets := _, wt_disposed := _\<rparr>"]
    split: if_splits ws_stage.splits option.splits\<close>)

lemma actor_granted: "actor_of h (ws_after params op es) = Some a \<Longrightarrow> WsGrant (Inr a) h \<in> set es"
proof (induction es rule: rev_induct)
  case Nil
  then show ?case by (simp add: ws_after_def new_ws_transport_def actor_of_def)
next
  case (snoc e es)
  from snoc.prems have "actor_of h (ws_apply params op e (ws_after params op es)) = Some a" by (simp add: ws_after_def)
  from actor_apply [OF this] snoc.IH show ?case by auto
qed

section \<open>Properties\<close>

text \<open>
  C5: no socket is forgotten, and no frame is lost, repeated or made up. After any sequence of events,
  in any order, the transport has told the transport layer of a socket whose \<open>grantAccess\<close> was answered with
  an actor: exactly the binary frames that arrived between that answer and the socket's close
  event, in their order and unchanged, for that actor; then, exactly if the socket is gone and its
  \<open>close\<close> listener has run, one close; nothing else. Of a socket without an actor it has told nothing.
  Without a connection limiter the listener of a socket that is gone has always run, also when the
  socket went while \<open>grantAccess\<close> was awaited.
\<close>

theorem socket_life_reported:
  assumes "s = ws_after params op es" "h < length (wt_sockets s)" "k = wt_sockets s ! h"
  shows "(wk_actor k = None \<longrightarrow> calls_of h s = [] \<and> heard params op h es new_ws_transport = []) \<and>
    (\<forall>a. wk_actor k = Some a \<longrightarrow> WsGrant (Inr a) h \<in> set es \<and>
       calls_of h s = map (LayerMessage h a) (heard params op h es new_ws_transport) @
         (if wk_gone k \<and> \<not> wk_listens k then [LayerClose h a] else [])) \<and>
    (\<not> wo_limited op \<and> wk_gone k \<and> wk_actor k \<noteq> None \<longrightarrow> \<not> wk_listens k)"
proof -
  have "socket_ok (wo_limited op) h (heard params op h es new_ws_transport) (calls_of h s) k"
    using ws_okD [OF ws_after_ok] assms by blast
  moreover have "WsGrant (Inr a) h \<in> set es" if "wk_actor k = Some a" for a
    using actor_granted [of h params op es a] that assms by (simp add: actor_of_def)
  ultimately show ?thesis by (auto simp: socket_ok_def split: ws_stage.splits)
qed

definition open_request :: ws_request where
  "open_request = \<lparr>wq_origin = None, wq_protocols = Some [0x74], wq_url = None\<rparr>"

definition ticket_options :: "bool \<Rightarrow> ws_options" where
  "ticket_options limited = \<lparr>wo_origins = None, wo_limited = limited, wo_protocol = True, wo_param = [], wo_max_buffered = 0, wo_heartbeat = Some 2\<rparr>"

lemma sample_ticket: "extract_ticket params (ticket_options l) open_request = Some [0x74]"
  by (simp add: extract_ticket_def ticket_options_def open_request_def js_trim_def js_space_def)

text \<open>One socket hears two frames and a text frame too early; another closes while \<open>grantAccess\<close> is awaited.\<close>

definition sample_events :: "ws_event list" where
  "sample_events = [WsInit, WsConnection open_request, WsConnection open_request, WsFrame True [9] 0, WsGone 1, WsGrant (Inr [1]) 0,
     WsGrant (Inr [2]) 1, WsFrame True [7] 0, WsFrame True [8] 0, WsFrame True [6] 1, WsGone 0, WsFrame True [5] 0]"

definition waiting_socket :: ws_socket where
  "waiting_socket = fresh_socket\<lparr>wk_stage := WsGranting [0x74], wk_listens := True\<rparr>"

lemma sample_accept: "accept_socket params (ticket_options False) open_request fresh_socket = waiting_socket"
  by (simp add: accept_socket_def ws_origin_ok_def request_grant_def sample_ticket waiting_socket_def)
    (simp add: ticket_options_def)

lemma sample_connection:
  "wt_ready s \<Longrightarrow> \<not> wt_disposed s \<Longrightarrow>
   ws_connection params (ticket_options False) open_request s = s\<lparr>wt_sockets := wt_sockets s @ [waiting_socket]\<rparr>"
  by (simp add: ws_connection_def sample_accept)

lemmas sample_eval = sample_events_def ws_after_def new_ws_transport_def ws_initialize_def sample_connection
  socket_frame_def socket_gone_def grant_answer_def put_socket_def ws_call_def Let_def waiting_socket_def fresh_socket_def admitted_def

theorem socket_life_reported_witness:
  "calls_of 0 (ws_after (\<lambda>_ _. None) (ticket_options False) sample_events) =
     map (LayerMessage 0 [1]) [[7], [8]] @ [LayerClose 0 [1]]"
proof -
  let ?s = "ws_after (\<lambda>_ _. None) (ticket_options False) sample_events"
  have h: "heard (\<lambda>_ _. None) (ticket_options False) 0 sample_events new_ws_transport = [[7], [8]]"
    by (simp add: sample_eval)
  have k: "0 < length (wt_sockets ?s)" "wk_actor (wt_sockets ?s ! 0) = Some [1]" "wk_gone (wt_sockets ?s ! 0)" "\<not> wk_listens (wt_sockets ?s ! 0)"
    by (simp_all add: sample_eval)
  from socket_life_reported [OF refl k(1) refl] k(2-4) show ?thesis unfolding h by simp
qed

section \<open>Observations\<close>

text \<open>With a connection limiter, a socket that closes while the limiter is asked is admitted
  afterwards: the actor joins, and no close is ever reported for it, in whatever follows.\<close>

lemma late_listener_is_deaf:
  fixes a :: jsstr
  assumes "h < length (wt_sockets s)" "wk_stage (wt_sockets s ! h) = WsLimiting r" "extract_ticket params op r = Some t"
    and "wk_gone (wt_sockets s ! h)" "\<not> wk_early (wt_sockets s ! h)"
  defines "s' \<equiv> grant_answer (Inr a) h (limiter_answer params op True h s)"
  shows "wk_actor (wt_sockets s' ! h) = Some a \<and> wk_gone (wt_sockets s' ! h) \<and> wk_stage (wt_sockets s' ! h) = WsJoined \<and>
    wt_calls s' = wt_calls s \<and> socket_gone h s' = s'"
  using assms
  by (simp add: limiter_answer_def request_grant_def put_socket_def grant_answer_def Let_def socket_gone_def)

text \<open>A peer that answers no ping is terminated by the first heartbeat after \<open>missThreshold\<close> of them.\<close>

lemma heartbeat_terminates:
  assumes "\<not> wk_gone k" "wk_missed k \<le> n" "n - wk_missed k < m"
  shows "\<not> wk_open ((heartbeat_socket n ^^ m) k) \<and> wk_missed ((heartbeat_socket n ^^ m) k) = n"
  using assms
proof (induction m arbitrary: k)
  case (Suc m)
  have eq: "(heartbeat_socket n ^^ Suc m) k = (heartbeat_socket n ^^ m) (heartbeat_socket n k)" by (rule funpow_simps_right(2) [THEN fun_cong, unfolded o_apply])
  show ?case
  proof (cases "wk_missed k = n")
    case True
    have stay: "wk_missed ((heartbeat_socket n ^^ j) k') = n \<and> \<not> wk_open ((heartbeat_socket n ^^ j) k') \<and>
        \<not> wk_gone ((heartbeat_socket n ^^ j) k')"
      if "wk_missed k' = n" "\<not> wk_open k'" "\<not> wk_gone k'" for j k'
      using that by (induction j) (auto simp: heartbeat_socket_def)
    have "wk_missed (heartbeat_socket n k) = n" "\<not> wk_open (heartbeat_socket n k)" "\<not> wk_gone (heartbeat_socket n k)"
      using True Suc.prems by (simp_all add: heartbeat_socket_def)
    from stay [OF this, of m] show ?thesis unfolding eq by blast
  next
    case False
    show ?thesis unfolding eq by (rule Suc.IH) (use Suc.prems False in \<open>auto simp: heartbeat_socket_def\<close>)
  qed
qed simp

end
