(* ===== verification/Transport_Rtc.thy ===== *)
theory Transport_Rtc
  imports Complex_Main Chunker Transport_Ws Negotiation
begin

text \<open>
  The data-channel transport of a host (\<open>node/src/RTCTransport.ts\<close>): admission over the first
  message of a channel, the second unreliable channel of a peer, frames in both directions, closing.
  A channel is an index in \<open>rt_links\<close>; its record holds what the peer connection knows of it and the
  variables of the \<open>onChannelOpen\<close> call that serves it. The calls to the transport layer and to the
  negotiator are recorded; what the layer and the limiter answer is an argument. The reassemblers
  and the chunked sending are those of theory \<open>Chunker\<close>.
\<close>

section \<open>State\<close>

datatype rtc_call = RtcMessage jsstr bytes | RtcClose jsstr

record rtc_options =
  ro_limited :: bool  \<comment> \<open>a \<open>peerLimiter\<close> is configured\<close>
  ro_max_buffered :: nat
  ro_cap :: nat  \<comment> \<open>\<open>maxInboundFrameBytes\<close>\<close>
  ro_timeout :: int  \<comment> \<open>\<open>partialFrameTimeoutMs\<close>\<close>
  ro_topic :: "(jsstr \<Rightarrow> bool) option"  \<comment> \<open>\<open>unreliableTopics\<close>\<close>

definition default_max_inbound_frame_bytes :: nat where
  "default_max_inbound_frame_bytes = 64 * 1024"

datatype rtc_stage = RtcTicket | RtcLimiting jsstr | RtcGranting jsstr | RtcLive | RtcOver

record rtc_link =
  rk_unreliable :: bool  \<comment> \<open>handled by \<open>handleUnreliableChannel\<close>\<close>
  rk_peer :: jsstr
  rk_open :: bool  \<comment> \<open>\<open>isOpen\<close>\<close>
  rk_gone :: bool  \<comment> \<open>the close event has fired\<close>
  rk_stage :: rtc_stage
  rk_early :: bool
  rk_actor :: "jsstr option"  \<comment> \<open>\<open>actorId\<close> of the call, or the actor an unreliable channel is wired to\<close>
  rk_sent :: "bytes list"

record rtc_transport =
  rt_links :: "rtc_link list"
  rt_channels :: "(jsstr, nat) jsmap"
  rt_peers :: "(jsstr, jsstr) jsmap"
  rt_closed :: "jsstr set"
  rt_seqs :: "(jsstr, nat) jsmap"
  rt_inbound :: "(jsstr, reassembler) jsmap"
  rt_unreliable :: "(jsstr, nat) jsmap"
  rt_waiting :: "(jsstr, nat) jsmap"  \<comment> \<open>\<open>pendingUnreliableByPeer\<close>\<close>
  rt_listening :: "(jsstr \<times> nat) list"  \<comment> \<open>the actor listeners registered with the layer, which drops them at its close\<close>
  rt_calls :: "rtc_call list"
  rt_closed_peers :: "jsstr list"  \<comment> \<open>calls of \<open>negotiator.closePeer\<close>\<close>

definition new_rtc_transport :: rtc_transport where
  "new_rtc_transport = \<lparr>rt_links = [], rt_channels = [], rt_peers = [], rt_closed = {}, rt_seqs = [],
     rt_inbound = [], rt_unreliable = [], rt_waiting = [], rt_listening = [], rt_calls = [], rt_closed_peers = []\<rparr>"

section \<open>Topics of frames\<close>

text \<open>\<open>extractFrameTopic\<close> reads a length over 32-bit integers; \<open>subarray\<close> clips its end.\<close>

fun topic_length :: "nat \<Rightarrow> 32 word \<Rightarrow> bytes \<Rightarrow> nat \<Rightarrow> (32 word \<times> nat) option" where
  "topic_length shift len [] i = Some (len, i)"
| "topic_length shift len (b # bs) i =
     (let len = or len (push_bit shift (ucast (and b 0x7F)))
      in if and b 0x80 = 0 then Some (len, i + 1)
         else if shift + 7 > 28 then None
         else topic_length (shift + 7) len bs (i + 1))"

definition js_subarray :: "nat \<Rightarrow> int \<Rightarrow> bytes \<Rightarrow> bytes" where
  "js_subarray from stop_at frame =
     (let stop = (if stop_at < 0 then max 0 (int (length frame) + stop_at) else min stop_at (int (length frame)))
      in drop from (take (nat stop) frame))"

definition extract_frame_topic :: "bytes \<Rightarrow> jsstr" where
  "extract_frame_topic frame =
     (if length frame < 2 \<or> hd frame \<noteq> 0x0A then []
      else case topic_length 0 0 (tl frame) 1 of
        None \<Rightarrow> []
      | Some (len, i) \<Rightarrow>
          (if int i + sint len > int (length frame) then []
           else text_decode (js_subarray i (int i + sint len) frame)))"

section \<open>Becoming the host\<close>

definition transport_schema :: schema where
  "transport_schema = [(js ''Welcome'', welcome_fields)]"

definition transport_codec :: codec where
  "transport_codec = \<lparr>cd_major = 1, cd_minor = 0, cd_schema = transport_schema\<rparr>"

text \<open>The \<open>signal:welcome\<close> listener: the negotiator it initializes.\<close>

definition transport_on_welcome :: "(jsstr \<Rightarrow> jsval option) \<Rightarrow> bytes \<Rightarrow> host_negotiator option" where
  "transport_on_welcome parse payload = (case codec_decode transport_codec (js ''Welcome'') payload of
     Inl _ \<Rightarrow> None
   | Inr m \<Rightarrow> Some (new_host_negotiator (field_text m ''youId'' []) (parse_ice_servers parse (field_text m ''iceServers'' (js ''[]'')))))"

section \<open>Channels\<close>

definition put_link :: "nat \<Rightarrow> rtc_link \<Rightarrow> rtc_transport \<Rightarrow> rtc_transport" where
  "put_link h k s = s\<lparr>rt_links := (rt_links s)[h := k]\<rparr>"

definition link_send :: "nat \<Rightarrow> bytes list \<Rightarrow> rtc_transport \<Rightarrow> rtc_transport" where
  "link_send h bs s = put_link h ((rt_links s ! h)\<lparr>rk_sent := rk_sent (rt_links s ! h) @ (if rk_open (rt_links s ! h) then bs else [])\<rparr>) s"

definition link_close :: "nat \<Rightarrow> rtc_transport \<Rightarrow> rtc_transport" where
  "link_close h s = put_link h ((rt_links s ! h)\<lparr>rk_open := False\<rparr>) s"

text \<open>The close control frame; \<open>None\<close> is a throw.\<close>

definition close_control_frame :: "nat \<Rightarrow> jsstr \<Rightarrow> bytes option" where
  "close_control_frame code reason = (case encode_close_frame (int code) reason of
     Inl _ \<Rightarrow> None
   | Inr p \<Rightarrow> (case message_encode close_control_topic p of Inl _ \<Rightarrow> None | Inr f \<Rightarrow> Some f))"

definition layer_message :: "jsstr \<Rightarrow> bytes \<Rightarrow> rtc_transport \<Rightarrow> rtc_transport" where
  "layer_message aid m s = s\<lparr>rt_calls := rt_calls s @ [RtcMessage aid m]\<rparr>"

definition layer_close :: "jsstr \<Rightarrow> rtc_transport \<Rightarrow> rtc_transport" where
  "layer_close aid s = s\<lparr>rt_calls := rt_calls s @ [RtcClose aid],
     rt_listening := filter (\<lambda>l. fst l \<noteq> aid) (rt_listening s)\<rparr>"

section \<open>Closing\<close>

definition close_unreliable :: "jsstr \<Rightarrow> rtc_transport \<Rightarrow> rtc_transport" where
  "close_unreliable aid s = (case jm_get (rt_unreliable s) aid of
     None \<Rightarrow> s
   | Some u \<Rightarrow> link_close u (s\<lparr>rt_unreliable := jm_delete (rt_unreliable s) aid\<rparr>))"

definition trigger_close :: "jsstr \<Rightarrow> jsstr \<Rightarrow> rtc_transport \<Rightarrow> rtc_transport" where
  "trigger_close aid peer s =
     (if aid \<in> rt_closed s then s
      else
        let s = s\<lparr>rt_closed := insert aid (rt_closed s), rt_channels := jm_delete (rt_channels s) aid,
                  rt_peers := jm_delete (rt_peers s) peer, rt_seqs := jm_delete (rt_seqs s) aid,
                  rt_inbound := jm_delete (rt_inbound s) aid, rt_waiting := jm_delete (rt_waiting s) peer\<rparr>
        in layer_close aid (close_unreliable aid s))"

definition lost_states :: "jsstr list" where
  "lost_states = [js ''disconnected'', js ''closed'', js ''failed'']"

definition on_peer_state_change :: "jsstr \<Rightarrow> jsstr \<Rightarrow> rtc_transport \<Rightarrow> rtc_transport" where
  "on_peer_state_change peer state s =
     (if state \<notin> set lost_states then s
      else
        let s = s\<lparr>rt_closed_peers := rt_closed_peers s @ [peer]\<rparr>
        in case jm_get (rt_peers s) peer of None \<Rightarrow> s | Some aid \<Rightarrow> trigger_close aid peer s)"

section \<open>Opening and admission\<close>

definition wire_unreliable :: "nat \<Rightarrow> jsstr \<Rightarrow> rtc_transport \<Rightarrow> rtc_transport" where
  "wire_unreliable h aid s =
     put_link h ((rt_links s ! h)\<lparr>rk_actor := Some aid\<rparr>) (s\<lparr>rt_unreliable := jm_set (rt_unreliable s) aid h\<rparr>)"

definition unreliable_label :: "jsstr \<Rightarrow> bool" where
  "unreliable_label label \<longleftrightarrow>
     (let suffix = js '':unreliable''
      in length suffix \<le> length label \<and> drop (length label - length suffix) label = suffix)"

definition on_channel_open :: "jsstr \<Rightarrow> jsstr \<Rightarrow> rtc_transport \<Rightarrow> rtc_transport" where
  "on_channel_open label peer s =
     (let h = length (rt_links s);
          k = \<lparr>rk_unreliable = unreliable_label label, rk_peer = peer, rk_open = True, rk_gone = False, rk_stage = RtcTicket,
               rk_early = False, rk_actor = None, rk_sent = []\<rparr>;
          s = s\<lparr>rt_links := rt_links s @ [k]\<rparr>
      in if \<not> unreliable_label label then s
         else case jm_get (rt_peers s) peer of
           Some aid \<Rightarrow> wire_unreliable h aid s
         | None \<Rightarrow> s\<lparr>rt_waiting := jm_set (rt_waiting s) peer h\<rparr>)"

definition peer_limiter_answer :: "bool \<Rightarrow> nat \<Rightarrow> rtc_transport \<Rightarrow> rtc_transport" where
  "peer_limiter_answer allowed h s =
     (if \<not> h < length (rt_links s) then s
      else case rk_stage (rt_links s ! h) of
        RtcLimiting ticket \<Rightarrow>
          (let k = rt_links s ! h in
           if allowed then put_link h (k\<lparr>rk_stage := RtcGranting ticket\<rparr>) s
           else let s = put_link h (k\<lparr>rk_stage := RtcOver\<rparr>) s in
             case close_control_frame close_rate_limited reason_rate_limited of
               None \<Rightarrow> s
             | Some f \<Rightarrow> link_close h (link_send h [f] s))
      | _ \<Rightarrow> s)"

definition rtc_admit :: "rtc_options \<Rightarrow> jsstr \<Rightarrow> nat \<Rightarrow> rtc_transport \<Rightarrow> rtc_transport" where
  "rtc_admit op aid h s =
     (let k = rt_links s ! h; peer = rk_peer k;
          s = put_link h (k\<lparr>rk_stage := RtcLive, rk_actor := Some aid\<rparr>) s;
          s = s\<lparr>rt_channels := jm_set (rt_channels s) aid h, rt_peers := jm_set (rt_peers s) peer aid,
                rt_seqs := jm_set (rt_seqs s) aid 0, rt_inbound := jm_set (rt_inbound s) aid (new_reassembler (ro_timeout op)),
                rt_listening := rt_listening s @ [(aid, h)]\<rparr>
      in case jm_get (rt_waiting s) peer of
           None \<Rightarrow> s
         | Some u \<Rightarrow> wire_unreliable u aid (s\<lparr>rt_waiting := jm_delete (rt_waiting s) peer\<rparr>))"

text \<open>\<open>None\<close> is a rejection by \<open>grantAccess\<close>.\<close>

definition rtc_grant_answer :: "rtc_options \<Rightarrow> jsstr option \<Rightarrow> nat \<Rightarrow> rtc_transport \<Rightarrow> rtc_transport" where
  "rtc_grant_answer op res h s =
     (if \<not> h < length (rt_links s) then s
      else case rk_stage (rt_links s ! h) of
        RtcGranting ticket \<Rightarrow>
          (let k = rt_links s ! h in
           case res of
             None \<Rightarrow> link_close h (put_link h (k\<lparr>rk_stage := RtcOver\<rparr>) s)
           | Some aid \<Rightarrow>
               (if rk_early k then trigger_close aid (rk_peer k) (put_link h (k\<lparr>rk_stage := RtcOver\<rparr>) s)
                else rtc_admit op aid h s))
      | _ \<Rightarrow> s)"

section \<open>Frames\<close>

definition forward_frame :: "rtc_options \<Rightarrow> jsstr \<Rightarrow> bytes \<Rightarrow> rtc_transport \<Rightarrow> rtc_transport" where
  "forward_frame op aid frame s = (if length frame > ro_cap op then s else layer_message aid frame s)"

definition reliable_frame :: "rtc_options \<Rightarrow> jsstr \<Rightarrow> bytes \<Rightarrow> rtc_transport \<Rightarrow> rtc_transport" where
  "reliable_frame op aid buf s = (case jm_get (rt_inbound s) aid of
     None \<Rightarrow> (if is_chunk_frame buf then s else forward_frame op aid buf s)
   | Some r \<Rightarrow>
       (let (r, out) = rtc_receive (ro_cap op) r buf; s = s\<lparr>rt_inbound := jm_set (rt_inbound s) aid r\<rparr>
        in case out of RtcForward m \<Rightarrow> layer_message aid m s | _ \<Rightarrow> s))"

definition channel_message :: "rtc_options \<Rightarrow> bytes \<Rightarrow> nat \<Rightarrow> rtc_transport \<Rightarrow> rtc_transport" where
  "channel_message op buf h s =
     (if \<not> h < length (rt_links s) then s
      else let k = rt_links s ! h in
        if rk_unreliable k then
          (case rk_actor k of
             None \<Rightarrow> s
           | Some aid \<Rightarrow> (if \<not> jm_has (rt_channels s) aid then s else forward_frame op aid buf s))
        else case rk_actor k of
          Some aid \<Rightarrow> reliable_frame op aid buf s
        | None \<Rightarrow>
            (if rk_stage k \<noteq> RtcTicket \<or> rk_early k then s
             else let ticket = text_decode buf
                  in put_link h (k\<lparr>rk_stage := if ro_limited op then RtcLimiting ticket else RtcGranting ticket\<rparr>) s))"

text \<open>The channel's close event, once; an unreliable channel has the handler once it is wired.\<close>

definition channel_closed :: "nat \<Rightarrow> rtc_transport \<Rightarrow> rtc_transport" where
  "channel_closed h s =
     (if \<not> h < length (rt_links s) \<or> rk_gone (rt_links s ! h) then s
      else let k = rt_links s ! h in
        if rk_unreliable k then
          (let s = put_link h (k\<lparr>rk_gone := True, rk_open := False\<rparr>) s
           in case rk_actor k of None \<Rightarrow> s | Some aid \<Rightarrow> s\<lparr>rt_unreliable := jm_delete (rt_unreliable s) aid\<rparr>)
        else
          (let s = put_link h (k\<lparr>rk_gone := True, rk_open := False, rk_early := True\<rparr>) s
           in case rk_actor k of None \<Rightarrow> s | Some aid \<Rightarrow> trigger_close aid (rk_peer k) s))"

text \<open>The \<open>message\<close> listener of the actor served by channel \<open>h\<close>; \<open>buffered\<close> gives \<open>bufferedAmount\<close>.\<close>

definition reliable_deliver :: "rtc_options \<Rightarrow> (nat \<Rightarrow> nat) \<Rightarrow> bytes \<Rightarrow> jsstr \<Rightarrow> nat \<Rightarrow> rtc_transport \<Rightarrow> rtc_transport" where
  "reliable_deliver op buffered m aid h s =
     (if \<not> rk_open (rt_links s ! h) then s
      else if check_backpressure (buffered h) (ro_max_buffered op) then s
      else if length m \<le> rtc_max_frame_bytes then link_send h [m] s
      else
        let seq = (case jm_get (rt_seqs s) aid of None \<Rightarrow> 0 | Some n \<Rightarrow> n); (seq', bufs) = rtc_send seq m
        in link_send h bufs (s\<lparr>rt_seqs := jm_set (rt_seqs s) aid seq'\<rparr>))"

definition rtc_deliver :: "rtc_options \<Rightarrow> (nat \<Rightarrow> nat) \<Rightarrow> bytes \<Rightarrow> nat \<Rightarrow> rtc_transport \<Rightarrow> rtc_transport" where
  "rtc_deliver op buffered m h s =
     (case rk_actor (rt_links s ! h) of
        None \<Rightarrow> s
      | Some aid \<Rightarrow>
          if (aid, h) \<notin> set (rt_listening s) then s
          else (case (jm_get (rt_unreliable s) aid, ro_topic op) of
             (Some u, Some matches) \<Rightarrow>
               (if rk_open (rt_links s ! u) \<and> matches (extract_frame_topic m)
                then if check_backpressure (buffered u) (ro_max_buffered op) then s
                     else if length m \<le> rtc_max_frame_bytes then link_send u [m] s else s
                else reliable_deliver op buffered m aid h s)
           | _ \<Rightarrow> reliable_deliver op buffered m aid h s))"

text \<open>The \<open>kick\<close> listener: \<open>sendCloseFrame\<close>, then \<open>close\<close>.\<close>

definition send_close_frame :: "nat \<Rightarrow> bytes \<Rightarrow> rtc_transport \<Rightarrow> rtc_transport" where
  "send_close_frame h payload s = (case close_control_frame close_kicked (text_decode payload) of
     None \<Rightarrow> s | Some f \<Rightarrow> link_close h (link_send h [f] s))"

definition rtc_kick :: "bytes \<Rightarrow> nat \<Rightarrow> rtc_transport \<Rightarrow> rtc_transport" where
  "rtc_kick payload h s =
     (case rk_actor (rt_links s ! h) of
        None \<Rightarrow> s
      | Some aid \<Rightarrow> (if (aid, h) \<notin> set (rt_listening s) then s else send_close_frame h payload s))"

section \<open>Disposal\<close>

definition dispose_channel :: "jsstr \<times> nat \<Rightarrow> rtc_transport \<Rightarrow> rtc_transport" where
  "dispose_channel c s = (case c of (aid, h) \<Rightarrow>
     layer_close aid (send_close_frame h (text_encode reason_shutdown) (s\<lparr>rt_closed := insert aid (rt_closed s)\<rparr>)))"

definition rtc_dispose :: "rtc_transport \<Rightarrow> rtc_transport" where
  "rtc_dispose s =
     (let live = rt_channels s;
          s = fold (link_close \<circ> snd) (rt_unreliable s)
                (s\<lparr>rt_channels := [], rt_peers := [], rt_seqs := [], rt_inbound := []\<rparr>);
          s = s\<lparr>rt_unreliable := [], rt_waiting := []\<rparr>
      in fold dispose_channel live s)"

section \<open>Runs\<close>

text \<open>A step carries the ids that \<open>grantAccess\<close> answered in it: any id, at any time.\<close>

inductive rtc_step :: "rtc_options \<Rightarrow> jsstr list \<Rightarrow> rtc_transport \<Rightarrow> rtc_transport \<Rightarrow> bool" for op where
  channel: "rtc_step op [] s (on_channel_open label peer s)"
| message: "rtc_step op [] s (channel_message op buf h s)"
| limiter: "rtc_step op [] s (peer_limiter_answer allowed h s)"
| refuse: "rtc_step op [] s (rtc_grant_answer op None h s)"
| grant: "rtc_step op [aid] s (rtc_grant_answer op (Some aid) h s)"
| closed: "rtc_step op [] s (channel_closed h s)"
| state: "rtc_step op [] s (on_peer_state_change peer st s)"
| deliver: "rtc_step op [] s (rtc_deliver op buffered m h s)"
| kick: "rtc_step op [] s (rtc_kick payload h s)"
| dispose: "rtc_step op [] s (rtc_dispose s)"

inductive rtc_reachable :: "rtc_options \<Rightarrow> jsstr list \<Rightarrow> rtc_transport \<Rightarrow> bool" for op where
  start: "rtc_reachable op [] new_rtc_transport"
| turn: "rtc_reachable op granted s \<Longrightarrow> rtc_step op ids s s' \<Longrightarrow> rtc_reachable op (granted @ ids) s'"

text \<open>An id this transport has no channel for and has not reported closed.\<close>

definition never_used :: "jsstr \<Rightarrow> rtc_transport \<Rightarrow> bool" where
  "never_used aid s \<longleftrightarrow> aid \<notin> rt_closed s \<and> \<not> jm_has (rt_channels s) aid"

end
