(* ===== verification/Transport_Rtc_Props.thy ===== *)
theory Transport_Rtc_Props
  imports Transport_Rtc
begin

text \<open>
  The tables of the data-channel transport over a whole run, from the view of one actor \<open>a\<close> that is
  granted at most once: it is live on its channel or was reported closed, once. Ids of other actors may
  be granted again and again. For \<open>a\<close> itself the bound is needed: the set of closed actors is not
  cleared, so an actor that comes back under its old id is never reported closed again.
\<close>

declare map_of_eq_Some_iff [simp del] Some_eq_map_of_iff [simp del]

section \<open>Invariant\<close>

definition link_core :: "rtc_link \<Rightarrow> rtc_link" where
  "link_core k = k\<lparr>rk_open := True, rk_sent := []\<rparr>"

definition cores :: "rtc_transport \<Rightarrow> rtc_link list" where
  "cores s = map link_core (rt_links s)"

definition closes :: "rtc_transport \<Rightarrow> jsstr list" where
  "closes s = List.map_filter (\<lambda>c. case c of RtcClose a \<Rightarrow> Some a | _ \<Rightarrow> None) (rt_calls s)"

text \<open>The channels, over the parts of the links that sending and closing leave alone.\<close>

definition links_ok :: "jsstr \<Rightarrow> rtc_link list \<Rightarrow> (jsstr, nat) jsmap \<Rightarrow> jsstr set \<Rightarrow> bool" where
  "links_ok a ks chans dead \<longleftrightarrow>
     (\<forall>aid h. jm_get chans aid = Some h \<longrightarrow> h < length ks \<and> rk_stage (ks ! h) = RtcLive \<and> rk_actor (ks ! h) = Some aid) \<and>
     (jm_get chans a \<noteq> None \<longrightarrow> a \<notin> dead) \<and>
     (\<forall>h < length ks. (rk_unreliable (ks ! h) \<longrightarrow> rk_stage (ks ! h) = RtcTicket) \<and>
        (\<not> rk_unreliable (ks ! h) \<longrightarrow> (rk_actor (ks ! h) \<noteq> None \<longleftrightarrow> rk_stage (ks ! h) = RtcLive)) \<and>
        (rk_stage (ks ! h) = RtcLive \<and> rk_actor (ks ! h) = Some a \<longrightarrow> jm_get chans a = Some h \<or> a \<in> dead))"

definition second_ok :: "jsstr \<Rightarrow> rtc_link list \<Rightarrow> (jsstr, nat) jsmap \<Rightarrow> (jsstr, nat) jsmap \<Rightarrow> (jsstr, nat) jsmap \<Rightarrow> bool" where
  "second_ok a ks chans second waiting \<longleftrightarrow>
     (\<forall>aid u. jm_get second aid = Some u \<longrightarrow> u < length ks \<and> rk_unreliable (ks ! u)) \<and>
     (jm_get second a \<noteq> None \<longrightarrow> jm_get chans a \<noteq> None) \<and>
     (\<forall>p u. jm_get waiting p = Some u \<longrightarrow> u < length ks \<and> rk_unreliable (ks ! u))"

definition rtc_inv :: "jsstr \<Rightarrow> rtc_transport \<Rightarrow> bool" where
  "rtc_inv a s \<longleftrightarrow> jm_ok (rt_channels s) \<and> links_ok a (cores s) (rt_channels s) (rt_closed s) \<and>
     second_ok a (cores s) (rt_channels s) (rt_unreliable s) (rt_waiting s) \<and>
     (\<forall>p. jm_get (rt_peers s) p = Some a \<longrightarrow> (\<exists>h. jm_get (rt_channels s) a = Some h \<and> rk_peer (cores s ! h) = p)) \<and>
     (\<forall>aid. (jm_get (rt_seqs s) aid = None) = (jm_get (rt_channels s) aid = None) \<and>
        (jm_get (rt_inbound s) aid = None) = (jm_get (rt_channels s) aid = None)) \<and>
     (\<forall>aid h. (aid, h) \<in> set (rt_listening s) \<longrightarrow> jm_get (rt_channels s) aid \<noteq> None) \<and>
     count_list (closes s) a = (if a \<in> rt_closed s then 1 else 0) \<and> set (closes s) = rt_closed s"

definition live_channels :: "jsstr \<Rightarrow> rtc_transport \<Rightarrow> bool" where
  "live_channels a s \<longleftrightarrow> (\<forall>h. jm_get (rt_channels s) a = Some h \<longrightarrow> \<not> rk_gone (cores s ! h))"

lemma links_okD:
  assumes "links_ok a ks chans dead" "jm_get chans aid = Some h"
  shows "h < length ks" "rk_stage (ks ! h) = RtcLive" "rk_actor (ks ! h) = Some aid" "\<not> rk_unreliable (ks ! h)"
proof -
  from assms show h: "h < length ks" "rk_stage (ks ! h) = RtcLive" "rk_actor (ks ! h) = Some aid"
    unfolding links_ok_def by blast+
  from assms(1) h(1,2) show "\<not> rk_unreliable (ks ! h)" by (auto simp: links_ok_def)
qed

lemma rtc_inv_links: "rtc_inv a s \<Longrightarrow> links_ok a (cores s) (rt_channels s) (rt_closed s)"
  and rtc_inv_second: "rtc_inv a s \<Longrightarrow> second_ok a (cores s) (rt_channels s) (rt_unreliable s) (rt_waiting s)"
  by (simp_all add: rtc_inv_def)

lemmas rtc_links = links_okD [OF rtc_inv_links]

lemma rtc_alive: "rtc_inv a s \<Longrightarrow> jm_get (rt_channels s) a = Some h \<Longrightarrow> a \<notin> rt_closed s"
  by (auto simp: rtc_inv_def links_ok_def)

lemma rtc_peers:
  "rtc_inv a s \<Longrightarrow> jm_get (rt_peers s) p = Some a \<Longrightarrow> \<exists>h. jm_get (rt_channels s) a = Some h \<and> rk_peer (cores s ! h) = p"
  unfolding rtc_inv_def by blast

lemma link_core_simps [simp]:
  "rk_unreliable (link_core k) = rk_unreliable k" "rk_peer (link_core k) = rk_peer k" "rk_gone (link_core k) = rk_gone k"
  "rk_stage (link_core k) = rk_stage k" "rk_early (link_core k) = rk_early k" "rk_actor (link_core k) = rk_actor k"
  "link_core (k\<lparr>rk_open := b\<rparr>) = link_core k" "link_core (k\<lparr>rk_sent := x\<rparr>) = link_core k"
  by (simp_all add: link_core_def)

lemma cores_nth [simp]: "h < length (rt_links s) \<Longrightarrow> cores s ! h = link_core (rt_links s ! h)"
  and cores_length [simp]: "length (cores s) = length (rt_links s)"
  by (simp_all add: cores_def)

lemma table_updates [simp]:
  "cores (s\<lparr>rt_channels := x0\<rparr>) = cores s" "cores (s\<lparr>rt_peers := x1\<rparr>) = cores s" "cores (s\<lparr>rt_closed := x2\<rparr>) = cores s" "cores (s\<lparr>rt_seqs := x3\<rparr>) = cores s" "cores (s\<lparr>rt_inbound := x4\<rparr>) = cores s" "cores (s\<lparr>rt_unreliable := x5\<rparr>) = cores s" "cores (s\<lparr>rt_waiting := x6\<rparr>) = cores s" "cores (s\<lparr>rt_listening := x7\<rparr>) = cores s" "cores (s\<lparr>rt_closed_peers := x8\<rparr>) = cores s"
  "closes (s\<lparr>rt_channels := x0\<rparr>) = closes s" "closes (s\<lparr>rt_peers := x1\<rparr>) = closes s" "closes (s\<lparr>rt_closed := x2\<rparr>) = closes s" "closes (s\<lparr>rt_seqs := x3\<rparr>) = closes s" "closes (s\<lparr>rt_inbound := x4\<rparr>) = closes s" "closes (s\<lparr>rt_unreliable := x5\<rparr>) = closes s" "closes (s\<lparr>rt_waiting := x6\<rparr>) = closes s" "closes (s\<lparr>rt_listening := x7\<rparr>) = closes s" "closes (s\<lparr>rt_closed_peers := x8\<rparr>) = closes s"
  by (simp_all add: cores_def closes_def)

lemma cores_put: "cores (put_link h k s) = (cores s)[h := link_core k]"
  by (simp add: cores_def put_link_def map_update)

lemma cores_same: "link_core k = link_core (rt_links s ! h) \<Longrightarrow> cores (put_link h k s) = cores s"
  by (cases "h < length (rt_links s)") (simp_all add: cores_put list_update_same_conv list_update_beyond)

lemma cores_send [simp]: "cores (link_send h bs s) = cores s" and cores_close [simp]: "cores (link_close h s) = cores s"
  by (simp_all add: link_send_def link_close_def cores_same)

lemma link_fields [simp]:
  "rt_channels (put_link h k s) = rt_channels s" "rt_peers (put_link h k s) = rt_peers s" "rt_closed (put_link h k s) = rt_closed s"
  "rt_seqs (put_link h k s) = rt_seqs s" "rt_inbound (put_link h k s) = rt_inbound s" "rt_unreliable (put_link h k s) = rt_unreliable s"
  "rt_waiting (put_link h k s) = rt_waiting s" "rt_listening (put_link h k s) = rt_listening s" "rt_calls (put_link h k s) = rt_calls s"
  by (simp_all add: put_link_def)

text \<open>Sending on a link and closing it keep everything but the link's own open flag and output.\<close>

definition same_tables :: "rtc_transport \<Rightarrow> rtc_transport \<Rightarrow> bool" where
  "same_tables s t \<longleftrightarrow> cores t = cores s \<and> rt_channels t = rt_channels s \<and> rt_peers t = rt_peers s \<and> rt_closed t = rt_closed s \<and>
     (\<forall>a. (jm_get (rt_seqs t) a = None) = (jm_get (rt_seqs s) a = None)) \<and>
     (\<forall>a. (jm_get (rt_inbound t) a = None) = (jm_get (rt_inbound s) a = None)) \<and>
     rt_unreliable t = rt_unreliable s \<and> rt_waiting t = rt_waiting s \<and> rt_listening t = rt_listening s \<and> closes t = closes s"

lemma same_tables_inv: "same_tables s t \<Longrightarrow> rtc_inv a t = rtc_inv a s"
  and same_tables_live: "same_tables s t \<Longrightarrow> live_channels a t = live_channels a s"
  by (simp_all add: same_tables_def rtc_inv_def live_channels_def)

lemma same_tables_refl [simp]: "same_tables s s"
  and same_tables_trans: "same_tables s t \<Longrightarrow> same_tables t u \<Longrightarrow> same_tables s u"
  by (simp_all add: same_tables_def)

lemma closes_fields [simp]:
  "closes (put_link h k s) = closes s" "closes (layer_message a m s) = closes s" "closes (layer_close a s) = closes s @ [a]"
  by (simp_all add: closes_def put_link_def layer_message_def layer_close_def List.map_filter_def)

lemma same_send: "same_tables s (link_send h bs s)" and same_close: "same_tables s (link_close h s)"
  by (simp_all add: same_tables_def) (simp_all add: link_send_def link_close_def)

lemma same_message: "same_tables s (layer_message a m s)"
  by (simp add: same_tables_def cores_def) (simp add: layer_message_def)

lemma same_close_frame: "same_tables s (send_close_frame h p s)"
  by (simp add: send_close_frame_def same_tables_trans [OF same_send same_close] split: option.split)

lemma same_deliver:
  assumes "rtc_inv a s" shows "same_tables s (rtc_deliver op buffered m h s)"
proof -
  have seqs: "same_tables s (s\<lparr>rt_seqs := jm_set (rt_seqs s) aid n\<rparr>)" if "(aid, h) \<in> set (rt_listening s)" for aid n
  proof -
    have "jm_get (rt_seqs s) aid \<noteq> None" using assms that unfolding rtc_inv_def by blast
    then show ?thesis by (auto simp: same_tables_def jsmap_simps cores_def closes_def)
  qed
  have "same_tables s (reliable_deliver op buffered m aid h s)" if "(aid, h) \<in> set (rt_listening s)" for aid
    using same_tables_trans [OF seqs [OF that] same_send] same_send
    by (simp add: reliable_deliver_def Let_def split: prod.split)
  then show ?thesis by (auto simp: rtc_deliver_def same_send split: option.split)
qed

lemma same_message_step:
  assumes "rtc_inv a s" "h < length (rt_links s)" "rk_unreliable (rt_links s ! h) \<or> rk_actor (rt_links s ! h) \<noteq> None"
  shows "same_tables s (channel_message op buf h s)"
proof -
  have f: "same_tables s (forward_frame op aid b s)" for aid b by (simp add: forward_frame_def same_message)
  have i: "same_tables s (s\<lparr>rt_inbound := jm_set (rt_inbound s) aid r'\<rparr>)" if "jm_get (rt_inbound s) aid = Some r" for aid r r'
    using that by (auto simp: same_tables_def jsmap_simps cores_def closes_def)
  have "same_tables s (reliable_frame op aid buf s)" for aid
    using f by (auto simp: reliable_frame_def Let_def split: option.split prod.split rtc_in.split
      intro: i same_tables_trans [OF i same_message])
  with f show ?thesis using assms(2,3) by (auto simp: channel_message_def Let_def split: option.split)
qed

section \<open>Closing keeps it\<close>

lemma close_unreliable_fields:
  "rt_channels (close_unreliable a s) = rt_channels s" "rt_peers (close_unreliable a s) = rt_peers s"
  "rt_closed (close_unreliable a s) = rt_closed s" "rt_seqs (close_unreliable a s) = rt_seqs s"
  "rt_inbound (close_unreliable a s) = rt_inbound s" "rt_waiting (close_unreliable a s) = rt_waiting s"
  "rt_listening (close_unreliable a s) = rt_listening s" "rt_calls (close_unreliable a s) = rt_calls s"
  "cores (close_unreliable a s) = cores s" "jm_get (rt_unreliable (close_unreliable a s)) b = (if b = a then None else jm_get (rt_unreliable s) b)"
  by (simp_all add: close_unreliable_def jsmap_simps split: option.split) (simp_all add: cores_def link_close_def jsmap_simps)

lemma layer_close_fields:
  "rt_channels (layer_close a s) = rt_channels s" "rt_peers (layer_close a s) = rt_peers s" "rt_closed (layer_close a s) = rt_closed s"
  "rt_seqs (layer_close a s) = rt_seqs s" "rt_inbound (layer_close a s) = rt_inbound s" "rt_waiting (layer_close a s) = rt_waiting s"
  "rt_unreliable (layer_close a s) = rt_unreliable s" "rt_listening (layer_close a s) = filter (\<lambda>l. fst l \<noteq> a) (rt_listening s)"
  "cores (layer_close a s) = cores s"
  by (simp_all add: layer_close_def cores_def)

lemma trigger_close_facts:
  fixes peer :: jsstr
  assumes "aid \<notin> rt_closed s"
  defines "t \<equiv> trigger_close aid peer s"
  shows "rt_channels t = jm_delete (rt_channels s) aid" "rt_peers t = jm_delete (rt_peers s) peer" "rt_closed t = insert aid (rt_closed s)"
    "rt_seqs t = jm_delete (rt_seqs s) aid" "rt_inbound t = jm_delete (rt_inbound s) aid" "rt_waiting t = jm_delete (rt_waiting s) peer"
    "rt_listening t = filter (\<lambda>l. fst l \<noteq> aid) (rt_listening s)" "closes t = closes s @ [aid]" "cores t = cores s"
    "jm_get (rt_unreliable t) b = (if b = aid then None else jm_get (rt_unreliable s) b)"
  using assms(1) unfolding t_def trigger_close_def Let_def
  by (simp_all add: layer_close_fields close_unreliable_fields) (simp_all add: cores_def closes_def close_unreliable_fields)

lemma trigger_close_dead: "aid \<in> rt_closed s \<Longrightarrow> trigger_close aid peer s = s"
  by (simp add: trigger_close_def)

lemma links_ok_close:
  "links_ok a ks chans dead \<Longrightarrow> links_ok a ks (jm_delete chans aid) (insert aid dead)"
  unfolding links_ok_def jsmap_simps by auto

lemma second_ok_close:
  assumes "second_ok a ks chans second waiting"
    and "\<And>b. jm_get second' b = (if b = aid then None else jm_get second b)"
  shows "second_ok a ks (jm_delete chans aid) second' (jm_delete waiting p)"
  using assms unfolding second_ok_def jsmap_simps by (auto split: if_splits)

lemma trigger_close_inv:
  assumes "rtc_inv a s" and "\<And>h. aid = a \<Longrightarrow> jm_get (rt_channels s) a = Some h \<Longrightarrow> rk_peer (cores s ! h) = peer"
  shows "rtc_inv a (trigger_close aid peer s)"
proof (cases "aid \<in> rt_closed s")
  case False
  note t = trigger_close_facts [OF False, of peer]
  have p: "\<exists>h. jm_get (rt_channels s) a = Some h \<and> rk_peer (cores s ! h) = q" if "jm_get (rt_peers s) q = Some a" for q
    using assms(1) that unfolding rtc_inv_def by blast
  then have "\<exists>h. jm_get (jm_delete (rt_channels s) aid) a = Some h \<and> rk_peer (cores s ! h) = q"
    if "jm_get (jm_delete (rt_peers s) peer) q = Some a" for q
    using that assms(2) unfolding jsmap_simps by (fastforce split: if_splits)
  moreover have "jm_ok (jm_delete (rt_channels s) aid)" "links_ok a (cores s) (jm_delete (rt_channels s) aid) (insert aid (rt_closed s))"
    "second_ok a (cores s) (jm_delete (rt_channels s) aid) (rt_unreliable (trigger_close aid peer s)) (jm_delete (rt_waiting s) peer)"
    using assms(1) second_ok_close [OF _ t(10)] by (auto simp: rtc_inv_def links_ok_close)
  moreover have "jm_get (jm_delete (rt_channels s) aid) b \<noteq> None" if "(b, h) \<in> set (filter (\<lambda>l. fst l \<noteq> aid) (rt_listening s))" for b h
    using assms(1) that unfolding rtc_inv_def jsmap_simps by auto
  ultimately show ?thesis
    using assms(1) False unfolding rtc_inv_def t by (auto simp: jsmap_simps)
qed (simp add: trigger_close_dead assms(1))

lemma trigger_close_live:
  assumes "live_channels a s \<or> aid = a \<and> aid \<notin> rt_closed s"
  shows "live_channels a (trigger_close aid peer s)"
proof (cases "aid \<in> rt_closed s")
  case False
  note t = trigger_close_facts [OF False, of peer]
  from assms show ?thesis unfolding live_channels_def t jsmap_simps by (auto split: if_splits)
qed (use assms in \<open>auto simp: trigger_close_dead\<close>)

section \<open>The other steps\<close>

lemma nth_update: "xs[i := x] ! j = (if i = j \<and> j < length xs then x else xs ! j)"
  by (cases "i = j"; cases "j < length xs") (simp_all add: list_update_beyond)

lemma links_ok_update:
  assumes "links_ok a ks chans dead" "\<And>b h'. jm_get chans b = Some h' \<Longrightarrow> h' \<noteq> h" "rk_stage k \<noteq> RtcLive"
    "rk_unreliable k \<longrightarrow> rk_stage k = RtcTicket" "\<not> rk_unreliable k \<longrightarrow> rk_actor k = None"
  shows "links_ok a (ks[h := k]) chans dead"
  using assms unfolding links_ok_def by (auto simp: nth_update split: if_splits)

lemma links_ok_keep:
  assumes "links_ok a ks chans dead" "rk_unreliable k = rk_unreliable (ks ! h)" "rk_stage k = rk_stage (ks ! h)" "rk_actor k = rk_actor (ks ! h)"
  shows "links_ok a (ks[h := k]) chans dead"
  using assms unfolding links_ok_def by (auto simp: nth_update split: if_splits)

lemma second_ok_waiting: "second_ok a ks chans second waiting \<Longrightarrow> jm_get waiting p = Some u \<Longrightarrow> u < length ks \<and> rk_unreliable (ks ! u)"
  by (simp add: second_ok_def)

lemma second_ok_update:
  assumes "second_ok a ks chans second waiting" "rk_unreliable k = rk_unreliable (ks ! h)"
  shows "second_ok a (ks[h := k]) chans second waiting"
  using assms unfolding second_ok_def by (auto simp: nth_update split: if_splits)

lemma put_link_inv:
  assumes "rtc_inv a s" "h < length (rt_links s)" "\<not> rk_unreliable (rt_links s ! h)" "rk_stage (rt_links s ! h) \<noteq> RtcLive"
    "rk_stage k \<noteq> RtcLive" "rk_unreliable k = rk_unreliable (rt_links s ! h)" "rk_actor k = rk_actor (rt_links s ! h)" "rk_peer k = rk_peer (rt_links s ! h)"
  shows "rtc_inv a (put_link h k s)" "live_channels a s \<Longrightarrow> live_channels a (put_link h k s)"
proof -
  have o: "h' \<noteq> h" if "jm_get (rt_channels s) b = Some h'" for b h'
    using rtc_links(1,2) [OF assms(1) that] assms(4) by auto
  have a: "rk_actor (rt_links s ! h) = None"
    using rtc_inv_links [OF assms(1)] assms(2-4) by (auto simp: links_ok_def)
  have "links_ok a ((cores s)[h := link_core k]) (rt_channels s) (rt_closed s)"
    by (rule links_ok_update [OF rtc_inv_links [OF assms(1)] o]) (use assms a in auto)
  moreover have "second_ok a ((cores s)[h := link_core k]) (rt_channels s) (rt_unreliable s) (rt_waiting s)"
    by (rule second_ok_update [OF rtc_inv_second [OF assms(1)]]) (use assms in simp)
  moreover have "\<exists>h'. jm_get (rt_channels s) a = Some h' \<and> rk_peer ((cores s)[h := link_core k] ! h') = p" if "jm_get (rt_peers s) p = Some a" for p
    using assms(1) that o unfolding rtc_inv_def by (metis nth_list_update_neq)
  ultimately show "rtc_inv a (put_link h k s)" using assms(1) by (simp add: rtc_inv_def cores_put)
  show "live_channels a s \<Longrightarrow> live_channels a (put_link h k s)"
    using o by (auto simp: live_channels_def cores_put nth_update)
qed

lemma links_ok_append:
  assumes "links_ok a ks chans dead" "rk_stage k = RtcTicket" "rk_actor k = None"
  shows "links_ok a (ks @ [k]) chans dead"
proof -
  have "h < length ks" if "jm_get chans b = Some h" for b h using links_okD(1) [OF assms(1) that] .
  with assms(1) have "\<forall>aid h. jm_get chans aid = Some h \<longrightarrow>
      h < length (ks @ [k]) \<and> rk_stage ((ks @ [k]) ! h) = RtcLive \<and> rk_actor ((ks @ [k]) ! h) = Some aid"
    by (simp add: links_ok_def nth_append less_SucI)
  with assms show ?thesis unfolding links_ok_def by (simp add: All_less_Suc nth_append)
qed

lemma second_ok_append: "second_ok a ks chans second waiting \<Longrightarrow> second_ok a (ks @ [k]) chans second waiting"
  by (auto simp: second_ok_def nth_append less_SucI)

lemma append_link_inv:
  assumes "rtc_inv a s" "rk_stage k = RtcTicket" "rk_actor k = None"
  shows "rtc_inv a (s\<lparr>rt_links := rt_links s @ [k]\<rparr>)" "live_channels a s \<Longrightarrow> live_channels a (s\<lparr>rt_links := rt_links s @ [k]\<rparr>)"
proof -
  let ?t = "s\<lparr>rt_links := rt_links s @ [k]\<rparr>"
  have c: "cores ?t = cores s @ [link_core k]" by (simp add: cores_def)
  have b: "h < length (cores s)" if "jm_get (rt_channels s) b = Some h" for b h
    using rtc_links(1) [OF assms(1) that] .
  have "links_ok a (cores s) (rt_channels s) (rt_closed s)" "second_ok a (cores s) (rt_channels s) (rt_unreliable s) (rt_waiting s)"
    using assms(1) by (simp_all add: rtc_inv_def)
  then have "links_ok a (cores ?t) (rt_channels s) (rt_closed s)" "second_ok a (cores ?t) (rt_channels s) (rt_unreliable s) (rt_waiting s)"
    using links_ok_append second_ok_append assms(2,3) unfolding c by simp_all
  moreover have "\<exists>h. jm_get (rt_channels s) a = Some h \<and> rk_peer (cores ?t ! h) = p" if "jm_get (rt_peers s) p = Some a" for p
    using assms(1) that b unfolding rtc_inv_def c by (metis nth_append)
  ultimately show "rtc_inv a ?t" using assms(1) by (simp add: rtc_inv_def closes_def)
  show "live_channels a s \<Longrightarrow> live_channels a ?t" using b by (auto simp: live_channels_def c nth_append)
qed

lemma wire_inv:
  assumes "rtc_inv a s" "u < length (rt_links s)" "rk_unreliable (rt_links s ! u)" "aid = a \<Longrightarrow> jm_get (rt_channels s) a \<noteq> None"
  shows "rtc_inv a (wire_unreliable u aid s)" "live_channels a s \<Longrightarrow> live_channels a (wire_unreliable u aid s)"
proof -
  have l: "links_ok a (cores s) (rt_channels s) (rt_closed s)" "second_ok a (cores s) (rt_channels s) (rt_unreliable s) (rt_waiting s)"
    using assms(1) by (simp_all add: rtc_inv_def)
  then have o: "h \<noteq> u" if "jm_get (rt_channels s) b = Some h" for b h
    using rtc_links(1,4) [OF assms(1) that] assms(3) by auto
  let ?ks = "(cores s)[u := link_core ((rt_links s ! u)\<lparr>rk_actor := Some aid\<rparr>)]"
  have c: "cores (wire_unreliable u aid s) = ?ks"
    by (simp add: wire_unreliable_def cores_def put_link_def map_update)
  have "links_ok a ?ks (rt_channels s) (rt_closed s)"
    by (rule links_ok_update [OF l(1) o]) (use l(1) assms(2,3) in \<open>auto simp: links_ok_def\<close>)
  moreover have "second_ok a ?ks (rt_channels s) (jm_set (rt_unreliable s) aid u) (rt_waiting s)"
  proof -
    have "second_ok a ?ks (rt_channels s) (rt_unreliable s) (rt_waiting s)"
      by (rule second_ok_update [OF l(2)]) (use assms(2) in simp)
    then show ?thesis using assms(2-4) by (auto simp: second_ok_def jsmap_simps)
  qed
  moreover have "\<exists>h. jm_get (rt_channels s) a = Some h \<and> rk_peer (?ks ! h) = p" if "jm_get (rt_peers s) p = Some a" for p
    using assms(1) that o unfolding rtc_inv_def by (metis nth_list_update_neq)
  ultimately show "rtc_inv a (wire_unreliable u aid s)"
    using assms(1) unfolding rtc_inv_def c by (simp add: wire_unreliable_def closes_def put_link_def)
  show "live_channels a s \<Longrightarrow> live_channels a (wire_unreliable u aid s)"
    unfolding live_channels_def c using o by (auto simp: wire_unreliable_def nth_update)
qed

lemma channel_open_inv:
  assumes "rtc_inv a s"
  shows "rtc_inv a (on_channel_open label peer s)" "live_channels a s \<Longrightarrow> live_channels a (on_channel_open label peer s)"
proof -
  let ?k = "\<lparr>rk_unreliable = unreliable_label label, rk_peer = peer, rk_open = True, rk_gone = False, rk_stage = RtcTicket,
     rk_early = False, rk_actor = None, rk_sent = []\<rparr>"
  let ?t = "s\<lparr>rt_links := rt_links s @ [?k]\<rparr>"
  have t: "rtc_inv a ?t" "live_channels a s \<Longrightarrow> live_channels a ?t" using append_link_inv [OF assms, of ?k] by simp_all
  have w: "rtc_inv a (?t\<lparr>rt_waiting := jm_set (rt_waiting s) peer (length (rt_links s))\<rparr>)" if "unreliable_label label"
    using t(1) that unfolding rtc_inv_def second_ok_def by (auto simp: cores_def closes_def jsmap_simps nth_append)
  have v: "live_channels a (?t\<lparr>rt_waiting := jm_set (rt_waiting s) peer (length (rt_links s))\<rparr>)" if "live_channels a s"
    using t(2) [OF that] by (simp add: live_channels_def cores_def)
  have a: "jm_get (rt_channels ?t) a \<noteq> None" if "jm_get (rt_peers s) peer = Some a"
    using rtc_peers [OF assms that] by auto
  show "rtc_inv a (on_channel_open label peer s)" "live_channels a s \<Longrightarrow> live_channels a (on_channel_open label peer s)"
    using t w v wire_inv [OF t(1)] a
    by (auto simp: on_channel_open_def Let_def split: option.split)
qed

lemma links_ok_admit:
  assumes ok: "links_ok a ks chans dead" and h: "h < length ks" "rk_stage (ks ! h) \<noteq> RtcLive"
    and new: "aid = a \<Longrightarrow> jm_get chans a = None \<and> a \<notin> dead"
    and k: "\<not> rk_unreliable k" "rk_stage k = RtcLive" "rk_actor k = Some aid"
  shows "links_ok a (ks[h := k]) (jm_set chans aid h) dead"
proof -
  have "h' \<noteq> h" if "jm_get chans b = Some h'" for b h' using links_okD(2) [OF ok that] h(2) by auto
  then show ?thesis using ok h new k unfolding links_ok_def by (auto simp: nth_update jsmap_simps split: if_splits)
qed

lemma second_ok_admit: "second_ok a ks chans second waiting \<Longrightarrow> second_ok a ks (jm_set chans aid h) second waiting"
  unfolding second_ok_def by (auto simp: jsmap_simps)

lemma second_ok_drop: "second_ok a ks chans second waiting \<Longrightarrow> second_ok a ks chans second (jm_delete waiting p)"
  and second_ok_forget: "second_ok a ks chans second waiting \<Longrightarrow> second_ok a ks chans (jm_delete second b) waiting"
  unfolding second_ok_def by (simp_all add: jsmap_simps)

lemma rtc_admit_inv:
  assumes "rtc_inv a s" "h < length (rt_links s)" "rk_stage (rt_links s ! h) = RtcGranting t" "aid = a \<Longrightarrow> never_used a s"
  shows "rtc_inv a (rtc_admit op aid h s)" "live_channels a s \<Longrightarrow> \<not> rk_gone (rt_links s ! h) \<Longrightarrow> live_channels a (rtc_admit op aid h s)"
    "jm_get (rt_channels (rtc_admit op aid h s)) aid = Some h"
proof -
  let ?p = "rk_peer (rt_links s ! h)" and ?k = "(rt_links s ! h)\<lparr>rk_stage := RtcLive, rk_actor := Some aid\<rparr>"
  define u where "u = (put_link h ?k s)\<lparr>rt_channels := jm_set (rt_channels s) aid h, rt_peers := jm_set (rt_peers s) ?p aid,
     rt_seqs := jm_set (rt_seqs s) aid 0, rt_inbound := jm_set (rt_inbound s) aid (new_reassembler (ro_timeout op)),
     rt_listening := rt_listening s @ [(aid, h)]\<rparr>"
  have new: "aid = a \<Longrightarrow> jm_get (rt_channels s) a = None \<and> a \<notin> rt_closed s"
    using assms(4) by (auto simp: never_used_def jm_has_def)
  have rel: "\<not> rk_unreliable (rt_links s ! h)" using rtc_inv_links [OF assms(1)] assms(2,3) by (auto simp: links_ok_def)
  have o: "h' \<noteq> h" if "jm_get (rt_channels s) b = Some h'" for b h'
    using rtc_links(1,2) [OF assms(1) that] assms(3) by auto
  have c: "cores u = (cores s)[h := link_core ?k]" unfolding u_def cores_def by (simp add: put_link_def map_update)
  have t: "rt_channels u = jm_set (rt_channels s) aid h" "rt_closed u = rt_closed s" "rt_unreliable u = rt_unreliable s" "rt_waiting u = rt_waiting s"
    by (simp_all add: u_def)
  have "links_ok a (cores u) (rt_channels u) (rt_closed u)"
    unfolding c t by (rule links_ok_admit [OF rtc_inv_links [OF assms(1)]]) (use assms(2,3) new rel in simp_all)
  moreover have "second_ok a (cores u) (rt_channels u) (rt_unreliable u) (rt_waiting u)"
    unfolding c t by (rule second_ok_admit, rule second_ok_update [OF rtc_inv_second [OF assms(1)]]) (use assms(2) in simp)
  moreover have "\<exists>h'. jm_get (rt_channels u) a = Some h' \<and> rk_peer (cores u ! h') = q" if "jm_get (rt_peers u) q = Some a" for q
  proof (cases "q = ?p")
    case True
    with that have "a = aid" by (simp add: u_def jsmap_simps)
    with True show ?thesis using assms(2) unfolding c by (simp add: u_def jsmap_simps)
  next
    case False
    with that have "jm_get (rt_peers s) q = Some a" by (simp add: u_def jsmap_simps)
    from rtc_peers [OF assms(1) this] obtain h' where "jm_get (rt_channels s) a = Some h'" "rk_peer (cores s ! h') = q" by blast
    with new o show ?thesis unfolding c by (intro exI [of _ h']) (auto simp: u_def jsmap_simps nth_update)
  qed
  moreover have "jm_get (rt_channels u) b \<noteq> None" if "(b, h') \<in> set (rt_listening u)" for b h'
  proof -
    have "jm_get (rt_channels s) b \<noteq> None" if "(b, h') \<in> set (rt_listening s)" using assms(1) that unfolding rtc_inv_def by blast
    with that show ?thesis by (auto simp: u_def jsmap_simps)
  qed
  moreover have "closes u = closes s" "rt_closed u = rt_closed s" by (simp_all add: u_def closes_def put_link_def)
  ultimately have inv: "rtc_inv a u" using assms(1) unfolding rtc_inv_def by (simp add: u_def jsmap_simps)
  have live: "live_channels a u" if "live_channels a s" "\<not> rk_gone (rt_links s ! h)"
    using that assms(2) o unfolding live_channels_def c by (auto simp: u_def jsmap_simps nth_update split: if_splits)
  let ?v = "\<lambda>w. u\<lparr>rt_waiting := jm_delete (rt_waiting u) ?p\<rparr>"
  have "rtc_inv a (?v w)" for w
    using inv second_ok_drop unfolding rtc_inv_def by simp
  moreover have "live_channels a (?v w) = live_channels a u" for w by (simp add: live_channels_def cores_def)
  moreover have w: "w < length (rt_links (?v w))" "rk_unreliable (rt_links (?v w) ! w)" if "jm_get (rt_waiting u) ?p = Some w" for w
    using second_ok_waiting [OF rtc_inv_second [OF inv] that] by auto
  moreover have "jm_get (rt_channels (?v w)) aid \<noteq> None" for w by (simp add: u_def jsmap_simps)
  ultimately have wired: "rtc_inv a (wire_unreliable w aid (?v w))" "live_channels a u \<Longrightarrow> live_channels a (wire_unreliable w aid (?v w))"
    if "jm_get (rt_waiting u) ?p = Some w" for w
    using wire_inv [of a "?v w" w aid] that by auto
  have e: "rtc_admit op aid h s = (case jm_get (rt_waiting u) ?p of None \<Rightarrow> u | Some w \<Rightarrow> wire_unreliable w aid (?v w))"
    by (simp add: rtc_admit_def Let_def u_def split: option.split)
  show "rtc_inv a (rtc_admit op aid h s)" unfolding e using inv wired(1) by (simp split: option.split)
  show "live_channels a (rtc_admit op aid h s)" if "live_channels a s" "\<not> rk_gone (rt_links s ! h)"
    unfolding e using live [OF that] wired(2) by (simp split: option.split)
  show "jm_get (rt_channels (rtc_admit op aid h s)) aid = Some h"
    unfolding e by (simp add: u_def wire_unreliable_def jsmap_simps split: option.split)
qed

text \<open>Disposing of the channels one by one, after the tables were emptied.\<close>

definition emptied :: "rtc_transport \<Rightarrow> bool" where
  "emptied s \<longleftrightarrow> rt_channels s = [] \<and> rt_peers s = [] \<and> rt_seqs s = [] \<and> rt_inbound s = [] \<and> rt_unreliable s = [] \<and> rt_waiting s = []"

lemma dispose_channel_facts:
  "cores (dispose_channel (aid, h) s) = cores s" "rt_closed (dispose_channel (aid, h) s) = insert aid (rt_closed s)"
  "closes (dispose_channel (aid, h) s) = closes s @ [aid]"
  "rt_listening (dispose_channel (aid, h) s) = filter (\<lambda>l. fst l \<noteq> aid) (rt_listening s)"
  "emptied s \<Longrightarrow> emptied (dispose_channel (aid, h) s)"
proof -
  let ?s = "s\<lparr>rt_closed := insert aid (rt_closed s)\<rparr>"
  have "same_tables ?s (send_close_frame h p ?s)" for p by (rule same_close_frame)
  moreover have "rt_seqs (send_close_frame h p ?s) = rt_seqs s" "rt_inbound (send_close_frame h p ?s) = rt_inbound s" for p
    by (simp_all add: send_close_frame_def link_close_def link_send_def split: option.split)
  ultimately show "cores (dispose_channel (aid, h) s) = cores s" "rt_closed (dispose_channel (aid, h) s) = insert aid (rt_closed s)"
    "closes (dispose_channel (aid, h) s) = closes s @ [aid]"
    "rt_listening (dispose_channel (aid, h) s) = filter (\<lambda>l. fst l \<noteq> aid) (rt_listening s)"
    "emptied s \<Longrightarrow> emptied (dispose_channel (aid, h) s)"
    by (simp_all add: dispose_channel_def layer_close_fields same_tables_def emptied_def)
qed

lemma dispose_all:
  "emptied s \<Longrightarrow> emptied (fold dispose_channel cs s) \<and> cores (fold dispose_channel cs s) = cores s \<and>
     rt_closed (fold dispose_channel cs s) = rt_closed s \<union> fst ` set cs \<and> closes (fold dispose_channel cs s) = closes s @ map fst cs \<and>
     rt_listening (fold dispose_channel cs s) = filter (\<lambda>l. fst l \<notin> fst ` set cs) (rt_listening s)"
proof (induction cs arbitrary: s)
  case (Cons c cs)
  obtain a h where c: "c = (a, h)" by (cases c)
  show ?case using Cons.IH [of "dispose_channel c s"] Cons.prems
    by (simp add: c dispose_channel_facts)
qed simp

lemma fold_link_close:
  "cores (fold (link_close \<circ> snd) xs s) = cores s \<and> emptied (fold (link_close \<circ> snd) xs s) = emptied s \<and>
   closes (fold (link_close \<circ> snd) xs s) = closes s \<and> rt_closed (fold (link_close \<circ> snd) xs s) = rt_closed s \<and>
   rt_listening (fold (link_close \<circ> snd) xs s) = rt_listening s \<and> rt_channels (fold (link_close \<circ> snd) xs s) = rt_channels s \<and>
   rt_peers (fold (link_close \<circ> snd) xs s) = rt_peers s \<and> rt_seqs (fold (link_close \<circ> snd) xs s) = rt_seqs s \<and>
   rt_inbound (fold (link_close \<circ> snd) xs s) = rt_inbound s"
proof (induction xs arbitrary: s)
  case (Cons x xs)
  have "emptied (link_close h s) = emptied s" "closes (link_close h s) = closes s" "rt_closed (link_close h s) = rt_closed s"
    "rt_listening (link_close h s) = rt_listening s" "rt_channels (link_close h s) = rt_channels s" "rt_peers (link_close h s) = rt_peers s"
    "rt_seqs (link_close h s) = rt_seqs s" "rt_inbound (link_close h s) = rt_inbound s" for h s
    by (simp_all add: link_close_def emptied_def)
  then show ?case using Cons.IH [of "link_close (snd x) s"] by simp
qed simp

lemma distinct_count: "distinct xs \<Longrightarrow> count_list xs x = (if x \<in> set xs then 1 else 0)"
  by (induction xs) auto

lemma dispose_inv:
  assumes "rtc_inv a s" shows "rtc_inv a (rtc_dispose s)" "live_channels a (rtc_dispose s)" "emptied (rtc_dispose s)"
    "rt_closed (rtc_dispose s) = rt_closed s \<union> set (jm_keys (rt_channels s))"
proof -
  let ?r = "s\<lparr>rt_channels := [], rt_peers := [], rt_seqs := [], rt_inbound := []\<rparr>"
  define u where "u = (fold (link_close \<circ> snd) (rt_unreliable s) ?r)\<lparr>rt_unreliable := [], rt_waiting := []\<rparr>"
  note f = fold_link_close [of "rt_unreliable s" ?r]
  have u: "emptied u" "cores u = cores s" "closes u = closes s" "rt_closed u = rt_closed s" "rt_listening u = rt_listening s"
    using f by (simp_all add: u_def emptied_def cores_def closes_def)
  let ?cs = "rt_channels s"
  have e: "rtc_dispose s = fold dispose_channel ?cs u" by (simp add: rtc_dispose_def Let_def u_def)
  note d = dispose_all [OF u(1), of ?cs]
  show em: "emptied (rtc_dispose s)" using d by (simp add: e)
  then show "live_channels a (rtc_dispose s)" by (simp add: live_channels_def emptied_def)
  show cl: "rt_closed (rtc_dispose s) = rt_closed s \<union> set (jm_keys (rt_channels s))"
    using d u(4) by (simp add: e)
  have k: "b \<in> fst ` set ?cs \<longleftrightarrow> jm_get ?cs b \<noteq> None" for b by (simp add: map_of_eq_None_iff)
  have ok: "jm_ok ?cs" "links_ok a (cores s) ?cs (rt_closed s)" using assms by (simp_all add: rtc_inv_def)
  have l: "rt_listening (rtc_dispose s) = []"
  proof -
    have "fst x \<in> fst ` set ?cs" if "x \<in> set (rt_listening s)" for x
      using assms that unfolding k rtc_inv_def by (metis prod.collapse)
    with d u(5) show ?thesis by (simp add: e filter_empty_conv)
  qed
  have "a \<notin> rt_closed s" if "a \<in> fst ` set ?cs"
    using that ok(2) unfolding k links_ok_def by auto
  then have "count_list (closes s @ map fst ?cs) a = (if a \<in> rt_closed s \<union> fst ` set ?cs then 1 else 0)"
    using assms distinct_count [OF ok(1), of a] by (auto simp: rtc_inv_def count_list_0_iff)
  moreover have "links_ok a (cores s) [] (rt_closed s \<union> fst ` set ?cs)"
    using ok(2) k unfolding links_ok_def by fastforce
  moreover have "set (closes s @ map fst ?cs) = rt_closed s \<union> fst ` set ?cs" using assms by (simp add: rtc_inv_def)
  ultimately show "rtc_inv a (rtc_dispose s)"
    using em d u l by (simp add: rtc_inv_def emptied_def second_ok_def e)
qed

lemma channel_closed_inv:
  assumes "rtc_inv a s" "live_channels a s"
  shows "rtc_inv a (channel_closed h s)" "live_channels a (channel_closed h s)"
proof -
  have "rtc_inv a (channel_closed h s) \<and> live_channels a (channel_closed h s)"
  proof (cases "h < length (rt_links s) \<and> \<not> rk_gone (rt_links s ! h)")
    case True
    then have h: "h < length (rt_links s)" by blast
    let ?k = "rt_links s ! h"
    show ?thesis
    proof (cases "rk_unreliable ?k")
      case u: True
      let ?g = "?k\<lparr>rk_gone := True, rk_open := False\<rparr>"
      have o: "h' \<noteq> h" if "jm_get (rt_channels s) b = Some h'" for b h'
        using rtc_links(1,4) [OF assms(1) that] u by auto
      have l: "rk_stage ?k = RtcTicket" using rtc_inv_links [OF assms(1)] u h by (auto simp: links_ok_def)
      have "links_ok a ((cores s)[h := link_core ?g]) (rt_channels s) (rt_closed s)"
        by (rule links_ok_update [OF rtc_inv_links [OF assms(1)] o]) (use u l in auto)
      moreover have "second_ok a ((cores s)[h := link_core ?g]) (rt_channels s) (rt_unreliable s) (rt_waiting s)"
        by (rule second_ok_update [OF rtc_inv_second [OF assms(1)]]) (use u h in simp)
      moreover have "\<exists>h'. jm_get (rt_channels s) a = Some h' \<and> rk_peer ((cores s)[h := link_core ?g] ! h') = p"
        if "jm_get (rt_peers s) p = Some a" for p
        using rtc_peers [OF assms(1) that] o by (metis nth_list_update_neq)
      ultimately have p: "rtc_inv a (put_link h ?g s)" using assms(1) by (simp add: rtc_inv_def cores_put)
      have v: "live_channels a (put_link h ?g s)" using assms(2) o by (auto simp: live_channels_def cores_put nth_update)
      have "rtc_inv a (t\<lparr>rt_unreliable := jm_delete (rt_unreliable t) b\<rparr>)" "live_channels a (t\<lparr>rt_unreliable := jm_delete (rt_unreliable t) b\<rparr>) = live_channels a t"
        if "rtc_inv a t" for t b
        using that second_ok_forget by (simp_all add: rtc_inv_def live_channels_def)
      from this [OF p] p v True u show ?thesis by (simp add: channel_closed_def Let_def split: option.split)
    next
      case rel: False
      let ?g = "?k\<lparr>rk_gone := True, rk_open := False, rk_early := True\<rparr>"
      show ?thesis
      proof (cases "rk_actor ?k")
        case None
        then have "rk_stage ?k \<noteq> RtcLive" using rtc_inv_links [OF assms(1)] rel h by (auto simp: links_ok_def)
        with put_link_inv [OF assms(1) h rel _, of ?g] assms(2) True rel None show ?thesis
          by (simp add: channel_closed_def Let_def)
      next
        case (Some aid)
        let ?ks = "(cores s)[h := link_core ?g]"
        have own: "jm_get (rt_channels s) a = Some h \<or> a \<in> rt_closed s" if "aid = a"
          using rtc_inv_links [OF assms(1)] rel h Some that by (auto simp: links_ok_def)
        have "links_ok a ?ks (rt_channels s) (rt_closed s)" "second_ok a ?ks (rt_channels s) (rt_unreliable s) (rt_waiting s)"
          by (rule links_ok_keep [OF rtc_inv_links [OF assms(1)]], use h in simp_all)
            (rule second_ok_update [OF rtc_inv_second [OF assms(1)]], use h in simp)
        moreover have "\<exists>h'. jm_get (rt_channels s) a = Some h' \<and> rk_peer (?ks ! h') = p" if "jm_get (rt_peers s) p = Some a" for p
        proof -
          have "rk_peer (?ks ! h') = rk_peer (cores s ! h')" for h' using h by (cases "h' = h") simp_all
          with rtc_peers [OF assms(1) that] show ?thesis by simp
        qed
        ultimately have p: "rtc_inv a (put_link h ?g s)" using assms(1) by (simp add: rtc_inv_def cores_put)
        have c: "cores (put_link h ?g s) = ?ks" by (simp add: cores_put)
        have peer: "rk_peer (cores (put_link h ?g s) ! h') = rk_peer ?k"
          if "aid = a" "jm_get (rt_channels (put_link h ?g s)) a = Some h'" for h'
        proof -
          have "h' = h" using own [OF that(1)] that(2) rtc_alive [OF assms(1)] by auto
          then show ?thesis using h by (simp add: c)
        qed
        have "live_channels a (put_link h ?g s)" if "aid \<noteq> a \<or> a \<in> rt_closed s"
        proof -
          have "h' \<noteq> h" if "jm_get (rt_channels s) a = Some h'" for h'
            using rtc_links(3) [OF assms(1) that] h Some rtc_alive [OF assms(1) that] \<open>aid \<noteq> a \<or> a \<in> rt_closed s\<close> by auto
          with assms(2) show ?thesis by (auto simp: live_channels_def c)
        qed
        then have "live_channels a (trigger_close aid (rk_peer ?k) (put_link h ?g s))"
          by (intro trigger_close_live) auto
        with trigger_close_inv [OF p peer] True rel Some show ?thesis by (simp add: channel_closed_def Let_def)
      qed
    qed
  qed (use assms in \<open>auto simp: channel_closed_def\<close>)
  then show "rtc_inv a (channel_closed h s)" "live_channels a (channel_closed h s)" by blast+
qed

lemma peer_state_inv:
  assumes "rtc_inv a s" "live_channels a s"
  shows "rtc_inv a (on_peer_state_change peer st s) \<and> live_channels a (on_peer_state_change peer st s)"
proof -
  let ?s = "s\<lparr>rt_closed_peers := rt_closed_peers s @ [peer]\<rparr>"
  have s: "rtc_inv a ?s" "live_channels a ?s" using assms by (simp_all add: rtc_inv_def live_channels_def)
  have "rk_peer (cores ?s ! h) = peer" if "jm_get (rt_peers s) peer = Some a" "jm_get (rt_channels ?s) a = Some h" for h
    using rtc_peers [OF assms(1) that(1)] that(2) by auto
  then have "rtc_inv a (trigger_close aid peer ?s)" "live_channels a (trigger_close aid peer ?s)" if "jm_get (rt_peers s) peer = Some aid" for aid
    using trigger_close_inv [OF s(1), of aid peer] trigger_close_live [of a ?s] s(2) that by blast+
  with s assms show ?thesis by (simp add: on_peer_state_change_def Let_def split: option.split)
qed

lemma grant_answer_inv:
  assumes "rtc_inv a s" "live_channels a s" "\<And>aid. res = Some a \<Longrightarrow> never_used a s"
    and early: "\<And>h. h < length (rt_links s) \<Longrightarrow> \<not> rk_unreliable (rt_links s ! h) \<Longrightarrow> rk_gone (rt_links s ! h) = rk_early (rt_links s ! h)"
  shows "rtc_inv a (rtc_grant_answer op res h s) \<and> live_channels a (rtc_grant_answer op res h s)"
proof (cases "h < length (rt_links s) \<and> (\<exists>t. rk_stage (rt_links s ! h) = RtcGranting t)")
  case True
  then obtain t where h: "h < length (rt_links s)" and t: "rk_stage (rt_links s ! h) = RtcGranting t" by blast
  have rel: "\<not> rk_unreliable (rt_links s ! h)" using rtc_inv_links [OF assms(1)] h t by (auto simp: links_ok_def)
  let ?u = "put_link h ((rt_links s ! h)\<lparr>rk_stage := RtcOver\<rparr>) s"
  have u: "rtc_inv a ?u" "live_channels a ?u"
    using put_link_inv [OF assms(1) h rel, of "(rt_links s ! h)\<lparr>rk_stage := RtcOver\<rparr>"] assms(2) t by simp_all
  show ?thesis
  proof (cases res)
    case None
    from u same_close [of ?u h] have "rtc_inv a (link_close h ?u)" "live_channels a (link_close h ?u)"
      by (simp_all add: same_tables_inv same_tables_live)
    with None h t show ?thesis by (simp add: rtc_grant_answer_def Let_def)
  next
    case (Some aid)
    then have n: "aid = a \<Longrightarrow> never_used a s" by (simp add: assms(3))
    then have "aid = a \<Longrightarrow> jm_get (rt_channels ?u) a = None" by (simp add: never_used_def jm_has_def)
    then have "rtc_inv a (trigger_close aid p ?u)" "live_channels a (trigger_close aid p ?u)" for p
      using trigger_close_inv [OF u(1), of aid p] trigger_close_live [of a ?u aid p] u(2) by auto
    moreover have "rtc_inv a (rtc_admit op aid h s)" "\<not> rk_early (rt_links s ! h) \<Longrightarrow> live_channels a (rtc_admit op aid h s)"
      using rtc_admit_inv [OF assms(1) h t n] assms(2) early [OF h rel] by auto
    ultimately show ?thesis using Some h t by (simp add: rtc_grant_answer_def Let_def)
  qed
qed (use assms(1,2) in \<open>auto simp: rtc_grant_answer_def split: rtc_stage.split\<close>)

text \<open>\<open>earlyClose\<close> records that the channel has gone.\<close>

definition early_ok :: "rtc_transport \<Rightarrow> bool" where
  "early_ok s \<longleftrightarrow> list_all (\<lambda>k. \<not> rk_unreliable k \<longrightarrow> rk_gone k = rk_early k) (cores s)"

lemma early_put:
  "early_ok s \<Longrightarrow> \<not> rk_unreliable k \<longrightarrow> rk_gone k = rk_early k \<Longrightarrow> early_ok (put_link h k s)"
  by (auto simp: early_ok_def cores_put list_all_length nth_update)

lemma early_same: "cores t = cores s \<Longrightarrow> early_ok s \<Longrightarrow> early_ok t"
  by (simp add: early_ok_def)

lemma early_at: "early_ok s \<Longrightarrow> h < length (rt_links s) \<Longrightarrow> \<not> rk_unreliable (rt_links s ! h) \<longrightarrow> rk_gone (rt_links s ! h) = rk_early (rt_links s ! h)"
  by (auto simp: early_ok_def list_all_length)

lemma trigger_close_cores [simp]: "cores (trigger_close a p s) = cores s"
  using trigger_close_facts(9) trigger_close_dead by (cases "a \<in> rt_closed s") auto

lemma early_fields [simp]:
  "early_ok (s\<lparr>rt_unreliable := x\<rparr>) = early_ok s" "early_ok (s\<lparr>rt_waiting := x\<rparr>) = early_ok s"
  "early_ok (link_close h s) = early_ok s" "early_ok (link_send h bs s) = early_ok s" "early_ok (trigger_close a p s) = early_ok s"
  by (simp_all add: early_ok_def)

lemma wire_early: "early_ok s \<Longrightarrow> u < length (rt_links s) \<Longrightarrow> early_ok (wire_unreliable u a s)"
  using early_at [of s u] by (auto simp: wire_unreliable_def intro: early_put)

lemma grant_early:
  assumes "rtc_inv a s" "early_ok s" shows "early_ok (rtc_grant_answer op res h s)"
proof (cases "h < length (rt_links s)")
  case True
  note e = early_at [OF assms(2) True]
  have p: "early_ok (put_link h ((rt_links s ! h)\<lparr>rk_stage := x, rk_actor := y\<rparr>) s)" "early_ok (put_link h ((rt_links s ! h)\<lparr>rk_stage := x\<rparr>) s)" for x y
    using e by (auto intro: early_put [OF assms(2)])
  have "early_ok (rtc_admit op aid h s)" for aid
  proof -
    let ?t = "(put_link h ((rt_links s ! h)\<lparr>rk_stage := RtcLive, rk_actor := Some aid\<rparr>) s)\<lparr>rt_channels := jm_set (rt_channels s) aid h,
       rt_peers := jm_set (rt_peers s) (rk_peer (rt_links s ! h)) aid, rt_seqs := jm_set (rt_seqs s) aid 0,
       rt_inbound := jm_set (rt_inbound s) aid (new_reassembler (ro_timeout op)), rt_listening := rt_listening s @ [(aid, h)]\<rparr>"
    have t: "early_ok ?t" using p(1) by (rule early_same [rotated]) simp
    have "u < length (rt_links ?t)" if "jm_get (rt_waiting s) q = Some u" for q u
      using second_ok_waiting [OF rtc_inv_second [OF assms(1)] that] by (simp add: put_link_def)
    with t show ?thesis by (auto simp: rtc_admit_def Let_def intro: wire_early split: option.split)
  qed
  with p True assms(2) show ?thesis
    by (simp add: rtc_grant_answer_def Let_def split: rtc_stage.split option.split)
qed (simp add: rtc_grant_answer_def assms(2))

lemma open_early:
  assumes "early_ok s" shows "early_ok (on_channel_open label peer s)"
  using assms by (auto simp: on_channel_open_def Let_def early_ok_def cores_def wire_unreliable_def put_link_def list_all_length nth_append nth_update
      split: option.split)

lemma closed_early:
  assumes "early_ok s" shows "early_ok (channel_closed h s)"
  using early_put [OF assms, of "(rt_links s ! h)\<lparr>rk_gone := True, rk_open := False\<rparr>" h]
    early_put [OF assms, of "(rt_links s ! h)\<lparr>rk_gone := True, rk_open := False, rk_early := True\<rparr>" h] assms
  by (simp add: channel_closed_def Let_def split: option.split)

lemma peer_state_early: "early_ok s \<Longrightarrow> early_ok (on_peer_state_change peer st s)"
  by (simp add: on_peer_state_change_def Let_def early_ok_def split: option.split)

section \<open>Whole runs\<close>

definition rtc_ok :: "jsstr \<Rightarrow> rtc_transport \<Rightarrow> bool" where
  "rtc_ok a s \<longleftrightarrow> rtc_inv a s \<and> live_channels a s \<and> early_ok s"

lemma same_tables_ok: "same_tables s t \<Longrightarrow> rtc_ok a s \<Longrightarrow> rtc_ok a t"
  using same_tables_inv [of s t a] same_tables_live [of s t a] by (simp add: rtc_ok_def early_ok_def same_tables_def)

lemma put_link_ok:
  assumes "rtc_ok a s" "h < length (rt_links s)" "\<not> rk_unreliable (rt_links s ! h)" "rk_stage (rt_links s ! h) \<noteq> RtcLive" "x \<noteq> RtcLive"
  shows "rtc_ok a (put_link h ((rt_links s ! h)\<lparr>rk_stage := x\<rparr>) s)"
  using put_link_inv [of a s h "(rt_links s ! h)\<lparr>rk_stage := x\<rparr>"] early_put [of s "(rt_links s ! h)\<lparr>rk_stage := x\<rparr>" h] early_at [of s h] assms
  by (simp add: rtc_ok_def)

lemma message_ok:
  assumes "rtc_ok a s" shows "rtc_ok a (channel_message op buf h s)"
proof -
  let ?k = "rt_links s ! h"
  consider "h < length (rt_links s)" "rk_unreliable ?k \<or> rk_actor ?k \<noteq> None"
    | "h < length (rt_links s)" "\<not> rk_unreliable ?k" "rk_actor ?k = None" "rk_stage ?k = RtcTicket" "\<not> rk_early ?k"
    | "\<not> h < length (rt_links s) \<or> \<not> rk_unreliable ?k \<and> rk_actor ?k = None \<and> (rk_stage ?k \<noteq> RtcTicket \<or> rk_early ?k)"
    by argo
  then show ?thesis
  proof cases
    case 1
    from assms have "rtc_inv a s" by (simp add: rtc_ok_def)
    from same_tables_ok [OF same_message_step [OF this 1] assms] show ?thesis .
  next
    case 2
    then show ?thesis using put_link_ok [OF assms, of h] by (simp add: channel_message_def Let_def)
  next
    case 3
    then have "channel_message op buf h s = s" by (auto simp: channel_message_def Let_def)
    with assms show ?thesis by simp
  qed
qed

lemma rtc_limiter_ok:
  assumes "rtc_ok a s" shows "rtc_ok a (peer_limiter_answer allowed h s)"
proof (cases "h < length (rt_links s) \<and> (\<exists>t. rk_stage (rt_links s ! h) = RtcLimiting t)")
  case True
  then obtain t where h: "h < length (rt_links s)" and t: "rk_stage (rt_links s ! h) = RtcLimiting t" by blast
  have rel: "\<not> rk_unreliable (rt_links s ! h)" using assms h t by (auto simp: rtc_ok_def links_ok_def dest!: rtc_inv_links)
  note p = put_link_ok [OF assms h rel]
  have "rtc_ok a (link_close h (link_send h [f] u))" if "rtc_ok a u" for f u
    using same_tables_trans [OF same_send same_close] that by (rule same_tables_ok)
  with p h t show ?thesis by (simp add: peer_limiter_answer_def Let_def split: option.split)
qed (use assms in \<open>auto simp: peer_limiter_answer_def split: rtc_stage.split\<close>)

lemma rtc_dispose_ok: "rtc_ok a s \<Longrightarrow> rtc_ok a (rtc_dispose s)"
proof -
  let ?r = "s\<lparr>rt_channels := [], rt_peers := [], rt_seqs := [], rt_inbound := []\<rparr>"
  let ?f = "fold (link_close \<circ> snd) (rt_unreliable s) ?r"
  have "emptied (?f\<lparr>rt_unreliable := [], rt_waiting := []\<rparr>)" using fold_link_close [of "rt_unreliable s" ?r] by (simp add: emptied_def)
  from dispose_all [OF this, of "rt_channels s"] fold_link_close [of "rt_unreliable s" ?r]
  have "cores (rtc_dispose s) = cores s" by (simp add: rtc_dispose_def Let_def)
  then show "rtc_ok a s \<Longrightarrow> rtc_ok a (rtc_dispose s)" using dispose_inv(1,2) early_same by (auto simp: rtc_ok_def)
qed

text \<open>An id that is not granted stays unused.\<close>

lemma never_used_same: "rt_closed t = rt_closed s \<Longrightarrow> rt_channels t = rt_channels s \<Longrightarrow> never_used a s \<Longrightarrow> never_used a t"
  by (simp add: never_used_def)

lemma same_tables_unused: "same_tables s t \<Longrightarrow> never_used a s \<Longrightarrow> never_used a t"
  by (rule never_used_same) (simp_all add: same_tables_def)

lemma put_link_unused [simp]: "never_used a (put_link h k s) = never_used a s"
  by (simp add: never_used_def)

lemma trigger_close_unused: "never_used a s \<Longrightarrow> aid \<noteq> a \<Longrightarrow> never_used a (trigger_close aid peer s)"
  using trigger_close_facts(1,3) [of aid s peer] trigger_close_dead [of aid s peer]
  by (cases "aid \<in> rt_closed s") (auto simp: never_used_def jm_has_delete)

lemma message_unused: "never_used a s \<Longrightarrow> never_used a (channel_message op buf h s)"
proof (rule never_used_same)
  have f: "rt_closed (forward_frame op aid b s) = rt_closed s \<and> rt_channels (forward_frame op aid b s) = rt_channels s" for aid b
    by (simp add: forward_frame_def layer_message_def)
  have r: "rt_closed (reliable_frame op aid b s) = rt_closed s \<and> rt_channels (reliable_frame op aid b s) = rt_channels s" for aid b
    using f by (simp add: reliable_frame_def Let_def layer_message_def split: option.split prod.split rtc_in.split)
  show "rt_closed (channel_message op buf h s) = rt_closed s" "rt_channels (channel_message op buf h s) = rt_channels s"
    using f r by (simp_all add: channel_message_def Let_def split: option.split)
qed

lemma grant_unused:
  assumes "never_used a s" "\<And>aid. res = Some aid \<Longrightarrow> aid \<noteq> a"
  shows "never_used a (rtc_grant_answer op res h s)"
proof -
  have ad: "never_used a (rtc_admit op aid h s)" if "aid \<noteq> a" for aid
    using assms(1) that
    by (simp add: rtc_admit_def Let_def wire_unreliable_def never_used_def jm_has_set split: option.split)
  have c: "never_used a (link_close h t) = never_used a t" for t by (simp add: link_close_def)
  show ?thesis
  proof (cases res)
    case None
    with assms(1) c show ?thesis by (simp add: rtc_grant_answer_def Let_def split: rtc_stage.split)
  next
    case (Some aid)
    with assms ad trigger_close_unused show ?thesis by (simp add: rtc_grant_answer_def Let_def split: rtc_stage.split)
  qed
qed

lemma never_used_step:
  assumes "rtc_step op ids s s'" "rtc_ok a s" "never_used a s" "a \<notin> set ids"
  shows "never_used a s'"
proof -
  have inv: "rtc_inv a s" using assms(2) by (simp add: rtc_ok_def)
  have none: "jm_get (rt_channels s) a = None" "a \<notin> rt_closed s" using assms(3) by (simp_all add: never_used_def jm_has_def)
  from assms(1) show ?thesis
  proof cases
    case (channel label peer)
    with assms(3) show ?thesis
      by (auto simp: on_channel_open_def wire_unreliable_def Let_def never_used_def split: option.split)
  next
    case (message buf h)
    with assms(3) message_unused show ?thesis by blast
  next
    case (limiter allowed h)
    with assms(3) show ?thesis
      by (simp add: peer_limiter_answer_def Let_def link_close_def link_send_def split: rtc_stage.split option.split)
  next
    case (refuse h)
    with assms(3) grant_unused show ?thesis by blast
  next
    case (grant aid h)
    with assms(3,4) grant_unused show ?thesis by (metis list.set_intros(1) option.inject)
  next
    case (closed h)
    have "rk_actor (rt_links s ! h) \<noteq> Some a" if "h < length (rt_links s)" "\<not> rk_unreliable (rt_links s ! h)"
      using rtc_inv_links [OF inv] none that by (auto simp: links_ok_def)
    with closed assms(3) trigger_close_unused show ?thesis
      by (auto simp: channel_closed_def Let_def never_used_same [of "_\<lparr>rt_unreliable := _\<rparr>"] split: option.split)
  next
    case (state peer st)
    have "jm_get (rt_peers s) peer \<noteq> Some a" using rtc_peers [OF inv] none by auto
    moreover have "never_used a (s\<lparr>rt_closed_peers := x\<rparr>)" for x using assms(3) by (simp add: never_used_def)
    ultimately show ?thesis using state assms(3) trigger_close_unused
      by (auto simp: on_peer_state_change_def Let_def split: option.split)
  next
    case (deliver buffered m h)
    with assms(3) same_tables_unused [OF same_deliver [OF inv]] show ?thesis by blast
  next
    case (kick payload h)
    have "same_tables s (rtc_kick payload h s)" by (simp add: rtc_kick_def same_close_frame split: option.split)
    with kick assms(3) same_tables_unused show ?thesis by blast
  next
    case dispose
    have "a \<notin> set (jm_keys (rt_channels s))" using none(1) by (simp add: map_of_eq_None_iff)
    with dispose none dispose_inv(3,4) [OF inv] show ?thesis by (simp add: never_used_def emptied_def jm_has_def)
  qed
qed

lemma rtc_step_ok:
  assumes "rtc_step op ids s s'" "rtc_ok a s" "a \<in> set ids \<Longrightarrow> never_used a s" shows "rtc_ok a s'"
  using assms(1)
proof cases
  case channel
  then show ?thesis using channel_open_inv open_early assms(2) by (auto simp: rtc_ok_def)
next
  case (deliver buffered m h)
  have "rtc_inv a s" using assms(2) by (simp add: rtc_ok_def)
  with deliver show ?thesis using same_tables_ok [OF same_deliver] assms(2) by blast
next
  case (kick payload h)
  have "same_tables s (rtc_kick payload h s)" by (simp add: rtc_kick_def same_close_frame split: option.split)
  with kick show ?thesis using same_tables_ok assms(2) by blast
next
  case (refuse h)
  then show ?thesis using grant_answer_inv [of a s None op h] grant_early [of a s op None h] early_at assms(2) by (simp add: rtc_ok_def)
next
  case (grant aid h)
  then show ?thesis using grant_answer_inv [of a s "Some aid" op h] grant_early [of a s op "Some aid" h] early_at assms(2,3) by (simp add: rtc_ok_def)
next
  case (closed h)
  then show ?thesis using channel_closed_inv closed_early assms(2) by (simp add: rtc_ok_def)
next
  case (state peer st)
  then show ?thesis using peer_state_inv assms(2) peer_state_early by (simp add: rtc_ok_def)
qed (use assms(2) message_ok rtc_limiter_ok rtc_dispose_ok in blast)+

text \<open>Granted at most once: unused before, accounted for ever after.\<close>

definition accounted :: "jsstr \<Rightarrow> jsstr list \<Rightarrow> rtc_transport \<Rightarrow> bool" where
  "accounted a granted s \<longleftrightarrow> rtc_ok a s \<and> (a \<notin> set granted \<longrightarrow> never_used a s)"

lemma accounted_new: "accounted a [] new_rtc_transport"
  by (simp add: accounted_def rtc_ok_def rtc_inv_def links_ok_def second_ok_def live_channels_def early_ok_def new_rtc_transport_def
      cores_def closes_def never_used_def jm_has_def)

lemma accounted_step:
  assumes "accounted a granted s" "rtc_step op ids s s'" "count_list (granted @ ids) a \<le> 1"
  shows "accounted a (granted @ ids) s'"
proof -
  have "a \<notin> set granted" if "a \<in> set ids"
  proof -
    have "count_list ids a \<noteq> 0" using that by (simp add: count_list_0_iff)
    with assms(3) have "count_list granted a = 0" by simp
    then show ?thesis by (simp add: count_list_0_iff)
  qed
  then show ?thesis
    using assms(1) rtc_step_ok [OF assms(2)] never_used_step [OF assms(2)] unfolding accounted_def by auto
qed

lemma rtc_reachable_ok: "rtc_reachable op granted s \<Longrightarrow> count_list granted a \<le> 1 \<Longrightarrow> accounted a granted s"
proof (induction rule: rtc_reachable.induct)
  case (turn granted s ids s')
  from turn.prems have "count_list granted a \<le> 1" by simp
  with turn accounted_step show ?case by blast
qed (rule accounted_new)

text \<open>
  C7: every actor behind a data channel is accounted for, provided \<open>grantAccess\<close> answered its id at most once
  to this transport. Other ids may be granted any number of times. In every such run the actor was
  reported closed at most once; on an admitted channel it is either live on exactly that channel or was
  reported closed, and it is reported closed as soon as the channel has gone; once reported it
  has no channel, sequence number, reassembler or second channel left; a peer that is mapped to it
  has its live channel. Disposing of the transport reports it if it is live, and leaves no channel.
  The proviso is not what the transport layer promises: it takes the stable id of a reconnecting peer
  again once the id is free, and \<open>readmitted_actor_never_closes\<close> shows that such an actor is lost.
\<close>

theorem data_channels_accounted:
  assumes "rtc_reachable op granted s" "count_list granted a \<le> 1"
  shows "count_list (closes s) a \<le> 1 \<and>
    (\<forall>k. k \<in> set (rt_links s) \<and> \<not> rk_unreliable k \<and> rk_actor k = Some a \<longrightarrow>
       a \<in> set (closes s) \<or> \<not> rk_gone k \<and> (\<exists>h. jm_get (rt_channels s) a = Some h \<and> h < length (rt_links s) \<and> rt_links s ! h = k)) \<and>
    (a \<in> set (closes s) \<longrightarrow> jm_get (rt_channels s) a = None \<and> jm_get (rt_seqs s) a = None \<and>
       jm_get (rt_inbound s) a = None \<and> jm_get (rt_unreliable s) a = None) \<and>
    (\<forall>p. jm_get (rt_peers s) p = Some a \<longrightarrow>
       (\<exists>h. jm_get (rt_channels s) a = Some h \<and> rk_peer (rt_links s ! h) = p \<and> \<not> rk_gone (rt_links s ! h))) \<and>
    rt_channels (rtc_dispose s) = [] \<and> set (closes (rtc_dispose s)) = set (closes s) \<union> set (jm_keys (rt_channels s)) \<and>
    count_list (closes (rtc_dispose s)) a \<le> 1"
proof -
  have ok: "rtc_inv a s" "live_channels a s" using rtc_reachable_ok [OF assms] by (simp_all add: accounted_def rtc_ok_def)
  have set: "count_list (closes s) a \<le> 1" "set (closes s) = rt_closed s" using ok(1) by (simp_all add: rtc_inv_def)
  note at = rtc_links [OF ok(1)]
  have live: "h < length (rt_links s)" "\<not> rk_gone (rt_links s ! h)" if "jm_get (rt_channels s) a = Some h" for h
  proof -
    show h: "h < length (rt_links s)" using at(1) [OF that] by simp
    show "\<not> rk_gone (rt_links s ! h)" using ok(2) that cores_nth [OF h] unfolding live_channels_def by (metis link_core_simps(3))
  qed
  have "a \<in> rt_closed s \<or> \<not> rk_gone k \<and> (\<exists>h. jm_get (rt_channels s) a = Some h \<and> h < length (rt_links s) \<and> rt_links s ! h = k)"
    if k: "k \<in> set (rt_links s)" "\<not> rk_unreliable k" "rk_actor k = Some a" for k
  proof -
    obtain h where h: "h < length (rt_links s)" "rt_links s ! h = k" using k(1) by (auto simp: in_set_conv_nth)
    with rtc_inv_links [OF ok(1)] k have "jm_get (rt_channels s) a = Some h \<or> a \<in> rt_closed s" by (auto simp: links_ok_def)
    with h live show ?thesis by blast
  qed
  moreover have "jm_get (rt_channels s) a = None \<and> jm_get (rt_seqs s) a = None \<and> jm_get (rt_inbound s) a = None \<and>
      jm_get (rt_unreliable s) a = None" if "a \<in> rt_closed s"
  proof -
    have "jm_get (rt_channels s) a = None" using rtc_alive [OF ok(1)] that by (cases "jm_get (rt_channels s) a") auto
    then show ?thesis using ok(1) unfolding rtc_inv_def second_ok_def by metis
  qed
  moreover have "\<exists>h. jm_get (rt_channels s) a = Some h \<and> rk_peer (rt_links s ! h) = p \<and> \<not> rk_gone (rt_links s ! h)"
    if "jm_get (rt_peers s) p = Some a" for p
    using rtc_peers [OF ok(1) that] live by fastforce
  moreover have "rt_channels (rtc_dispose s) = []" "set (closes (rtc_dispose s)) = rt_closed s \<union> set (jm_keys (rt_channels s))"
    "count_list (closes (rtc_dispose s)) a \<le> 1"
    using dispose_inv [OF ok(1)] by (simp_all add: emptied_def rtc_inv_def)
  ultimately show ?thesis unfolding set(2) using set(1) by blast
qed

definition sample_rtc :: rtc_options where
  "sample_rtc = \<lparr>ro_limited = False, ro_max_buffered = 100, ro_cap = 100, ro_timeout = 1000, ro_topic = None\<rparr>"

text \<open>The channel of peer \<open>p\<close> that opens as channel \<open>h\<close> is granted the id \<open>a\<close>.\<close>

definition sample_rtc_joined :: "nat \<Rightarrow> rtc_transport \<Rightarrow> rtc_transport" where
  "sample_rtc_joined h s = rtc_grant_answer sample_rtc (Some (js ''a'')) h
     (channel_message sample_rtc [0x74] h (on_channel_open (js ''d'') (js ''p'') s))"

lemmas rtc_eval = sample_rtc_joined_def rtc_grant_answer_def channel_message_def on_channel_open_def unreliable_label_def
  new_rtc_transport_def put_link_def sample_rtc_def rtc_admit_def js_def channel_closed_def trigger_close_def layer_close_def
  close_unreliable_def closes_def List.map_filter_def Let_def

lemma sample_join:
  assumes "rtc_reachable sample_rtc granted s"
  shows "rtc_reachable sample_rtc (granted @ [js ''a'']) (sample_rtc_joined h s)"
    "rtc_reachable sample_rtc (granted @ [js ''a'']) (channel_closed h (sample_rtc_joined h s))"
proof -
  show j: "rtc_reachable sample_rtc (granted @ [js ''a'']) (sample_rtc_joined h s)" unfolding sample_rtc_joined_def
    using rtc_reachable.turn [OF rtc_reachable.turn [OF rtc_reachable.turn [OF assms rtc_step.channel] rtc_step.message] rtc_step.grant]
    by simp
  show "rtc_reachable sample_rtc (granted @ [js ''a'']) (channel_closed h (sample_rtc_joined h s))"
    using rtc_reachable.turn [OF j rtc_step.closed] by simp
qed

theorem data_channels_accounted_witness:
  "\<exists>s. rtc_reachable sample_rtc [js ''a''] s \<and> count_list (closes s) (js ''a'') \<le> 1 \<and> js ''a'' \<in> set (closes s) \<and>
     jm_get (rt_channels s) (js ''a'') = None"
proof -
  let ?s = "channel_closed 0 (sample_rtc_joined 0 new_rtc_transport)"
  have r: "rtc_reachable sample_rtc [js ''a''] ?s" using sample_join(2) [OF rtc_reachable.start, of 0] by simp
  have c: "js ''a'' \<in> set (closes ?s)" by (simp add: rtc_eval)
  have "count_list [js ''a''] (js ''a'') \<le> 1" by simp
  from data_channels_accounted [OF r this] c have "count_list (closes ?s) (js ''a'') \<le> 1" "jm_get (rt_channels ?s) (js ''a'') = None"
    by blast+
  with r c show ?thesis by blast
qed

text \<open>An actor that is admitted again under its old id, which the transport layer allows once the id is
  free, is never reported closed: its tables stay after its channel has gone.\<close>

lemma readmitted_actor_never_closes:
  "\<exists>s. rtc_reachable sample_rtc [js ''a'', js ''a''] s \<and> closes s = [js ''a''] \<and>
     jm_get (rt_channels s) (js ''a'') = Some 1 \<and> rk_gone (rt_links s ! 1)"
proof -
  let ?s = "channel_closed 0 (sample_rtc_joined 0 new_rtc_transport)"
  have "rtc_reachable sample_rtc [js ''a''] ?s" using sample_join(2) [OF rtc_reachable.start, of 0] by simp
  from sample_join(2) [OF this, of 1] have "rtc_reachable sample_rtc [js ''a'', js ''a''] (channel_closed 1 (sample_rtc_joined 1 ?s))"
    by simp
  then show ?thesis by (intro exI conjI) (assumption, simp_all add: rtc_eval)
qed

end
