(* ===== verification/Browser_Host.thy ===== *)
theory Browser_Host
  imports Transport_Rtc_Props Negotiation_Props
begin

text \<open>
  The browser as host (\<open>browser/src/RTCTransport.ts\<close> and the host of
  \<open>browser/src/peer/NegotiationCore.ts\<close>): copies of the node package's with less in them. The
  definitions are those of the browser's code over the states of theories \<open>Transport_Rtc\<close> and
  \<open>Negotiation\<close>; the lemmas show that the transport does what the node's does on peers with one channel,
  so that its actors are accounted for as well, and that the negotiator lacks the node's admission control.
\<close>

section \<open>The transport\<close>

definition bw_trigger_close :: "jsstr \<Rightarrow> jsstr \<Rightarrow> rtc_transport \<Rightarrow> rtc_transport" where
  "bw_trigger_close aid peer s =
     (if aid \<in> rt_closed s then s
      else layer_close aid (s\<lparr>rt_closed := insert aid (rt_closed s), rt_channels := jm_delete (rt_channels s) aid,
             rt_peers := jm_delete (rt_peers s) peer, rt_seqs := jm_delete (rt_seqs s) aid, rt_inbound := jm_delete (rt_inbound s) aid\<rparr>))"

definition bw_peer_state :: "jsstr \<Rightarrow> jsstr \<Rightarrow> rtc_transport \<Rightarrow> rtc_transport" where
  "bw_peer_state peer st s =
     (if st \<notin> {js ''disconnected'', js ''closed'', js ''failed''} then s
      else
        let s = s\<lparr>rt_closed_peers := rt_closed_peers s @ [peer]\<rparr>
        in case jm_get (rt_peers s) peer of None \<Rightarrow> s | Some aid \<Rightarrow> bw_trigger_close aid peer s)"

text \<open>Every channel is taken for the reliable one, whatever its label.\<close>

definition bw_channel_open :: "jsstr \<Rightarrow> rtc_transport \<Rightarrow> rtc_transport" where
  "bw_channel_open peer s =
     s\<lparr>rt_links := rt_links s @ [\<lparr>rk_unreliable = False, rk_peer = peer, rk_open = True, rk_gone = False, rk_stage = RtcTicket,
         rk_early = False, rk_actor = None, rk_sent = []\<rparr>]\<rparr>"

definition bw_admit :: "jsstr \<Rightarrow> nat \<Rightarrow> rtc_transport \<Rightarrow> rtc_transport" where
  "bw_admit aid h s =
     (let k = rt_links s ! h; s = put_link h (k\<lparr>rk_stage := RtcLive, rk_actor := Some aid\<rparr>) s
      in s\<lparr>rt_channels := jm_set (rt_channels s) aid h, rt_peers := jm_set (rt_peers s) (rk_peer k) aid,
           rt_seqs := jm_set (rt_seqs s) aid 0, rt_inbound := jm_set (rt_inbound s) aid (new_reassembler 0),
           rt_listening := rt_listening s @ [(aid, h)]\<rparr>)"

definition bw_grant_answer :: "jsstr option \<Rightarrow> nat \<Rightarrow> rtc_transport \<Rightarrow> rtc_transport" where
  "bw_grant_answer res h s =
     (if \<not> h < length (rt_links s) then s
      else case rk_stage (rt_links s ! h) of
        RtcGranting ticket \<Rightarrow>
          (let k = rt_links s ! h in
           case res of
             None \<Rightarrow> link_close h (put_link h (k\<lparr>rk_stage := RtcOver\<rparr>) s)
           | Some aid \<Rightarrow>
               (if rk_early k then bw_trigger_close aid (rk_peer k) (put_link h (k\<lparr>rk_stage := RtcOver\<rparr>) s)
                else bw_admit aid h s))
      | _ \<Rightarrow> s)"

text \<open>No cap on the size of a frame.\<close>

definition bw_frame :: "jsstr \<Rightarrow> bytes \<Rightarrow> rtc_transport \<Rightarrow> rtc_transport" where
  "bw_frame aid buf s =
     (if \<not> is_chunk_frame buf then layer_message aid buf s
      else case message_decode buf of
        Inl _ \<Rightarrow> s
      | Inr v \<Rightarrow>
          (case get_prop v (js ''payload'') of
             JBytes payload \<Rightarrow>
               (case (decode_chunk_payload payload, jm_get (rt_inbound s) aid) of
                  (Some c, Some r) \<Rightarrow>
                    (let (r, out) = ra_feed r c; s = s\<lparr>rt_inbound := jm_set (rt_inbound s) aid r\<rparr>
                     in case out of None \<Rightarrow> s | Some m \<Rightarrow> layer_message aid m s)
                | _ \<Rightarrow> s)
           | _ \<Rightarrow> s))"

definition bw_message :: "bool \<Rightarrow> bytes \<Rightarrow> nat \<Rightarrow> rtc_transport \<Rightarrow> rtc_transport" where
  "bw_message limited buf h s =
     (if \<not> h < length (rt_links s) then s
      else let k = rt_links s ! h in
        case rk_actor k of
          Some aid \<Rightarrow> bw_frame aid buf s
        | None \<Rightarrow>
            (if rk_stage k \<noteq> RtcTicket \<or> rk_early k then s
             else let ticket = text_decode buf
                  in put_link h (k\<lparr>rk_stage := if limited then RtcLimiting ticket else RtcGranting ticket\<rparr>) s))"

definition bw_channel_closed :: "nat \<Rightarrow> rtc_transport \<Rightarrow> rtc_transport" where
  "bw_channel_closed h s =
     (if \<not> h < length (rt_links s) \<or> rk_gone (rt_links s ! h) then s
      else
        let k = rt_links s ! h; s = put_link h (k\<lparr>rk_gone := True, rk_open := False, rk_early := True\<rparr>) s
        in case rk_actor k of None \<Rightarrow> s | Some aid \<Rightarrow> bw_trigger_close aid (rk_peer k) s)"

definition bw_deliver :: "rtc_options \<Rightarrow> (nat \<Rightarrow> nat) \<Rightarrow> bytes \<Rightarrow> nat \<Rightarrow> rtc_transport \<Rightarrow> rtc_transport" where
  "bw_deliver op buffered m h s =
     (case rk_actor (rt_links s ! h) of
        None \<Rightarrow> s
      | Some aid \<Rightarrow> (if (aid, h) \<notin> set (rt_listening s) then s else reliable_deliver op buffered m aid h s))"

definition bw_dispose :: "rtc_transport \<Rightarrow> rtc_transport" where
  "bw_dispose s = fold dispose_channel (rt_channels s) (s\<lparr>rt_channels := [], rt_peers := [], rt_seqs := [], rt_inbound := []\<rparr>)"

inductive bw_step :: "rtc_options \<Rightarrow> jsstr list \<Rightarrow> rtc_transport \<Rightarrow> rtc_transport \<Rightarrow> bool" for op where
  channel: "bw_step op [] s (bw_channel_open peer s)"
| message: "bw_step op [] s (bw_message limited buf h s)"
| limiter: "bw_step op [] s (peer_limiter_answer allowed h s)"
| refuse: "bw_step op [] s (bw_grant_answer None h s)"
| grant: "bw_step op [aid] s (bw_grant_answer (Some aid) h s)"
| closed: "bw_step op [] s (bw_channel_closed h s)"
| state: "bw_step op [] s (bw_peer_state peer st s)"
| deliver: "bw_step op [] s (bw_deliver op buffered m h s)"
| kick: "bw_step op [] s (rtc_kick payload h s)"
| dispose: "bw_step op [] s (bw_dispose s)"

inductive bw_reachable :: "rtc_options \<Rightarrow> jsstr list \<Rightarrow> rtc_transport \<Rightarrow> bool" for op where
  start: "bw_reachable op [] new_rtc_transport"
| turn: "bw_reachable op granted s \<Longrightarrow> bw_step op ids s s' \<Longrightarrow> bw_reachable op (granted @ ids) s'"

section \<open>It does what the node's transport does\<close>

text \<open>No second channel.\<close>

definition one_channel :: "rtc_transport \<Rightarrow> bool" where
  "one_channel s \<longleftrightarrow> rt_unreliable s = [] \<and> rt_waiting s = [] \<and> list_all (\<lambda>k. \<not> rk_unreliable k) (rt_links s)"

definition plain_options :: "nat \<Rightarrow> bool \<Rightarrow> rtc_options \<Rightarrow> rtc_options" where
  "plain_options cap limited op = op\<lparr>ro_cap := cap, ro_limited := limited, ro_timeout := 0\<rparr>"

lemma one_channelD: "one_channel s \<Longrightarrow> rt_unreliable s = []" "one_channel s \<Longrightarrow> rt_waiting s = []"
  "one_channel s \<Longrightarrow> h < length (rt_links s) \<Longrightarrow> \<not> rk_unreliable (rt_links s ! h)"
  by (simp_all add: one_channel_def list_all_length)

lemma same_waiting: "rt_waiting s = [] \<Longrightarrow> s\<lparr>rt_waiting := []\<rparr> = s" "rt_unreliable s = [] \<Longrightarrow> s\<lparr>rt_unreliable := []\<rparr> = s"
  by (cases s; simp)+

lemma bw_close_same:
  assumes "rt_unreliable s = []" "rt_waiting s = []"
  shows "bw_trigger_close aid peer s = trigger_close aid peer s"
  using assms by (cases s) (simp add: bw_trigger_close_def trigger_close_def close_unreliable_def Let_def)

lemma bw_admit_same:
  assumes "one_channel s" shows "bw_admit aid h s = rtc_admit (plain_options cap limited op) aid h s"
  using one_channelD(2) [OF assms] by (simp add: bw_admit_def rtc_admit_def plain_options_def Let_def)

lemma put_one: "rt_unreliable (put_link h k s) = rt_unreliable s" "rt_waiting (put_link h k s) = rt_waiting s"
  by (simp_all add: put_link_def)

lemma bw_grant_same:
  assumes "one_channel s" shows "bw_grant_answer res h s = rtc_grant_answer (plain_options cap limited op) res h s"
  using bw_admit_same [OF assms] bw_close_same one_channelD(1,2) [OF assms]
  by (simp add: bw_grant_answer_def rtc_grant_answer_def Let_def put_one split: rtc_stage.split option.split)

lemma same_inbound: "jm_get (rt_inbound s) aid = Some r \<Longrightarrow> s\<lparr>rt_inbound := jm_set (rt_inbound s) aid r\<rparr> = s"
  by (cases s) (simp add: update_triv)

lemma bw_frame_same: "\<exists>cap. bw_frame aid buf s = reliable_frame (plain_options cap limited op) aid buf s"
proof (cases "is_chunk_frame buf")
  case False
  then show ?thesis
    by (intro exI [of _ "length buf"])
      (simp add: bw_frame_def reliable_frame_def forward_frame_def rtc_receive_def plain_options_def Let_def same_inbound split: option.split)
next
  case True
  note d = bw_frame_def reliable_frame_def rtc_receive_def plain_options_def Let_def
  show ?thesis
  proof (cases "jm_get (rt_inbound s) aid")
    case None
    with True show ?thesis by (simp add: d split: sum.split jsval.split option.split)
  next
    case (Some r)
    note same = same_inbound [OF Some]
    show ?thesis
    proof (cases "\<exists>v payload c m. message_decode buf = Inr v \<and> get_prop v (js ''payload'') = JBytes payload \<and>
        decode_chunk_payload payload = Some c \<and> snd (ra_feed r c) = Some m")
      case out: True
      then obtain v payload c m where m: "message_decode buf = Inr v" "get_prop v (js ''payload'') = JBytes payload"
        "decode_chunk_payload payload = Some c" "snd (ra_feed r c) = Some m" by blast
      from True Some m show ?thesis by (intro exI [of _ "length m"]) (cases "ra_feed r c", simp add: d)
    next
      case none: False
      from True Some none same show ?thesis
        by (simp add: d split: sum.split jsval.split option.split prod.split) fastforce
    qed
  qed
qed

lemma bw_message_same:
  assumes "one_channel s"
  shows "\<exists>cap. bw_message limited buf h s = channel_message (plain_options cap limited op) buf h s"
proof (cases "h < length (rt_links s) \<and> rk_actor (rt_links s ! h) \<noteq> None")
  case True
  then obtain aid where a: "h < length (rt_links s)" "rk_actor (rt_links s ! h) = Some aid" by blast
  obtain cap where "bw_frame aid buf s = reliable_frame (plain_options cap limited op) aid buf s" using bw_frame_same by blast
  with a one_channelD(3) [OF assms a(1)] show ?thesis
    by (intro exI [of _ cap]) (simp add: bw_message_def channel_message_def Let_def)
next
  case False
  with one_channelD(3) [OF assms, of h] show ?thesis
    by (auto simp: bw_message_def channel_message_def plain_options_def Let_def)
qed

lemma bw_same:
  assumes "one_channel s"
  shows "bw_channel_open peer s = on_channel_open [] peer s" "bw_channel_closed h s = channel_closed h s"
    "bw_peer_state peer st s = on_peer_state_change peer st s" "bw_deliver op buffered m h s = rtc_deliver op buffered m h s"
    "bw_dispose s = rtc_dispose s"
proof -
  note o = one_channelD [OF assms]
  show "bw_channel_open peer s = on_channel_open [] peer s"
    by (simp add: bw_channel_open_def on_channel_open_def unreliable_label_def js_def Let_def)
  show "bw_channel_closed h s = channel_closed h s"
    using o(3) [of h] bw_close_same o(1,2) by (simp add: bw_channel_closed_def channel_closed_def Let_def put_one split: option.split)
  show "bw_peer_state peer st s = on_peer_state_change peer st s"
    using bw_close_same [of "s\<lparr>rt_closed_peers := rt_closed_peers s @ [peer]\<rparr>"] o(1,2)
    by (simp add: bw_peer_state_def on_peer_state_change_def lost_states_def Let_def split: option.split)
  show "bw_deliver op buffered m h s = rtc_deliver op buffered m h s"
    using o(1) by (simp add: bw_deliver_def rtc_deliver_def split: option.split)
  have "s\<lparr>rt_channels := [], rt_peers := [], rt_seqs := [], rt_inbound := [], rt_unreliable := [], rt_waiting := []\<rparr> =
      s\<lparr>rt_channels := [], rt_peers := [], rt_seqs := [], rt_inbound := []\<rparr>"
    using o(1,2) by (cases s) simp
  with o(1) show "bw_dispose s = rtc_dispose s" by (simp add: bw_dispose_def rtc_dispose_def Let_def)
qed

text \<open>Each step of the browser's transport is a step of the node's, under some cap that is not reached.\<close>

lemma bw_step_is_rtc_step:
  assumes "bw_step op ids s s'" "one_channel s" shows "\<exists>cap limited. rtc_step (plain_options cap limited op) ids s s'"
  using assms(1)
proof cases
  case (message limited buf h)
  obtain cap where "s' = channel_message (plain_options cap limited op) buf h s"
    using bw_message_same [OF assms(2)] message by blast
  with message(1) show ?thesis using rtc_step.message by blast
next
  case (deliver buffered m h)
  have "rtc_deliver op buffered m h s = rtc_deliver (plain_options cap limited op) buffered m h s" for cap limited
    by (simp add: rtc_deliver_def reliable_deliver_def plain_options_def split: option.split)
  with deliver bw_same(4) [OF assms(2)] rtc_step.deliver show ?thesis by metis
next
  case (refuse h)
  with bw_grant_same [OF assms(2)] rtc_step.refuse show ?thesis by metis
next
  case (grant aid h)
  with bw_grant_same [OF assms(2)] rtc_step.grant show ?thesis by metis
next
  case (channel peer)
  with bw_same(1) [OF assms(2)] rtc_step.channel show ?thesis by metis
next
  case (closed h)
  with bw_same(2) [OF assms(2)] rtc_step.closed show ?thesis by metis
next
  case (state peer st)
  with bw_same(3) [OF assms(2)] rtc_step.state show ?thesis by metis
next
  case dispose
  with bw_same(5) [OF assms(2)] rtc_step.dispose show ?thesis by metis
next
  case (limiter allowed h)
  then show ?thesis using rtc_step.limiter by blast
next
  case (kick payload h)
  then show ?thesis using rtc_step.kick by blast
qed

lemma one_channel_put: "one_channel s \<Longrightarrow> \<not> rk_unreliable k \<Longrightarrow> one_channel (put_link h k s)"
  by (auto simp: one_channel_def put_link_def list_all_length nth_update)

lemma one_channel_fields [simp]:
  "one_channel (s\<lparr>rt_channels := x0\<rparr>) = one_channel s" "one_channel (s\<lparr>rt_peers := x1\<rparr>) = one_channel s" "one_channel (s\<lparr>rt_closed := x2\<rparr>) = one_channel s"
  "one_channel (s\<lparr>rt_seqs := x3\<rparr>) = one_channel s" "one_channel (s\<lparr>rt_inbound := x4\<rparr>) = one_channel s" "one_channel (s\<lparr>rt_listening := x5\<rparr>) = one_channel s"
  "one_channel (s\<lparr>rt_closed_peers := x6\<rparr>) = one_channel s" "one_channel (layer_message a m s) = one_channel s" "one_channel (layer_close a s) = one_channel s"
  by (simp_all add: one_channel_def layer_message_def layer_close_def)

lemma one_channel_links:
  assumes "one_channel s"
  shows "one_channel (link_send h bs s)" "one_channel (link_close h s)" "one_channel (bw_trigger_close a p s)"
    "h < length (rt_links s) \<Longrightarrow> one_channel (bw_admit a h s)" "one_channel (send_close_frame h payload s)"
proof -
  have s: "one_channel (link_send h bs t)" "one_channel (link_close h t)" if "one_channel t" for t bs
  proof -
    have "put_link h k t = t" if "\<not> h < length (rt_links t)" for k using that by (simp add: put_link_def list_update_beyond)
    then show "one_channel (link_send h bs t)" "one_channel (link_close h t)"
      using that one_channelD(3) [OF that, of h] by (cases "h < length (rt_links t)"; simp add: link_send_def link_close_def one_channel_put)+
  qed
  show "one_channel (link_send h bs s)" "one_channel (link_close h s)" using s assms by blast+
  show "one_channel (bw_trigger_close a p s)" using assms by (simp add: bw_trigger_close_def)
  show "h < length (rt_links s) \<Longrightarrow> one_channel (bw_admit a h s)"
    using assms one_channelD(3) [OF assms] by (simp add: bw_admit_def Let_def one_channel_put)
  show "one_channel (send_close_frame h payload s)" using s assms by (simp add: send_close_frame_def split: option.split)
qed

lemma one_channel_step:
  assumes "bw_step op ids s s'" "one_channel s" shows "one_channel s'"
  using assms(1)
proof cases
  case (channel peer)
  with assms(2) show ?thesis by (simp add: bw_channel_open_def one_channel_def)
next
  case (message limited buf h)
  have "one_channel (bw_frame aid buf s)" for aid
    using assms(2) by (simp add: bw_frame_def Let_def split: sum.split jsval.split option.split prod.split)
  with message assms(2) one_channelD(3) [OF assms(2), of h] show ?thesis
    by (simp add: bw_message_def Let_def one_channel_put split: option.split)
next
  case (limiter allowed h)
  with assms(2) one_channelD(3) [OF assms(2), of h] show ?thesis
    by (simp add: peer_limiter_answer_def Let_def one_channel_put one_channel_links(1,2) split: rtc_stage.split option.split)
next
  case (refuse h)
  with assms(2) one_channelD(3) [OF assms(2), of h] show ?thesis
    by (simp add: bw_grant_answer_def Let_def one_channel_put one_channel_links(2) split: rtc_stage.split)
next
  case (grant aid h)
  with assms(2) one_channelD(3) [OF assms(2), of h] one_channel_links(3,4) show ?thesis
    by (simp add: bw_grant_answer_def Let_def one_channel_put split: rtc_stage.split)
next
  case (closed h)
  with assms(2) one_channelD(3) [OF assms(2), of h] one_channel_links(3) show ?thesis
    by (simp add: bw_channel_closed_def Let_def one_channel_put split: option.split)
next
  case (state peer st)
  with assms(2) one_channel_links(3) show ?thesis by (simp add: bw_peer_state_def Let_def split: option.split)
next
  case (deliver buffered m h)
  with assms(2) one_channel_links(1) show ?thesis
    by (simp add: bw_deliver_def reliable_deliver_def Let_def case_prod_beta split: option.split)
next
  case (kick payload h)
  with assms(2) one_channel_links(5) show ?thesis by (simp add: rtc_kick_def split: option.split)
next
  case dispose
  have "one_channel t \<Longrightarrow> one_channel (fold dispose_channel cs t)" for cs t
    by (induction cs arbitrary: t) (simp_all add: dispose_channel_def one_channel_links(5) split: prod.split)
  with dispose assms(2) show ?thesis by (simp add: bw_dispose_def)
qed

text \<open>So an actor of a browser host that is granted at most once is accounted for as that of a node host is (C7).\<close>

lemma browser_host_accounted:
  assumes "bw_reachable op granted s" "count_list granted a \<le> 1"
  shows "one_channel s \<and> accounted a granted s \<and> count_list (closes s) a \<le> 1"
proof -
  have "one_channel s \<and> accounted a granted s" using assms
  proof induction
    case start
    show ?case using accounted_new by (simp add: one_channel_def new_rtc_transport_def)
  next
    case (turn granted s ids s')
    from turn.prems have "count_list granted a \<le> 1" by simp
    with turn show ?case using bw_step_is_rtc_step one_channel_step accounted_step by blast
  qed
  moreover from this have "count_list (closes s) a \<le> 1" by (simp add: accounted_def rtc_ok_def rtc_inv_def)
  ultimately show ?thesis by blast
qed

section \<open>The negotiator\<close>

definition bw_on_offer :: "bool \<Rightarrow> bool \<Rightarrow> bytes \<Rightarrow> host_negotiator \<Rightarrow> host_negotiator \<times> bool" where
  "bw_on_offer creates accepts payload n = (case codec_decode peer_codec (js ''Offer'') payload of
     Inl _ \<Rightarrow> (n, True)
   | Inr m \<Rightarrow> (case (truthy_text m ''from'', truthy_text m ''sdp'') of
       (Some peer, Some sdp) \<Rightarrow>
         (if \<not> creates then (n, True)
          else
            let pc = hn_next n;
                n = (hn_call pc (CreatePc (hn_ice n)) n)\<lparr>hn_next := pc + 1, hn_pcs := jm_set (hn_pcs n) peer pc\<rparr>;
                n = hn_call pc (SetRemote sdp (js ''offer'')) n
            in if \<not> accepts then (n, True) else (hn_call pc (SetLocal (js ''answer'')) n, False))
     | _ \<Rightarrow> (n, False)))"

definition bw_close_peer :: "jsstr \<Rightarrow> host_negotiator \<Rightarrow> host_negotiator" where
  "bw_close_peer peer n = (case jm_get (hn_pcs n) peer of
     None \<Rightarrow> n | Some pc \<Rightarrow> (hn_call pc ClosePc n)\<lparr>hn_pcs := jm_delete (hn_pcs n) peer\<rparr>)"

definition bw_host_dispose :: "host_negotiator \<Rightarrow> host_negotiator" where
  "bw_host_dispose n = (fold (\<lambda>pc. hn_call pc ClosePc) (map snd (hn_pcs n)) n)\<lparr>hn_pcs := []\<rparr>"

text \<open>A second offer of the same peer replaces its connection; neither closing the peer nor disposing of the
  negotiator closes the first one.\<close>

lemma repeated_offer_leaks:
  assumes "codec_decode peer_codec (js ''Offer'') payload = Inr m" "truthy_text m ''from'' = Some peer" "truthy_text m ''sdp'' = Some sdp"
    and "hn_pcs n = []" "hn_calls n = []"
  defines "n' \<equiv> fst (bw_on_offer True True payload (fst (bw_on_offer True True payload n)))"
  shows "hn_pcs n' = [(peer, hn_next n + 1)]" "(hn_next n, ClosePc) \<notin> set (hn_calls (bw_close_peer peer n'))"
    "(hn_next n, ClosePc) \<notin> set (hn_calls (bw_host_dispose n'))"
  using assms(4,5) unfolding n'_def bw_on_offer_def assms(1)
  by (simp_all add: assms(2,3) Let_def hn_call_def bw_close_peer_def bw_host_dispose_def)

end
