(* ===== verification/Server.thy ===== *)
theory Server
  imports Complex_Main Core
begin

text \<open>
  The server object around the world of theory \<open>Core\<close>: validation of its options
  (\<open>core/src/Config.ts\<close>), the legacy authentication bridge (\<open>core/src/AuthMiddleware.ts\<close>), and the
  disposal of the transports at shutdown with its deadline (\<open>core/src/Rivalis.ts\<close>). A transport is its
  position; when and how its \<open>dispose\<close> settles is up to the environment. Log messages are the outcome
  they report.
\<close>

section \<open>Options\<close>

datatype number_option = NumUndefined | NumOther | NumValue real  \<comment> \<open>\<open>NumOther\<close>: no number, \<open>NaN\<close> or infinite\<close>

datatype limiter_option = LimiterUndefined | LimiterNull | LimiterInstance nat | LimiterOther

record server_options =
  so_object :: bool
  so_transports :: "bool list option"  \<comment> \<open>\<open>None\<close>: not an array; else which elements are transports\<close>
  so_auth :: bool
  so_limiter :: limiter_option
  so_logging :: "bool option"
  so_max_topic :: number_option
  so_max_payload :: number_option

datatype server_error = NotAnObject | NoTransportArray | NotATransport nat | NoAuthMiddleware | BadRateLimiter | BadLogging
  | BadMaxTopic | BadMaxPayload

definition positive_integer :: "number_option \<Rightarrow> bool" where
  "positive_integer n = (case n of NumUndefined \<Rightarrow> True | NumOther \<Rightarrow> False | NumValue x \<Rightarrow> of_int \<lfloor>x\<rfloor> = x \<and> 0 < x)"

definition number_or :: "nat \<Rightarrow> number_option \<Rightarrow> nat" where
  "number_or d n = (case n of NumValue x \<Rightarrow> nat \<lfloor>x\<rfloor> | _ \<Rightarrow> d)"

text \<open>The limits and limiter of the transport layer; \<open>fresh\<close> is the limiter that is made by default.\<close>

definition resolve_server :: "nat \<Rightarrow> server_options \<Rightarrow> server_error + (nat \<times> nat \<times> nat option)" where
  "resolve_server fresh op =
     (if \<not> so_object op then Inl NotAnObject
      else case so_transports op of
        None \<Rightarrow> Inl NoTransportArray
      | Some ts \<Rightarrow>
          (if \<not> list_all (\<lambda>t. t) ts then Inl (NotATransport (length (takeWhile (\<lambda>t. t) ts)))
           else if \<not> so_auth op then Inl NoAuthMiddleware
           else if so_limiter op = LimiterOther then Inl BadRateLimiter
           else if so_logging op = Some False then Inl BadLogging
           else if \<not> positive_integer (so_max_topic op) then Inl BadMaxTopic
           else if \<not> positive_integer (so_max_payload op) then Inl BadMaxPayload
           else Inr (number_or 256 (so_max_topic op), number_or 65536 (so_max_payload op),
             (case so_limiter op of LimiterNull \<Rightarrow> None | LimiterInstance l \<Rightarrow> Some l | _ \<Rightarrow> Some fresh))))"

definition server_config :: "(nat \<Rightarrow> nat option option) \<Rightarrow> nat \<times> nat \<times> nat option \<Rightarrow> config" where
  "server_config own r = (case r of (topic, payload, limiter) \<Rightarrow>
     \<lparr>cf_max_topic = topic, cf_max_payload = payload, cf_limiter = limiter, cf_transport_limiter = own\<rparr>)"

section \<open>Authentication in three calls\<close>

text \<open>\<open>None\<close> is a rejection of one of the calls; \<open>Some None\<close> refuses the ticket.\<close>

definition legacy_authenticate ::
  "(jsstr \<Rightarrow> bool option) \<Rightarrow> (jsstr \<Rightarrow> jsval option) \<Rightarrow> (jsstr \<Rightarrow> jsstr option) \<Rightarrow> jsstr \<Rightarrow> (jsval \<times> jsstr) option option" where
  "legacy_authenticate validate payload room ticket = (case validate ticket of
     None \<Rightarrow> None
   | Some valid \<Rightarrow>
       (if \<not> valid then Some None
        else case payload ticket of
          None \<Rightarrow> None
        | Some d \<Rightarrow> (case room ticket of None \<Rightarrow> None | Some r \<Rightarrow> Some (Some (d, r)))))"

section \<open>Shutdown\<close>

datatype disposal = Disposing | Disposed | DisposeFailed

datatype shutdown_end = ShutdownComplete "nat list" | ShutdownTimedOut "nat list"  \<comment> \<open>those that failed; those still disposing\<close>

record shutdown =
  sd_started :: bool
  sd_disposals :: "disposal list"
  sd_timer :: bool
  sd_end :: "shutdown_end option"
  sd_returned :: nat  \<comment> \<open>calls that have returned\<close>

definition fresh_shutdown :: shutdown where
  "fresh_shutdown = \<lparr>sd_started = False, sd_disposals = [], sd_timer = False, sd_end = None, sd_returned = 0\<rparr>"

definition positions :: "('a \<Rightarrow> bool) \<Rightarrow> 'a list \<Rightarrow> nat list" where
  "positions P xs = map fst (filter (\<lambda>(i, x). P x) (enumerate 0 xs))"

text \<open>The call, after the rooms were destroyed; a later call returns at once.\<close>

definition shutdown_call :: "nat \<Rightarrow> shutdown \<Rightarrow> shutdown" where
  "shutdown_call n s =
     (if sd_started s then s\<lparr>sd_returned := sd_returned s + 1\<rparr>
      else s\<lparr>sd_started := True, sd_disposals := replicate n Disposing, sd_timer := True\<rparr>)"

definition disposal_settles :: "nat \<Rightarrow> bool \<Rightarrow> shutdown \<Rightarrow> shutdown" where
  "disposal_settles i ok s =
     (if i < length (sd_disposals s) \<and> sd_disposals s ! i = Disposing
      then s\<lparr>sd_disposals := (sd_disposals s)[i := if ok then Disposed else DisposeFailed]\<rparr> else s)"

definition end_shutdown :: "shutdown_end \<Rightarrow> shutdown \<Rightarrow> shutdown" where
  "end_shutdown e s = s\<lparr>sd_end := Some e, sd_timer := False, sd_returned := sd_returned s + 1\<rparr>"

definition all_settled :: "shutdown \<Rightarrow> shutdown" where
  "all_settled s =
     (if sd_started s \<and> sd_end s = None \<and> list_all (\<lambda>d. d \<noteq> Disposing) (sd_disposals s)
      then end_shutdown (ShutdownComplete (positions (\<lambda>d. d = DisposeFailed) (sd_disposals s))) s else s)"

definition shutdown_timeout :: "shutdown \<Rightarrow> shutdown" where
  "shutdown_timeout s =
     (if \<not> sd_timer s then s
      else end_shutdown (ShutdownTimedOut (positions (\<lambda>d. d = Disposing) (sd_disposals s))) s)"

inductive shutdown_step :: "nat \<Rightarrow> shutdown \<Rightarrow> shutdown \<Rightarrow> bool" for n where
  call: "shutdown_step n s (shutdown_call n s)"
| settles: "shutdown_step n s (disposal_settles i ok s)"
| settled: "shutdown_step n s (all_settled s)"
| timeout: "shutdown_step n s (shutdown_timeout s)"

section \<open>Lemmas\<close>

lemma resolved_limits:
  assumes "resolve_server fresh op = Inr (t, p, l)"
  shows "0 < t" "0 < p" "l = None \<longleftrightarrow> so_limiter op = LimiterNull"
proof -
  have pos: "0 < number_or d x" if "positive_integer x" "0 < d" for d x
    using that by (cases x) (auto simp: positive_integer_def number_or_def zero_less_floor dest: sym)
  show "0 < t" "0 < p" "l = None \<longleftrightarrow> so_limiter op = LimiterNull"
    using assms by (auto simp: resolve_server_def pos split: if_splits option.splits limiter_option.splits)
qed

lemma positions_iff: "i \<in> set (positions P xs) \<longleftrightarrow> i < length xs \<and> P (xs ! i)"
  by (auto simp: positions_def image_iff in_set_enumerate_eq)

text \<open>Shutdown always ends: until it has ended its timer is armed, whatever the transports do. It ends once, names
  exactly the transports that failed or hang, and leaves no timer behind.\<close>

definition shutdown_inv :: "nat \<Rightarrow> shutdown \<Rightarrow> bool" where
  "shutdown_inv n s \<longleftrightarrow> sd_timer s = (sd_started s \<and> sd_end s = None) \<and> (sd_end s \<noteq> None \<longrightarrow> sd_started s) \<and>
     (sd_started s \<longrightarrow> length (sd_disposals s) = n) \<and>
     (\<forall>fs. sd_end s = Some (ShutdownComplete fs) \<longrightarrow> fs = positions (\<lambda>d. d = DisposeFailed) (sd_disposals s) \<and>
        list_all (\<lambda>d. d \<noteq> Disposing) (sd_disposals s)) \<and>
     (\<forall>ps i. sd_end s = Some (ShutdownTimedOut ps) \<and> i < n \<and> sd_disposals s ! i = Disposing \<longrightarrow> i \<in> set ps)"

lemma shutdown_step_inv: "shutdown_step n s t \<Longrightarrow> shutdown_inv n s \<Longrightarrow> shutdown_inv n t"
proof (induction rule: shutdown_step.induct)
  case (settles s i ok)
  have "disposal_settles i ok s = s" if "sd_end s = Some (ShutdownComplete fs)" for fs
    using settles that by (auto simp: shutdown_inv_def disposal_settles_def list_all_length)
  then show ?case
  proof (cases "\<exists>fs. sd_end s = Some (ShutdownComplete fs)")
    case False
    with settles show ?thesis by (auto simp: shutdown_inv_def disposal_settles_def nth_list_update)
  qed (use settles in auto)
qed (auto simp: shutdown_inv_def shutdown_call_def all_settled_def shutdown_timeout_def end_shutdown_def positions_iff)

lemma shutdown_ends:
  assumes "(shutdown_step n)\<^sup>*\<^sup>* fresh_shutdown s" "sd_started s"
  shows "(sd_end s = None) = sd_timer s" "sd_timer s \<Longrightarrow> sd_end (shutdown_timeout s) \<noteq> None"
    "sd_end s = Some (ShutdownComplete fs) \<Longrightarrow> i \<in> set fs \<longleftrightarrow> i < n \<and> sd_disposals s ! i = DisposeFailed"
    "sd_end s \<noteq> None \<Longrightarrow> shutdown_step n s t \<Longrightarrow> sd_end t = sd_end s \<and> \<not> sd_timer t"
proof -
  have "shutdown_inv n s" using assms(1)
    by induction (simp add: shutdown_inv_def fresh_shutdown_def, use shutdown_step_inv in blast)
  with assms(2) show "(sd_end s = None) = sd_timer s" "sd_timer s \<Longrightarrow> sd_end (shutdown_timeout s) \<noteq> None"
    "sd_end s = Some (ShutdownComplete fs) \<Longrightarrow> i \<in> set fs \<longleftrightarrow> i < n \<and> sd_disposals s ! i = DisposeFailed"
    by (auto simp: shutdown_inv_def shutdown_timeout_def end_shutdown_def positions_iff)
  show "sd_end s \<noteq> None \<Longrightarrow> shutdown_step n s t \<Longrightarrow> sd_end t = sd_end s \<and> \<not> sd_timer t"
    using \<open>shutdown_inv n s\<close> assms(2)
    by (auto simp: shutdown_inv_def shutdown_call_def all_settled_def shutdown_timeout_def disposal_settles_def elim!: shutdown_step.cases split: if_splits)
qed

text \<open>A second call returns while the first one is still disposing.\<close>

lemma second_shutdown_returns:
  "sd_returned (shutdown_call n (shutdown_call n fresh_shutdown)) = 1 \<and> sd_end (shutdown_call n (shutdown_call n fresh_shutdown)) = None"
  by (simp add: shutdown_call_def fresh_shutdown_def)

end
