(* ===== verification/Spec2Isabelle.thy ===== *)
theory Spec2Isabelle
  imports Serializer_Types Chunker RateLimit Auth Core_Props Fleet_State_Props Fleet_Wire_Props Fleet_Snapshot_Props Fleet_Orchestrator_Props
    Agent_Sync Signal_Room_Props Signal_Auth Fleet_Http_Props Client_Browser_Props Client_Rtc_Props Negotiation_Props
    Transport_Ws_Props Browser_Host Server
begin

text \<open>
  Rivalis is a realtime server framework in TypeScript: clients hold a WebSocket or an RTC data
  channel to a server, exchange framed messages on topics and meet in rooms; a fleet of such
  servers is coordinated by an orchestrator that polls them and places rooms. This library
  models the parts that carry that logic, each in the order the source has them. Paths below are
  under \<open>src/\<close>.

  \<^bold>\<open>Conventions\<close> (theory \<open>Prelude\<close>). Bytes are \<open>8 word\<close>; JavaScript strings are
  lists of UTF-16 code units; a \<open>Map\<close> is an association list in insertion order; numbers are
  naturals or integers, with the rounding of doubles, \<open>>>>\<close>, \<open>|\<close> and typed arrays written out
  where values can leave the exact range. A thrown error is the left side of a sum, an early
  return a branch. State is a record passed through every operation. A timer is a handle in a
  table of armed timers; \<open>clearTimeout\<close> removes it, and the scheduler may fire any armed handle.
  Operations on shared objects (rooms, the emitter's listeners) go through an explicit heap.

  \<^bold>\<open>Frames\<close> (\<open>handshake/src\<close>).
  \<^item> \<open>Utf8\<close>, \<open>Utf8_Truncate\<close>: \<open>TextEncoder\<close>, \<open>TextDecoder\<close> (which drops a leading byte
    order mark) and \<open>truncateUtf8\<close>.
  \<^item> \<open>Varint\<close>: \<open>wire/varint.ts\<close>, the growable writer and the reader. \<open>Serializer\<close>:
    \<open>wire/serializer.ts\<close>. \<open>Serializer_Spec\<close> states the wire format as a plain function and shows
    that the writer implements it; \<open>Serializer_Roundtrip\<close> and \<open>Serializer_Props\<close> show that
    decoding undoes it and that schemas may grow at the end (C1--C3), \<open>Serializer_Types\<close> that
    decoding arbitrary bytes gives values of the declared types (C11). Encoding recurses over nested
    messages with a depth as fuel, whose exhaustion is the \<open>RangeError\<close> of the call stack; the
    theorems hold for every depth at which the value conforms to its schema.
  \<^item> \<open>Handshake\<close>: \<open>message.ts\<close>, \<open>closeFrame.ts\<close>, \<open>codec.ts\<close>; the locale \<open>wire_codec\<close> is their
    contract and is interpreted on each of the three (C6).

  \<^bold>\<open>Connections and rooms\<close> (\<open>core/src\<close>, \<open>node/src\<close>, \<open>browser/src\<close>).
  \<^item> \<open>Chunker\<close>: \<open>peer/RtcFrameChunker.ts\<close> of both packages: splitting, detection, reassembly,
    expiry (C9).
  \<^item> \<open>Transport_Ws\<close>: \<open>node/src/WSTransport.ts\<close>; \<open>Transport_Ws_Props\<close> follows a socket from its
    upgrade to its close: what it reports is exactly what arrived (C5). \<open>Transport_Rtc\<close>: \<open>node/src/RTCTransport.ts\<close>; \<open>Transport_Rtc_Props\<close>
    accounts for every actor behind a data channel whose id is granted once (C7; an id granted
    again is lost, \<open>readmitted_actor_never_closes\<close>). Sockets and channels are indices of
    records; the transport layer, the limiters and the platform answer through arguments.
  \<^item> \<open>Negotiation\<close>: \<open>node/src/peer/NegotiationCore.ts\<close>, both sides, with recorded calls on peer
    connections; \<open>Negotiation_Props\<close>: the host's admission control (C27).
    \<open>Browser_Host\<close>: \<open>browser/src/RTCTransport.ts\<close>, each of whose steps is shown to be a step of the
    node's transport, and the host of \<open>browser/src/peer/NegotiationCore.ts\<close>.
  \<^item> \<open>Client_Node\<close>: \<open>node/src/WSClient.ts\<close> and \<open>core/src/Client.ts\<close>. \<open>Client_Browser\<close>:
    \<open>browser/src/WSClient.ts\<close>, with retry timers and ticket calls as state; reconnection ends
    and says so once (C24).
    \<open>Client_Rtc\<close>: \<open>node/src/RTCClient.ts\<close> and where \<open>browser/src/RTCClient.ts\<close> differs;
    \<open>Client_Rtc_Props\<close> shows that streams pass intact both ways (C8), how often it negotiates
    and that a loss is reported once.
  \<^item> \<open>RateLimit\<close>: \<open>TokenBucketRateLimiter.ts\<close> over real-valued tokens; the bounds on
    its memory and on the rate it admits (C12).
  \<^item> \<open>Auth\<close>: \<open>timingSafeCompare\<close> is equality of the encoded strings.
  \<^item> \<open>Core\<close>: \<open>TLayer.ts\<close>, \<open>Room.ts\<close>, \<open>RoomManager.ts\<close> and the room part of
    \<open>Rivalis.shutdown\<close> as one world: the transport layer calls rooms, rooms call back into the
    layer, application hooks are scripts of framework calls. \<open>Core_Invariants\<close> and
    \<open>Core_Steps\<close> prove the invariant over reachable worlds, \<open>Core_Props\<close> the properties
    (C14--C20). Fuel bounds the nesting of hooks that trigger hooks. \<open>Server\<close>: \<open>Config.ts\<close>, the
    disposal of transports in \<open>Rivalis.shutdown\<close> with its deadline, the legacy authentication bridge.

  \<^bold>\<open>Signalling\<close> (\<open>signal/src\<close>).
  \<^item> \<open>Signal_Wire\<close>, \<open>Signal_Wire_Props\<close>: \<open>wire/index.ts\<close>. \<open>Signal_Room\<close>, \<open>Signal_Room_Props\<close>:
    \<open>SignalRoom.ts\<close> inside the base class's join, leave and dispatch: who hosts, and what is
    relayed (C10, C21).
  \<^item> \<open>Signal_Auth\<close>: \<open>SignalAuthMiddleware.ts\<close>, \<open>IceConfig.ts\<close>, \<open>DevStunResponder.ts\<close>: which tickets
    open a room, the credentials, the STUN answer and the life of its socket.

  \<^bold>\<open>Fleet\<close> (\<open>fleet/src\<close>).
  \<^item> \<open>Fleet_RoomId\<close> (\<open>domain/roomId.ts\<close>), \<open>Fleet_Canonical\<close> (\<open>util/canonical.ts\<close>, C22),
    \<open>Fleet_Domain\<close> (\<open>domain/types.ts\<close>, \<open>domain/errors.ts\<close>, payload rows).
  \<^item> \<open>Fleet_State\<close>: every method of \<open>orchestrator/FleetState.ts\<close>: snapshots, id resolution,
    queries with their memo, placement, reservations. \<open>Fleet_Resolve\<close> specifies the resolved view,
    \<open>Fleet_State_Inv\<close> proves the invariant (counters and caches are exact), \<open>Fleet_State_Props\<close> the
    properties (C23, C25, C26, C28, C29). \<open>generateFreeRoomId\<close> tries 1000 ids and then fails with
    \<open>ROOM_EXISTS\<close>, as the source does.
  \<^item> \<open>Fleet_Commands\<close>: \<open>orchestrator/CommandEngine.ts\<close> over any \<open>ReservationReleaser\<close>, which is
    a record of functions; \<open>Fleet_Commands_Inv\<close> has the locale \<open>reservation_releaser\<close> with the
    laws of the interface, proves there that reservations follow their command, and interprets it
    on \<open>Fleet_State\<close>.
  \<^item> \<open>Fleet_Poller\<close>: \<open>orchestrator/Poller.ts\<close> (C30, C31). \<open>Fleet_Events\<close>:
    \<open>orchestrator/EventReconciler.ts\<close>, with a subscriber as its specification.
  \<^item> \<open>Fleet_Wire\<close>, \<open>Fleet_Wire_Props\<close>: \<open>wire/serializer.ts\<close>, \<open>payloads.ts\<close>, \<open>topics.ts\<close> (C32).
    The protobuf library is not in the repository: its two functions and the value of an unset
    field are parameters, the locale \<open>message_library\<close> is what the code relies on, and the
    serializer of the handshake package, documented as wire-compatible, is its interpretation.
  \<^item> \<open>Fleet_Snapshot\<close>, \<open>Fleet_Snapshot_Props\<close>: \<open>wire/snapshotSchema.ts\<close> (C33); the URL parser of
    the platform is a parameter.
  \<^item> \<open>Fleet_Orchestrator\<close>: \<open>orchestrator/Orchestrator.ts\<close> and \<open>FleetControl.ts\<close> wired as the
    constructor wires them. \<open>Fleet_Orchestrator_Inv\<close> proves the invariant of every reachable state,
    \<open>Fleet_Orchestrator_Props\<close> what it means: reservations never leak, calls complete once, the
    event stream is exact, departures are complete, unsolicited frames are punished (C34--C38). A
    step is one handler, one timer, one call of the control API or one continuation of a settled
    promise, so any interleaving of them is covered.
  \<^item> \<open>Fleet_Config\<close>: option resolution, the credential policy and the key match
    (\<open>orchestrator/config.ts\<close> and its neighbours). \<open>Fleet_Http\<close>, \<open>Fleet_Http_Props\<close>: the guards of the
    control plane, throttle, authentication and conditional answers (C13: the guesses of a source, with
    what an eviction at the cap of buckets gives back).
  \<^item> \<open>Agent_Snapshot\<close>, \<open>Agent\<close>: \<open>agent/Snapshot.ts\<close> and \<open>agent/FleetAgent.ts\<close> inside the process that
    hosts them, with its client, its server's rooms and its timers. \<open>Agent_Inv\<close> and \<open>Agent_Props\<close> prove
    the invariant of reachable processes and that no promise is lost (C39), \<open>Agent_Commands\<close> what a
    command does (C40), \<open>Agent_Sync\<close> composes agent, wire, checks and read model: one poll
    exchange makes the orchestrator hold the rooms of the agent (C4).

  \<^bold>\<open>Parameters\<close>. Randomness, clocks, the SHA-256 and HMAC digests, generated actor ids, the protobuf
  library of the fleet, \<open>JSON.parse\<close>, \<open>URLSearchParams\<close>, the URL parser and regular expressions are
  arguments. Authentication and room hooks are application code and appear as values or scripts; event
  listeners of the fleet and of clients are assumed not to call back while they run. Sockets, data
  channels, peer connections and timers are the platform: they appear as state (what is open, what is
  armed) and as the events they fire, in any order.

  \<^bold>\<open>Bounds\<close>. Besides the fuel of \<open>Serializer\<close> and \<open>Core\<close> named above, whose exhaustion is an
  error value the theorems account for, every recursion is structural or on a decreasing measure.

  \<^bold>\<open>Simplifications\<close>. Token buckets, back-off delays and placement scores are exact reals where the
  source has doubles. \<open>js_int\<close> takes a string where a number is declared for \<open>NaN\<close>, so numeric strings are
  not parsed; \<open>get_prop\<close> reads own properties of objects, without the prototype chain and without the throw on
  \<open>null\<close>; no property depends on either. The limit \<open>rm_max\<close> of a room is that of its class: code that
  assigns \<open>maxActors\<close> of a living room is outside the model. The orchestrator gets its frames as bytes.

  \<^bold>\<open>Not modelled\<close>. The offering side of \<open>browser/src/peer/NegotiationCore.ts\<close> and the parts of
  \<open>browser/src/RTCClient.ts\<close> that repeat the node ones. The peer adapters
  (\<open>peer/RTCPeer.ts\<close>, \<open>SignalClient.ts\<close>) rename the calls and events of a native library. The REST
  routers are tables over the modelled control plane, whose framework and validation are third-party;
  the command line, environment access, server bootstraps and loggers start processes and do I/O; the
  demos and the landing page are applications. Log messages and error texts are left out except where
  a property is about them.
\<close>

end
